(* ===== verification/Prelude.thy ===== *)
theory Prelude
  imports Main "HOL-Library.Word" "HOL-Library.Char_ord" "HOL-Library.List_Lexorder"
    "HOL-Library.Sublist"
begin

text \<open>
  The part of the Rust language and standard library that the components share, and the lemmas
  about it that carry the component proofs.

  \<^item> A Rust \<^verbatim>\<open>String\<close> or \<^verbatim>\<open>&str\<close> is its sequence of UTF-8 bytes, an Isabelle \<open>string\<close>.
    \<^verbatim>\<open>len()\<close> and byte offsets are \<open>length\<close> and list positions. A Rust \<^verbatim>\<open>char\<close> is the byte
    sequence that encodes it (\<open>rchar\<close>), and \<^verbatim>\<open>chars()\<close> splits a text before every byte that
    is not a continuation byte.
  \<^item> \<^verbatim>\<open>u32\<close> and \<^verbatim>\<open>u64\<close> counters are naturals, with saturation written out at the width.
  \<^item> A \<^verbatim>\<open>BTreeMap\<close> is its sorted list of entries, a \<^verbatim>\<open>HashMap\<close> a list of entries with
    distinct keys whose order stands for the unspecified iteration order. Both are instances of
    the interface \<open>kv_map\<close> below.
\<close>

named_theorems text_simps \<open>evaluation of the standard library's text operations\<close>
named_theorems map_simps \<open>lookup after an update of a keyed collection\<close>

type_synonym rchar = string

section \<open>Bytes and characters\<close>

text \<open>A UTF-8 continuation byte has the form \<^verbatim>\<open>10xxxxxx\<close>.\<close>

fun is_cont :: "char \<Rightarrow> bool" where
  "is_cont (Char b0 b1 b2 b3 b4 b5 b6 b7) = (b7 \<and> \<not> b6)"

fun is_ascii :: "char \<Rightarrow> bool" where
  "is_ascii (Char b0 b1 b2 b3 b4 b5 b6 b7) = (\<not> b7)"

definition byte_val :: "char \<Rightarrow> nat" where
  "byte_val c = of_char c"

text \<open>\<^verbatim>\<open>str::chars\<close>.\<close>

function chars :: "string \<Rightarrow> rchar list" where
  "chars [] = []"
| "chars (c # cs) = (c # takeWhile is_cont cs) # chars (dropWhile is_cont cs)"
  by pat_completeness auto
termination
  by (relation "measure length") (auto simp: le_imp_less_Suc length_dropWhile_le)

definition char_count :: "string \<Rightarrow> nat" where
  "char_count s = length (chars s)"

definition take_chars :: "nat \<Rightarrow> string \<Rightarrow> string" where
  "take_chars n s = concat (take n (chars s))"

text \<open>The text starts at a character boundary, as every \<^verbatim>\<open>&str\<close> does.\<close>

definition starts_char :: "string \<Rightarrow> bool" where
  "starts_char s = (case s of [] \<Rightarrow> True | c # _ \<Rightarrow> \<not> is_cont c)"

text \<open>\<^verbatim>\<open>str::is_char_boundary\<close>.\<close>

definition is_char_boundary :: "string \<Rightarrow> nat \<Rightarrow> bool" where
  "is_char_boundary s i = (i \<le> length s \<and> starts_char (drop i s))"

definition ascii_digit :: "char \<Rightarrow> bool" where
  "ascii_digit c = (48 \<le> byte_val c \<and> byte_val c \<le> 57)"

definition ascii_hexdigit :: "char \<Rightarrow> bool" where
  "ascii_hexdigit c = (ascii_digit c \<or> (65 \<le> byte_val c \<and> byte_val c \<le> 70)
     \<or> (97 \<le> byte_val c \<and> byte_val c \<le> 102))"

definition ascii_upper :: "char \<Rightarrow> bool" where
  "ascii_upper c = (65 \<le> byte_val c \<and> byte_val c \<le> 90)"

definition ascii_lower_byte :: "char \<Rightarrow> char" where
  "ascii_lower_byte c = (if ascii_upper c then char_of (byte_val c + 32) else c)"

definition to_ascii_lowercase :: "string \<Rightarrow> string" where
  "to_ascii_lowercase s = map ascii_lower_byte s"

definition eq_ignore_ascii_case :: "string \<Rightarrow> string \<Rightarrow> bool" where
  "eq_ignore_ascii_case s t = (to_ascii_lowercase s = to_ascii_lowercase t)"

text \<open>The Unicode property \<^verbatim>\<open>White_Space\<close>, \<^verbatim>\<open>char::is_whitespace\<close>, by UTF-8 encoding.\<close>

definition ws_chars :: "rchar list" where
  "ws_chars =
    [[CHR 0x20], [CHR 0x0A], [CHR 0x0D], [CHR 0x09], [CHR 0x0B], [CHR 0x0C],
     [CHR 0xC2, CHR 0x85], [CHR 0xC2, CHR 0xA0], [CHR 0xE1, CHR 0x9A, CHR 0x80],
     [CHR 0xE2, CHR 0x80, CHR 0x80], [CHR 0xE2, CHR 0x80, CHR 0x81],
     [CHR 0xE2, CHR 0x80, CHR 0x82], [CHR 0xE2, CHR 0x80, CHR 0x83],
     [CHR 0xE2, CHR 0x80, CHR 0x84], [CHR 0xE2, CHR 0x80, CHR 0x85],
     [CHR 0xE2, CHR 0x80, CHR 0x86], [CHR 0xE2, CHR 0x80, CHR 0x87],
     [CHR 0xE2, CHR 0x80, CHR 0x88], [CHR 0xE2, CHR 0x80, CHR 0x89],
     [CHR 0xE2, CHR 0x80, CHR 0x8A], [CHR 0xE2, CHR 0x80, CHR 0xA8],
     [CHR 0xE2, CHR 0x80, CHR 0xA9], [CHR 0xE2, CHR 0x80, CHR 0xAF],
     [CHR 0xE2, CHR 0x81, CHR 0x9F], [CHR 0xE3, CHR 0x80, CHR 0x80]]"

definition is_whitespace :: "rchar \<Rightarrow> bool" where
  "is_whitespace ch = (ch \<in> set ws_chars)"

definition trim_start :: "string \<Rightarrow> string" where
  "trim_start s = concat (dropWhile is_whitespace (chars s))"

definition trim_end :: "string \<Rightarrow> string" where
  "trim_end s = concat (rev (dropWhile is_whitespace (rev (chars s))))"

definition trim :: "string \<Rightarrow> string" where
  "trim s = trim_end (trim_start s)"

text \<open>\<^verbatim>\<open>s.trim().is_empty()\<close>.\<close>

definition blank :: "string \<Rightarrow> bool" where
  "blank s = (trim s = [])"

section \<open>Searching and splitting text\<close>

definition starts_with :: "string \<Rightarrow> string \<Rightarrow> bool" where
  "starts_with s p = (take (length p) s = p)"

definition ends_with :: "string \<Rightarrow> string \<Rightarrow> bool" where
  "ends_with s p = (length p \<le> length s \<and> drop (length s - length p) s = p)"

definition strip_prefix :: "string \<Rightarrow> string \<Rightarrow> string option" where
  "strip_prefix p s = (if starts_with s p then Some (drop (length p) s) else None)"

text \<open>\<^verbatim>\<open>str::find\<close>: the offset of the first occurrence.\<close>

fun find_str :: "string \<Rightarrow> string \<Rightarrow> nat option" where
  "find_str p [] = (if p = [] then Some 0 else None)"
| "find_str p (c # cs) =
     (if starts_with (c # cs) p then Some 0 else map_option Suc (find_str p cs))"

definition contains_str :: "string \<Rightarrow> string \<Rightarrow> bool" where
  "contains_str s p = (find_str p s \<noteq> None)"

text \<open>\<^verbatim>\<open>str::split\<close> at a one-byte separator: always at least one piece.\<close>

fun split_char :: "char \<Rightarrow> string \<Rightarrow> string list" where
  "split_char d [] = [[]]"
| "split_char d (c # cs) =
     (if c = d then [] # split_char d cs
      else (case split_char d cs of [] \<Rightarrow> [[c]] | l # ls \<Rightarrow> (c # l) # ls))"

fun join :: "string \<Rightarrow> string list \<Rightarrow> string" where
  "join sep [] = []"
| "join sep [s] = s"
| "join sep (s # t # ss) = s @ sep @ join sep (t # ss)"

text \<open>\<^verbatim>\<open>str::replace\<close> of a two-byte pattern and of a one-byte pattern.\<close>

fun replace2 :: "char \<Rightarrow> char \<Rightarrow> string \<Rightarrow> string \<Rightarrow> string" where
  "replace2 a b r (c # d # cs) =
     (if c = a \<and> d = b then r @ replace2 a b r cs else c # replace2 a b r (d # cs))"
| "replace2 a b r cs = cs"

definition replace1 :: "char \<Rightarrow> string \<Rightarrow> string \<Rightarrow> string" where
  "replace1 a r s = concat (map (\<lambda>c. if c = a then r else [c]) s)"

text \<open>\<^verbatim>\<open>str::replace\<close> of any nonempty pattern.\<close>

function replace_str :: "string \<Rightarrow> string \<Rightarrow> string \<Rightarrow> string" where
  "replace_str p r [] = []"
| "replace_str p r (c # cs) =
     (if p \<noteq> [] \<and> starts_with (c # cs) p then r @ replace_str p r (drop (length p) (c # cs))
      else c # replace_str p r cs)"
  by pat_completeness auto
termination
  by (relation "measure (\<lambda>(p, r, s). length s)") (auto simp: Suc_diff_le neq_Nil_conv)

text \<open>\<^verbatim>\<open>str::split_inclusive('\n')\<close>: the pieces end after their line feed.\<close>

fun split_inclusive :: "char \<Rightarrow> string \<Rightarrow> string list" where
  "split_inclusive d [] = []"
| "split_inclusive d (c # cs) =
     (if c = d then [c] # split_inclusive d cs
      else (case split_inclusive d cs of [] \<Rightarrow> [[c]] | l # ls \<Rightarrow> (c # l) # ls))"

text \<open>\<^verbatim>\<open>str::split_whitespace\<close>.\<close>

fun ws_words :: "string \<Rightarrow> rchar list \<Rightarrow> string list" where
  "ws_words cur [] = (if cur = [] then [] else [cur])"
| "ws_words cur (ch # chs) =
     (if is_whitespace ch then (if cur = [] then ws_words [] chs else cur # ws_words [] chs)
      else ws_words (cur @ ch) chs)"

definition split_whitespace :: "string \<Rightarrow> string list" where
  "split_whitespace s = ws_words [] (chars s)"

section \<open>Numbers as text\<close>

definition digit_char :: "nat \<Rightarrow> char" where
  "digit_char d = (''0123456789abcdef'' ! d)"

fun nat_str :: "nat \<Rightarrow> string" where
  "nat_str n = (if n < 10 then [digit_char n] else nat_str (n div 10) @ [digit_char (n mod 10)])"

declare nat_str.simps [simp del]

text \<open>\<^verbatim>\<open>format!("{:0w$x}")\<close> of a value below \<^verbatim>\<open>16^w\<close>.\<close>

fun hex_str :: "nat \<Rightarrow> nat \<Rightarrow> string" where
  "hex_str 0 n = []"
| "hex_str (Suc w) n = hex_str w (n div 16) @ [digit_char (n mod 16)]"

text \<open>The 64-bit FNV-1a hash the code uses as a stable fingerprint of a text.\<close>

fun fnv1a :: "64 word \<Rightarrow> string \<Rightarrow> 64 word" where
  "fnv1a h [] = h"
| "fnv1a h (c # cs) = fnv1a (xor h (of_nat (byte_val c)) * 0x100000001b3) cs"

definition stable_hash_hex :: "string \<Rightarrow> string" where
  "stable_hash_hex s = hex_str 16 (unat (fnv1a 0xcbf29ce484222325 s))"

definition u32_max :: nat where "u32_max = 2 ^ 32 - 1"
definition u64_max :: nat where "u64_max = 2 ^ 64 - 1"

definition sat_add32 :: "nat \<Rightarrow> nat \<Rightarrow> nat" where "sat_add32 a b = min (a + b) u32_max"
definition sat_add :: "nat \<Rightarrow> nat \<Rightarrow> nat" where "sat_add a b = min (a + b) u64_max"
definition sat_mul :: "nat \<Rightarrow> nat \<Rightarrow> nat" where "sat_mul a b = min (a * b) u64_max"

section \<open>Options\<close>

text \<open>\<^verbatim>\<open>Option::or_else\<close> and \<^verbatim>\<open>Option::filter\<close>.\<close>

definition or_else :: "'a option \<Rightarrow> 'a option \<Rightarrow> 'a option" where
  "or_else a b = (case a of None \<Rightarrow> b | Some x \<Rightarrow> Some x)"

definition opt_filter :: "('a \<Rightarrow> bool) \<Rightarrow> 'a option \<Rightarrow> 'a option" where
  "opt_filter p a = (case a of None \<Rightarrow> None | Some x \<Rightarrow> if p x then Some x else None)"

definition unwrap_or :: "'a \<Rightarrow> 'a option \<Rightarrow> 'a" where
  "unwrap_or d a = (case a of None \<Rightarrow> d | Some x \<Rightarrow> x)"

definition is_some_and :: "('a \<Rightarrow> bool) \<Rightarrow> 'a option \<Rightarrow> bool" where
  "is_some_and p a = (case a of None \<Rightarrow> False | Some x \<Rightarrow> p x)"

lemma or_else_simps [simp]: "or_else None b = b" "or_else (Some x) b = Some x"
  by (simp_all add: or_else_def)

lemma or_else_None_iff [simp]: "or_else a b = None \<longleftrightarrow> a = None \<and> b = None"
  by (cases a) auto

lemma opt_filter_None [simp]: "opt_filter p None = None"
  by (simp add: opt_filter_def)

lemma opt_filter_Some: "opt_filter p (Some x) = (if p x then Some x else None)"
  by (simp add: opt_filter_def)

lemma opt_filter_eq_Some [simp]: "opt_filter p a = Some x \<longleftrightarrow> a = Some x \<and> p x"
  by (cases a) (auto simp: opt_filter_def)

lemma unwrap_or_simps [simp]: "unwrap_or d None = d" "unwrap_or d (Some x) = x"
  by (simp_all add: unwrap_or_def)

lemma is_some_and_simps [simp]: "is_some_and p None = False" "is_some_and p (Some x) = p x"
  by (simp_all add: is_some_and_def)

lemma is_some_and_iff: "is_some_and p a \<longleftrightarrow> (\<exists>x. a = Some x \<and> p x)"
  by (cases a) auto

lemma in_map_filter: "y \<in> set (List.map_filter f xs) \<longleftrightarrow> (\<exists>x \<in> set xs. f x = Some y)"
  by (force simp: List.map_filter_def)

section \<open>Lemmas on characters and text\<close>

lemma concat_chars [simp]: "concat (chars s) = s"
  by (induction s rule: chars.induct) auto

lemma chars_Nil_iff [simp]: "chars s = [] \<longleftrightarrow> s = []"
  by (cases s) auto

lemma chars_nonempty: "ch \<in> set (chars s) \<Longrightarrow> ch \<noteq> []"
  by (induction s rule: chars.induct) auto

lemma chars_append: "starts_char t \<Longrightarrow> chars (s @ t) = chars s @ chars t"
proof (induction s rule: chars.induct)
  case (2 c cs)
  show ?case
  proof (cases "\<forall>x\<in>set cs. is_cont x")
    case True
    then have tw: "takeWhile is_cont cs = cs" and "dropWhile is_cont cs = []"
      by (auto simp: takeWhile_eq_all_conv)
    with 2 True show ?thesis
      by (cases t) (auto simp: starts_char_def takeWhile_append dropWhile_append tw)
  next
    case False
    with 2 show ?thesis
      by (auto simp: takeWhile_append1 dropWhile_append1)
  qed
qed simp

lemma char_count_append: "starts_char t \<Longrightarrow> char_count (s @ t) = char_count s + char_count t"
  by (simp add: char_count_def chars_append)

lemma char_count_le_length: "char_count s \<le> length s"
proof (induction s rule: chars.induct)
  case (2 c cs)
  have "length (dropWhile is_cont cs) \<le> length cs" by (rule length_dropWhile_le)
  with 2 show ?case by (simp add: char_count_def)
qed (simp add: char_count_def)

lemma char_count_Nil [simp]: "char_count [] = 0"
  by (simp add: char_count_def)

lemma length_concat_take_le: "length (concat (take n xss)) \<le> length (concat xss)"
  by (metis append_take_drop_id concat_append le_add1 length_append)

lemma take_chars_le: "length (take_chars n s) \<le> length s"
  using length_concat_take_le [of n "chars s"] by (simp add: take_chars_def)

text \<open>Pieces of \<open>chars s\<close> put together split again into the same pieces.\<close>

definition char_piece :: "rchar \<Rightarrow> bool" where
  "char_piece ch = (case ch of [] \<Rightarrow> False | _ # cs \<Rightarrow> list_all is_cont cs)"

lemma chars_pieces: "starts_char s \<Longrightarrow> ch \<in> set (chars s) \<Longrightarrow> char_piece ch \<and> starts_char ch"
proof (induction s rule: chars.induct)
  case (2 c cs)
  have "starts_char (dropWhile is_cont cs)"
    by (metis hd_dropWhile list.case(1) list.case(2) list.collapse starts_char_def)
  with 2 show ?case
    by (auto simp: char_piece_def starts_char_def list_all_iff dest: set_takeWhileD)
qed simp

lemma chars_piece: "char_piece ch \<Longrightarrow> chars ch = [ch]"
  by (cases ch) (auto simp: char_piece_def list_all_iff takeWhile_eq_all_conv)

lemma starts_char_concat: "\<forall>ch \<in> set chs. starts_char ch \<Longrightarrow> starts_char (concat chs)"
proof (induction chs)
  case (Cons ch chs)
  then show ?case by (cases ch) (auto simp: starts_char_def)
qed (simp add: starts_char_def)

lemma chars_concat:
  "\<forall>ch \<in> set chs. char_piece ch \<and> starts_char ch \<Longrightarrow> chars (concat chs) = chs"
  by (induction chs) (auto simp: chars_append starts_char_concat chars_piece)

lemma chars_take_chars: "starts_char s \<Longrightarrow> chars (take_chars n s) = take n (chars s)"
  unfolding take_chars_def by (rule chars_concat) (auto dest: in_set_takeD chars_pieces)

lemma char_count_take_chars: "starts_char s \<Longrightarrow> char_count (take_chars n s) = min n (char_count s)"
  by (simp add: char_count_def chars_take_chars)

lemma starts_char_take: "starts_char s \<Longrightarrow> starts_char (take n s)"
  by (cases s; cases n) (auto simp: starts_char_def)

lemma starts_with_refl [simp]: "starts_with s s"
  by (simp add: starts_with_def)

lemma starts_with_Nil [simp]: "starts_with s []"
  by (simp add: starts_with_def)

lemma starts_with_iff: "starts_with s p \<longleftrightarrow> (\<exists>r. s = p @ r)"
  unfolding starts_with_def by (metis append_eq_conv_conj)

lemma strip_prefix_append [simp]: "strip_prefix p (p @ r) = Some r"
  by (simp add: strip_prefix_def starts_with_def)

lemma strip_prefix_Some: "strip_prefix p s = Some r \<longleftrightarrow> s = p @ r"
  by (auto simp: strip_prefix_def starts_with_iff)

lemma split_char_nonempty [simp]: "split_char d s \<noteq> []"
  by (cases s) (auto split: list.splits)

lemma join_split_char: "join [d] (split_char d s) = s"
proof (induction s)
  case (Cons c cs)
  then show ?case
    by (cases "split_char d cs"; cases "tl (split_char d cs)") auto
qed simp

lemma split_char_sep_free: "l \<in> set (split_char d s) \<Longrightarrow> d \<notin> set l"
proof (induction s arbitrary: l)
  case (Cons c cs)
  then show ?case
    by (cases "split_char d cs") (auto split: if_splits)
qed simp

lemma concat_split_inclusive [simp]: "concat (split_inclusive d s) = s"
  by (induction s) (auto split: list.splits)

lemma to_ascii_lowercase_append:
  "to_ascii_lowercase (s @ t) = to_ascii_lowercase s @ to_ascii_lowercase t"
  by (simp add: to_ascii_lowercase_def)

lemma ascii_lower_byte_idem: "ascii_lower_byte (ascii_lower_byte c) = ascii_lower_byte c"
proof (cases "ascii_upper c")
  case True
  then have "byte_val (char_of (byte_val c + 32) :: char) = byte_val c + 32"
    by (simp add: byte_val_def ascii_upper_def)
  with True show ?thesis
    by (simp add: ascii_lower_byte_def ascii_upper_def)
qed (simp add: ascii_lower_byte_def)

lemma to_ascii_lowercase_idem [simp]:
  "to_ascii_lowercase (to_ascii_lowercase s) = to_ascii_lowercase s"
  by (simp add: to_ascii_lowercase_def ascii_lower_byte_idem)

lemma length_to_ascii_lowercase [simp]: "length (to_ascii_lowercase s) = length s"
  by (simp add: to_ascii_lowercase_def)

lemma length_hex_str [simp]: "length (hex_str w n) = w"
  by (induction w arbitrary: n) auto

lemma digit_char_below10:
  assumes "d < 10"
  shows "ascii_digit (digit_char d)" and "digit_char d = digit_char e \<Longrightarrow> e < 10 \<Longrightarrow> d = e"
proof -
  have *: "\<forall>d \<in> {0..<10}. ascii_digit (digit_char d) \<and> (\<forall>e \<in> {0..<10}. digit_char d = digit_char e \<longrightarrow> d = e)"
    by code_simp
  show "ascii_digit (digit_char d)" using * assms by simp
  show "digit_char d = digit_char e \<Longrightarrow> e < 10 \<Longrightarrow> d = e" using * assms by simp
qed

lemma nat_str_nonempty [simp]: "nat_str n \<noteq> []"
  by (subst nat_str.simps) simp

lemma nat_str_digits: "c \<in> set (nat_str n) \<Longrightarrow> ascii_digit c"
proof (induction n rule: nat_str.induct)
  case (1 n)
  from 1(2) have "c = digit_char (n mod 10) \<or> (\<not> n < 10 \<and> c \<in> set (nat_str (n div 10)))"
    by (subst (asm) nat_str.simps) (auto split: if_splits)
  with 1(1) digit_char_below10(1) show ?case by auto
qed

lemma nat_str_length: "n < 10 ^ Suc k \<Longrightarrow> length (nat_str n) \<le> Suc k"
proof (induction k arbitrary: n)
  case 0
  then show ?case by (subst nat_str.simps) simp
next
  case (Suc k)
  then have "n div 10 < 10 ^ Suc k" by (simp add: less_mult_imp_div_less)
  from Suc.IH [OF this] show ?case by (subst nat_str.simps) simp
qed

lemma nat_str_inj: "nat_str m = nat_str n \<Longrightarrow> m = n"
proof (induction m arbitrary: n rule: nat_str.induct)
  case (1 m)
  show ?case
  proof (cases "m < 10"; cases "n < 10")
    assume "m < 10" "n < 10"
    then show ?thesis using 1(2) digit_char_below10(2) [of m n] by (simp add: nat_str.simps [of m] nat_str.simps [of n])
  next
    assume "\<not> m < 10" "\<not> n < 10"
    then have "nat_str (m div 10) = nat_str (n div 10)" "digit_char (m mod 10) = digit_char (n mod 10)"
      using 1(2) by (simp_all add: nat_str.simps [of m] nat_str.simps [of n])
    then have "m div 10 = n div 10" "m mod 10 = n mod 10"
      using 1(1) \<open>\<not> m < 10\<close> digit_char_below10(2) [of "m mod 10" "n mod 10"] by auto
    then show ?thesis by (metis div_mult_mod_eq)
  qed (use 1(2) in \<open>auto simp: nat_str.simps [of m] nat_str.simps [of n] Cons_eq_append_conv append_eq_Cons_conv\<close>)
qed

end
