(* ===== verification/Keyed_Maps.thy ===== *)
theory Keyed_Maps
  imports Prelude
begin

text \<open>
  Rust's keyed collections. A \<^verbatim>\<open>BTreeMap\<close> (\<open>om_\<close> operations) is the list of its entries in key
  order, a \<^verbatim>\<open>HashMap\<close> (\<open>hm_\<close> operations) a list of entries with distinct keys. The interface
  \<open>kv_map\<close> states what the clients rely on; both collections interpret it. The section on
  eviction models the loop \<^verbatim>\<open>while map.len() > CAP { remove the entry with the oldest stamp }\<close>
  that the bounded stores of the proxy share.
\<close>

section \<open>Operations\<close>

fun om_insert :: "'k::linorder \<Rightarrow> 'v \<Rightarrow> ('k \<times> 'v) list \<Rightarrow> ('k \<times> 'v) list" where
  "om_insert k v [] = [(k, v)]"
| "om_insert k v ((a, b) # m) =
     (if k < a then (k, v) # (a, b) # m
      else if k = a then (k, v) # m
      else (a, b) # om_insert k v m)"

fun hm_insert :: "'k \<Rightarrow> 'v \<Rightarrow> ('k \<times> 'v) list \<Rightarrow> ('k \<times> 'v) list" where
  "hm_insert k v [] = [(k, v)]"
| "hm_insert k v ((a, b) # m) = (if k = a then (k, v) # m else (a, b) # hm_insert k v m)"

definition kv_remove :: "'k \<Rightarrow> ('k \<times> 'v) list \<Rightarrow> ('k \<times> 'v) list" where
  "kv_remove k m = filter (\<lambda>e. fst e \<noteq> k) m"

definition om_ok :: "('k::linorder \<times> 'v) list \<Rightarrow> bool" where
  "om_ok m = sorted_wrt (<) (map fst m)"

definition hm_ok :: "('k \<times> 'v) list \<Rightarrow> bool" where
  "hm_ok m = distinct (map fst m)"

section \<open>The interface of a keyed collection\<close>

locale kv_map =
  fixes ok :: "('k \<times> 'v) list \<Rightarrow> bool"
    and ins :: "'k \<Rightarrow> 'v \<Rightarrow> ('k \<times> 'v) list \<Rightarrow> ('k \<times> 'v) list"
    and del :: "'k \<Rightarrow> ('k \<times> 'v) list \<Rightarrow> ('k \<times> 'v) list"
  assumes look_ins: "map_of (ins k v m) = (map_of m)(k \<mapsto> v)"
    and look_del: "map_of (del k m) = (map_of m)(k := None)"
    and ok_empty: "ok []"
    and ok_ins: "ok m \<Longrightarrow> ok (ins k v m)"
    and ok_del: "ok m \<Longrightarrow> ok (del k m)"
    and ok_distinct: "ok m \<Longrightarrow> distinct (map fst m)"
begin

lemma look_ins_other: "k \<noteq> k' \<Longrightarrow> map_of (ins k v m) k' = map_of m k'"
  by (simp add: look_ins)

lemma keys_ins: "fst ` set (ins k v m) = insert k (fst ` set m)"
  by (metis dom_fun_upd dom_map_of_conv_image_fst look_ins option.distinct(1))

lemma keys_del: "fst ` set (del k m) = fst ` set m - {k}"
  by (metis dom_fun_upd dom_map_of_conv_image_fst look_del)

lemma length_card: "ok m \<Longrightarrow> length m = card (fst ` set m)"
  using ok_distinct distinct_card [of "map fst m"] by simp

lemma length_ins:
  assumes "ok m"
  shows "length (ins k v m) = (if k \<in> fst ` set m then length m else Suc (length m))"
proof -
  have "length (ins k v m) = card (insert k (fst ` set m))"
    using length_card [OF ok_ins [OF assms]] by (simp add: keys_ins)
  then show ?thesis using length_card [OF assms] by (auto simp: insert_absorb)
qed

lemma set_ins:
  assumes "ok m"
  shows "set (ins k v m) = insert (k, v) {e \<in> set m. fst e \<noteq> k}"
proof -
  have "(a, b) \<in> set (ins k v m) \<longleftrightarrow> (a, b) \<in> insert (k, v) {e \<in> set m. fst e \<noteq> k}" for a b
  proof -
    have "(a, b) \<in> set (ins k v m) \<longleftrightarrow> map_of (ins k v m) a = Some b"
      using ok_distinct [OF ok_ins [OF assms]] by simp
    also have "\<dots> \<longleftrightarrow> (if a = k then b = v else map_of m a = Some b)"
      by (auto simp: look_ins)
    also have "\<dots> \<longleftrightarrow> (a, b) \<in> insert (k, v) {e \<in> set m. fst e \<noteq> k}"
      using ok_distinct [OF assms] by auto
    finally show ?thesis .
  qed
  then show ?thesis by auto
qed

end

lemma map_of_om_insert [map_simps]: "map_of (om_insert k v m) = (map_of m)(k \<mapsto> v)"
  by (induction k v m rule: om_insert.induct) auto

lemma map_of_hm_insert [map_simps]: "map_of (hm_insert k v m) = (map_of m)(k \<mapsto> v)"
  by (induction k v m rule: hm_insert.induct) auto

lemma map_of_kv_remove [map_simps]: "map_of (kv_remove k m) = (map_of m)(k := None)"
  by (induction m) (auto simp: kv_remove_def)

lemma om_insert_keys: "fst ` set (om_insert k v m) = insert k (fst ` set m)"
  by (induction k v m rule: om_insert.induct) auto

lemma hm_insert_keys: "fst ` set (hm_insert k v m) = insert k (fst ` set m)"
  by (induction k v m rule: hm_insert.induct) auto

lemma om_ok_Cons [simp]: "om_ok (e # m) \<longleftrightarrow> (\<forall>e' \<in> set m. fst e < fst e') \<and> om_ok m"
  by (auto simp: om_ok_def)

lemma om_ok_Nil [simp]: "om_ok []"
  by (simp add: om_ok_def)

lemma om_ok_insert [intro]: "om_ok m \<Longrightarrow> om_ok (om_insert k v m)"
proof (induction k v m rule: om_insert.induct)
  case (2 k v a b m)
  have "\<forall>e' \<in> set (om_insert k v m). fst e' = k \<or> fst e' \<in> fst ` set m"
    using om_insert_keys [of k v m] by auto
  with 2 show ?case by fastforce
qed simp

lemma om_ok_filter: "om_ok m \<Longrightarrow> om_ok (filter p m)"
  by (induction m) auto

lemma om_ok_remove [intro]: "om_ok m \<Longrightarrow> om_ok (kv_remove k m)"
  by (simp add: kv_remove_def om_ok_filter)

lemma om_ok_distinct: "om_ok m \<Longrightarrow> distinct (map fst m)"
  by (simp add: om_ok_def strict_sorted_iff)

lemma hm_ok_insert [intro]: "hm_ok m \<Longrightarrow> hm_ok (hm_insert k v m)"
proof (induction k v m rule: hm_insert.induct)
  case (2 k v a b m)
  then show ?case using hm_insert_keys [of k v m] by (auto simp: hm_ok_def)
qed (simp add: hm_ok_def)

lemma hm_ok_filter: "hm_ok m \<Longrightarrow> hm_ok (filter p m)"
  by (simp add: hm_ok_def distinct_map_filter)

lemma hm_ok_remove [intro]: "hm_ok m \<Longrightarrow> hm_ok (kv_remove k m)"
  by (simp add: kv_remove_def hm_ok_filter)

interpretation btree: kv_map "om_ok :: ('k::linorder \<times> 'v) list \<Rightarrow> bool" om_insert kv_remove
  by unfold_locales (auto simp: map_simps om_ok_distinct)

interpretation hashmap: kv_map "hm_ok :: ('k \<times> 'v) list \<Rightarrow> bool" hm_insert kv_remove
  by unfold_locales (auto simp: map_simps hm_ok_def intro: hm_ok_insert [unfolded hm_ok_def]
      hm_ok_remove [unfolded hm_ok_def])

lemma kv_remove_length_less: "k \<in> fst ` set m \<Longrightarrow> length (kv_remove k m) < length m"
  unfolding kv_remove_def
  by (erule imageE) (rule length_filter_less, auto)

lemma set_kv_remove: "set (kv_remove k m) = {e \<in> set m. fst e \<noteq> k}"
  by (auto simp: kv_remove_def)

section \<open>Eviction of the oldest entry\<close>

text \<open>
  \<^verbatim>\<open>Iterator::min_by_key\<close> returns the first minimal element, \<^verbatim>\<open>max_by_key\<close> the last maximal one.
\<close>

fun min_by_key :: "('a \<Rightarrow> nat) \<Rightarrow> 'a list \<Rightarrow> 'a option" where
  "min_by_key f [] = None"
| "min_by_key f (x # xs) =
     (case min_by_key f xs of None \<Rightarrow> Some x | Some y \<Rightarrow> if f x \<le> f y then Some x else Some y)"

fun max_by_key :: "('a \<Rightarrow> nat) \<Rightarrow> 'a list \<Rightarrow> 'a option" where
  "max_by_key f [] = None"
| "max_by_key f (x # xs) =
     (case max_by_key f xs of None \<Rightarrow> Some x | Some y \<Rightarrow> if f y < f x then Some x else Some y)"

lemma min_by_key_None [simp]: "min_by_key f xs = None \<longleftrightarrow> xs = []"
  by (cases xs) (auto split: option.splits)

lemma min_by_key_Some:
  "min_by_key f xs = Some x \<Longrightarrow> x \<in> set xs \<and> (\<forall>y \<in> set xs. f x \<le> f y)"
  by (induction xs arbitrary: x) (fastforce split: option.splits if_splits)+

lemma max_by_key_None [simp]: "max_by_key f xs = None \<longleftrightarrow> xs = []"
  by (cases xs) (auto split: option.splits)

lemma max_by_key_Some:
  "max_by_key f xs = Some x \<Longrightarrow> x \<in> set xs \<and> (\<forall>y \<in> set xs. f y \<le> f x)"
  by (induction xs arbitrary: x) (fastforce split: option.splits if_splits)+

function evict_oldest ::
  "('v \<Rightarrow> nat) \<Rightarrow> nat \<Rightarrow> ('k \<times> 'v) list \<Rightarrow> ('k \<times> 'v) list \<times> 'k list" where
  "evict_oldest stamp cap m =
     (if length m \<le> cap then (m, [])
      else case min_by_key (\<lambda>e. stamp (snd e)) m of
        None \<Rightarrow> (m, [])
      | Some e \<Rightarrow> (let (m', ks) = evict_oldest stamp cap (kv_remove (fst e) m)
                  in (m', fst e # ks)))"
  by pat_completeness auto
termination
  by (relation "measure (\<lambda>(_, _, m). length m)")
    (auto dest!: min_by_key_Some intro!: kv_remove_length_less)

declare evict_oldest.simps [simp del]

lemma evict_oldest_fits: "length m \<le> cap \<Longrightarrow> evict_oldest stamp cap m = (m, [])"
  by (simp add: evict_oldest.simps)

lemma evict_oldest_step:
  assumes "\<not> length m \<le> cap"
  obtains e m' ks where "min_by_key (\<lambda>e. stamp (snd e)) m = Some e"
    and "evict_oldest stamp cap (kv_remove (fst e) m) = (m', ks)"
    and "evict_oldest stamp cap m = (m', fst e # ks)"
proof -
  from assms have "m \<noteq> []" by auto
  then obtain e where e: "min_by_key (\<lambda>e. stamp (snd e)) m = Some e"
    by (cases "min_by_key (\<lambda>e. stamp (snd e)) m") auto
  obtain m' ks where r: "evict_oldest stamp cap (kv_remove (fst e) m) = (m', ks)"
    by (cases "evict_oldest stamp cap (kv_remove (fst e) m)") auto
  from assms e r have "evict_oldest stamp cap m = (m', fst e # ks)"
    by (simp add: evict_oldest.simps [of stamp cap m])
  with that e r show thesis by blast
qed

lemma evict_oldest_length: "length (fst (evict_oldest stamp cap m)) \<le> cap"
proof (induction stamp cap m rule: evict_oldest.induct)
  case (1 stamp cap m)
  show ?case
  proof (cases "length m \<le> cap")
    case True then show ?thesis by (simp add: evict_oldest_fits)
  next
    case False
    then obtain e m' ks where "min_by_key (\<lambda>e. stamp (snd e)) m = Some e"
      and "evict_oldest stamp cap (kv_remove (fst e) m) = (m', ks)"
      and "evict_oldest stamp cap m = (m', fst e # ks)"
      by (rule evict_oldest_step)
    with "1.IH" [OF False, of e] show ?thesis by simp
  qed
qed

text \<open>What is kept is exactly what was there minus the evicted keys.\<close>

lemma evict_oldest_kept:
  "fst (evict_oldest stamp cap m) =
     filter (\<lambda>e. fst e \<notin> set (snd (evict_oldest stamp cap m))) m"
proof (induction stamp cap m rule: evict_oldest.induct)
  case (1 stamp cap m)
  show ?case
  proof (cases "length m \<le> cap")
    case True then show ?thesis by (simp add: evict_oldest_fits)
  next
    case False
    then obtain e m' ks where e: "min_by_key (\<lambda>e. stamp (snd e)) m = Some e"
      and r: "evict_oldest stamp cap (kv_remove (fst e) m) = (m', ks)"
      and s: "evict_oldest stamp cap m = (m', fst e # ks)"
      by (rule evict_oldest_step)
    from "1.IH" [OF False e] r have "m' = filter (\<lambda>x. fst x \<notin> set ks) (kv_remove (fst e) m)"
      by simp
    then have "m' = filter (\<lambda>x. fst x \<noteq> fst e \<and> fst x \<notin> set ks) m"
      by (simp add: kv_remove_def conj_commute)
    then show ?thesis by (simp add: s)
  qed
qed

text \<open>Oldest first: no kept entry has a smaller stamp than an evicted one.\<close>

lemma evict_oldest_order:
  assumes "distinct (map fst m)" and "(k, v) \<in> set m"
    and "k \<in> set (snd (evict_oldest stamp cap m))"
    and "(k', v') \<in> set (fst (evict_oldest stamp cap m))"
  shows "stamp v \<le> stamp v'"
  using assms
proof (induction stamp cap m rule: evict_oldest.induct)
  case (1 stamp cap m)
  show ?case
  proof (cases "length m \<le> cap")
    case True with 1 show ?thesis by (simp add: evict_oldest_fits)
  next
    case False
    then obtain e m' ks where e: "min_by_key (\<lambda>e. stamp (snd e)) m = Some e"
      and r: "evict_oldest stamp cap (kv_remove (fst e) m) = (m', ks)"
      and s: "evict_oldest stamp cap m = (m', fst e # ks)"
      by (rule evict_oldest_step)
    have kept: "(k', v') \<in> set m"
      using "1.prems"(4) evict_oldest_kept [of stamp cap m] by auto
    show ?thesis
    proof (cases "k = fst e")
      case True
      with e "1.prems"(1,2) have "e = (k, v)"
        by (metis eq_key_imp_eq_value min_by_key_Some prod.collapse)
      with min_by_key_Some [OF e] kept show ?thesis by fastforce
    next
      case False
      with "1.prems" s r have "distinct (map fst (kv_remove (fst e) m))"
        and "(k, v) \<in> set (kv_remove (fst e) m)"
        and "k \<in> set (snd (evict_oldest stamp cap (kv_remove (fst e) m)))"
        and "(k', v') \<in> set (fst (evict_oldest stamp cap (kv_remove (fst e) m)))"
        by (auto simp: kv_remove_def distinct_map_filter)
      then show ?thesis using "1.IH" [OF \<open>\<not> length m \<le> cap\<close> e] by blast
    qed
  qed
qed

lemma evict_oldest_subset: "set (snd (evict_oldest stamp cap m)) \<subseteq> fst ` set m"
proof (induction stamp cap m rule: evict_oldest.induct)
  case (1 stamp cap m)
  show ?case
  proof (cases "length m \<le> cap")
    case True then show ?thesis by (simp add: evict_oldest_fits)
  next
    case False
    then obtain e m' ks where e: "min_by_key (\<lambda>e. stamp (snd e)) m = Some e"
      and r: "evict_oldest stamp cap (kv_remove (fst e) m) = (m', ks)"
      and s: "evict_oldest stamp cap m = (m', fst e # ks)"
      by (rule evict_oldest_step)
    from "1.IH" [OF False e] r have "set ks \<subseteq> fst ` set (kv_remove (fst e) m)" by simp
    with s min_by_key_Some [OF e] show ?thesis by (auto simp: kv_remove_def)
  qed
qed

text \<open>Nothing leaves the map without being reported.\<close>

lemma evict_oldest_keys:
  "fst ` set (fst (evict_oldest stamp cap m)) \<union> set (snd (evict_oldest stamp cap m)) = fst ` set m"
  using evict_oldest_subset [of stamp cap m] by (subst evict_oldest_kept) auto

text \<open>An entry that is newer than all the others survives.\<close>

lemma evict_oldest_newest:
  assumes "distinct (map fst m)" and "(k, v) \<in> set m" and "0 < cap"
    and "\<And>k' v'. (k', v') \<in> set m \<Longrightarrow> k' \<noteq> k \<Longrightarrow> stamp v' < stamp v"
  shows "(k, v) \<in> set (fst (evict_oldest stamp cap m))"
  using assms
proof (induction stamp cap m rule: evict_oldest.induct)
  case (1 stamp cap m)
  show ?case
  proof (cases "length m \<le> cap")
    case True with 1 show ?thesis by (simp add: evict_oldest_fits)
  next
    case False
    then obtain e m' ks where e: "min_by_key (\<lambda>e. stamp (snd e)) m = Some e"
      and r: "evict_oldest stamp cap (kv_remove (fst e) m) = (m', ks)"
      and s: "evict_oldest stamp cap m = (m', fst e # ks)"
      by (rule evict_oldest_step)
    have "fst e \<noteq> k"
    proof
      assume "fst e = k"
      have "1 < length m" using False "1.prems"(3) by linarith
      then obtain a b r where "m = a # b # r" by (cases m; cases "tl m") auto
      with "1.prems"(1) have "\<exists>x \<in> set m. fst x \<noteq> k" by auto
      with "1.prems"(4) obtain x where x: "x \<in> set m" "stamp (snd x) < stamp v" by force
      from e \<open>fst e = k\<close> "1.prems"(1,2) have "e = (k, v)"
        by (metis eq_key_imp_eq_value min_by_key_Some prod.collapse)
      with min_by_key_Some [OF e] x show False by fastforce
    qed
    with "1.prems" have "distinct (map fst (kv_remove (fst e) m))"
      and "(k, v) \<in> set (kv_remove (fst e) m)"
      by (auto simp: kv_remove_def distinct_map_filter)
    moreover have "\<And>k' v'. (k', v') \<in> set (kv_remove (fst e) m) \<Longrightarrow> k' \<noteq> k \<Longrightarrow> stamp v' < stamp v"
      using "1.prems"(4) by (auto simp: kv_remove_def)
    ultimately show ?thesis using "1.IH" [OF False e] "1.prems"(3) r s by simp
  qed
qed

section \<open>Bounded stores with a time to live\<close>

text \<open>
  The stores of the proxy that forget (\<^verbatim>\<open>native_coordinator.rs\<close>, \<^verbatim>\<open>canonical.rs\<close>) drop the expired
  entries, file the new one and evict the oldest ones over the capacity. The contract of such a
  store: a keyed collection whose well-formedness survives filtering, a stamp per entry and a
  positive capacity. \<open>admit\<close> is the operation they share.
\<close>

definition admit ::
  "('k \<Rightarrow> 'v \<Rightarrow> ('k \<times> 'v) list \<Rightarrow> ('k \<times> 'v) list) \<Rightarrow> ('v \<Rightarrow> nat) \<Rightarrow> nat \<Rightarrow> ('v \<Rightarrow> bool)
     \<Rightarrow> 'k \<Rightarrow> 'v \<Rightarrow> ('k \<times> 'v) list \<Rightarrow> ('k \<times> 'v) list" where
  "admit insert_entry stamp cap live k v m =
     fst (evict_oldest stamp cap (insert_entry k v (filter (\<lambda>e. live (snd e)) m)))"

locale aged_store = kv_map ok ins del
  for ok :: "('k \<times> 'v) list \<Rightarrow> bool" and ins and del +
  fixes stamp :: "'v \<Rightarrow> nat" and cap :: nat
  assumes ok_filter: "ok m \<Longrightarrow> ok (filter p m)"
    and cap_pos: "0 < cap"
begin

lemma admit_ok: "ok m \<Longrightarrow> ok (admit ins stamp cap live k v m)"
  unfolding admit_def by (subst evict_oldest_kept) (intro ok_filter ok_ins)

lemma admit_length: "length (admit ins stamp cap live k v m) \<le> cap"
  unfolding admit_def by (rule evict_oldest_length)

lemma admit_set:
  assumes "ok m"
  shows "set (admit ins stamp cap live k v m) \<subseteq> insert (k, v) (set m)"
  unfolding admit_def
  by (subst evict_oldest_kept) (auto simp: set_ins [OF ok_filter [OF assms]])

lemma admit_newest:
  assumes "ok m" and "\<And>k' v'. (k', v') \<in> set m \<Longrightarrow> k' \<noteq> k \<Longrightarrow> stamp v' < stamp v"
  shows "map_of (admit ins stamp cap live k v m) k = Some v"
proof -
  let ?m = "ins k v (filter (\<lambda>e. live (snd e)) m)"
  note s = set_ins [OF ok_filter [OF assms(1)], of k v "\<lambda>e. live (snd e)"]
  have "(k, v) \<in> set (fst (evict_oldest stamp cap ?m))"
  proof (rule evict_oldest_newest [OF _ _ cap_pos])
    show "distinct (map fst ?m)" by (intro ok_distinct ok_ins ok_filter assms(1))
    show "(k, v) \<in> set ?m" by (simp add: s)
    show "stamp v' < stamp v" if "(k', v') \<in> set ?m" "k' \<noteq> k" for k' v'
      using that assms(2) by (auto simp: s)
  qed
  then show ?thesis
    using ok_distinct [OF admit_ok [OF assms(1)]] by (simp add: admit_def)
qed

end

end
