(* ===== verification/Json.thy ===== *)
theory Json
  imports Complex_Main Keyed_Maps
begin

text \<open>
  JSON values, the \<^verbatim>\<open>serde_json::Value\<close> that the proxy passes around. An object is a \<^verbatim>\<open>BTreeMap\<close>
  from keys to values (the crate is built without \<^verbatim>\<open>preserve_order\<close>), so its entries are kept
  in key order. A number is an unsigned integer, a negative integer or a finite binary fraction.

  What the proxy calls of third-party crates (printing and parsing JSON, base64, SHA-256) is a
  parameter of the model: the record \<open>ext_lib\<close>, an argument of the definitions that need it.
\<close>

datatype jnum = PosInt nat | NegInt int | JFloat rat

datatype json =
    JNull
  | JBool bool
  | JNum jnum
  | JStr string
  | JArr "json list"
  | JObj "(string \<times> json) list"

record ext_lib =
  json_to_string :: "json \<Rightarrow> string"
  json_from_str :: "string \<Rightarrow> json option"
  b64_decode_utf8 :: "string \<Rightarrow> string option"
  sha256 :: "string \<Rightarrow> string"

fun jget :: "json \<Rightarrow> string \<Rightarrow> json option" where
  "jget (JObj m) k = map_of m k"
| "jget _ k = None"

fun as_str :: "json \<Rightarrow> string option" where
  "as_str (JStr s) = Some s"
| "as_str _ = None"

fun as_array :: "json \<Rightarrow> json list option" where
  "as_array (JArr xs) = Some xs"
| "as_array _ = None"

fun as_object :: "json \<Rightarrow> (string \<times> json) list option" where
  "as_object (JObj m) = Some m"
| "as_object _ = None"

fun as_bool :: "json \<Rightarrow> bool option" where
  "as_bool (JBool b) = Some b"
| "as_bool _ = None"

fun as_u64 :: "json \<Rightarrow> nat option" where
  "as_u64 (JNum (PosInt n)) = Some n"
| "as_u64 _ = None"

definition get_str :: "json \<Rightarrow> string \<Rightarrow> string option" where
  "get_str v k = Option.bind (jget v k) as_str"

text \<open>\<^verbatim>\<open>Value::pointer\<close> with the reference tokens given as a list of object keys.\<close>

fun jpointer :: "json \<Rightarrow> string list \<Rightarrow> json option" where
  "jpointer v [] = Some v"
| "jpointer v (k # ks) = (case jget v k of None \<Rightarrow> None | Some w \<Rightarrow> jpointer w ks)"

text \<open>The \<^verbatim>\<open>json!\<close> macro on an object literal, and \<^verbatim>\<open>Map::insert\<close>.\<close>

definition jobj :: "(string \<times> json) list \<Rightarrow> json" where
  "jobj kvs = JObj (fold (\<lambda>(k, v). om_insert k v) kvs [])"

fun jinsert :: "string \<Rightarrow> json \<Rightarrow> json \<Rightarrow> json" where
  "jinsert k v (JObj m) = JObj (om_insert k v m)"
| "jinsert k v j = j"

fun jremove :: "string \<Rightarrow> json \<Rightarrow> json" where
  "jremove k (JObj m) = JObj (kv_remove k m)"
| "jremove k j = j"

definition jnat :: "nat \<Rightarrow> json" where
  "jnat n = JNum (PosInt n)"

definition jopt :: "('a \<Rightarrow> json) \<Rightarrow> 'a option \<Rightarrow> json" where
  "jopt f a = (case a of None \<Rightarrow> JNull | Some x \<Rightarrow> f x)"

section \<open>Lookup laws\<close>

lemma map_of_fold_om_insert:
  "map_of (fold (\<lambda>(k, v). om_insert k v) kvs m) k =
     (case map_of (rev kvs) k of None \<Rightarrow> map_of m k | Some v \<Rightarrow> Some v)"
proof (induction kvs arbitrary: m)
  case (Cons e kvs)
  obtain a b where e: "e = (a, b)" by (cases e)
  show ?case
    by (simp add: Cons.IH e map_simps map_add_def split: option.splits)
qed simp

lemma jget_jobj [simp]: "jget (jobj kvs) k = map_of (rev kvs) k"
  by (simp add: jobj_def map_of_fold_om_insert split: option.splits)

lemma jget_jinsert [simp]:
  "jget (jinsert k v j) k' =
     (case j of JObj m \<Rightarrow> if k' = k then Some v else jget j k' | _ \<Rightarrow> None)"
  by (cases j) (auto simp: map_simps)

lemma jget_jinsert_other: "k' \<noteq> k \<Longrightarrow> jget (jinsert k v j) k' = jget j k'"
  by (cases j) (auto simp: map_simps)

lemma jget_jremove [simp]: "jget (jremove k j) k' = (if k' = k then None else jget j k')"
  by (cases j) (auto simp: map_simps)

lemma get_str_None [simp]: "jget v k = None \<Longrightarrow> get_str v k = None"
  by (simp add: get_str_def)

lemma get_str_Some: "get_str v k = Some s \<longleftrightarrow> jget v k = Some (JStr s)"
proof -
  have "as_str w = Some s \<longleftrightarrow> w = JStr s" for w by (cases w) auto
  then show ?thesis by (auto simp: get_str_def bind_eq_Some_conv)
qed

lemma get_str_jobj [simp]:
  "get_str (jobj kvs) k = Option.bind (map_of (rev kvs) k) as_str"
  by (simp add: get_str_def)

lemma as_u64_jnat [simp]: "as_u64 (jnat n) = Some n"
  by (simp add: jnat_def)

end
