(* ===== verification/Chat_Messages.thy ===== *)
theory Chat_Messages
  imports Json
begin

text \<open>
  The chat message of \<^verbatim>\<open>crates/core/src/protocol.rs\<close> and the text helpers of
  \<^verbatim>\<open>crates/core/src/context.rs\<close> that every later stage uses: bounded truncation and the
  redaction of inline \<^verbatim>\<open>data:\<close> URLs.
\<close>

record chat_message =
  cm_role :: string
  cm_content :: string
  cm_tool_calls :: "json list option"
  cm_tool_call_id :: "string option"
  cm_reasoning :: "string option"

definition msg_text :: "string \<Rightarrow> string \<Rightarrow> chat_message" where
  "msg_text role content = \<lparr>cm_role = role, cm_content = content, cm_tool_calls = None,
     cm_tool_call_id = None, cm_reasoning = None\<rparr>"

definition assistant_with_reasoning :: "string \<Rightarrow> string \<Rightarrow> chat_message" where
  "assistant_with_reasoning content reasoning = \<lparr>cm_role = ''assistant'', cm_content = content,
     cm_tool_calls = None, cm_tool_call_id = None, cm_reasoning = Some reasoning\<rparr>"

definition assistant_tool_calls :: "json list \<Rightarrow> string \<Rightarrow> chat_message" where
  "assistant_tool_calls calls content = \<lparr>cm_role = ''assistant'', cm_content = content,
     cm_tool_calls = Some calls, cm_tool_call_id = None, cm_reasoning = Some []\<rparr>"

definition assistant_tool_calls_with_reasoning ::
  "json list \<Rightarrow> string \<Rightarrow> string \<Rightarrow> chat_message" where
  "assistant_tool_calls_with_reasoning calls content reasoning = \<lparr>cm_role = ''assistant'',
     cm_content = content, cm_tool_calls = Some calls, cm_tool_call_id = None,
     cm_reasoning = Some reasoning\<rparr>"

definition tool_result :: "string \<Rightarrow> string \<Rightarrow> chat_message" where
  "tool_result call_id content = \<lparr>cm_role = ''tool'', cm_content = content,
     cm_tool_calls = None, cm_tool_call_id = Some call_id, cm_reasoning = None\<rparr>"

lemmas message_defs = msg_text_def assistant_with_reasoning_def assistant_tool_calls_def
  assistant_tool_calls_with_reasoning_def tool_result_def

section \<open>Bounded truncation\<close>

definition truncation_note :: "string \<Rightarrow> string" where
  "truncation_note text = ''...[truncated chars='' @ nat_str (char_count text) @ '' bytes=''
     @ nat_str (length text) @ '']''"

definition truncate_text :: "string \<Rightarrow> nat \<Rightarrow> string" where
  "truncate_text text max_chars =
     (if char_count text \<le> max_chars then text
      else take_chars max_chars text @ truncation_note text)"

section \<open>Redaction of inline data URLs\<close>

definition is_data_url_terminator :: "char \<Rightarrow> bool" where
  "is_data_url_terminator c = (c \<in> {CHR 0x22, CHR 0x27, CHR '')'', CHR '']'', CHR ''}'', CHR ''<'',
     CHR ''>'', CHR 0x0A, CHR 0x0D, CHR 0x09, CHR '' ''})"

definition data_url_marker :: "string \<Rightarrow> string" where
  "data_url_marker segment = ''[inline-data-url omitted chars='' @ nat_str (char_count segment)
     @ '' bytes='' @ nat_str (length segment) @ '' hash='' @ stable_hash_hex segment @ '']''"

text \<open>The segment \<^verbatim>\<open>text[start..end]\<close>: up to the first terminator after its first character.\<close>

definition data_segment_len :: "string \<Rightarrow> nat" where
  "data_segment_len s = Suc (length (takeWhile (\<lambda>c. \<not> is_data_url_terminator c) (tl s)))"

lemma find_str_bound: "find_str p s = Some i \<Longrightarrow> i + length p \<le> length s"
proof (induction s arbitrary: i)
  case (Cons c cs)
  show ?case
  proof (cases "starts_with (c # cs) p")
    case True
    then have "length p \<le> length (c # cs)" unfolding starts_with_iff by (metis le_add1 length_append)
    with True Cons.prems show ?thesis by simp
  next
    case False
    with Cons show ?thesis by auto
  qed
qed (auto split: if_splits)

text \<open>The loop over the text, with the text from the cursor on as its argument.\<close>

function redact_inline_data_urls :: "string \<Rightarrow> string" where
  "redact_inline_data_urls text =
     (case find_str ''data:'' text of
        None \<Rightarrow> text
      | Some start \<Rightarrow>
          (let rest = drop start text; n = data_segment_len rest
           in take start text @ data_url_marker (take n rest)
              @ redact_inline_data_urls (drop n rest)))"
  by pat_completeness auto

termination
proof (relation "measure length")
  fix t start rest n
  assume "find_str ''data:'' t = Some start" "rest = drop start t"
    "n = data_segment_len rest"
  then have "start + 5 \<le> length t" "0 < n"
    by (auto dest: find_str_bound simp: data_segment_len_def)
  then show "(drop n rest, t) \<in> measure length"
    using \<open>rest = drop start t\<close> by auto
qed simp

declare redact_inline_data_urls.simps [simp del]

definition user_message :: "string \<Rightarrow> chat_message" where
  "user_message text = msg_text ''user'' (redact_inline_data_urls text)"

section \<open>No inline data URL survives redaction\<close>

lemma find_str_None: "find_str p s = None \<longleftrightarrow> \<not> sublist p s"
proof (induction s)
  case (Cons c cs)
  then show ?case
    by (auto simp: starts_with_iff sublist_Cons_right prefix_def)
qed auto

lemma contains_str_iff: "contains_str s p \<longleftrightarrow> sublist p s"
  by (simp add: contains_str_def find_str_None)

lemma find_str_at: "p \<noteq> [] \<Longrightarrow> find_str p (p @ s) = Some 0"
  by (cases p) (auto simp: starts_with_iff)

lemma find_skip:
  "hd p \<notin> set x \<Longrightarrow> p \<noteq> [] \<Longrightarrow> find_str p (x @ y) = map_option ((+) (length x)) (find_str p y)"
proof (induction x)
  case (Cons a x)
  then have "\<not> starts_with (a # x @ y) p" by (auto simp: starts_with_iff neq_Nil_conv)
  with Cons show ?case by (simp add: option.map_comp o_def)
qed (cases "find_str p y"; simp)

lemma find_str_Some_before:
  "find_str p s = Some i \<Longrightarrow> p \<noteq> [] \<Longrightarrow> \<not> sublist p (take i s)"
proof (induction s arbitrary: i)
  case (Cons c cs)
  show ?case
  proof (cases "starts_with (c # cs) p")
    case True
    with Cons.prems show ?thesis by simp
  next
    case False
    with Cons.prems obtain j where j: "find_str p cs = Some j" "i = Suc j" by auto
    have "\<not> prefix p (c # take j cs)"
      using False by (metis prefix_def prefix_order.trans starts_with_iff take_Suc_Cons take_is_prefix)
    with Cons j show ?thesis by (auto simp: sublist_Cons_right)
  qed
qed auto

text \<open>
  A text put between two others cannot complete an occurrence of \<open>p\<close> when it holds none itself
  and its first and last bytes do not occur in \<open>p\<close>.
\<close>

lemma sublist_insulated:
  assumes "p \<noteq> []" and x: "\<not> sublist p x" and m: "\<not> sublist p m" and y: "\<not> sublist p y"
    and "m \<noteq> []" and h: "hd m \<notin> set p" and l: "last m \<notin> set p"
  shows "\<not> sublist p (x @ m @ y)"
proof -
  have "\<not> sublist p (m @ y)"
  proof
    assume "sublist p (m @ y)"
    with m y obtain p1 p2 where p: "p = p1 @ p2" "suffix p1 m" "prefix p2 y"
      by (auto simp: sublist_append)
    show False
    proof (cases "p1 = []")
      case True
      with p y show False by (auto intro: prefix_imp_sublist)
    next
      case False
      with p have "last p1 = last m" by (auto simp: suffix_def)
      with False p l show False by (metis Un_iff last_in_set set_append)
    qed
  qed
  moreover have "\<not> (\<exists>p1 p2. p = p1 @ p2 \<and> suffix p1 x \<and> prefix p2 (m @ y))"
  proof (safe)
    fix p1 p2
    assume p: "p = p1 @ p2" "suffix p1 x" "prefix p2 (m @ y)"
    show False
    proof (cases "p2 = []")
      case True
      with p x show False by (auto intro: suffix_imp_sublist)
    next
      case False
      with p \<open>m \<noteq> []\<close> have "hd p2 = hd m" by (auto simp: prefix_def append_eq_append_conv2 Cons_eq_append_conv neq_Nil_conv)
      with False p h show False by (metis Un_iff hd_in_set set_append)
    qed
  qed
  ultimately show ?thesis using x by (auto simp: sublist_append)
qed

lemma digit_char_set: "d < 16 \<Longrightarrow> digit_char d \<in> set ''0123456789abcdef''"
  unfolding digit_char_def by (rule nth_mem) simp

lemma hex_str_set: "set (hex_str w n) \<subseteq> set ''0123456789abcdef''"
  by (induction w arbitrary: n) (use digit_char_set in auto)

lemma nat_str_set: "set (nat_str n) \<subseteq> set ''0123456789abcdef''"
proof (induction n rule: nat_str.induct)
  case (1 n)
  show ?case
  proof (cases "n < 10")
    case True
    then show ?thesis using digit_char_set [of n] by (simp add: nat_str.simps [of n])
  next
    case False
    then show ?thesis using 1 digit_char_set [of "n mod 10"]
      by (simp add: nat_str.simps [of n])
  qed
qed

lemma colon_not_in_number [simp]:
  "CHR '':'' \<notin> set (nat_str n)" "CHR '':'' \<notin> set (hex_str w n)"
  using nat_str_set [of n] hex_str_set [of w n] by auto

lemma data_url_marker_clean: "\<not> sublist ''data:'' (data_url_marker s)"
proof -
  have "CHR '':'' \<notin> set (data_url_marker s)"
    by (simp add: data_url_marker_def stable_hash_hex_def)
  then show ?thesis by (auto dest!: set_mono_sublist)
qed

lemma redact_clean: "\<not> sublist ''data:'' (redact_inline_data_urls s)"
proof (induction s rule: redact_inline_data_urls.induct)
  case (1 t)
  show ?case
  proof (cases "find_str ''data:'' t")
    case None
    then have "\<not> sublist ''data:'' t" by (simp add: find_str_None [symmetric])
    with None show ?thesis by (simp add: redact_inline_data_urls.simps [of t])
  next
    case (Some i)
    let ?n = "data_segment_len (drop i t)"
    let ?m = "data_url_marker (take ?n (drop i t))"
    have "hd ?m \<notin> set ''data:''" "last ?m \<notin> set ''data:''" "?m \<noteq> []"
      by (simp_all add: data_url_marker_def)
    moreover have "\<not> sublist ''data:'' (take i t)"
      using Some by (rule find_str_Some_before) simp
    moreover have "\<not> sublist ''data:'' (redact_inline_data_urls (drop ?n (drop i t)))"
      using Some by (rule "1.IH") simp_all
    ultimately have "\<not> sublist ''data:'' (take i t @ ?m @ redact_inline_data_urls (drop ?n (drop i t)))"
      using data_url_marker_clean by (intro sublist_insulated) simp_all
    then show ?thesis
      by (simp add: redact_inline_data_urls.simps [of t] Some Let_def)
  qed
qed

lemma redact_id: "\<not> sublist ''data:'' s \<Longrightarrow> redact_inline_data_urls s = s"
  by (simp add: redact_inline_data_urls.simps [of s] find_str_None [symmetric])

lemma redact_idem [simp]:
  "redact_inline_data_urls (redact_inline_data_urls s) = redact_inline_data_urls s"
  by (simp add: redact_id redact_clean)

lemma truncation_note_clean: "\<not> sublist ''data:'' (truncation_note s)"
proof -
  have "CHR '':'' \<notin> set (truncation_note s)"
    by (simp add: truncation_note_def)
  then show ?thesis by (auto dest!: set_mono_sublist)
qed

lemma take_chars_prefix: "prefix (take_chars n s) s"
  by (metis append_take_drop_id concat_append concat_chars prefixI take_chars_def)

lemma truncate_clean: "\<not> sublist ''data:'' s \<Longrightarrow> \<not> sublist ''data:'' (truncate_text s n)"
proof (cases "char_count s \<le> n")
  case False
  assume "\<not> sublist ''data:'' s"
  then have "\<not> sublist ''data:'' (take_chars n s)"
    using take_chars_prefix prefix_imp_sublist sublist_order.order_trans by blast
  then have "\<not> sublist ''data:'' (take_chars n s @ truncation_note s @ [])"
    by (rule sublist_insulated [rotated])
      (simp_all add: truncation_note_clean, simp_all add: truncation_note_def)
  with False show ?thesis by (simp add: truncate_text_def)
qed (simp add: truncate_text_def)

text \<open>The truncated text is a prefix of the original plus a note, and bounded.\<close>

lemma truncate_text_short: "char_count s \<le> n \<Longrightarrow> truncate_text s n = s"
  by (simp add: truncate_text_def)

lemma truncate_text_long:
  "\<not> char_count s \<le> n \<Longrightarrow> truncate_text s n = take_chars n s @ truncation_note s"
  by (simp add: truncate_text_def)

end
