(* ===== verification/Budget.thy ===== *)
theory Budget
  imports Context_Compiler
begin

text \<open>
  The upstream context budget of \<^verbatim>\<open>crates/proxy/src/responses/context/budget.rs\<close>: messages that do
  not fit are compacted, then whole blocks are dropped oldest first, then what is left is shrunk.
  A block is an assistant message together with the tool results that answer it. An
  authoritative replay is never changed; it is rejected when it does not fit.

  The sizes of the serialised messages come from the JSON crate: \<open>size_lib\<close>.
\<close>

record size_lib =
  msg_bytes :: "chat_message \<Rightarrow> nat"
  msgs_bytes :: "chat_message list \<Rightarrow> nat"

definition RESERVED_OUTPUT_TOKENS :: nat where "RESERVED_OUTPUT_TOKENS = 64000"
definition RESERVED_TOOL_DEFINITION_TOKENS :: nat where "RESERVED_TOOL_DEFINITION_TOKENS = 32000"
definition BYTES_PER_TOKEN_ESTIMATE :: nat where "BYTES_PER_TOKEN_ESTIMATE = 4"
definition BUDGET_TOOL_CONTENT_CHARS :: nat where "BUDGET_TOOL_CONTENT_CHARS = 512 * 1024"
definition BUDGET_MESSAGE_CONTENT_CHARS :: nat where "BUDGET_MESSAGE_CONTENT_CHARS = 192 * 1024"
definition BUDGET_REASONING_CHARS :: nat where "BUDGET_REASONING_CHARS = 64 * 1024"
definition DEFAULT_CONTEXT_WINDOW :: nat where "DEFAULT_CONTEXT_WINDOW = 1000000"
definition DEFAULT_EFFECTIVE_CONTEXT_PERCENT :: nat where
  "DEFAULT_EFFECTIVE_CONTEXT_PERCENT = 95"
definition FORCE_SHRINK_CONTENT_LIMITS :: "nat list" where
  "FORCE_SHRINK_CONTENT_LIMITS =
     [32 * 1024, 16 * 1024, 8 * 1024, 4 * 1024, 2 * 1024, 1024]"

datatype budget_mode = Standard | AuthoritativeReplay

fun budget_label :: "budget_mode \<Rightarrow> string" where
  "budget_label Standard = ''standard''"
| "budget_label AuthoritativeReplay = ''authoritative_replay''"

record budgeted_messages =
  bm_messages :: "chat_message list"
  bm_diagnostic :: json
  bm_rejection :: "json option"

section \<open>Operations\<close>

fun upstream_context_budget_bytes :: "budget_mode \<Rightarrow> nat" where
  "upstream_context_budget_bytes mode =
     (let effective = sat_mul DEFAULT_CONTEXT_WINDOW DEFAULT_EFFECTIVE_CONTEXT_PERCENT div 100
      in max (sat_mul (effective - RESERVED_OUTPUT_TOKENS - RESERVED_TOOL_DEFINITION_TOKENS)
                BYTES_PER_TOKEN_ESTIMATE) (64 * 1024))"

definition truncate_for_budget :: "string \<Rightarrow> nat \<Rightarrow> string" where
  "truncate_for_budget t max_chars =
     (if char_count t \<le> max_chars then t
      else take_chars max_chars t @ ''...[truncated chars='' @ nat_str (char_count t)
           @ '' bytes='' @ nat_str (length t) @ '']'')"

definition is_protected_context_message :: "chat_message \<Rightarrow> bool" where
  "is_protected_context_message m =
     (starts_with (cm_content m) ''Verified CodeSeeX tool execution facts''
      \<or> starts_with (cm_content m) ''Recovered CodeSeeX compaction summary''
      \<or> starts_with (cm_content m) ''CodeSeeX compacted'')"

definition compact_message_for_budget :: "chat_message \<Rightarrow> chat_message" where
  "compact_message_for_budget m =
     (let limit = (if cm_role m = ''tool'' then BUDGET_TOOL_CONTENT_CHARS
                   else BUDGET_MESSAGE_CONTENT_CHARS)
      in m\<lparr>cm_content := truncate_for_budget (redact_inline_data_urls (cm_content m)) limit,
           cm_reasoning := map_option (\<lambda>r. truncate_for_budget r BUDGET_REASONING_CHARS)
             (cm_reasoning m)\<rparr>)"

definition force_shrink_message :: "nat \<Rightarrow> chat_message \<Rightarrow> chat_message" where
  "force_shrink_message content_limit m =
     (if cm_role m = ''system'' then m
      else
        (let m = (if char_count (cm_content m) > content_limit
                  then m\<lparr>cm_content := truncate_for_budget (cm_content m) content_limit\<rparr> else m)
         in case cm_reasoning m of
              None \<Rightarrow> m
            | Some r \<Rightarrow>
                (let limit = min content_limit BUDGET_REASONING_CHARS
                 in if char_count r > limit
                    then m\<lparr>cm_reasoning := Some (truncate_for_budget r limit)\<rparr> else m)))"

text \<open>The loop over the limits; it stops at the first pass that fits.\<close>

fun force_shrink_passes ::
  "size_lib \<Rightarrow> nat \<Rightarrow> nat \<Rightarrow> nat list \<Rightarrow> chat_message list \<Rightarrow> chat_message list \<times> nat" where
  "force_shrink_passes L max_bytes passes [] ms = (ms, passes)"
| "force_shrink_passes L max_bytes passes (limit # limits) ms =
     (let ms' = map (force_shrink_message limit) ms
      in if msgs_bytes L ms' \<le> max_bytes then (ms', passes + 1)
         else force_shrink_passes L max_bytes (passes + 1) limits ms')"

definition force_shrink_messages_to_budget ::
  "size_lib \<Rightarrow> chat_message list \<Rightarrow> nat \<Rightarrow> chat_message list \<times> nat" where
  "force_shrink_messages_to_budget L ms max_bytes =
     (if msgs_bytes L ms \<le> max_bytes then (ms, 0)
      else force_shrink_passes L max_bytes 0 FORCE_SHRINK_CONTENT_LIMITS ms)"

definition block_call_ids :: "chat_message \<Rightarrow> string set" where
  "block_call_ids m =
     (case cm_tool_calls m of
        None \<Rightarrow> {}
      | Some calls \<Rightarrow> set (List.map_filter (\<lambda>c. get_str c ''id'') calls))"

definition answers :: "string set \<Rightarrow> chat_message \<Rightarrow> bool" where
  "answers expected m =
     (cm_role m = ''tool'' \<and> is_some_and (\<lambda>i. i \<in> expected) (cm_tool_call_id m))"

text \<open>The loop of \<open>message_blocks\<close>, with the index of the next message.\<close>

function message_blocks_from :: "nat \<Rightarrow> chat_message list \<Rightarrow> nat list list" where
  "message_blocks_from i [] = []"
| "message_blocks_from i (m # ms) =
     (if cm_role m = ''assistant'' \<and> block_call_ids m \<noteq> {}
      then (let n = length (takeWhile (answers (block_call_ids m)) ms)
            in [i..<Suc i + n] # message_blocks_from (Suc i + n) (drop n ms))
      else [i] # message_blocks_from (Suc i) ms)"
  by pat_completeness auto
termination
  by (relation "measure (\<lambda>(_, ms). length ms)") auto

definition message_blocks :: "chat_message list \<Rightarrow> nat list list" where
  "message_blocks ms = message_blocks_from 0 ms"

definition protect_parent_tool_calls_for_selected_results ::
  "chat_message list \<Rightarrow> nat set \<Rightarrow> nat set" where
  "protect_parent_tool_calls_for_selected_results ms selected =
     (let ids = set (List.map_filter
            (\<lambda>k. if cm_role (ms ! k) = ''tool'' then cm_tool_call_id (ms ! k) else None)
            (filter (\<lambda>k. k \<in> selected) [0..<length ms]))
      in if ids = {} then selected
         else selected \<union> set (filter (\<lambda>k. block_call_ids (ms ! k) \<inter> ids \<noteq> {}) [0..<length ms]))"

definition indexes_bytes :: "size_lib \<Rightarrow> chat_message list \<Rightarrow> nat set \<Rightarrow> nat" where
  "indexes_bytes L ms ks =
     sum_list (map (\<lambda>k. msg_bytes L (ms ! k)) (filter (\<lambda>k. k \<in> ks) [0..<length ms]))"

text \<open>The loop over the blocks from the newest: selected indexes, bytes so far, dropped blocks.\<close>

definition select_block ::
  "size_lib \<Rightarrow> chat_message list \<Rightarrow> nat \<Rightarrow> nat list \<Rightarrow> nat set \<times> nat \<times> nat \<Rightarrow> nat set \<times> nat \<times> nat"
where
  "select_block L ms max_bytes block = (\<lambda>(selected, total, dropped).
     if \<exists>k \<in> set block. k \<in> selected then (selected \<union> set block, total, dropped)
     else
       (let bytes = indexes_bytes L ms (set block)
        in if total + bytes \<le> max_bytes \<or> selected = {}
           then (selected \<union> set block, total + bytes, dropped)
           else (selected, total, dropped + 1)))"

definition initially_selected :: "chat_message list \<Rightarrow> nat \<Rightarrow> nat set" where
  "initially_selected ms protected_start =
     set (filter (\<lambda>k. cm_role (ms ! k) = ''system'' \<or> protected_start \<le> k
            \<or> is_protected_context_message (ms ! k)) [0..<length ms])"

definition selected_indexes ::
  "size_lib \<Rightarrow> chat_message list \<Rightarrow> nat \<Rightarrow> nat \<Rightarrow> nat set \<times> nat \<times> nat" where
  "selected_indexes L ms protected_start max_bytes =
     (let selected = protect_parent_tool_calls_for_selected_results ms
                       (initially_selected ms protected_start)
      in fold (select_block L ms max_bytes) (rev (message_blocks ms))
           (selected, indexes_bytes L ms selected, 0))"

definition select_budgeted_message_blocks ::
  "size_lib \<Rightarrow> chat_message list \<Rightarrow> nat \<Rightarrow> nat \<Rightarrow> chat_message list \<times> nat" where
  "select_budgeted_message_blocks L ms protected_start max_bytes =
     (case selected_indexes L ms protected_start max_bytes of
        (selected, _, dropped) \<Rightarrow> (nths ms selected, dropped))"

text \<open>\<^verbatim>\<open>serde_json::to_value\<close> of a message: absent options are skipped.\<close>

definition message_value :: "chat_message \<Rightarrow> json" where
  "message_value m = jobj
     ([(''role'', JStr (cm_role m)), (''content'', JStr (cm_content m))]
      @ (case cm_tool_calls m of None \<Rightarrow> [] | Some cs \<Rightarrow> [(''tool_calls'', JArr cs)])
      @ (case cm_tool_call_id m of None \<Rightarrow> [] | Some i \<Rightarrow> [(''tool_call_id'', JStr i)])
      @ (case cm_reasoning m of None \<Rightarrow> [] | Some r \<Rightarrow> [(''reasoning_content'', JStr r)]))"

definition count_changed_messages :: "chat_message list \<Rightarrow> chat_message list \<Rightarrow> nat" where
  "count_changed_messages left right =
     (let len = min (length left) (length right)
      in length (filter (\<lambda>k. message_value (left ! k) \<noteq> message_value (right ! k)) [0..<len])
         + max (length left) (length right) - len)"

definition budget_messages_for_upstream ::
  "size_lib \<Rightarrow> chat_message list \<Rightarrow> nat \<Rightarrow> budget_mode \<Rightarrow> budgeted_messages" where
  "budget_messages_for_upstream L ms protected_start mode =
     (let max_bytes = upstream_context_budget_bytes mode;
          initial = msgs_bytes L ms
      in if initial \<le> max_bytes then
           \<lparr>bm_messages = ms,
            bm_diagnostic = jobj [(''triggered'', JBool False), (''mode'', JStr (budget_label mode)),
              (''max_bytes'', jnat max_bytes), (''initial_bytes'', jnat initial),
              (''final_bytes'', jnat initial), (''dropped_blocks'', jnat 0),
              (''compacted_messages'', jnat 0)],
            bm_rejection = None\<rparr>
         else if mode = AuthoritativeReplay then
           \<lparr>bm_messages = ms,
            bm_diagnostic = jobj [(''triggered'', JBool True), (''mode'', JStr (budget_label mode)),
              (''max_bytes'', jnat max_bytes), (''initial_bytes'', jnat initial),
              (''final_bytes'', jnat initial), (''dropped_blocks'', jnat 0),
              (''compacted_messages'', jnat 0), (''would_exceed_upstream_context'', JBool True)],
            bm_rejection = Some (jobj [(''code'', JStr ''context_limit_exceeded''),
              (''max_bytes'', jnat max_bytes), (''input_bytes'', jnat initial)])\<rparr>
         else
           (let compacted = map compact_message_for_budget ms;
                compacted_bytes = msgs_bytes L compacted
            in if compacted_bytes \<le> max_bytes then
                 \<lparr>bm_messages = compacted,
                  bm_diagnostic = jobj [(''triggered'', JBool True),
                    (''mode'', JStr (budget_label mode)), (''max_bytes'', jnat max_bytes),
                    (''initial_bytes'', jnat initial), (''final_bytes'', jnat compacted_bytes),
                    (''dropped_blocks'', jnat 0),
                    (''compacted_messages'', jnat (count_changed_messages ms compacted))],
                  bm_rejection = None\<rparr>
               else
                 (case select_budgeted_message_blocks L compacted protected_start max_bytes of
                    (selected, dropped) \<Rightarrow>
                  (case force_shrink_messages_to_budget L selected max_bytes of
                    (shrunken, passes) \<Rightarrow>
                      (let final = msgs_bytes L shrunken
                       in \<lparr>bm_messages = shrunken,
                           bm_diagnostic = jobj [(''triggered'', JBool True),
                             (''mode'', JStr (budget_label mode)), (''max_bytes'', jnat max_bytes),
                             (''initial_bytes'', jnat initial),
                             (''compacted_bytes'', jnat compacted_bytes),
                             (''final_bytes'', jnat final), (''dropped_blocks'', jnat dropped),
                             (''compacted_messages'', jnat (count_changed_messages ms shrunken)),
                             (''force_shrink_passes'', jnat passes),
                             (''over_budget_after_shrink'', JBool (final > max_bytes))],
                           bm_rejection = None\<rparr>)))))"

definition estimate_tokens_from_messages :: "size_lib \<Rightarrow> chat_message list \<Rightarrow> nat" where
  "estimate_tokens_from_messages L ms = sum_list (map (\<lambda>m. (max (msg_bytes L m) 1 + 3) div 4) ms)"

definition estimate_tokens_from_text :: "string \<Rightarrow> nat" where
  "estimate_tokens_from_text t = (max (char_count t) 1 + 3) div 4"

section \<open>Blocks partition the messages\<close>

lemma concat_message_blocks_from: "concat (message_blocks_from i ms) = [i..<i + length ms]"
proof (induction i ms rule: message_blocks_from.induct)
  case (2 i m ms)
  show ?case
  proof (cases "cm_role m = ''assistant'' \<and> block_call_ids m \<noteq> {}")
    case True
    let ?n = "length (takeWhile (answers (block_call_ids m)) ms)"
    have le: "?n \<le> length ms" by (rule length_takeWhile_le)
    from "2.IH"(1) [OF True refl] True
    have "concat (message_blocks_from i (m # ms))
        = [i..<Suc i + ?n] @ [Suc i + ?n..<Suc i + ?n + (length ms - ?n)]"
      by (simp add: Let_def del: upt_Suc)
    also have "\<dots> = [i..<Suc i + ?n + (length ms - ?n)]"
      using upt_add_eq_append [of i "Suc i + ?n" "length ms - ?n"] by simp
    finally show ?thesis using le by (simp del: upt_Suc)
  next
    case False
    with "2.IH"(2) have "concat (message_blocks_from (Suc i) ms) = [Suc i..<Suc i + length ms]"
      by blast
    with False show ?thesis by (auto simp: upt_conv_Cons simp del: upt_Suc)
  qed
qed simp

lemma concat_message_blocks: "concat (message_blocks ms) = [0..<length ms]"
  by (simp add: message_blocks_def concat_message_blocks_from)

lemma blocks_disjoint:
  assumes "distinct (concat bs)" "b \<in> set bs" "c \<in> set bs" "k \<in> set b" "k \<in> set c"
  shows "set b = set c"
  using assms by (induction bs) auto

text \<open>
  The contract of the selection loop: whatever was selected before, after the loop every block is
  selected as a whole or not at all.
\<close>

definition atomic_on :: "nat list list \<Rightarrow> nat set \<Rightarrow> bool" where
  "atomic_on bs selected = (\<forall>b \<in> set bs. set b \<subseteq> selected \<or> set b \<inter> selected = {})"

lemma select_block_fst:
  "fst (select_block L ms mx b s) = fst s \<or> fst (select_block L ms mx b s) = fst s \<union> set b"
  by (auto simp: select_block_def Let_def split: prod.splits)

lemma select_block_mono: "fst s \<subseteq> fst (select_block L ms mx b s)"
  using select_block_fst [of L ms mx b s] by auto

lemma fold_select_mono: "fst s \<subseteq> fst (fold (select_block L ms mx) bs s)"
proof (induction bs arbitrary: s)
  case (Cons b bs)
  have "fst s \<subseteq> fst (select_block L ms mx b s)" by (rule select_block_mono)
  also have "\<dots> \<subseteq> fst (fold (select_block L ms mx) bs (select_block L ms mx b s))"
    by (rule Cons.IH)
  finally show ?case by simp
qed simp

lemma fold_select_only_blocks:
  "fst (fold (select_block L ms mx) bs s) \<subseteq> fst s \<union> set (concat bs)"
proof (induction bs arbitrary: s)
  case (Cons b bs)
  then have "fst (fold (select_block L ms mx) bs (select_block L ms mx b s))
      \<subseteq> fst (select_block L ms mx b s) \<union> set (concat bs)" by blast
  then show ?case using select_block_fst [of L ms mx b s] by auto
qed simp

lemma select_block_atomic:
  "set b \<subseteq> fst (select_block L ms mx b s) \<or> set b \<inter> fst (select_block L ms mx b s) = {}"
  by (auto simp: select_block_def Let_def split: prod.splits)

lemma fold_select_atomic:
  "distinct (concat bs) \<Longrightarrow> atomic_on bs (fst (fold (select_block L ms mx) bs s))"
proof (induction bs arbitrary: s)
  case (Cons b bs)
  let ?s = "select_block L ms mx b s"
  let ?r = "fst (fold (select_block L ms mx) bs ?s)"
  from Cons have rest: "atomic_on bs ?r" by simp
  have disj: "set b \<inter> set (concat bs) = {}" using Cons.prems by auto
  have "?r \<subseteq> fst ?s \<union> set (concat bs)" and "fst ?s \<subseteq> ?r"
    by (rule fold_select_only_blocks, rule fold_select_mono)
  with select_block_atomic [of b L ms mx s] disj have "set b \<subseteq> ?r \<or> set b \<inter> ?r = {}" by blast
  with rest show ?case by (simp add: atomic_on_def)
qed (simp add: atomic_on_def)

lemma distinct_concat_rev: "distinct (concat (rev bs)) = distinct (concat bs)"
  by (induction bs) auto

section \<open>Properties\<close>

lemma selected_indexes_fst:
  "fst (selected_indexes L ms start mx) =
     fst (fold (select_block L ms mx) (rev (message_blocks ms))
       (protect_parent_tool_calls_for_selected_results ms (initially_selected ms start),
        indexes_bytes L ms (protect_parent_tool_calls_for_selected_results ms
          (initially_selected ms start)), 0))"
  by (simp add: selected_indexes_def Let_def)

lemma initially_selected_kept: "initially_selected ms start \<subseteq> fst (selected_indexes L ms start mx)"
proof -
  have "initially_selected ms start
      \<subseteq> protect_parent_tool_calls_for_selected_results ms (initially_selected ms start)"
    by (simp add: protect_parent_tool_calls_for_selected_results_def Let_def)
  also have "\<dots> \<subseteq> fst (selected_indexes L ms start mx)"
    unfolding selected_indexes_fst by (rule order_trans [OF _ fold_select_mono]) simp
  finally show ?thesis .
qed


lemma subseq_nths_self: "subseq (nths xs I) xs"
  by (induction xs arbitrary: I) (auto simp: nths_Cons)

lemma in_set_nths: "k < length xs \<Longrightarrow> k \<in> I \<Longrightarrow> xs ! k \<in> set (nths xs I)"
  by (auto simp: set_nths)

text \<open>The selection keeps the order of the conversation, and it keeps every system message,
  every protected summary and everything from the protected index on.\<close>

lemma select_blocks_keeps_protected:
  "subseq (fst (select_budgeted_message_blocks L ms protected_start max_bytes)) ms
   \<and> (\<forall>k < length ms. cm_role (ms ! k) = ''system'' \<or> protected_start \<le> k
        \<or> is_protected_context_message (ms ! k)
      \<longrightarrow> ms ! k \<in> set (fst (select_budgeted_message_blocks L ms protected_start max_bytes)))"
proof -
  let ?I = "fst (selected_indexes L ms protected_start max_bytes)"
  have r: "fst (select_budgeted_message_blocks L ms protected_start max_bytes) = nths ms ?I"
    by (simp add: select_budgeted_message_blocks_def split: prod.splits)
  have "k \<in> ?I" if "k < length ms" "cm_role (ms ! k) = ''system'' \<or> protected_start \<le> k
      \<or> is_protected_context_message (ms ! k)" for k
    using that initially_selected_kept [of ms protected_start L max_bytes]
    by (auto simp: initially_selected_def)
  then show ?thesis unfolding r by (auto intro: subseq_nths_self in_set_nths)
qed

definition demo_sizes :: size_lib where
  "demo_sizes = \<lparr>msg_bytes = (\<lambda>m. length (cm_content m)),
     msgs_bytes = (\<lambda>ms. sum_list (map (\<lambda>m. length (cm_content m)) ms))\<rparr>"

text \<open>An authoritative replay is never changed by the budget; it is rejected exactly when its
  serialised size exceeds the budget of 3,416,000 bytes.\<close>

lemma authoritative_replay_untouched:
  "bm_messages (budget_messages_for_upstream L ms start AuthoritativeReplay) = ms
   \<and> (bm_rejection (budget_messages_for_upstream L ms start AuthoritativeReplay) \<noteq> None
      \<longleftrightarrow> msgs_bytes L ms > 3416000)"
proof -
  have "upstream_context_budget_bytes AuthoritativeReplay = 3416000"
    by (simp add: DEFAULT_CONTEXT_WINDOW_def DEFAULT_EFFECTIVE_CONTEXT_PERCENT_def
        RESERVED_OUTPUT_TOKENS_def RESERVED_TOOL_DEFINITION_TOKENS_def
        BYTES_PER_TOKEN_ESTIMATE_def sat_mul_def u64_max_def)
  then show ?thesis by (simp add: budget_messages_for_upstream_def Let_def)
qed

lemma force_shrink_system [simp]: "cm_role m = ''system'' \<Longrightarrow> force_shrink_message l m = m"
  by (simp add: force_shrink_message_def)

lemma force_shrink_role [simp]: "cm_role (force_shrink_message l m) = cm_role m"
  by (simp add: force_shrink_message_def Let_def split: option.splits)

lemma force_shrink_ids [simp]:
  "cm_tool_calls (force_shrink_message l m) = cm_tool_calls m"
  "cm_tool_call_id (force_shrink_message l m) = cm_tool_call_id m"
  by (simp_all add: force_shrink_message_def Let_def split: option.splits)

text \<open>What shrinking never touches: roles, tool calls, tool call ids, and system messages.\<close>

definition same_skeleton :: "chat_message \<Rightarrow> chat_message \<Rightarrow> bool" where
  "same_skeleton m m' \<longleftrightarrow> cm_role m' = cm_role m \<and> cm_tool_calls m' = cm_tool_calls m
     \<and> cm_tool_call_id m' = cm_tool_call_id m \<and> (cm_role m = ''system'' \<longrightarrow> m' = m)"

lemma same_skeleton_refl [simp]: "same_skeleton m m"
  by (simp add: same_skeleton_def)

lemma same_skeleton_shrink: "same_skeleton m m' \<Longrightarrow> same_skeleton m (force_shrink_message l m')"
  by (auto simp: same_skeleton_def)

lemma force_shrink_passes_spec:
  assumes "list_all2 same_skeleton ms0 ms"
    and "force_shrink_passes L mx p limits ms = (ms', p')"
  shows "list_all2 same_skeleton ms0 ms' \<and> p' \<le> p + length limits
     \<and> (msgs_bytes L ms' \<le> mx \<or> p' = p + length limits)"
  using assms
proof (induction L mx p limits ms rule: force_shrink_passes.induct)
  case (2 L mx p limit limits ms)
  let ?ms = "map (force_shrink_message limit) ms"
  have sk: "list_all2 same_skeleton ms0 ?ms"
    using "2.prems"(1) by (auto simp: list_all2_conv_all_nth same_skeleton_shrink)
  show ?case
  proof (cases "msgs_bytes L ?ms \<le> mx")
    case True
    with "2.prems" sk show ?thesis by auto
  next
    case False
    with "2.prems"(2) have "force_shrink_passes L mx (p + 1) limits ?ms = (ms', p')"
      by (simp add: Let_def)
    from "2.IH" [OF refl False sk this] show ?thesis by simp
  qed
qed auto

text \<open>The forced shrink takes at most six passes, ends within the budget unless all six were
  used, and changes only the texts of non-system messages: roles, tool calls and call ids stay,
  so the tool protocol is untouched.\<close>

lemma force_shrink_bounded:
  "case force_shrink_messages_to_budget L ms max_bytes of (ms', passes) \<Rightarrow>
     list_all2 same_skeleton ms ms' \<and> passes \<le> 6 \<and> (msgs_bytes L ms' \<le> max_bytes \<or> passes = 6)"
proof -
  have "list_all2 same_skeleton ms ms" by (simp add: list_all2_same)
  then show ?thesis
    using force_shrink_passes_spec [of ms ms L max_bytes 0 FORCE_SHRINK_CONTENT_LIMITS
        "fst (force_shrink_passes L max_bytes 0 FORCE_SHRINK_CONTENT_LIMITS ms)"
        "snd (force_shrink_passes L max_bytes 0 FORCE_SHRINK_CONTENT_LIMITS ms)"]
    by (auto simp: force_shrink_messages_to_budget_def FORCE_SHRINK_CONTENT_LIMITS_def
        split: prod.splits)
qed

end
