(* ===== verification/Native_Coordinator.thy ===== *)
theory Native_Coordinator
  imports Json
begin

text \<open>
  The bookkeeping of \<^verbatim>\<open>crates/proxy/src/native_coordinator.rs\<close>: hosted tool rounds that the proxy
  executed itself are kept per response id and spliced back into the client's next input. The
  clock (\<^verbatim>\<open>Instant::now()\<close>, in nanoseconds) is an argument of the operations that read it.
\<close>

definition MAX_PENDING_NATIVE_GROUPS :: nat where "MAX_PENDING_NATIVE_GROUPS = 64"
definition PENDING_NATIVE_GROUP_TTL :: nat where
  "PENDING_NATIVE_GROUP_TTL = 30 * 60 * 1000000000"

record native_injected_items =
  inj_offset :: nat
  inj_items :: "json list"

record native_pending_continuation =
  pending_response_id :: string
  merged_input :: "json list"
  cont_injected_items :: "native_injected_items list"

record pending_native_tool_group =
  pg_response_id :: string
  pg_request_anchor :: "string option"
  pg_client_call_ids :: "string list"
  pg_injected_items :: "native_injected_items list"
  pg_created_at :: nat

record native_pending_tool_groups =
  npg_groups :: "(string \<times> pending_native_tool_group) list"
  npg_evicted :: "string list"

definition no_groups :: native_pending_tool_groups where
  "no_groups = \<lparr>npg_groups = [], npg_evicted = []\<rparr>"

section \<open>Operations\<close>

definition short_hash :: "ext_lib \<Rightarrow> string \<Rightarrow> string" where
  "short_hash L v = concat (map (\<lambda>b. hex_str 2 (byte_val b)) (take 6 (sha256 L v)))"

definition round_hash :: "ext_lib \<Rightarrow> string \<Rightarrow> string" where
  "round_hash L response_id = short_hash L response_id"

definition trimmed_nonempty :: "string option \<Rightarrow> string option" where
  "trimmed_nonempty v = opt_filter (\<lambda>t. t \<noteq> []) (map_option trim v)"

definition installation_id_of :: "json \<Rightarrow> string option" where
  "installation_id_of request = trimmed_nonempty (Option.bind
     (or_else (jpointer request [''client_metadata'', ''x-codex-installation-id''])
              (jpointer request [''metadata'', ''x-codex-installation-id''])) as_str)"

definition request_anchor :: "json \<Rightarrow> string option" where
  "request_anchor request =
     (case (trimmed_nonempty (get_str request ''prompt_cache_key''), installation_id_of request) of
        (Some cache, Some installation) \<Rightarrow>
          Some (''cache:'' @ cache @ [CHR 0x00] @ ''installation:'' @ installation)
      | (Some cache, None) \<Rightarrow> Some (''cache:'' @ cache)
      | (None, Some installation) \<Rightarrow> Some (''installation:'' @ installation)
      | (None, None) \<Rightarrow> None)"

definition new_group ::
  "nat \<Rightarrow> string \<Rightarrow> json \<Rightarrow> native_injected_items list \<Rightarrow> string list
     \<Rightarrow> pending_native_tool_group" where
  "new_group now response_id request injected client_call_ids =
     \<lparr>pg_response_id = response_id, pg_request_anchor = request_anchor request,
      pg_client_call_ids = client_call_ids, pg_injected_items = injected, pg_created_at = now\<rparr>"

definition group_diagnostic :: "ext_lib \<Rightarrow> pending_native_tool_group \<Rightarrow> json" where
  "group_diagnostic L g = jobj
     [(''pending'', JBool True), (''response_id_hash'', JStr (short_hash L (pg_response_id g))),
      (''session_anchor'', jopt (\<lambda>v. JStr (short_hash L v)) (pg_request_anchor g)),
      (''injected_items'', jnat (sum_list (map (\<lambda>s. length (inj_items s)) (pg_injected_items g)))),
      (''client_calls'', jnat (length (pg_client_call_ids g)))]"

definition is_tool_output :: "json \<Rightarrow> bool" where
  "is_tool_output item = is_some_and
     (\<lambda>t. t = ''function_call_output'' \<or> t = ''custom_tool_call_output'') (get_str item ''type'')"

definition owned_here :: "json \<Rightarrow> string set \<Rightarrow> bool" where
  "owned_here item owned = is_some_and (\<lambda>i. i \<in> owned) (get_str item ''call_id'')"

definition inj_call_ids :: "native_injected_items \<Rightarrow> string set" where
  "inj_call_ids s = set (List.map_filter (\<lambda>item. get_str item ''call_id'') (inj_items s))"

text \<open>
  The hosted outputs of a round by call id: a later output of the same id replaces an earlier one.
\<close>

definition hosted_outputs :: "json list \<Rightarrow> (string \<rightharpoonup> json)" where
  "hosted_outputs items = map_of (rev (List.map_filter (\<lambda>item.
     if is_tool_output item then map_option (\<lambda>i. (i, item)) (get_str item ''call_id'') else None)
     items))"

definition provider_items :: "native_injected_items \<Rightarrow> json list" where
  "provider_items s = filter (\<lambda>item. \<not> is_tool_output item) (inj_items s)"

definition output_for :: "native_injected_items \<Rightarrow> json list \<Rightarrow> string \<Rightarrow> json option" where
  "output_for s tail call_id =
     (case hosted_outputs (inj_items s) call_id of
        Some out \<Rightarrow> Some out
      | None \<Rightarrow> find (\<lambda>c. is_tool_output c \<and> get_str c ''call_id'' = Some call_id) tail)"

definition replayed_turn :: "native_injected_items \<Rightarrow> json list \<Rightarrow> json list" where
  "replayed_turn s tail =
     provider_items s
     @ List.map_filter (\<lambda>item. Option.bind (get_str item ''call_id'') (output_for s tail))
         (provider_items s)"

definition tail_start :: "pending_native_tool_group \<Rightarrow> json list \<Rightarrow> nat" where
  "tail_start g input =
     min (case map inj_offset (pg_injected_items g) of
            [] \<Rightarrow> length input | o1 # os \<Rightarrow> foldl min o1 os) (length input)"

definition owned_ids :: "pending_native_tool_group \<Rightarrow> string set" where
  "owned_ids g = \<Union> (set (map inj_call_ids (pg_injected_items g)))"

text \<open>The indexes of the run of reasoning items just before \<open>index\<close>, not below \<open>start\<close>.\<close>

fun reasoning_before :: "json list \<Rightarrow> nat \<Rightarrow> nat \<Rightarrow> nat set" where
  "reasoning_before input start 0 = {}"
| "reasoning_before input start (Suc k) =
     (if start \<le> k \<and> get_str (input ! k) ''type'' = Some ''reasoning''
      then insert k (reasoning_before input start k) else {})"

definition dropped_indexes :: "pending_native_tool_group \<Rightarrow> json list \<Rightarrow> nat set" where
  "dropped_indexes g input =
     (let start = tail_start g input; owned = owned_ids g;
          mine = filter (\<lambda>k. owned_here (input ! k) owned) [start..<length input]
      in (case mine of [] \<Rightarrow> {} | first # _ \<Rightarrow> reasoning_before input start first) \<union> set mine)"

text \<open>The merge loop: due rounds go in before the item at their offset.\<close>

fun merge_rounds ::
  "json list \<Rightarrow> nat set \<Rightarrow> native_injected_items list \<Rightarrow> nat \<Rightarrow> json list \<Rightarrow> json list" where
  "merge_rounds input dropped segs index [] = concat (map (\<lambda>s. replayed_turn s input) segs)"
| "merge_rounds input dropped segs index (item # items) =
     (let due = takeWhile (\<lambda>s. min (inj_offset s) (length input) \<le> index) segs;
          later = dropWhile (\<lambda>s. min (inj_offset s) (length input) \<le> index) segs
      in concat (map (\<lambda>s. replayed_turn s input) due)
         @ (if index \<in> dropped then [] else [item])
         @ merge_rounds input dropped later (Suc index) items)"

definition continuation :: "pending_native_tool_group \<Rightarrow> json list \<Rightarrow> native_pending_continuation"
where
  "continuation g input =
     \<lparr>pending_response_id = pg_response_id g,
      merged_input = merge_rounds input (dropped_indexes g input) (pg_injected_items g) 0 input,
      cont_injected_items = pg_injected_items g\<rparr>"

definition group_is_continued_by :: "pending_native_tool_group \<Rightarrow> json list \<Rightarrow> bool" where
  "group_is_continued_by g input =
     (\<exists>i \<in> set (pg_client_call_ids g). \<exists>item \<in> set input. get_str item ''call_id'' = Some i)"

definition matching_group ::
  "(string \<times> pending_native_tool_group) list \<Rightarrow> json \<Rightarrow> pending_native_tool_group option" where
  "matching_group groups request =
     (case Option.bind (trimmed_nonempty (get_str request ''previous_response_id''))
             (map_of groups) of
        Some g \<Rightarrow> Some g
      | None \<Rightarrow>
          (case request_anchor request of
             None \<Rightarrow> None
           | Some anchor \<Rightarrow>
               (case Option.bind (jget request ''input'') as_array of
                  None \<Rightarrow> None
                | Some input \<Rightarrow>
                    max_by_key pg_created_at
                      (filter (\<lambda>g. group_is_continued_by g input)
                        (filter (\<lambda>g. pg_request_anchor g = Some anchor) (map snd groups))))))"

definition expired :: "nat \<Rightarrow> pending_native_tool_group \<Rightarrow> bool" where
  "expired now g = (\<not> now - pg_created_at g < PENDING_NATIVE_GROUP_TTL)"

definition prune_expired :: "nat \<Rightarrow> native_pending_tool_groups \<Rightarrow> native_pending_tool_groups" where
  "prune_expired now st =
     \<lparr>npg_groups = filter (\<lambda>e. \<not> expired now (snd e)) (npg_groups st),
      npg_evicted = npg_evicted st
        @ map fst (filter (\<lambda>e. expired now (snd e)) (npg_groups st))\<rparr>"

definition trim_to_capacity :: "native_pending_tool_groups \<Rightarrow> native_pending_tool_groups" where
  "trim_to_capacity st =
     (case evict_oldest pg_created_at MAX_PENDING_NATIVE_GROUPS (npg_groups st) of
        (kept, gone) \<Rightarrow> \<lparr>npg_groups = kept, npg_evicted = npg_evicted st @ gone\<rparr>)"

definition register ::
  "nat \<Rightarrow> pending_native_tool_group \<Rightarrow> native_pending_tool_groups \<Rightarrow> native_pending_tool_groups"
where
  "register now g st =
     (let st = prune_expired now st
      in trim_to_capacity (st\<lparr>npg_groups := om_insert (pg_response_id g) g (npg_groups st)\<rparr>))"

definition continuation_for ::
  "nat \<Rightarrow> json \<Rightarrow> native_pending_tool_groups
     \<Rightarrow> native_pending_continuation option \<times> native_pending_tool_groups" where
  "continuation_for now request st =
     (let st = prune_expired now st
      in (case matching_group (npg_groups st) request of
            None \<Rightarrow> None
          | Some g \<Rightarrow> map_option (continuation g) (Option.bind (jget request ''input'') as_array),
          st))"

definition settle :: "string \<Rightarrow> native_pending_tool_groups \<Rightarrow> native_pending_tool_groups" where
  "settle response_id st = st\<lparr>npg_groups := kv_remove response_id (npg_groups st)\<rparr>"

definition take_evictions ::
  "native_pending_tool_groups \<Rightarrow> string list \<times> native_pending_tool_groups" where
  "take_evictions st = (npg_evicted st, st\<lparr>npg_evicted := []\<rparr>)"

definition has_round_for :: "ext_lib \<Rightarrow> json \<Rightarrow> native_pending_tool_groups \<Rightarrow> string option" where
  "has_round_for L request st =
     (case request_anchor request of
        None \<Rightarrow> None
      | Some anchor \<Rightarrow> map_option (\<lambda>g. short_hash L (pg_response_id g))
          (find (\<lambda>g. pg_request_anchor g = Some anchor) (map snd (npg_groups st))))"

section \<open>The store as a state machine\<close>

inductive coord_step :: "native_pending_tool_groups \<Rightarrow> native_pending_tool_groups \<Rightarrow> bool" where
  step_register: "coord_step st (register now g st)"
| step_continuation: "coord_step st (snd (continuation_for now request st))"
| step_settle: "coord_step st (settle response_id st)"
| step_take: "coord_step st (snd (take_evictions st))"

inductive coord_reachable :: "native_pending_tool_groups \<Rightarrow> bool" where
  reach_init: "coord_reachable no_groups"
| reach_step: "coord_reachable st \<Longrightarrow> coord_step st st' \<Longrightarrow> coord_reachable st'"

inductive_cases coord_stepE: "coord_step st st'"

definition coord_inv :: "native_pending_tool_groups \<Rightarrow> bool" where
  "coord_inv st \<longleftrightarrow> om_ok (npg_groups st) \<and> length (npg_groups st) \<le> MAX_PENDING_NATIVE_GROUPS
     \<and> (\<forall>(k, g) \<in> set (npg_groups st). pg_response_id g = k)"

lemma coord_inv_filter:
  "coord_inv st \<Longrightarrow> coord_inv \<lparr>npg_groups = filter p (npg_groups st), npg_evicted = e\<rparr>"
  by (auto simp: coord_inv_def om_ok_filter intro: order_trans [OF length_filter_le])

lemma coord_inv_prune: "coord_inv st \<Longrightarrow> coord_inv (prune_expired now st)"
  unfolding prune_expired_def by (rule coord_inv_filter)

interpretation rounds: aged_store
  "om_ok :: (string \<times> pending_native_tool_group) list \<Rightarrow> bool" om_insert kv_remove
  pg_created_at MAX_PENDING_NATIVE_GROUPS
  by unfold_locales (simp_all add: om_ok_filter MAX_PENDING_NATIVE_GROUPS_def)

lemma register_groups:
  "npg_groups (register now g st) =
     admit om_insert pg_created_at MAX_PENDING_NATIVE_GROUPS (\<lambda>g. \<not> expired now g)
       (pg_response_id g) g (npg_groups st)"
  by (simp add: register_def Let_def trim_to_capacity_def prune_expired_def admit_def case_prod_beta)

lemma coord_inv_register:
  assumes "coord_inv st"
  shows "coord_inv (register now g st)"
proof -
  from assms have ok: "om_ok (npg_groups st)"
    and keys: "\<forall>(k, g) \<in> set (npg_groups st). pg_response_id g = k" by (auto simp: coord_inv_def)
  have "\<forall>(k, g) \<in> set (npg_groups (register now g st)). pg_response_id g = k"
    using keys rounds.admit_set [OF ok] unfolding register_groups by fastforce
  then show ?thesis
    unfolding coord_inv_def
    using rounds.admit_ok [OF ok] rounds.admit_length by (simp add: register_groups)
qed

lemma coord_inv_settle: "coord_inv st \<Longrightarrow> coord_inv (settle response_id st)"
  by (auto simp: settle_def coord_inv_def kv_remove_def om_ok_filter
      intro: order_trans [OF length_filter_le])

lemma coord_inv_take: "coord_inv st \<Longrightarrow> coord_inv (snd (take_evictions st))"
  by (simp add: take_evictions_def coord_inv_def)

lemma coord_inv_continuation: "coord_inv st \<Longrightarrow> coord_inv (snd (continuation_for now request st))"
  by (simp add: continuation_for_def Let_def coord_inv_prune)

lemma coord_step_inv: "coord_step st st' \<Longrightarrow> coord_inv st \<Longrightarrow> coord_inv st'"
  by (erule coord_stepE)
    (simp_all only: coord_inv_register coord_inv_continuation coord_inv_settle coord_inv_take)

lemma coord_reachable_inv: "coord_reachable st \<Longrightarrow> coord_inv st"
proof (induction rule: coord_reachable.induct)
  case reach_init
  show ?case by (simp add: coord_inv_def no_groups_def)
next
  case (reach_step st st')
  then show ?case by (blast intro: coord_step_inv)
qed

text \<open>In every state the operations of the store can reach, the retained rounds are sorted by
  response id without duplicates, at most 64 of them are kept and each is filed under its own
  response id.\<close>

lemma coordinator_invariant:
  assumes "coord_reachable st"
  shows "om_ok (npg_groups st) \<and> length (npg_groups st) \<le> 64
     \<and> (\<forall>(k, g) \<in> set (npg_groups st). pg_response_id g = k)"
  using coord_reachable_inv [OF assms] by (simp add: coord_inv_def MAX_PENDING_NATIVE_GROUPS_def)

section \<open>Eviction is never silent\<close>

definition keys_and_evicted :: "native_pending_tool_groups \<Rightarrow> string set" where
  "keys_and_evicted st = fst ` set (npg_groups st) \<union> set (npg_evicted st)"

lemma keys_and_evicted_prune [simp]: "keys_and_evicted (prune_expired now st) = keys_and_evicted st"
  by (auto simp: keys_and_evicted_def prune_expired_def)

lemma keys_and_evicted_trim [simp]: "keys_and_evicted (trim_to_capacity st) = keys_and_evicted st"
  using evict_oldest_keys [of pg_created_at MAX_PENDING_NATIVE_GROUPS "npg_groups st"]
  by (auto simp: keys_and_evicted_def trim_to_capacity_def case_prod_beta)


section \<open>Splicing a round back\<close>

lemma shuffles_append_right: "zs \<in> shuffles xs ys \<Longrightarrow> us @ zs \<in> shuffles xs (us @ ys)"
  by (induction us) (auto intro: Cons_in_shuffles_rightI)

lemma shuffles_append_left: "zs \<in> shuffles xs ys \<Longrightarrow> us @ zs \<in> shuffles (us @ xs) ys"
  using shuffles_append_right shuffles_commutes by metis

lemma shuffles_Nil_left [simp]: "shuffles [] ys = {ys}"
  by simp

definition kept_from :: "nat set \<Rightarrow> nat \<Rightarrow> json list \<Rightarrow> json list" where
  "kept_from dropped k items = map snd (filter (\<lambda>(j, _). j \<notin> dropped) (zip [k..<k + length items] items))"

lemma kept_from_Cons:
  "kept_from dropped k (item # items) =
     (if k \<in> dropped then [] else [item]) @ kept_from dropped (Suc k) items"
  by (simp add: kept_from_def upt_conv_Cons del: upt_Suc)

lemma merge_rounds_shuffles:
  "merge_rounds input dropped segs k items
     \<in> shuffles (kept_from dropped k items) (concat (map (\<lambda>s. replayed_turn s input) segs))"
proof (induction input dropped segs k items rule: merge_rounds.induct)
  case (1 input dropped segs index)
  show ?case by (simp add: kept_from_def)
next
  case (2 input dropped segs index item items)
  let ?p = "\<lambda>s. min (inj_offset s) (length input) \<le> index"
  let ?r = "\<lambda>segs. concat (map (\<lambda>s. replayed_turn s input) segs)"
  have "?r segs = ?r (takeWhile ?p segs) @ ?r (dropWhile ?p segs)"
    by (metis concat_append map_append takeWhile_dropWhile_id)
  then show ?case
    using shuffles_append_right [OF shuffles_append_left [OF "2.IH" [OF refl refl],
          of "if index \<in> dropped then [] else [item]"], of "?r (takeWhile ?p segs)"]
    by (simp add: Let_def kept_from_Cons)
qed

lemma reasoning_before_mem:
  "k \<in> reasoning_before input start n \<Longrightarrow>
     start \<le> k \<and> k < n \<and> get_str (input ! k) ''type'' = Some ''reasoning''"
  by (induction n) (auto split: if_splits)

text \<open>The merged input is an interleaving of the client's items, in their order and without the
  dropped ones, with the replayed provider turns in the order of the rounds. Every item from the
  first replay offset on that carries the call id of a replayed round is dropped, and nothing else
  but reasoning items from there on, so no client item before the offset is ever lost.\<close>

lemma continuation_interleaves:
  "merged_input (continuation g input)
     \<in> shuffles (map ((!) input) (filter (\<lambda>k. k \<notin> dropped_indexes g input) [0..<length input]))
         (concat (map (\<lambda>s. replayed_turn s input) (pg_injected_items g)))
   \<and> {k. tail_start g input \<le> k \<and> k < length input \<and> owned_here (input ! k) (owned_ids g)}
       \<subseteq> dropped_indexes g input
   \<and> dropped_indexes g input
       \<subseteq> {k. tail_start g input \<le> k \<and> k < length input
            \<and> (owned_here (input ! k) (owned_ids g)
               \<or> get_str (input ! k) ''type'' = Some ''reasoning'')}"
proof -
  have "zip [0..<length input] input = map (\<lambda>k. (k, input ! k)) [0..<length input]"
    by (rule nth_equalityI) auto
  then have kept: "kept_from d 0 input = map ((!) input) (filter (\<lambda>k. k \<notin> d) [0..<length input])" for d
    by (simp add: kept_from_def filter_map o_def)
  let ?mine = "filter (\<lambda>k. owned_here (input ! k) (owned_ids g)) [tail_start g input..<length input]"
  have mine: "k \<in> set ?mine \<Longrightarrow> k < length input" for k by auto
  have "dropped_indexes g input
       \<subseteq> {k. tail_start g input \<le> k \<and> k < length input
            \<and> (owned_here (input ! k) (owned_ids g)
               \<or> get_str (input ! k) ''type'' = Some ''reasoning'')}"
  proof (cases ?mine)
    case Nil then show ?thesis by (auto simp: dropped_indexes_def Let_def)
  next
    case (Cons first rest)
    then have f: "first < length input" using mine by (metis list.set_intros(1))
    from Cons have "dropped_indexes g input
        = reasoning_before input (tail_start g input) first \<union> set ?mine"
      unfolding dropped_indexes_def Let_def Cons by simp
    moreover have "reasoning_before input (tail_start g input) first
        \<subseteq> {k. tail_start g input \<le> k \<and> k < length input \<and> get_str (input ! k) ''type'' = Some ''reasoning''}"
      using f reasoning_before_mem order_less_trans by blast
    ultimately show ?thesis by auto
  qed
  then show ?thesis
    using merge_rounds_shuffles [of input "dropped_indexes g input" "pg_injected_items g" 0 input]
    by (auto simp: continuation_def kept dropped_indexes_def Let_def)
qed

section \<open>A registered round is found again\<close>

lemma register_keeps_new:
  assumes "coord_inv st"
    and "\<And>k g'. (k, g') \<in> set (npg_groups st) \<Longrightarrow> pg_created_at g' < pg_created_at g"
  shows "map_of (npg_groups (register now g st)) (pg_response_id g) = Some g"
  unfolding register_groups using assms
  by (intro rounds.admit_newest) (auto simp: coord_inv_def)

lemma prune_lookup:
  assumes "om_ok (npg_groups st)" and "map_of (npg_groups st) k = Some g"
    and "\<not> expired now g"
  shows "map_of (npg_groups (prune_expired now st)) k = Some g"
proof -
  have "(k, g) \<in> set (npg_groups (prune_expired now st))"
    using assms(2,3) by (auto simp: prune_expired_def dest: map_of_SomeD)
  moreover have "distinct (map fst (npg_groups (prune_expired now st)))"
    using assms(1) by (simp add: prune_expired_def om_ok_filter om_ok_distinct)
  ultimately show ?thesis by simp
qed

text \<open>A round registered in a reachable store, newer than the rounds it holds, is replayed by a
  request of the next thirty minutes that names its response id, and is forgotten once settled:
  the same request then is forwarded as it came unless another round matches its anchor.\<close>

lemma register_then_continue:
  assumes "coord_reachable st"
    and "\<forall>(k, g') \<in> set (npg_groups st). pg_created_at g' < pg_created_at g"
    and "get_str request ''previous_response_id'' = Some prev"
    and "trim prev = pg_response_id g" and "pg_response_id g \<noteq> []"
    and "jget request ''input'' = Some (JArr input)"
    and "now' - pg_created_at g < 1800000000000"
  shows "fst (continuation_for now' request (register now g st)) = Some (continuation g input)
     \<and> map_of (npg_groups (settle (pg_response_id g) (register now g st))) (pg_response_id g) = None"
proof -
  have inv: "coord_inv st" by (rule coord_reachable_inv [OF assms(1)])
  have reg: "map_of (npg_groups (register now g st)) (pg_response_id g) = Some g"
    by (rule register_keeps_new [OF inv]) (use assms(2) in auto)
  have "\<not> expired now' g"
    using assms(7) by (simp add: expired_def PENDING_NATIVE_GROUP_TTL_def)
  then have "map_of (npg_groups (prune_expired now' (register now g st))) (pg_response_id g) = Some g"
    using prune_lookup reg coord_inv_register [OF inv] by (simp add: coord_inv_def)
  with assms(3-6) show ?thesis
    by (simp add: continuation_for_def Let_def matching_group_def trimmed_nonempty_def
        opt_filter_def settle_def map_of_kv_remove)
qed

text \<open>Which round a request continues: the one its previous response id names when that is
  retained; otherwise a round of the same session anchor that owns a call the input mentions, and
  of those a most recent one. Without an anchor or an input, or when no round of the anchor owns a
  mentioned call, there is none and the request is left alone.\<close>

lemma matching_group_choice:
  "case Option.bind (trimmed_nonempty (get_str request ''previous_response_id'')) (map_of groups) of
     Some g \<Rightarrow> matching_group groups request = Some g
   | None \<Rightarrow>
       (let cands = {g \<in> snd ` set groups. \<exists>input. pg_request_anchor g \<noteq> None
              \<and> pg_request_anchor g = request_anchor request
              \<and> Option.bind (jget request ''input'') as_array = Some input
              \<and> group_is_continued_by g input}
        in case matching_group groups request of
             None \<Rightarrow> cands = {}
           | Some g \<Rightarrow> g \<in> cands \<and> Max (pg_created_at ` cands) = pg_created_at g)"
proof (cases "Option.bind (trimmed_nonempty (get_str request ''previous_response_id'')) (map_of groups)")
  case None
  show ?thesis
  proof (cases "request_anchor request \<noteq> None \<and> Option.bind (jget request ''input'') as_array \<noteq> None")
    case False
    with None show ?thesis by (auto simp: matching_group_def split: option.splits)
  next
    case True
    then obtain anchor input where a: "request_anchor request = Some anchor"
      and i: "Option.bind (jget request ''input'') as_array = Some input" by blast
    let ?cs = "filter (\<lambda>g. group_is_continued_by g input)
                 (filter (\<lambda>g. pg_request_anchor g = Some anchor) (map snd groups))"
    let ?cands = "{g \<in> snd ` set groups. \<exists>input. pg_request_anchor g \<noteq> None
              \<and> pg_request_anchor g = request_anchor request
              \<and> Option.bind (jget request ''input'') as_array = Some input
              \<and> group_is_continued_by g input}"
    have m: "matching_group groups request = max_by_key pg_created_at ?cs"
      unfolding matching_group_def None a i by simp
    have c: "?cands = set ?cs" unfolding a i by auto
    show ?thesis
    proof (cases "max_by_key pg_created_at ?cs")
      case no: None
      then have "?cs = []" by (simp only: max_by_key_None)
      then have "set ?cs = {}" by (simp only: list.set)
      then show ?thesis unfolding None Let_def option.case m c no .
    next
      case (Some g)
      from max_by_key_Some [OF this] have "g \<in> set ?cs" and "\<forall>y \<in> set ?cs. pg_created_at y \<le> pg_created_at g"
        by auto
      then have "Max (pg_created_at ` set ?cs) = pg_created_at g"
        by (intro Max_eqI) auto
      with \<open>g \<in> set ?cs\<close> show ?thesis unfolding None Let_def option.case m c Some by simp
    qed
  qed
next
  case (Some g)
  then show ?thesis by (auto simp: matching_group_def)
qed

section \<open>Witnesses\<close>

definition demo_call :: json where
  "demo_call = jobj [(''type'', JStr ''function_call''), (''call_id'', JStr ''c1'')]"

definition demo_group :: pending_native_tool_group where
  "demo_group = \<lparr>pg_response_id = ''r1'', pg_request_anchor = None, pg_client_call_ids = [''c2''],
     pg_injected_items = [\<lparr>inj_offset = 0, inj_items = [demo_call]\<rparr>], pg_created_at = 5\<rparr>"

definition demo_request :: json where
  "demo_request = jobj [(''previous_response_id'', JStr '' r1''), (''input'', JArr [])]"

end
