(* ===== verification/Canonical_Sessions.thy ===== *)
theory Canonical_Sessions
  imports Chat_Messages
begin

text \<open>
  The replay tracker of \<^verbatim>\<open>crates/proxy/src/responses/canonical.rs\<close>: per session it remembers the
  fingerprints of the last authoritative replay, and classifies the next one as appended to it,
  cut back from it, or rebuilt. The clock, SHA-256 and the serialisation of a message
  (\<open>msg_json\<close>, \<^verbatim>\<open>serde_json::to_vec\<close>) are arguments. The map of sessions is a \<^verbatim>\<open>HashMap\<close>: the
  order of the list stands for its iteration order, which only decides which of several equally
  old sessions goes first.
\<close>

definition MAX_ACTIVE_SESSIONS :: nat where "MAX_ACTIVE_SESSIONS = 64"
definition MAX_TRACKED_MESSAGE_FINGERPRINTS :: nat where "MAX_TRACKED_MESSAGE_FINGERPRINTS = 16384"
definition SESSION_TTL :: nat where "SESSION_TTL = 30 * 60 * 1000000000"

record canonical_session =
  message_fingerprints :: "string list"
  root_fingerprint :: string
  touched_at :: nat

type_synonym canonical_session_core = "(string \<times> canonical_session) list"

section \<open>Operations\<close>

definition hex_bytes :: "string \<Rightarrow> string" where
  "hex_bytes bs = concat (map (\<lambda>b. hex_str 2 (byte_val b)) bs)"

definition full_hash :: "ext_lib \<Rightarrow> string \<Rightarrow> string" where
  "full_hash L v = hex_bytes (sha256 L v)"

definition session_short_hash :: "ext_lib \<Rightarrow> string \<Rightarrow> string" where
  "session_short_hash L v = hex_bytes (take 8 (sha256 L v))"

definition digest_bytes :: "ext_lib \<Rightarrow> string \<Rightarrow> string" where
  "digest_bytes L v = sha256 L v"

definition fingerprints_hash :: "ext_lib \<Rightarrow> string list \<Rightarrow> string" where
  "fingerprints_hash L fps = sha256 L (concat (map (\<lambda>f. f @ [CHR 0x00]) fps))"

definition message_fingerprint :: "ext_lib \<Rightarrow> (chat_message \<Rightarrow> string) \<Rightarrow> chat_message \<Rightarrow> string" where
  "message_fingerprint L msg_json m = digest_bytes L (msg_json m)"

definition session_key :: "ext_lib \<Rightarrow> json \<Rightarrow> string option" where
  "session_key L request =
     (let prompt_cache_key =
            opt_filter (\<lambda>v. v \<noteq> []) (map_option trim (get_str request ''prompt_cache_key''));
          installation_id =
            opt_filter (\<lambda>v. v \<noteq> []) (map_option trim (Option.bind
              (or_else (jpointer request [''client_metadata'', ''x-codex-installation-id''])
                       (jpointer request [''metadata'', ''x-codex-installation-id''])) as_str))
      in map_option (full_hash L)
           (case (prompt_cache_key, installation_id) of
              (Some c, Some i) \<Rightarrow> Some (''cache:'' @ c @ [CHR 0x00] @ ''installation:'' @ i)
            | (Some c, None) \<Rightarrow> Some (''cache:'' @ c)
            | (None, Some i) \<Rightarrow> Some (''installation:'' @ i)
            | (None, None) \<Rightarrow> None))"

definition trim_sessions :: "canonical_session_core \<Rightarrow> canonical_session_core" where
  "trim_sessions sessions = fst (evict_oldest touched_at MAX_ACTIVE_SESSIONS sessions)"

definition has_fingerprint_prefix :: "string list \<Rightarrow> string list \<Rightarrow> bool" where
  "has_fingerprint_prefix messages pre =
     (if length pre \<le> length messages then take (length pre) messages = pre else False)"

definition replay_alignment :: "string list \<Rightarrow> string list \<Rightarrow> string" where
  "replay_alignment old new =
     (if has_fingerprint_prefix new old then ''appended_authoritative_replay''
      else if has_fingerprint_prefix old new then ''authoritative_checkpoint_compacted''
      else ''authoritative_checkpoint_rebuilt'')"

definition reconcile ::
  "ext_lib \<Rightarrow> (chat_message \<Rightarrow> string) \<Rightarrow> nat \<Rightarrow> json \<Rightarrow> chat_message list
     \<Rightarrow> canonical_session_core \<Rightarrow> json \<times> canonical_session_core" where
  "reconcile L msg_json now request incoming sessions =
     (case session_key L request of
        None \<Rightarrow>
          (jobj [(''tracked'', JBool False),
                 (''alignment'', JStr ''untracked_missing_session_anchor''),
                 (''incoming_messages'', jnat (length incoming))], sessions)
      | Some key \<Rightarrow>
          if MAX_TRACKED_MESSAGE_FINGERPRINTS < length incoming then
            (jobj [(''tracked'', JBool False),
                   (''alignment'', JStr ''untracked_replay_too_many_items''),
                   (''incoming_messages'', jnat (length incoming)),
                   (''max_tracked_messages'', jnat MAX_TRACKED_MESSAGE_FINGERPRINTS),
                   (''session_hash'', JStr (session_short_hash L key))], sessions)
          else
            (let sessions = filter (\<lambda>e. now - touched_at (snd e) \<le> SESSION_TTL) sessions;
                 fps = map (message_fingerprint L msg_json) incoming;
                 root = fingerprints_hash L (take 3 fps);
                 new = \<lparr>message_fingerprints = fps, root_fingerprint = root, touched_at = now\<rparr>;
                 outcome = (case map_of sessions key of
                     None \<Rightarrow> jobj
                       [(''tracked'', JBool True), (''alignment'', JStr ''rebuilt_no_active_session''),
                        (''incoming_messages'', jnat (length incoming)),
                        (''canonical_messages'', jnat (length incoming)),
                        (''root_changed'', JBool False)]
                   | Some s \<Rightarrow> jobj
                       [(''tracked'', JBool True),
                        (''alignment'', JStr (replay_alignment (message_fingerprints s) fps)),
                        (''previous_messages'', jnat (length (message_fingerprints s))),
                        (''incoming_messages'', jnat (length incoming)),
                        (''canonical_messages'', jnat (length incoming)),
                        (''root_changed'', JBool (root_fingerprint s \<noteq> root))])
             in (jinsert ''session_hash'' (JStr (session_short_hash L key)) outcome,
                 trim_sessions (hm_insert key new sessions))))"

section \<open>The store stays bounded\<close>

interpretation tracked: aged_store
  "hm_ok :: (string \<times> canonical_session) list \<Rightarrow> bool" hm_insert kv_remove
  touched_at MAX_ACTIVE_SESSIONS
  by unfold_locales (simp_all add: hm_ok_filter MAX_ACTIVE_SESSIONS_def)

lemma reconcile_sessions:
  "snd (reconcile L msg_json now request incoming sessions) =
     (case session_key L request of
        None \<Rightarrow> sessions
      | Some key \<Rightarrow>
          if MAX_TRACKED_MESSAGE_FINGERPRINTS < length incoming then sessions
          else admit hm_insert touched_at MAX_ACTIVE_SESSIONS
                 (\<lambda>s. now - touched_at s \<le> SESSION_TTL) key
                 \<lparr>message_fingerprints = map (message_fingerprint L msg_json) incoming,
                  root_fingerprint = fingerprints_hash L
                    (take 3 (map (message_fingerprint L msg_json) incoming)),
                  touched_at = now\<rparr> sessions)"
  by (simp add: reconcile_def Let_def admit_def trim_sessions_def split: option.split)

definition session_wf :: "ext_lib \<Rightarrow> canonical_session \<Rightarrow> bool" where
  "session_wf L s \<longleftrightarrow> length (message_fingerprints s) \<le> 16384
     \<and> root_fingerprint s = fingerprints_hash L (take 3 (message_fingerprints s))"

definition sessions_wf :: "ext_lib \<Rightarrow> canonical_session_core \<Rightarrow> bool" where
  "sessions_wf L sessions \<longleftrightarrow> hm_ok sessions \<and> length sessions \<le> 64
     \<and> list_all (\<lambda>e. session_wf L (snd e)) sessions"

text \<open>Replaying never breaks the session table: its keys stay distinct, it holds at most 64
  sessions, none with more than 16,384 fingerprints, and each root fingerprint is that of the
  first three messages.\<close>

lemma reconcile_sessions_wf:
  assumes "sessions_wf L sessions"
  shows "sessions_wf L (snd (reconcile L msg_json now request incoming sessions))"
proof (cases "session_key L request")
  case None
  with assms show ?thesis by (simp add: reconcile_sessions)
next
  case (Some key)
  show ?thesis
  proof (cases "MAX_TRACKED_MESSAGE_FINGERPRINTS < length incoming")
    case True
    with assms Some show ?thesis by (simp add: reconcile_sessions)
  next
    case False
    from assms have ok: "hm_ok sessions" and wf: "\<forall>e \<in> set sessions. session_wf L (snd e)"
      by (auto simp: sessions_wf_def list_all_iff)
    let ?s = "\<lparr>message_fingerprints = map (message_fingerprint L msg_json) incoming,
               root_fingerprint = fingerprints_hash L
                 (take 3 (map (message_fingerprint L msg_json) incoming)), touched_at = now\<rparr>"
    have new: "session_wf L ?s"
      using False by (simp add: session_wf_def MAX_TRACKED_MESSAGE_FINGERPRINTS_def)
    have "snd (reconcile L msg_json now request incoming sessions) =
        admit hm_insert touched_at MAX_ACTIVE_SESSIONS (\<lambda>s. now - touched_at s \<le> SESSION_TTL) key ?s
          sessions"
      using Some False by (simp add: reconcile_sessions)
    then show ?thesis
      using tracked.admit_ok [OF ok] tracked.admit_set [OF ok] tracked.admit_length new wf
      unfolding sessions_wf_def MAX_ACTIVE_SESSIONS_def list_all_iff by fastforce
  qed
qed

section \<open>Classification of the next replay\<close>

lemma has_fingerprint_prefix_map:
  assumes "inj_on f (set xs \<union> set ys)"
  shows "has_fingerprint_prefix (map f ys) (map f xs) \<longleftrightarrow> prefix xs ys"
proof -
  have "map f (take (length xs) ys) = map f xs \<longleftrightarrow> take (length xs) ys = xs"
    using assms by (intro inj_on_map_eq_map) (auto simp: inj_on_def dest: in_set_takeD)
  then show ?thesis
    by (auto simp: has_fingerprint_prefix_def take_map prefix_def) (metis append_take_drop_id)
qed

text \<open>Two replays of a session in a row, at most thirty minutes apart, with no collision between
  the fingerprints of their messages: the second is reported as appended exactly when the first is
  a prefix of it, as a cut-back checkpoint exactly when it is a proper prefix of the first, and as
  rebuilt otherwise.\<close>

lemma reconcile_alignment:
  assumes "hm_ok sessions" and "session_key L request = Some key"
    and "\<forall>(k, s) \<in> set sessions. touched_at s < now"
    and "length ms \<le> 16384" and "length ms' \<le> 16384"
    and "now' - now \<le> 1800000000000"
    and "inj_on (message_fingerprint L msg_json) (set ms \<union> set ms')"
  shows "get_str (fst (reconcile L msg_json now' request ms'
             (snd (reconcile L msg_json now request ms sessions)))) ''alignment'' =
     Some (if prefix ms ms' then ''appended_authoritative_replay''
           else if prefix ms' ms then ''authoritative_checkpoint_compacted''
           else ''authoritative_checkpoint_rebuilt'')"
proof -
  let ?fp = "map (message_fingerprint L msg_json)"
  let ?s = "\<lparr>message_fingerprints = ?fp ms,
             root_fingerprint = fingerprints_hash L (take 3 (?fp ms)), touched_at = now\<rparr>"
  let ?m = "snd (reconcile L msg_json now request ms sessions)"
  let ?live = "\<lambda>e. now' - touched_at (snd e) \<le> SESSION_TTL"
  have m: "?m = admit hm_insert touched_at MAX_ACTIVE_SESSIONS
        (\<lambda>s. now - touched_at s \<le> SESSION_TTL) key ?s sessions"
    using assms(2,4) by (simp add: reconcile_sessions MAX_TRACKED_MESSAGE_FINGERPRINTS_def)
  have "map_of ?m key = Some ?s"
    unfolding m using assms(1,3) by (intro tracked.admit_newest) auto
  then have mem: "(key, ?s) \<in> set (filter ?live ?m)"
    using assms(6) by (auto simp: SESSION_TTL_def dest: map_of_SomeD)
  have "hm_ok (filter ?live ?m)"
    unfolding m using assms(1) by (intro hm_ok_filter tracked.admit_ok)
  with mem have look: "map_of (filter ?live ?m) key = Some ?s"
    by (simp add: hm_ok_def)
  have "replay_alignment (?fp ms) (?fp ms') =
      (if prefix ms ms' then ''appended_authoritative_replay''
       else if prefix ms' ms then ''authoritative_checkpoint_compacted''
       else ''authoritative_checkpoint_rebuilt'')"
    using assms(7) by (simp add: replay_alignment_def has_fingerprint_prefix_map Un_commute)
  then show ?thesis
    using assms(2,5) look
    by (simp add: reconcile_def Let_def get_str_def MAX_TRACKED_MESSAGE_FINGERPRINTS_def
        jobj_def map_simps del: jget_jobj)
qed

section \<open>Witnesses\<close>

definition plain_lib :: ext_lib where
  "plain_lib = \<lparr>json_to_string = (\<lambda>_. []), json_from_str = (\<lambda>_. None),
     b64_decode_utf8 = (\<lambda>_. None), sha256 = (\<lambda>s. s)\<rparr>"

definition session_request :: json where
  "session_request = jobj [(''prompt_cache_key'', JStr ''k'')]"

end
