(* ===== verification/Stream_Tool_Calls.thy ===== *)
theory Stream_Tool_Calls
  imports Json "HOL-Library.While_Combinator"
begin

text \<open>
  Tool calls that arrive in fragments, \<^verbatim>\<open>crates/proxy/src/responses/stream_tool_calls.rs\<close>: every
  delta names an index (or inherits the last one), the fragments of an index are concatenated, and
  calls decoded from text are filed under fresh indexes behind the streamed ones. The map of states
  is a \<^verbatim>\<open>BTreeMap<u64, _>\<close>; the generated call ids (\<^verbatim>\<open>Uuid::new_v4\<close>) are a parameter.
\<close>

record chat_tool_call =
  tc_id :: string
  tc_name :: string
  tc_arguments :: string

record streaming_tool_call_state =
  st_id :: string
  st_name :: string
  st_arguments :: string

type_synonym call_states = "(nat \<times> streaming_tool_call_state) list"

definition empty_call_state :: streaming_tool_call_state where
  "empty_call_state = \<lparr>st_id = [], st_name = [], st_arguments = []\<rparr>"

section \<open>Operations\<close>

definition from_chat_tool_call :: "chat_tool_call \<Rightarrow> streaming_tool_call_state" where
  "from_chat_tool_call c = \<lparr>st_id = tc_id c, st_name = tc_name c, st_arguments = tc_arguments c\<rparr>"

definition delta_index :: "json \<Rightarrow> nat \<Rightarrow> nat" where
  "delta_index call last_index = unwrap_or last_index (Option.bind (jget call ''index'') as_u64)"

definition delta_id :: "json \<Rightarrow> string option" where
  "delta_id call = get_str call ''id''"

definition delta_name :: "json \<Rightarrow> string" where
  "delta_name call = unwrap_or [] (Option.bind (jget call ''function'') (\<lambda>f. get_str f ''name''))"

definition delta_arguments :: "json \<Rightarrow> string" where
  "delta_arguments call =
     unwrap_or [] (Option.bind (jget call ''function'') (\<lambda>f. get_str f ''arguments''))"

definition apply_delta :: "json \<Rightarrow> streaming_tool_call_state \<Rightarrow> streaming_tool_call_state" where
  "apply_delta call s =
     \<lparr>st_id = unwrap_or (st_id s) (delta_id call), st_name = st_name s @ delta_name call,
      st_arguments = st_arguments s @ delta_arguments call\<rparr>"

fun collect_calls :: "json list \<Rightarrow> call_states \<times> nat \<Rightarrow> call_states \<times> nat" where
  "collect_calls [] (states, last_index) = (states, last_index)"
| "collect_calls (call # calls) (states, last_index) =
     (let index = delta_index call last_index;
          s = unwrap_or empty_call_state (map_of states index)
      in collect_calls calls (om_insert index (apply_delta call s) states, index))"

definition collect_streaming_tool_call_deltas ::
  "json \<Rightarrow> call_states \<times> nat \<Rightarrow> call_states \<times> nat" where
  "collect_streaming_tool_call_deltas delta st =
     (case Option.bind (jget delta ''tool_calls'') as_array of
        None \<Rightarrow> st
      | Some calls \<Rightarrow> collect_calls calls st)"

text \<open>
  The search for a free index, \<^verbatim>\<open>while states.contains_key(&next_index)\<close>, saturates at the largest
  index, so it may not end: \<open>None\<close> stands for a search that never returns.
\<close>

definition free_index :: "call_states \<Rightarrow> nat \<Rightarrow> nat option" where
  "free_index states = while_option (\<lambda>i. map_of states i \<noteq> None) (\<lambda>i. sat_add i 1)"

fun insert_calls ::
  "chat_tool_call list \<Rightarrow> nat \<Rightarrow> call_states \<times> nat \<Rightarrow> (call_states \<times> nat) option" where
  "insert_calls [] next_index st = Some st"
| "insert_calls (call # calls) next_index (states, last_index) =
     (case free_index states next_index of
        None \<Rightarrow> None
      | Some i \<Rightarrow> insert_calls calls (sat_add i 1)
                   (om_insert i (from_chat_tool_call call) states, i))"

definition insert_streaming_tool_calls ::
  "chat_tool_call list \<Rightarrow> call_states \<times> nat \<Rightarrow> (call_states \<times> nat) option" where
  "insert_streaming_tool_calls calls st =
     insert_calls calls
       (sat_add (if fst st = [] then snd st else fst (last (fst st))) 1) st"

text \<open>\<open>uuid k\<close> is the k-th identifier generated.\<close>

fun finish_states :: "(nat \<Rightarrow> string) \<Rightarrow> nat \<Rightarrow> streaming_tool_call_state list \<Rightarrow> chat_tool_call list"
where
  "finish_states uuid k [] = []"
| "finish_states uuid k (s # ss) =
     (let missing = trim (st_id s) = []
      in \<lparr>tc_id = (if missing then ''call_'' @ uuid k else st_id s), tc_name = st_name s,
          tc_arguments = (if trim (st_arguments s) = [] then ''{}'' else st_arguments s)\<rparr>
         # finish_states uuid (if missing then Suc k else k) ss)"

definition streaming_tool_calls :: "(nat \<Rightarrow> string) \<Rightarrow> call_states \<Rightarrow> chat_tool_call list" where
  "streaming_tool_calls uuid states =
     finish_states uuid 0 (filter (\<lambda>s. trim (st_name s) \<noteq> []) (map snd states))"

section \<open>Fragments are reassembled per index\<close>

text \<open>The index every fragment of a list ends up with.\<close>

fun resolve_indexes :: "nat \<Rightarrow> json list \<Rightarrow> (nat \<times> json) list" where
  "resolve_indexes l [] = []"
| "resolve_indexes l (call # calls) =
     (delta_index call l, call) # resolve_indexes (delta_index call l) calls"

definition fragments :: "nat \<Rightarrow> nat \<Rightarrow> json list \<Rightarrow> json list" where
  "fragments i l calls = map snd (filter (\<lambda>e. fst e = i) (resolve_indexes l calls))"

definition assembled :: "json list \<Rightarrow> streaming_tool_call_state" where
  "assembled frags =
     \<lparr>st_id = (case List.map_filter delta_id frags of [] \<Rightarrow> [] | ids \<Rightarrow> last ids),
      st_name = concat (map delta_name frags),
      st_arguments = concat (map delta_arguments frags)\<rparr>"

lemma fragments_Cons:
  "fragments i l (c # cs) =
     (if delta_index c l = i then c # fragments i (delta_index c l) cs
      else fragments i (delta_index c l) cs)"
  by (simp add: fragments_def)

lemma collect_calls_ok: "om_ok (fst st) \<Longrightarrow> om_ok (fst (collect_calls calls st))"
  by (induction calls st rule: collect_calls.induct) (auto simp: Let_def)

lemma collect_calls_lookup:
  "map_of (fst (collect_calls calls (states, l))) i =
     (if fragments i l calls = [] then map_of states i
      else Some (fold apply_delta (fragments i l calls)
                   (unwrap_or empty_call_state (map_of states i))))"
proof (induction calls arbitrary: states l)
  case Nil
  show ?case by (simp add: fragments_def)
next
  case (Cons c cs)
  then show ?case by (auto simp: Let_def fragments_Cons map_simps)
qed

lemma apply_delta_sel [simp]:
  "st_id (apply_delta c s) = unwrap_or (st_id s) (delta_id c)"
  "st_name (apply_delta c s) = st_name s @ delta_name c"
  "st_arguments (apply_delta c s) = st_arguments s @ delta_arguments c"
  by (simp_all add: apply_delta_def)

lemma fold_apply_delta:
  "fold apply_delta frags s =
     \<lparr>st_id = (case List.map_filter delta_id frags of [] \<Rightarrow> st_id s | ids \<Rightarrow> last ids),
      st_name = st_name s @ concat (map delta_name frags),
      st_arguments = st_arguments s @ concat (map delta_arguments frags)\<rparr>"
proof (induction frags arbitrary: s)
  case (Cons c cs)
  show ?case
    by (cases "delta_id c")
      (simp_all add: Cons.IH map_filter_simps split: list.splits)
qed (simp add: map_filter_simps)

lemma fold_apply_delta_empty: "fold apply_delta frags empty_call_state = assembled frags"
  by (simp add: fold_apply_delta assembled_def empty_call_state_def split: list.split)

lemma collect_calls_append:
  "collect_calls (a @ b) st = collect_calls b (collect_calls a st)"
  by (induction a st rule: collect_calls.induct) (auto simp: Let_def)

text \<open>C28: whatever the interleaving of the fragments of several calls in a stream and however they are
  cut into deltas, the state collected under an index has the last id sent for it and the
  concatenation of the names and of the arguments of exactly its fragments, in order; indexes
  without a fragment have no state.\<close>

theorem deltas_reassembled:
  "map_of (fst (fold collect_streaming_tool_call_deltas
       (map (\<lambda>calls. jobj [(''tool_calls'', JArr calls)]) deltas) ([], l))) i =
     (if fragments i l (concat deltas) = [] then None
      else Some (assembled (fragments i l (concat deltas))))"
proof -
  have "fold collect_streaming_tool_call_deltas
      (map (\<lambda>calls. jobj [(''tool_calls'', JArr calls)]) deltas) st = collect_calls (concat deltas) st"
    for st
  proof (induction deltas arbitrary: st)
    case Nil
    show ?case by (cases st) simp
  next
    case (Cons d ds)
    then show ?case by (simp add: collect_streaming_tool_call_deltas_def collect_calls_append)
  qed
  then show ?thesis by (simp add: collect_calls_lookup fold_apply_delta_empty)
qed

section \<open>Calls decoded from text come after the streamed ones\<close>

lemma om_insert_last:
  "\<forall>e \<in> set m. fst e < k \<Longrightarrow> om_insert k v m = m @ [(k, v)]"
  by (induction k v m rule: om_insert.induct) auto

lemma free_index_free:
  "map_of states i = None \<Longrightarrow> free_index states i = Some i"
  unfolding free_index_def by (subst while_option_unfold) simp

lemma insert_calls_append:
  assumes "\<forall>e \<in> set states. fst e < n" and "n + length calls \<le> u64_max"
  shows "insert_calls calls n (states, l) =
     Some (states @ zip [n..<n + length calls] (map from_chat_tool_call calls),
           if calls = [] then l else n + length calls - 1)"
  using assms
proof (induction calls arbitrary: states n l)
  case (Cons c cs)
  from Cons.prems(1) have "map_of states n = None"
    by (auto simp: map_of_eq_None_iff)
  moreover have "sat_add n 1 = Suc n" using Cons.prems(2) by (simp add: sat_add_def)
  moreover have "\<forall>e \<in> set (states @ [(n, from_chat_tool_call c)]). fst e < Suc n"
    using Cons.prems(1) by (auto simp: less_SucI)
  ultimately show ?case
    using Cons.prems Cons.IH [of "states @ [(n, from_chat_tool_call c)]" "Suc n" n]
    by (simp add: free_index_free om_insert_last upt_conv_Cons del: upt_Suc)
qed simp

text \<open>Filing decoded calls ends and puts them, in order and under consecutive fresh indexes, behind
  every streamed call, as long as the indexes stay within 64 bits.\<close>

lemma insert_streaming_tool_calls_appends:
  assumes "om_ok states" and "calls \<noteq> []"
    and "(if states = [] then l else fst (last states)) + 1 + length calls \<le> u64_max"
  shows "\<exists>n. insert_streaming_tool_calls calls (states, l) =
     Some (states @ zip [n..<n + length calls] (map from_chat_tool_call calls), n + length calls - 1)
     \<and> (\<forall>e \<in> set states. fst e < n)"
proof -
  let ?n = "(if states = [] then l else fst (last states)) + 1"
  have n: "sat_add (if fst (states, l) = [] then snd (states, l) else fst (last (fst (states, l)))) 1
      = ?n"
    using assms(3) by (auto simp: sat_add_def)
  have below: "\<forall>e \<in> set states. fst e < ?n"
  proof
    fix e assume e: "e \<in> set states"
    then have "states \<noteq> []" by auto
    then have s: "states = butlast states @ [last states]" by simp
    have "e = last states \<or> fst e < fst (last states)"
      using e assms(1) unfolding om_ok_def
      by (subst (asm) s, subst (asm) (3) s) (auto simp: sorted_wrt_append)
    then show "fst e < ?n" using \<open>states \<noteq> []\<close> by auto
  qed
  have "insert_streaming_tool_calls calls (states, l) =
      Some (states @ zip [?n..<?n + length calls] (map from_chat_tool_call calls),
        ?n + length calls - 1)"
    unfolding insert_streaming_tool_calls_def n
    using insert_calls_append [OF below, of calls l] assms(2,3) by simp
  with below show ?thesis by blast
qed

text \<open>When a delta has used the largest 64-bit index, filing a decoded call never returns: the
  search for a free index saturates on the taken one.\<close>

lemma insert_streaming_tool_calls_diverges:
  assumes "om_ok states" and "states \<noteq> []" and "fst (last states) = u64_max"
  shows "insert_streaming_tool_calls (call # calls) (states, l) = None"
proof -
  have "last states \<in> set states" using assms(2) by simp
  then have taken: "map_of states u64_max \<noteq> None"
    using assms(3) by (metis map_of_eq_None_iff imageI)
  have "free_index states u64_max = None"
  proof (cases "free_index states u64_max")
    case (Some i)
    have "i = u64_max"
      using while_option_rule [where P = "\<lambda>i. i = u64_max", OF _ Some [unfolded free_index_def]]
      by (simp add: sat_add_def)
    moreover have "map_of states i = None"
      using while_option_stop [OF Some [unfolded free_index_def]] by simp
    ultimately show ?thesis using taken by simp
  qed
  moreover have "sat_add u64_max 1 = u64_max" by (simp add: sat_add_def)
  ultimately show ?thesis using assms(2,3) by (simp add: insert_streaming_tool_calls_def)
qed

section \<open>Witnesses\<close>

definition one_call :: chat_tool_call where
  "one_call = \<lparr>tc_id = ''c'', tc_name = ''f'', tc_arguments = ''{}''\<rparr>"

end
