(* ===== verification/Tool_Ownership.thy ===== *)
theory Tool_Ownership
  imports Stream_Tool_Calls "HOL-Library.Multiset"
begin

text \<open>
  Who executes a tool call, \<^verbatim>\<open>crates/proxy/src/tools/ownership.rs\<close> with the tool tables of
  \<^verbatim>\<open>tools/definitions.rs\<close> and the executability test of \<^verbatim>\<open>tools/hosted.rs\<close>. Of the community tool
  set and of the client's tool context only the names matter here: the known and the executable
  community tools, and the declared external tools.
\<close>

datatype codex_native_tool = ApplyPatch
datatype hosted_tool = WebSearch | BuiltIn | Community
datatype tool_owner =
  CodexNative codex_native_tool | CodeseexHosted hosted_tool | External | Unknown

record community_tool_set =
  known_ids :: "string set"
  executable_ids :: "string set"

record tool_call_partition =
  p_code :: "chat_tool_call list"
  p_hosted :: "chat_tool_call list"
  p_native :: "chat_tool_call list"
  p_external :: "chat_tool_call list"
  p_unknown :: "chat_tool_call list"

definition empty_partition :: tool_call_partition where
  "empty_partition = \<lparr>p_code = [], p_hosted = [], p_native = [], p_external = [], p_unknown = []\<rparr>"

definition has_proxy_executed_calls :: "tool_call_partition \<Rightarrow> bool" where
  "has_proxy_executed_calls p = (p_code p \<noteq> [] \<or> p_hosted p \<noteq> [])"

definition has_client_executed_calls :: "tool_call_partition \<Rightarrow> bool" where
  "has_client_executed_calls p = (p_native p \<noteq> [] \<or> p_external p \<noteq> [])"

section \<open>Tool tables\<close>

definition CODESEEX_SYSTEM_HOSTED_TOOL_IDS :: "string list" where
  "CODESEEX_SYSTEM_HOSTED_TOOL_IDS = [''web_search'']"

definition CODESEEX_CONFIGURABLE_HOSTED_TOOL_IDS :: "string list" where
  "CODESEEX_CONFIGURABLE_HOSTED_TOOL_IDS =
     [''list_directory'', ''read_file_range'', ''workspace_search'', ''vision_analyze'', ''image_gen'']"

definition canonical_tool_id :: "string \<Rightarrow> string" where
  "canonical_tool_id i =
     (if i \<in> set [''vision_generate'', ''imagegen'', ''image_generation'', ''generate_image'',
         ''image_generate'', ''create_image''] then ''image_gen'' else i)"

definition is_known_code_tool :: "string \<Rightarrow> bool" where
  "is_known_code_tool name =
     (canonical_tool_id name \<in> set CODESEEX_SYSTEM_HOSTED_TOOL_IDS
      \<or> canonical_tool_id name \<in> set CODESEEX_CONFIGURABLE_HOSTED_TOOL_IDS)"

definition is_executable_tool_enabled :: "string \<Rightarrow> string list \<Rightarrow> bool" where
  "is_executable_tool_enabled name enabled_ids =
     (canonical_tool_id name \<in> set CODESEEX_SYSTEM_HOSTED_TOOL_IDS
      \<or> (canonical_tool_id name \<in> set CODESEEX_CONFIGURABLE_HOSTED_TOOL_IDS
         \<and> (\<exists>i \<in> set enabled_ids. canonical_tool_id i = canonical_tool_id name)))"

definition canonical_tool_name :: "string \<Rightarrow> string" where
  "canonical_tool_name name = (if name = ''web_search_preview'' then ''web_search'' else name)"

definition is_native_apply_patch_tool :: "string \<Rightarrow> bool" where
  "is_native_apply_patch_tool name = (name = ''apply_patch'')"

definition is_web_search_tool :: "string \<Rightarrow> bool" where
  "is_web_search_tool name = (canonical_tool_name name = ''web_search'')"

definition is_code_tool_executable :: "string \<Rightarrow> string list \<Rightarrow> community_tool_set \<Rightarrow> bool" where
  "is_code_tool_executable name enabled_tools community =
     (if is_web_search_tool name then True
      else is_executable_tool_enabled name enabled_tools \<or> name \<in> executable_ids community)"

section \<open>Ownership\<close>

definition resolve_tool_owner :: "string \<Rightarrow> community_tool_set \<Rightarrow> string set \<Rightarrow> tool_owner" where
  "resolve_tool_owner name community external =
     (if is_native_apply_patch_tool name then CodexNative ApplyPatch
      else if is_web_search_tool name then CodeseexHosted WebSearch
      else if name \<in> external then External
      else if is_known_code_tool name then CodeseexHosted BuiltIn
      else if name \<in> known_ids community then CodeseexHosted Community
      else Unknown)"

definition file_call ::
  "community_tool_set \<Rightarrow> string set \<Rightarrow> chat_tool_call \<Rightarrow> tool_call_partition \<Rightarrow> tool_call_partition"
where
  "file_call community external call p =
     (let call = call\<lparr>tc_name := canonical_tool_name (tc_name call)\<rparr>
      in case resolve_tool_owner (tc_name call) community external of
           CodexNative _ \<Rightarrow> p\<lparr>p_native := p_native p @ [call]\<rparr>
         | CodeseexHosted WebSearch \<Rightarrow> p\<lparr>p_hosted := p_hosted p @ [call]\<rparr>
         | CodeseexHosted _ \<Rightarrow> p\<lparr>p_code := p_code p @ [call]\<rparr>
         | External \<Rightarrow> p\<lparr>p_external := p_external p @ [call]\<rparr>
         | Unknown \<Rightarrow> p\<lparr>p_unknown := p_unknown p @ [call]\<rparr>)"

definition partition_tool_calls ::
  "chat_tool_call list \<Rightarrow> community_tool_set \<Rightarrow> string set \<Rightarrow> tool_call_partition" where
  "partition_tool_calls calls community external = fold (file_call community external) calls empty_partition"

definition proxy_executed_calls_in_order ::
  "chat_tool_call list \<Rightarrow> tool_call_partition \<Rightarrow> chat_tool_call list" where
  "proxy_executed_calls_in_order calls p =
     (let ids = set (map tc_id (p_code p @ p_hosted p)) in filter (\<lambda>c. tc_id c \<in> ids) calls)"

section \<open>The partition splits the calls by owner\<close>

definition canonical_call :: "chat_tool_call \<Rightarrow> chat_tool_call" where
  "canonical_call c = c\<lparr>tc_name := canonical_tool_name (tc_name c)\<rparr>"

definition owned_by ::
  "community_tool_set \<Rightarrow> string set \<Rightarrow> tool_owner set \<Rightarrow> chat_tool_call list \<Rightarrow> chat_tool_call list" where
  "owned_by community external owners calls =
     filter (\<lambda>c. resolve_tool_owner (tc_name c) community external \<in> owners) (map canonical_call calls)"

lemma file_call_step:
  "file_call community external c p =
     \<lparr>p_code = p_code p @ owned_by community external {CodeseexHosted BuiltIn, CodeseexHosted Community} [c],
      p_hosted = p_hosted p @ owned_by community external {CodeseexHosted WebSearch} [c],
      p_native = p_native p @ owned_by community external {CodexNative ApplyPatch} [c],
      p_external = p_external p @ owned_by community external {External} [c],
      p_unknown = p_unknown p @ owned_by community external {Unknown} [c]\<rparr>"
  by (cases "resolve_tool_owner (tc_name (canonical_call c)) community external")
    (auto simp: file_call_def owned_by_def canonical_call_def Let_def
      split: hosted_tool.split intro: codex_native_tool.exhaust)

lemma owned_by_Cons:
  "owned_by community external A (c # cs) = owned_by community external A [c] @ owned_by community external A cs"
  by (simp add: owned_by_def)

lemma partition_fold:
  "fold (file_call community external) calls p =
     \<lparr>p_code = p_code p @ owned_by community external {CodeseexHosted BuiltIn, CodeseexHosted Community} calls,
      p_hosted = p_hosted p @ owned_by community external {CodeseexHosted WebSearch} calls,
      p_native = p_native p @ owned_by community external {CodexNative ApplyPatch} calls,
      p_external = p_external p @ owned_by community external {External} calls,
      p_unknown = p_unknown p @ owned_by community external {Unknown} calls\<rparr>"
proof (induction calls arbitrary: p)
  case Nil
  show ?case by (simp add: owned_by_def)
next
  case (Cons c cs)
  show ?case
    unfolding owned_by_Cons [of _ _ _ c cs] by (simp add: Cons.IH) (simp add: file_call_step)
qed

lemma partition_calls:
  "partition_tool_calls calls community external =
     \<lparr>p_code = owned_by community external {CodeseexHosted BuiltIn, CodeseexHosted Community} calls,
      p_hosted = owned_by community external {CodeseexHosted WebSearch} calls,
      p_native = owned_by community external {CodexNative ApplyPatch} calls,
      p_external = owned_by community external {External} calls,
      p_unknown = owned_by community external {Unknown} calls\<rparr>"
  by (simp add: partition_tool_calls_def partition_fold empty_partition_def)

lemma mset_by_owner:
  "mset (owned_by community external A cs) + mset (owned_by community external B cs)
     = mset (owned_by community external (A \<union> B) cs)" if "A \<inter> B = {}"
  using that by (induction cs) (auto simp: owned_by_def)

lemma owner_cases:
  fixes n :: string
  defines "m \<equiv> canonical_tool_name n"
  shows "resolve_tool_owner m community external = CodeseexHosted WebSearch \<longleftrightarrow> m = ''web_search''"
    and "resolve_tool_owner m community external = CodexNative ApplyPatch \<longleftrightarrow> m = ''apply_patch''"
    and "resolve_tool_owner m community external = External
       \<longleftrightarrow> m \<in> external - {''web_search'', ''apply_patch''}"
    and "resolve_tool_owner m community external \<in> {CodeseexHosted BuiltIn, CodeseexHosted Community}
       \<Longrightarrow> m \<notin> external"
  by (auto simp: m_def resolve_tool_owner_def canonical_tool_name_def is_native_apply_patch_tool_def
      is_web_search_tool_def split: if_splits)

text \<open>Partitioning loses, duplicates and misfiles no call: the five groups are the canonically
  named calls of each owner in their order, together they are all the calls, the web search and
  apply_patch calls go to the proxy and to the client whatever the request declares, and a name
  the request declares as external is never run by the proxy.\<close>

lemma partition_by_owner:
  "let p = partition_tool_calls calls community external
   in mset (p_code p) + mset (p_hosted p) + mset (p_native p) + mset (p_external p) + mset (p_unknown p)
        = mset (map canonical_call calls)
      \<and> p_hosted p = filter (\<lambda>c. tc_name c = ''web_search'') (map canonical_call calls)
      \<and> p_native p = filter (\<lambda>c. tc_name c = ''apply_patch'') (map canonical_call calls)
      \<and> p_external p = filter (\<lambda>c. tc_name c \<in> external - {''web_search'', ''apply_patch''})
          (map canonical_call calls)
      \<and> subseq (p_code p) (map canonical_call calls)
      \<and> tc_name ` set (p_code p) \<inter> external = {}"
proof -
  let ?o = "owned_by community external" and ?cs = "map canonical_call calls"
  have "mset (?o {CodeseexHosted BuiltIn, CodeseexHosted Community} calls)
      + mset (?o {CodeseexHosted WebSearch} calls) + mset (?o {CodexNative ApplyPatch} calls)
      + mset (?o {External} calls) + mset (?o {Unknown} calls) = mset (?o UNIV calls)"
    by (subst mset_by_owner, simp)+ (rule arg_cong [where f = "\<lambda>A. mset (?o A calls)"],
      auto, metis codex_native_tool.exhaust hosted_tool.exhaust tool_owner.exhaust)
  also have "?o UNIV calls = ?cs" by (simp add: owned_by_def)
  finally have all: "mset (?o {CodeseexHosted BuiltIn, CodeseexHosted Community} calls)
      + mset (?o {CodeseexHosted WebSearch} calls) + mset (?o {CodexNative ApplyPatch} calls)
      + mset (?o {External} calls) + mset (?o {Unknown} calls) = mset ?cs" .
  have names: "\<exists>n. tc_name c = canonical_tool_name n" if "c \<in> set ?cs" for c
    using that by (auto simp: canonical_call_def)
  have own: "?o {owner} calls = filter P ?cs"
    if eq: "\<And>m. resolve_tool_owner (canonical_tool_name m) community external = owner
         \<longleftrightarrow> Q (canonical_tool_name m)" and P: "P = (\<lambda>c. Q (tc_name c))"
    for owner and P :: "chat_tool_call \<Rightarrow> bool" and Q
  proof (unfold owned_by_def, rule filter_cong [OF refl])
    fix c assume "c \<in> set ?cs"
    from names [OF this] obtain m where "tc_name c = canonical_tool_name m" ..
    with eq [of m] P
    show "(resolve_tool_owner (tc_name c) community external \<in> {owner}) = P c" by simp
  qed
  have h: "?o {CodeseexHosted WebSearch} calls = filter (\<lambda>c. tc_name c = ''web_search'') ?cs"
    and n: "?o {CodexNative ApplyPatch} calls = filter (\<lambda>c. tc_name c = ''apply_patch'') ?cs"
    and e: "?o {External} calls = filter (\<lambda>c. tc_name c \<in> external - {''web_search'', ''apply_patch''}) ?cs"
    by (rule own [OF owner_cases(1) refl], rule own [OF owner_cases(2) refl],
        rule own [OF owner_cases(3) refl])
  have "tc_name c \<notin> external"
    if "c \<in> set (?o {CodeseexHosted BuiltIn, CodeseexHosted Community} calls)" for c
  proof -
    from that have "c \<in> set ?cs"
      and r: "resolve_tool_owner (tc_name c) community external
        \<in> {CodeseexHosted BuiltIn, CodeseexHosted Community}"
      unfolding owned_by_def by simp_all
    from names [OF this(1)] obtain m where "tc_name c = canonical_tool_name m" ..
    with r owner_cases(4) [of m] show ?thesis by simp
  qed
  then have x: "tc_name ` set (?o {CodeseexHosted BuiltIn, CodeseexHosted Community} calls) \<inter> external = {}"
    by blast
  have s: "subseq (?o {CodeseexHosted BuiltIn, CodeseexHosted Community} calls) ?cs"
    unfolding owned_by_def by simp
  show ?thesis
    unfolding Let_def partition_calls tool_call_partition.simps by (intro conjI all h n e s x)
qed

end
