(* ===== verification/Tool_Loop_Guard.thy ===== *)
theory Tool_Loop_Guard
  imports Tool_Ownership
begin

text \<open>
  The guard of the tool loop, \<^verbatim>\<open>crates/proxy/src/tools/diagnostics.rs\<close>: it counts repeated calls,
  consecutive unsuccessful results per tool and web searches, and says when a loop has to stop.
  The counters are 32-bit in the code; the ones that add without saturating count the calls of one
  response, far below the bound.
\<close>

definition MAX_TOOL_LOOP_ITERATIONS :: nat where "MAX_TOOL_LOOP_ITERATIONS = 8"
definition MAX_WEB_SEARCH_LOOP_CALLS :: nat where "MAX_WEB_SEARCH_LOOP_CALLS = 3"

record tool_loop_diagnostics =
  seen_signatures :: "(string \<times> nat) list"
  consecutive_unsuccessful_by_name :: "(string \<times> nat) list"

definition no_diagnostics :: tool_loop_diagnostics where
  "no_diagnostics = \<lparr>seen_signatures = [], consecutive_unsuccessful_by_name = []\<rparr>"

record tool_loop_stop =
  stop_message :: string
  recover_with_final_response :: bool

datatype loop_health = Success | Failed | LowConfidenceFallback

record batch_tool_health =
  has_success :: bool
  unsuccessful_health :: "loop_health option"

definition no_health :: batch_tool_health where
  "no_health = \<lparr>has_success = False, unsuccessful_health = None\<rparr>"

section \<open>Operations\<close>

fun preview_loop :: "nat \<Rightarrow> nat \<Rightarrow> bool \<Rightarrow> rchar list \<Rightarrow> string" where
  "preview_loop max_chars n previous_was_space [] = []"
| "preview_loop max_chars n previous_was_space (ch # chs) =
     (let ch = (if is_whitespace ch then '' '' else ch)
      in if ch = '' '' \<and> previous_was_space then preview_loop max_chars n True chs
         else if max_chars \<le> n then ''...''
         else ch @ preview_loop max_chars (Suc n) (ch = '' '') chs)"

definition compact_preview :: "string \<Rightarrow> nat \<Rightarrow> string" where
  "compact_preview v max_chars = preview_loop max_chars 0 False (chars v)"

definition tool_signature :: "chat_tool_call \<Rightarrow> string" where
  "tool_signature call = tc_name call @ [CHR 0x0A] @ compact_preview (tc_arguments call) 2000"

definition stable_fingerprint :: "string \<Rightarrow> string" where
  "stable_fingerprint v = stable_hash_hex v"

definition prepare_tool_loop_recovery_payload :: "json \<Rightarrow> string \<Rightarrow> string + json" where
  "prepare_tool_loop_recovery_payload payload stop_msg =
     (let payload = jremove ''parallel_tool_calls'' (jremove ''tool_choice'' (jremove ''tools'' payload))
      in case Option.bind (jget payload ''messages'') as_array of
           None \<Rightarrow> Inl ''chat payload messages were not an array during tool loop recovery''
         | Some ms \<Rightarrow> Inr (jinsert ''messages'' (JArr (ms @ [jobj
             [(''role'', JStr ''user''),
              (''content'', JStr (''CodeSeeX stopped the tool loop and removed tools for this recovery turn: ''
                @ stop_msg @ '' Provide the final answer now using only the existing conversation evidence, returned tool results, and diagnostics. Do not request or encode additional tool calls in the response text. If the evidence is insufficient, say so briefly.''))]])) payload))"

definition count_signature ::
  "chat_tool_call \<Rightarrow> (string \<times> nat) list \<Rightarrow> (string \<times> nat) list" where
  "count_signature call seen =
     (let s = tool_signature call in om_insert s (unwrap_or 0 (map_of seen s) + 1) seen)"

fun record_calls ::
  "chat_tool_call list \<Rightarrow> (string \<times> nat) list \<Rightarrow> json list \<times> (string \<times> nat) list" where
  "record_calls [] seen = ([], seen)"
| "record_calls (call # calls) seen =
     (let seen = count_signature call seen;
          (js, seen') = record_calls calls seen
      in (jobj [(''call_id'', JStr (tc_id call)), (''name'', JStr (tc_name call)),
                (''arguments_chars'', jnat (char_count (tc_arguments call))),
                (''arguments_fingerprint'', JStr (stable_fingerprint (tc_arguments call))),
                (''repeat_count'', jnat (unwrap_or 0 (map_of seen (tool_signature call))))] # js, seen'))"

definition record_iteration ::
  "nat \<Rightarrow> chat_tool_call list \<Rightarrow> tool_call_partition \<Rightarrow> tool_loop_diagnostics
     \<Rightarrow> json \<times> tool_loop_diagnostics" where
  "record_iteration iteration calls p d =
     (case record_calls calls (seen_signatures d) of
        (js, seen) \<Rightarrow>
          (jobj [(''iteration'', jnat iteration), (''calls'', JArr js),
             (''counts'', jobj [(''code'', jnat (length (p_code p))), (''hosted'', jnat (length (p_hosted p))),
                (''native'', jnat (length (p_native p))), (''external'', jnat (length (p_external p))),
                (''unknown'', jnat (length (p_unknown p)))])],
           d\<lparr>seen_signatures := seen\<rparr>))"

definition repeated_call_warning :: "tool_loop_diagnostics \<Rightarrow> chat_tool_call \<Rightarrow> string option" where
  "repeated_call_warning d call =
     (let n = unwrap_or 0 (map_of (seen_signatures d) (tool_signature call))
      in if n < 3 then None
         else Some (''CodeSeeX noticed this exact tool call has repeated '' @ nat_str n
           @ '' times in the same response. Reuse the existing returned evidence when possible instead of repeating the same call again.''))"

definition consecutive_failure_threshold :: "string \<Rightarrow> nat" where
  "consecutive_failure_threshold tool_name = (if tool_name = ''web_search'' then 2 else 3)"

definition record_health :: "loop_health \<Rightarrow> batch_tool_health \<Rightarrow> batch_tool_health" where
  "record_health health b =
     (if health = Success then b\<lparr>has_success := True\<rparr>
      else if health = Failed then b\<lparr>unsuccessful_health := Some Failed\<rparr>
      else if unsuccessful_health b = None then b\<lparr>unsuccessful_health := Some health\<rparr>
      else b)"

definition tool_result_loop_health :: "chat_tool_call \<Rightarrow> json \<Rightarrow> loop_health" where
  "tool_result_loop_health call result =
     (if Option.bind (jget result ''ok'') as_bool = Some False \<or> jget result ''error'' \<noteq> None then Failed
      else if tc_name call = ''web_search''
              \<and> Option.bind (jget result ''low_confidence_fallback'') as_bool = Some True
           then LowConfidenceFallback
      else Success)"

definition tool_loop_stop_message :: "string \<Rightarrow> loop_health \<Rightarrow> nat \<Rightarrow> string" where
  "tool_loop_stop_message tool_name health unsuccessful =
     (case health of
        LowConfidenceFallback \<Rightarrow> ''Tool '' @ [CHR 0x27] @ tool_name @ [CHR 0x27]
          @ '' returned low-confidence fallback results '' @ nat_str unsuccessful
          @ '' consecutive times in one response. CodeSeeX stopped the loop to avoid burning tokens on repeated weak web search retries.''
      | _ \<Rightarrow> ''Tool '' @ [CHR 0x27] @ tool_name @ [CHR 0x27] @ '' failed '' @ nat_str unsuccessful
          @ '' consecutive times in one response. CodeSeeX stopped the loop to avoid burning tokens on repeated failing tool retries.'')"

definition tool_loop_stop_is_recoverable :: "string \<Rightarrow> loop_health \<Rightarrow> bool" where
  "tool_loop_stop_is_recoverable tool_name health =
     (tool_name = ''web_search'' \<and> health \<in> {Failed, LowConfidenceFallback})"

definition batch_of :: "(chat_tool_call \<times> json) list \<Rightarrow> (string \<times> batch_tool_health) list" where
  "batch_of results = fold (\<lambda>(call, result) b.
     om_insert (tc_name call)
       (record_health (tool_result_loop_health call result)
         (unwrap_or no_health (map_of b (tc_name call)))) b) results []"

definition judge_tool ::
  "string \<times> batch_tool_health \<Rightarrow> (string \<times> nat) list \<times> tool_loop_stop option
     \<Rightarrow> (string \<times> nat) list \<times> tool_loop_stop option" where
  "judge_tool entry st =
     (case (entry, st) of ((tool_name, health), (counts, stop)) \<Rightarrow>
        if has_success health then (om_insert tool_name 0 counts, stop)
        else case unsuccessful_health health of
            None \<Rightarrow> (counts, stop)
          | Some loop_health \<Rightarrow>
              (let n = sat_add32 (unwrap_or 0 (map_of counts tool_name)) 1;
                   counts = om_insert tool_name n counts
               in if n < consecutive_failure_threshold tool_name \<or> stop \<noteq> None then (counts, stop)
                  else (counts, Some \<lparr>stop_message = tool_loop_stop_message tool_name loop_health n,
                     recover_with_final_response = tool_loop_stop_is_recoverable tool_name loop_health\<rparr>)))"

definition record_tool_results_and_repeated_failure ::
  "(chat_tool_call \<times> json) list \<Rightarrow> tool_loop_diagnostics
     \<Rightarrow> tool_loop_stop option \<times> tool_loop_diagnostics" where
  "record_tool_results_and_repeated_failure results d =
     (case fold judge_tool (batch_of results) (consecutive_unsuccessful_by_name d, None) of
        (counts, stop) \<Rightarrow> (stop, d\<lparr>consecutive_unsuccessful_by_name := counts\<rparr>))"

definition iteration_limit_error :: string where
  "iteration_limit_error = ''Tool loop exceeded '' @ nat_str MAX_TOOL_LOOP_ITERATIONS
     @ '' iterations in one response. CodeSeeX stopped the loop to avoid unbounded tool execution and upstream token usage.''"

definition web_search_calls_seen :: "tool_loop_diagnostics \<Rightarrow> nat" where
  "web_search_calls_seen d =
     sum_list (map snd (filter (\<lambda>e. starts_with (fst e) (''web_search'' @ [CHR 0x0A])) (seen_signatures d)))"

definition web_search_budget_stop :: "tool_loop_diagnostics \<Rightarrow> tool_loop_stop option" where
  "web_search_budget_stop d =
     (if web_search_calls_seen d < MAX_WEB_SEARCH_LOOP_CALLS then None
      else Some \<lparr>stop_message = ''Tool '' @ [CHR 0x27] @ ''web_search'' @ [CHR 0x27]
             @ '' reached its per-response budget of '' @ nat_str MAX_WEB_SEARCH_LOOP_CALLS
             @ '' calls. CodeSeeX stopped the loop to avoid burning tokens on repeated web searches.'',
           recover_with_final_response = True\<rparr>)"

definition attach_tool_loop_warning :: "json \<Rightarrow> string \<Rightarrow> json" where
  "attach_tool_loop_warning result warning =
     jinsert ''_codeseex_tool_loop_warning'' (JStr warning) result"

section \<open>Signatures are counted\<close>

lemma map_of_count_signature:
  "map_of (count_signature call seen) s =
     (if s = tool_signature call then Some (unwrap_or 0 (map_of seen s) + 1) else map_of seen s)"
  by (simp add: count_signature_def Let_def map_simps)

lemma record_calls_lookup:
  "unwrap_or 0 (map_of (snd (record_calls calls seen)) s) =
     unwrap_or 0 (map_of seen s) + length (filter (\<lambda>c. tool_signature c = s) calls)"
  by (induction calls arbitrary: seen)
    (auto simp: Let_def case_prod_beta map_of_count_signature)

lemma record_calls_ok: "om_ok seen \<Longrightarrow> om_ok (snd (record_calls calls seen))"
  by (induction calls arbitrary: seen) (auto simp: Let_def case_prod_beta count_signature_def)

text \<open>The counters of all the rounds of a response.\<close>

fun record_rounds :: "(chat_tool_call list \<times> tool_call_partition) list \<Rightarrow> nat
    \<Rightarrow> tool_loop_diagnostics \<Rightarrow> tool_loop_diagnostics" where
  "record_rounds [] n d = d"
| "record_rounds ((calls, p) # rounds) n d =
     record_rounds rounds (Suc n) (snd (record_iteration n calls p d))"

lemma record_iteration_seen:
  "seen_signatures (snd (record_iteration n calls p d)) = snd (record_calls calls (seen_signatures d))"
  by (simp add: record_iteration_def case_prod_beta)

lemma record_rounds_lookup:
  "unwrap_or 0 (map_of (seen_signatures (record_rounds rounds n d)) s) =
     unwrap_or 0 (map_of (seen_signatures d) s)
       + length (filter (\<lambda>c. tool_signature c = s) (concat (map fst rounds)))"
  by (induction rounds n d rule: record_rounds.induct)
    (simp_all add: record_iteration_seen record_calls_lookup)

lemma record_rounds_ok:
  "om_ok (seen_signatures d) \<Longrightarrow> om_ok (seen_signatures (record_rounds rounds n d))"
  by (induction rounds n d rule: record_rounds.induct)
    (simp_all add: record_iteration_seen record_calls_ok)

lemma sum_counts:
  assumes "om_ok m" and "\<And>s. unwrap_or 0 (map_of m s) = length (filter (\<lambda>c. f c = s) calls)"
  shows "sum_list (map snd (filter (\<lambda>e. P (fst e)) m)) = length (filter (\<lambda>c. P (f c)) calls)"
proof -
  let ?K = "fst ` set m"
  have inK: "f c \<in> ?K" if "c \<in> set calls" for c
  proof -
    from that have "0 < length (filter (\<lambda>d. f d = f c) calls)"
      by (auto simp: filter_empty_conv)
    then have "map_of m (f c) \<noteq> None" using assms(2) [of "f c"] by (cases "map_of m (f c)") simp_all
    then show ?thesis by (simp add: map_of_eq_None_iff)
  qed
  have d: "distinct (map fst m)" by (rule om_ok_distinct [OF assms(1)])
  have "sum_list (map snd (filter (\<lambda>e. P (fst e)) m))
      = (\<Sum>e \<in> {e \<in> set m. P (fst e)}. snd e)"
    using d by (simp add: sum_list_distinct_conv_sum_set distinct_map)
  also have "\<dots> = (\<Sum>e \<in> {e \<in> set m. P (fst e)}. length (filter (\<lambda>c. f c = fst e) calls))"
  proof (rule sum.cong [OF refl])
    fix e assume "e \<in> {e \<in> set m. P (fst e)}"
    then have "map_of m (fst e) = Some (snd e)" using d by simp
    then show "snd e = length (filter (\<lambda>c. f c = fst e) calls)" using assms(2) [of "fst e"] by simp
  qed
  also have "\<dots> = (\<Sum>k \<in> {k \<in> ?K. P k}. length (filter (\<lambda>c. f c = k) calls))"
  proof -
    have inj: "inj_on fst {e \<in> set m. P (fst e)}"
      using d by (auto simp: distinct_map inj_on_def)
    have "fst ` {e \<in> set m. P (fst e)} = {k \<in> ?K. P k}" by auto
    with sum.reindex [OF inj, of "\<lambda>k. length (filter (\<lambda>c. f c = k) calls)"]
    show ?thesis by (simp only: o_def)
  qed
  also have "\<dots> = length (filter (\<lambda>c. P (f c)) calls)"
    using inK
  proof (induction calls)
    case (Cons c cs)
    have "(\<Sum>k \<in> {k \<in> ?K. P k}. length (filter (\<lambda>x. f x = k) (c # cs)))
        = (\<Sum>k \<in> {k \<in> ?K. P k}. (if k = f c then 1 else 0) + length (filter (\<lambda>x. f x = k) cs))"
      by (intro sum.cong) auto
    also have "\<dots> = (if P (f c) then 1 else 0) + length (filter (\<lambda>x. P (f x)) cs)"
      using Cons by (simp add: sum.distrib)
    finally show ?case by simp
  qed simp
  finally show ?thesis .
qed

lemma starts_with_line:
  assumes "d \<notin> set w"
  shows "starts_with (s @ d # r) (w @ [d]) \<longleftrightarrow> takeWhile (\<lambda>c. c \<noteq> d) s = w"
proof
  have tw: "takeWhile (\<lambda>c. c \<noteq> d) (x @ d # y) = takeWhile (\<lambda>c. c \<noteq> d) x" for x y
    by (induction x) auto
  assume "starts_with (s @ d # r) (w @ [d])"
  then obtain q where "s @ d # r = w @ d # q" by (auto simp: starts_with_iff)
  then have "takeWhile (\<lambda>c. c \<noteq> d) s = takeWhile (\<lambda>c. c \<noteq> d) w" by (metis tw)
  also have "\<dots> = w" using assms by (auto simp: takeWhile_eq_all_conv)
  finally show "takeWhile (\<lambda>c. c \<noteq> d) s = w" .
next
  assume w: "takeWhile (\<lambda>c. c \<noteq> d) s = w"
  show "starts_with (s @ d # r) (w @ [d])"
  proof (cases "dropWhile (\<lambda>c. c \<noteq> d) s")
    case Nil
    then have "s = w" using w by (metis append_Nil2 takeWhile_dropWhile_id)
    then show ?thesis by (simp add: starts_with_iff)
  next
    case (Cons a q)
    then have "a = d" using hd_dropWhile [of "\<lambda>c. c \<noteq> d" s] by simp
    with Cons w have "s = w @ d # q" by (metis takeWhile_dropWhile_id)
    then show ?thesis by (auto simp: starts_with_iff)
  qed
qed

text \<open>Over the rounds of a response, the web search budget stops the loop exactly when three calls
  named \<^verbatim>\<open>web_search\<close> (up to a line break in the name) were made, and a call is warned about
  exactly when its signature, name and squeezed arguments, was seen three times.\<close>

lemma loop_budgets_exact:
  "let d = record_rounds rounds 1 no_diagnostics; calls = concat (map fst rounds)
   in (web_search_budget_stop d \<noteq> None
         \<longleftrightarrow> 3 \<le> length (filter (\<lambda>c. takeWhile (\<lambda>x. x \<noteq> CHR 0x0A) (tc_name c) = ''web_search'') calls))
      \<and> (repeated_call_warning d call \<noteq> None
         \<longleftrightarrow> 3 \<le> length (filter (\<lambda>c. tool_signature c = tool_signature call) calls))"
proof -
  let ?d = "record_rounds rounds 1 no_diagnostics" and ?calls = "concat (map fst rounds)"
  have look: "unwrap_or 0 (map_of (seen_signatures ?d) s)
      = length (filter (\<lambda>c. tool_signature c = s) ?calls)" for s
    by (simp add: record_rounds_lookup no_diagnostics_def)
  have ok: "om_ok (seen_signatures ?d)"
    by (rule record_rounds_ok) (simp add: no_diagnostics_def)
  have "starts_with (tool_signature c) (''web_search'' @ [CHR 0x0A])
      \<longleftrightarrow> takeWhile (\<lambda>x. x \<noteq> CHR 0x0A) (tc_name c) = ''web_search''" for c
    using starts_with_line [of "CHR 0x0A" "''web_search''" "tc_name c"] by (simp add: tool_signature_def)
  then have "web_search_calls_seen ?d
      = length (filter (\<lambda>c. takeWhile (\<lambda>x. x \<noteq> CHR 0x0A) (tc_name c) = ''web_search'') ?calls)"
    unfolding web_search_calls_seen_def
    using sum_counts [OF ok look, of "\<lambda>s. starts_with s (''web_search'' @ [CHR 0x0A])"] by simp
  moreover have "repeated_call_warning ?d call \<noteq> None
      \<longleftrightarrow> 3 \<le> unwrap_or 0 (map_of (seen_signatures ?d) (tool_signature call))"
    by (auto simp: repeated_call_warning_def Let_def)
  ultimately show ?thesis
    unfolding Let_def look by (auto simp: web_search_budget_stop_def MAX_WEB_SEARCH_LOOP_CALLS_def)
qed

section \<open>Consecutive failures\<close>

definition healths :: "string \<Rightarrow> (chat_tool_call \<times> json) list \<Rightarrow> loop_health list" where
  "healths t results =
     map (\<lambda>(c, r). tool_result_loop_health c r) (filter (\<lambda>(c, r). tc_name c = t) results)"

text \<open>How often in a row a tool was unsuccessful, over batches of results given in order.\<close>

definition failure_step :: "string \<Rightarrow> (chat_tool_call \<times> json) list \<Rightarrow> nat \<Rightarrow> nat" where
  "failure_step t batch n =
     (if healths t batch = [] then n else if Success \<in> set (healths t batch) then 0 else n + 1)"

definition failures_in_row :: "string \<Rightarrow> (chat_tool_call \<times> json) list list \<Rightarrow> nat" where
  "failures_in_row t batches = fold (failure_step t) batches 0"

lemma batch_of_fold:
  "map_of (fold (\<lambda>(call, result) b.
       om_insert (tc_name call)
         (record_health (tool_result_loop_health call result)
           (unwrap_or no_health (map_of b (tc_name call)))) b) results b) t =
     (if healths t results = [] then map_of b t
      else Some (fold record_health (healths t results) (unwrap_or no_health (map_of b t))))"
proof (induction results arbitrary: b)
  case (Cons e es)
  then show ?case by (cases e) (auto simp: healths_def map_simps)
qed (simp add: healths_def)

lemma batch_of_lookup:
  "map_of (batch_of results) t =
     (if healths t results = [] then None else Some (fold record_health (healths t results) no_health))"
  unfolding batch_of_def by (subst batch_of_fold) simp

lemma batch_of_ok: "om_ok (batch_of results)"
proof -
  have "om_ok b \<Longrightarrow> om_ok (fold (\<lambda>(call, result) b.
       om_insert (tc_name call)
         (record_health (tool_result_loop_health call result)
           (unwrap_or no_health (map_of b (tc_name call)))) b) results b)" for b
    by (induction results arbitrary: b) auto
  then show ?thesis by (simp add: batch_of_def)
qed

lemma fold_record_health:
  "has_success (fold record_health hs b) \<longleftrightarrow> has_success b \<or> Success \<in> set hs"
  "unsuccessful_health (fold record_health hs b) = None
     \<longleftrightarrow> unsuccessful_health b = None \<and> set hs \<subseteq> {Success}"
  by (induction hs arbitrary: b) (auto simp: record_health_def)

text \<open>The verdict on one tool of a batch.\<close>

definition fails :: "batch_tool_health \<Rightarrow> bool" where
  "fails h = (\<not> has_success h \<and> unsuccessful_health h \<noteq> None)"

definition judged_counts ::
  "string \<Rightarrow> batch_tool_health \<Rightarrow> (string \<times> nat) list \<Rightarrow> (string \<times> nat) list" where
  "judged_counts t h counts =
     (if has_success h then om_insert t 0 counts
      else if fails h then om_insert t (sat_add32 (unwrap_or 0 (map_of counts t)) 1) counts
      else counts)"

lemma judge_tool_cases:
  obtains stop' where "judge_tool (t, h) (counts, stop) = (judged_counts t h counts, stop')"
    and "stop' \<noteq> None \<longleftrightarrow> stop \<noteq> None
     \<or> fails h \<and> consecutive_failure_threshold t \<le> sat_add32 (unwrap_or 0 (map_of counts t)) 1"
proof (rule that [of "snd (judge_tool (t, h) (counts, stop))"])
  show "judge_tool (t, h) (counts, stop) =
      (judged_counts t h counts, snd (judge_tool (t, h) (counts, stop)))"
    by (auto simp: judge_tool_def judged_counts_def fails_def Let_def split: option.splits)
  show "snd (judge_tool (t, h) (counts, stop)) \<noteq> None \<longleftrightarrow> stop \<noteq> None
     \<or> fails h \<and> consecutive_failure_threshold t \<le> sat_add32 (unwrap_or 0 (map_of counts t)) 1"
    by (auto simp: judge_tool_def fails_def Let_def split: option.splits)
qed

lemma judged_counts_other: "k \<noteq> t \<Longrightarrow> map_of (judged_counts t h counts) k = map_of counts k"
  by (simp add: judged_counts_def map_simps)

lemma fold_judge_counts:
  assumes "distinct (map fst entries)"
  shows "map_of (fst (fold judge_tool entries (counts, stop))) t =
     (case map_of entries t of
        None \<Rightarrow> map_of counts t
      | Some h \<Rightarrow> if has_success h then Some 0
          else if fails h then Some (sat_add32 (unwrap_or 0 (map_of counts t)) 1)
          else map_of counts t)"
  using assms
proof (induction entries arbitrary: counts stop)
  case (Cons e es)
  obtain k h where e: "e = (k, h)" by (cases e)
  obtain stop' where j: "judge_tool (k, h) (counts, stop) = (judged_counts k h counts, stop')"
    by (rule judge_tool_cases)
  have k: "map_of es k = None" using Cons.prems e by (auto simp: map_of_eq_None_iff)
  have "map_of (fst (fold judge_tool (e # es) (counts, stop))) t =
      map_of (fst (fold judge_tool es (judged_counts k h counts, stop'))) t"
    by (simp add: e j)
  also have "\<dots> = (case map_of es t of
        None \<Rightarrow> map_of (judged_counts k h counts) t
      | Some h' \<Rightarrow> if has_success h' then Some 0
          else if fails h' then Some (sat_add32 (unwrap_or 0 (map_of (judged_counts k h counts) t)) 1)
          else map_of (judged_counts k h counts) t)"
    using Cons.prems by (intro Cons.IH) simp
  finally show ?case
    using k by (cases "t = k"; cases "map_of es t")
      (simp_all add: e judged_counts_other, simp add: judged_counts_def map_simps)
qed simp

lemma fold_judge_stop:
  assumes "distinct (map fst entries)"
  shows "snd (fold judge_tool entries (counts, stop)) \<noteq> None \<longleftrightarrow> stop \<noteq> None
     \<or> (\<exists>(t, h) \<in> set entries. fails h
         \<and> consecutive_failure_threshold t \<le> sat_add32 (unwrap_or 0 (map_of counts t)) 1)"
  using assms
proof (induction entries arbitrary: counts stop)
  case (Cons e es)
  obtain k h where e: "e = (k, h)" by (cases e)
  obtain stop' where j: "judge_tool (k, h) (counts, stop) = (judged_counts k h counts, stop')"
    and s: "stop' \<noteq> None \<longleftrightarrow> stop \<noteq> None
     \<or> fails h \<and> consecutive_failure_threshold k \<le> sat_add32 (unwrap_or 0 (map_of counts k)) 1"
    by (rule judge_tool_cases)
  have k: "\<forall>(t, h') \<in> set es. t \<noteq> k" using Cons.prems e by (auto simp: rev_image_eqI)
  have "snd (fold judge_tool (e # es) (counts, stop)) \<noteq> None
      \<longleftrightarrow> snd (fold judge_tool es (judged_counts k h counts, stop')) \<noteq> None"
    by (simp add: e j)
  also have "\<dots> \<longleftrightarrow> stop' \<noteq> None \<or> (\<exists>(t, h') \<in> set es. fails h' \<and> consecutive_failure_threshold t
      \<le> sat_add32 (unwrap_or 0 (map_of (judged_counts k h counts) t)) 1)"
    using Cons.prems by (intro Cons.IH) simp
  also have "\<dots> \<longleftrightarrow> stop' \<noteq> None \<or> (\<exists>(t, h') \<in> set es. fails h' \<and> consecutive_failure_threshold t
      \<le> sat_add32 (unwrap_or 0 (map_of counts t)) 1)"
  proof -
    have "map_of (judged_counts k h counts) t = map_of counts t" if "(t, h') \<in> set es" for t h'
      using that k by (intro judged_counts_other) auto
    then show ?thesis by (metis (no_types, lifting) case_prodE case_prodI)
  qed
  finally show ?case using s by (auto simp: e)
qed simp


fun feed_batches ::
  "(chat_tool_call \<times> json) list list \<Rightarrow> tool_loop_diagnostics
     \<Rightarrow> tool_loop_stop option list \<times> tool_loop_diagnostics" where
  "feed_batches [] d = ([], d)"
| "feed_batches (b # bs) d =
     (let (stop, d) = record_tool_results_and_repeated_failure b d;
          (stops, d) = feed_batches bs d
      in (stop # stops, d))"

definition count_of :: "tool_loop_diagnostics \<Rightarrow> string \<Rightarrow> nat" where
  "count_of d t = unwrap_or 0 (map_of (consecutive_unsuccessful_by_name d) t)"

lemma record_results_count:
  assumes "count_of d t < u32_max"
  shows "count_of (snd (record_tool_results_and_repeated_failure b d)) t = failure_step t b (count_of d t)"
proof -
  have "distinct (map fst (batch_of b))" by (rule om_ok_distinct [OF batch_of_ok])
  from fold_judge_counts [OF this, of "consecutive_unsuccessful_by_name d" None t]
  have "count_of (snd (record_tool_results_and_repeated_failure b d)) t =
      unwrap_or 0 (case map_of (batch_of b) t of
        None \<Rightarrow> map_of (consecutive_unsuccessful_by_name d) t
      | Some h \<Rightarrow> if has_success h then Some 0
          else if fails h then Some (sat_add32 (count_of d t) 1)
          else map_of (consecutive_unsuccessful_by_name d) t)"
    unfolding count_of_def by (simp add: record_tool_results_and_repeated_failure_def case_prod_beta)
  also have "\<dots> = failure_step t b (count_of d t)"
  proof (cases "healths t b = []")
    case True
    then show ?thesis by (simp add: batch_of_lookup failure_step_def count_of_def)
  next
    case False
    then obtain h where "h \<in> set (healths t b)" by (cases "healths t b") auto
    with False assms show ?thesis
      by (auto simp: batch_of_lookup failure_step_def fails_def fold_record_health no_health_def
          sat_add32_def)
  qed
  finally show ?thesis .
qed

lemma record_results_stop:
  assumes "\<And>t. count_of d t < u32_max"
  shows "fst (record_tool_results_and_repeated_failure b d) \<noteq> None \<longleftrightarrow>
     (\<exists>t. healths t b \<noteq> [] \<and> Success \<notin> set (healths t b)
        \<and> consecutive_failure_threshold t \<le> count_of d t + 1)"
proof -
  have d: "distinct (map fst (batch_of b))" by (rule om_ok_distinct [OF batch_of_ok])
  have "sat_add32 (count_of d t) 1 = count_of d t + 1" for t
    using assms [of t] by (simp add: sat_add32_def)
  then have "fst (record_tool_results_and_repeated_failure b d) \<noteq> None \<longleftrightarrow>
      (\<exists>(t, h) \<in> set (batch_of b). fails h \<and> consecutive_failure_threshold t \<le> count_of d t + 1)"
    using fold_judge_stop [OF d, of "consecutive_unsuccessful_by_name d" None]
    by (simp add: record_tool_results_and_repeated_failure_def case_prod_beta count_of_def)
  also have "\<dots> \<longleftrightarrow> (\<exists>t h. map_of (batch_of b) t = Some h \<and> fails h
      \<and> consecutive_failure_threshold t \<le> count_of d t + 1)"
    using d by auto
  also have "\<dots> \<longleftrightarrow> (\<exists>t. healths t b \<noteq> [] \<and> Success \<notin> set (healths t b)
        \<and> consecutive_failure_threshold t \<le> count_of d t + 1)"
  proof -
    have "fails (fold record_health (healths t b) no_health) \<longleftrightarrow> Success \<notin> set (healths t b)"
      if "healths t b \<noteq> []" for t
    proof -
      from that have "\<exists>x. x \<in> set (healths t b)" by (cases "healths t b") auto
      then show ?thesis unfolding fails_def fold_record_health by (auto simp: no_health_def)
    qed
    then show ?thesis by (auto simp: batch_of_lookup)
  qed
  finally show ?thesis .
qed

lemma feed_batches_count:
  assumes "\<And>t. count_of d t + length bs < u32_max"
  shows "count_of (snd (feed_batches bs d)) t = fold (failure_step t) bs (count_of d t)"
  using assms
proof (induction bs arbitrary: d)
  case (Cons b bs)
  let ?d = "snd (record_tool_results_and_repeated_failure b d)"
  have c: "count_of ?d t = failure_step t b (count_of d t)" for t
    using Cons.prems [of t] by (intro record_results_count) simp
  have "count_of ?d t + length bs < u32_max" for t
    using Cons.prems [of t] by (simp add: c failure_step_def)
  from Cons.IH [OF this] show ?case by (simp add: case_prod_beta c)
qed simp

lemma feed_batches_append:
  "feed_batches (bs @ [b]) d =
     (fst (feed_batches bs d) @ [fst (record_tool_results_and_repeated_failure b (snd (feed_batches bs d)))],
      snd (record_tool_results_and_repeated_failure b (snd (feed_batches bs d))))"
  by (induction bs arbitrary: d) (simp_all add: case_prod_beta)

lemma failures_in_row_bound: "failures_in_row t bs \<le> length bs"
proof -
  have "fold (failure_step t) bs n \<le> n + length bs" for n
  proof (induction bs arbitrary: n)
    case (Cons b bs)
    show ?case using Cons.IH [of "failure_step t b n"] by (auto simp: failure_step_def split: if_splits)
  qed simp
  then show ?thesis unfolding failures_in_row_def by (metis add_0)
qed

text \<open>After any sequence of batches of tool results, the last batch stops the loop exactly when it
  holds results of some tool, none of them successful, and the tool has now failed in as many
  batches in a row as its threshold says: two for the web search, three for every other tool.
  Batches that do not mention a tool do not change its count; one success resets it.\<close>

lemma repeated_failure_stop_exact:
  assumes "length (batches @ [batch]) < 4294967295"
  shows "last (fst (feed_batches (batches @ [batch]) no_diagnostics)) \<noteq> None \<longleftrightarrow>
     (\<exists>t. healths t batch \<noteq> [] \<and> Success \<notin> set (healths t batch)
        \<and> (if t = ''web_search'' then 2 else 3) \<le> failures_in_row t (batches @ [batch]))"
proof -
  let ?d = "snd (feed_batches batches no_diagnostics)"
  have z: "count_of no_diagnostics t = 0" for t by (simp add: count_of_def no_diagnostics_def)
  have c: "count_of ?d t = failures_in_row t batches" for t
    unfolding failures_in_row_def
    using feed_batches_count [of no_diagnostics batches t] assms by (simp add: z u32_max_def)
  have "count_of ?d t < u32_max" for t
    using failures_in_row_bound [of t batches] assms by (simp add: c u32_max_def)
  from record_results_stop [OF this, of batch]
  have "last (fst (feed_batches (batches @ [batch]) no_diagnostics)) \<noteq> None \<longleftrightarrow>
     (\<exists>t. healths t batch \<noteq> [] \<and> Success \<notin> set (healths t batch)
        \<and> consecutive_failure_threshold t \<le> failures_in_row t batches + 1)"
    unfolding feed_batches_append c by simp
  moreover have "(healths t batch \<noteq> [] \<and> Success \<notin> set (healths t batch)
        \<and> consecutive_failure_threshold t \<le> failures_in_row t batches + 1)
      \<longleftrightarrow> (healths t batch \<noteq> [] \<and> Success \<notin> set (healths t batch)
        \<and> (if t = ''web_search'' then 2 else 3) \<le> failures_in_row t (batches @ [batch]))" for t
    by (auto simp: failures_in_row_def failure_step_def consecutive_failure_threshold_def)
  ultimately show ?thesis by (simp only:)
qed

definition failing_search :: "chat_tool_call \<times> json" where
  "failing_search = (\<lparr>tc_id = ''c'', tc_name = ''web_search'', tc_arguments = ''{}''\<rparr>,
     jobj [(''ok'', JBool False)])"

end
