(* ===== verification/Deepseek_Protocol.thy ===== *)
theory Deepseek_Protocol
  imports Chat_Messages Stream_Tool_Calls
begin

text \<open>
  DeepSeek's textual tool protocol (DSML), \<^verbatim>\<open>crates/proxy/src/upstream/deepseek/tool_protocol.rs\<close>:
  tool calls that the model writes into its text are cut out of it and become ordinary tool calls.
  The stream adapter keeps the text it has not decided about in a buffer. JSON printing and parsing
  are parameters, and so are the generated ids: \<open>uuid j\<close> is the j-th identifier of the process and
  \<open>k\<close> the number of those already used.
\<close>

definition dsml_bars :: string where
  "dsml_bars = [CHR 0xEF, CHR 0xBD, CHR 0x9C, CHR 0xEF, CHR 0xBD, CHR 0x9C]"

definition dsml_open :: "string \<Rightarrow> string" where
  "dsml_open tag = ''<'' @ dsml_bars @ ''DSML'' @ dsml_bars @ tag"

definition dsml_close :: "string \<Rightarrow> string" where
  "dsml_close tag = ''</'' @ dsml_bars @ ''DSML'' @ dsml_bars @ tag"

definition DSML_START :: string where "DSML_START = dsml_open ''tool_calls>''"
definition DSML_END :: string where "DSML_END = dsml_close ''tool_calls>''"
definition INVOKE_OPEN :: string where "INVOKE_OPEN = dsml_open ''invoke''"
definition INVOKE_CLOSE :: string where "INVOKE_CLOSE = dsml_close ''invoke>''"
definition PARAM_OPEN :: string where "PARAM_OPEN = dsml_open ''parameter''"
definition PARAM_CLOSE :: string where "PARAM_CLOSE = dsml_close ''parameter>''"

lemmas dsml_tags = DSML_START_def DSML_END_def INVOKE_OPEN_def INVOKE_CLOSE_def PARAM_OPEN_def
  PARAM_CLOSE_def dsml_open_def dsml_close_def dsml_bars_def

record deepseek_tool_content =
  visible_text :: string
  dt_tool_calls :: "chat_tool_call list"
  dt_blocked :: bool
  dt_parse_failed :: bool

definition no_content :: deepseek_tool_content where
  "no_content = \<lparr>visible_text = [], dt_tool_calls = [], dt_blocked = False, dt_parse_failed = False\<rparr>"

record tool_protocol_adaptation =
  adapted_tool_names :: "string list"
  blocked_channels :: "string list"
  parse_failed_channels :: "string list"

definition no_adaptation :: tool_protocol_adaptation where
  "no_adaptation = \<lparr>adapted_tool_names = [], blocked_channels = [], parse_failed_channels = []\<rparr>"

definition adaptation_changed :: "tool_protocol_adaptation \<Rightarrow> bool" where
  "adaptation_changed a =
     (adapted_tool_names a \<noteq> [] \<or> blocked_channels a \<noteq> [] \<or> parse_failed_channels a \<noteq> [])"

section \<open>Parsing a block\<close>

definition decode_dsml_text :: "string \<Rightarrow> string" where
  "decode_dsml_text v =
     replace_str ''&amp;'' ''&'' (replace_str ''&gt;'' ''>'' (replace_str ''&lt;'' ''<''
       (replace_str ''&apos;'' [CHR 0x27] (replace_str ''&quot;'' [CHR 0x22] v))))"

definition attribute_value :: "string \<Rightarrow> string \<Rightarrow> string option" where
  "attribute_value header name =
     (let needle = name @ [CHR 0x3D, CHR 0x22]
      in case find_str needle header of
           None \<Rightarrow> None
         | Some a \<Rightarrow>
             (let rest = drop (a + length needle) header
              in map_option (\<lambda>n. decode_dsml_text (take n rest)) (find_str [CHR 0x22] rest)))"

definition parse_parameter_value :: "ext_lib \<Rightarrow> string \<Rightarrow> string \<Rightarrow> json" where
  "parse_parameter_value L header raw_value =
     (if attribute_value header ''string'' = Some ''true'' then JStr raw_value
      else unwrap_or (JStr raw_value) (json_from_str L raw_value))"

text \<open>
  The two scanning loops, over the rest of the text from the cursor on; the accumulator is the
  object built so far.
\<close>

function parse_arguments_from :: "ext_lib \<Rightarrow> json \<Rightarrow> string \<Rightarrow> json" where
  "parse_arguments_from L obj rest =
     (case find_str PARAM_OPEN rest of
        None \<Rightarrow> obj
      | Some start \<Rightarrow>
          (case find_str ''>'' (drop start rest) of
             None \<Rightarrow> obj
           | Some h \<Rightarrow>
               (let header = take (Suc h) (drop start rest);
                    body = drop (start + Suc h) rest
                in case find_str PARAM_CLOSE body of
                     None \<Rightarrow> obj
                   | Some c \<Rightarrow>
                       parse_arguments_from L
                         (case attribute_value header ''name'' of
                            None \<Rightarrow> obj
                          | Some name \<Rightarrow> jinsert name (parse_parameter_value L header
                                (trim (decode_dsml_text (take c body)))) obj)
                         (drop (c + length PARAM_CLOSE) body))))"
  by pat_completeness auto
termination
  by (relation "measure (\<lambda>(_, _, rest). length rest)")
    (auto dest!: find_str_bound simp: dsml_tags)

definition parse_dsml_arguments :: "ext_lib \<Rightarrow> string \<Rightarrow> json" where
  "parse_dsml_arguments L body = parse_arguments_from L (JObj []) body"

function parse_calls_from ::
  "ext_lib \<Rightarrow> (nat \<Rightarrow> string) \<Rightarrow> nat \<Rightarrow> string \<Rightarrow> chat_tool_call list" where
  "parse_calls_from L uuid k rest =
     (case find_str INVOKE_OPEN rest of
        None \<Rightarrow> []
      | Some start \<Rightarrow>
          (case find_str ''>'' (drop start rest) of
             None \<Rightarrow> []
           | Some h \<Rightarrow>
               (let header = take (Suc h) (drop start rest);
                    body = drop (start + Suc h) rest
                in case attribute_value header ''name'' of
                     None \<Rightarrow> parse_calls_from L uuid k body
                   | Some name \<Rightarrow>
                       (case find_str INVOKE_CLOSE body of
                          None \<Rightarrow> []
                        | Some c \<Rightarrow>
                            \<lparr>tc_id = ''call_'' @ uuid k, tc_name = name,
                             tc_arguments = json_to_string L (parse_dsml_arguments L (take c body))\<rparr>
                            # parse_calls_from L uuid (Suc k)
                                (drop (c + length INVOKE_CLOSE) body)))))"
  by pat_completeness auto
termination
  by (relation "measure (\<lambda>(_, _, _, rest). length rest)")
    (auto dest!: find_str_bound simp: dsml_tags)

declare parse_arguments_from.simps [simp del] parse_calls_from.simps [simp del]

definition parse_dsml_tool_calls ::
  "ext_lib \<Rightarrow> (nat \<Rightarrow> string) \<Rightarrow> nat \<Rightarrow> string \<Rightarrow> chat_tool_call list" where
  "parse_dsml_tool_calls L uuid k block = parse_calls_from L uuid k block"

section \<open>The stream adapter\<close>

definition blocked_dsml_prefix_start :: "string \<Rightarrow> nat option" where
  "blocked_dsml_prefix_start buffer =
     or_else (find_str (''<'' @ dsml_bars @ ''DSML'') buffer)
             (find_str (''</'' @ dsml_bars @ ''DSML'') buffer)"

definition looks_like_dsml_protocol :: "string \<Rightarrow> bool" where
  "looks_like_dsml_protocol v = (blocked_dsml_prefix_start v \<noteq> None)"

text \<open>The character offsets of a text without the first one, and its length.\<close>

definition later_offsets :: "string \<Rightarrow> nat list" where
  "later_offsets buffer =
     drop 1 (filter (is_char_boundary buffer) [0..<length buffer]) @ [length buffer]"

definition dsml_prefix_start :: "string \<Rightarrow> nat option" where
  "dsml_prefix_start buffer = find (\<lambda>i. starts_with DSML_START (drop i buffer)) (later_offsets buffer)"

definition take_calls ::
  "ext_lib \<Rightarrow> (nat \<Rightarrow> string) \<Rightarrow> nat \<Rightarrow> bool \<Rightarrow> string \<Rightarrow> deepseek_tool_content
     \<Rightarrow> deepseek_tool_content" where
  "take_calls L uuid k allow block out =
     (if allow then
        (case parse_dsml_tool_calls L uuid (k + length (dt_tool_calls out)) block of
           [] \<Rightarrow> out\<lparr>dt_parse_failed := True\<rparr>
         | parsed \<Rightarrow> out\<lparr>dt_tool_calls := dt_tool_calls out @ parsed\<rparr>)
      else out\<lparr>dt_blocked := True\<rparr>)"

function push_loop ::
  "ext_lib \<Rightarrow> (nat \<Rightarrow> string) \<Rightarrow> nat \<Rightarrow> bool \<Rightarrow> string \<Rightarrow> deepseek_tool_content
     \<Rightarrow> string \<times> deepseek_tool_content" where
  "push_loop L uuid k allow buffer out =
     (case find_str DSML_START buffer of
        None \<Rightarrow>
          (let keep_from = unwrap_or (length buffer) (dsml_prefix_start buffer)
           in (drop keep_from buffer,
               out\<lparr>visible_text := visible_text out @ take keep_from buffer\<rparr>))
      | Some start \<Rightarrow>
          (let out = out\<lparr>visible_text := visible_text out @ take start buffer\<rparr>;
               buffer = drop start buffer
           in case find_str DSML_END buffer of
                None \<Rightarrow> (buffer, out)
              | Some end_start \<Rightarrow>
                  (let block_end = end_start + length DSML_END
                   in push_loop L uuid k allow (drop block_end buffer)
                        (take_calls L uuid k allow (take block_end buffer) out))))"
  by pat_completeness auto
termination
  by (relation "measure (\<lambda>(_, _, _, _, buffer, _). length buffer)")
    (auto dest!: find_str_bound simp: dsml_tags)

declare push_loop.simps [simp del]

definition dsml_push ::
  "ext_lib \<Rightarrow> (nat \<Rightarrow> string) \<Rightarrow> nat \<Rightarrow> string \<Rightarrow> string \<Rightarrow> bool \<Rightarrow> string \<times> deepseek_tool_content"
where
  "dsml_push L uuid k buffer content allow = push_loop L uuid k allow (buffer @ content) no_content"

definition dsml_finish ::
  "ext_lib \<Rightarrow> (nat \<Rightarrow> string) \<Rightarrow> nat \<Rightarrow> string \<Rightarrow> bool \<Rightarrow> deepseek_tool_content" where
  "dsml_finish L uuid k buffer allow =
     (if buffer = [] then no_content
      else if looks_like_dsml_protocol buffer then take_calls L uuid k allow buffer no_content
      else no_content\<lparr>visible_text := buffer\<rparr>)"

section \<open>Whole messages\<close>

definition adapt_message_channel ::
  "ext_lib \<Rightarrow> (nat \<Rightarrow> string) \<Rightarrow> string \<Rightarrow> string \<Rightarrow> bool
     \<Rightarrow> json \<times> chat_tool_call list \<times> tool_protocol_adaptation
     \<Rightarrow> json \<times> chat_tool_call list \<times> tool_protocol_adaptation" where
  "adapt_message_channel L uuid field channel allow st =
     (case st of (message, calls, adaptation) \<Rightarrow>
        (case get_str message field of
           None \<Rightarrow> st
         | Some t \<Rightarrow>
             if \<not> looks_like_dsml_protocol t then st
             else
               (let (buffer, output) = dsml_push L uuid (length calls) [] t allow;
                    finish = dsml_finish L uuid (length calls + length (dt_tool_calls output)) buffer allow
                in (jinsert field (JStr (visible_text output @ visible_text finish)) message,
                    calls @ dt_tool_calls output @ dt_tool_calls finish,
                    \<lparr>adapted_tool_names = adapted_tool_names adaptation,
                     blocked_channels = blocked_channels adaptation
                       @ (if dt_blocked output \<or> dt_blocked finish then [channel] else []),
                     parse_failed_channels = parse_failed_channels adaptation
                       @ (if dt_parse_failed output \<or> dt_parse_failed finish then [channel] else [])\<rparr>))))"

definition chat_tool_call_to_value :: "chat_tool_call \<Rightarrow> json" where
  "chat_tool_call_to_value c = jobj
     [(''id'', JStr (tc_id c)), (''type'', JStr ''function''),
      (''function'', jobj [(''name'', JStr (tc_name c)), (''arguments'', JStr (tc_arguments c))])]"

definition adapt_message ::
  "ext_lib \<Rightarrow> (nat \<Rightarrow> string) \<Rightarrow> bool \<Rightarrow> json \<Rightarrow> json \<times> tool_protocol_adaptation" where
  "adapt_message L uuid allow message =
     (let (message, calls, adaptation) =
            adapt_message_channel L uuid ''reasoning_content'' ''reasoning'' allow
              (adapt_message_channel L uuid ''content'' ''content'' allow
                (message, [], no_adaptation))
      in if calls = [] then (message, adaptation)
         else (jinsert ''tool_calls''
                 (JArr (unwrap_or [] (Option.bind (jget message ''tool_calls'') as_array)
                        @ map chat_tool_call_to_value calls)) message,
               adaptation\<lparr>adapted_tool_names := adapted_tool_names adaptation @ map tc_name calls\<rparr>))"

text \<open>
  \<^verbatim>\<open>/choices/0/message\<close> of a chat response, read and replaced. As a JSON pointer token, \<^verbatim>\<open>0\<close> is the
  first element of an array or the member of that name of an object.
\<close>

fun jfirst :: "json \<Rightarrow> json option" where
  "jfirst (JArr (c # cs)) = Some c"
| "jfirst (JObj m) = map_of m ''0''"
| "jfirst _ = None"

fun set_jfirst :: "json \<Rightarrow> json \<Rightarrow> json" where
  "set_jfirst v (JArr (c # cs)) = JArr (v # cs)"
| "set_jfirst v (JObj m) = JObj (om_insert ''0'' v m)"
| "set_jfirst v j = j"

definition chat_message_value :: "json \<Rightarrow> json option" where
  "chat_message_value chat =
     Option.bind (Option.bind (jget chat ''choices'') jfirst) (\<lambda>c. jget c ''message'')"

definition set_chat_message :: "json \<Rightarrow> json \<Rightarrow> json" where
  "set_chat_message message chat =
     (case jget chat ''choices'' of
        None \<Rightarrow> chat
      | Some choices \<Rightarrow>
          (case jfirst choices of
             None \<Rightarrow> chat
           | Some c \<Rightarrow> jinsert ''choices'' (set_jfirst (jinsert ''message'' message c) choices) chat))"

definition adapt_chat_tool_protocol ::
  "ext_lib \<Rightarrow> (nat \<Rightarrow> string) \<Rightarrow> json \<Rightarrow> bool \<Rightarrow> json \<times> tool_protocol_adaptation" where
  "adapt_chat_tool_protocol L uuid chat allow =
     (case chat_message_value chat of
        None \<Rightarrow> (chat, no_adaptation)
      | Some message \<Rightarrow>
          (let (message', adaptation) = adapt_message L uuid allow message
           in (set_chat_message message' chat, adaptation)))"

section \<open>Ordinary text streams through\<close>

definition content_append ::
  "deepseek_tool_content \<Rightarrow> deepseek_tool_content \<Rightarrow> deepseek_tool_content" where
  "content_append a b =
     \<lparr>visible_text = visible_text a @ visible_text b, dt_tool_calls = dt_tool_calls a @ dt_tool_calls b,
      dt_blocked = (dt_blocked a \<or> dt_blocked b),
      dt_parse_failed = (dt_parse_failed a \<or> dt_parse_failed b)\<rparr>"

text \<open>A stream of chunks pushed one after the other and finished, with the outputs put together.\<close>

fun dsml_stream ::
  "ext_lib \<Rightarrow> (nat \<Rightarrow> string) \<Rightarrow> bool \<Rightarrow> string \<Rightarrow> deepseek_tool_content \<Rightarrow> string list
     \<Rightarrow> deepseek_tool_content" where
  "dsml_stream L uuid allow buffer out [] =
     content_append out (dsml_finish L uuid (length (dt_tool_calls out)) buffer allow)"
| "dsml_stream L uuid allow buffer out (chunk # chunks) =
     (let (buffer, o1) = dsml_push L uuid (length (dt_tool_calls out)) buffer chunk allow
      in dsml_stream L uuid allow buffer (content_append out o1) chunks)"

lemma looks_like_dsml_iff:
  "looks_like_dsml_protocol s \<longleftrightarrow>
     sublist (''<'' @ dsml_bars @ ''DSML'') s \<or> sublist (''</'' @ dsml_bars @ ''DSML'') s"
  by (auto simp: looks_like_dsml_protocol_def blocked_dsml_prefix_start_def find_str_None)

lemma looks_like_dsml_sublist:
  "looks_like_dsml_protocol s \<Longrightarrow> sublist s s' \<Longrightarrow> looks_like_dsml_protocol s'"
  by (meson looks_like_dsml_iff sublist_order.order_trans)

lemma dsml_start_looks: "sublist DSML_START s \<Longrightarrow> looks_like_dsml_protocol s"
  by (rule looks_like_dsml_sublist [of DSML_START])
    (simp_all add: looks_like_dsml_iff DSML_START_def dsml_open_def)

lemma dsml_push_plain:
  assumes "find_str DSML_START (buffer @ content) = None"
  obtains n where "dsml_push L uuid k buffer content allow =
    (drop n (buffer @ content), no_content\<lparr>visible_text := take n (buffer @ content)\<rparr>)"
  using assms that by (simp add: dsml_push_def push_loop.simps no_content_def Let_def)

text \<open>Text without the protocol's marker is never touched: whatever its cutting into chunks, all of
  it is shown, no call is made up and nothing is reported as blocked or malformed.\<close>

lemma dsml_plain_stream:
  assumes "\<not> looks_like_dsml_protocol (concat chunks)"
  shows "dsml_stream L uuid allow [] no_content chunks = no_content\<lparr>visible_text := concat chunks\<rparr>"
proof -
  have "\<not> looks_like_dsml_protocol (buffer @ concat chunks) \<Longrightarrow>
      dsml_stream L uuid allow buffer (no_content\<lparr>visible_text := v\<rparr>) chunks
        = no_content\<lparr>visible_text := v @ buffer @ concat chunks\<rparr>" for buffer v
  proof (induction chunks arbitrary: buffer v)
    case Nil
    then show ?case by (auto simp: dsml_finish_def content_append_def no_content_def)
  next
    case (Cons c cs)
    let ?t = "buffer @ c"
    have "sublist ?t (buffer @ concat (c # cs))" by simp
    with Cons.prems have "find_str DSML_START ?t = None"
      by (meson dsml_start_looks find_str_None sublist_order.order_trans)
    then obtain n where n: "dsml_push L uuid 0 buffer c allow =
        (drop n ?t, no_content\<lparr>visible_text := take n ?t\<rparr>)"
      by (rule dsml_push_plain)
    have "buffer @ concat (c # cs) = take n ?t @ drop n ?t @ concat cs"
      by (metis append.assoc append_take_drop_id concat.simps(2))
    then have "\<not> looks_like_dsml_protocol (drop n ?t @ concat cs)"
      using Cons.prems looks_like_dsml_sublist sublist_append_leftI by metis
    from Cons.IH [OF this, of "v @ take n ?t"]
    have "dsml_stream L uuid allow (drop n ?t) (no_content\<lparr>visible_text := v @ take n ?t\<rparr>) cs
        = no_content\<lparr>visible_text := v @ ?t @ concat cs\<rparr>"
      by (metis append.assoc append_take_drop_id)
    then show ?case using n by (simp add: content_append_def no_content_def del: take_append drop_append)
  qed
  from this [of "[]" "[]"] assms show ?thesis by (simp add: no_content_def)
qed

section \<open>A marker split between chunks\<close>

lemma find_append_None: "find p xs = None \<Longrightarrow> find p (xs @ ys) = find p ys"
  by (induction xs) (auto split: if_splits)

lemma dsml_start_lt: "i < length DSML_START \<Longrightarrow> DSML_START ! i = CHR ''<'' \<longleftrightarrow> i = 0"
proof -
  have "\<forall>i \<in> {..<length DSML_START}. DSML_START ! i = CHR ''<'' \<longleftrightarrow> i = 0" by code_simp
  then show "i < length DSML_START \<Longrightarrow> ?thesis" by simp
qed

text \<open>A marker that arrives in pieces is not held back: a buffer that is a nonempty proper prefix
  of the opening marker is shown as text and forgotten, so that the block that follows is no
  longer recognised.\<close>

lemma dsml_split_marker_shown:
  assumes "buffer @ content = take n DSML_START" and "0 < n" and "n < length DSML_START"
  shows "dsml_push L uuid k buffer content allow = ([], no_content\<lparr>visible_text := take n DSML_START\<rparr>)"
proof -
  let ?b = "take n DSML_START"
  have len: "length ?b = n" using assms(3) by simp
  have "\<not> sublist DSML_START ?b"
    using assms(3) len by (metis leD sublist_length_le)
  then have none: "find_str DSML_START ?b = None" by (simp add: find_str_None)
  have "find (\<lambda>i. starts_with DSML_START (drop i ?b)) (later_offsets ?b) = Some n"
  proof -
    have first: "filter (is_char_boundary ?b) [0..<n] = 0 # filter (is_char_boundary ?b) [1..<n]"
    proof -
      have "starts_char DSML_START" by code_simp
      then have "starts_char ?b" by (rule starts_char_take)
      then show ?thesis using assms(2) by (simp add: is_char_boundary_def upt_conv_Cons)
    qed
    have "\<not> starts_with DSML_START (drop i ?b)" if "i \<in> set [1..<n]" for i
    proof -
      from that have i: "0 < i" "i < n" by auto
      then have "hd (drop i ?b) = DSML_START ! i"
        using assms(3) by (subst hd_drop_conv_nth) auto
      moreover have "DSML_START ! i \<noteq> CHR ''<''" using dsml_start_lt [of i] i assms(3) by simp
      moreover have "hd DSML_START = CHR ''<''" by code_simp
      moreover have "hd DSML_START = hd (drop i ?b)" if "DSML_START = drop i ?b @ r" for r
      proof -
        have "drop i ?b \<noteq> []" using i len by simp
        then have "hd (drop i ?b @ r) = hd (drop i ?b)" by (rule hd_append2)
        with that show ?thesis by simp
      qed
      ultimately show ?thesis by (auto simp only: starts_with_iff)
    qed
    then have none: "find (\<lambda>i. starts_with DSML_START (drop i ?b))
        (filter (is_char_boundary ?b) [1..<n]) = None"
      by (auto simp: find_None_iff)
    have "starts_with DSML_START (drop n ?b)" by (simp add: len)
    then have "find (\<lambda>i. starts_with DSML_START (drop i ?b))
        (filter (is_char_boundary ?b) [1..<n] @ [n]) = Some n"
      using none by (simp add: find_append_None)
    then show ?thesis unfolding later_offsets_def len first by simp
  qed
  then show ?thesis
    unfolding dsml_push_def assms(1) push_loop.simps [of _ _ _ _ ?b] none dsml_prefix_start_def
    by (simp add: no_content_def len)
qed

section \<open>Reading a block back\<close>

text \<open>
  A block as the model writes it: calls with named string parameters. Names keep clear of quotes,
  ampersands, equals signs and angle brackets, values of ampersands and opening brackets.
\<close>

definition render_param :: "string \<times> string \<Rightarrow> string" where
  "render_param p = PARAM_OPEN @ '' name='' @ [CHR 0x22] @ fst p @ [CHR 0x22] @ '' string=''
     @ [CHR 0x22] @ ''true'' @ [CHR 0x22] @ ''>'' @ snd p @ PARAM_CLOSE"

definition render_call :: "string \<times> (string \<times> string) list \<Rightarrow> string" where
  "render_call c = INVOKE_OPEN @ '' name='' @ [CHR 0x22] @ fst c @ [CHR 0x22] @ ''>''
     @ concat (map render_param (snd c)) @ INVOKE_CLOSE"

definition render_block :: "(string \<times> (string \<times> string) list) list \<Rightarrow> string" where
  "render_block cs = DSML_START @ concat (map render_call cs) @ DSML_END"

definition name_ok :: "string \<Rightarrow> bool" where
  "name_ok n = (set n \<inter> {CHR 0x22, CHR ''&'', CHR ''='', CHR ''<'', CHR ''>''} = {})"

definition value_ok :: "string \<Rightarrow> bool" where
  "value_ok v = (set v \<inter> {CHR ''&'', CHR ''<''} = {} \<and> trim v = v)"

definition call_ok :: "string \<times> (string \<times> string) list \<Rightarrow> bool" where
  "call_ok c = (name_ok (fst c) \<and> list_all (\<lambda>p. name_ok (fst p) \<and> value_ok (snd p)) (snd c))"

definition arguments_json :: "(string \<times> string) list \<Rightarrow> json" where
  "arguments_json ps = fold (\<lambda>(n, v) obj. jinsert n (JStr v) obj) ps (JObj [])"

fun expected_calls ::
  "ext_lib \<Rightarrow> (nat \<Rightarrow> string) \<Rightarrow> nat \<Rightarrow> (string \<times> (string \<times> string) list) list \<Rightarrow> chat_tool_call list"
where
  "expected_calls L uuid k [] = []"
| "expected_calls L uuid k (c # cs) =
     \<lparr>tc_id = ''call_'' @ uuid k, tc_name = fst c,
      tc_arguments = json_to_string L (arguments_json (snd c))\<rparr> # expected_calls L uuid (Suc k) cs"

lemma replace_str_absent: "hd p \<notin> set s \<Longrightarrow> p \<noteq> [] \<Longrightarrow> replace_str p r s = s"
  by (induction s) (auto simp: starts_with_iff neq_Nil_conv)

lemma decode_dsml_plain: "CHR ''&'' \<notin> set s \<Longrightarrow> decode_dsml_text s = s"
  by (simp add: decode_dsml_text_def replace_str_absent)

lemma find_char: "c \<notin> set x \<Longrightarrow> find_str [c] (x @ c # y) = Some (length x)"
  by (induction x) (auto simp: starts_with_iff)

text \<open>An attribute is not found inside a quoted value before it.\<close>

lemma find_attribute_skip:
  assumes "CHR 0x22 \<notin> set w" and "CHR ''='' \<notin> set x" "CHR 0x22 \<notin> set x"
  shows "find_str (w @ [CHR ''='', CHR 0x22]) (x @ CHR 0x22 # y) =
     map_option ((+) (Suc (length x))) (find_str (w @ [CHR ''='', CHR 0x22]) y)"
  using assms(2,3)
proof (induction x)
  case Nil
  have "\<not> starts_with (CHR 0x22 # y) (w @ [CHR ''='', CHR 0x22])"
    using assms(1) by (cases w) (auto simp: starts_with_iff)
  then show ?case by (simp add: option.map_comp)
next
  case (Cons a x)
  have "\<not> starts_with ((a # x) @ CHR 0x22 # y) (w @ [CHR ''='', CHR 0x22])"
  proof
    assume "starts_with ((a # x) @ CHR 0x22 # y) (w @ [CHR ''='', CHR 0x22])"
    then obtain r where "(a # x) @ CHR 0x22 # y = w @ CHR ''='' # CHR 0x22 # r"
      by (auto simp: starts_with_iff)
    then show False
      using assms(1) Cons.prems by (auto simp: append_eq_append_conv2 append_eq_Cons_conv Cons_eq_append_conv)
  qed
  with Cons show ?case by (simp add: option.map_comp o_def)
qed

lemma invoke_name:
  assumes "name_ok n"
  shows "attribute_value (INVOKE_OPEN @ '' name='' @ [CHR 0x22] @ n @ [CHR 0x22] @ ''>'') ''name'' = Some n"
proof -
  have "CHR 0x22 \<notin> set n" and "CHR ''&'' \<notin> set n" using assms by (auto simp: name_ok_def)
  then show ?thesis
    by (simp add: attribute_value_def dsml_tags starts_with_def find_char decode_dsml_plain)
qed

definition param_header :: "string \<Rightarrow> string" where
  "param_header n = PARAM_OPEN @ '' name='' @ [CHR 0x22] @ n @ [CHR 0x22] @ '' string=''
     @ [CHR 0x22] @ ''true'' @ [CHR 0x22] @ ''>''"

lemma param_name:
  assumes "name_ok n"
  shows "attribute_value (param_header n) ''name'' = Some n"
proof -
  have "CHR 0x22 \<notin> set n" and "CHR ''&'' \<notin> set n" using assms by (auto simp: name_ok_def)
  then show ?thesis
    by (simp add: attribute_value_def param_header_def dsml_tags starts_with_def find_char
        decode_dsml_plain)
qed

lemma attribute_valueI:
  assumes "header = x @ name @ [CHR ''='', CHR 0x22] @ v @ CHR 0x22 # y"
    and "find_str (name @ [CHR ''='', CHR 0x22]) header = Some (length x)"
    and "CHR 0x22 \<notin> set v" and "CHR ''&'' \<notin> set v"
  shows "attribute_value header name = Some v"
  using assms by (simp add: attribute_value_def find_char decode_dsml_plain)

lemma param_string:
  assumes "name_ok n"
  shows "attribute_value (param_header n) ''string'' = Some ''true''"
proof (rule attribute_valueI)
  let ?pre = "PARAM_OPEN @ '' name='' @ [CHR 0x22]"
  let ?post = "'' string='' @ [CHR 0x22] @ ''true'' @ [CHR 0x22] @ ''>''"
  have n: "CHR 0x22 \<notin> set n" "CHR ''='' \<notin> set n" using assms by (auto simp: name_ok_def)
  show "param_header n = (?pre @ n @ [CHR 0x22, CHR '' '']) @ ''string'' @ [CHR ''='', CHR 0x22]
      @ ''true'' @ CHR 0x22 # ''>''"
    by (simp add: param_header_def)
  have "find_str (''string'' @ [CHR ''='', CHR 0x22]) (n @ CHR 0x22 # ?post) = Some (length n + 2)"
    using n by (subst find_attribute_skip) (simp_all add: starts_with_def)
  then show "find_str (''string'' @ [CHR ''='', CHR 0x22]) (param_header n)
      = Some (length (?pre @ n @ [CHR 0x22, CHR '' '']))"
    by (simp add: param_header_def dsml_tags starts_with_def)
qed simp_all

text \<open>A text that a search for the tag \<open>q\<close> passes over, whatever follows.\<close>

definition skips :: "string \<Rightarrow> string \<Rightarrow> bool" where
  "skips q x \<longleftrightarrow> (\<forall>y. find_str q (x @ y) = map_option ((+) (length x)) (find_str q y))"

lemma skips_Nil [simp]: "skips q []"
proof -
  have "map_option ((+) 0) a = a" for a :: "nat option" by (cases a) simp_all
  then show ?thesis by (simp add: skips_def)
qed

lemma skips_append: "skips q a \<Longrightarrow> skips q b \<Longrightarrow> skips q (a @ b)"
  by (auto simp: skips_def option.map_comp o_def add.assoc intro!: option.map_cong)

lemma skips_concat: "\<forall>x \<in> set xs. skips q x \<Longrightarrow> skips q (concat xs)"
  by (induction xs) (auto intro: skips_append)

lemma skips_text: "hd q \<notin> set x \<Longrightarrow> q \<noteq> [] \<Longrightarrow> skips q x"
  by (simp add: skips_def find_skip)

lemma skips_tag:
  assumes "hd q = CHR ''<''" and "q \<noteq> []" and "x = CHR ''<'' # t" and "CHR ''<'' \<notin> set t"
    and "\<And>y. \<not> starts_with (x @ y) q"
  shows "skips q x"
proof -
  have "find_str q (x @ y) = map_option Suc (find_str q (t @ y))" for y
    using assms(3) assms(5) [of y] by simp
  moreover have "find_str q (t @ y) = map_option ((+) (length t)) (find_str q y)" for y
    using assms(1,2,4) by (intro find_skip) auto
  ultimately show ?thesis
    using assms(3) by (auto simp: skips_def option.map_comp o_def intro!: option.map_cong)
qed

lemma skips_find: "skips q x \<Longrightarrow> q \<noteq> [] \<Longrightarrow> find_str q (x @ q @ y) = Some (length x)"
  by (simp add: skips_def find_str_at)

lemma param_parts: "render_param p = param_header (fst p) @ snd p @ PARAM_CLOSE"
  by (simp add: render_param_def param_header_def)

definition invoke_header :: "string \<Rightarrow> string" where
  "invoke_header n = INVOKE_OPEN @ '' name='' @ [CHR 0x22] @ n @ [CHR 0x22] @ ''>''"

lemma call_parts:
  "render_call c = invoke_header (fst c) @ concat (map render_param (snd c)) @ INVOKE_CLOSE"
  by (simp add: render_call_def invoke_header_def)

lemma param_header_tag:
  "name_ok n \<Longrightarrow> \<exists>t. param_header n = CHR ''<'' # t \<and> CHR ''<'' \<notin> set t"
  by (auto simp: param_header_def dsml_tags name_ok_def)

lemma invoke_header_tag:
  "name_ok n \<Longrightarrow> \<exists>t. invoke_header n = CHR ''<'' # t \<and> CHR ''<'' \<notin> set t"
  by (auto simp: invoke_header_def dsml_tags name_ok_def)

lemma tags_lt: "q \<in> {INVOKE_CLOSE, DSML_END} \<Longrightarrow> hd q = CHR ''<'' \<and> q \<noteq> []"
  by (auto simp: dsml_tags)

lemma skips_param:
  assumes "name_ok (fst p)" and "value_ok (snd p)" and q: "q \<in> {INVOKE_CLOSE, DSML_END}"
  shows "skips q (render_param p)"
proof -
  obtain t where t: "param_header (fst p) = CHR ''<'' # t" "CHR ''<'' \<notin> set t"
    using param_header_tag [OF assms(1)] by blast
  have "skips q (param_header (fst p))"
    using tags_lt [OF q] t q
    by (intro skips_tag) (auto simp: param_header_def dsml_tags starts_with_def)
  moreover have "skips q (snd p)"
    using tags_lt [OF q] assms(2) by (intro skips_text) (auto simp: value_ok_def)
  moreover have "skips q PARAM_CLOSE"
    using tags_lt [OF q] q by (intro skips_tag [where t = "tl PARAM_CLOSE"])
      (auto simp: dsml_tags starts_with_def)
  ultimately show ?thesis by (auto simp: param_parts intro: skips_append)
qed

lemma skips_params:
  "call_ok c \<Longrightarrow> q \<in> {INVOKE_CLOSE, DSML_END} \<Longrightarrow> skips q (concat (map render_param (snd c)))"
  by (rule skips_concat) (auto simp: call_ok_def list_all_iff intro!: skips_param)

lemma skips_call:
  assumes "call_ok c"
  shows "skips DSML_END (render_call c)"
proof -
  have q: "DSML_END \<in> {INVOKE_CLOSE, DSML_END}" by simp
  obtain t where t: "invoke_header (fst c) = CHR ''<'' # t" "CHR ''<'' \<notin> set t"
    using invoke_header_tag assms by (auto simp: call_ok_def)
  have "skips DSML_END (invoke_header (fst c))"
    using tags_lt [OF q] t by (intro skips_tag) (auto simp: invoke_header_def dsml_tags starts_with_def)
  moreover have "skips DSML_END INVOKE_CLOSE"
    using tags_lt [OF q] by (intro skips_tag [where t = "tl INVOKE_CLOSE"])
      (auto simp: dsml_tags starts_with_def)
  ultimately show ?thesis
    using skips_params [OF assms q] by (auto simp: call_parts intro: skips_append)
qed

lemma parse_arguments_step:
  assumes "name_ok (fst p)" and "value_ok (snd p)"
  shows "parse_arguments_from L obj (render_param p @ rest) =
     parse_arguments_from L (jinsert (fst p) (JStr (snd p)) obj) rest"
proof -
  let ?h = "param_header (fst p)"
  have open0: "find_str PARAM_OPEN (render_param p @ rest) = Some 0"
    by (simp add: render_param_def dsml_tags starts_with_def)
  have "?h = butlast ?h @ ''>''" and gt: "CHR ''>'' \<notin> set (butlast ?h)"
    using assms(1) by (auto simp: param_header_def dsml_tags name_ok_def butlast_append)
  then obtain b where b: "?h = b @ ''>''" "CHR ''>'' \<notin> set b" by blast
  have h: "find_str ''>'' (render_param p @ rest) = Some (length b)"
    using b find_char [of "CHR ''>''" b] by (simp add: param_parts)
  have hd_: "take (Suc (length b)) (render_param p @ rest) = ?h"
    and body: "drop (Suc (length b)) (render_param p @ rest) = snd p @ PARAM_CLOSE @ rest"
    using b(1) by (simp_all add: param_parts)
  have "CHR ''<'' \<notin> set (snd p)" and amp: "CHR ''&'' \<notin> set (snd p)" and tr: "trim (snd p) = snd p"
    using assms(2) by (auto simp: value_ok_def)
  then have c: "find_str PARAM_CLOSE (snd p @ PARAM_CLOSE @ rest) = Some (length (snd p))"
    by (intro skips_find skips_text) (auto simp: dsml_tags)
  have split: "take (length (snd p)) (snd p @ PARAM_CLOSE @ rest) = snd p"
    "drop (length (snd p) + length PARAM_CLOSE) (snd p @ PARAM_CLOSE @ rest) = rest" by simp_all
  show ?thesis
    unfolding parse_arguments_from.simps [of L obj "render_param p @ rest"] open0
    using amp tr
    by (simp add: h hd_ body c split param_name param_string assms(1) parse_parameter_value_def
        decode_dsml_plain Let_def del: take_append drop_append)
qed

lemma parse_arguments_rendered:
  assumes "list_all (\<lambda>p. name_ok (fst p) \<and> value_ok (snd p)) ps"
  shows "parse_arguments_from L obj (concat (map render_param ps)) =
     fold (\<lambda>(n, v) obj. jinsert n (JStr v) obj) ps obj"
  using assms
proof (induction ps arbitrary: obj)
  case Nil
  show ?case by (simp add: parse_arguments_from.simps [of _ _ "[]"] dsml_tags)
next
  case (Cons p ps)
  then show ?case by (simp add: parse_arguments_step case_prod_beta)
qed

lemma parse_calls_skip:
  assumes "skips INVOKE_OPEN x"
  shows "parse_calls_from L uuid k (x @ y) = parse_calls_from L uuid k y"
proof -
  have d: "drop (length x + n) (x @ y) = drop n y" for n by simp
  have s: "find_str INVOKE_OPEN (x @ y) = map_option ((+) (length x)) (find_str INVOKE_OPEN y)"
    using assms by (simp add: skips_def)
  show ?thesis
  proof (cases "find_str INVOKE_OPEN y")
    case None
    then show ?thesis
      unfolding parse_calls_from.simps [of L uuid k "x @ y"] parse_calls_from.simps [of L uuid k y] s
      by simp
  next
    case (Some a)
    show ?thesis
      unfolding parse_calls_from.simps [of L uuid k "x @ y"] parse_calls_from.simps [of L uuid k y]
        s Some option.map option.case add.assoc d ..
  qed
qed

lemma parse_calls_step:
  assumes "call_ok c"
  shows "parse_calls_from L uuid k (render_call c @ rest) =
     \<lparr>tc_id = ''call_'' @ uuid k, tc_name = fst c,
      tc_arguments = json_to_string L (arguments_json (snd c))\<rparr>
     # parse_calls_from L uuid (Suc k) rest"
proof -
  let ?h = "invoke_header (fst c)" and ?ps = "concat (map render_param (snd c))"
  from assms have n: "name_ok (fst c)"
    and ps: "list_all (\<lambda>p. name_ok (fst p) \<and> value_ok (snd p)) (snd c)" by (auto simp: call_ok_def)
  have open0: "find_str INVOKE_OPEN (render_call c @ rest) = Some 0"
    by (simp add: render_call_def dsml_tags starts_with_def)
  have "?h = butlast ?h @ ''>''" and gt: "CHR ''>'' \<notin> set (butlast ?h)"
    using n by (auto simp: invoke_header_def dsml_tags name_ok_def butlast_append)
  then obtain b where b: "?h = b @ ''>''" "CHR ''>'' \<notin> set b" by blast
  have h: "find_str ''>'' (render_call c @ rest) = Some (length b)"
    using b find_char [of "CHR ''>''" b] by (simp add: call_parts)
  have hd_: "take (Suc (length b)) (render_call c @ rest) = ?h"
    and body: "drop (Suc (length b)) (render_call c @ rest) = ?ps @ INVOKE_CLOSE @ rest"
    using b(1) by (simp_all add: call_parts)
  have cl: "find_str INVOKE_CLOSE (?ps @ INVOKE_CLOSE @ rest) = Some (length ?ps)"
    using skips_params [OF assms] by (intro skips_find) (auto simp: dsml_tags)
  have split: "take (length ?ps) (?ps @ INVOKE_CLOSE @ rest) = ?ps"
    "drop (length ?ps + length INVOKE_CLOSE) (?ps @ INVOKE_CLOSE @ rest) = rest" by simp_all
  show ?thesis
    unfolding parse_calls_from.simps [of L uuid k "render_call c @ rest"] open0
    using invoke_name [OF n, folded invoke_header_def] parse_arguments_rendered [OF ps]
    by (simp only: option.case h hd_ body cl split Let_def parse_dsml_arguments_def arguments_json_def
        drop_0 add_0)
qed

lemma parse_calls_rendered:
  "list_all call_ok cs \<Longrightarrow>
     parse_calls_from L uuid k (concat (map render_call cs) @ DSML_END) = expected_calls L uuid k cs"
proof (induction cs arbitrary: k)
  case Nil
  have "find_str INVOKE_OPEN DSML_END = None" by code_simp
  then show ?case by (simp add: parse_calls_from.simps [of _ _ _ DSML_END])
next
  case (Cons c cs)
  then show ?case by (simp add: parse_calls_step)
qed

lemma parse_block_rendered:
  assumes "list_all call_ok cs"
  shows "parse_dsml_tool_calls L uuid k (render_block cs) = expected_calls L uuid k cs"
proof -
  have "skips INVOKE_OPEN DSML_START"
    by (rule skips_tag [where t = "tl DSML_START"]) (auto simp: dsml_tags starts_with_def)
  then show ?thesis
    using parse_calls_rendered [OF assms]
    by (simp add: parse_dsml_tool_calls_def render_block_def parse_calls_skip)
qed

lemma push_loop_block:
  assumes "list_all call_ok cs" and "cs \<noteq> []" and "CHR ''<'' \<notin> set pre"
  shows "push_loop L uuid k allow (pre @ render_block cs @ post) out =
     push_loop L uuid k allow post
       (let out = out\<lparr>visible_text := visible_text out @ pre\<rparr>
        in if allow then out\<lparr>dt_tool_calls := dt_tool_calls out
               @ expected_calls L uuid (k + length (dt_tool_calls out)) cs\<rparr>
           else out\<lparr>dt_blocked := True\<rparr>)"
proof -
  let ?cs = "concat (map render_call cs)"
  have s: "find_str DSML_START (pre @ render_block cs @ post) = Some (length pre)"
    unfolding render_block_def append.assoc
    using assms(3) by (intro skips_find skips_text) (auto simp: dsml_tags)
  have "skips DSML_END DSML_START"
    by (rule skips_tag [where t = "tl DSML_START"]) (auto simp: dsml_tags starts_with_def)
  then have "skips DSML_END (DSML_START @ ?cs)"
    using assms(1) by (intro skips_append skips_concat) (auto simp: list_all_iff skips_call)
  from skips_find [OF this, of post]
  have e: "find_str DSML_END (render_block cs @ post) = Some (length (DSML_START @ ?cs))"
    by (simp add: render_block_def dsml_tags)
  have d: "take (length pre) (pre @ render_block cs @ post) = pre"
    "drop (length pre) (pre @ render_block cs @ post) = render_block cs @ post"
    "take (length (DSML_START @ ?cs) + length DSML_END) (render_block cs @ post) = render_block cs"
    "drop (length (DSML_START @ ?cs) + length DSML_END) (render_block cs @ post) = post"
    by (simp_all add: render_block_def)
  have ne: "expected_calls L uuid j cs \<noteq> []" for j using assms(2) by (cases cs) auto
  then have "take_calls L uuid k allow (render_block cs) o1 =
      (if allow then o1\<lparr>dt_tool_calls := dt_tool_calls o1
               @ expected_calls L uuid (k + length (dt_tool_calls o1)) cs\<rparr>
       else o1\<lparr>dt_blocked := True\<rparr>)" for o1
    by (auto simp: take_calls_def parse_block_rendered [OF assms(1)] split: list.split)
  then show ?thesis
    unfolding push_loop.simps [of L uuid k allow "pre @ render_block cs @ post"] s option.case Let_def d e
    by simp
qed


section \<open>Witnesses\<close>

definition quiet_lib :: ext_lib where
  "quiet_lib = \<lparr>json_to_string = (\<lambda>_. ''{}''), json_from_str = (\<lambda>_. None),
     b64_decode_utf8 = (\<lambda>_. None), sha256 = (\<lambda>s. s)\<rparr>"


end
