(* ===== verification/Usage.thy ===== *)
theory Usage
  imports Json
begin

text \<open>
  Token usage, \<^verbatim>\<open>crates/proxy/src/responses/usage.rs\<close>: the usage object of the chat API is read in
  any of its historical spellings, normalised into the Responses shape, and summed over the rounds
  of a tool loop with saturating 64-bit additions.
\<close>

record usage_components =
  u_input :: nat
  u_cached :: nat
  u_cache_miss :: nat
  u_output :: nat
  u_reasoning :: nat
  u_total :: nat

section \<open>Operations\<close>

text \<open>The cast \<^verbatim>\<open>f64 as u64\<close> truncates and saturates.\<close>

fun value_to_u64 :: "json \<Rightarrow> nat option" where
  "value_to_u64 (JNum (PosInt n)) = Some n"
| "value_to_u64 (JNum (NegInt i)) = (if 0 \<le> i then Some (nat i) else None)"
| "value_to_u64 (JNum (JFloat r)) = (if 0 \<le> r then Some (min (nat \<lfloor>r\<rfloor>) u64_max) else None)"
| "value_to_u64 _ = None"

definition usage_field :: "json \<Rightarrow> string list \<Rightarrow> nat option" where
  "usage_field usage keys =
     (case List.map_filter (\<lambda>v. value_to_u64 v) (List.map_filter (jget usage) keys) of
        [] \<Rightarrow> None | n # _ \<Rightarrow> Some n)"

definition usage_pointer :: "json \<Rightarrow> string list \<Rightarrow> nat option" where
  "usage_pointer usage path = Option.bind (jpointer usage path) value_to_u64"

definition response_usage_components :: "json \<Rightarrow> usage_components" where
  "response_usage_components usage =
     (let input = unwrap_or 0 (usage_field usage [''input_tokens'', ''prompt_tokens'']);
          cached = unwrap_or 0
            (or_else (or_else
               (usage_field usage [''cached_input_tokens'', ''cache_hit_input_tokens'',
                  ''prompt_cache_hit_tokens'', ''cache_hit_tokens''])
               (usage_pointer usage [''input_tokens_details'', ''cached_tokens'']))
               (usage_pointer usage [''prompt_tokens_details'', ''cached_tokens'']));
          cache_miss = unwrap_or (input - cached)
            (usage_field usage [''cache_miss_input_tokens'', ''input_cache_miss_tokens'',
               ''prompt_cache_miss_tokens'', ''cache_miss_tokens'']);
          output = unwrap_or 0 (usage_field usage [''output_tokens'', ''completion_tokens'']);
          reasoning = unwrap_or 0
            (or_else (or_else (usage_field usage [''reasoning_output_tokens''])
               (usage_pointer usage [''output_tokens_details'', ''reasoning_tokens'']))
               (usage_pointer usage [''completion_tokens_details'', ''reasoning_tokens'']));
          total = unwrap_or (sat_add input output) (usage_field usage [''total_tokens''])
      in \<lparr>u_input = input, u_cached = cached, u_cache_miss = cache_miss, u_output = output,
          u_reasoning = reasoning, u_total = total\<rparr>)"

definition response_usage_from_chat_usage :: "json option \<Rightarrow> json" where
  "response_usage_from_chat_usage usage =
     (let c = response_usage_components (unwrap_or JNull usage)
      in jobj [(''input_tokens'', jnat (u_input c)), (''cached_input_tokens'', jnat (u_cached c)),
          (''cache_miss_input_tokens'', jnat (u_cache_miss c)),
          (''input_tokens_details'', jobj [(''cached_tokens'', jnat (u_cached c))]),
          (''output_tokens'', jnat (u_output c)),
          (''reasoning_output_tokens'', jnat (u_reasoning c)),
          (''output_tokens_details'', jobj [(''reasoning_tokens'', jnat (u_reasoning c))]),
          (''total_tokens'', jnat (u_total c))])"

definition merge_response_usage :: "json \<Rightarrow> json \<Rightarrow> json" where
  "merge_response_usage left right =
     (let l = response_usage_components left; r = response_usage_components right
      in jobj [(''input_tokens'', jnat (sat_add (u_input l) (u_input r))),
          (''cached_input_tokens'', jnat (sat_add (u_cached l) (u_cached r))),
          (''cache_miss_input_tokens'', jnat (sat_add (u_cache_miss l) (u_cache_miss r))),
          (''input_tokens_details'',
             jobj [(''cached_tokens'', jnat (sat_add (u_cached l) (u_cached r)))]),
          (''output_tokens'', jnat (sat_add (u_output l) (u_output r))),
          (''reasoning_output_tokens'', jnat (sat_add (u_reasoning l) (u_reasoning r))),
          (''output_tokens_details'',
             jobj [(''reasoning_tokens'', jnat (sat_add (u_reasoning l) (u_reasoning r)))]),
          (''total_tokens'', jnat (sat_add (u_total l) (u_total r)))])"

section \<open>Usage as a commutative sum\<close>

definition usage_add :: "usage_components \<Rightarrow> usage_components \<Rightarrow> usage_components" where
  "usage_add a b =
     \<lparr>u_input = sat_add (u_input a) (u_input b), u_cached = sat_add (u_cached a) (u_cached b),
      u_cache_miss = sat_add (u_cache_miss a) (u_cache_miss b),
      u_output = sat_add (u_output a) (u_output b),
      u_reasoning = sat_add (u_reasoning a) (u_reasoning b),
      u_total = sat_add (u_total a) (u_total b)\<rparr>"

definition usage_json :: "usage_components \<Rightarrow> json" where
  "usage_json c =
     jobj [(''input_tokens'', jnat (u_input c)), (''cached_input_tokens'', jnat (u_cached c)),
       (''cache_miss_input_tokens'', jnat (u_cache_miss c)),
       (''input_tokens_details'', jobj [(''cached_tokens'', jnat (u_cached c))]),
       (''output_tokens'', jnat (u_output c)),
       (''reasoning_output_tokens'', jnat (u_reasoning c)),
       (''output_tokens_details'', jobj [(''reasoning_tokens'', jnat (u_reasoning c))]),
       (''total_tokens'', jnat (u_total c))]"

lemma usage_field_first:
  "jget u k = Some (jnat n) \<Longrightarrow> usage_field u (k # ks) = Some n"
  by (simp add: usage_field_def map_filter_simps jnat_def)

lemma components_usage_json [simp]: "response_usage_components (usage_json c) = c"
  by (simp add: response_usage_components_def usage_json_def usage_field_first unwrap_or_def
      or_else_def)

lemma from_chat_usage_json:
  "response_usage_from_chat_usage u = usage_json (response_usage_components (unwrap_or JNull u))"
  by (simp add: response_usage_from_chat_usage_def usage_json_def Let_def)

lemma merge_usage_json:
  "merge_response_usage a b =
     usage_json (usage_add (response_usage_components a) (response_usage_components b))"
  by (simp add: merge_response_usage_def usage_json_def usage_add_def Let_def)

lemma sat_add_assoc: "sat_add (sat_add a b) c = sat_add a (sat_add b c)"
  by (simp add: sat_add_def min_def)

lemma sat_add_commute: "sat_add a b = sat_add b a"
  by (simp add: sat_add_def add.commute)

lemma usage_add_assoc: "usage_add (usage_add a b) c = usage_add a (usage_add b c)"
  by (simp add: usage_add_def sat_add_assoc)

lemma usage_add_commute: "usage_add a b = usage_add b a"
  by (simp add: usage_add_def sat_add_commute)

text \<open>Normalising a usage object keeps exactly what can be read off it, so normalising twice
  changes nothing; merging reads as the saturating sum of the six counters, and the order and the
  grouping in which the rounds of a tool loop are merged do not matter.\<close>

lemma usage_merge_sum:
  "response_usage_components (response_usage_from_chat_usage (Some u)) = response_usage_components u
   \<and> response_usage_from_chat_usage (Some (response_usage_from_chat_usage v))
       = response_usage_from_chat_usage v
   \<and> response_usage_components (merge_response_usage u w)
       = usage_add (response_usage_components u) (response_usage_components w)
   \<and> merge_response_usage u w = merge_response_usage w u
   \<and> merge_response_usage (merge_response_usage u w) x
       = merge_response_usage u (merge_response_usage w x)"
  by (intro conjI)
    (simp_all add: from_chat_usage_json merge_usage_json usage_add_assoc,
     simp add: usage_add_commute)

end
