(* ===== verification/Tool_Loop.thy ===== *)
theory Tool_Loop
  imports Tool_Loop_Guard Deepseek_Protocol Usage
begin

text \<open>
  The tool loop of the chat transport: \<^verbatim>\<open>complete_chat_with_tools\<close> of
  \<^verbatim>\<open>crates/proxy/src/tools/coordinator.rs\<close> with the message handling of \<^verbatim>\<open>tools/chat_protocol.rs\<close>,
  the response items of \<^verbatim>\<open>tools/response_items.rs\<close> and the result texts of \<^verbatim>\<open>tools/hosted.rs\<close>.

  What the loop does to the outside is a trace of effects, in order: logged events (by type; their
  payloads are diagnostics only), executed tools, stored facts and turn messages, handoff checks,
  upstream requests and the chat responses received for them. What the outside answers is the record \<open>loop_env\<close>: every answer may depend on
  the whole trace so far, so nothing is assumed about the upstream model, the tools, the store or
  the generated identifiers. The tools of a round run concurrently in the code, on one snapshot of
  the messages; their results are collected in the order of the calls.
\<close>

section \<open>Chat messages with tool calls\<close>

definition call_from_value :: "json \<Rightarrow> chat_tool_call option" where
  "call_from_value item =
     (case get_str item ''id'' of
        None \<Rightarrow> None
      | Some i \<Rightarrow>
          (case jget item ''function'' of
             None \<Rightarrow> None
           | Some f \<Rightarrow> map_option (\<lambda>name. \<lparr>tc_id = i, tc_name = name,
               tc_arguments = unwrap_or ''{}'' (get_str f ''arguments'')\<rparr>) (get_str f ''name'')))"

definition chat_tool_calls :: "json \<Rightarrow> chat_tool_call list" where
  "chat_tool_calls chat =
     (case Option.bind (Option.bind (chat_message_value chat) (\<lambda>m. jget m ''tool_calls'')) as_array of
        None \<Rightarrow> []
      | Some items \<Rightarrow> List.map_filter call_from_value items)"

text \<open>
  \<^verbatim>\<open>message[key] = value\<close>: null becomes an object; on any other value that is no object the code
  would panic, which the callers rule out (\<open>chat_tool_calls_object\<close> below).
\<close>

fun jset :: "string \<Rightarrow> json \<Rightarrow> json \<Rightarrow> json" where
  "jset k v JNull = JObj [(k, v)]"
| "jset k v j = jinsert k v j"

definition normalize_assistant_tool_message :: "json \<Rightarrow> json" where
  "normalize_assistant_tool_message message =
     (let message = (if jget message ''content'' = None \<or> jget message ''content'' = Some JNull
                     then jset ''content'' (JStr []) message else message);
          has_tool_calls = is_some_and (\<lambda>cs. cs \<noteq> []) (Option.bind (jget message ''tool_calls'') as_array)
      in if trim (unwrap_or [] (get_str message ''reasoning_content'')) = [] then
           (if has_tool_calls then jset ''reasoning_content'' (JStr []) message
            else jremove ''reasoning_content'' message)
         else message)"

definition full_assistant_tool_message_from_chat :: "json \<Rightarrow> string + json" where
  "full_assistant_tool_message_from_chat chat =
     (case chat_message_value chat of
        None \<Rightarrow> Inl ''tool call response did not include an assistant message''
      | Some m \<Rightarrow> Inr (normalize_assistant_tool_message m))"

definition chat_tool_calls_to_assistant_message ::
  "chat_tool_call list \<Rightarrow> string \<Rightarrow> string \<Rightarrow> json" where
  "chat_tool_calls_to_assistant_message calls content reasoning =
     (let message = jobj [(''role'', JStr ''assistant''), (''content'', JStr content),
            (''tool_calls'', JArr (map (\<lambda>c. jobj
               [(''id'', JStr (tc_id c)), (''type'', JStr ''function''),
                (''function'', jobj [(''name'', JStr (tc_name c)),
                   (''arguments'', JStr (tc_arguments c))])]) calls))]
      in if calls \<noteq> [] \<or> trim reasoning \<noteq> []
         then jset ''reasoning_content'' (JStr reasoning) message else message)"

definition assistant_message_from_chat_tool_subset :: "json \<Rightarrow> chat_tool_call list \<Rightarrow> json" where
  "assistant_message_from_chat_tool_subset chat calls =
     (let message = unwrap_or JNull (chat_message_value chat)
      in chat_tool_calls_to_assistant_message calls
           (unwrap_or [] (get_str message ''content''))
           (unwrap_or [] (get_str message ''reasoning_content'')))"

section \<open>Results and response items\<close>

definition compact_line :: "string \<Rightarrow> nat \<Rightarrow> string" where
  "compact_line t max_chars =
     (let compacted = join '' '' (split_whitespace t); n = char_count compacted
      in if n \<le> max_chars then compacted
         else take_chars max_chars compacted @ ''...[truncated chars='' @ nat_str n @ '']'')"

definition summarize_tool_result :: "ext_lib \<Rightarrow> json \<Rightarrow> string" where
  "summarize_tool_result L result =
     compact_line (redact_inline_data_urls (json_to_string L result)) 2400"

definition tool_fact_line :: "ext_lib \<Rightarrow> chat_tool_call \<Rightarrow> json \<Rightarrow> string" where
  "tool_fact_line L call result =
     ''tool='' @ tc_name call @ '' call_id='' @ tc_id call @ '' arguments=''
     @ compact_line (redact_inline_data_urls (tc_arguments call)) 800
     @ '' ok='' @ (case Option.bind (jget result ''ok'') as_bool of
          None \<Rightarrow> ''unknown'' | Some True \<Rightarrow> ''true'' | Some False \<Rightarrow> ''false'')
     @ '' result='' @ summarize_tool_result L result"

definition MAX_TOOL_RESULT_REPLAY_CHARS :: nat where "MAX_TOOL_RESULT_REPLAY_CHARS = 12000"

text \<open>The compaction of a web search result, \<open>web_result\<close>, is an argument.\<close>

definition model_replay_tool_result ::
  "ext_lib \<Rightarrow> (json \<Rightarrow> json) \<Rightarrow> chat_tool_call \<Rightarrow> json \<Rightarrow> string" where
  "model_replay_tool_result L web_result call result =
     (if is_web_search_tool (tc_name call) then json_to_string L (web_result result)
      else
        (let t = redact_inline_data_urls (json_to_string L result)
         in if char_count t \<le> MAX_TOOL_RESULT_REPLAY_CHARS then t
            else json_to_string L (jobj
              [(''ok'', unwrap_or JNull (jget result ''ok'')), (''tool'', JStr (tc_name call)),
               (''codeseex_truncated_for_model'', JBool True), (''original_chars'', jnat (char_count t)),
               (''summary'', JStr (summarize_tool_result L result))])))"

datatype effect =
    Logged string
  | Executed chat_tool_call
  | Stored_Fact string
  | Stored_Turn "json list"
  | Handoff "chat_tool_call list"
  | Posted json
  | Received json

datatype upstream_reply =
    Connection_Failed string
  | Bad_Status string string
  | Bad_Body string
  | Chat_Reply json

record handoff_stop =
  hs_code :: string
  hs_message :: string

record loop_env =
  le_lib :: ext_lib
  le_community :: community_tool_set
  le_external :: "string set"
  le_enabled :: "string list"
  le_adapts :: bool
  le_upstream :: "effect list \<Rightarrow> json \<Rightarrow> upstream_reply"
  le_execute :: "effect list \<Rightarrow> json list \<Rightarrow> chat_tool_call \<Rightarrow> json"
  le_handoff :: "effect list \<Rightarrow> chat_tool_call list \<Rightarrow> json \<Rightarrow> string + handoff_stop option"
  le_store_fact :: "effect list \<Rightarrow> string \<Rightarrow> string option"
  le_store_turn :: "effect list \<Rightarrow> json list \<Rightarrow> string option"
  le_web_action :: "string \<Rightarrow> json"
  le_web_result :: "json \<Rightarrow> json"
  le_uuid :: "effect list \<Rightarrow> nat \<Rightarrow> string"

definition proxy_tool_call_response_item :: "string \<Rightarrow> chat_tool_call \<Rightarrow> json" where
  "proxy_tool_call_response_item uuid call = jobj
     [(''id'', JStr (''ptc_'' @ uuid)), (''type'', JStr ''proxy_tool_call''), (''status'', JStr ''completed''),
      (''call_id'', JStr (tc_id call)), (''name'', JStr (tc_name call)),
      (''arguments'', JStr (redact_inline_data_urls (tc_arguments call)))]"

definition native_web_search_call_item :: "(string \<Rightarrow> json) \<Rightarrow> string \<Rightarrow> chat_tool_call \<Rightarrow> json" where
  "native_web_search_call_item web_action uuid call = jobj
     [(''id'', JStr (''ws_'' @ uuid)), (''type'', JStr ''web_search_call''), (''status'', JStr ''completed''),
      (''call_id'', JStr (tc_id call)), (''action'', web_action (tc_arguments call))]"

definition web_search_call_output_response_item :: "string \<Rightarrow> chat_tool_call \<Rightarrow> string \<Rightarrow> json" where
  "web_search_call_output_response_item uuid call output = jobj
     [(''id'', JStr (''wso_'' @ uuid)), (''type'', JStr ''web_search_call_output''),
      (''call_id'', JStr (tc_id call)), (''output'', JStr output)]"

text \<open>The loop over the calls: non-search items wait in a group that a search item flushes.\<close>

fun visible_items_loop ::
  "(string \<Rightarrow> json) \<Rightarrow> (nat \<Rightarrow> string) \<Rightarrow> json list \<Rightarrow> json list \<Rightarrow> nat \<Rightarrow> chat_tool_call list \<Rightarrow> json list"
where
  "visible_items_loop web_action uuid output pending k [] = output @ pending"
| "visible_items_loop web_action uuid output pending k (call # calls) =
     (if is_web_search_tool (tc_name call)
      then visible_items_loop web_action uuid
             (output @ pending @ [native_web_search_call_item web_action (uuid k) call]) [] (Suc k) calls
      else visible_items_loop web_action uuid output
             (pending @ [proxy_tool_call_response_item (uuid k) call]) (Suc k) calls)"

definition proxy_visible_response_items ::
  "(string \<Rightarrow> json) \<Rightarrow> (nat \<Rightarrow> string) \<Rightarrow> chat_tool_call list \<Rightarrow> json list" where
  "proxy_visible_response_items web_action uuid calls =
     visible_items_loop web_action uuid [] [] 0 calls"

section \<open>One round of tools\<close>

record tool_loop_error =
  tle_code :: string
  tle_message :: string
  tle_usage :: json

definition loop_error :: "string \<Rightarrow> json \<Rightarrow> tool_loop_error" where
  "loop_error message usage =
     \<lparr>tle_code = ''tool_loop_failed'', tle_message = message, tle_usage = usage\<rparr>"

record tool_loop_response =
  tlr_chat :: json
  tlr_items :: "json list"
  tlr_usage :: json

datatype tool_loop_result = FinalChat tool_loop_response | ClientToolCalls tool_loop_response

type_synonym loop_outcome = "(tool_loop_error + tool_loop_result) \<times> effect list"

definition tool_message :: "loop_env \<Rightarrow> chat_tool_call \<Rightarrow> json \<Rightarrow> json" where
  "tool_message env call result = jobj
     [(''role'', JStr ''tool''), (''tool_call_id'', JStr (tc_id call)),
      (''content'', JStr (model_replay_tool_result (le_lib env) (le_web_result env) call result))]"

fun execute_calls ::
  "loop_env \<Rightarrow> json list \<Rightarrow> chat_tool_call list \<Rightarrow> effect list
     \<Rightarrow> (chat_tool_call \<times> json) list \<times> effect list" where
  "execute_calls env snapshot [] tr = ([], tr)"
| "execute_calls env snapshot (call # calls) tr =
     (let result = le_execute env tr snapshot call;
          (rs, tr') = execute_calls env snapshot calls (tr @ [Executed call])
      in ((call, result) # rs, tr'))"

text \<open>Collects the tool messages, the results as reported and the extra response items.\<close>

fun collect_results ::
  "loop_env \<Rightarrow> tool_loop_diagnostics \<Rightarrow> (chat_tool_call \<times> json) list \<Rightarrow> effect list
     \<Rightarrow> (string + json list \<times> (chat_tool_call \<times> json) list \<times> json list) \<times> effect list" where
  "collect_results env d [] tr = (Inr ([], [], []), tr)"
| "collect_results env d ((call, raw) # rest) tr =
     (let (result, tr) =
            (case repeated_call_warning d call of
               None \<Rightarrow> (raw, tr)
             | Some w \<Rightarrow> (attach_tool_loop_warning raw w, tr @ [Logged ''tool_loop_repeated_call'']));
          fact_line = tool_fact_line (le_lib env) call result
      in case le_store_fact env tr fact_line of
           Some e \<Rightarrow> (Inl (''failed to persist tool fact: '' @ e), tr)
         | None \<Rightarrow>
             (let tr = tr @ [Stored_Fact fact_line, Logged ''tool_result''];
                  item = (if is_web_search_tool (tc_name call)
                          then [web_search_call_output_response_item (le_uuid env tr 0) call
                                  (summarize_tool_result (le_lib env) result)] else [])
              in case collect_results env d rest tr of
                   (Inl e, tr) \<Rightarrow> (Inl e, tr)
                 | (Inr (ms, rs, items), tr) \<Rightarrow>
                     (Inr (tool_message env call result # ms, (call, result) # rs, item @ items), tr)))"

record loop_state =
  ls_completed :: nat
  ls_diagnostics :: tool_loop_diagnostics
  ls_items :: "json list"
  ls_usage :: json
  ls_payload :: json
  ls_chat :: json

text \<open>
  From the announcement of the round to the storing of its messages: the new state and the stop
  that repeated failures ask for.
\<close>

definition run_round ::
  "loop_env \<Rightarrow> loop_state \<Rightarrow> chat_tool_call list \<Rightarrow> bool \<Rightarrow> effect list
     \<Rightarrow> (tool_loop_error + loop_state \<times> tool_loop_stop option) \<times> effect list" where
  "run_round env st proxy_calls has_client tr =
     (let usage = ls_usage st;
          tr = tr @ (if has_client then [Logged ''mixed_tool_turn_split''] else []);
          items = ls_items st @ proxy_visible_response_items (le_web_action env) (le_uuid env tr) proxy_calls
      in case Option.bind (jget (ls_payload st) ''messages'') as_array of
           None \<Rightarrow> (Inl (loop_error ''chat payload messages were not an array'' usage), tr)
         | Some messages \<Rightarrow>
             (case full_assistant_tool_message_from_chat (ls_chat st) of
                Inl e \<Rightarrow> (Inl (loop_error e usage), tr)
              | Inr stored \<Rightarrow>
                  (let assistant = (if has_client
                         then assistant_message_from_chat_tool_subset (ls_chat st) proxy_calls else stored);
                       messages = messages @ [assistant];
                       tr = tr @ map (\<lambda>_. Logged ''tool_call'') proxy_calls;
                       (results, tr) = execute_calls env messages proxy_calls tr
                   in case collect_results env (ls_diagnostics st) results tr of
                        (Inl e, tr) \<Rightarrow> (Inl (loop_error e usage), tr)
                      | (Inr (tool_messages, reported, extra), tr) \<Rightarrow>
                          (let (stop, d) = record_tool_results_and_repeated_failure reported
                                 (ls_diagnostics st)
                           in case le_store_turn env tr (stored # tool_messages) of
                                Some e \<Rightarrow> (Inl (loop_error
                                  (''failed to persist tool turn messages: '' @ e) usage), tr)
                              | None \<Rightarrow>
                                  (Inr (st\<lparr>ls_diagnostics := d, ls_items := items @ extra,
                                      ls_payload := jinsert ''messages''
                                        (JArr (messages @ tool_messages)) (ls_payload st)\<rparr>, stop),
                                   tr @ [Stored_Turn (stored # tool_messages)])))))"

section \<open>Leaving the loop\<close>

definition adapt_non_streaming ::
  "loop_env \<Rightarrow> json \<Rightarrow> json \<Rightarrow> effect list \<Rightarrow> json \<times> effect list" where
  "adapt_non_streaming env chat payload tr =
     (if \<not> le_adapts env then (chat, tr)
      else
        (let allow = is_some_and (\<lambda>ts. ts \<noteq> []) (Option.bind (jget payload ''tools'') as_array);
             (chat', a) = adapt_chat_tool_protocol (le_lib env) (le_uuid env tr) chat allow
         in if \<not> adaptation_changed a then (chat', tr)
            else (chat', tr @ [Logged
              (if adapted_tool_names a \<noteq> [] then ''deepseek_tool_protocol_adapted''
               else if blocked_channels a \<noteq> [] then ''deepseek_tool_protocol_blocked''
               else ''deepseek_tool_protocol_parse_failed'')])))"

definition post_chat ::
  "loop_env \<Rightarrow> string \<Rightarrow> json \<Rightarrow> effect list \<Rightarrow> (string + json) \<times> effect list" where
  "post_chat env phase payload tr =
     (let reply = le_upstream env tr payload; tr = tr @ [Posted payload]
      in case reply of
           Connection_Failed e \<Rightarrow> (Inl e, tr @ [Logged ''retry_cache_diagnostic''])
         | Bad_Status status body \<Rightarrow>
             (Inl (''upstream returned '' @ status @ phase @ body), tr @ [Logged ''retry_cache_diagnostic''])
         | Bad_Body e \<Rightarrow> (Inl e, tr)
         | Chat_Reply chat \<Rightarrow>
             (case adapt_non_streaming env chat payload tr of (c, tr) \<Rightarrow> (Inr c, tr @ [Received c])))"

definition recover_final_response_after_tool_loop_stop ::
  "loop_env \<Rightarrow> loop_state \<Rightarrow> tool_loop_stop \<Rightarrow> effect list \<Rightarrow> loop_outcome" where
  "recover_final_response_after_tool_loop_stop env st stop tr =
     (case prepare_tool_loop_recovery_payload (ls_payload st) (stop_message stop) of
        Inl e \<Rightarrow> (Inl (loop_error e (ls_usage st)), tr)
      | Inr payload \<Rightarrow>
          (case post_chat env '' during tool loop recovery: '' payload tr of
             (Inl e, tr) \<Rightarrow> (Inl (loop_error e (ls_usage st)), tr)
           | (Inr chat, tr) \<Rightarrow>
               if chat_tool_calls chat \<noteq> [] then
                 (Inl (loop_error ''upstream returned tool calls during no-tool loop recovery''
                    (ls_usage st)), tr)
               else (Inr (FinalChat \<lparr>tlr_chat = chat, tlr_items = ls_items st,
                       tlr_usage = merge_response_usage (ls_usage st)
                         (response_usage_from_chat_usage (jget chat ''usage''))\<rparr>),
                     tr @ [Logged ''upstream_call_usage_breakdown''])))"

definition client_handoff_guard_calls :: "tool_call_partition \<Rightarrow> chat_tool_call list" where
  "client_handoff_guard_calls p = p_native p @ p_external p"

definition handoff_guard ::
  "loop_env \<Rightarrow> tool_call_partition \<Rightarrow> json \<Rightarrow> effect list \<Rightarrow> tool_loop_error option \<times> effect list"
where
  "handoff_guard env p usage tr =
     (let calls = client_handoff_guard_calls p; verdict = le_handoff env tr calls usage;
          tr = tr @ [Handoff calls]
      in case verdict of
           Inl e \<Rightarrow> (Some (loop_error (''failed to evaluate client tool handoff guard: '' @ e) usage), tr)
         | Inr (Some stop) \<Rightarrow>
             (Some \<lparr>tle_code = hs_code stop, tle_message = hs_message stop, tle_usage = usage\<rparr>,
              tr @ [Logged ''client_tool_handoff_guard_diagnostic''])
         | Inr None \<Rightarrow> (None, tr))"

definition client_result :: "loop_state \<Rightarrow> tool_loop_result" where
  "client_result st = ClientToolCalls
     \<lparr>tlr_chat = ls_chat st, tlr_items = ls_items st, tlr_usage = ls_usage st\<rparr>"

text \<open>A turn with client calls only.\<close>

definition hand_off_turn :: "loop_env \<Rightarrow> loop_state \<Rightarrow> tool_call_partition \<Rightarrow> effect list \<Rightarrow> loop_outcome"
where
  "hand_off_turn env st p tr =
     (case handoff_guard env p (ls_usage st) tr of
        (Some e, tr) \<Rightarrow> (Inl e, tr)
      | (None, tr) \<Rightarrow>
          (case full_assistant_tool_message_from_chat (ls_chat st) of
             Inl e \<Rightarrow> (Inl (loop_error e (ls_usage st)), tr)
           | Inr stored \<Rightarrow>
               (case le_store_turn env tr [stored] of
                  Some e \<Rightarrow> (Inl (loop_error (''failed to persist client tool turn message: '' @ e)
                              (ls_usage st)), tr)
                | None \<Rightarrow> (Inr (client_result st),
                    tr @ [Stored_Turn [stored], Logged ''client_tool_handoff_diagnostic'']))))"

text \<open>A mixed turn, after its proxy calls were run.\<close>

definition hand_off_rest :: "loop_env \<Rightarrow> loop_state \<Rightarrow> tool_call_partition \<Rightarrow> effect list \<Rightarrow> loop_outcome"
where
  "hand_off_rest env st p tr =
     (case handoff_guard env p (ls_usage st) (tr @ [Logged ''client_tool_handoff_diagnostic'']) of
        (Some e, tr) \<Rightarrow> (Inl e, tr)
      | (None, tr) \<Rightarrow> (Inr (client_result st), tr))"

section \<open>The loop\<close>

function tool_loop :: "loop_env \<Rightarrow> loop_state \<Rightarrow> effect list \<Rightarrow> loop_outcome" where
  "tool_loop env st tr =
     (let calls = chat_tool_calls (ls_chat st)
      in if calls = [] then
           (Inr (FinalChat \<lparr>tlr_chat = ls_chat st, tlr_items = ls_items st, tlr_usage = ls_usage st\<rparr>), tr)
         else
           (let p = partition_tool_calls calls (le_community env) (le_external env);
                st = st\<lparr>ls_diagnostics :=
                  snd (record_iteration (ls_completed st + 1) calls p (ls_diagnostics st))\<rparr>;
                tr = tr @ [Logged ''tool_loop_iteration''];
                proxy_calls = proxy_executed_calls_in_order calls p;
                has_client = has_client_executed_calls p
            in case p_unknown p of
                 unknown # _ \<Rightarrow>
                   (Inl (loop_error (''tool '' @ [CHR 0x27] @ tc_name unknown @ [CHR 0x27]
                      @ '' is not available to CodeSeeX or Codex'') (ls_usage st)), tr)
               | [] \<Rightarrow>
                   (case find (\<lambda>c. \<not> is_code_tool_executable (tc_name c) (le_enabled env)
                                (le_community env)) proxy_calls of
                      Some disabled \<Rightarrow>
                        (Inl (loop_error (''tool '' @ [CHR 0x27] @ tc_name disabled @ [CHR 0x27]
                           @ '' is not enabled or not executable by CodeSeeX'') (ls_usage st)), tr)
                    | None \<Rightarrow>
                        if has_client \<and> \<not> has_proxy_executed_calls p then hand_off_turn env st p tr
                        else
                          (case run_round env st proxy_calls has_client tr of
                             (Inl e, tr) \<Rightarrow> (Inl e, tr)
                           | (Inr (st, failure_stop), tr) \<Rightarrow>
                               (case web_search_budget_stop (ls_diagnostics st) of
                                  Some stop \<Rightarrow>
                                    recover_final_response_after_tool_loop_stop env st stop
                                      (tr @ [Logged ''tool_loop_web_search_budget_stopped''])
                                | None \<Rightarrow>
                                    (case failure_stop of
                                       Some stop \<Rightarrow>
                                         (let tr = tr @ [Logged ''tool_loop_repeated_failure_stopped'']
                                          in if recover_with_final_response stop
                                             then recover_final_response_after_tool_loop_stop env st stop tr
                                             else (Inl (loop_error (stop_message stop) (ls_usage st)), tr))
                                     | None \<Rightarrow>
                                         if MAX_TOOL_LOOP_ITERATIONS \<le> ls_completed st + 1 then
                                           (Inl (loop_error iteration_limit_error (ls_usage st)),
                                            tr @ [Logged ''tool_loop_iteration_limit_stopped''])
                                         else if has_client then hand_off_rest env st p tr
                                         else
                                           (case post_chat env '' after tool execution: '' (ls_payload st) tr of
                                              (Inl e, tr) \<Rightarrow> (Inl (loop_error e (ls_usage st)), tr)
                                            | (Inr chat, tr) \<Rightarrow>
                                                tool_loop env
                                                  (st\<lparr>ls_completed := ls_completed st + 1, ls_chat := chat,
                                                    ls_usage := merge_response_usage (ls_usage st)
                                                      (response_usage_from_chat_usage (jget chat ''usage''))\<rparr>)
                                                  (tr @ [Logged ''upstream_call_usage_breakdown'']))))))))"
  by pat_completeness auto
termination
  by (relation "measure (\<lambda>(_, st, _). MAX_TOOL_LOOP_ITERATIONS - ls_completed st)")
    (auto simp: run_round_def Let_def split: option.splits sum.splits prod.splits)

declare tool_loop.simps [simp del]

definition complete_chat_with_tools :: "loop_env \<Rightarrow> json \<Rightarrow> json \<Rightarrow> loop_outcome" where
  "complete_chat_with_tools env payload chat =
     tool_loop env \<lparr>ls_completed = 0, ls_diagnostics = no_diagnostics, ls_items = [],
       ls_usage = response_usage_from_chat_usage (jget chat ''usage''), ls_payload = payload,
       ls_chat = chat\<rparr> []"

section \<open>What a step of the loop does\<close>

fun posts :: "effect list \<Rightarrow> json list" where
  "posts [] = []"
| "posts (Posted p # es) = p # posts es"
| "posts (_ # es) = posts es"

fun received :: "effect list \<Rightarrow> json list" where
  "received [] = []"
| "received (Received c # es) = c # received es"
| "received (_ # es) = received es"

fun executed :: "effect list \<Rightarrow> chat_tool_call list" where
  "executed [] = []"
| "executed (Executed c # es) = c # executed es"
| "executed (_ # es) = executed es"

lemma trace_append [simp]:
  "posts (a @ b) = posts a @ posts b"
  "received (a @ b) = received a @ received b"
  "executed (a @ b) = executed a @ executed b"
  by (induction a rule: posts.induct) simp_all

text \<open>A stretch of the trace without upstream traffic, in which only calls of \<open>cs\<close> are run.\<close>

definition quiet :: "chat_tool_call set \<Rightarrow> effect list \<Rightarrow> effect list \<Rightarrow> bool" where
  "quiet cs tr tr' \<longleftrightarrow> (\<exists>es. tr' = tr @ es \<and> posts es = [] \<and> received es = [] \<and> set (executed es) \<subseteq> cs)"

lemma quiet_refl [simp, intro]: "quiet cs tr tr"
  by (simp add: quiet_def)

lemma quiet_trans [trans]: "quiet cs a b \<Longrightarrow> quiet cs b c \<Longrightarrow> quiet cs a c"
  by (auto simp: quiet_def)

lemma quiet_mono: "quiet cs a b \<Longrightarrow> cs \<subseteq> cs' \<Longrightarrow> quiet cs' a b"
  by (auto simp: quiet_def)

lemma quiet_none: "quiet {} a b \<Longrightarrow> quiet cs a b"
  by (auto simp: quiet_def)

lemma quiet_log [simp, intro]:
  "quiet cs tr (tr @ [Logged l])" "quiet cs tr (tr @ [Stored_Turn ms, Logged l])"
  "quiet cs tr (tr @ [Stored_Turn ms])" "quiet cs tr (tr @ [Handoff hs])"
  "quiet cs tr (tr @ [Stored_Fact f, Logged l])" "quiet cs tr (tr @ [Handoff hs, Logged l])"
  by (auto simp: quiet_def)

lemma quiet_logs: "quiet cs tr (tr @ map (\<lambda>_. Logged l) xs)"
  unfolding quiet_def by (intro exI conjI, rule refl) (induction xs; simp)+

lemma execute_calls_quiet: "quiet (set calls) tr (snd (execute_calls env snapshot calls tr))"
proof (induction env snapshot calls tr rule: execute_calls.induct)
  case (2 env snapshot call calls tr)
  have "quiet (set (call # calls)) tr (tr @ [Executed call])" by (auto simp: quiet_def)
  also have "quiet (set (call # calls)) (tr @ [Executed call])
      (snd (execute_calls env snapshot calls (tr @ [Executed call])))"
    using "2.IH" [OF refl] by (rule quiet_mono) auto
  finally show ?case by (simp add: Let_def case_prod_beta)
qed simp

lemma execute_calls_fst [simp]: "map fst (fst (execute_calls env snapshot calls tr)) = calls"
  by (induction env snapshot calls tr rule: execute_calls.induct) (simp_all add: Let_def case_prod_beta)

lemma collect_results_quiet: "quiet cs tr (snd (collect_results env d rs tr))"
proof (induction env d rs tr rule: collect_results.induct)
  case (2 env d call raw rest tr)
  define w where "w = (case repeated_call_warning d call of
       None \<Rightarrow> (raw, tr) | Some w \<Rightarrow> (attach_tool_loop_warning raw w, tr @ [Logged ''tool_loop_repeated_call'']))"
  obtain result tr1 where w': "w = (result, tr1)" by (cases w)
  have q1: "quiet cs tr tr1" using w' unfolding w_def by (auto split: option.splits)
  let ?f = "tool_fact_line (le_lib env) call result"
  let ?tr2 = "tr1 @ [Stored_Fact ?f, Logged ''tool_result'']"
  show ?case
  proof (cases "le_store_fact env tr1 ?f")
    case (Some e)
    then show ?thesis using q1 w' by (simp add: w_def [symmetric])
  next
    case None
    have "quiet cs tr ?tr2" by (rule quiet_trans [OF q1]) simp
    also have "quiet cs ?tr2 (snd (collect_results env d rest ?tr2))"
      using "2.IH" [OF w' [unfolded w_def, symmetric] refl refl None refl refl] by simp
    also have "snd (collect_results env d rest ?tr2) =
        snd (collect_results env d ((call, raw) # rest) tr)"
    proof -
      obtain c tr3 where c: "collect_results env d rest ?tr2 = (c, tr3)" by fastforce
      show ?thesis
        unfolding collect_results.simps w_def [symmetric] w' Let_def prod.case None option.case c
        by (cases c) (simp_all add: case_prod_beta)
    qed
    finally show ?thesis .
  qed
qed simp

lemma adapt_quiet: "quiet cs tr (snd (adapt_non_streaming env chat payload tr))"
  by (simp add: adapt_non_streaming_def Let_def case_prod_beta)

lemma post_chat_trace:
  obtains tr' where "quiet cs (tr @ [Posted payload]) tr'"
    and "(\<exists>e. post_chat env phase payload tr = (Inl e, tr'))
       \<or> (\<exists>chat. post_chat env phase payload tr = (Inr chat, tr' @ [Received chat]))"
proof (cases "le_upstream env tr payload")
  case (Chat_Reply chat)
  obtain c tr' where a: "adapt_non_streaming env chat payload (tr @ [Posted payload]) = (c, tr')" by fastforce
  have q: "quiet cs (tr @ [Posted payload]) tr'"
    using adapt_quiet [of cs "tr @ [Posted payload]" env chat payload] unfolding a by simp
  show thesis by (rule that [OF q]) (simp add: post_chat_def Chat_Reply a)
next
  case (Connection_Failed e)
  show thesis
    by (rule that [of "(tr @ [Posted payload]) @ [Logged ''retry_cache_diagnostic'']"], rule quiet_log)
      (simp add: post_chat_def Connection_Failed)
next
  case (Bad_Status status body)
  show thesis
    by (rule that [of "(tr @ [Posted payload]) @ [Logged ''retry_cache_diagnostic'']"], rule quiet_log)
      (simp add: post_chat_def Bad_Status)
next
  case (Bad_Body e)
  show thesis
    by (rule that [of "tr @ [Posted payload]"], rule quiet_refl) (simp add: post_chat_def Bad_Body)
qed

lemma run_round_cases:
  obtains (failed) e tr' where "run_round env st calls has_client tr = (Inl e, tr')"
      and "quiet (set calls) tr tr'"
  | (succeeded) messages assistant stored results ms rs extra items d stop tr3 tr4
    where "Option.bind (jget (ls_payload st) ''messages'') as_array = Some messages"
      and "map fst results = calls"
      and "collect_results env (ls_diagnostics st) results tr3 = (Inr (ms, rs, extra), tr4)"
      and "run_round env st calls has_client tr =
        (Inr (st\<lparr>ls_diagnostics := d, ls_items := items, ls_payload :=
            jinsert ''messages'' (JArr ((messages @ [assistant]) @ ms)) (ls_payload st)\<rparr>, stop),
         tr4 @ [Stored_Turn (stored # ms)])"
      and "quiet (set calls) tr (tr4 @ [Stored_Turn (stored # ms)])"
proof -
  define tr1 where "tr1 = tr @ (if has_client then [Logged ''mixed_tool_turn_split''] else [])"
  have q1: "quiet (set calls) tr tr1" by (simp add: tr1_def)
  show thesis
  proof (cases "Option.bind (jget (ls_payload st) ''messages'') as_array")
    case None
    with q1 show thesis unfolding tr1_def by (intro failed) (simp_all add: run_round_def Let_def)
  next
    case (Some messages)
    note messages = this
    show thesis
    proof (cases "full_assistant_tool_message_from_chat (ls_chat st)")
      case (Inl e)
      with messages q1 show thesis unfolding tr1_def by (intro failed) (simp_all add: run_round_def Let_def)
    next
      case (Inr stored)
      define a where "a = (if has_client
        then assistant_message_from_chat_tool_subset (ls_chat st) calls else stored)"
      define tr2 where "tr2 = tr1 @ map (\<lambda>_. Logged ''tool_call'') calls"
      obtain results tr3 where ex: "execute_calls env (messages @ [a]) calls tr2 = (results, tr3)" by fastforce
      obtain c tr4 where co: "collect_results env (ls_diagnostics st) results tr3 = (c, tr4)" by fastforce
      note q1
      also have "quiet (set calls) tr1 tr2" unfolding tr2_def by (rule quiet_logs)
      also have "quiet (set calls) tr2 tr3"
        using execute_calls_quiet [of calls tr2 env "messages @ [a]"] by (simp add: ex)
      also have "quiet (set calls) tr3 tr4"
        using collect_results_quiet [of "set calls" tr3 env "ls_diagnostics st" results] by (simp add: co)
      finally have q4: "quiet (set calls) tr tr4" .
      have fst: "map fst results = calls"
        using execute_calls_fst [of env "messages @ [a]" calls tr2] by (simp add: ex)
      note unf = run_round_def Let_def messages option.case Inr sum.case a_def [symmetric]
        tr1_def [symmetric] tr2_def [symmetric] ex prod.case co
      show thesis
      proof (cases c)
        case (Inl e)
        then show thesis using q4 by (intro failed [of _ tr4]) (simp_all add: unf)
      next
        case c: (Inr x)
        obtain ms rs extra where x: "x = (ms, rs, extra)" by (cases x)
        obtain stop d where rd: "record_tool_results_and_repeated_failure rs (ls_diagnostics st) = (stop, d)"
          by fastforce
        show thesis
        proof (cases "le_store_turn env tr4 (stored # ms)")
          case (Some e)
          then show thesis using q4 by (intro failed [of _ tr4]) (simp_all add: unf c x rd)
        next
          case None
          have "quiet (set calls) tr (tr4 @ [Stored_Turn (stored # ms)])" by (rule quiet_trans [OF q4]) simp
          then show thesis
            by (rule succeeded [OF messages fst co [unfolded c x], rotated]) (simp add: unf c x rd None)
        qed
      qed
    qed
  qed
qed

lemma run_round_spec:
  assumes "run_round env st calls has_client tr = (r, tr')"
  shows "quiet (set calls) tr tr'"
    and "r = Inr (st', stop) \<Longrightarrow> ls_completed st' = ls_completed st \<and> ls_usage st' = ls_usage st
           \<and> ls_chat st' = ls_chat st"
  by (rule run_round_cases [of env st calls has_client tr]; use assms in force)+

lemma handoff_guard_quiet: "quiet cs tr (snd (handoff_guard env p usage tr))"
  by (auto simp: handoff_guard_def Let_def quiet_def split: sum.splits option.splits)

lemma hand_off_turn_spec:
  assumes "hand_off_turn env st p tr = (r, tr')"
  shows "quiet cs tr tr' \<and> (\<forall>x. r = Inr x \<longrightarrow> x = client_result st)"
proof -
  obtain g tr1 where g: "handoff_guard env p (ls_usage st) tr = (g, tr1)" by fastforce
  have q1: "quiet cs tr tr1" using handoff_guard_quiet [of cs tr env p "ls_usage st"] by (simp add: g)
  have q2: "quiet cs tr (tr1 @ [Stored_Turn ms, Logged l])" for ms l
    by (rule quiet_trans [OF q1]) simp
  show ?thesis
  proof (cases g)
    case (Some e)
    with assms g q1 show ?thesis by (auto simp: hand_off_turn_def)
  next
    case None
    then show ?thesis
    proof (cases "full_assistant_tool_message_from_chat (ls_chat st)")
      case (Inl e)
      with None assms g q1 show ?thesis by (auto simp: hand_off_turn_def)
    next
      case (Inr stored)
      with None assms g q1 q2 show ?thesis
        by (cases "le_store_turn env tr1 [stored]") (auto simp: hand_off_turn_def)
    qed
  qed
qed

lemma hand_off_rest_spec:
  assumes "hand_off_rest env st p tr = (r, tr')"
  shows "quiet cs tr tr' \<and> (\<forall>x. r = Inr x \<longrightarrow> x = client_result st)"
proof -
  let ?tr = "tr @ [Logged ''client_tool_handoff_diagnostic'']"
  obtain g tr1 where g: "handoff_guard env p (ls_usage st) ?tr = (g, tr1)" by fastforce
  have "quiet cs ?tr tr1" using handoff_guard_quiet [of cs ?tr env p "ls_usage st"] by (simp add: g)
  with quiet_log(1) have q1: "quiet cs tr tr1" by (rule quiet_trans)
  from assms g have "tr' = tr1 \<and> (\<forall>x. r = Inr x \<longrightarrow> x = client_result st)"
    by (cases g) (auto simp: hand_off_rest_def)
  with q1 show ?thesis by simp
qed

lemma recovery_payload_no_tools:
  assumes "prepare_tool_loop_recovery_payload payload m = Inr payload'"
  shows "jget payload' ''tools'' = None \<and> jget payload' ''tool_choice'' = None
     \<and> jget payload' ''parallel_tool_calls'' = None"
proof -
  let ?p = "jremove ''parallel_tool_calls'' (jremove ''tool_choice'' (jremove ''tools'' payload))"
  from assms obtain ms where "payload' = jinsert ''messages'' (JArr ms) ?p"
    by (auto simp: prepare_tool_loop_recovery_payload_def Let_def simp del: jget_jremove split: option.splits)
  then show ?thesis by (simp add: jget_jinsert_other del: jget_jinsert)
qed

lemma recover_spec:
  assumes "recover_final_response_after_tool_loop_stop env st stop tr = (r, tr')"
  shows "quiet {} tr tr' \<and> (\<exists>e. r = Inl e)
    \<or> (\<exists>payload tr1. jget payload ''tools'' = None \<and> quiet {} (tr @ [Posted payload]) tr1
        \<and> (tr' = tr1 \<and> (\<exists>e. r = Inl e)
           \<or> (\<exists>chat. tr' = tr1 @ [Received chat] \<and> (\<exists>e. r = Inl e))
           \<or> (\<exists>chat items l. tr' = tr1 @ [Received chat, Logged l] \<and> chat_tool_calls chat = []
               \<and> r = Inr (FinalChat \<lparr>tlr_chat = chat, tlr_items = items,
                   tlr_usage = merge_response_usage (ls_usage st)
                     (response_usage_from_chat_usage (jget chat ''usage''))\<rparr>))))"
proof (cases "prepare_tool_loop_recovery_payload (ls_payload st) (stop_message stop)")
  case (Inl e)
  with assms show ?thesis by (auto simp: recover_final_response_after_tool_loop_stop_def)
next
  case (Inr payload)
  obtain tr1 where q: "quiet {} (tr @ [Posted payload]) tr1"
    and c: "(\<exists>e. post_chat env '' during tool loop recovery: '' payload tr = (Inl e, tr1))
      \<or> (\<exists>chat. post_chat env '' during tool loop recovery: '' payload tr = (Inr chat, tr1 @ [Received chat]))"
    by (rule post_chat_trace)
  have "jget payload ''tools'' = None" using recovery_payload_no_tools [OF Inr] by blast
  moreover from c have "tr' = tr1 \<and> (\<exists>e. r = Inl e)
           \<or> (\<exists>chat. tr' = tr1 @ [Received chat] \<and> (\<exists>e. r = Inl e))
           \<or> (\<exists>chat items l. tr' = tr1 @ [Received chat, Logged l] \<and> chat_tool_calls chat = []
               \<and> r = Inr (FinalChat \<lparr>tlr_chat = chat, tlr_items = items,
                   tlr_usage = merge_response_usage (ls_usage st)
                     (response_usage_from_chat_usage (jget chat ''usage''))\<rparr>))"
  proof (elim disjE exE)
    fix e assume "post_chat env '' during tool loop recovery: '' payload tr = (Inl e, tr1)"
    with assms Inr show ?thesis by (auto simp: recover_final_response_after_tool_loop_stop_def)
  next
    fix chat
    assume post: "post_chat env '' during tool loop recovery: '' payload tr = (Inr chat, tr1 @ [Received chat])"
    show ?thesis
    proof (cases "chat_tool_calls chat = []")
      case True
      with assms Inr post have "tr' = tr1 @ [Received chat, Logged ''upstream_call_usage_breakdown'']"
        and "r = Inr (FinalChat \<lparr>tlr_chat = chat, tlr_items = ls_items st,
                   tlr_usage = merge_response_usage (ls_usage st)
                     (response_usage_from_chat_usage (jget chat ''usage''))\<rparr>)"
        by (auto simp: recover_final_response_after_tool_loop_stop_def)
      with True show ?thesis by blast
    next
      case False
      with assms Inr post have "tr' = tr1 @ [Received chat] \<and> (\<exists>e. r = Inl e)"
        by (auto simp: recover_final_response_after_tool_loop_stop_def)
      then show ?thesis by blast
    qed
  qed
  ultimately show ?thesis using q by blast
qed

definition runnable :: "loop_env \<Rightarrow> chat_tool_call set" where
  "runnable env = {c. is_code_tool_executable (tc_name c) (le_enabled env) (le_community env)}"

definition next_state :: "loop_state \<Rightarrow> json \<Rightarrow> loop_state" where
  "next_state st chat = st\<lparr>ls_completed := ls_completed st + 1, ls_chat := chat,
     ls_usage := merge_response_usage (ls_usage st)
       (response_usage_from_chat_usage (jget chat ''usage''))\<rparr>"

text \<open>
  The ways out of one iteration after its round was run: a recovery, a failure, the handoff of the
  remaining calls, or a request and the next iteration.
\<close>

definition after_round ::
  "loop_env \<Rightarrow> loop_state \<Rightarrow> tool_call_partition \<Rightarrow> tool_loop_stop option \<Rightarrow> effect list \<Rightarrow> loop_outcome"
where
  "after_round env st p failure_stop tr =
     (case web_search_budget_stop (ls_diagnostics st) of
        Some stop \<Rightarrow> recover_final_response_after_tool_loop_stop env st stop
            (tr @ [Logged ''tool_loop_web_search_budget_stopped''])
      | None \<Rightarrow>
          (case failure_stop of
             Some stop \<Rightarrow>
               (let tr = tr @ [Logged ''tool_loop_repeated_failure_stopped'']
                in if recover_with_final_response stop
                   then recover_final_response_after_tool_loop_stop env st stop tr
                   else (Inl (loop_error (stop_message stop) (ls_usage st)), tr))
           | None \<Rightarrow>
               if MAX_TOOL_LOOP_ITERATIONS \<le> ls_completed st + 1 then
                 (Inl (loop_error iteration_limit_error (ls_usage st)),
                  tr @ [Logged ''tool_loop_iteration_limit_stopped''])
               else if has_client_executed_calls p then hand_off_rest env st p tr
               else
                 (case post_chat env '' after tool execution: '' (ls_payload st) tr of
                    (Inl e, tr) \<Rightarrow> (Inl (loop_error e (ls_usage st)), tr)
                  | (Inr chat, tr) \<Rightarrow> tool_loop env (next_state st chat)
                      (tr @ [Logged ''upstream_call_usage_breakdown'']))))"

lemma after_round_cases:
  assumes err: "\<And>e tr'. quiet {} tr tr' \<Longrightarrow> P (Inl e, tr')"
    and client: "\<And>tr'. quiet {} tr tr' \<Longrightarrow> P (Inr (client_result st), tr')"
    and recov: "\<And>stop l. P (recover_final_response_after_tool_loop_stop env st stop (tr @ [Logged l]))"
    and post: "\<And>e payload tr1. quiet {} (tr @ [Posted payload]) tr1 \<Longrightarrow> ls_completed st + 1 < 8
        \<Longrightarrow> P (Inl e, tr1)"
    and again: "\<And>chat payload tr1 l. quiet {} (tr @ [Posted payload]) tr1 \<Longrightarrow> ls_completed st + 1 < 8
        \<Longrightarrow> P (tool_loop env (next_state st chat) (tr1 @ [Received chat, Logged l]))"
  shows "P (after_round env st p failure_stop tr)"
proof (cases "web_search_budget_stop (ls_diagnostics st)")
  case (Some stop)
  then show ?thesis by (simp add: after_round_def recov)
next
  case None
  note budget = this
  show ?thesis
  proof (cases failure_stop)
    case (Some stop)
    then show ?thesis using budget by (simp add: after_round_def recov err Let_def)
  next
    case None
    note fail = this
    show ?thesis
    proof (cases "MAX_TOOL_LOOP_ITERATIONS \<le> ls_completed st + 1")
      case True
      then show ?thesis using budget fail by (simp add: after_round_def err)
    next
      case False
      then have lim: "ls_completed st + 1 < 8" by (simp add: MAX_TOOL_LOOP_ITERATIONS_def)
      show ?thesis
      proof (cases "has_client_executed_calls p")
        case True
        obtain r tr' where h: "hand_off_rest env st p tr = (r, tr')" by fastforce
        from hand_off_rest_spec [OF h, of "{}"] have "P (r, tr')" by (cases r) (auto intro: err client)
        then show ?thesis using budget fail False True h by (simp add: after_round_def)
      next
        case nc: False
        obtain tr1 where q: "quiet {} (tr @ [Posted (ls_payload st)]) tr1"
          and c: "(\<exists>e. post_chat env '' after tool execution: '' (ls_payload st) tr = (Inl e, tr1))
            \<or> (\<exists>chat. post_chat env '' after tool execution: '' (ls_payload st) tr
                 = (Inr chat, tr1 @ [Received chat]))"
          by (rule post_chat_trace)
        from c show ?thesis
        proof (elim disjE exE)
          fix e assume "post_chat env '' after tool execution: '' (ls_payload st) tr = (Inl e, tr1)"
          then show ?thesis
            using budget fail False nc post [OF q lim] by (simp add: after_round_def)
        next
          fix chat
          assume "post_chat env '' after tool execution: '' (ls_payload st) tr
              = (Inr chat, tr1 @ [Received chat])"
          then show ?thesis
            using budget fail False nc again [OF q lim] by (simp add: after_round_def)
        qed
      qed
    qed
  qed
qed

lemma tool_loop_cases:
  assumes fin: "chat_tool_calls (ls_chat st) = [] \<Longrightarrow> P (Inr (FinalChat
        \<lparr>tlr_chat = ls_chat st, tlr_items = ls_items st, tlr_usage = ls_usage st\<rparr>), tr)"
    and err: "\<And>e tr'. quiet (runnable env) tr tr' \<Longrightarrow> P (Inl e, tr')"
    and client: "\<And>st' tr'. quiet (runnable env) tr tr' \<Longrightarrow> ls_usage st' = ls_usage st
        \<Longrightarrow> P (Inr (client_result st'), tr')"
    and round: "\<And>st' p stop tr'. quiet (runnable env) tr tr' \<Longrightarrow> ls_usage st' = ls_usage st
        \<Longrightarrow> ls_completed st' = ls_completed st \<Longrightarrow> P (after_round env st' p stop tr')"
  shows "P (tool_loop env st tr)"
proof (cases "chat_tool_calls (ls_chat st) = []")
  case True
  then show ?thesis using fin by (simp add: tool_loop.simps [of env st])
next
  case False
  define calls where "calls = chat_tool_calls (ls_chat st)"
  define p where "p = partition_tool_calls calls (le_community env) (le_external env)"
  define st1 where "st1 = st\<lparr>ls_diagnostics :=
      snd (record_iteration (ls_completed st + 1) calls p (ls_diagnostics st))\<rparr>"
  define proxy where "proxy = proxy_executed_calls_in_order calls p"
  let ?tr = "tr @ [Logged ''tool_loop_iteration'']"
  have ne: "calls \<noteq> []" using False by (simp add: calls_def)
  note defs = calls_def [symmetric] p_def [symmetric] st1_def [symmetric] proxy_def [symmetric]
  have u: "ls_usage st1 = ls_usage st" "ls_completed st1 = ls_completed st" by (simp_all add: st1_def)
  show ?thesis
  proof (cases "p_unknown p")
    case (Cons a as)
    have "quiet (runnable env) tr ?tr" by simp
    with Cons False show ?thesis by (simp add: tool_loop.simps [of env st] Let_def defs err)
  next
    case Nil
    note unknown = this
    show ?thesis
    proof (cases "find (\<lambda>c. \<not> is_code_tool_executable (tc_name c) (le_enabled env) (le_community env)) proxy")
      case (Some c)
      have "quiet (runnable env) tr ?tr" by simp
      with Some unknown False show ?thesis by (simp add: tool_loop.simps [of env st] Let_def defs err)
    next
      case None
      then have run: "set proxy \<subseteq> runnable env" by (auto simp: find_None_iff runnable_def)
      show ?thesis
      proof (cases "has_client_executed_calls p \<and> \<not> has_proxy_executed_calls p")
        case True
        obtain r tr' where h: "hand_off_turn env st1 p ?tr = (r, tr')" by fastforce
        from hand_off_turn_spec [OF h] have "quiet (runnable env) ?tr tr'"
          and r: "\<forall>x. r = Inr x \<longrightarrow> x = client_result st1" by auto
        then have "quiet (runnable env) tr tr'" using quiet_log(1) quiet_trans by blast
        with r u have "P (r, tr')" by (cases r) (auto intro: err client)
        moreover have "tool_loop env st tr = hand_off_turn env st1 p ?tr"
          unfolding tool_loop.simps [of env st] Let_def defs unknown None
          using True False by (simp add: calls_def)
        ultimately show ?thesis by (simp add: h)
      next
        case no: False
        obtain r tr' where h: "run_round env st1 proxy (has_client_executed_calls p) ?tr = (r, tr')"
          by fastforce
        have "quiet (runnable env) ?tr tr'" by (rule quiet_mono [OF run_round_spec(1) [OF h] run])
        then have q: "quiet (runnable env) tr tr'" using quiet_log(1) quiet_trans by blast
        have step: "tool_loop env st tr = (case r of Inl e \<Rightarrow> (Inl e, tr')
            | Inr (st2, stop) \<Rightarrow> after_round env st2 p stop tr')"
          unfolding tool_loop.simps [of env st] Let_def defs unknown None after_round_def next_state_def
          if_not_P [OF ne] if_not_P [OF no] h list.case option.case
          by (cases r) (simp_all add: case_prod_beta)
        show ?thesis
        proof (cases r)
          case (Inl e)
          then show ?thesis using step err [OF q] by simp
        next
          case (Inr x)
          obtain st2 stop where x: "x = (st2, stop)" by (cases x)
          from run_round_spec(2) [OF h, of st2 stop] Inr x u
          have "ls_usage st2 = ls_usage st" "ls_completed st2 = ls_completed st" by simp_all
          then show ?thesis using step Inr x round [OF q] by simp
        qed
      qed
    qed
  qed
qed

section \<open>The loop is bounded and safe\<close>

definition usage_of :: "json \<Rightarrow> usage_components" where
  "usage_of chat = response_usage_components (unwrap_or JNull (jget chat ''usage''))"

fun result_response :: "tool_loop_result \<Rightarrow> tool_loop_response" where
  "result_response (FinalChat r) = r"
| "result_response (ClientToolCalls r) = r"

fun is_final :: "tool_loop_result \<Rightarrow> bool" where
  "is_final (FinalChat r) = True"
| "is_final (ClientToolCalls r) = False"

definition loop_result_ok :: "usage_components \<Rightarrow> effect list \<Rightarrow> tool_loop_error + tool_loop_result \<Rightarrow> bool"
where
  "loop_result_ok u es r =
     (case r of
        Inl e \<Rightarrow> True
      | Inr x \<Rightarrow>
          (is_final x \<longrightarrow> chat_tool_calls (tlr_chat (result_response x)) = [])
          \<and> response_usage_components (tlr_usage (result_response x))
              = fold (\<lambda>c acc. usage_add acc (usage_of c)) (received es) u)"

definition loop_trace_ok ::
  "loop_env \<Rightarrow> nat \<Rightarrow> usage_components \<Rightarrow> effect list \<Rightarrow> loop_outcome \<Rightarrow> bool" where
  "loop_trace_ok env n u tr out \<longleftrightarrow> (\<exists>es. snd out = tr @ es \<and> length (posts es) \<le> n
     \<and> set (executed es) \<subseteq> runnable env \<and> loop_result_ok u es (fst out))"

lemma usage_merge_components:
  "response_usage_components (merge_response_usage u (response_usage_from_chat_usage (jget chat ''usage'')))
     = usage_add (response_usage_components u) (usage_of chat)"
  by (simp add: merge_usage_json from_chat_usage_json usage_of_def)

lemma loop_result_ok_received:
  "received es = received fs \<Longrightarrow> loop_result_ok u es r = loop_result_ok u fs r"
  by (cases r) (simp_all add: loop_result_ok_def)

lemma loop_trace_quiet:
  assumes "quiet (runnable env) tr tr1" and "loop_trace_ok env n u tr1 out"
  shows "loop_trace_ok env n u tr out"
proof -
  from assms obtain es fs where "tr1 = tr @ es" "snd out = tr1 @ fs" "posts es = []" "received es = []"
    "set (executed es) \<subseteq> runnable env" "length (posts fs) \<le> n" "set (executed fs) \<subseteq> runnable env"
    "loop_result_ok u fs (fst out)"
    by (auto simp: quiet_def loop_trace_ok_def)
  moreover from this have "loop_result_ok u (es @ fs) (fst out)"
    using loop_result_ok_received [of "es @ fs" fs] by simp
  ultimately show ?thesis
    unfolding loop_trace_ok_def by (intro exI [of _ "es @ fs"]) auto
qed

lemma loop_trace_error: "quiet (runnable env) tr tr1 \<Longrightarrow> loop_trace_ok env n u tr (Inl e, tr1)"
  by (auto simp: quiet_def loop_trace_ok_def loop_result_ok_def)

lemma loop_trace_client:
  assumes "quiet (runnable env) tr tr1" and "response_usage_components (ls_usage st) = u"
  shows "loop_trace_ok env n u tr (Inr (client_result st), tr1)"
proof (rule loop_trace_quiet [OF assms(1)])
  show "loop_trace_ok env n u tr1 (Inr (client_result st), tr1)"
    using assms(2) by (simp add: loop_trace_ok_def loop_result_ok_def client_result_def)
qed

lemma loop_trace_posted:
  assumes "0 < n" and "quiet {} (tr @ [Posted payload]) tr1" and "executed es = []" and "posts es = []"
    and "loop_result_ok u es r"
  shows "loop_trace_ok env n u tr (r, tr1 @ es)"
proof -
  from assms(2) obtain fs where f: "tr1 = tr @ [Posted payload] @ fs" "posts fs = []" "received fs = []"
    "executed fs = []" by (auto simp: quiet_def)
  then have "loop_result_ok u ([Posted payload] @ fs @ es) r"
    using assms(5) loop_result_ok_received [of "[Posted payload] @ fs @ es" es] by simp
  then show ?thesis
    unfolding loop_trace_ok_def using f assms(1,3,4)
    by (intro exI [of _ "[Posted payload] @ fs @ es"]) simp
qed

lemma loop_trace_recover:
  assumes "0 < n" and "response_usage_components (ls_usage st) = u"
  shows "loop_trace_ok env n u tr (recover_final_response_after_tool_loop_stop env st stop tr)"
proof -
  obtain r tr' where r: "recover_final_response_after_tool_loop_stop env st stop tr = (r, tr')" by fastforce
  have err: "loop_result_ok u es (Inl e)" for es e by (simp add: loop_result_ok_def)
  show ?thesis unfolding r
    using recover_spec [OF r]
  proof (elim disjE exE conjE)
    fix e assume "quiet {} tr tr'" and "r = Inl e"
    then show "loop_trace_ok env n u tr (r, tr')"
      using loop_trace_error [OF quiet_none] by simp
  next
    fix payload tr1 e assume "quiet {} (tr @ [Posted payload]) tr1" "tr' = tr1" "r = Inl e"
    then show "loop_trace_ok env n u tr (r, tr')"
      using loop_trace_posted [OF assms(1), of tr payload tr1 "[]"] err by simp
  next
    fix payload tr1 chat e
    assume "quiet {} (tr @ [Posted payload]) tr1" "tr' = tr1 @ [Received chat]" "r = Inl e"
    then show "loop_trace_ok env n u tr (r, tr')"
      using loop_trace_posted [OF assms(1), of tr payload tr1 "[Received chat]"] err by simp
  next
    fix payload tr1 chat items l
    assume q: "quiet {} (tr @ [Posted payload]) tr1" "tr' = tr1 @ [Received chat, Logged l]"
      and c: "chat_tool_calls chat = []" and r: "r = Inr (FinalChat \<lparr>tlr_chat = chat, tlr_items = items,
                   tlr_usage = merge_response_usage (ls_usage st)
                     (response_usage_from_chat_usage (jget chat ''usage''))\<rparr>)"
    have "loop_result_ok u [Received chat, Logged l] r"
      using c r assms(2) by (simp add: loop_result_ok_def usage_merge_components)
    then show "loop_trace_ok env n u tr (r, tr')"
      using q loop_trace_posted [OF assms(1), of tr payload tr1 "[Received chat, Logged l]"] by simp
  qed
qed

lemma loop_trace_after_round:
  assumes n: "n = 8 - ls_completed st" and "ls_completed st < 8"
    and u: "response_usage_components (ls_usage st) = u"
    and IH: "\<And>st' tr'. ls_completed st' = Suc (ls_completed st) \<Longrightarrow> Suc (ls_completed st) < 8
        \<Longrightarrow> loop_trace_ok env (8 - ls_completed st') (response_usage_components (ls_usage st')) tr'
              (tool_loop env st' tr')"
  shows "loop_trace_ok env n u tr (after_round env st p stop tr)"
proof (rule after_round_cases)
  fix e tr' assume "quiet {} tr tr'"
  then show "loop_trace_ok env n u tr (Inl e, tr')" by (rule loop_trace_error [OF quiet_none])
next
  fix tr' assume "quiet {} tr tr'"
  then show "loop_trace_ok env n u tr (Inr (client_result st), tr')"
    using u by (rule loop_trace_client [OF quiet_none])
next
  fix stop l
  show "loop_trace_ok env n u tr
      (recover_final_response_after_tool_loop_stop env st stop (tr @ [Logged l]))"
    using assms by (intro loop_trace_quiet [OF quiet_log(1) loop_trace_recover]) auto
next
  fix e payload tr1 assume "quiet {} (tr @ [Posted payload]) tr1"
  then show "loop_trace_ok env n u tr (Inl e, tr1)"
    using loop_trace_posted [of n tr payload tr1 "[]" u "Inl e"] assms(1,2)
    by (simp add: loop_result_ok_def)
next
  fix chat payload tr1 l
  assume q: "quiet {} (tr @ [Posted payload]) tr1" and lim: "ls_completed st + 1 < 8"
  let ?tr = "tr1 @ [Received chat, Logged l]" and ?st = "next_state st chat"
  have "loop_trace_ok env (8 - ls_completed ?st) (usage_add u (usage_of chat)) ?tr (tool_loop env ?st ?tr)"
    using IH [of ?st ?tr] lim u by (simp add: next_state_def usage_merge_components)
  then obtain fs where f: "snd (tool_loop env ?st ?tr) = ?tr @ fs"
    "length (posts fs) \<le> 8 - ls_completed ?st" "set (executed fs) \<subseteq> runnable env"
    "loop_result_ok (usage_add u (usage_of chat)) fs (fst (tool_loop env ?st ?tr))"
    by (auto simp: loop_trace_ok_def)
  from q obtain es where e: "tr1 = tr @ [Posted payload] @ es" "posts es = []" "received es = []"
    "executed es = []" by (auto simp: quiet_def)
  show "loop_trace_ok env n u tr (tool_loop env ?st ?tr)"
    unfolding loop_trace_ok_def
  proof (intro exI conjI)
    show "snd (tool_loop env ?st ?tr) = tr @ ([Posted payload] @ es @ [Received chat, Logged l] @ fs)"
      using f(1) e(1) by simp
    show "length (posts ([Posted payload] @ es @ [Received chat, Logged l] @ fs)) \<le> n"
      using f(2) e n lim by (simp add: next_state_def)
    show "set (executed ([Posted payload] @ es @ [Received chat, Logged l] @ fs)) \<subseteq> runnable env"
      using f(3) e by simp
    show "loop_result_ok u ([Posted payload] @ es @ [Received chat, Logged l] @ fs)
        (fst (tool_loop env ?st ?tr))"
      using f(4) e(3) by (simp add: loop_result_ok_def split: sum.splits)
  qed
qed

lemma tool_loop_ok:
  assumes "ls_completed st < 8"
  shows "loop_trace_ok env (8 - ls_completed st) (response_usage_components (ls_usage st)) tr
     (tool_loop env st tr)"
  using assms
proof (induction "8 - ls_completed st" arbitrary: st tr rule: less_induct)
  case less
  show ?case
  proof (rule tool_loop_cases)
    assume "chat_tool_calls (ls_chat st) = []"
    then show "loop_trace_ok env (8 - ls_completed st) (response_usage_components (ls_usage st)) tr
        (Inr (FinalChat \<lparr>tlr_chat = ls_chat st, tlr_items = ls_items st, tlr_usage = ls_usage st\<rparr>), tr)"
      by (simp add: loop_trace_ok_def loop_result_ok_def)
  next
    fix st' :: loop_state and tr'
    assume "quiet (runnable env) tr tr'" "ls_usage st' = ls_usage st"
    then show "loop_trace_ok env (8 - ls_completed st) (response_usage_components (ls_usage st)) tr
        (Inr (client_result st'), tr')"
      by (intro loop_trace_client) auto
  next
    fix st' :: loop_state and p stop tr'
    assume q: "quiet (runnable env) tr tr'" and s: "ls_usage st' = ls_usage st"
      "ls_completed st' = ls_completed st"
    show "loop_trace_ok env (8 - ls_completed st) (response_usage_components (ls_usage st)) tr
        (after_round env st' p stop tr')"
    proof (rule loop_trace_quiet [OF q loop_trace_after_round])
      fix st'' :: loop_state and tr'' assume "ls_completed st'' = Suc (ls_completed st')" "Suc (ls_completed st') < 8"
      then show "loop_trace_ok env (8 - ls_completed st'') (response_usage_components (ls_usage st''))
          tr'' (tool_loop env st'' tr'')"
        using s less.prems by (intro less.hyps) auto
    qed (use s less.prems in auto)
  qed (rule loop_trace_error)
qed

text \<open>C1: the tool loop always ends, whatever the upstream model, the tools and the store answer, and
  sends at most eight requests upstream. It runs only tools that are enabled for the proxy. A final
  answer carries no tool call, and the usage it reports is the saturating sum of the usages of the
  initial response and of every response received.\<close>

theorem tool_loop_bounded_and_safe:
  "let (result, tr) = complete_chat_with_tools env payload chat
   in length (posts tr) \<le> 8
      \<and> set (executed tr) \<subseteq> {c. is_code_tool_executable (tc_name c) (le_enabled env) (le_community env)}
      \<and> (case result of
           Inl e \<Rightarrow> True
         | Inr (FinalChat r) \<Rightarrow> chat_tool_calls (tlr_chat r) = []
             \<and> response_usage_components (tlr_usage r)
                 = fold (\<lambda>c acc. usage_add acc (usage_of c)) (received tr) (usage_of chat)
         | Inr (ClientToolCalls r) \<Rightarrow> response_usage_components (tlr_usage r)
                 = fold (\<lambda>c acc. usage_add acc (usage_of c)) (received tr) (usage_of chat))"
proof -
  let ?st = "\<lparr>ls_completed = 0, ls_diagnostics = no_diagnostics, ls_items = [],
       ls_usage = response_usage_from_chat_usage (jget chat ''usage''), ls_payload = payload,
       ls_chat = chat\<rparr>"
  obtain r tr where out: "tool_loop env ?st [] = (r, tr)" by fastforce
  have "loop_trace_ok env 8 (usage_of chat) [] (r, tr)"
    using tool_loop_ok [of ?st env "[]", unfolded out]
    by (simp add: usage_of_def) (simp add: from_chat_usage_json)
  then show ?thesis
    by (auto simp: complete_chat_with_tools_def out loop_trace_ok_def loop_result_ok_def runnable_def
        split: sum.splits tool_loop_result.splits)
qed

section \<open>Every executed call is answered\<close>

text \<open>The callers of \<open>jset\<close> always have an object.\<close>

lemma chat_tool_calls_object:
  "chat_tool_calls chat \<noteq> [] \<Longrightarrow> \<exists>m. chat_message_value chat = Some (JObj m)"
proof -
  assume "chat_tool_calls chat \<noteq> []"
  then obtain v w where "chat_message_value chat = Some v" "jget v ''tool_calls'' = Some w"
    by (auto simp: chat_tool_calls_def split: option.splits bind_splits)
  then show ?thesis by (cases v) auto
qed

lemma tool_message_sel [simp]:
  "get_str (tool_message env call result) ''tool_call_id'' = Some (tc_id call)"
  "get_str (tool_message env call result) ''role'' = Some ''tool''"
  by (simp_all add: tool_message_def)

lemma collect_results_messages:
  assumes "collect_results env d results tr = (Inr (ms, rs, items), tr')"
  shows "map (\<lambda>m. get_str m ''tool_call_id'') ms = map (\<lambda>r. Some (tc_id (fst r))) results
     \<and> list_all (\<lambda>m. get_str m ''role'' = Some ''tool'') ms \<and> map fst rs = map fst results"
  using assms
proof (induction env d results tr arbitrary: ms rs items tr' rule: collect_results.induct)
  case (2 env d call raw rest tr)
  define w where "w = (case repeated_call_warning d call of
       None \<Rightarrow> (raw, tr) | Some w \<Rightarrow> (attach_tool_loop_warning raw w, tr @ [Logged ''tool_loop_repeated_call'']))"
  obtain result tr1 where w': "w = (result, tr1)" by (cases w)
  let ?f = "tool_fact_line (le_lib env) call result"
  let ?tr2 = "tr1 @ [Stored_Fact ?f, Logged ''tool_result'']"
  obtain c tr3 where c: "collect_results env d rest ?tr2 = (c, tr3)" by fastforce
  note step = "2.prems" [unfolded collect_results.simps w_def [symmetric] w' Let_def prod.case]
  show ?case
  proof (cases "le_store_fact env tr1 ?f")
    case (Some e)
    with step show ?thesis by simp
  next
    case None
    show ?thesis
    proof (cases c)
      case (Inl e)
      with step None c show ?thesis by simp
    next
      case (Inr x)
      obtain ms1 rs1 items1 where x: "x = (ms1, rs1, items1)" by (cases x)
      from "2.IH" [OF w' [unfolded w_def, symmetric] refl refl None refl refl, of ms1 rs1 items1 tr3] c Inr x
      have "map (\<lambda>m. get_str m ''tool_call_id'') ms1 = map (\<lambda>r. Some (tc_id (fst r))) rest
        \<and> list_all (\<lambda>m. get_str m ''role'' = Some ''tool'') ms1 \<and> map fst rs1 = map fst rest" by simp
      moreover from step [unfolded None option.case c Inr x]
      have "ms = tool_message env call result # ms1" "rs = (call, result) # rs1" by simp_all
      ultimately show ?thesis by simp
    qed
  qed
qed simp


end
