(* ===== verification/Stream_Machines.thy ===== *)
theory Stream_Machines
  imports Prelude
begin

text \<open>
  The interface of a text transducer that is fed chunk by chunk and keeps a state between them (the
  stream normaliser of patches, the extractor of a JSON string field, the reader of event frames). A
  machine whose feeding of a concatenation is the feeding of its parts does not depend on where its
  input is cut. The law is asked for the states a machine can rest in (\<open>ok\<close>).
\<close>

fun feed_all :: "('s \<Rightarrow> 'c list \<Rightarrow> 's \<times> 'o list) \<Rightarrow> 's \<Rightarrow> 'c list list \<Rightarrow> 's \<times> 'o list" where
  "feed_all feed s [] = (s, [])"
| "feed_all feed s (c # cs) =
     (let (s, out1) = feed s c; (s, out2) = feed_all feed s cs in (s, out1 @ out2))"

locale stream_machine =
  fixes ok :: "'s \<Rightarrow> bool" and feed :: "'s \<Rightarrow> 'c list \<Rightarrow> 's \<times> 'o list"
  assumes feed_Nil: "ok s \<Longrightarrow> feed s [] = (s, [])"
    and feed_append: "ok s \<Longrightarrow> feed s (a @ b) =
      (let (s1, out1) = feed s a; (s2, out2) = feed s1 b in (s2, out1 @ out2))"
    and feed_ok: "ok s \<Longrightarrow> ok (fst (feed s a))"
begin

lemma feed_all_concat: "ok s \<Longrightarrow> feed_all feed s chunks = feed s (concat chunks)"
  by (induction chunks arbitrary: s) (simp_all add: feed_Nil feed_append feed_ok case_prod_beta)

lemma chunking_irrelevant:
  "ok s \<Longrightarrow> concat chunks = concat chunks' \<Longrightarrow> feed_all feed s chunks = feed_all feed s chunks'"
  by (simp add: feed_all_concat)

end

text \<open>Machines given by a step function on single inputs that appends to an output.\<close>

locale step_machine =
  fixes step :: "'c \<Rightarrow> 's \<times> 'o list \<Rightarrow> 's \<times> 'o list"
  assumes step_output: "step c (s, pre @ out) = (let (s', out') = step c (s, out) in (s', pre @ out'))"
begin

lemma fold_step_output:
  "fold step cs (s, pre @ out) = (let (s', out') = fold step cs (s, out) in (s', pre @ out'))"
proof (induction cs arbitrary: s out)
  case (Cons c cs)
  obtain s1 out1 where "step c (s, out) = (s1, out1)" by fastforce
  then show ?case by (simp add: step_output Cons.IH)
qed simp

lemma fold_step_from:
  "fold step cs (s, pre) = (let (s', out') = fold step cs (s, []) in (s', pre @ out'))"
  using fold_step_output [of cs s pre "[]"] by simp

end

sublocale step_machine \<subseteq> stream_machine "\<lambda>_. True" "\<lambda>s cs. fold step cs (s, [])"
proof
  fix s a b
  show "fold step [] (s, []) = (s, [])" and True by simp_all
  obtain s1 out1 where 1: "fold step a (s, []) = (s1, out1)" by fastforce
  show "fold step (a @ b) (s, []) =
      (let (s1, out1) = fold step a (s, []); (s2, out2) = fold step b (s1, []) in (s2, out1 @ out2))"
    using fold_step_from [of b s1 out1] by (simp add: 1)
qed

end
