(* ===== verification/Patch_Normalize.thy ===== *)
theory Patch_Normalize
  imports Json Stream_Machines
begin

text \<open>
  Normalisation of \<^verbatim>\<open>apply_patch\<close> inputs. The batch routine of
  \<^verbatim>\<open>crates/proxy/src/tools/response_items.rs\<close> repairs a whole patch; the stream normaliser of
  \<^verbatim>\<open>responses/stream_tool_calls/visible_bridge.rs\<close> does it line by line while the patch arrives.
  Both unify line ends, turn unified diff hunk headers into plain ones and give the blank lines of
  a hunk their missing leading space.

  The stream loop runs over characters and only compares them with CR and LF; every other character
  is appended. The bytes of a multi-byte character are neither, so the loop is modelled on bytes.
\<close>

abbreviation CR :: char where "CR \<equiv> CHR 0x0D"
abbreviation LF :: char where "LF \<equiv> CHR 0x0A"

section \<open>Hunk headers\<close>

definition take_ascii_digits :: "string \<Rightarrow> nat \<Rightarrow> nat option" where
  "take_ascii_digits bytes start =
     (let n = start + length (takeWhile ascii_digit (drop start bytes))
      in if n > start then Some n else None)"

definition take_unified_range :: "string \<Rightarrow> (string \<times> string) option" where
  "take_unified_range v =
     (case take_ascii_digits v 0 of
        None \<Rightarrow> None
      | Some n \<Rightarrow>
          (if n < length v \<and> v ! n = CHR '',''
           then map_option (\<lambda>m. (take m v, drop m v)) (take_ascii_digits v (Suc n))
           else Some (take n v, drop n v)))"

definition normalize_unified_hunk_header :: "string \<Rightarrow> string option" where
  "normalize_unified_hunk_header line =
     (case strip_prefix ''@@ -'' line of
        None \<Rightarrow> None
      | Some r1 \<Rightarrow>
     (case take_unified_range r1 of
        None \<Rightarrow> None
      | Some (_, r2) \<Rightarrow>
     (case strip_prefix '' +'' r2 of
        None \<Rightarrow> None
      | Some r3 \<Rightarrow>
     (case take_unified_range r3 of
        None \<Rightarrow> None
      | Some (_, r4) \<Rightarrow>
     (case strip_prefix '' @@'' r4 of
        None \<Rightarrow> None
      | Some r5 \<Rightarrow>
          (let tail = trim_start r5
           in Some (if tail = [] then ''@@'' else ''@@ '' @ tail)))))))"

definition normalize_patch_line :: "string \<Rightarrow> string" where
  "normalize_patch_line line = unwrap_or line (normalize_unified_hunk_header line)"

section \<open>The batch routine\<close>

definition unify_newlines :: "string \<Rightarrow> string" where
  "unify_newlines v = replace1 CR [LF] (replace2 CR LF [LF] v)"

definition normalize_unified_hunk_headers_with_count :: "string \<Rightarrow> string \<times> nat" where
  "normalize_unified_hunk_headers_with_count v =
     (join [LF] (map normalize_patch_line (split_char LF v)),
      length (filter (\<lambda>l. normalize_unified_hunk_header l \<noteq> None) (split_char LF v)))"

record hunk_blank_repair =
  hb_blank_lines :: "nat list"
  hb_unprefixed :: bool

definition new_repair :: hunk_blank_repair where
  "new_repair = \<lparr>hb_blank_lines = [], hb_unprefixed = False\<rparr>"

fun blank_out :: "nat list \<Rightarrow> string list \<times> nat \<Rightarrow> string list \<times> nat" where
  "blank_out [] st = st"
| "blank_out (i # is) (lines, repaired) =
     blank_out is (if lines ! i = [] then (lines[i := '' ''], Suc repaired) else (lines, repaired))"

definition finish_hunk_blank_repair ::
  "string list \<Rightarrow> hunk_blank_repair option \<Rightarrow> string list \<times> nat" where
  "finish_hunk_blank_repair lines repair =
     (case repair of
        None \<Rightarrow> (lines, 0)
      | Some r \<Rightarrow> if hb_unprefixed r then (lines, 0) else blank_out (hb_blank_lines r) (lines, 0))"

definition unprefixed :: "string \<Rightarrow> bool" where
  "unprefixed line \<longleftrightarrow> line \<noteq> [] \<and> hd line \<notin> {CHR '' '', CHR ''+'', CHR ''-''}"

record repair_state =
  rs_lines :: "string list"
  rs_in_update :: bool
  rs_repair :: "hunk_blank_repair option"
  rs_repaired :: nat

definition close_hunk :: "repair_state \<Rightarrow> repair_state" where
  "close_hunk st =
     (case finish_hunk_blank_repair (rs_lines st) (rs_repair st) of
        (lines, n) \<Rightarrow> st\<lparr>rs_lines := lines, rs_repair := None, rs_repaired := rs_repaired st + n\<rparr>)"

definition ends_update :: "string \<Rightarrow> bool" where
  "ends_update line = (starts_with line ''*** Add File: '' \<or> starts_with line ''*** Delete File: ''
     \<or> starts_with line ''*** End Patch'')"

definition repair_line :: "nat \<Rightarrow> repair_state \<Rightarrow> repair_state" where
  "repair_line index st =
     (let line = rs_lines st ! index
      in if starts_with line ''*** Update File: '' then (close_hunk st)\<lparr>rs_in_update := True\<rparr>
         else if ends_update line then (close_hunk st)\<lparr>rs_in_update := False\<rparr>
         else if starts_with line ''*** Move to: '' then close_hunk st
         else if rs_in_update st \<and> starts_with line ''@@'' then (close_hunk st)\<lparr>rs_repair := Some new_repair\<rparr>
         else (case rs_repair st of
             None \<Rightarrow> st
           | Some r \<Rightarrow>
               if line = [] then st\<lparr>rs_repair := Some (r\<lparr>hb_blank_lines := hb_blank_lines r @ [index]\<rparr>)\<rparr>
               else if unprefixed line then st\<lparr>rs_repair := Some (r\<lparr>hb_unprefixed := True\<rparr>)\<rparr>
               else st))"

definition repair_update_hunk_blank_context_lines_with_count :: "string \<Rightarrow> string \<times> nat" where
  "repair_update_hunk_blank_context_lines_with_count v =
     (let lines = split_char LF v;
          st = close_hunk (fold repair_line [0..<length lines]
            \<lparr>rs_lines = lines, rs_in_update = False, rs_repair = None, rs_repaired = 0\<rparr>)
      in (join [LF] (rs_lines st), rs_repaired st))"

record apply_patch_input_normalization =
  ap_input :: string
  ap_input_chars :: nat
  ap_headers_repaired :: nat
  ap_blanks_repaired :: nat

definition normalize_patch_newlines_with_diagnostic :: "string \<Rightarrow> apply_patch_input_normalization" where
  "normalize_patch_newlines_with_diagnostic v =
     (case normalize_unified_hunk_headers_with_count (unify_newlines v) of
        (normalized, headers) \<Rightarrow>
          (case repair_update_hunk_blank_context_lines_with_count normalized of
             (input, blanks) \<Rightarrow> \<lparr>ap_input = input, ap_input_chars = char_count input,
                ap_headers_repaired = headers, ap_blanks_repaired = blanks\<rparr>))"

definition normalize_patch_newlines :: "string \<Rightarrow> string" where
  "normalize_patch_newlines v = ap_input (normalize_patch_newlines_with_diagnostic v)"

definition normalize_apply_patch_response_input_with_diagnostic ::
  "ext_lib \<Rightarrow> string \<Rightarrow> apply_patch_input_normalization" where
  "normalize_apply_patch_response_input_with_diagnostic L arguments =
     (case json_from_str L arguments of
        None \<Rightarrow> normalize_patch_newlines_with_diagnostic arguments
      | Some v \<Rightarrow>
          (case get_str v ''patch'' of
             Some patch \<Rightarrow> normalize_patch_newlines_with_diagnostic patch
           | None \<Rightarrow>
               (case get_str v ''input'' of
                  Some input \<Rightarrow> normalize_patch_newlines_with_diagnostic input
                | None \<Rightarrow> normalize_patch_newlines_with_diagnostic arguments)))"

section \<open>The stream normaliser\<close>

record stream_hunk_buffer =
  sh_lines :: "string list"
  sh_blank_lines :: "nat list"
  sh_unprefixed :: bool

record patch_stream_normalizer =
  ps_line :: string
  ps_pending_cr :: bool
  ps_in_update :: bool
  ps_hunk :: "stream_hunk_buffer option"

definition new_normalizer :: patch_stream_normalizer where
  "new_normalizer = \<lparr>ps_line = [], ps_pending_cr = False, ps_in_update = False, ps_hunk = None\<rparr>"

definition repaired_hunk :: "stream_hunk_buffer \<Rightarrow> string list" where
  "repaired_hunk h =
     (if sh_unprefixed h then sh_lines h
      else fold (\<lambda>i ls. ls[i := '' '']) (sh_blank_lines h) (sh_lines h))"

definition with_newlines :: "string list \<Rightarrow> string" where
  "with_newlines ls = concat (map (\<lambda>l. l @ [LF]) ls)"

definition flush_hunk_buffer ::
  "patch_stream_normalizer \<times> string \<Rightarrow> patch_stream_normalizer \<times> string" where
  "flush_hunk_buffer so =
     (case so of (s, output) \<Rightarrow>
        (case ps_hunk s of
           None \<Rightarrow> (s, output)
         | Some h \<Rightarrow> (s\<lparr>ps_hunk := None\<rparr>, output @ with_newlines (repaired_hunk h))))"

definition handle_boundary_line ::
  "string \<Rightarrow> patch_stream_normalizer \<times> string \<Rightarrow> (patch_stream_normalizer \<times> string) option" where
  "handle_boundary_line line so =
     (case flush_hunk_buffer so of (s, output) \<Rightarrow>
        if starts_with line ''*** Update File: '' then
          Some (s\<lparr>ps_in_update := True\<rparr>, output @ line @ [LF])
        else if ends_update line then Some (s\<lparr>ps_in_update := False\<rparr>, output @ line @ [LF])
        else if starts_with line ''*** Move to: '' then Some (s, output @ line @ [LF])
        else if ps_in_update (fst so) \<and> starts_with line ''@@'' then
          Some (s\<lparr>ps_hunk := Some \<lparr>sh_lines = [line], sh_blank_lines = [], sh_unprefixed = False\<rparr>\<rparr>, output)
        else None)"

definition push_line :: "patch_stream_normalizer \<times> string \<Rightarrow> patch_stream_normalizer \<times> string" where
  "push_line so =
     (let line = normalize_patch_line (ps_line (fst so))
      in case handle_boundary_line line so of
           Some so' \<Rightarrow> so'
         | None \<Rightarrow>
             (case so of (s, output) \<Rightarrow>
                (case ps_hunk s of
                   None \<Rightarrow> (s, output @ line @ [LF])
                 | Some h \<Rightarrow>
                     (s\<lparr>ps_hunk := Some \<lparr>sh_lines = sh_lines h @ [line],
                          sh_blank_lines = (if line = [] then sh_blank_lines h @ [length (sh_lines h)]
                                            else sh_blank_lines h),
                          sh_unprefixed = (sh_unprefixed h \<or> unprefixed line)\<rparr>\<rparr>, output))))"

definition flush_line :: "patch_stream_normalizer \<times> string \<Rightarrow> patch_stream_normalizer \<times> string" where
  "flush_line so = (case push_line so of (s, output) \<Rightarrow> (s\<lparr>ps_line := []\<rparr>, output))"

definition feed_byte ::
  "char \<Rightarrow> patch_stream_normalizer \<times> string \<Rightarrow> patch_stream_normalizer \<times> string" where
  "feed_byte c so =
     (case so of (s, output) \<Rightarrow>
        if ps_pending_cr s \<and> c = LF then (s\<lparr>ps_pending_cr := False\<rparr>, output)
        else
          (let s = s\<lparr>ps_pending_cr := False\<rparr>
           in if c = CR then
                (case flush_line (s, output) of (s, output) \<Rightarrow> (s\<lparr>ps_pending_cr := True\<rparr>, output))
              else if c = LF then flush_line (s, output)
              else (s\<lparr>ps_line := ps_line s @ [c]\<rparr>, output)))"

definition patch_feed ::
  "patch_stream_normalizer \<Rightarrow> string \<Rightarrow> patch_stream_normalizer \<times> string" where
  "patch_feed s chunk = fold feed_byte chunk (s, [])"

definition patch_finish :: "patch_stream_normalizer \<Rightarrow> string" where
  "patch_finish s =
     (if ps_line s = [] then snd (flush_hunk_buffer (s, []))
      else
        (let output = snd (push_line (s, []))
         in if output \<noteq> [] \<and> last output = LF then butlast output else output))"

text \<open>The state that the end of a stream leaves behind.\<close>

definition patch_finished :: "patch_stream_normalizer \<Rightarrow> patch_stream_normalizer" where
  "patch_finished s =
     (if ps_line s = [] then fst (flush_hunk_buffer (s, []))
      else (fst (push_line (s, [])))\<lparr>ps_line := []\<rparr>)"

section \<open>From bytes to lines\<close>

text \<open>Line ends as the stream sees them; \<open>p\<close> tells whether the last byte was a CR.\<close>

fun nl_norm :: "bool \<Rightarrow> string \<Rightarrow> string" where
  "nl_norm p [] = []"
| "nl_norm p (c # cs) =
     (if p \<and> c = LF then nl_norm False cs
      else if c = CR then LF # nl_norm True cs
      else c # nl_norm False cs)"

lemma unify_newlines_Cons:
  "unify_newlines (c # cs) =
     (if c = CR then LF # (case cs of d # ds \<Rightarrow> if d = LF then unify_newlines ds else unify_newlines cs
                           | [] \<Rightarrow> [])
      else c # unify_newlines cs)"
  by (cases cs) (auto simp: unify_newlines_def replace1_def)

lemma nl_norm_unify: "nl_norm False t = unify_newlines t
   \<and> nl_norm True t = (case t of d # ds \<Rightarrow> if d = LF then unify_newlines ds else unify_newlines t | [] \<Rightarrow> [])"
proof (induction t)
  case Nil
  show ?case by (simp add: unify_newlines_def replace1_def)
next
  case (Cons c cs)
  then show ?case by (auto simp: unify_newlines_Cons [of c cs])
qed

text \<open>Appending to the current line, and feeding the pieces between the line ends.\<close>

definition extend_line ::
  "string \<Rightarrow> patch_stream_normalizer \<times> string \<Rightarrow> patch_stream_normalizer \<times> string" where
  "extend_line l so = ((fst so)\<lparr>ps_line := ps_line (fst so) @ l\<rparr>, snd so)"

fun feed_lines :: "string list \<Rightarrow> patch_stream_normalizer \<times> string \<Rightarrow> patch_stream_normalizer \<times> string"
where
  "feed_lines [] so = so"
| "feed_lines [r] so = extend_line r so"
| "feed_lines (l # m # ls) so = feed_lines (m # ls) (flush_line (extend_line l so))"

definition clear_cr :: "patch_stream_normalizer \<times> string \<Rightarrow> patch_stream_normalizer \<times> string" where
  "clear_cr so = ((fst so)\<lparr>ps_pending_cr := False\<rparr>, snd so)"

lemma push_line_cr:
  "push_line ((fst so)\<lparr>ps_pending_cr := b\<rparr>, snd so) =
     ((fst (push_line so))\<lparr>ps_pending_cr := b\<rparr>, snd (push_line so))"
  by (cases so) (auto simp: push_line_def handle_boundary_line_def flush_hunk_buffer_def Let_def
      split: option.splits prod.splits)

lemma flush_line_cr_False [simp]:
  assumes "\<not> ps_pending_cr (fst so)"
  shows "clear_cr (flush_line so) = flush_line so" and "\<not> ps_pending_cr (fst (flush_line so))"
proof -
  from assms have so: "((fst so)\<lparr>ps_pending_cr := False\<rparr>, snd so) = so" by (cases so) simp
  have "fst (push_line so) = (fst (push_line so))\<lparr>ps_pending_cr := False\<rparr>"
    using push_line_cr [where so = so and b = False] unfolding so by (metis fst_conv)
  then have "\<not> ps_pending_cr (fst (push_line so))"
    by (metis patch_stream_normalizer.select_convs(2) patch_stream_normalizer.surjective
        patch_stream_normalizer.update_convs(2))
  then show "clear_cr (flush_line so) = flush_line so" and "\<not> ps_pending_cr (fst (flush_line so))"
    by (simp_all add: clear_cr_def flush_line_def case_prod_beta)
qed

lemma feed_lines_Cons:
  "ls \<noteq> [] \<Longrightarrow> feed_lines (l # ls) so = feed_lines ls (flush_line (extend_line l so))"
  by (cases ls) simp_all

lemma feed_lines_extend:
  "ls \<noteq> [] \<Longrightarrow> feed_lines ((l @ hd ls) # tl ls) so = feed_lines ls (extend_line l so)"
  by (cases ls; cases "tl ls") (auto simp: extend_line_def feed_lines_Cons)

lemma extend_Nil [simp]: "extend_line [] so = so"
  by (cases so) (simp add: extend_line_def)

lemma feed_bytes_lines:
  "clear_cr (fold feed_byte t so) =
     feed_lines (split_char LF (nl_norm (ps_pending_cr (fst so)) t)) (clear_cr so)"
proof (induction t arbitrary: so)
  case Nil
  show ?case by simp
next
  case (Cons c cs)
  obtain s out where so: "so = (s, out)" by (cases so)
  let ?s = "s\<lparr>ps_pending_cr := False\<rparr>" and ?f = "flush_line (clear_cr so)"
  have cl: "clear_cr so = (?s, out)" and ncr: "\<not> ps_pending_cr (fst (clear_cr so))"
    by (simp_all add: so clear_cr_def)
  let ?l = "split_char LF (nl_norm (ps_pending_cr (fst so)) (c # cs))"
  consider (lf) "ps_pending_cr s" "c = LF" | (cr) "c = CR" | (nl) "c = LF" "\<not> ps_pending_cr s"
    | (other) "c \<noteq> CR" "c \<noteq> LF" by blast
  then show ?case
  proof cases
    case lf
    then have "feed_byte c so = clear_cr so" by (simp add: so feed_byte_def clear_cr_def)
    then show ?thesis using lf Cons.IH [of "clear_cr so"] ncr by (simp add: so clear_cr_def)
  next
    case cr
    then have b: "feed_byte c so = ((fst ?f)\<lparr>ps_pending_cr := True\<rparr>, snd ?f)"
      by (simp add: so feed_byte_def cl [unfolded so] case_prod_beta Let_def)
    have "clear_cr ((fst ?f)\<lparr>ps_pending_cr := True\<rparr>, snd ?f) = ?f"
      using flush_line_cr_False(1) [OF ncr] by (simp add: clear_cr_def)
    with Cons.IH [of "feed_byte c so"] b cr show ?thesis
      by (simp add: so feed_lines_Cons)
  next
    case nl
    then have b: "feed_byte c so = ?f" by (simp add: so feed_byte_def cl [unfolded so])
    with Cons.IH [of ?f] nl flush_line_cr_False [OF ncr] show ?thesis
      by (simp add: so feed_lines_Cons)
  next
    case other
    then have b: "feed_byte c so = extend_line [c] (clear_cr so)"
      by (simp add: so feed_byte_def extend_line_def clear_cr_def)
    have "clear_cr (extend_line [c] (clear_cr so)) = extend_line [c] (clear_cr so)"
      by (simp add: extend_line_def clear_cr_def)
    moreover have "\<not> ps_pending_cr (fst (extend_line [c] (clear_cr so)))"
      by (simp add: extend_line_def clear_cr_def)
    moreover have "?l = ([c] @ hd (split_char LF (nl_norm False cs))) # tl (split_char LF (nl_norm False cs))"
      using other split_char_nonempty [of LF "nl_norm False cs"]
      by (cases "split_char LF (nl_norm False cs)") (auto simp: so)
    moreover have "feed_lines ?l (clear_cr so) =
        feed_lines (split_char LF (nl_norm False cs)) (extend_line [c] (clear_cr so))"
      unfolding calculation(3) by (rule feed_lines_extend) simp
    ultimately show ?thesis
      using Cons.IH [of "extend_line [c] (clear_cr so)"] by (simp add: b)
  qed
qed

section \<open>The stream simulates the batch routine\<close>

text \<open>
  \<open>sim L i s X st\<close>: after \<open>i\<close> of the lines \<open>L\<close>, the stream is in state \<open>s\<close> and has emitted the lines
  \<open>X\<close>, and the batch routine is in state \<open>st\<close>: its array starts with the emitted lines, then come the
  buffered ones, then the rest.
\<close>

definition hunk_ok :: "stream_hunk_buffer \<Rightarrow> bool" where
  "hunk_ok h = (\<forall>b \<in> set (sh_blank_lines h). b < length (sh_lines h) \<and> sh_lines h ! b = [])"

definition sim ::
  "string list \<Rightarrow> nat \<Rightarrow> patch_stream_normalizer \<Rightarrow> string list \<Rightarrow> repair_state \<Rightarrow> bool" where
  "sim L i s X st \<longleftrightarrow> rs_in_update st = ps_in_update s \<and>
     (case ps_hunk s of
        None \<Rightarrow> rs_repair st = None \<and> rs_lines st = X @ drop i L \<and> length X = i
      | Some h \<Rightarrow>
          rs_repair st = Some \<lparr>hb_blank_lines = map ((+) (length X)) (sh_blank_lines h),
              hb_unprefixed = sh_unprefixed h\<rparr>
          \<and> rs_lines st = X @ sh_lines h @ drop i L \<and> length X + length (sh_lines h) = i \<and> hunk_ok h)"

lemma blank_out_repairs:
  assumes "\<forall>b \<in> set bs. b < length H \<and> H ! b \<in> {[], '' ''}"
  shows "fst (blank_out (map ((+) (length X)) bs) (X @ H @ D, n)) = X @ fold (\<lambda>i ls. ls[i := '' '']) bs H @ D"
  using assms
proof (induction bs arbitrary: H n)
  case (Cons b bs)
  then have b: "b < length H" "H ! b \<in> {[], '' ''}" by auto
  have nth: "(X @ H @ D) ! (length X + b) = H ! b" using b(1) by (simp add: nth_append)
  have upd: "(X @ H @ D)[length X + b := '' ''] = X @ H[b := '' ''] @ D"
    using b(1) by (simp add: list_update_append)
  have pre: "\<forall>c \<in> set bs. c < length (H[b := '' '']) \<and> H[b := '' ''] ! c \<in> {[], '' ''}"
    using Cons.prems by (auto simp: nth_list_update)
  show ?case
  proof (cases "H ! b = []")
    case True
    then show ?thesis using Cons.IH [OF pre] nth upd by simp
  next
    case False
    then have "H[b := '' ''] = H" using b by (metis insertE list_update_id singletonD)
    then show ?thesis using Cons.IH [of H n] Cons.prems nth False by simp
  qed
qed simp

lemma sim_close:
  assumes "sim L i s X st"
  obtains X' where "flush_hunk_buffer (s, with_newlines X) = (s\<lparr>ps_hunk := None\<rparr>, with_newlines X')"
    and "rs_lines (close_hunk st) = X' @ drop i L" and "length X' = i"
    and "rs_in_update (close_hunk st) = ps_in_update s" and "rs_repair (close_hunk st) = None"
    and "prefix X X'"
proof (cases "ps_hunk s")
  case None
  with assms show thesis
    by (intro that [of X]) (auto simp: sim_def flush_hunk_buffer_def close_hunk_def finish_hunk_blank_repair_def)
next
  case (Some h)
  with assms have st: "rs_in_update st = ps_in_update s"
      "rs_repair st = Some \<lparr>hb_blank_lines = map ((+) (length X)) (sh_blank_lines h),
        hb_unprefixed = sh_unprefixed h\<rparr>"
      "rs_lines st = X @ sh_lines h @ drop i L" "length X + length (sh_lines h) = i"
    and ok: "hunk_ok h" by (auto simp: sim_def)
  have len: "length (fold (\<lambda>i ls. ls[i := '' '']) bs H) = length H" for bs and H :: "string list"
    by (induction bs arbitrary: H) auto
  have "rs_lines (close_hunk st) = X @ repaired_hunk h @ drop i L"
    using st ok blank_out_repairs [of "sh_blank_lines h" "sh_lines h" X "drop i L" 0]
    by (auto simp: close_hunk_def finish_hunk_blank_repair_def repaired_hunk_def hunk_ok_def case_prod_beta)
  moreover have "length (X @ repaired_hunk h) = i" using st(4) by (simp add: repaired_hunk_def len)
  ultimately show thesis using Some st
    by (intro that [of "X @ repaired_hunk h"])
      (auto simp: flush_hunk_buffer_def with_newlines_def close_hunk_def case_prod_beta)
qed

lemma with_newlines_snoc: "with_newlines X @ l @ [LF] = with_newlines (X @ [l])"
  by (simp add: with_newlines_def)

lemma sim_step:
  assumes "sim L i s X st" and "i < length L" and "L ! i = normalize_patch_line (ps_line s)"
  obtains s' X' where "push_line (s, with_newlines X) = (s', with_newlines X')"
    and "sim L (Suc i) s' X' (repair_line i st)" and "prefix X X'"
proof -
  define line where "line = L ! i"
  have dr: "drop i L = line # drop (Suc i) L" using assms(2) by (simp add: line_def Cons_nth_drop_Suc)
  have lines: "rs_lines st ! i = line"
    using assms(1) dr by (auto simp: sim_def nth_append split: option.splits)
  obtain X' where fl: "flush_hunk_buffer (s, with_newlines X) = (s\<lparr>ps_hunk := None\<rparr>, with_newlines X')"
    and c: "rs_lines (close_hunk st) = X' @ drop i L" "length X' = i"
      "rs_in_update (close_hunk st) = ps_in_update s" "rs_repair (close_hunk st) = None"
    and pre: "prefix X X'"
    by (rule sim_close [OF assms(1)])
  have closed: "sim L (Suc i) (s\<lparr>ps_hunk := None, ps_in_update := b\<rparr>) (X' @ [line])
      ((close_hunk st)\<lparr>rs_in_update := b\<rparr>)" for b
    using c dr by (simp add: sim_def)
  have inup: "rs_in_update st = ps_in_update s" using assms(1) by (simp add: sim_def)
  note push = push_line_def Let_def assms(3) [symmetric] line_def [symmetric] handle_boundary_line_def fl
    with_newlines_snoc
  note rep = repair_line_def lines Let_def prefix_prefix [OF pre] pre
  consider (update) "starts_with line ''*** Update File: ''"
    | (ends) "\<not> starts_with line ''*** Update File: ''" "ends_update line"
    | (move) "\<not> starts_with line ''*** Update File: ''" "\<not> ends_update line"
        "starts_with line ''*** Move to: ''"
    | (hunk) "\<not> starts_with line ''*** Update File: ''" "\<not> ends_update line"
        "\<not> starts_with line ''*** Move to: ''" "ps_in_update s \<and> starts_with line ''@@''"
    | (plain) "\<not> starts_with line ''*** Update File: ''" "\<not> ends_update line"
        "\<not> starts_with line ''*** Move to: ''" "\<not> (ps_in_update s \<and> starts_with line ''@@'')"
    by blast
  then show thesis
  proof cases
    case update
    show thesis by (rule that [of "s\<lparr>ps_hunk := None, ps_in_update := True\<rparr>" "X' @ [line]"])
      (use closed [of True] in \<open>simp_all add: push rep update\<close>)
  next
    case ends
    show thesis by (rule that [of "s\<lparr>ps_hunk := None, ps_in_update := False\<rparr>" "X' @ [line]"])
      (use closed [of False] in \<open>simp_all add: push rep ends\<close>)
  next
    case move
    have "sim L (Suc i) (s\<lparr>ps_hunk := None\<rparr>) (X' @ [line]) (close_hunk st)"
      using c dr by (simp add: sim_def)
    then show thesis by (intro that [of "s\<lparr>ps_hunk := None\<rparr>" "X' @ [line]"]) (simp_all add: push rep move)
  next
    case hunk
    let ?h = "\<lparr>sh_lines = [line], sh_blank_lines = [], sh_unprefixed = False\<rparr>"
    have "sim L (Suc i) (s\<lparr>ps_hunk := Some ?h\<rparr>) X' ((close_hunk st)\<lparr>rs_repair := Some new_repair\<rparr>)"
      using c dr by (simp add: sim_def new_repair_def hunk_ok_def)
    then show thesis
      by (intro that [of "s\<lparr>ps_hunk := Some ?h\<rparr>" X']) (use hunk inup in \<open>simp_all add: push rep\<close>)
  next
    case plain
    show thesis
    proof (cases "ps_hunk s")
      case None
      then have "sim L (Suc i) s (X @ [line]) st" using assms(1) dr by (simp add: sim_def)
      with None plain inup assms(1) show thesis
        by (intro that [of s "X @ [line]"]) (auto simp: push rep sim_def)
    next
      case (Some h)
      let ?h = "\<lparr>sh_lines = sh_lines h @ [line],
         sh_blank_lines = (if line = [] then sh_blank_lines h @ [length (sh_lines h)] else sh_blank_lines h),
         sh_unprefixed = (sh_unprefixed h \<or> unprefixed line)\<rparr>"
      have r: "rs_repair st = Some \<lparr>hb_blank_lines = map ((+) (length X)) (sh_blank_lines h),
            hb_unprefixed = sh_unprefixed h\<rparr>"
        and l: "rs_lines st = X @ sh_lines h @ drop i L" "length X + length (sh_lines h) = i" "hunk_ok h"
        using assms(1) Some by (simp_all add: sim_def)
      have "hunk_ok ?h" using l(3) by (auto simp: hunk_ok_def nth_append)
      moreover have "repair_line i st = st\<lparr>rs_repair := Some
          \<lparr>hb_blank_lines = map ((+) (length X)) (sh_blank_lines ?h), hb_unprefixed = sh_unprefixed ?h\<rparr>\<rparr>"
        using plain inup r l(2) by (auto simp: rep unprefixed_def)
      ultimately have "sim L (Suc i) (s\<lparr>ps_hunk := Some ?h\<rparr>) X (repair_line i st)"
        using l inup dr by (simp add: sim_def)
      moreover have "push_line (s, with_newlines X) = (s\<lparr>ps_hunk := Some ?h\<rparr>, with_newlines X)"
        using plain Some by (auto simp: push)
      ultimately show thesis by (intro that [rotated]) simp_all
    qed
  qed
qed

section \<open>Chunks do not matter\<close>

lemma flush_hunk_output:
  "flush_hunk_buffer (s, pre @ out) =
     (fst (flush_hunk_buffer (s, out)), pre @ snd (flush_hunk_buffer (s, out)))"
  by (simp add: flush_hunk_buffer_def split: option.split)

lemma push_line_output:
  "push_line (s, pre @ out) = (fst (push_line (s, out)), pre @ snd (push_line (s, out)))"
  by (simp add: push_line_def handle_boundary_line_def flush_hunk_output Let_def case_prod_beta
      split: option.split)

lemma feed_byte_output:
  "feed_byte c (s, pre @ out) = (let (s', out') = feed_byte c (s, out) in (s', pre @ out'))"
  by (simp add: feed_byte_def flush_line_def push_line_output Let_def case_prod_beta)

interpretation patch_bytes: step_machine feed_byte
  by unfold_locales (rule feed_byte_output)

lemma patch_feed_all: "feed_all patch_feed s chunks = fold feed_byte (concat chunks) (s, [])"
  using patch_bytes.feed_all_concat [of s chunks] by (simp add: patch_feed_def [abs_def])

text \<open>A patch streamed in chunks, with what the end of the stream adds.\<close>

definition patch_stream :: "string list \<Rightarrow> string" where
  "patch_stream chunks = (case feed_all patch_feed new_normalizer chunks of (s, out) \<Rightarrow> out @ patch_finish s)"

section \<open>Stream and batch agree\<close>

lemma sim_ps_line: "sim L i (s\<lparr>ps_line := l\<rparr>) X st = sim L i s X st"
  by (simp add: sim_def)

lemma sim_feed_lines:
  assumes "sim L i s X st" and "ps_line s = []"
    and "drop i L = map normalize_patch_line (ls @ rest)" and "i \<le> length L"
  obtains s' X' where "feed_lines (ls @ [r]) (s, with_newlines X) = (s'\<lparr>ps_line := r\<rparr>, with_newlines X')"
    and "sim L (i + length ls) s' X' (fold repair_line [i..<i + length ls] st)"
  using assms
proof (induction ls arbitrary: i s X st thesis)
  case Nil
  then show ?case by (intro Nil.prems(1) [of s X]) (simp_all add: extend_line_def)
next
  case (Cons l ls)
  let ?s = "s\<lparr>ps_line := l\<rparr>"
  have i: "i < length L" using Cons.prems(4,5) by (cases "i < length L") simp_all
  have "L ! i = hd (drop i L)" using i by (simp add: hd_drop_conv_nth)
  then have nth: "L ! i = normalize_patch_line (ps_line ?s)" using Cons.prems(4) by simp
  have "sim L i ?s X st" using Cons.prems(2) by (simp add: sim_ps_line)
  then obtain s1 X1 where p: "push_line (?s, with_newlines X) = (s1, with_newlines X1)"
    and m: "sim L (Suc i) s1 X1 (repair_line i st)"
    using i nth by (rule sim_step)
  let ?s1 = "s1\<lparr>ps_line := []\<rparr>"
  have fl: "flush_line (extend_line l (s, with_newlines X)) = (?s1, with_newlines X1)"
    using Cons.prems(3) p by (simp add: flush_line_def extend_line_def)
  have "drop (Suc i) L = map normalize_patch_line (ls @ rest)"
    using Cons.prems(4) i by (metis append_Cons drop_Suc list.sel(3) list.simps(9) tl_drop)
  from Cons.IH [OF _ _ _ this, of ?s1 X1 "repair_line i st"] m i
  obtain s' X' where "feed_lines (ls @ [r]) (?s1, with_newlines X1) = (s'\<lparr>ps_line := r\<rparr>, with_newlines X')"
    "sim L (Suc i + length ls) s' X' (fold repair_line [Suc i..<Suc i + length ls] (repair_line i st))"
    by (auto simp: sim_ps_line)
  then show ?case
    by (intro Cons.prems(1) [of s' X']) (simp_all add: feed_lines_Cons fl upt_conv_Cons del: upt_Suc)
qed

lemma feed_lines_snoc:
  "feed_lines (ls @ [l, r]) so = extend_line r (flush_line (feed_lines (ls @ [l]) so))"
proof (induction ls arbitrary: so)
  case (Cons a as)
  then show ?case by (simp add: feed_lines_Cons)
qed simp

lemma join_Cons: "ls \<noteq> [] \<Longrightarrow> join sep (l # ls) = l @ sep @ join sep ls"
  by (cases ls) simp_all

lemma split_char_join:
  "ls \<noteq> [] \<Longrightarrow> \<forall>l \<in> set ls. d \<notin> set l \<Longrightarrow> split_char d (join [d] ls) = ls"
proof (induction ls)
  case (Cons l ls)
  have pre: "d \<notin> set l \<Longrightarrow> split_char d (l @ t) = (l @ hd (split_char d t)) # tl (split_char d t)" for l t
  proof (induction l)
    case Nil
    show ?case by simp
  next
    case (Cons a l)
    then show ?case by (auto split: list.splits)
  qed
  show ?case
  proof (cases "ls = []")
    case True
    then show ?thesis using Cons.prems pre [of l "[]"] by simp
  next
    case False
    then have "join [d] (l # ls) = l @ d # join [d] ls" by (simp add: join_Cons)
    then show ?thesis using Cons False pre [of l "d # join [d] ls"] by simp
  qed
qed simp

lemma join_with_newlines: "join [LF] (X @ [[]]) = with_newlines X"
  by (induction X) (simp_all add: with_newlines_def join_Cons)

lemma butlast_with_newlines: "X \<noteq> [] \<Longrightarrow> butlast (with_newlines X) = join [LF] X"
proof (induction X)
  case (Cons l X)
  then show ?case
    by (cases "X = []") (auto simp: with_newlines_def join_Cons butlast_append split: if_splits)
qed simp

lemma normalize_patch_line_LF: "LF \<notin> set l \<Longrightarrow> LF \<notin> set (normalize_patch_line l)"
proof -
  assume l: "LF \<notin> set l"
  have tr: "set (trim_start s) \<subseteq> set s" for s
  proof -
    have "set (concat (dropWhile is_whitespace (chars s))) \<subseteq> set (concat (chars s))"
      unfolding set_concat by (meson UN_mono order_refl set_dropWhileD subsetI)
    then show ?thesis by (simp only: trim_start_def concat_chars)
  qed
  have rng: "take_unified_range r = Some (x, y) \<Longrightarrow> set y \<subseteq> set r" for r x y
    by (auto simp: take_unified_range_def split: option.splits if_splits dest: in_set_dropD)
  show ?thesis
  proof (cases "normalize_unified_hunk_header l")
    case None
    with l show ?thesis by (simp add: normalize_patch_line_def)
  next
    case (Some h)
    then obtain r1 x1 r2 r3 x2 r4 r5 where r: "strip_prefix ''@@ -'' l = Some r1"
      "take_unified_range r1 = Some (x1, r2)" "strip_prefix '' +'' r2 = Some r3"
      "take_unified_range r3 = Some (x2, r4)" "strip_prefix '' @@'' r4 = Some r5"
      and h: "h = (if trim_start r5 = [] then ''@@'' else ''@@ '' @ trim_start r5)"
      unfolding normalize_unified_hunk_header_def Let_def
      by (auto split: option.splits prod.splits simp del: append_Cons)
    have "strip_prefix p s = Some q \<Longrightarrow> set q \<subseteq> set s" for p s q by (auto simp: strip_prefix_Some)
    then have "set r5 \<subseteq> set l" using r rng by (meson subset_trans)
    then have "LF \<notin> set (trim_start r5)" using tr l by blast
    with h Some show ?thesis by (auto simp: normalize_patch_line_def)
  qed
qed

lemma end_patch_line:
  assumes "starts_with l ''*** End Patch''"
  shows "normalize_patch_line l = l" and "ends_update l" and "\<not> starts_with l ''*** Update File: ''"
  using assms by (auto simp: normalize_patch_line_def normalize_unified_hunk_header_def strip_prefix_def
      starts_with_iff ends_update_def)

lemma repaired_batch:
  assumes "L \<noteq> []" and "\<forall>l \<in> set L. LF \<notin> set l"
  shows "fst (repair_update_hunk_blank_context_lines_with_count (join [LF] L)) =
     join [LF] (rs_lines (close_hunk (fold repair_line [0..<length L]
       \<lparr>rs_lines = L, rs_in_update = False, rs_repair = None, rs_repaired = 0\<rparr>)))"
  using split_char_join [OF assms]
  by (simp add: repair_update_hunk_blank_context_lines_with_count_def Let_def)

lemma close_hunk_None: "rs_repair st = None \<Longrightarrow> rs_lines (close_hunk st) = rs_lines st"
  by (simp add: close_hunk_def finish_hunk_blank_repair_def)


text \<open>
  After any text the stream has emitted the lines \<open>X\<close> and holds the last, unfinished line; the batch
  result is the join of lines that extend \<open>X\<close> by at least one.
\<close>

definition patch_lines :: "string \<Rightarrow> string list" where
  "patch_lines t = map normalize_patch_line (split_char LF (unify_newlines t))"

definition batch_start :: "string \<Rightarrow> repair_state" where
  "batch_start t = \<lparr>rs_lines = patch_lines t, rs_in_update = False, rs_repair = None, rs_repaired = 0\<rparr>"

lemma patch_lines_nonempty [simp]: "patch_lines t \<noteq> []"
  by (simp add: patch_lines_def)

lemma batch_lines:
  "normalize_patch_newlines t =
     join [LF] (rs_lines (close_hunk (fold repair_line [0..<length (patch_lines t)] (batch_start t))))"
proof -
  have "\<forall>x \<in> set (patch_lines t). LF \<notin> set x"
    by (auto simp: patch_lines_def intro!: normalize_patch_line_LF dest: split_char_sep_free)
  from repaired_batch [OF patch_lines_nonempty this] show ?thesis
    by (simp add: normalize_patch_newlines_def normalize_patch_newlines_with_diagnostic_def
        normalize_unified_hunk_headers_with_count_def batch_start_def patch_lines_def case_prod_beta)
qed

lemma stream_lines:
  assumes "split_char LF (unify_newlines t) = ls @ [l]"
  obtains s b X where "fold feed_byte t (new_normalizer, []) = (s\<lparr>ps_line := l, ps_pending_cr := b\<rparr>, with_newlines X)"
    and "sim (patch_lines t) (length ls) s X (fold repair_line [0..<length ls] (batch_start t))"
proof -
  have init: "sim (patch_lines t) 0 new_normalizer [] (batch_start t)"
    by (simp add: sim_def new_normalizer_def batch_start_def)
  have "drop 0 (patch_lines t) = map normalize_patch_line (ls @ [l])" by (simp add: patch_lines_def assms)
  from sim_feed_lines [OF init _ this, of l] obtain s X
    where f: "feed_lines (ls @ [l]) (new_normalizer, with_newlines []) = (s\<lparr>ps_line := l\<rparr>, with_newlines X)"
      and m: "sim (patch_lines t) (length ls) s X (fold repair_line [0..<length ls] (batch_start t))"
    by (auto simp: new_normalizer_def)
  obtain s' out where so: "fold feed_byte t (new_normalizer, []) = (s', out)" by fastforce
  have "clear_cr (new_normalizer, []) = (new_normalizer, with_newlines [])"
    and "\<not> ps_pending_cr new_normalizer"
    by (simp_all add: new_normalizer_def clear_cr_def with_newlines_def)
  then have "clear_cr (s', out) = (s\<lparr>ps_line := l\<rparr>, with_newlines X)"
    using feed_bytes_lines [of t "(new_normalizer, [])"] nl_norm_unify [of t] f by (simp add: so assms)
  then have "s' = s\<lparr>ps_line := l, ps_pending_cr := ps_pending_cr s'\<rparr>" and "out = with_newlines X"
    by (cases s; cases s'; simp add: clear_cr_def)+
  with so m show thesis by (intro that [of "ps_pending_cr s'" s X]) simp_all
qed

lemma batch_extends:
  assumes "split_char LF (unify_newlines t) = ls @ [l]"
    and "sim (patch_lines t) (length ls) s X (fold repair_line [0..<length ls] (batch_start t))"
  obtains s' X' X'' where "push_line (s\<lparr>ps_line := l\<rparr>, with_newlines X) = (s', with_newlines X')"
    and "flush_hunk_buffer (s', with_newlines X') = (s'\<lparr>ps_hunk := None\<rparr>, with_newlines X'')"
    and "prefix X X''" and "length X'' = Suc (length ls)"
    and "normalize_patch_newlines t = join [LF] X''"
proof -
  let ?L = "patch_lines t" and ?n = "length ls"
  have L: "?n < length ?L" "?L ! ?n = normalize_patch_line (ps_line (s\<lparr>ps_line := l\<rparr>))" "length ?L = Suc ?n"
    by (simp_all add: patch_lines_def assms(1) nth_append)
  have "sim ?L ?n (s\<lparr>ps_line := l\<rparr>) X (fold repair_line [0..<?n] (batch_start t))"
    using assms(2) by (simp add: sim_ps_line)
  then obtain s' X' where p: "push_line (s\<lparr>ps_line := l\<rparr>, with_newlines X) = (s', with_newlines X')"
    and m: "sim ?L (Suc ?n) s' X' (repair_line ?n (fold repair_line [0..<?n] (batch_start t)))"
    and pre: "prefix X X'"
    using L(1,2) by (rule sim_step)
  from m obtain X'' where f: "flush_hunk_buffer (s', with_newlines X') = (s'\<lparr>ps_hunk := None\<rparr>, with_newlines X'')"
    and r: "rs_lines (close_hunk (repair_line ?n (fold repair_line [0..<?n] (batch_start t)))) = X'' @ drop (Suc ?n) ?L"
    and len: "length X'' = Suc ?n" and pre': "prefix X' X''"
    by (rule sim_close)
  have "normalize_patch_newlines t = join [LF] X''"
    unfolding batch_lines L(3) using r L(3) by simp
  with p f len prefix_order.trans [OF pre pre'] show thesis by (intro that)
qed

lemma prefix_join:
  assumes "prefix X Y" and "length X < length Y"
  shows "prefix (with_newlines X) (join [LF] Y)"
proof -
  from assms obtain Z where Y: "Y = X @ Z" "Z \<noteq> []" by (auto simp: prefix_def)
  have "join [LF] (X @ Z) = with_newlines X @ join [LF] Z"
    using Y(2) by (induction X) (simp_all add: with_newlines_def join_Cons)
  with Y(1) show ?thesis by simp
qed

lemma sim_short: "sim L i s X st \<Longrightarrow> length X \<le> i"
  by (auto simp: sim_def split: option.splits)

text \<open>C19: at every moment what has been streamed of a patch, in whatever chunks it came, is a prefix of
  what the batch routine makes of the whole text so far: no delta is ever contradicted by the final
  patch.\<close>

theorem patch_stream_prefix:
  "prefix (snd (feed_all patch_feed new_normalizer chunks)) (normalize_patch_newlines (concat chunks))"
proof -
  obtain ls l where raws: "split_char LF (unify_newlines (concat chunks)) = ls @ [l]"
    by (metis rev_exhaust split_char_nonempty)
  then obtain s b X where f: "fold feed_byte (concat chunks) (new_normalizer, []) =
      (s\<lparr>ps_line := l, ps_pending_cr := b\<rparr>, with_newlines X)"
    and m: "sim (patch_lines (concat chunks)) (length ls) s X
        (fold repair_line [0..<length ls] (batch_start (concat chunks)))"
    by (rule stream_lines)
  obtain X'' where "prefix X X''" "length X'' = Suc (length ls)"
    "normalize_patch_newlines (concat chunks) = join [LF] X''"
    by (rule batch_extends [OF raws m])
  with prefix_join [of X X''] sim_short [OF m] f show ?thesis by (simp add: patch_feed_all)
qed

lemma boundary_closed:
  "handle_boundary_line line (s, []) = Some (s', out) \<Longrightarrow> ps_hunk s' = None \<Longrightarrow> out \<noteq> [] \<and> last out = LF"
  by (auto simp: handle_boundary_line_def split: prod.splits if_splits)

lemma push_line_closed:
  assumes "ps_hunk (fst (push_line (s, []))) = None"
  shows "snd (push_line (s, [])) \<noteq> [] \<and> last (snd (push_line (s, []))) = LF"
proof (cases "handle_boundary_line (normalize_patch_line (ps_line s)) (s, [])")
  case None
  with assms show ?thesis by (auto simp: push_line_def Let_def split: option.splits)
next
  case (Some so)
  with assms boundary_closed [of _ s "fst so" "snd so"] show ?thesis by (simp add: push_line_def Let_def)
qed

lemma normalize_patch_line_Nil [simp]: "normalize_patch_line [] = []"
  by (simp add: normalize_patch_line_def normalize_unified_hunk_header_def strip_prefix_def starts_with_def)

lemma push_empty_line:
  assumes "ps_hunk (fst (push_line (s, []))) = None" and "ps_line s = []"
  shows "ps_hunk s = None \<and> snd (push_line (s, [])) = [LF]"
proof -
  have "handle_boundary_line [] (s, []) = None"
    by (simp add: handle_boundary_line_def starts_with_def ends_update_def case_prod_beta)
  with assms show ?thesis by (simp add: push_line_def split: option.splits)
qed

text \<open>When no hunk is open once the last line is pushed, the stream's end completes the batch result.\<close>

lemma stream_complete:
  assumes raws: "split_char LF (unify_newlines t) = ls @ [l]"
    and f: "fold feed_byte t (new_normalizer, []) = (s\<lparr>ps_line := l, ps_pending_cr := b\<rparr>, with_newlines X)"
    and m: "sim (patch_lines t) (length ls) s X (fold repair_line [0..<length ls] (batch_start t))"
    and none: "ps_hunk (fst (push_line (s\<lparr>ps_line := l\<rparr>, []))) = None"
  shows "with_newlines X @ patch_finish (s\<lparr>ps_line := l, ps_pending_cr := b\<rparr>) = normalize_patch_newlines t"
proof -
  obtain s' X' X'' where p: "push_line (s\<lparr>ps_line := l\<rparr>, with_newlines X) = (s', with_newlines X')"
    and fl: "flush_hunk_buffer (s', with_newlines X') = (s'\<lparr>ps_hunk := None\<rparr>, with_newlines X'')"
    and len: "length X'' = Suc (length ls)" and batch: "normalize_patch_newlines t = join [LF] X''"
    by (rule batch_extends [OF raws m])
  have push: "push_line (s\<lparr>ps_line := l\<rparr>, with_newlines X) =
      (fst (push_line (s\<lparr>ps_line := l\<rparr>, [])), with_newlines X @ snd (push_line (s\<lparr>ps_line := l\<rparr>, [])))"
    using push_line_output [of "s\<lparr>ps_line := l\<rparr>" "with_newlines X" "[]"] by simp
  have X': "with_newlines X'' = with_newlines X @ snd (push_line (s\<lparr>ps_line := l\<rparr>, []))"
    using p push none fl by (simp add: flush_hunk_buffer_def)
  have "X'' \<noteq> []" using len by auto
  then have "normalize_patch_newlines t = butlast (with_newlines X'')"
    unfolding batch by (rule butlast_with_newlines [symmetric])
  moreover have "patch_finish (s\<lparr>ps_line := l, ps_pending_cr := b\<rparr>) =
      butlast (snd (push_line (s\<lparr>ps_line := l\<rparr>, []))) \<and> snd (push_line (s\<lparr>ps_line := l\<rparr>, [])) \<noteq> []"
    using push_line_closed [OF none] push_empty_line [OF none]
      push_line_cr [where so = "(s\<lparr>ps_line := l\<rparr>, [])" and b = b]
    by (auto simp: patch_finish_def flush_hunk_buffer_def)
  ultimately show ?thesis using X' by (simp add: butlast_append)
qed

lemma batch_line_nth:
  assumes "i < length (patch_lines t)"
  shows "rs_lines (fold repair_line [0..<i] (batch_start t)) ! i = patch_lines t ! i"
proof -
  let ?raws = "split_char LF (unify_newlines t)"
  have init: "sim (patch_lines t) 0 new_normalizer [] (batch_start t)"
    by (simp add: sim_def new_normalizer_def batch_start_def)
  have i: "i < length ?raws" using assms by (simp add: patch_lines_def)
  have d: "drop 0 (patch_lines t) = map normalize_patch_line (take i ?raws @ drop i ?raws)"
    by (simp add: patch_lines_def)
  obtain s X where "sim (patch_lines t) (0 + length (take i ?raws)) s X
      (fold repair_line [0..<0 + length (take i ?raws)] (batch_start t))"
    by (rule sim_feed_lines [OF init _ d]) (simp_all add: new_normalizer_def)
  with i assms show ?thesis by (auto simp: sim_def nth_append split: option.splits)
qed

lemma push_end_patch:
  assumes "starts_with (ps_line s) ''*** End Patch''"
  shows "ps_hunk (fst (push_line (s, []))) = None"
  using end_patch_line [OF assms]
  by (auto simp: push_line_def handle_boundary_line_def flush_hunk_buffer_def split: option.splits)

lemma repair_end_patch:
  assumes "starts_with (rs_lines st ! i) ''*** End Patch''"
  shows "rs_repair (repair_line i st) = None"
  using end_patch_line [OF assms] by (simp add: repair_line_def close_hunk_def case_prod_beta Let_def)

text \<open>C30: however a patch is cut into chunks, streaming it gives exactly what the batch routine makes of
  the whole patch, as long as the patch ends with an end marker line (with or without a line end).\<close>

theorem patch_stream_matches_batch:
  assumes "split_char LF (unify_newlines (concat chunks)) \<in> {ls @ [l], ls @ [l, []]}"
    and "starts_with l ''*** End Patch''"
  shows "patch_stream chunks = normalize_patch_newlines (concat chunks)"
proof -
  let ?t = "concat chunks"
  obtain ls' r where raws: "split_char LF (unify_newlines ?t) = ls' @ [r]"
    by (metis rev_exhaust split_char_nonempty)
  then obtain s b X where f: "fold feed_byte ?t (new_normalizer, []) =
      (s\<lparr>ps_line := r, ps_pending_cr := b\<rparr>, with_newlines X)"
    and m: "sim (patch_lines ?t) (length ls') s X (fold repair_line [0..<length ls'] (batch_start ?t))"
    by (rule stream_lines)
  have "ps_hunk (fst (push_line (s\<lparr>ps_line := r\<rparr>, []))) = None"
  proof (cases "r = l")
    case True
    with assms(2) show ?thesis by (intro push_end_patch) simp
  next
    case False
    with assms(1) raws have r: "ls' = ls @ [l]" "r = []" by auto
    have "patch_lines ?t ! length ls = l"
      using raws end_patch_line(1) [OF assms(2)] by (simp add: r patch_lines_def nth_append)
    then have "rs_repair (repair_line (length ls) (fold repair_line [0..<length ls] (batch_start ?t))) = None"
      using batch_line_nth [of "length ls" ?t] raws assms(2)
      by (intro repair_end_patch) (simp add: r patch_lines_def)
    with m have "ps_hunk s = None" by (auto simp: r sim_def split: option.splits)
    then show ?thesis
      by (simp add: r push_line_def handle_boundary_line_def flush_hunk_buffer_def starts_with_def ends_update_def)
  qed
  from stream_complete [OF raws f m this] show ?thesis
    by (simp add: patch_stream_def patch_feed_all f)
qed

definition lf_lines :: "string list \<Rightarrow> string" where
  "lf_lines ls = join [LF] ls"

theorem patch_stream_matches_batch_witness:
  "patch_stream [lf_lines [''*** Update File: a'', ''@@ -1 +1 @@''] @ [CR], LF # lf_lines [''-x'', [], ''*** End Pa''], ''tch'']
     = lf_lines [''*** Update File: a'', ''@@'', ''-x'', '' '', ''*** End Patch'']"
proof -
  let ?chunks = "[lf_lines [''*** Update File: a'', ''@@ -1 +1 @@''] @ [CR], LF # lf_lines [''-x'', [], ''*** End Pa''], ''tch'']"
  have "split_char LF (unify_newlines (concat ?chunks)) =
      [''*** Update File: a'', ''@@ -1 +1 @@'', ''-x'', []] @ [''*** End Patch'']" by code_simp
  then have "split_char LF (unify_newlines (concat ?chunks)) \<in>
      {[''*** Update File: a'', ''@@ -1 +1 @@'', ''-x'', []] @ [''*** End Patch''],
       [''*** Update File: a'', ''@@ -1 +1 @@'', ''-x'', []] @ [''*** End Patch'', []]}" by simp
  moreover have "starts_with ''*** End Patch'' ''*** End Patch''" by simp
  ultimately have "patch_stream ?chunks = normalize_patch_newlines (concat ?chunks)"
    by (rule patch_stream_matches_batch)
  also have "\<dots> = lf_lines [''*** Update File: a'', ''@@'', ''-x'', '' '', ''*** End Patch'']" by code_simp
  finally show ?thesis .
qed

end
