(* ===== verification/Tool_Context.thy ===== *)
theory Tool_Context
  imports Stream_Tool_Calls
begin

text \<open>
  The client's tools, \<^verbatim>\<open>crates/proxy/src/tool_passthrough.rs\<close>: the declarations of a request (and those
  a tool search has discovered) are normalised, given a unique upstream name and admitted within
  budgets of number and size; the calls the model makes by upstream name are turned back into
  response items under the client's name and namespace.

  The identifier generated for the last-resort name is a parameter \<open>fresh\<close>, any function of the entries
  present when it is generated; the text of a JSON parse error is the parameter \<open>perr\<close>.
\<close>

section \<open>Data\<close>

datatype tool_entry_kind = FunctionTool | CodexToolSearch

record tool_entry =
  te_response_name :: string
  te_namespace :: "string option"
  te_kind :: tool_entry_kind

record tool_budget_stats =
  tb_attempted :: nat
  tb_accepted :: nat
  tb_budgeted :: nat
  tb_exempt :: nat
  tb_payload_chars :: nat
  tb_truncated :: nat
  tb_dropped_count :: nat
  tb_dropped_schema :: nat
  tb_dropped_payload :: nat
  tb_dropped_names :: "string list"

record tool_context =
  cx_entries :: "(string \<times> tool_entry) list"
  cx_upstream_tools :: "json list"
  cx_request_tool_items :: nat
  cx_source_names :: "string list"
  cx_discovered :: nat
  cx_budget :: tool_budget_stats

record tool_declaration =
  td_response_name :: string
  td_description :: string
  td_parameters :: json
  td_namespace :: "string option"
  td_kind :: tool_entry_kind

definition CODEX_TOOL_SEARCH_NAMES :: "string list" where
  "CODEX_TOOL_SEARCH_NAMES = [''tool_search_tool'', ''tool_search'']"

definition MAX_MALFORMED_ARGUMENTS_CHARS :: nat where "MAX_MALFORMED_ARGUMENTS_CHARS = 2048"
definition MAX_EXTERNAL_TOOL_DECLARATIONS :: nat where "MAX_EXTERNAL_TOOL_DECLARATIONS = 128"
definition MAX_EXTERNAL_TOOL_DESCRIPTION_CHARS :: nat where "MAX_EXTERNAL_TOOL_DESCRIPTION_CHARS = 2000"
definition MAX_EXTERNAL_TOOL_SCHEMA_CHARS :: nat where "MAX_EXTERNAL_TOOL_SCHEMA_CHARS = 24000"
definition MAX_EXTERNAL_TOOLS_PAYLOAD_CHARS :: nat where "MAX_EXTERNAL_TOOLS_PAYLOAD_CHARS = 160000"
definition MAX_TOOL_BUDGET_DIAGNOSTIC_NAMES :: nat where "MAX_TOOL_BUDGET_DIAGNOSTIC_NAMES = 20"

definition empty_budget :: tool_budget_stats where
  "empty_budget = \<lparr>tb_attempted = 0, tb_accepted = 0, tb_budgeted = 0, tb_exempt = 0,
     tb_payload_chars = 0, tb_truncated = 0, tb_dropped_count = 0, tb_dropped_schema = 0,
     tb_dropped_payload = 0, tb_dropped_names = []\<rparr>"

definition empty_context :: tool_context where
  "empty_context = \<lparr>cx_entries = [], cx_upstream_tools = [], cx_request_tool_items = 0,
     cx_source_names = [], cx_discovered = 0, cx_budget = empty_budget\<rparr>"

section \<open>Names\<close>

definition ascii_alphanumeric :: "char \<Rightarrow> bool" where
  "ascii_alphanumeric c = (ascii_digit c \<or> ascii_upper c \<or> (97 \<le> byte_val c \<and> byte_val c \<le> 122))"

definition name_byte :: "char \<Rightarrow> bool" where
  "name_byte c = (ascii_alphanumeric c \<or> c = CHR ''_'' \<or> c = CHR ''-'')"

definition sanitize_char :: "rchar \<Rightarrow> char" where
  "sanitize_char ch = (case ch of [c] \<Rightarrow> if name_byte c then c else CHR ''_'' | _ \<Rightarrow> CHR ''_'')"

text \<open>\<^verbatim>\<open>s.trim_matches('_').is_empty()\<close>.\<close>

definition only_underscores :: "string \<Rightarrow> bool" where
  "only_underscores s = list_all (\<lambda>c. c = CHR ''_'') s"

definition sanitize_tool_name :: "string \<Rightarrow> string" where
  "sanitize_tool_name name =
     (let truncated = take 64 (map sanitize_char (chars name))
      in if only_underscores truncated then ''tool'' else truncated)"

definition suffixed_tool_name :: "string \<Rightarrow> nat \<Rightarrow> string" where
  "suffixed_tool_name pre k =
     (let tail = ''_'' @ nat_str k;
          base = take_chars (64 - char_count tail) pre;
          base = (if only_underscores base then ''tool'' else base)
      in sanitize_tool_name (base @ tail))"

function pick_name ::
  "string \<Rightarrow> (string \<times> tool_entry) list \<Rightarrow> string \<Rightarrow> string \<Rightarrow> nat \<Rightarrow> string" where
  "pick_name fresh entries pre candidate k =
     (if map_of entries candidate = None then candidate
      else if Suc k > 10000 then suffixed_tool_name (''tool_'' @ fresh) 2
      else pick_name fresh entries pre (suffixed_tool_name pre k) (Suc k))"
  by pat_completeness auto
termination
  by (relation "measure (\<lambda>(f, e, p, c, k). 10000 - k)") auto

declare pick_name.simps [simp del]

definition unique_tool_name ::
  "((string \<times> tool_entry) list \<Rightarrow> string) \<Rightarrow> string \<Rightarrow> string option \<Rightarrow> (string \<times> tool_entry) list \<Rightarrow> string"
where
  "unique_tool_name fresh response_name namespace entries =
     (let base = sanitize_tool_name response_name
      in if map_of entries base = None then base
         else
           (let pre = unwrap_or base (opt_filter (\<lambda>v. v \<noteq> [])
                  (map_option (\<lambda>v. sanitize_tool_name (v @ ''_'' @ base)) namespace))
            in pick_name (fresh entries) entries pre pre 2))"

definition is_conflicting_visual_tool :: "string \<Rightarrow> bool" where
  "is_conflicting_visual_tool name =
     (to_ascii_lowercase (trim name) \<in> {''imagegen'', ''imagegenext'', ''image_gen'', ''image_generation'',
        ''generate_image'', ''image_generate'', ''create_image'', ''vision_analyze'', ''vision_generate''})"

section \<open>Reading a declaration\<close>

definition first_string :: "json option list \<Rightarrow> string \<Rightarrow> string" where
  "first_string candidates fallback =
     unwrap_or fallback (find (\<lambda>v. v \<noteq> []) (map trim (List.map_filter (\<lambda>v. Option.bind v as_str) candidates)))"

definition is_object :: "json \<Rightarrow> bool" where
  "is_object v = (as_object v \<noteq> None)"

definition tool_type :: "json \<Rightarrow> string" where
  "tool_type tool = to_ascii_lowercase (unwrap_or [] (get_str tool ''type''))"

fun first_trimmed :: "json \<Rightarrow> string list \<Rightarrow> string option" where
  "first_trimmed tool [] = None"
| "first_trimmed tool (key # keys) =
     (case get_str tool key of
        None \<Rightarrow> first_trimmed tool keys
      | Some v \<Rightarrow> if trim v = [] then first_trimmed tool keys else Some (trim v))"

definition namespace_from_tool :: "json \<Rightarrow> string option" where
  "namespace_from_tool tool =
     or_else (first_trimmed tool [''namespace'', ''server_namespace'', ''server''])
       (if tool_type tool = ''namespace'' \<or> (tool_type tool = ''mcp'' \<and> jget tool ''tools'' \<noteq> None)
        then first_trimmed tool [''name'', ''server_label''] else None)"

definition has_callable_shape :: "json \<Rightarrow> json \<Rightarrow> bool" where
  "has_callable_shape tool parameters =
     (get_str tool ''name'' \<noteq> None
      \<or> (get_str tool ''server_label'' \<noteq> None
          \<and> (jget tool ''description'' \<noteq> None \<or> is_object parameters)))"

definition is_callable_tool :: "json \<Rightarrow> json \<Rightarrow> bool" where
  "is_callable_tool tool parameters =
     (if get_str tool ''type'' = Some ''function'' \<or> jget tool ''function'' \<noteq> None then True
      else if tool_type tool = ''mcp'' then has_callable_shape tool parameters
      else case opt_filter is_object (jget tool ''tool'') of
             Some nested \<Rightarrow> has_callable_shape nested parameters
           | None \<Rightarrow> jget tool ''name'' \<noteq> None \<and> has_callable_shape tool parameters)"

definition empty_schema :: json where
  "empty_schema = jobj [(''type'', JStr ''object''), (''properties'', jobj [])]"

definition normalize_schema :: "json \<Rightarrow> json" where
  "normalize_schema schema =
     (if \<not> is_object schema then empty_schema
      else if jget schema ''type'' \<noteq> None then schema
      else jobj [(''type'', JStr ''object''),
                 (''properties'', unwrap_or (jobj []) (jget schema ''properties'')),
                 (''required'', unwrap_or (JArr []) (jget schema ''required'')),
                 (''additionalProperties'', unwrap_or (JBool True) (jget schema ''additionalProperties''))])"

definition declared_parameters :: "json \<Rightarrow> json" where
  "declared_parameters tool =
     (let nested = opt_filter is_object (jget tool ''tool'');
          in_nested = (\<lambda>k. Option.bind nested (\<lambda>v. jget v k))
      in unwrap_or empty_schema
           (or_else (jget tool ''parameters'')
           (or_else (Option.bind (jget tool ''function'') (\<lambda>v. jget v ''parameters''))
           (or_else (jget tool ''input_schema'')
           (or_else (jget tool ''inputSchema'')
           (or_else (in_nested ''input_schema'')
           (or_else (in_nested ''inputSchema'') (in_nested ''parameters''))))))))"

definition normalize_single_tool :: "json \<Rightarrow> nat \<Rightarrow> string option \<Rightarrow> tool_declaration option" where
  "normalize_single_tool tool index namespace =
     (if \<not> is_object tool then None
      else
        (let nested = opt_filter is_object (jget tool ''tool'');
             name = first_string [jget tool ''name'', Option.bind (jget tool ''function'') (\<lambda>v. jget v ''name''),
                 Option.bind nested (\<lambda>v. jget v ''name''), jget tool ''server_label'']
               (''tool_'' @ nat_str (Suc index));
             description = first_string [jget tool ''description'',
                 Option.bind (jget tool ''function'') (\<lambda>v. jget v ''description''),
                 Option.bind nested (\<lambda>v. jget v ''description''), jget tool ''title''] name;
             parameters = declared_parameters tool
         in if \<not> is_callable_tool tool parameters then None
            else Some \<lparr>td_response_name = sanitize_tool_name name, td_description = description,
                       td_parameters = normalize_schema parameters, td_namespace = namespace,
                       td_kind = FunctionTool\<rparr>))"

definition normalize_tool_declarations :: "json \<Rightarrow> nat \<Rightarrow> tool_declaration list" where
  "normalize_tool_declarations tool index =
     (case Option.bind (jget tool ''tools'') as_array of
        None \<Rightarrow>
          (if tool_type tool = ''mcp'' then []
           else (case normalize_single_tool tool index (namespace_from_tool tool) of
                   None \<Rightarrow> [] | Some d \<Rightarrow> [d]))
      | Some nested_tools \<Rightarrow>
          List.map_filter (\<lambda>(i, nested). normalize_single_tool nested i (namespace_from_tool tool))
            (List.enumerate 0 nested_tools))"

section \<open>Admitting declarations\<close>

definition truncate_chars :: "string \<Rightarrow> nat \<Rightarrow> string" where
  "truncate_chars v max_chars = (if char_count v \<le> max_chars then v else take_chars max_chars v @ ''...'')"

definition serialized_json_chars :: "ext_lib \<Rightarrow> json \<Rightarrow> nat" where
  "serialized_json_chars L v = char_count (json_to_string L v)"

definition tool_value :: "string \<Rightarrow> tool_declaration \<Rightarrow> json" where
  "tool_value upstream_name d =
     jobj [(''type'', JStr ''function''),
           (''function'', jobj [(''name'', JStr upstream_name), (''description'', JStr (td_description d)),
                              (''parameters'', td_parameters d)])]"

definition tool_value_for_declaration ::
  "((string \<times> tool_entry) list \<Rightarrow> string) \<Rightarrow> tool_context \<Rightarrow> tool_declaration \<Rightarrow> string \<times> json" where
  "tool_value_for_declaration fresh cx d =
     (let upstream_name = unique_tool_name fresh (td_response_name d) (td_namespace d) (cx_entries cx)
      in (upstream_name, tool_value upstream_name d))"

definition push_tool_value :: "tool_declaration \<Rightarrow> string \<times> json \<Rightarrow> tool_context \<Rightarrow> tool_context" where
  "push_tool_value d tv cx =
     cx\<lparr>cx_upstream_tools := cx_upstream_tools cx @ [snd tv],
        cx_source_names := cx_source_names cx @ [td_response_name d],
        cx_entries := om_insert (fst tv)
          \<lparr>te_response_name = td_response_name d, te_namespace = td_namespace d, te_kind = td_kind d\<rparr>
          (cx_entries cx)\<rparr>"

definition remember_dropped_tool_name :: "string \<Rightarrow> tool_budget_stats \<Rightarrow> tool_budget_stats" where
  "remember_dropped_tool_name name b =
     (if length (tb_dropped_names b) < MAX_TOOL_BUDGET_DIAGNOSTIC_NAMES
      then b\<lparr>tb_dropped_names := tb_dropped_names b @ [name]\<rparr> else b)"

definition shorten_description :: "tool_declaration \<Rightarrow> tool_declaration" where
  "shorten_description d =
     (if char_count (td_description d) > MAX_EXTERNAL_TOOL_DESCRIPTION_CHARS
      then d\<lparr>td_description := truncate_chars (td_description d) (MAX_EXTERNAL_TOOL_DESCRIPTION_CHARS - 3)\<rparr>
      else d)"

definition count_truncated :: "tool_declaration \<Rightarrow> tool_budget_stats \<Rightarrow> tool_budget_stats" where
  "count_truncated d b =
     (if char_count (td_description d) > MAX_EXTERNAL_TOOL_DESCRIPTION_CHARS
      then b\<lparr>tb_truncated := sat_add (tb_truncated b) 1\<rparr> else b)"

definition push_external_declaration ::
  "ext_lib \<Rightarrow> ((string \<times> tool_entry) list \<Rightarrow> string) \<Rightarrow> tool_declaration \<Rightarrow> tool_context \<Rightarrow> tool_context"
where
  "push_external_declaration L fresh d cx =
     (let b = cx_budget cx;
          b = b\<lparr>tb_attempted := sat_add (tb_attempted b) 1\<rparr>
      in if tb_budgeted b \<ge> MAX_EXTERNAL_TOOL_DECLARATIONS then
           cx\<lparr>cx_budget := remember_dropped_tool_name (td_response_name d)
             (b\<lparr>tb_dropped_count := sat_add (tb_dropped_count b) 1\<rparr>)\<rparr>
         else if serialized_json_chars L (td_parameters d) > MAX_EXTERNAL_TOOL_SCHEMA_CHARS then
           cx\<lparr>cx_budget := remember_dropped_tool_name (td_response_name d)
             (b\<lparr>tb_dropped_schema := sat_add (tb_dropped_schema b) 1\<rparr>)\<rparr>
         else
           (let b = count_truncated d b;
                d = shorten_description d;
                tv = tool_value_for_declaration fresh cx d;
                payload = serialized_json_chars L (snd tv)
            in if sat_add (tb_payload_chars b) payload > MAX_EXTERNAL_TOOLS_PAYLOAD_CHARS then
                 cx\<lparr>cx_budget := remember_dropped_tool_name (td_response_name d)
                   (b\<lparr>tb_dropped_payload := sat_add (tb_dropped_payload b) 1\<rparr>)\<rparr>
               else
                 (push_tool_value d tv cx)\<lparr>cx_budget :=
                   b\<lparr>tb_accepted := sat_add (tb_accepted b) 1,
                     tb_payload_chars := sat_add (tb_payload_chars b) payload,
                     tb_budgeted := sat_add (tb_budgeted b) 1\<rparr>\<rparr>))"

definition push_internal_declaration ::
  "((string \<times> tool_entry) list \<Rightarrow> string) \<Rightarrow> tool_declaration \<Rightarrow> tool_context \<Rightarrow> tool_context" where
  "push_internal_declaration fresh d cx = push_tool_value d (tool_value_for_declaration fresh cx d) cx"

section \<open>Building the context of a request\<close>

definition from_request_tools ::
  "ext_lib \<Rightarrow> ((string \<times> tool_entry) list \<Rightarrow> string) \<Rightarrow> json option \<Rightarrow> tool_context" where
  "from_request_tools L fresh tools =
     (case Option.bind tools as_array of
        None \<Rightarrow> empty_context
      | Some items \<Rightarrow>
          fold (push_external_declaration L fresh)
            (filter (\<lambda>d. \<not> is_conflicting_visual_tool (td_response_name d))
              (concat (map (\<lambda>(i, tool). normalize_tool_declarations tool i) (List.enumerate 0 items))))
            (empty_context\<lparr>cx_request_tool_items := length items\<rparr>))"

definition promote_codex_tool_search_tools :: "tool_context \<Rightarrow> tool_context" where
  "promote_codex_tool_search_tools cx =
     cx\<lparr>cx_entries := map (\<lambda>(k, e).
          (k, if te_response_name e \<in> set CODEX_TOOL_SEARCH_NAMES then e\<lparr>te_kind := CodexToolSearch\<rparr> else e))
        (cx_entries cx)\<rparr>"

definition has_external_tool :: "tool_context \<Rightarrow> string \<Rightarrow> bool" where
  "has_external_tool cx name = (map_of (cx_entries cx) name \<noteq> None)"

definition has_response_tool :: "tool_context \<Rightarrow> string \<Rightarrow> bool" where
  "has_response_tool cx name =
     (list_ex (\<lambda>(k, e). te_response_name e = name) (cx_entries cx) \<or> has_external_tool cx name)"

definition response_tool_name_set :: "tool_context \<Rightarrow> string set" where
  "response_tool_name_set cx =
     set (map (te_response_name \<circ> snd) (cx_entries cx) @ map fst (cx_entries cx))"

definition tool_item_call_id :: "json \<Rightarrow> string option" where
  "tool_item_call_id item =
     opt_filter (\<lambda>v. \<not> blank v)
       (Option.bind (or_else (jget item ''call_id'') (or_else (jget item ''tool_call_id'') (jget item ''id''))) as_str)"

definition tool_search_output_tool_declarations :: "json \<Rightarrow> string set \<Rightarrow> json list" where
  "tool_search_output_tool_declarations input valid_previous_call_ids =
     (case as_array input of
        None \<Rightarrow> []
      | Some items \<Rightarrow>
          (let valid = valid_previous_call_ids \<union> set (List.map_filter tool_item_call_id
                 (filter (\<lambda>item. get_str item ''type'' = Some ''tool_search_call'') items))
           in if valid = {} then []
              else concat (List.map_filter (\<lambda>item. Option.bind (jget item ''tools'') as_array)
                (filter (\<lambda>item. is_some_and (\<lambda>i. i \<in> valid) (tool_item_call_id item))
                  (filter (\<lambda>item. get_str item ''type'' = Some ''tool_search_output'') items)))))"

definition discover ::
  "ext_lib \<Rightarrow> ((string \<times> tool_entry) list \<Rightarrow> string) \<Rightarrow> tool_declaration \<Rightarrow> tool_context \<Rightarrow> tool_context" where
  "discover L fresh d cx =
     push_external_declaration L fresh d (cx\<lparr>cx_discovered := sat_add (cx_discovered cx) 1\<rparr>)"

definition add_tool_search_output_tools ::
  "ext_lib \<Rightarrow> ((string \<times> tool_entry) list \<Rightarrow> string) \<Rightarrow> json option \<Rightarrow> string set \<Rightarrow> tool_context \<Rightarrow> tool_context"
where
  "add_tool_search_output_tools L fresh input valid_previous_call_ids cx =
     (case input of
        None \<Rightarrow> cx
      | Some v \<Rightarrow>
          fold (discover L fresh)
            (filter (\<lambda>d. \<not> (is_conflicting_visual_tool (td_response_name d)
                          \<or> td_response_name d \<in> response_tool_name_set cx))
              (concat (map (\<lambda>tool. normalize_tool_declarations tool (cx_request_tool_items cx))
                (tool_search_output_tool_declarations v valid_previous_call_ids)))) cx)"

definition tool_search_declaration :: tool_declaration where
  "tool_search_declaration =
     \<lparr>td_response_name = ''tool_search_tool'',
      td_description = ''Search deferred Codex native tool metadata, such as sub-agents, computer-use, thread, automation, or plugin runtime tools, and expose matching tools for the next model turn.'',
      td_parameters = jobj [(''type'', JStr ''object''),
        (''properties'', jobj [
          (''query'', jobj [(''type'', JStr ''string''),
            (''description'', JStr ''Search query for deferred Codex tools, such as sub-agent, computer-use, thread, automation, or plugin runtime tools.'')]),
          (''limit'', jobj [(''type'', JStr ''integer''),
            (''description'', JStr ''Maximum number of tool matches to return.'')])]),
        (''required'', JArr [JStr ''query'']),
        (''additionalProperties'', JBool False)],
      td_namespace = None, td_kind = CodexToolSearch\<rparr>"

definition ensure_codex_tool_search_bridge ::
  "((string \<times> tool_entry) list \<Rightarrow> string) \<Rightarrow> tool_context \<Rightarrow> tool_context" where
  "ensure_codex_tool_search_bridge fresh cx =
     (if has_response_tool cx ''tool_search_tool'' \<or> has_response_tool cx ''tool_search'' then cx
      else push_internal_declaration fresh tool_search_declaration cx)"

section \<open>Response items\<close>

definition is_codex_tool_search_tool :: "tool_context \<Rightarrow> string \<Rightarrow> bool" where
  "is_codex_tool_search_tool cx name =
     is_some_and (\<lambda>e. te_kind e = CodexToolSearch) (map_of (cx_entries cx) name)"

definition parse_tool_arguments :: "ext_lib \<Rightarrow> string \<Rightarrow> json" where
  "parse_tool_arguments L arguments = unwrap_or (jobj []) (json_from_str L arguments)"

definition malformed_tool_arguments_metadata :: "ext_lib \<Rightarrow> (string \<Rightarrow> string) \<Rightarrow> string \<Rightarrow> json option" where
  "malformed_tool_arguments_metadata L perr arguments =
     (case json_from_str L arguments of
        Some _ \<Rightarrow> None
      | None \<Rightarrow> Some (jobj [(''codeseex_malformed_arguments'', JBool True),
          (''codeseex_raw_arguments'', JStr (truncate_chars arguments MAX_MALFORMED_ARGUMENTS_CHARS)),
          (''codeseex_argument_parse_error'', JStr (perr arguments))]))"

definition insert_opt :: "string \<Rightarrow> json option \<Rightarrow> json \<Rightarrow> json" where
  "insert_opt k v item = (case v of None \<Rightarrow> item | Some w \<Rightarrow> jinsert k w item)"

definition response_item_from_chat_call_with_id ::
  "ext_lib \<Rightarrow> (string \<Rightarrow> string) \<Rightarrow> tool_context \<Rightarrow> chat_tool_call \<Rightarrow> string \<Rightarrow> json" where
  "response_item_from_chat_call_with_id L perr cx call item_id =
     (if is_codex_tool_search_tool cx (tc_name call) then
        insert_opt ''metadata'' (malformed_tool_arguments_metadata L perr (tc_arguments call))
          (jobj [(''id'', JStr item_id), (''type'', JStr ''tool_search_call''), (''status'', JStr ''completed''),
             (''execution'', JStr ''client''), (''call_id'', JStr (tc_id call)),
             (''arguments'', parse_tool_arguments L (tc_arguments call))])
      else
        (let entry = map_of (cx_entries cx) (tc_name call);
             item = jobj [(''id'', JStr item_id), (''type'', JStr ''function_call''),
               (''status'', JStr ''completed''), (''call_id'', JStr (tc_id call)),
               (''name'', JStr (case entry of None \<Rightarrow> tc_name call | Some e \<Rightarrow> te_response_name e)),
               (''arguments'', JStr (tc_arguments call))];
             item = insert_opt ''namespace'' (Option.bind entry (\<lambda>e. map_option JStr (te_namespace e))) item
         in insert_opt ''metadata''
              (case entry of
                 None \<Rightarrow> None
               | Some e \<Rightarrow>
                   if tc_name call \<noteq> te_response_name e
                   then Some (jobj [(''codeseex_upstream_name'', JStr (tc_name call)),
                                    (''codeseex_response_name'', JStr (te_response_name e))])
                   else None) item))"

text \<open>
  The context of one request, as the response handler builds it: the request's tools, then what a tool
  search discovered, then the promotion of the client's own tool search, then the injected one. The
  decisions between them are the arguments.
\<close>

definition request_tool_context ::
  "ext_lib \<Rightarrow> ((string \<times> tool_entry) list \<Rightarrow> string) \<Rightarrow> json \<Rightarrow> string set \<Rightarrow> bool \<Rightarrow> bool \<Rightarrow> bool \<Rightarrow> tool_context"
where
  "request_tool_context L fresh input valid_ids suppress promote injected =
     (let cx = from_request_tools L fresh (jget input ''tools'');
          cx = (if suppress then cx
                else add_tool_search_output_tools L fresh (jget input ''input'') valid_ids cx);
          cx = (if promote then promote_codex_tool_search_tools cx else cx)
      in if injected then ensure_codex_tool_search_bridge fresh cx else cx)"

section \<open>Names are valid and unique\<close>

definition valid_name :: "string \<Rightarrow> bool" where
  "valid_name s = (length s \<le> 64 \<and> list_all name_byte s \<and> \<not> only_underscores s)"

lemma name_byte_sanitize: "name_byte (sanitize_char ch)"
  by (auto simp: sanitize_char_def name_byte_def split: list.splits)

lemma sanitize_valid [simp]: "valid_name (sanitize_tool_name s)"
proof -
  have "valid_name ''tool''" by code_simp
  then show ?thesis
    by (auto simp: sanitize_tool_name_def Let_def valid_name_def list_all_iff name_byte_sanitize
        dest!: in_set_takeD)
qed

lemma name_byte_ascii: "name_byte c \<Longrightarrow> \<not> is_cont c"
proof -
  assume "name_byte c"
  then have "byte_val c < 128"
    by (auto simp: name_byte_def ascii_alphanumeric_def ascii_digit_def ascii_upper_def byte_val_def)
  then show ?thesis by (cases c) (auto simp: byte_val_def of_char_def)
qed

lemma chars_names: "list_all name_byte s \<Longrightarrow> chars s = map (\<lambda>c. [c]) s"
proof (induction s)
  case (Cons c s)
  then have "takeWhile is_cont s = []" "dropWhile is_cont s = s"
    by (cases s; auto simp: name_byte_ascii)+
  with Cons show ?case by simp
qed simp

lemma sanitize_names:
  assumes "list_all name_byte s" and "length s \<le> 64" and "\<not> only_underscores s"
  shows "sanitize_tool_name s = s"
proof -
  have "map (sanitize_char \<circ> (\<lambda>c. [c])) s = s"
    using assms(1) by (induction s) (auto simp: sanitize_char_def)
  with assms show ?thesis by (simp add: sanitize_tool_name_def chars_names Let_def)
qed

lemma digit_name_byte: "ascii_digit c \<Longrightarrow> name_byte c \<and> c \<noteq> CHR ''_''"
  by (auto simp: name_byte_def ascii_alphanumeric_def ascii_digit_def byte_val_def)

lemma suffixed_name:
  assumes "valid_name pre" and "k \<le> 10000"
  obtains base where "suffixed_tool_name pre k = base @ ''_'' @ nat_str k"
proof -
  let ?tail = "''_'' @ nat_str k"
  have tail: "list_all name_byte ?tail" "\<not> only_underscores ?tail" "length ?tail \<le> 6"
    using nat_str_digits [of _ k] digit_name_byte nat_str_length [of k 4] assms(2) nat_str_nonempty [of k]
    by (auto simp: list_all_iff name_byte_def only_underscores_def neq_Nil_conv)
  have cc: "char_count ?tail = length ?tail" using chars_names [OF tail(1)] by (simp only: char_count_def length_map)
  have tc: "take_chars n pre = take n pre" for n
    using assms(1) by (simp add: take_chars_def valid_name_def chars_names take_map)
  define base where "base = (if only_underscores (take (64 - length ?tail) pre) then ''tool'' else take (64 - length ?tail) pre)"
  have "list_all name_byte base" using assms(1)
    by (auto simp: base_def valid_name_def list_all_iff name_byte_def ascii_alphanumeric_def byte_val_def dest: in_set_takeD)
  moreover have "length (base @ ?tail) \<le> 64" using tail(3) by (auto simp: base_def)
  moreover have "\<not> only_underscores (base @ ?tail)" using tail(2) by (simp add: only_underscores_def)
  ultimately have "sanitize_tool_name (base @ ?tail) = base @ ?tail"
    using tail(1) by (intro sanitize_names) simp_all
  then have "suffixed_tool_name pre k = base @ ''_'' @ nat_str k"
    unfolding suffixed_tool_name_def Let_def cc tc base_def by simp
  then show thesis by (rule that)
qed

lemma suffixed_inj:
  assumes "valid_name pre" and "j \<le> 10000" and "k \<le> 10000" and "suffixed_tool_name pre j = suffixed_tool_name pre k"
  shows "j = k"
proof -
  have digits: "takeWhile (\<lambda>c. c \<noteq> CHR ''_'') (rev (b @ ''_'' @ nat_str i)) = rev (nat_str i)" for b i
  proof -
    have "\<forall>c \<in> set (rev (nat_str i)). c \<noteq> CHR ''_''" using nat_str_digits digit_name_byte by fastforce
    then show ?thesis by (simp add: takeWhile_tail)
  qed
  obtain b where "suffixed_tool_name pre j = b @ ''_'' @ nat_str j" using assms(1,2) by (rule suffixed_name)
  moreover obtain b' where "suffixed_tool_name pre k = b' @ ''_'' @ nat_str k" using assms(1,3) by (rule suffixed_name)
  ultimately have "rev (nat_str j) = rev (nat_str k)" using assms(4) digits by metis
  then show ?thesis using nat_str_inj by simp
qed

lemma pick_name_taken:
  "map_of entries (pick_name fresh entries pre candidate k) = None
   \<or> (\<forall>j \<in> {k..<10000}. map_of entries (suffixed_tool_name pre j) \<noteq> None)"
proof (induction fresh entries pre candidate k rule: pick_name.induct)
  case (1 fresh entries pre candidate k)
  show ?case
  proof (cases "map_of entries candidate = None \<or> Suc k > 10000")
    case True
    then show ?thesis by (auto simp: pick_name.simps [of _ _ _ candidate])
  next
    case False
    then have step: "pick_name fresh entries pre candidate k =
        pick_name fresh entries pre (suffixed_tool_name pre k) (Suc k)"
      by (subst pick_name.simps) auto
    show ?thesis
    proof (cases "map_of entries (suffixed_tool_name pre k) = None")
      case True
      then show ?thesis unfolding step by (simp add: pick_name.simps)
    next
      case taken: False
      have "map_of entries (pick_name fresh entries pre (suffixed_tool_name pre k) (Suc k)) = None
        \<or> (\<forall>j \<in> {Suc k..<10000}. map_of entries (suffixed_tool_name pre j) \<noteq> None)"
        by (rule 1) (use False in auto)
      with taken show ?thesis unfolding step by (metis atLeastLessThan_iff le_antisym not_less_eq_eq)
    qed
  qed
qed

text \<open>With fewer than 9,998 entries the loop over suffixes ends at a free name, so the generated last
  resort is never used.\<close>

lemma pick_name_free:
  assumes "valid_name pre" and "length entries < 9998"
  shows "map_of entries (pick_name fresh entries pre candidate 2) = None"
proof (rule ccontr)
  assume "\<not> ?thesis"
  with pick_name_taken [of entries fresh pre candidate 2] have "suffixed_tool_name pre ` {2..<10000} \<subseteq> fst ` set entries"
    by (fastforce simp: map_of_eq_None_iff)
  then have "card (suffixed_tool_name pre ` {2..<10000}) \<le> card (fst ` set entries)"
    by (intro card_mono) simp_all
  also have "\<dots> \<le> length entries" by (metis card_length length_map set_map)
  finally have "card (suffixed_tool_name pre ` {2..<10000}) < 9998" using assms(2) by simp
  moreover have "inj_on (suffixed_tool_name pre) {2..<10000}"
    by (rule inj_onI) (rule suffixed_inj [OF assms(1)], auto)
  ultimately show False by (simp add: card_image)
qed

lemma pick_name_valid:
  "valid_name candidate \<Longrightarrow> valid_name (pick_name fresh entries pre candidate k)"
proof (induction fresh entries pre candidate k rule: pick_name.induct)
  case (1 fresh entries pre candidate k)
  then show ?case
    by (subst pick_name.simps) (auto simp: suffixed_tool_name_def Let_def)
qed

lemma unique_tool_name_free:
  assumes "length entries < 9998"
  shows "map_of entries (unique_tool_name fresh r n entries) = None"
    and "valid_name (unique_tool_name fresh r n entries)"
proof -
  have "valid_name (unwrap_or (sanitize_tool_name r) (opt_filter (\<lambda>v. v \<noteq> [])
      (map_option (\<lambda>v. sanitize_tool_name (v @ ''_'' @ sanitize_tool_name r)) n)))"
    by (cases n) (auto simp: opt_filter_Some)
  with assms show "map_of entries (unique_tool_name fresh r n entries) = None"
    and "valid_name (unique_tool_name fresh r n entries)"
    by (simp_all add: unique_tool_name_def Let_def pick_name_free pick_name_valid)
qed

section \<open>The invariant of a context\<close>

definition upstream_tool_name :: "json \<Rightarrow> string" where
  "upstream_tool_name t = unwrap_or [] (Option.bind (jget t ''function'') (\<lambda>f. get_str f ''name''))"

text \<open>Every upstream tool has an entry under its name that leads back to the client's name.\<close>

definition names_ok :: "tool_context \<Rightarrow> bool" where
  "names_ok cx \<longleftrightarrow> om_ok (cx_entries cx)
     \<and> distinct (map upstream_tool_name (cx_upstream_tools cx))
     \<and> set (map upstream_tool_name (cx_upstream_tools cx)) = fst ` set (cx_entries cx)
     \<and> list_all valid_name (map upstream_tool_name (cx_upstream_tools cx))
     \<and> list_all2 (\<lambda>t r. map_option te_response_name (map_of (cx_entries cx) (upstream_tool_name t)) = Some r)
         (cx_upstream_tools cx) (cx_source_names cx)"

definition tools_size :: "ext_lib \<Rightarrow> json list \<Rightarrow> nat" where
  "tools_size L ts = sum_list (map (serialized_json_chars L) ts)"

definition internal_tool :: json where
  "internal_tool = tool_value ''tool_search_tool'' tool_search_declaration"

definition budget_ok :: "ext_lib \<Rightarrow> tool_context \<Rightarrow> bool" where
  "budget_ok L cx \<longleftrightarrow>
     (let b = cx_budget cx; ts = cx_upstream_tools cx
      in tb_budgeted b = tb_accepted b \<and> tb_budgeted b \<le> MAX_EXTERNAL_TOOL_DECLARATIONS
         \<and> tb_payload_chars b \<le> MAX_EXTERNAL_TOOLS_PAYLOAD_CHARS
         \<and> (length ts = tb_budgeted b \<and> tools_size L ts = tb_payload_chars b
            \<or> length ts = Suc (tb_budgeted b) \<and> has_response_tool cx ''tool_search_tool''
              \<and> tools_size L ts = tb_payload_chars b + serialized_json_chars L internal_tool)
         \<and> (tb_attempted b < u64_max \<longrightarrow> tb_attempted b =
              tb_accepted b + tb_dropped_count b + tb_dropped_schema b + tb_dropped_payload b)
         \<and> length (tb_dropped_names b) \<le> MAX_TOOL_BUDGET_DIAGNOSTIC_NAMES)"

lemma upstream_tool_name_value [simp]: "upstream_tool_name (tool_value u d) = u"
  by (simp add: upstream_tool_name_def tool_value_def)

lemma names_ok_length:
  assumes "names_ok cx"
  shows "length (cx_entries cx) = length (cx_upstream_tools cx)"
proof -
  have "length (cx_entries cx) = card (fst ` set (cx_entries cx))"
    using assms by (intro btree.length_card) (simp add: names_ok_def)
  also have "\<dots> = card (set (map upstream_tool_name (cx_upstream_tools cx)))" using assms by (simp add: names_ok_def)
  also have "\<dots> = length (cx_upstream_tools cx)"
    using assms distinct_card [of "map upstream_tool_name (cx_upstream_tools cx)"] by (simp add: names_ok_def)
  finally show ?thesis .
qed

lemma budget_ok_length: "names_ok cx \<Longrightarrow> budget_ok L cx \<Longrightarrow> length (cx_entries cx) \<le> 129"
  using names_ok_length [of cx] by (auto simp: budget_ok_def Let_def MAX_EXTERNAL_TOOL_DECLARATIONS_def)

lemma names_ok_push:
  assumes ok: "names_ok cx" and len: "length (cx_entries cx) < 9998"
  shows "names_ok (push_tool_value d (tool_value_for_declaration fresh cx d') cx)"
proof -
  let ?u = "unique_tool_name fresh (td_response_name d') (td_namespace d') (cx_entries cx)"
  have u: "map_of (cx_entries cx) ?u = None" "valid_name ?u"
    using unique_tool_name_free [OF len] by simp_all
  then have new: "?u \<notin> set (map upstream_tool_name (cx_upstream_tools cx))"
    using ok by (simp add: names_ok_def map_of_eq_None_iff)
  then have other: "upstream_tool_name t \<noteq> ?u" if "t \<in> set (cx_upstream_tools cx)" for t
    using that by (metis imageI set_map)
  have "list_all2 (\<lambda>t r. map_option te_response_name (map_of (om_insert ?u e (cx_entries cx)) (upstream_tool_name t)) = Some r)
         (cx_upstream_tools cx) (cx_source_names cx)" for e
    using ok other by (auto simp: names_ok_def list_all2_conv_all_nth map_simps)
  with ok u new show ?thesis
    by (auto simp: names_ok_def push_tool_value_def tool_value_for_declaration_def Let_def om_insert_keys
        map_simps list_all2_appendI)
qed

lemma names_ok_cong:
  "cx_entries cx' = cx_entries cx \<Longrightarrow> cx_upstream_tools cx' = cx_upstream_tools cx \<Longrightarrow>
   cx_source_names cx' = cx_source_names cx \<Longrightarrow> names_ok cx' = names_ok cx"
  by (simp add: names_ok_def)

lemma has_response_push:
  assumes "has_response_tool cx n" and "map_of (cx_entries cx) (fst tv) = None" and "om_ok (cx_entries cx)"
  shows "has_response_tool (push_tool_value d tv cx) n"
proof -
  have "fst tv \<notin> fst ` set (cx_entries cx)" using assms(2) by (simp add: map_of_eq_None_iff)
  then have "{e \<in> set (cx_entries cx). fst e \<noteq> fst tv} = set (cx_entries cx)" by (auto simp: image_iff)
  then have "set (om_insert (fst tv) e (cx_entries cx)) = insert (fst tv, e) (set (cx_entries cx))" for e
    using assms(3) by (simp add: btree.set_ins)
  with assms(1) show ?thesis
    by (auto simp: has_response_tool_def has_external_tool_def push_tool_value_def list_ex_iff map_simps)
qed

definition context_ok :: "ext_lib \<Rightarrow> tool_context \<Rightarrow> bool" where
  "context_ok L cx = (names_ok cx \<and> budget_ok L cx)"

lemma names_ok_external:
  assumes "names_ok cx" and "length (cx_entries cx) < 9998"
  shows "names_ok (push_external_declaration L fresh d cx)"
  using assms(1) names_ok_push [OF assms]
  by (simp add: push_external_declaration_def Let_def names_ok_cong [where cx' = "cx\<lparr>cx_budget := _\<rparr>" and cx = cx]
      names_ok_cong [where cx' = "push_tool_value _ _ cx\<lparr>cx_budget := _\<rparr>" and cx = "push_tool_value _ _ cx"])

lemma budget_notes [simp]:
  "tb_accepted (count_truncated d b) = tb_accepted b" "tb_budgeted (count_truncated d b) = tb_budgeted b"
  "tb_payload_chars (count_truncated d b) = tb_payload_chars b"
  "tb_attempted (count_truncated d b) = tb_attempted b"
  "tb_dropped_count (count_truncated d b) = tb_dropped_count b"
  "tb_dropped_schema (count_truncated d b) = tb_dropped_schema b"
  "tb_dropped_payload (count_truncated d b) = tb_dropped_payload b"
  "tb_dropped_names (count_truncated d b) = tb_dropped_names b"
  "tb_accepted (remember_dropped_tool_name n b) = tb_accepted b"
  "tb_budgeted (remember_dropped_tool_name n b) = tb_budgeted b"
  "tb_payload_chars (remember_dropped_tool_name n b) = tb_payload_chars b"
  "tb_attempted (remember_dropped_tool_name n b) = tb_attempted b"
  "tb_dropped_count (remember_dropped_tool_name n b) = tb_dropped_count b"
  "tb_dropped_schema (remember_dropped_tool_name n b) = tb_dropped_schema b"
  "tb_dropped_payload (remember_dropped_tool_name n b) = tb_dropped_payload b"
  by (simp_all add: count_truncated_def remember_dropped_tool_name_def)

lemma remember_bounded:
  "length (tb_dropped_names b) \<le> 20 \<Longrightarrow> length (tb_dropped_names (remember_dropped_tool_name n b)) \<le> 20"
  by (simp add: remember_dropped_tool_name_def MAX_TOOL_BUDGET_DIAGNOSTIC_NAMES_def)

text \<open>A declaration is either dropped, counted under one of three reasons, or pushed.\<close>

lemma push_external_dropped_or_pushed:
  obtains (dropped) b where "push_external_declaration L fresh d cx = cx\<lparr>cx_budget := b\<rparr>"
      and "tb_accepted b = tb_accepted (cx_budget cx)" and "tb_budgeted b = tb_budgeted (cx_budget cx)"
      and "tb_payload_chars b = tb_payload_chars (cx_budget cx)"
      and "tb_attempted b = sat_add (tb_attempted (cx_budget cx)) 1"
      and "(tb_dropped_count b, tb_dropped_schema b, tb_dropped_payload b) \<in>
        (let c = tb_dropped_count (cx_budget cx); s = tb_dropped_schema (cx_budget cx);
             p = tb_dropped_payload (cx_budget cx)
         in {(sat_add c 1, s, p), (c, sat_add s 1, p), (c, s, sat_add p 1)})"
      and "length (tb_dropped_names (cx_budget cx)) \<le> 20 \<Longrightarrow> length (tb_dropped_names b) \<le> 20"
    | (pushed) d' b tv where "tv = tool_value_for_declaration fresh cx d'"
      and "push_external_declaration L fresh d cx = (push_tool_value d' tv cx)\<lparr>cx_budget := b\<rparr>"
      and "tb_budgeted (cx_budget cx) < MAX_EXTERNAL_TOOL_DECLARATIONS"
      and "sat_add (tb_payload_chars (cx_budget cx)) (serialized_json_chars L (snd tv)) \<le> MAX_EXTERNAL_TOOLS_PAYLOAD_CHARS"
      and "tb_accepted b = sat_add (tb_accepted (cx_budget cx)) 1"
      and "tb_budgeted b = sat_add (tb_budgeted (cx_budget cx)) 1"
      and "tb_payload_chars b = sat_add (tb_payload_chars (cx_budget cx)) (serialized_json_chars L (snd tv))"
      and "tb_attempted b = sat_add (tb_attempted (cx_budget cx)) 1"
      and "tb_dropped_count b = tb_dropped_count (cx_budget cx)"
      and "tb_dropped_schema b = tb_dropped_schema (cx_budget cx)"
      and "tb_dropped_payload b = tb_dropped_payload (cx_budget cx)"
      and "tb_dropped_names b = tb_dropped_names (cx_budget cx)"
proof -
  let ?b = "(cx_budget cx)\<lparr>tb_attempted := sat_add (tb_attempted (cx_budget cx)) 1\<rparr>"
  let ?d = "shorten_description d" and ?b' = "count_truncated d ?b"
  let ?tv = "tool_value_for_declaration fresh cx ?d"
  let ?s = "serialized_json_chars L (snd ?tv)"
  note defs = push_external_declaration_def Let_def
  consider (count) "tb_budgeted (cx_budget cx) \<ge> MAX_EXTERNAL_TOOL_DECLARATIONS"
    | (schema) "tb_budgeted (cx_budget cx) < MAX_EXTERNAL_TOOL_DECLARATIONS"
        "serialized_json_chars L (td_parameters d) > MAX_EXTERNAL_TOOL_SCHEMA_CHARS"
    | (payload) "tb_budgeted (cx_budget cx) < MAX_EXTERNAL_TOOL_DECLARATIONS"
        "\<not> serialized_json_chars L (td_parameters d) > MAX_EXTERNAL_TOOL_SCHEMA_CHARS"
        "sat_add (tb_payload_chars (cx_budget cx)) ?s > MAX_EXTERNAL_TOOLS_PAYLOAD_CHARS"
    | (fits) "tb_budgeted (cx_budget cx) < MAX_EXTERNAL_TOOL_DECLARATIONS"
        "\<not> serialized_json_chars L (td_parameters d) > MAX_EXTERNAL_TOOL_SCHEMA_CHARS"
        "sat_add (tb_payload_chars (cx_budget cx)) ?s \<le> MAX_EXTERNAL_TOOLS_PAYLOAD_CHARS"
    by linarith
  then show thesis
  proof cases
    case count
    then show thesis
      by (intro dropped [of "remember_dropped_tool_name (td_response_name d)
          (?b\<lparr>tb_dropped_count := sat_add (tb_dropped_count ?b) 1\<rparr>)"]) (simp_all add: defs remember_bounded)
  next
    case schema
    then show thesis
      by (intro dropped [of "remember_dropped_tool_name (td_response_name d)
          (?b\<lparr>tb_dropped_schema := sat_add (tb_dropped_schema ?b) 1\<rparr>)"]) (simp_all add: defs remember_bounded)
  next
    case payload
    then show thesis
      by (intro dropped [of "remember_dropped_tool_name (td_response_name ?d)
          (?b'\<lparr>tb_dropped_payload := sat_add (tb_dropped_payload ?b') 1\<rparr>)"]) (simp_all add: defs remember_bounded)
  next
    case fits
    then show thesis
      by (intro pushed [of ?tv ?d "?b'\<lparr>tb_accepted := sat_add (tb_accepted ?b') 1,
            tb_payload_chars := sat_add (tb_payload_chars ?b') ?s,
            tb_budgeted := sat_add (tb_budgeted ?b') 1\<rparr>"]) (simp_all add: defs)
  qed
qed

lemma sat_add_small: "a + n \<le> 160001 \<Longrightarrow> sat_add a n = a + n"
  by (simp add: sat_add_def u64_max_def)

lemma sat_add_le: "sat_add a n \<le> 160000 \<Longrightarrow> sat_add a n = a + n"
  by (auto simp: sat_add_def u64_max_def min_def split: if_splits)

lemma budget_ok_external:
  assumes "names_ok cx" and "budget_ok L cx"
  shows "budget_ok L (push_external_declaration L fresh d cx)"
proof (cases rule: push_external_dropped_or_pushed [of L fresh d cx])
  case (dropped b)
  let ?c = "cx_budget cx"
  have acc: "tb_attempted ?c < u64_max \<longrightarrow> tb_attempted ?c =
      tb_accepted ?c + tb_dropped_count ?c + tb_dropped_schema ?c + tb_dropped_payload ?c"
    using assms(2) by (simp add: budget_ok_def Let_def)
  have acc': "tb_attempted b < u64_max \<longrightarrow> tb_attempted b =
      tb_accepted b + tb_dropped_count b + tb_dropped_schema b + tb_dropped_payload b"
    using acc dropped(2,5,6) by (auto simp: Let_def sat_add_def min_def split: if_splits)
  have has: "has_response_tool (cx\<lparr>cx_budget := b\<rparr>) n = has_response_tool cx n" for n
    by (simp add: has_response_tool_def has_external_tool_def)
  have "length (tb_dropped_names b) \<le> 20"
    using assms(2) dropped(7) by (simp add: budget_ok_def Let_def MAX_TOOL_BUDGET_DIAGNOSTIC_NAMES_def)
  with assms(2) acc' dropped(2-4) show ?thesis
    unfolding dropped(1) budget_ok_def Let_def has MAX_TOOL_BUDGET_DIAGNOSTIC_NAMES_def by (elim conjE) simp
next
  case (pushed d' b tv)
  let ?c = "cx_budget cx"
  have free: "map_of (cx_entries cx) (fst tv) = None"
    using pushed(1) unique_tool_name_free(1) budget_ok_length [OF assms]
    by (simp add: tool_value_for_declaration_def Let_def)
  have b: "tb_budgeted b = Suc (tb_budgeted ?c)" "tb_accepted b = Suc (tb_accepted ?c)"
    "tb_payload_chars b = tb_payload_chars ?c + serialized_json_chars L (snd tv)"
    using pushed(3-7) assms(2) sat_add_small [of "tb_budgeted ?c" 1] sat_add_le
    by (auto simp: budget_ok_def Let_def MAX_EXTERNAL_TOOL_DECLARATIONS_def MAX_EXTERNAL_TOOLS_PAYLOAD_CHARS_def)
  have "tb_attempted b < u64_max \<longrightarrow> tb_attempted b =
      tb_accepted b + tb_dropped_count b + tb_dropped_schema b + tb_dropped_payload b"
    using assms(2) pushed(8-11) b(2) by (auto simp: budget_ok_def Let_def sat_add_def min_def split: if_splits)
  moreover have "has_response_tool ((push_tool_value d' tv cx)\<lparr>cx_budget := b\<rparr>) n" if "has_response_tool cx n" for n
    using has_response_push [OF that free] assms(1)
    by (simp add: names_ok_def has_response_tool_def has_external_tool_def)
  ultimately show ?thesis using assms(2) pushed b
    by (auto simp: budget_ok_def Let_def tools_size_def push_tool_value_def)
qed

lemma context_ok_external:
  "context_ok L cx \<Longrightarrow> context_ok L (push_external_declaration L fresh d cx)"
  using budget_ok_length [of cx L] names_ok_external [of cx L fresh d] budget_ok_external [of cx L fresh d]
  by (simp add: context_ok_def)

lemma context_ok_counters:
  "context_ok L (cx\<lparr>cx_discovered := n\<rparr>) = context_ok L cx"
  "context_ok L (cx\<lparr>cx_request_tool_items := n\<rparr>) = context_ok L cx"
  by (simp_all add: context_ok_def names_ok_def budget_ok_def has_response_tool_def has_external_tool_def)

lemma context_ok_fold:
  assumes "context_ok L cx" and "\<And>d cx. context_ok L cx \<Longrightarrow> context_ok L (f d cx)"
  shows "context_ok L (fold f ds cx)"
  using assms(1) by (induction ds arbitrary: cx) (auto intro: assms(2))

lemma context_ok_empty: "context_ok L empty_context"
  by (simp add: context_ok_def names_ok_def budget_ok_def empty_context_def empty_budget_def tools_size_def Let_def)

lemma context_ok_request: "context_ok L (from_request_tools L fresh tools)"
  unfolding from_request_tools_def
  by (auto split: option.split intro!: context_ok_fold context_ok_external
      simp: context_ok_counters context_ok_empty)

lemma context_ok_discovered:
  "context_ok L cx \<Longrightarrow> context_ok L (add_tool_search_output_tools L fresh input ids cx)"
  unfolding add_tool_search_output_tools_def
  by (auto split: option.split intro!: context_ok_fold context_ok_external simp: discover_def context_ok_counters)

lemma map_of_promote:
  "map_of (cx_entries (promote_codex_tool_search_tools cx)) k =
     map_option (\<lambda>e. if te_response_name e \<in> set CODEX_TOOL_SEARCH_NAMES then e\<lparr>te_kind := CodexToolSearch\<rparr> else e)
       (map_of (cx_entries cx) k)"
  by (simp add: promote_codex_tool_search_tools_def map_of_map)

lemma promote_names:
  "map fst (cx_entries (promote_codex_tool_search_tools cx)) = map fst (cx_entries cx)"
  "map (te_response_name \<circ> snd) (cx_entries (promote_codex_tool_search_tools cx)) =
     map (te_response_name \<circ> snd) (cx_entries cx)"
  by (auto simp: promote_codex_tool_search_tools_def)

lemma has_response_tool_iff: "has_response_tool cx n \<longleftrightarrow> n \<in> response_tool_name_set cx"
  by (force simp: has_response_tool_def has_external_tool_def response_tool_name_set_def list_ex_iff
      map_of_eq_None_iff)

lemma context_ok_promote:
  assumes "context_ok L cx"
  shows "context_ok L (promote_codex_tool_search_tools cx)"
proof -
  have same: "cx_upstream_tools (promote_codex_tool_search_tools cx) = cx_upstream_tools cx"
    "cx_source_names (promote_codex_tool_search_tools cx) = cx_source_names cx"
    "cx_budget (promote_codex_tool_search_tools cx) = cx_budget cx"
    by (simp_all add: promote_codex_tool_search_tools_def)
  have keys: "fst ` set (cx_entries (promote_codex_tool_search_tools cx)) = fst ` set (cx_entries cx)"
    by (metis promote_names(1) set_map)
  have om: "om_ok (cx_entries (promote_codex_tool_search_tools cx)) = om_ok (cx_entries cx)"
    by (simp add: om_ok_def promote_names)
  have resp: "map_option te_response_name (map_of (cx_entries (promote_codex_tool_search_tools cx)) k) =
      map_option te_response_name (map_of (cx_entries cx) k)" for k
    by (simp add: map_of_promote option.map_comp comp_def if_distrib cong: if_cong)
  have has: "has_response_tool (promote_codex_tool_search_tools cx) n = has_response_tool cx n" for n
    by (simp only: has_response_tool_iff response_tool_name_set_def promote_names)
  show ?thesis
    using assms unfolding context_ok_def names_ok_def budget_ok_def same keys Let_def om resp has .
qed

lemma search_declaration:
  "td_response_name tool_search_declaration = ''tool_search_tool''"
  by (simp add: tool_search_declaration_def)

lemma context_ok_bridge:
  assumes "context_ok L cx"
  shows "context_ok L (ensure_codex_tool_search_bridge fresh cx)"
proof (cases "has_response_tool cx ''tool_search_tool'' \<or> has_response_tool cx ''tool_search''")
  case True
  with assms show ?thesis by (simp add: ensure_codex_tool_search_bridge_def)
next
  case False
  let ?tv = "tool_value_for_declaration fresh cx tool_search_declaration"
  have new: "ensure_codex_tool_search_bridge fresh cx = push_tool_value tool_search_declaration ?tv cx"
    using False by (simp add: ensure_codex_tool_search_bridge_def push_internal_declaration_def)
  have "names_ok cx" "length (cx_entries cx) < 9998"
    using assms budget_ok_length [of cx L] by (simp_all add: context_ok_def)
  then have "names_ok (ensure_codex_tool_search_bridge fresh cx)" unfolding new by (rule names_ok_push)
  moreover have "sanitize_tool_name ''tool_search_tool'' = ''tool_search_tool''" by code_simp
  then have tv: "?tv = (''tool_search_tool'', internal_tool)"
    using False search_declaration by (simp add: tool_value_for_declaration_def unique_tool_name_def
        has_response_tool_def has_external_tool_def internal_tool_def Let_def)
  have "has_response_tool (push_tool_value tool_search_declaration ?tv cx) ''tool_search_tool''"
    by (simp add: tv has_response_tool_def has_external_tool_def push_tool_value_def map_simps)
  then have "budget_ok L (ensure_codex_tool_search_bridge fresh cx)"
    using assms False unfolding new
    by (auto simp: context_ok_def budget_ok_def tv tools_size_def push_tool_value_def Let_def)
  ultimately show ?thesis by (simp add: context_ok_def)
qed

lemma context_ok_request_context:
  "context_ok L (request_tool_context L fresh input ids suppress promote injected)"
  by (auto simp: request_tool_context_def Let_def
      intro!: context_ok_bridge context_ok_promote context_ok_discovered context_ok_request)

section \<open>Properties\<close>

text \<open>C20: whatever tools a request declares, what the proxy sends upstream keeps to the budgets: at most
  128 declared tools, at most 160,000 characters of them, next to at most one injected search tool;
  and every declaration attempted is accounted for, as accepted or under one of three reasons.\<close>

theorem tool_budgets_kept:
  "let cx = request_tool_context L fresh input ids suppress promote injected; b = cx_budget cx;
       ts = cx_upstream_tools cx
   in tb_accepted b \<le> 128 \<and> length ts \<in> {tb_accepted b, Suc (tb_accepted b)}
      \<and> tools_size L ts \<le> 160000 + (if length ts = tb_accepted b then 0 else serialized_json_chars L internal_tool)
      \<and> (tb_attempted b \<ge> u64_max \<or> tb_attempted b =
            tb_accepted b + tb_dropped_count b + tb_dropped_schema b + tb_dropped_payload b)"
proof -
  define cx where "cx = request_tool_context L fresh input ids suppress promote injected"
  have "budget_ok L cx" using context_ok_request_context by (simp add: cx_def context_ok_def)
  then show ?thesis unfolding cx_def [symmetric]
    by (auto simp: budget_ok_def Let_def MAX_EXTERNAL_TOOL_DECLARATIONS_def MAX_EXTERNAL_TOOLS_PAYLOAD_CHARS_def)
qed


end
