(* ===== verification/Json_Field_Stream.thy ===== *)
theory Json_Field_Stream
  imports Stream_Machines
begin

text \<open>
  The extractor that reads the patch out of the arguments of a streamed call while they arrive,
  \<^verbatim>\<open>JsonStringFieldExtractor\<close> and \<^verbatim>\<open>JsonStringDecoder\<close> of
  \<^verbatim>\<open>crates/proxy/src/responses/stream_tool_calls/visible_bridge.rs\<close>: a state machine over the
  characters of a JSON object that emits the decoded strings of the members \<^verbatim>\<open>patch\<close> and \<^verbatim>\<open>input\<close>.
  A chunk is the list of its characters (\<open>rchar\<close>), the output the UTF-8 text.
\<close>

section \<open>Characters of escapes\<close>

definition hex_value :: "char \<Rightarrow> nat" where
  "hex_value c =
     (if ascii_digit c then byte_val c - 48
      else if byte_val c \<ge> 97 then byte_val c - 87 else byte_val c - 55)"

text \<open>\<^verbatim>\<open>u32::from_str_radix(hex, 16)\<close> of a text of hexadecimal digits.\<close>

definition from_hex :: "string \<Rightarrow> nat" where
  "from_hex s = foldl (\<lambda>n c. n * 16 + hex_value c) 0 s"

text \<open>The UTF-8 encoding of a code point, and \<^verbatim>\<open>char::from_u32\<close>: no surrogates.\<close>

definition utf8 :: "nat \<Rightarrow> rchar" where
  "utf8 n =
     (if n < 0x80 then [char_of n]
      else if n < 0x800 then [char_of (0xC0 + n div 64), char_of (0x80 + n mod 64)]
      else if n < 0x10000 then
        [char_of (0xE0 + n div 4096), char_of (0x80 + n div 64 mod 64), char_of (0x80 + n mod 64)]
      else [char_of (0xF0 + n div 262144), char_of (0x80 + n div 4096 mod 64),
            char_of (0x80 + n div 64 mod 64), char_of (0x80 + n mod 64)])"

definition char_from_u32 :: "nat \<Rightarrow> rchar option" where
  "char_from_u32 n = (if n < 0xD800 \<or> (0xDFFF < n \<and> n < 0x110000) then Some (utf8 n) else None)"

section \<open>The string decoder\<close>

record json_string_decoder =
  jd_escaped :: bool
  jd_unicode :: "string option"

datatype json_string_status = Continuing | Ended

definition decoder_reset :: json_string_decoder where
  "decoder_reset = \<lparr>jd_escaped = False, jd_unicode = None\<rparr>"

definition is_hex_char :: "rchar \<Rightarrow> bool" where
  "is_hex_char ch = (case ch of [c] \<Rightarrow> ascii_hexdigit c | _ \<Rightarrow> False)"

definition short_escape :: "rchar \<Rightarrow> rchar" where
  "short_escape ch =
     (if ch = ''b'' then [CHR 0x08] else if ch = ''f'' then [CHR 0x0C] else if ch = ''n'' then [CHR 0x0A]
      else if ch = ''r'' then [CHR 0x0D] else if ch = ''t'' then [CHR 0x09] else ch)"

definition decoder_feed ::
  "rchar \<Rightarrow> json_string_decoder \<Rightarrow> json_string_decoder \<times> string \<times> json_string_status" where
  "decoder_feed ch d =
     (case jd_unicode d of
        Some hex \<Rightarrow>
          (if is_hex_char ch then
             (let hex = hex @ ch
              in if length hex = 4
                 then (d\<lparr>jd_unicode := None\<rparr>, unwrap_or [] (char_from_u32 (from_hex hex)), Continuing)
                 else (d\<lparr>jd_unicode := Some hex\<rparr>, [], Continuing))
           else (d\<lparr>jd_unicode := None\<rparr>, ch, Continuing))
      | None \<Rightarrow>
          (if jd_escaped d then
             (let d = d\<lparr>jd_escaped := False\<rparr>
              in if ch = ''u'' then (d\<lparr>jd_unicode := Some []\<rparr>, [], Continuing)
                 else (d, short_escape ch, Continuing))
           else if ch = [CHR 0x22] then (d, [], Ended)
           else if ch = [CHR 0x5C] then (d\<lparr>jd_escaped := True\<rparr>, [], Continuing)
           else (d, ch, Continuing)))"

section \<open>The field extractor\<close>

datatype json_field_mode =
  SeekingKey | InKey | AfterKey | BeforeValue | InTargetValue | InIgnoredString

record json_string_field_extractor =
  jx_mode :: json_field_mode
  jx_decoder :: json_string_decoder
  jx_current_key :: string
  jx_pending_key :: string

definition new_extractor :: json_string_field_extractor where
  "new_extractor = \<lparr>jx_mode = SeekingKey, jx_decoder = decoder_reset, jx_current_key = [], jx_pending_key = []\<rparr>"

definition extract_char ::
  "rchar \<Rightarrow> json_string_field_extractor \<times> string \<Rightarrow> json_string_field_extractor \<times> string" where
  "extract_char ch xo =
     (case xo of (x, output) \<Rightarrow>
        (case jx_mode x of
           SeekingKey \<Rightarrow>
             (if ch = [CHR 0x22]
              then x\<lparr>jx_current_key := [], jx_decoder := decoder_reset, jx_mode := InKey\<rparr> else x, output)
         | InKey \<Rightarrow>
             (case decoder_feed ch (jx_decoder x) of
                (d, decoded, Ended) \<Rightarrow>
                  (x\<lparr>jx_decoder := d, jx_pending_key := jx_current_key x, jx_mode := AfterKey\<rparr>, output)
              | (d, decoded, Continuing) \<Rightarrow>
                  (x\<lparr>jx_decoder := d, jx_current_key := jx_current_key x @ decoded\<rparr>, output))
         | AfterKey \<Rightarrow>
             (if is_whitespace ch then x
              else x\<lparr>jx_mode := (if ch = '':'' then BeforeValue else SeekingKey)\<rparr>, output)
         | BeforeValue \<Rightarrow>
             (if is_whitespace ch then x
              else if ch = [CHR 0x22] then
                x\<lparr>jx_decoder := decoder_reset,
                  jx_mode := (if jx_pending_key x \<in> {''patch'', ''input''} then InTargetValue else InIgnoredString)\<rparr>
              else x\<lparr>jx_mode := SeekingKey\<rparr>, output)
         | InTargetValue \<Rightarrow>
             (case decoder_feed ch (jx_decoder x) of
                (d, decoded, Ended) \<Rightarrow> (x\<lparr>jx_decoder := d, jx_mode := SeekingKey\<rparr>, output)
              | (d, decoded, Continuing) \<Rightarrow> (x\<lparr>jx_decoder := d\<rparr>, output @ decoded))
         | InIgnoredString \<Rightarrow>
             (case decoder_feed ch (jx_decoder x) of
                (d, decoded, Ended) \<Rightarrow> (x\<lparr>jx_decoder := d, jx_mode := SeekingKey\<rparr>, output)
              | (d, decoded, Continuing) \<Rightarrow> (x\<lparr>jx_decoder := d\<rparr>, output))))"

definition extractor_feed ::
  "json_string_field_extractor \<Rightarrow> rchar list \<Rightarrow> json_string_field_extractor \<times> string" where
  "extractor_feed x chunk = fold extract_char chunk (x, [])"

lemma extract_char_output:
  "extract_char ch (x, pre @ out) = (let (x', out') = extract_char ch (x, out) in (x', pre @ out'))"
  by (simp add: extract_char_def split: json_field_mode.split prod.split json_string_status.split)

interpretation field_chars: step_machine extract_char
  by unfold_locales (rule extract_char_output)

lemma extractor_feed_all: "feed_all extractor_feed x chunks = fold extract_char (concat chunks) (x, [])"
  using field_chars.feed_all_concat [of x chunks] by (simp add: extractor_feed_def [abs_def])

section \<open>JSON strings and objects as text\<close>

text \<open>
  A JSON string is a sequence of pieces: a plain character, a one-letter escape or an escape by four
  hexadecimal digits. \<open>piece_text\<close> is how a piece is written, \<open>piece_value\<close> what it stands for.
\<close>

datatype json_piece = Plain rchar | Short rchar | Hex string

fun piece_text :: "json_piece \<Rightarrow> rchar list" where
  "piece_text (Plain ch) = [ch]"
| "piece_text (Short ch) = [[CHR 0x5C], ch]"
| "piece_text (Hex h) = [CHR 0x5C] # ''u'' # map (\<lambda>c. [c]) h"

fun piece_value :: "json_piece \<Rightarrow> string" where
  "piece_value (Plain ch) = ch"
| "piece_value (Short ch) = short_escape ch"
| "piece_value (Hex h) = utf8 (from_hex h)"

fun piece_ok :: "json_piece \<Rightarrow> bool" where
  "piece_ok (Plain ch) = (ch \<noteq> [CHR 0x22] \<and> ch \<noteq> [CHR 0x5C])"
| "piece_ok (Short ch) = (ch \<in> set [[CHR 0x22], [CHR 0x5C], ''/'', ''b'', ''f'', ''n'', ''r'', ''t''])"
| "piece_ok (Hex h) = (length h = 4 \<and> list_all ascii_hexdigit h \<and> char_from_u32 (from_hex h) \<noteq> None)"

definition string_text :: "json_piece list \<Rightarrow> rchar list" where
  "string_text ps = [CHR 0x22] # concat (map piece_text ps) @ [[CHR 0x22]]"

definition string_value :: "json_piece list \<Rightarrow> string" where
  "string_value ps = concat (map piece_value ps)"

text \<open>
  A member of a flat object: what stands before its key (the brace or a comma, with space), the key,
  space around the colon, and a string or another scalar. The texts around the strings hold no quote.
\<close>

datatype json_scalar = StringV "json_piece list" | OtherV "rchar list"

record json_member =
  jm_before :: "rchar list"
  jm_key :: "json_piece list"
  jm_space1 :: "rchar list"
  jm_space2 :: "rchar list"
  jm_value :: json_scalar

definition no_quote :: "rchar list \<Rightarrow> bool" where
  "no_quote chs = ([CHR 0x22] \<notin> set chs)"

fun scalar_text :: "json_scalar \<Rightarrow> rchar list" where
  "scalar_text (StringV ps) = string_text ps"
| "scalar_text (OtherV chs) = chs"

fun scalar_ok :: "json_scalar \<Rightarrow> bool" where
  "scalar_ok (StringV ps) = list_all piece_ok ps"
| "scalar_ok (OtherV chs) = (chs \<noteq> [] \<and> \<not> is_whitespace (hd chs) \<and> no_quote chs)"

definition member_ok :: "json_member \<Rightarrow> bool" where
  "member_ok m = (no_quote (jm_before m) \<and> list_all piece_ok (jm_key m) \<and> list_all is_whitespace (jm_space1 m)
     \<and> list_all is_whitespace (jm_space2 m) \<and> scalar_ok (jm_value m))"

definition member_text :: "json_member \<Rightarrow> rchar list" where
  "member_text m = jm_before m @ string_text (jm_key m) @ jm_space1 m @ '':'' # jm_space2 m @ scalar_text (jm_value m)"

text \<open>What a member contributes to the patch.\<close>

definition member_patch :: "json_member \<Rightarrow> string" where
  "member_patch m =
     (case jm_value m of
        StringV ps \<Rightarrow> if string_value (jm_key m) \<in> {''patch'', ''input''} then string_value ps else []
      | OtherV _ \<Rightarrow> [])"

section \<open>The decoder reads a string back\<close>

fun decode :: "rchar list \<Rightarrow> json_string_decoder \<Rightarrow> (json_string_decoder \<times> string) option" where
  "decode [] d = Some (d, [])"
| "decode (ch # chs) d =
     (case decoder_feed ch d of
        (d, out, Ended) \<Rightarrow> None
      | (d, out, Continuing) \<Rightarrow> map_option (\<lambda>(d, rest). (d, out @ rest)) (decode chs d))"

lemma decode_append:
  "decode (a @ b) d = Option.bind (decode a d) (\<lambda>(d, out). map_option (\<lambda>(d, rest). (d, out @ rest)) (decode b d))"
proof (induction a arbitrary: d)
  case Nil
  show ?case by (cases "decode b d") auto
next
  case (Cons ch a)
  show ?case
    by (cases "decode a (fst (decoder_feed ch d))")
      (auto simp: Cons.IH option.map_comp comp_def case_prod_beta split: prod.split json_string_status.split)
qed

lemma decode_hex:
  assumes "length h = 4" and "list_all ascii_hexdigit h"
  shows "decode (map (\<lambda>c. [c]) h) \<lparr>jd_escaped = False, jd_unicode = Some []\<rparr> =
     Some (decoder_reset, unwrap_or [] (char_from_u32 (from_hex h)))"
proof -
  from assms(1) obtain a b c d where "h = [a, b, c, d]"
    by (auto simp: length_Suc_conv numeral_eq_Suc)
  with assms(2) show ?thesis by (simp add: decoder_feed_def is_hex_char_def decoder_reset_def Let_def)
qed

lemma decode_hex_escape:
  "decode (piece_text (Hex h)) decoder_reset =
     decode (map (\<lambda>c. [c]) h) \<lparr>jd_escaped = False, jd_unicode = Some []\<rparr>"
  by (simp add: decoder_feed_def decoder_reset_def option.map_id)

lemma decode_piece: "piece_ok p \<Longrightarrow> decode (piece_text p) decoder_reset = Some (decoder_reset, piece_value p)"
proof (cases p)
  case (Hex h)
  moreover assume "piece_ok p"
  ultimately show ?thesis
    by (auto simp: decode_hex decode_hex_escape char_from_u32_def simp del: piece_text.simps split: if_splits)
qed (auto simp: decoder_feed_def decoder_reset_def)

lemma decode_pieces:
  "list_all piece_ok ps \<Longrightarrow>
   decode (concat (map piece_text ps)) decoder_reset = Some (decoder_reset, string_value ps)"
  by (induction ps) (simp_all add: decode_append decode_piece string_value_def)

lemma decoder_quote: "decoder_feed [CHR 0x22] decoder_reset = (decoder_reset, [], Ended)"
  by (simp add: decoder_feed_def decoder_reset_def)

section \<open>The extractor follows the object\<close>

lemma extract_in_key:
  "decode chs d = Some (d', out) \<Longrightarrow> jx_mode x = InKey \<Longrightarrow> jx_decoder x = d \<Longrightarrow>
   fold extract_char chs (x, o') = (x\<lparr>jx_decoder := d', jx_current_key := jx_current_key x @ out\<rparr>, o')"
proof (induction chs arbitrary: d x out)
  case (Cons ch chs)
  then show ?case
    by (auto simp: extract_char_def split: prod.splits json_string_status.splits)
qed simp

lemma extract_in_target:
  "decode chs d = Some (d', out) \<Longrightarrow> jx_mode x = InTargetValue \<Longrightarrow> jx_decoder x = d \<Longrightarrow>
   fold extract_char chs (x, o') = (x\<lparr>jx_decoder := d'\<rparr>, o' @ out)"
proof (induction chs arbitrary: d x out o')
  case (Cons ch chs)
  then show ?case
    by (auto simp: extract_char_def split: prod.splits json_string_status.splits)
qed simp

lemma extract_in_ignored:
  "decode chs d = Some (d', out) \<Longrightarrow> jx_mode x = InIgnoredString \<Longrightarrow> jx_decoder x = d \<Longrightarrow>
   fold extract_char chs (x, o') = (x\<lparr>jx_decoder := d'\<rparr>, o')"
proof (induction chs arbitrary: d x out)
  case (Cons ch chs)
  then show ?case
    by (auto simp: extract_char_def split: prod.splits json_string_status.splits)
qed simp

lemma extract_seeking: "no_quote chs \<Longrightarrow> jx_mode x = SeekingKey \<Longrightarrow> fold extract_char chs (x, out) = (x, out)"
  by (induction chs) (auto simp: no_quote_def extract_char_def)

lemma extract_space:
  "list_all is_whitespace chs \<Longrightarrow> jx_mode x \<in> {AfterKey, BeforeValue} \<Longrightarrow> fold extract_char chs (x, out) = (x, out)"
  by (induction chs) (auto simp: extract_char_def)

lemma extract_key:
  assumes "list_all piece_ok ps" and "jx_mode x = SeekingKey"
  obtains x' where "fold extract_char (string_text ps) (x, out) = (x', out)"
    and "jx_mode x' = AfterKey" and "jx_pending_key x' = string_value ps"
proof -
  let ?x = "x\<lparr>jx_current_key := [], jx_decoder := decoder_reset, jx_mode := InKey\<rparr>"
  have "fold extract_char (concat (map piece_text ps)) (?x, out) = (?x\<lparr>jx_current_key := string_value ps\<rparr>, out)"
    using extract_in_key [OF decode_pieces [OF assms(1)], of ?x] by simp
  then show thesis using assms(2)
    by (intro that [of "?x\<lparr>jx_current_key := string_value ps, jx_pending_key := string_value ps, jx_mode := AfterKey\<rparr>"])
      (simp_all add: string_text_def extract_char_def decoder_quote)
qed

lemma extract_value:
  assumes "scalar_ok v" and "jx_mode x = BeforeValue"
  obtains x' where "fold extract_char (scalar_text v) (x, out) =
      (x', out @ (case v of StringV ps \<Rightarrow> if jx_pending_key x \<in> {''patch'', ''input''} then string_value ps else []
                  | OtherV _ \<Rightarrow> []))"
    and "jx_mode x' = SeekingKey"
proof (cases v)
  case (StringV ps)
  let ?t = "jx_pending_key x \<in> {''patch'', ''input''}"
  let ?x = "x\<lparr>jx_decoder := decoder_reset, jx_mode := (if ?t then InTargetValue else InIgnoredString)\<rparr>"
  have "list_all piece_ok ps" using assms(1) StringV by simp
  note d = decode_pieces [OF this]
  have "extract_char [CHR 0x22] (x, out) = (?x, out)"
    using assms(2) by (simp add: extract_char_def is_whitespace_def ws_chars_def)
  moreover have "fold extract_char (concat (map piece_text ps)) (?x, out) = (?x, out @ (if ?t then string_value ps else []))"
    using extract_in_target [OF d, of ?x] extract_in_ignored [OF d, of ?x] by (cases ?t) auto
  moreover have "extract_char [CHR 0x22] (?x, o') = (?x\<lparr>jx_mode := SeekingKey\<rparr>, o')" for o'
    by (simp add: extract_char_def decoder_quote)
  ultimately show thesis using StringV
    by (intro that [of "?x\<lparr>jx_mode := SeekingKey\<rparr>"]) (simp_all add: string_text_def)
next
  case (OtherV chs)
  with assms obtain c cs where "chs = c # cs" "\<not> is_whitespace c" "no_quote (c # cs)" by (cases chs) auto
  then show thesis using OtherV assms(2)
    by (intro that [of "x\<lparr>jx_mode := SeekingKey\<rparr>"])
      (auto simp: extract_char_def no_quote_def intro!: extract_seeking)
qed

lemma extract_member:
  assumes "member_ok m" and "jx_mode x = SeekingKey"
  obtains x' where "fold extract_char (member_text m) (x, out) = (x', out @ member_patch m)"
    and "jx_mode x' = SeekingKey"
proof -
  have ok: "no_quote (jm_before m)" "list_all piece_ok (jm_key m)" "list_all is_whitespace (jm_space1 m)"
    "list_all is_whitespace (jm_space2 m)" "scalar_ok (jm_value m)" using assms(1) by (simp_all add: member_ok_def)
  obtain x1 where x1: "fold extract_char (string_text (jm_key m)) (x, out) = (x1, out)"
    "jx_mode x1 = AfterKey" "jx_pending_key x1 = string_value (jm_key m)"
    using ok(2) assms(2) by (rule extract_key)
  let ?x2 = "x1\<lparr>jx_mode := BeforeValue\<rparr>"
  have colon: "extract_char '':'' (x1, out) = (?x2, out)"
    using x1(2) by (simp add: extract_char_def is_whitespace_def ws_chars_def)
  have patch: "member_patch m = (case jm_value m of
      StringV ps \<Rightarrow> if jx_pending_key ?x2 \<in> {''patch'', ''input''} then string_value ps else [] | OtherV _ \<Rightarrow> [])"
    by (cases "jm_value m") (simp_all add: member_patch_def x1(3))
  obtain x3 where "fold extract_char (scalar_text (jm_value m)) (?x2, out) = (x3, out @ member_patch m)"
    "jx_mode x3 = SeekingKey"
    unfolding patch by (rule extract_value [OF ok(5), of ?x2 out]) simp_all
  then show thesis using ok assms(2) x1 colon
    by (intro that [of x3]) (simp_all add: member_text_def extract_seeking extract_space)
qed

lemma extract_members:
  assumes "list_all member_ok ms" and "jx_mode x = SeekingKey"
  obtains x' where "fold extract_char (concat (map member_text ms)) (x, out) = (x', out @ concat (map member_patch ms))"
    and "jx_mode x' = SeekingKey"
  using assms
proof (induction ms arbitrary: x out thesis)
  case Nil
  then show ?case by simp
next
  case (Cons m ms)
  from Cons.prems have "member_ok m" "list_all member_ok ms" by simp_all
  obtain x1 where x1: "fold extract_char (member_text m) (x, out) = (x1, out @ member_patch m)"
    "jx_mode x1 = SeekingKey"
    by (rule extract_member [OF \<open>member_ok m\<close> Cons.prems(3)])
  obtain x2 where "fold extract_char (concat (map member_text ms)) (x1, out @ member_patch m) =
      (x2, (out @ member_patch m) @ concat (map member_patch ms))" "jx_mode x2 = SeekingKey"
    by (rule Cons.IH [OF _ \<open>list_all member_ok ms\<close> x1(2)])
  with x1 show ?case by (intro Cons.prems(1) [of x2]) simp_all
qed

section \<open>Properties\<close>

text \<open>However the arguments of a call are cut into chunks, the extractor gives exactly the decoded
  strings of the members \<^verbatim>\<open>patch\<close> and \<^verbatim>\<open>input\<close> of a flat object, whatever escapes and space it is written
  with, as long as no escape is a surrogate.\<close>

lemma extractor_reads_fields:
  assumes "concat chunks = concat (map member_text ms) @ rest"
    and "list_all member_ok ms" and "no_quote rest"
  shows "snd (feed_all extractor_feed new_extractor chunks) = concat (map member_patch ms)"
proof -
  have "jx_mode new_extractor = SeekingKey" by (simp add: new_extractor_def)
  then obtain x where "fold extract_char (concat (map member_text ms)) (new_extractor, []) = (x, concat (map member_patch ms))"
    "jx_mode x = SeekingKey"
    using extract_members [OF assms(2), of new_extractor "[]"] by auto
  then show ?thesis by (simp add: extractor_feed_all assms(1) extract_seeking [OF assms(3)])
qed

text \<open>A character outside the basic plane, written as a pair of surrogate escapes, is lost: each half
  decodes to nothing.\<close>

lemma surrogate_escape_lost:
  assumes "length h = 4" and "list_all ascii_hexdigit h" and "0xD800 \<le> from_hex h" and "from_hex h \<le> 0xDFFF"
  shows "decode (piece_text (Hex h)) decoder_reset = Some (decoder_reset, [])"
  unfolding decode_hex_escape using assms by (simp add: decode_hex char_from_u32_def)

definition demo_members :: "json_member list" where
  "demo_members =
     [\<lparr>jm_before = [''{''], jm_key = [Plain ''n''], jm_space1 = [], jm_space2 = ['' ''], jm_value = OtherV [''1'']\<rparr>,
      \<lparr>jm_before = ['',''], jm_key = [Plain ''p'', Plain ''a'', Hex ''0074'', Plain ''c'', Plain ''h''],
       jm_space1 = [], jm_space2 = [],
       jm_value = StringV [Plain ''a'', Short ''n'', Short [CHR 0x22], Hex ''00e9'']\<rparr>]"

end
