(* ===== verification/Response_Sse.thy ===== *)
theory Response_Sse
  imports Chat_Messages Stream_Machines
begin

text \<open>
  Server-sent events, \<^verbatim>\<open>crates/proxy/src/response_sse.rs\<close>: the events the proxy writes to the client,
  and the framing by which it reads the events of the upstream service.

  An event is kept as its name and its JSON payload; \<open>sse_bytes\<close> is its text on the wire. A routine
  that writes events works on an \<open>emitter\<close>, the events written so far and the sequence counter. The
  counter is a \<^verbatim>\<open>u64\<close> that counts the events of one response and is modelled without its bound.
\<close>

section \<open>Events\<close>

record sse_event =
  ev_name :: string
  ev_payload :: json

type_synonym emitter = "sse_event list \<times> nat"

definition sse_bytes :: "ext_lib \<Rightarrow> sse_event \<Rightarrow> string" where
  "sse_bytes L e = ''event: '' @ ev_name e @ [CHR 0x0A] @ ''data: '' @ json_to_string L (ev_payload e)
     @ [CHR 0x0A, CHR 0x0A]"

definition jindex :: "json \<Rightarrow> string \<Rightarrow> json" where
  "jindex v k = unwrap_or JNull (jget v k)"

text \<open>Every event takes the next sequence number; \<open>emit\<close> writes an event of the given name, whose payload
  has the name as its type, the given fields and the number.\<close>

definition next_sequence :: "nat \<Rightarrow> nat" where
  "next_sequence n = n + 1"

definition emit :: "string \<Rightarrow> (string \<times> json) list \<Rightarrow> emitter \<Rightarrow> emitter" where
  "emit name kvs out =
     (let n = next_sequence (snd out)
      in (fst out @ [\<lparr>ev_name = name,
            ev_payload = jobj ((''type'', JStr name) # kvs @ [(''sequence_number'', jnat n)])\<rparr>], n))"

definition empty_text_part :: json where
  "empty_text_part = jobj [(''type'', JStr ''output_text''), (''text'', JStr []), (''annotations'', JArr [])]"

definition item_event :: "string \<Rightarrow> string \<Rightarrow> nat \<Rightarrow> json \<Rightarrow> emitter \<Rightarrow> emitter" where
  "item_event name response_id output_index item =
     emit name [(''response_id'', JStr response_id), (''output_index'', jnat output_index), (''item'', item)]"

section \<open>The events of one output item\<close>

definition function_call_sse_added :: "string \<Rightarrow> nat \<Rightarrow> json \<Rightarrow> emitter \<Rightarrow> emitter" where
  "function_call_sse_added response_id output_index item =
     (let added = jobj [(''id'', jindex item ''id''), (''type'', JStr ''function_call''),
            (''status'', JStr ''in_progress''), (''call_id'', jindex item ''call_id''),
            (''name'', jindex item ''name''), (''arguments'', JStr [])];
          added = (case jget item ''namespace'' of None \<Rightarrow> added | Some v \<Rightarrow> jinsert ''namespace'' v added)
      in item_event ''response.output_item.added'' response_id output_index added)"

definition custom_tool_call_sse_added :: "string \<Rightarrow> nat \<Rightarrow> json \<Rightarrow> emitter \<Rightarrow> emitter" where
  "custom_tool_call_sse_added response_id output_index item =
     item_event ''response.output_item.added'' response_id output_index
       (jobj [(''id'', jindex item ''id''), (''type'', JStr ''custom_tool_call''),
          (''status'', JStr ''in_progress''), (''call_id'', jindex item ''call_id''),
          (''name'', jindex item ''name''), (''input'', JStr [])])"

definition custom_tool_call_sse_done :: "string \<Rightarrow> nat \<Rightarrow> json \<Rightarrow> emitter \<Rightarrow> emitter" where
  "custom_tool_call_sse_done response_id output_index item out =
     item_event ''response.output_item.done'' response_id output_index item
       (emit ''response.custom_tool_call_input.done''
          [(''response_id'', JStr response_id), (''item_id'', jindex item ''id''),
           (''output_index'', jnat output_index), (''input'', jindex item ''input'')] out)"

definition function_call_sse_done :: "string \<Rightarrow> nat \<Rightarrow> json \<Rightarrow> emitter \<Rightarrow> emitter" where
  "function_call_sse_done response_id output_index item out =
     item_event ''response.output_item.done'' response_id output_index item
       (emit ''response.function_call_arguments.done''
          ([(''response_id'', JStr response_id), (''item_id'', jindex item ''id''),
            (''output_index'', jnat output_index), (''name'', jindex item ''name''),
            (''arguments'', jindex item ''arguments'')]
           @ (case jget item ''namespace'' of None \<Rightarrow> [] | Some v \<Rightarrow> [(''namespace'', v)])) out)"

definition message_item_sse_events :: "string \<Rightarrow> string \<Rightarrow> nat \<Rightarrow> json \<Rightarrow> emitter \<Rightarrow> emitter" where
  "message_item_sse_events uuid response_id output_index item out =
     (let item_id = unwrap_or (JStr (''msg_'' @ uuid)) (jget item ''id'');
          part = (case Option.bind (jget item ''content'') as_array of
                    Some (p # _) \<Rightarrow> p | _ \<Rightarrow> empty_text_part);
          txt = unwrap_or [] (get_str part ''text'');
          added = jinsert ''content'' (JArr []) (jinsert ''status'' (JStr ''in_progress'') item);
          at_part = (\<lambda>more. [(''response_id'', JStr response_id), (''item_id'', item_id),
            (''output_index'', jnat output_index), (''content_index'', jnat 0)] @ more);
          out = item_event ''response.output_item.added'' response_id output_index added out;
          out = emit ''response.content_part.added'' (at_part [(''part'', empty_text_part)]) out;
          out = (if txt \<noteq> [] then emit ''response.output_text.delta'' (at_part [(''delta'', JStr txt)]) out else out);
          out = emit ''response.output_text.done'' (at_part [(''text'', JStr txt)]) out;
          out = emit ''response.content_part.done'' (at_part [(''part'', part)]) out
      in item_event ''response.output_item.done'' response_id output_index item out)"

definition hidden_reasoning_item_sse_events :: "string \<Rightarrow> nat \<Rightarrow> json \<Rightarrow> emitter \<Rightarrow> emitter" where
  "hidden_reasoning_item_sse_events response_id output_index item out =
     item_event ''response.output_item.done'' response_id output_index item
       (item_event ''response.output_item.added'' response_id output_index
          (jobj [(''id'', jindex item ''id''), (''type'', JStr ''reasoning''),
             (''status'', JStr ''in_progress''), (''summary'', JArr [])]) out)"

definition streaming_message_item :: "string \<Rightarrow> string \<Rightarrow> string \<Rightarrow> json" where
  "streaming_message_item item_id txt phase =
     jobj [(''id'', JStr item_id), (''type'', JStr ''message''), (''status'', JStr ''completed''),
        (''role'', JStr ''assistant''), (''phase'', JStr phase),
        (''content'', JArr [jobj [(''type'', JStr ''output_text''), (''text'', JStr txt), (''annotations'', JArr [])]])]"

definition streaming_message_done_sse_events ::
  "string \<Rightarrow> nat \<Rightarrow> string \<Rightarrow> string \<Rightarrow> string \<Rightarrow> emitter \<Rightarrow> emitter \<times> json" where
  "streaming_message_done_sse_events response_id output_index item_id txt phase out =
     (let item = streaming_message_item item_id txt phase;
          at_part = (\<lambda>more. [(''response_id'', JStr response_id), (''item_id'', JStr item_id),
            (''output_index'', jnat output_index), (''content_index'', jnat 0)] @ more);
          part = (case Option.bind (jget item ''content'') as_array of Some (p # _) \<Rightarrow> p | _ \<Rightarrow> JNull);
          out = emit ''response.output_text.done'' (at_part [(''text'', JStr txt)]) out;
          out = emit ''response.content_part.done'' (at_part [(''part'', part)]) out
      in (item_event ''response.output_item.done'' response_id output_index item out, item))"

definition generic_output_item_sse_events :: "string \<Rightarrow> nat \<Rightarrow> json \<Rightarrow> emitter \<Rightarrow> emitter" where
  "generic_output_item_sse_events response_id output_index item out =
     item_event ''response.output_item.done'' response_id output_index item
       (item_event ''response.output_item.added'' response_id output_index item out)"

definition proxy_tool_call_sse_events :: "string \<Rightarrow> nat \<Rightarrow> json \<Rightarrow> emitter \<Rightarrow> emitter" where
  "proxy_tool_call_sse_events response_id output_index item out =
     item_event ''response.output_item.done'' response_id output_index item
       (item_event ''response.output_item.added'' response_id output_index
          (jinsert ''status'' (JStr ''in_progress'') item) out)"

definition web_search_call_sse_events :: "string \<Rightarrow> nat \<Rightarrow> json \<Rightarrow> emitter \<Rightarrow> emitter" where
  "web_search_call_sse_events response_id output_index item out =
     (let at_item = (\<lambda>more. [(''response_id'', JStr response_id), (''output_index'', jnat output_index),
            (''item_id'', jindex item ''id'')] @ more);
          action_type = Option.bind (jpointer item [''action'', ''type'']) as_str;
          name = (if action_type \<in> {Some ''open'', Some ''open_page''}
                  then ''response.web_search_call.opening'' else ''response.web_search_call.searching'');
          out = item_event ''response.output_item.added'' response_id output_index item out;
          out = emit ''response.web_search_call.in_progress'' (at_item []) out;
          out = emit name (at_item [(''action'', jindex item ''action'')]) out;
          out = emit ''response.web_search_call.completed'' (at_item []) out
      in item_event ''response.output_item.done'' response_id output_index item out)"

definition stream_failed_event :: "string \<Rightarrow> string \<Rightarrow> nat \<Rightarrow> string \<Rightarrow> string \<Rightarrow> emitter \<Rightarrow> emitter" where
  "stream_failed_event response_id model created_at code message =
     emit ''response.failed''
       [(''response'', jobj [(''id'', JStr response_id), (''object'', JStr ''response''),
          (''created_at'', jnat created_at), (''model'', JStr model), (''status'', JStr ''failed''),
          (''error'', jobj [(''code'', JStr code), (''message'', JStr message)])])]"

section \<open>Reading frames\<close>

definition take_sse_frame :: "string \<Rightarrow> (string \<times> string) option" where
  "take_sse_frame buffer =
     (let lf = map_option (\<lambda>i. (i, 2::nat)) (find_str [CHR 0x0A, CHR 0x0A] buffer);
          crlf = map_option (\<lambda>i. (i, 4)) (find_str [CHR 0x0D, CHR 0x0A, CHR 0x0D, CHR 0x0A] buffer);
          pos = (case (lf, crlf) of
                  (Some l, Some r) \<Rightarrow> Some (if fst l \<le> fst r then l else r)
                | (Some l, None) \<Rightarrow> Some l
                | (None, r) \<Rightarrow> r)
      in map_option (\<lambda>(i, n). (take i buffer, drop (i + n) buffer)) pos)"

text \<open>\<^verbatim>\<open>str::lines\<close>: pieces that end in a line feed, without it and a carriage return before it.\<close>

definition str_lines :: "string \<Rightarrow> string list" where
  "str_lines s =
     map (\<lambda>l. let l' = (if l \<noteq> [] \<and> last l = CHR 0x0A then butlast l else l)
              in if l \<noteq> l' \<and> l' \<noteq> [] \<and> last l' = CHR 0x0D then butlast l' else l')
       (split_inclusive (CHR 0x0A) s)"

definition sse_data :: "string \<Rightarrow> string option" where
  "sse_data frame =
     (let parts = List.map_filter (\<lambda>line. map_option trim_start (strip_prefix ''data:'' line)) (str_lines frame)
      in if parts = [] then None else Some (join [CHR 0x0A] parts))"

lemma take_sse_frame_shorter:
  "take_sse_frame buffer = Some (frame, rest) \<Longrightarrow> length rest < length buffer"
  unfolding take_sse_frame_def Let_def
  by (auto split: option.splits if_splits dest!: find_str_bound)

text \<open>The reader's inner loop, \<^verbatim>\<open>while let Some(frame) = take_sse_frame(&mut buffer)\<close>.\<close>

function drain_frames :: "string \<Rightarrow> string \<times> string list" where
  "drain_frames buffer =
     (case take_sse_frame buffer of
        None \<Rightarrow> (buffer, [])
      | Some (frame, rest) \<Rightarrow> (let (buffer, frames) = drain_frames rest in (buffer, frame # frames)))"
  by pat_completeness auto
termination
  by (relation "measure length") (auto dest: take_sse_frame_shorter)

declare drain_frames.simps [simp del]

definition feed_frames :: "string \<Rightarrow> string \<Rightarrow> string \<times> string list" where
  "feed_frames buffer chunk = drain_frames (buffer @ chunk)"

section \<open>Frames do not depend on the chunks\<close>

abbreviation LFLF :: string where "LFLF \<equiv> [CHR 0x0A, CHR 0x0A]"
abbreviation CRLFCRLF :: string where "CRLFCRLF \<equiv> [CHR 0x0D, CHR 0x0A, CHR 0x0D, CHR 0x0A]"

lemma find_str_append: "find_str p s = Some i \<Longrightarrow> find_str p (s @ x) = Some i"
proof (induction s arbitrary: i)
  case Nil
  then show ?case by (cases x) (auto split: if_splits)
next
  case (Cons c cs)
  show ?case
  proof (cases "starts_with (c # cs) p")
    case True
    then have "starts_with ((c # cs) @ x) p" unfolding starts_with_iff by (metis append.assoc)
    with True Cons.prems show ?thesis by simp
  next
    case False
    with Cons.prems have len: "length p \<le> length (c # cs)" using find_str_bound [OF Cons.prems] by simp
    then have "\<not> starts_with ((c # cs) @ x) p"
      using False unfolding starts_with_def take_append by simp
    with False Cons show ?thesis by auto
  qed
qed

lemma find_str_starts: "find_str p s = Some i \<Longrightarrow> starts_with (drop i s) p"
  by (induction s arbitrary: i) (auto split: if_splits)

lemma find_str_nth:
  assumes "find_str p s = Some i" and "k < length p"
  shows "s ! (i + k) = p ! k"
proof -
  have "take (length p) (drop i s) = p" using find_str_starts [OF assms(1)] by (simp add: starts_with_def)
  then have "p ! k = take (length p) (drop i s) ! k" by simp
  then show ?thesis using assms(2) find_str_bound [OF assms(1)] by simp
qed

lemma find_str_new:
  assumes "find_str p s = None" and "find_str p (s @ x) = Some j"
  shows "length s < j + length p"
proof (rule ccontr)
  assume "\<not> ?thesis"
  then have j: "j + length p \<le> length s" by simp
  have "take (length p) (drop j (s @ x)) = p"
    using find_str_starts [OF assms(2)] by (simp add: starts_with_def)
  then have "take (length p) (drop j s) = p" using j by simp
  then have "s = take j s @ p @ drop (length p) (drop j s)" by (metis append_take_drop_id)
  then have "sublist p s" by (metis sublist_appendI)
  with assms(1) show False by (simp add: find_str_None)
qed

lemma take_sse_frame_cases:
  "take_sse_frame b =
     (case find_str LFLF b of
        None \<Rightarrow> map_option (\<lambda>i. (take i b, drop (i + 4) b)) (find_str CRLFCRLF b)
      | Some i \<Rightarrow>
          (case find_str CRLFCRLF b of
             None \<Rightarrow> Some (take i b, drop (i + 2) b)
           | Some j \<Rightarrow> Some (if i \<le> j then (take i b, drop (i + 2) b) else (take j b, drop (j + 4) b))))"
  by (auto simp: take_sse_frame_def Let_def option.map_comp comp_def split: option.splits)

lemma take_sse_frame_append:
  assumes "take_sse_frame b = Some (f, r)"
  shows "take_sse_frame (b @ x) = Some (f, r @ x)"
proof (cases "find_str LFLF b"; cases "find_str CRLFCRLF b")
  fix j assume lf: "find_str LFLF b = None" and cr: "find_str CRLFCRLF b = Some j"
  note bound = find_str_bound [OF cr]
  have "i > j" if "find_str LFLF (b @ x) = Some i" for i
    using find_str_new [OF lf that] bound by simp
  then show ?thesis using assms lf cr bound find_str_append [OF cr, of x]
    by (auto simp: take_sse_frame_cases split: option.splits)
next
  fix i assume lf: "find_str LFLF b = Some i" and cr: "find_str CRLFCRLF b = None"
  note bound = find_str_bound [OF lf]
  have "i \<le> j" if j: "find_str CRLFCRLF (b @ x) = Some j" for j
  proof (rule ccontr)
    assume "\<not> ?thesis"
    with find_str_new [OF cr j] bound have "j + 1 = i" by simp
    moreover have "b ! (i + 1) = CHR 0x0A" using find_str_nth [OF lf, of 1] by simp
    moreover have "(b @ x) ! (j + 2) = CHR 0x0D" using find_str_nth [OF j, of 2] by simp
    ultimately show False using bound by (auto simp: nth_append)
  qed
  then show ?thesis using assms lf cr bound find_str_append [OF lf, of x]
    by (auto simp: take_sse_frame_cases split: option.splits)
next
  fix i j assume lf: "find_str LFLF b = Some i" and cr: "find_str CRLFCRLF b = Some j"
  then show ?thesis
    using assms find_str_append [OF lf, of x] find_str_append [OF cr, of x] find_str_bound [OF lf] find_str_bound [OF cr]
    by (auto simp: take_sse_frame_cases split: if_splits)
qed (use assms in \<open>auto simp: take_sse_frame_cases\<close>)

lemma drain_frames_append:
  "drain_frames (b @ x) = (let (b', fs) = drain_frames b; (b'', fs') = drain_frames (b' @ x) in (b'', fs @ fs'))"
proof (induction b rule: drain_frames.induct)
  case (1 b)
  show ?case
  proof (cases "take_sse_frame b")
    case None
    then show ?thesis by (simp add: drain_frames.simps [of b])
  next
    case (Some fr)
    obtain f r where fr: "fr = (f, r)" by fastforce
    with Some have "take_sse_frame (b @ x) = Some (f, r @ x)" by (simp add: take_sse_frame_append)
    with 1 [OF Some fr [symmetric]] Some fr show ?thesis
      by (simp add: drain_frames.simps [of b] drain_frames.simps [of "b @ x"] case_prod_beta Let_def)
  qed
qed

definition drained :: "string \<Rightarrow> bool" where
  "drained buffer = (take_sse_frame buffer = None)"

lemma drain_frames_drained: "drained (fst (drain_frames b))"
proof (induction b rule: drain_frames.induct)
  case (1 b)
  then show ?case by (subst drain_frames.simps) (auto simp: drained_def split: option.split prod.split)
qed

interpretation frame_reader: stream_machine drained feed_frames
proof
  fix s a b
  show "drained s \<Longrightarrow> feed_frames s [] = (s, [])"
    by (simp add: feed_frames_def drained_def drain_frames.simps)
  show "feed_frames s (a @ b) = (let (s1, out1) = feed_frames s a; (s2, out2) = feed_frames s1 b in (s2, out1 @ out2))"
    using drain_frames_append [of "s @ a" b] by (simp add: feed_frames_def)
  show "drained (fst (feed_frames s a))" by (simp add: feed_frames_def drain_frames_drained)
qed

section \<open>Written events are read back\<close>

text \<open>
  What the reader relies on in the JSON printer, the compact form of \<^verbatim>\<open>serde_json::to_string\<close>: an object
  starts with a brace, and no line end is printed (inside a string it is escaped).
\<close>

definition compact_printer :: "ext_lib \<Rightarrow> bool" where
  "compact_printer L \<longleftrightarrow> (\<forall>m. \<exists>r. json_to_string L (JObj m) = CHR ''{'' # r
     \<and> CHR 0x0A \<notin> set r \<and> CHR 0x0D \<notin> set r)"

definition event_ok :: "sse_event \<Rightarrow> bool" where
  "event_ok e \<longleftrightarrow> CHR 0x0A \<notin> set (ev_name e) \<and> CHR 0x0D \<notin> set (ev_name e) \<and> (\<exists>m. ev_payload e = JObj m)"

definition event_frame :: "ext_lib \<Rightarrow> sse_event \<Rightarrow> string" where
  "event_frame L e = ''event: '' @ ev_name e @ [CHR 0x0A] @ ''data: '' @ json_to_string L (ev_payload e)"

lemma sse_bytes_frame: "sse_bytes L e = event_frame L e @ LFLF"
  by (simp add: sse_bytes_def event_frame_def)

lemma find_blank_line:
  assumes "CHR 0x0A \<notin> set a" and "CHR 0x0A \<notin> set d" and "d \<noteq> []"
  shows "find_str LFLF (a @ CHR 0x0A # d @ LFLF) = Some (length a + Suc (length d))"
proof -
  have "find_str LFLF (d @ LFLF) = Some (length d)"
    using assms(2) find_skip [of LFLF d LFLF] find_str_at [of LFLF "[]"] by simp
  moreover have "\<not> starts_with (CHR 0x0A # d @ LFLF) LFLF"
    using assms(2,3) by (cases d) (auto simp: starts_with_def)
  ultimately have "find_str LFLF (CHR 0x0A # d @ LFLF) = Some (Suc (length d))" by simp
  with assms(1) find_skip [of LFLF a "CHR 0x0A # d @ LFLF"] show ?thesis by simp
qed

lemma take_event_frame:
  assumes "compact_printer L" and "event_ok e"
  shows "take_sse_frame (sse_bytes L e @ rest) = Some (event_frame L e, rest)"
proof -
  obtain m where m: "ev_payload e = JObj m" using assms(2) by (auto simp: event_ok_def)
  from assms(1) obtain r where r: "json_to_string L (JObj m) = CHR ''{'' # r"
    "CHR 0x0A \<notin> set r" "CHR 0x0D \<notin> set r" unfolding compact_printer_def by blast
  let ?a = "''event: '' @ ev_name e" and ?d = "''data: '' @ CHR ''{'' # r"
  have frame: "event_frame L e = ?a @ CHR 0x0A # ?d" by (simp add: event_frame_def m r(1))
  have "find_str LFLF (event_frame L e @ LFLF) = Some (length (event_frame L e))"
    using find_blank_line [of ?a ?d] assms(2) r(2) by (simp add: frame event_ok_def)
  moreover have "CHR 0x0D \<notin> set (event_frame L e @ LFLF)"
    using assms(2) r(3) by (auto simp: frame event_ok_def)
  then have "find_str CRLFCRLF (event_frame L e @ LFLF) = None"
    unfolding find_str_None by (meson list.set_intros(1) set_mono_sublist subsetD)
  ultimately have "take_sse_frame (sse_bytes L e) = Some (event_frame L e, [])"
    by (simp add: take_sse_frame_cases sse_bytes_frame)
  then show ?thesis using take_sse_frame_append [of "sse_bytes L e" _ "[]" rest] by simp
qed

lemma drain_events:
  assumes "compact_printer L" and "list_all event_ok es"
  shows "drain_frames (concat (map (sse_bytes L) es)) = ([], map (event_frame L) es)"
  using assms(2)
proof (induction es)
  case Nil
  show ?case by (simp add: drain_frames.simps take_sse_frame_def)
next
  case (Cons e es)
  then show ?case using take_event_frame [OF assms(1)]
    by (subst drain_frames.simps) (simp add: case_prod_beta)
qed

lemma split_inclusive_line:
  "CHR 0x0A \<notin> set a \<Longrightarrow> split_inclusive (CHR 0x0A) (a @ CHR 0x0A # d) = (a @ [CHR 0x0A]) # split_inclusive (CHR 0x0A) d"
  by (induction a) auto

lemma split_inclusive_last:
  "CHR 0x0A \<notin> set a \<Longrightarrow> a \<noteq> [] \<Longrightarrow> split_inclusive (CHR 0x0A) a = [a]"
proof (induction a)
  case (Cons c a)
  then show ?case by (cases "a = []") auto
qed simp

lemma trim_start_space_brace: "trim_start (CHR '' '' # CHR ''{'' # r) = CHR ''{'' # r"
proof -
  have "chars (CHR '' '' # CHR ''{'' # r) = '' '' # chars (CHR ''{'' # r)" by simp
  moreover have "is_whitespace '' ''" by (simp add: is_whitespace_def ws_chars_def)
  moreover have "\<not> is_whitespace (CHR ''{'' # t)" for t by (simp add: is_whitespace_def ws_chars_def)
  ultimately have "dropWhile is_whitespace (chars (CHR '' '' # CHR ''{'' # r)) = chars (CHR ''{'' # r)" by simp
  then show ?thesis unfolding trim_start_def by (metis concat_chars)
qed

lemma sse_data_event:
  assumes "compact_printer L" and "event_ok e"
  shows "sse_data (event_frame L e) = Some (json_to_string L (ev_payload e))"
proof -
  obtain m where m: "ev_payload e = JObj m" using assms(2) by (auto simp: event_ok_def)
  from assms(1) obtain r where r: "json_to_string L (JObj m) = CHR ''{'' # r"
    "CHR 0x0A \<notin> set r" "CHR 0x0D \<notin> set r" unfolding compact_printer_def by blast
  let ?a = "''event: '' @ ev_name e" and ?d = "''data: '' @ CHR ''{'' # r"
  have n: "CHR 0x0A \<notin> set ?a" "CHR 0x0D \<notin> set ?a" using assms(2) by (auto simp: event_ok_def)
  have "split_inclusive (CHR 0x0A) (?a @ CHR 0x0A # ?d) = [?a @ [CHR 0x0A], ?d]"
    using split_inclusive_line [OF n(1)] split_inclusive_last [of ?d] r(2) by simp
  moreover have "last ?a \<noteq> CHR 0x0D" using n(2) last_in_set [of ?a] by auto
  moreover have "last ?d \<noteq> CHR 0x0A" using r(2) last_in_set [of r] by (cases r) auto
  ultimately have "str_lines (?a @ CHR 0x0A # ?d) = [?a, ?d]" by (simp add: str_lines_def Let_def)
  moreover have "strip_prefix ''data:'' ?a = None" by (simp add: strip_prefix_def starts_with_def)
  moreover have "strip_prefix ''data:'' ?d = Some (CHR '' '' # CHR ''{'' # r)" by (simp add: strip_prefix_Some)
  ultimately show ?thesis
    by (simp add: event_frame_def m r(1) sse_data_def List.map_filter_simps trim_start_space_brace)
qed


section \<open>Well-formed event streams\<close>

definition sequence_of :: "sse_event \<Rightarrow> nat option" where
  "sequence_of e = Option.bind (jget (ev_payload e) ''sequence_number'') as_u64"

text \<open>
  The events of one item: numbered consecutively from \<open>s\<close> on, opened by an added event and closed by a
  done event that carries the item, each under its own type, response and output index.
\<close>

definition item_stream :: "string \<Rightarrow> nat \<Rightarrow> json \<Rightarrow> nat \<Rightarrow> emitter \<Rightarrow> bool" where
  "item_stream response_id output_index item s out =
     (case out of (es, s') \<Rightarrow>
        es \<noteq> [] \<and> map sequence_of es = map Some [Suc s..<Suc s']
        \<and> ev_name (hd es) = ''response.output_item.added'' \<and> ev_name (last es) = ''response.output_item.done''
        \<and> jget (ev_payload (last es)) ''item'' = Some item
        \<and> list_all (\<lambda>e. get_str (ev_payload e) ''type'' = Some (ev_name e)
            \<and> get_str (ev_payload e) ''response_id'' = Some response_id
            \<and> jget (ev_payload e) ''output_index'' = Some (jnat output_index)) es)"

lemmas event_defs = emit_def item_event_def next_sequence_def Let_def


section \<open>Network chunks\<close>

text \<open>
  The upstream stream is decoded chunk by chunk with \<^verbatim>\<open>String::from_utf8_lossy\<close>, which replaces every
  maximal ill-formed piece by U+FFFD. \<open>utf8_step\<close> gives how many bytes the next piece has and whether
  it is a character.
\<close>

definition in_range :: "nat \<Rightarrow> nat \<Rightarrow> string \<Rightarrow> nat \<Rightarrow> bool" where
  "in_range lo hi s i = (i < length s \<and> lo \<le> byte_val (s ! i) \<and> byte_val (s ! i) \<le> hi)"

definition utf8_step :: "string \<Rightarrow> nat \<times> bool" where
  "utf8_step s =
     (let b = byte_val (hd s);
          cont = in_range 0x80 0xBF s
      in if b < 0x80 then (1, True)
         else if 0xC2 \<le> b \<and> b \<le> 0xDF then (if cont 1 then (2, True) else (1, False))
         else if 0xE0 \<le> b \<and> b \<le> 0xEF then
           (if \<not> in_range (if b = 0xE0 then 0xA0 else 0x80) (if b = 0xED then 0x9F else 0xBF) s 1 then (1, False)
            else if \<not> cont 2 then (2, False) else (3, True))
         else if 0xF0 \<le> b \<and> b \<le> 0xF4 then
           (if \<not> in_range (if b = 0xF0 then 0x90 else 0x80) (if b = 0xF4 then 0x8F else 0xBF) s 1 then (1, False)
            else if \<not> cont 2 then (2, False)
            else if \<not> cont 3 then (3, False) else (4, True))
         else (1, False))"

lemma utf8_step_pos: "0 < fst (utf8_step s)"
  by (simp add: utf8_step_def Let_def)

definition replacement_char :: rchar where
  "replacement_char = [CHR 0xEF, CHR 0xBF, CHR 0xBD]"

function from_utf8_lossy :: "string \<Rightarrow> string" where
  "from_utf8_lossy s =
     (if s = [] then []
      else (case utf8_step s of
              (n, True) \<Rightarrow> take n s @ from_utf8_lossy (drop n s)
            | (n, False) \<Rightarrow> replacement_char @ from_utf8_lossy (drop n s)))"
  by pat_completeness auto
termination
  by (relation "measure length") (use utf8_step_pos in \<open>auto simp: prod_eq_iff\<close>)

declare from_utf8_lossy.simps [simp del]

definition read_chunk :: "string \<Rightarrow> string \<Rightarrow> string \<times> string list" where
  "read_chunk buffer bytes = feed_frames buffer (from_utf8_lossy bytes)"

text \<open>A text is a sequence of well-formed characters.\<close>

definition utf8_char :: "rchar \<Rightarrow> bool" where
  "utf8_char ch = (ch \<noteq> [] \<and> utf8_step ch = (length ch, True))"

lemma utf8_step_append: "utf8_char ch \<Longrightarrow> utf8_step (ch @ r) = (length ch, True)"
proof -
  assume ch: "utf8_char ch"
  then have hd: "hd (ch @ r) = hd ch" by (simp add: utf8_char_def)
  have "in_range lo hi (ch @ r) i" if "in_range lo hi ch i" for lo hi i
    using that by (simp add: in_range_def nth_append)
  with ch show ?thesis unfolding utf8_char_def utf8_step_def Let_def hd by (auto split: if_splits)
qed

lemma from_utf8_lossy_text: "list_all utf8_char chs \<Longrightarrow> from_utf8_lossy (concat chs) = concat chs"
proof (induction chs)
  case (Cons ch chs)
  then have "utf8_step (ch @ concat chs) = (length ch, True)" and "ch \<noteq> []"
    by (simp_all add: utf8_step_append) (simp add: utf8_char_def)
  with Cons show ?case by (subst from_utf8_lossy.simps) simp
qed (simp add: from_utf8_lossy.simps)

lemma utf8_step_cont: "0x80 \<le> byte_val c \<Longrightarrow> byte_val c \<le> 0xBF \<Longrightarrow> utf8_step (c # r) = (1, False)"
  by (simp add: utf8_step_def)

lemma lossy_cont:
  "list_all (\<lambda>c. 0x80 \<le> byte_val c \<and> byte_val c \<le> 0xBF) s \<Longrightarrow>
   from_utf8_lossy s = concat (replicate (length s) replacement_char)"
proof (induction s)
  case (Cons c s)
  then show ?case by (subst from_utf8_lossy.simps) (simp add: utf8_step_cont)
qed (simp add: from_utf8_lossy.simps)

lemma in_range_wider: "in_range lo hi s i \<Longrightarrow> 0x80 \<le> lo \<Longrightarrow> hi \<le> 0xBF \<Longrightarrow> in_range 0x80 0xBF s i"
  by (auto simp: in_range_def)

lemma utf8_char_tail:
  assumes "utf8_char ch" and "0 < i" and "i < length ch"
  shows "in_range 0x80 0xBF ch i"
proof -
  have step: "utf8_step ch = (length ch, True)" using assms(1) by (simp add: utf8_char_def)
  have "length ch = 2 \<and> in_range 0x80 0xBF ch 1 \<or> length ch = 3 \<and> in_range 0x80 0xBF ch 1 \<and> in_range 0x80 0xBF ch 2
    \<or> length ch = 4 \<and> in_range 0x80 0xBF ch 1 \<and> in_range 0x80 0xBF ch 2 \<and> in_range 0x80 0xBF ch 3"
    using step assms(2,3) unfolding utf8_step_def Let_def
    by (auto split: if_splits elim: in_range_wider)
  moreover have "i = 1 \<or> i = 2 \<or> i = 3" if "length ch \<le> 4" using that assms(2,3) by linarith
  ultimately show ?thesis using assms(3) by auto
qed

lemma utf8_step_cut:
  assumes "utf8_char ch" and "0 < k" and "k < length ch"
  shows "utf8_step (take k ch) = (k, False)"
proof -
  have step: "utf8_step ch = (length ch, True)" and hd: "hd (take k ch) = hd ch"
    using assms by (auto simp: utf8_char_def)
  have r: "in_range lo hi (take k ch) i \<longleftrightarrow> i < k \<and> in_range lo hi ch i" for lo hi i
    using assms(3) by (auto simp: in_range_def)
  have "length ch = 2 \<or> length ch = 3 \<or> length ch = 4"
    using step assms(2,3) unfolding utf8_step_def Let_def by (auto split: if_splits)
  then have "k = 1 \<or> k = 2 \<and> length ch \<ge> 3 \<or> k = 3 \<and> length ch = 4" using assms(2,3) by linarith
  with step assms(3) show ?thesis unfolding utf8_step_def Let_def hd r by (auto split: if_splits)
qed


definition brace_lib :: ext_lib where
  "brace_lib = \<lparr>json_to_string = (\<lambda>_. ''{}''), json_from_str = (\<lambda>_. None), b64_decode_utf8 = (\<lambda>_. None),
     sha256 = (\<lambda>s. s)\<rparr>"

definition demo_events :: "sse_event list" where
  "demo_events = fst (generic_output_item_sse_events ''r'' 0 (jobj []) ([], 0))"



end
