(* ===== verification/Visible_Bridge.thy ===== *)
theory Visible_Bridge
  imports Json_Field_Stream Patch_Normalize Tool_Context Tool_Ownership Response_Sse
begin

text \<open>
  The bridge that shows a client its own tool calls while the model still writes them,
  \<^verbatim>\<open>StreamingVisibleToolBridge\<close> of \<^verbatim>\<open>responses/stream_tool_calls/visible_bridge.rs\<close>. Per streamed call it
  collects the fragments, announces the output item as soon as the call is known to be the client's,
  and passes its arguments on: those of a function as they come, those of \<^verbatim>\<open>apply_patch\<close> as the patch
  text, extracted and normalised on the way. At the end of the turn it completes each item.

  \<open>uuid i\<close> is the identifier generated for the item at output index \<open>i\<close>.
\<close>

section \<open>State\<close>

datatype visible_tool_kind = NativeApplyPatch | ExternalFunction | CodexToolSearchKind

record visible_tool_state =
  vt_id :: string
  vt_name :: string
  vt_arguments :: string
  vt_consumed :: nat
  vt_item_id :: "string option"
  vt_output_index :: "nat option"
  vt_kind :: "visible_tool_kind option"
  vt_extractor :: json_string_field_extractor
  vt_normalizer :: patch_stream_normalizer
  vt_emitted :: string

record visible_bridge =
  vb_states :: "(nat \<times> visible_tool_state) list"
  vb_last_index :: nat

definition new_visible_state :: visible_tool_state where
  "new_visible_state = \<lparr>vt_id = [], vt_name = [], vt_arguments = [], vt_consumed = 0, vt_item_id = None,
     vt_output_index = None, vt_kind = None, vt_extractor = new_extractor, vt_normalizer = new_normalizer,
     vt_emitted = []\<rparr>"

definition new_bridge :: visible_bridge where
  "new_bridge = \<lparr>vb_states = [], vb_last_index = 0\<rparr>"

text \<open>What stays the same over a turn.\<close>

record bridge_env =
  be_lib :: ext_lib
  be_perr :: "string \<Rightarrow> string"
  be_uuid :: "nat \<Rightarrow> string"
  be_response_id :: string
  be_tools :: tool_context

section \<open>Events\<close>

definition custom_tool_input_delta :: "string \<Rightarrow> string \<Rightarrow> nat \<Rightarrow> string \<Rightarrow> emitter \<Rightarrow> emitter" where
  "custom_tool_input_delta response_id item_id output_index delta =
     emit ''response.custom_tool_call_input.delta''
       [(''response_id'', JStr response_id), (''item_id'', JStr item_id), (''output_index'', jnat output_index),
        (''delta'', JStr delta)]"

definition function_arguments_delta :: "string \<Rightarrow> string \<Rightarrow> nat \<Rightarrow> string \<Rightarrow> emitter \<Rightarrow> emitter" where
  "function_arguments_delta response_id item_id output_index delta =
     emit ''response.function_call_arguments.delta''
       [(''response_id'', JStr response_id), (''item_id'', JStr item_id), (''output_index'', jnat output_index),
        (''delta'', JStr delta)]"

definition output_item_added :: "string \<Rightarrow> nat \<Rightarrow> json \<Rightarrow> emitter \<Rightarrow> emitter" where
  "output_item_added response_id output_index item =
     item_event ''response.output_item.added'' response_id output_index
       (jinsert ''status'' (JStr ''in_progress'') item)"

definition output_item_done :: "string \<Rightarrow> nat \<Rightarrow> json \<Rightarrow> emitter \<Rightarrow> emitter" where
  "output_item_done = item_event ''response.output_item.done''"

section \<open>Announcing an item and passing its arguments on\<close>

definition apply_patch_item :: "string \<Rightarrow> string \<Rightarrow> string \<Rightarrow> json" where
  "apply_patch_item item_id call_id input =
     jobj [(''id'', JStr item_id), (''type'', JStr ''custom_tool_call''), (''status'', JStr ''completed''),
        (''call_id'', JStr call_id), (''name'', JStr ''apply_patch''), (''input'', JStr input)]"

definition start_if_visible ::
  "bridge_env \<Rightarrow> visible_tool_state \<Rightarrow> nat \<Rightarrow> emitter \<Rightarrow> visible_tool_state \<times> nat \<times> emitter" where
  "start_if_visible env s output_index out =
     (if blank (vt_id s) \<or> blank (vt_name s) then (s, output_index, out)
      else if is_native_apply_patch_tool (vt_name s) then
        (let item_id = ''ctc_'' @ be_uuid env output_index
         in (s\<lparr>vt_item_id := Some item_id, vt_output_index := Some output_index, vt_kind := Some NativeApplyPatch\<rparr>,
             output_index + 1,
             custom_tool_call_sse_added (be_response_id env) output_index
               (apply_patch_item item_id (vt_id s) []) out))
      else if has_external_tool (be_tools env) (vt_name s) then
        (let item_id = ''fc_'' @ be_uuid env output_index;
             call = \<lparr>tc_id = vt_id s, tc_name = vt_name s, tc_arguments = []\<rparr>;
             item = response_item_from_chat_call_with_id (be_lib env) (be_perr env) (be_tools env) call item_id;
             s = s\<lparr>vt_item_id := Some item_id, vt_output_index := Some output_index\<rparr>
         in if is_codex_tool_search_tool (be_tools env) (vt_name s) then
              (s\<lparr>vt_kind := Some CodexToolSearchKind\<rparr>, output_index + 1,
               output_item_added (be_response_id env) output_index item out)
            else
              (s\<lparr>vt_kind := Some ExternalFunction\<rparr>, output_index + 1,
               function_call_sse_added (be_response_id env) output_index item out))
      else (s, output_index, out))"

definition emit_argument_delta ::
  "string \<Rightarrow> visible_tool_state \<Rightarrow> emitter \<Rightarrow> visible_tool_state \<times> emitter" where
  "emit_argument_delta response_id s out =
     (if vt_consumed s \<ge> length (vt_arguments s) then (s, out)
      else case (vt_kind s, vt_item_id s, vt_output_index s) of
        (Some kind, Some item_id, Some output_index) \<Rightarrow>
          (let chunk = drop (vt_consumed s) (vt_arguments s);
               s = s\<lparr>vt_consumed := length (vt_arguments s)\<rparr>
           in case kind of
                NativeApplyPatch \<Rightarrow>
                  (let (x, decoded) = extractor_feed (vt_extractor s) (chars chunk);
                       (n, normalized) = patch_feed (vt_normalizer s) decoded;
                       s = s\<lparr>vt_extractor := x, vt_normalizer := n\<rparr>
                   in if normalized \<noteq> []
                      then (s\<lparr>vt_emitted := vt_emitted s @ normalized\<rparr>,
                            custom_tool_input_delta response_id item_id output_index normalized out)
                      else (s, out))
              | ExternalFunction \<Rightarrow>
                  (s\<lparr>vt_emitted := vt_emitted s @ chunk\<rparr>,
                   function_arguments_delta response_id item_id output_index chunk out)
              | CodexToolSearchKind \<Rightarrow> (s\<lparr>vt_emitted := vt_emitted s @ chunk\<rparr>, out))
      | _ \<Rightarrow> (s, out))"

text \<open>One call of a delta: the fragments are filed, the item is announced when its owner is known, and
  what is new of the arguments is passed on.\<close>

definition saw_arguments :: "json \<Rightarrow> bool" where
  "saw_arguments call = (Option.bind (jget call ''function'') (\<lambda>f. get_str f ''arguments'') \<noteq> None)"

definition file_fragments :: "json \<Rightarrow> visible_tool_state \<Rightarrow> visible_tool_state" where
  "file_fragments call s =
     s\<lparr>vt_id := unwrap_or (vt_id s) (delta_id call), vt_name := vt_name s @ delta_name call,
       vt_arguments := vt_arguments s @ delta_arguments call\<rparr>"

definition process_call ::
  "bridge_env \<Rightarrow> json \<Rightarrow> visible_bridge \<times> nat \<times> emitter \<Rightarrow> visible_bridge \<times> nat \<times> emitter" where
  "process_call env call st =
     (case st of (bridge, output_index, out) \<Rightarrow>
        let index = delta_index call (vb_last_index bridge);
            s = file_fragments call (unwrap_or new_visible_state (map_of (vb_states bridge) index));
            (s, output_index, out) =
              (if vt_kind s = None then start_if_visible env s output_index out else (s, output_index, out));
            (s, out) =
              (if saw_arguments call \<or> vt_consumed s < length (vt_arguments s)
               then emit_argument_delta (be_response_id env) s out else (s, out))
        in (\<lparr>vb_states = om_insert index s (vb_states bridge), vb_last_index = index\<rparr>, output_index, out))"

definition process_delta ::
  "bridge_env \<Rightarrow> json \<Rightarrow> visible_bridge \<times> nat \<times> emitter \<Rightarrow> visible_bridge \<times> nat \<times> emitter" where
  "process_delta env delta st =
     (case Option.bind (jget delta ''tool_calls'') as_array of
        None \<Rightarrow> st
      | Some calls \<Rightarrow> fold (process_call env) calls st)"

section \<open>Completing an item\<close>

definition find_state ::
  "chat_tool_call \<Rightarrow> visible_tool_kind \<Rightarrow> visible_bridge \<Rightarrow> (nat \<times> visible_tool_state) option" where
  "find_state call kind bridge =
     find (\<lambda>(k, s). vt_id s = tc_id call \<and> vt_name s = tc_name call \<and> vt_kind s = Some kind) (vb_states bridge)"

definition put_state :: "nat \<Rightarrow> visible_tool_state \<Rightarrow> visible_bridge \<Rightarrow> visible_bridge" where
  "put_state k s bridge = bridge\<lparr>vb_states := om_insert k s (vb_states bridge)\<rparr>"

text \<open>The item, its output index and the key of its state, when the bridge has announced one.\<close>

definition announced ::
  "chat_tool_call \<Rightarrow> visible_tool_kind \<Rightarrow> visible_bridge \<Rightarrow> (nat \<times> visible_tool_state \<times> string \<times> nat) option" where
  "announced call kind bridge =
     (case find_state call kind bridge of
        None \<Rightarrow> None
      | Some (k, s) \<Rightarrow>
          (case (vt_item_id s, vt_output_index s) of
             (Some item_id, Some output_index) \<Rightarrow> Some (k, s, item_id, output_index)
           | _ \<Rightarrow> None))"

definition emit_rest ::
  "(string \<Rightarrow> emitter \<Rightarrow> emitter) \<Rightarrow> string \<Rightarrow> visible_tool_state \<times> emitter \<Rightarrow> visible_tool_state \<times> emitter" where
  "emit_rest delta final so =
     (case so of (s, out) \<Rightarrow>
        (case strip_prefix (vt_emitted s) final of
           None \<Rightarrow> (s, out)
         | Some rest \<Rightarrow>
             if rest = [] then (s, out) else (s\<lparr>vt_emitted := vt_emitted s @ rest\<rparr>, delta rest out)))"

definition finish_native_apply_patch ::
  "bridge_env \<Rightarrow> chat_tool_call \<Rightarrow> visible_bridge \<times> emitter \<Rightarrow> (json \<times> visible_bridge \<times> emitter) option" where
  "finish_native_apply_patch env call bo =
     (case bo of (bridge, out) \<Rightarrow>
        (case announced call NativeApplyPatch bridge of
           None \<Rightarrow> None
         | Some (k, s, item_id, output_index) \<Rightarrow>
             (let item = apply_patch_item item_id (tc_id call)
                    (ap_input (normalize_apply_patch_response_input_with_diagnostic (be_lib env) (tc_arguments call)));
                  final = unwrap_or [] (get_str item ''input'');
                  delta = custom_tool_input_delta (be_response_id env) item_id output_index;
                  flushed = patch_finish (vt_normalizer s);
                  s = s\<lparr>vt_normalizer := patch_finished (vt_normalizer s)\<rparr>;
                  (s, out) =
                    (if flushed \<noteq> [] \<and> starts_with final (vt_emitted s @ flushed)
                     then (s\<lparr>vt_emitted := vt_emitted s @ flushed\<rparr>, delta flushed out) else (s, out));
                  (s, out) = emit_rest delta final (s, out)
              in Some (item, put_state k s bridge,
                   custom_tool_call_sse_done (be_response_id env) output_index item out))))"

definition finish_external_function ::
  "bridge_env \<Rightarrow> chat_tool_call \<Rightarrow> visible_bridge \<times> emitter \<Rightarrow> (json \<times> visible_bridge \<times> emitter) option" where
  "finish_external_function env call bo =
     (case bo of (bridge, out) \<Rightarrow>
        (case announced call ExternalFunction bridge of
           None \<Rightarrow> None
         | Some (k, s, item_id, output_index) \<Rightarrow>
             (let item = response_item_from_chat_call_with_id (be_lib env) (be_perr env) (be_tools env) call item_id;
                  (s, out) = emit_rest (function_arguments_delta (be_response_id env) item_id output_index)
                    (tc_arguments call) (s, out)
              in Some (item, put_state k s bridge,
                   function_call_sse_done (be_response_id env) output_index item out))))"

definition finish_codex_tool_search ::
  "bridge_env \<Rightarrow> chat_tool_call \<Rightarrow> visible_bridge \<times> emitter \<Rightarrow> (json \<times> visible_bridge \<times> emitter) option" where
  "finish_codex_tool_search env call bo =
     (case bo of (bridge, out) \<Rightarrow>
        (case announced call CodexToolSearchKind bridge of
           None \<Rightarrow> None
         | Some (k, s, item_id, output_index) \<Rightarrow>
             (let item = response_item_from_chat_call_with_id (be_lib env) (be_perr env) (be_tools env) call item_id
              in Some (item, bridge, output_item_done (be_response_id env) output_index item out))))"

section \<open>What the client sees of an item\<close>

text \<open>The argument text the client has received for the item at an output index.\<close>

definition deltas_at :: "nat \<Rightarrow> sse_event list \<Rightarrow> string" where
  "deltas_at i es =
     concat (map (\<lambda>e. unwrap_or [] (get_str (ev_payload e) ''delta''))
       (filter (\<lambda>e. jget (ev_payload e) ''output_index'' = Some (jnat i)) es))"

lemma jnat_eq [simp]: "jnat a = jnat b \<longleftrightarrow> a = b"
  by (simp add: jnat_def)

lemma deltas_at_Nil [simp]: "deltas_at i [] = []"
  by (simp add: deltas_at_def)

lemma deltas_at_delta [simp]:
  "deltas_at i (fst (custom_tool_input_delta r id' j d out)) = deltas_at i (fst out) @ (if i = j then d else [])"
  "deltas_at i (fst (function_arguments_delta r id' j d out)) = deltas_at i (fst out) @ (if i = j then d else [])"
  by (auto simp: custom_tool_input_delta_def function_arguments_delta_def event_defs deltas_at_def)

lemma deltas_at_item [simp]:
  "deltas_at i (fst (item_event n r j item out)) = deltas_at i (fst out)"
  by (simp add: event_defs deltas_at_def)

lemma deltas_at_other [simp]:
  "deltas_at i (fst (custom_tool_call_sse_added r j item out)) = deltas_at i (fst out)"
  "deltas_at i (fst (output_item_added r j item out)) = deltas_at i (fst out)"
  "deltas_at i (fst (output_item_done r j item out)) = deltas_at i (fst out)"
  "deltas_at i (fst (function_call_sse_added r j item out)) = deltas_at i (fst out)"
  by (simp_all add: custom_tool_call_sse_added_def output_item_added_def output_item_done_def
      function_call_sse_added_def Let_def)

lemma deltas_at_done [simp]:
  "deltas_at i (fst (custom_tool_call_sse_done r j item out)) = deltas_at i (fst out)"
  "deltas_at i (fst (function_call_sse_done r j item out)) = deltas_at i (fst out)"
  unfolding custom_tool_call_sse_done_def function_call_sse_done_def deltas_at_item
  by (auto simp: emit_def deltas_at_def Let_def split: option.split)

text \<open>The patch that extractor and normaliser make of an argument text.\<close>

definition patch_run :: "string \<Rightarrow> json_string_field_extractor \<times> patch_stream_normalizer \<times> string" where
  "patch_run args =
     (case fold extract_char (chars args) (new_extractor, []) of
        (x, decoded) \<Rightarrow> (case fold feed_byte decoded (new_normalizer, []) of (n, out) \<Rightarrow> (x, n, out)))"

definition extracted :: "string \<Rightarrow> string" where
  "extracted args = snd (fold extract_char (chars args) (new_extractor, []))"

lemma patch_run_Nil [simp]: "patch_run [] = (new_extractor, new_normalizer, [])"
  by (simp add: patch_run_def)

lemma patch_run_append:
  assumes "starts_char b" and "patch_run a = (x, n, out)"
    and "extractor_feed x (chars b) = (x', decoded)" and "patch_feed n decoded = (n', normalized)"
  shows "patch_run (a @ b) = (x', n', out @ normalized)"
proof -
  obtain dec where a: "fold extract_char (chars a) (new_extractor, []) = (x, dec)"
    "fold feed_byte dec (new_normalizer, []) = (n, out)"
    using assms(2) by (auto simp: patch_run_def split: prod.splits)
  have "fold extract_char (chars (a @ b)) (new_extractor, []) = (x', dec @ decoded)"
    using field_chars.fold_step_from [of "chars b" x dec] assms(3)
    by (simp add: chars_append [OF assms(1)] a(1) extractor_feed_def)
  moreover have "fold feed_byte (dec @ decoded) (new_normalizer, []) = (n', out @ normalized)"
    using patch_bytes.fold_step_from [of decoded n out] assms(4) by (simp add: a(2) patch_feed_def)
  ultimately show ?thesis by (simp add: patch_run_def)
qed

lemma patch_run_prefix:
  "prefix (snd (snd (patch_run args))) (normalize_patch_newlines (extracted args))"
  using patch_stream_prefix [of "[extracted args]"]
  by (simp add: patch_run_def extracted_def patch_feed_def case_prod_beta)

section \<open>The invariant of the bridge\<close>

text \<open>An announced item whose arguments were passed on up to \<open>a\<close>.\<close>

definition passed :: "nat \<Rightarrow> sse_event list \<Rightarrow> string \<Rightarrow> visible_tool_state \<Rightarrow> bool" where
  "passed next es a s \<longleftrightarrow> vt_consumed s = length a \<and> vt_kind s \<noteq> None \<and> vt_item_id s \<noteq> None \<and>
     (\<exists>i. vt_output_index s = Some i \<and> i < next
        \<and> (vt_kind s \<noteq> Some CodexToolSearchKind \<longrightarrow> deltas_at i es = vt_emitted s))
     \<and> (vt_kind s = Some ExternalFunction \<longrightarrow> vt_emitted s = a)
     \<and> (vt_kind s = Some NativeApplyPatch \<longrightarrow> patch_run a = (vt_extractor s, vt_normalizer s, vt_emitted s))"

definition unannounced :: "visible_tool_state \<Rightarrow> bool" where
  "unannounced s \<longleftrightarrow> vt_kind s = None \<and> vt_consumed s = 0 \<and> vt_output_index s = None \<and> vt_emitted s = []
     \<and> vt_extractor s = new_extractor \<and> vt_normalizer s = new_normalizer"

definition state_ok :: "nat \<Rightarrow> sse_event list \<Rightarrow> visible_tool_state \<Rightarrow> bool" where
  "state_ok next es s = (unannounced s \<or> passed next es (vt_arguments s) s)"

definition bridge_ok :: "visible_bridge \<times> nat \<times> emitter \<Rightarrow> bool" where
  "bridge_ok st =
     (case st of (bridge, next, es, q) \<Rightarrow>
        om_ok (vb_states bridge)
        \<and> (\<forall>k s. map_of (vb_states bridge) k = Some s \<longrightarrow> state_ok next es s \<and> starts_char (vt_arguments s))
        \<and> (\<forall>k s k' s' i. map_of (vb_states bridge) k = Some s \<longrightarrow> map_of (vb_states bridge) k' = Some s' \<longrightarrow>
              vt_output_index s = Some i \<longrightarrow> vt_output_index s' = Some i \<longrightarrow> k = k')
        \<and> (\<forall>i \<ge> next. deltas_at i es = []))"

lemma passed_frame:
  assumes "passed next es a s" and "next \<le> next'"
    and "\<And>i. vt_output_index s = Some i \<Longrightarrow> deltas_at i es' = deltas_at i es"
  shows "passed next' es' a s"
  using assms by (auto simp: passed_def)

lemma emit_argument_delta_passes:
  assumes p: "passed next (fst out) a s" and args: "vt_arguments s = a @ b" and "starts_char b"
    and e: "emit_argument_delta r s out = (s', out')"
  shows "passed next (fst out') (vt_arguments s') s' \<and> vt_output_index s' = vt_output_index s
    \<and> (\<forall>i. vt_output_index s \<noteq> Some i \<longrightarrow> deltas_at i (fst out') = deltas_at i (fst out))"
proof (cases "b = []")
  case True
  with p args e show ?thesis by (auto simp: emit_argument_delta_def passed_def)
next
  case False
  have c: "vt_consumed s = length a" using p by (simp add: passed_def)
  obtain kind id' i where k: "vt_kind s = Some kind" "vt_item_id s = Some id'" "vt_output_index s = Some i"
    using p by (auto simp: passed_def)
  show ?thesis
  proof (cases kind)
    case NativeApplyPatch
    obtain x decoded where x: "extractor_feed (vt_extractor s) (chars b) = (x, decoded)" by fastforce
    obtain n norm where n: "patch_feed (vt_normalizer s) decoded = (n, norm)" by fastforce
    have "patch_run a = (vt_extractor s, vt_normalizer s, vt_emitted s)"
      using p k NativeApplyPatch by (simp add: passed_def)
    from patch_run_append [OF assms(3) this x n]
    show ?thesis using e p k False NativeApplyPatch
      by (auto simp: emit_argument_delta_def c args x n passed_def Let_def split: if_splits)
  qed (use e p k False in \<open>auto simp: emit_argument_delta_def c args passed_def Let_def\<close>)
qed

lemma start_if_visible_passes:
  assumes "unannounced s" and "\<forall>i \<ge> next. deltas_at i (fst out) = []"
    and "start_if_visible env s next out = (s', next', out')"
  shows "vt_arguments s' = vt_arguments s \<and> (\<forall>i. deltas_at i (fst out') = deltas_at i (fst out))
    \<and> (unannounced s' \<and> next' = next
       \<or> passed next' (fst out') [] s' \<and> vt_output_index s' = Some next \<and> next' = Suc next)"
  using assms
  by (auto simp: start_if_visible_def Let_def unannounced_def passed_def split: if_splits)

text \<open>One call leaves its own state passed on up to the end and the other items alone.\<close>

lemma process_call_state:
  assumes "state_ok next (fst out) s" and "\<forall>i \<ge> next. deltas_at i (fst out) = []"
    and "starts_char (delta_arguments call)" and "starts_char (vt_arguments s)"
    and s1: "(if vt_kind (file_fragments call s) = None then start_if_visible env (file_fragments call s) next out
              else (file_fragments call s, next, out)) = (s1, next', out1)"
    and s2: "(if saw_arguments call \<or> vt_consumed s1 < length (vt_arguments s1)
              then emit_argument_delta r s1 out1 else (s1, out1)) = (s2, out2)"
  shows "state_ok next' (fst out2) s2 \<and> next \<le> next'
    \<and> (vt_output_index s2 = vt_output_index s \<and> vt_output_index s2 \<noteq> Some next
       \<or> vt_output_index s2 = Some next \<and> next' = Suc next \<and> vt_output_index s = None)
    \<and> (\<forall>i. vt_output_index s2 \<noteq> Some i \<longrightarrow> deltas_at i (fst out2) = deltas_at i (fst out))"
proof -
  let ?s = "file_fragments call s" and ?b = "delta_arguments call"
  have args: "vt_arguments ?s = vt_arguments s @ ?b" by (simp add: file_fragments_def)
  have no_call: "emit_argument_delta r s1 out1 = (s1, out1)" if "vt_consumed s1 \<ge> length (vt_arguments s1)"
    using that by (simp add: emit_argument_delta_def)
  have step: "emit_argument_delta r s1 out1 = (s2, out2)" using s2 no_call by (auto split: if_splits)
  show ?thesis
  proof (cases "unannounced s")
    case True
    then have "unannounced ?s" by (simp add: unannounced_def file_fragments_def)
    moreover from this have "start_if_visible env ?s next out = (s1, next', out1)" using s1 by (simp add: unannounced_def)
    ultimately have st: "vt_arguments s1 = vt_arguments ?s" "\<forall>i. deltas_at i (fst out1) = deltas_at i (fst out)"
      "unannounced s1 \<and> next' = next \<or> passed next' (fst out1) [] s1 \<and> vt_output_index s1 = Some next \<and> next' = Suc next"
      using start_if_visible_passes assms(2) by blast+
    show ?thesis
    proof (cases "unannounced s1")
      case u: True
      then have "s2 = s1" "out2 = out1" using step by (auto simp: emit_argument_delta_def unannounced_def split: if_splits)
      then show ?thesis using u st True by (auto simp: state_ok_def unannounced_def passed_def)
    next
      case False
      with st have p: "passed next' (fst out1) [] s1" "vt_output_index s1 = Some next" "next' = Suc next" by auto
      have "starts_char (vt_arguments s1)"
        using assms(3,4) st(1) args by (cases "vt_arguments s") (auto simp: starts_char_def)
      with emit_argument_delta_passes [OF p(1) _ _ step, of "vt_arguments s1"] p st(2) True show ?thesis
        by (auto simp: state_ok_def unannounced_def)
    qed
  next
    case False
    with assms(1) have p: "passed next (fst out) (vt_arguments s) s" by (simp add: state_ok_def)
    then have "vt_kind ?s \<noteq> None" by (simp add: passed_def file_fragments_def)
    with s1 have s1': "s1 = ?s" "next' = next" "out1 = out" by auto
    have "passed next (fst out1) (vt_arguments s) s1"
      using p by (simp add: s1' passed_def file_fragments_def)
    moreover have "vt_arguments s1 = vt_arguments s @ ?b" by (simp add: s1' args)
    ultimately have "passed next (fst out2) (vt_arguments s2) s2" "vt_output_index s2 = vt_output_index s1"
      "\<forall>i. vt_output_index s1 \<noteq> Some i \<longrightarrow> deltas_at i (fst out2) = deltas_at i (fst out1)"
      using emit_argument_delta_passes [OF _ _ assms(3) step] by blast+
    moreover have "vt_output_index s1 = vt_output_index s" by (simp add: s1' file_fragments_def)
    ultimately show ?thesis using p by (auto simp: s1' state_ok_def passed_def)
  qed
qed

lemma process_call_arguments:
  assumes "(if vt_kind s = None then start_if_visible env s next out else (s, next, out)) = (s1, next', out1)"
    and "(if c then emit_argument_delta r s1 out1 else (s1, out1)) = (s2, out2)"
  shows "vt_arguments s2 = vt_arguments s"
proof -
  have "vt_arguments s1 = vt_arguments s"
    using assms(1) by (auto simp: start_if_visible_def Let_def split: if_splits)
  moreover have "vt_arguments s2 = vt_arguments s1" using assms(2)
    by (auto simp: emit_argument_delta_def Let_def split: if_splits option.splits visible_tool_kind.splits prod.splits)
  ultimately show ?thesis by simp
qed

lemma process_call_ok:
  assumes ok: "bridge_ok (bridge, next, out)" and b: "starts_char (delta_arguments call)"
  shows "bridge_ok (process_call env call (bridge, next, out))"
proof -
  define index where "index = delta_index call (vb_last_index bridge)"
  define s where "s = unwrap_or new_visible_state (map_of (vb_states bridge) index)"
  obtain es q where out: "out = (es, q)" by fastforce
  have new: "state_ok next es new_visible_state" "starts_char (vt_arguments new_visible_state)"
    by (simp_all add: state_ok_def unannounced_def new_visible_state_def starts_char_def)
  have s: "state_ok next (fst out) s" "starts_char (vt_arguments s)"
    using ok new by (cases "map_of (vb_states bridge) index"; simp add: s_def bridge_ok_def out)+
  have fresh: "\<forall>i \<ge> next. deltas_at i (fst out) = []" using ok by (simp add: bridge_ok_def out)
  obtain s1 next' out1 where s1: "(if vt_kind (file_fragments call s) = None
      then start_if_visible env (file_fragments call s) next out else (file_fragments call s, next, out)) = (s1, next', out1)"
    by (metis surj_pair)
  obtain s2 es2 q2 where s2: "(if saw_arguments call \<or> vt_consumed s1 < length (vt_arguments s1)
      then emit_argument_delta (be_response_id env) s1 out1 else (s1, out1)) = (s2, (es2, q2))"
    by (metis surj_pair)
  from process_call_state [OF s(1) fresh b s(2) s1 s2]
  have r: "state_ok next' es2 s2" "next \<le> next'"
    "vt_output_index s2 = vt_output_index s \<and> vt_output_index s2 \<noteq> Some next
       \<or> vt_output_index s2 = Some next \<and> next' = Suc next \<and> vt_output_index s = None"
    "\<forall>i. vt_output_index s2 \<noteq> Some i \<longrightarrow> deltas_at i es2 = deltas_at i es" by (simp_all add: out)
  have res: "process_call env call (bridge, next, out) =
      (\<lparr>vb_states = om_insert index s2 (vb_states bridge), vb_last_index = index\<rparr>, next', es2, q2)"
    unfolding process_call_def Let_def prod.case index_def [symmetric] s_def [symmetric] s1 s2 by simp
  have a2: "starts_char (vt_arguments s2)"
    using process_call_arguments [OF s1 s2] b s(2)
    by (cases "vt_arguments s") (auto simp: file_fragments_def starts_char_def)
  have below: "i < next" if "state_ok next es t" "vt_output_index t = Some i" for t i
    using that by (auto simp: state_ok_def unannounced_def passed_def)
  have old: "state_ok next es t" "starts_char (vt_arguments t)" if "map_of (vb_states bridge) k = Some t" for k t
    using that ok by (simp_all add: bridge_ok_def out)
  have uniq: "k = k'" if "map_of (vb_states bridge) k = Some t" "map_of (vb_states bridge) k' = Some t'"
    "vt_output_index t = Some i" "vt_output_index t' = Some i" for k t k' t' i
    using that ok by (simp add: bridge_ok_def out)
  have s_new: "vt_output_index s = None" if "map_of (vb_states bridge) index = None"
    using that by (simp add: s_def new_visible_state_def)
  have s_old: "map_of (vb_states bridge) index = Some s" if "vt_output_index s \<noteq> None"
    using that s_new by (cases "map_of (vb_states bridge) index") (auto simp: s_def)
  have other: "vt_output_index s2 \<noteq> Some i"
    if k: "map_of (vb_states bridge) k = Some t" "k \<noteq> index" "vt_output_index t = Some i" for k t i
    using r(3) below [OF old(1) [OF k(1)] k(3)] uniq [OF k(1) s_old k(3)] k(2) by auto
  have "state_ok next' es2 t" if k: "map_of (vb_states bridge) k = Some t" "k \<noteq> index" for k t
    using old(1) [OF k(1)] passed_frame [of "next" es "vt_arguments t" t next' es2] r(2,4) other [OF k]
    by (auto simp: state_ok_def)
  moreover have "deltas_at i es2 = []" if "i \<ge> next'" for i
  proof -
    have "vt_output_index s2 \<noteq> Some i"
      using r(2,3) that below [of s i] s(1) by (auto simp: out)
    then show ?thesis using r(2,4) fresh that by (simp add: out)
  qed
  ultimately show ?thesis unfolding res bridge_ok_def prod.case
    using ok r(1) a2 old uniq other by (auto simp: bridge_ok_def out map_simps) (use other in blast)
qed

lemma bridge_ok_start: "bridge_ok (new_bridge, next, [], q)"
  by (simp add: bridge_ok_def new_bridge_def)

definition delta_calls :: "json \<Rightarrow> json list" where
  "delta_calls delta = unwrap_or [] (Option.bind (jget delta ''tool_calls'') as_array)"

lemma process_delta_calls: "process_delta env delta st = fold (process_call env) (delta_calls delta) st"
  by (simp add: process_delta_def delta_calls_def split: option.split)

lemma process_delta_ok:
  assumes "bridge_ok st" and "\<forall>call \<in> set (delta_calls delta). starts_char (delta_arguments call)"
  shows "bridge_ok (process_delta env delta st)"
proof -
  have "bridge_ok (fold (process_call env) calls st)"
    if "bridge_ok st" "\<forall>call \<in> set calls. starts_char (delta_arguments call)" for calls st
    using that
  proof (induction calls arbitrary: st)
    case (Cons call calls)
    obtain b n o' where st: "st = (b, n, o')" by (metis surj_pair)
    from Cons.prems have "bridge_ok (process_call env call st)" unfolding st by (intro process_call_ok) simp_all
    with Cons show ?case by simp
  qed simp
  with assms show ?thesis by (simp add: process_delta_calls)
qed

lemma process_deltas_ok:
  assumes "bridge_ok st" and "\<forall>delta \<in> set deltas. \<forall>call \<in> set (delta_calls delta). starts_char (delta_arguments call)"
  shows "bridge_ok (fold (process_delta env) deltas st)"
  using assms by (induction deltas arbitrary: st) (simp_all add: process_delta_ok)

section \<open>Completing an item completes its text\<close>

lemma emit_rest_deltas:
  assumes "deltas_at i (fst out) = vt_emitted s"
    and "\<And>d out. deltas_at i (fst (delta d out)) = deltas_at i (fst out) @ d"
    and "prefix (vt_emitted s) final" and "emit_rest delta final (s, out) = (s', out')"
  shows "deltas_at i (fst out') = final"
proof -
  from assms(3) obtain rest where "final = vt_emitted s @ rest" by (auto simp: prefix_def)
  moreover have "deltas_at i (fst (delta d out)) = vt_emitted s @ d" for d by (simp only: assms(1,2))
  ultimately show ?thesis using assms(1,4) by (auto simp: emit_rest_def split: if_splits)
qed

lemma announced_state:
  assumes "bridge_ok (bridge, next, out)" and "announced call kind bridge = Some (k, s, item_id, i)"
    and "kind \<noteq> CodexToolSearchKind"
  shows "vt_kind s = Some kind" and "passed next (fst out) (vt_arguments s) s"
    and "deltas_at i (fst out) = vt_emitted s" and "vt_output_index s = Some i"
proof -
  have f: "find_state call kind bridge = Some (k, s)" and i: "vt_output_index s = Some i"
    using assms(2) by (auto simp: announced_def split: option.splits)
  then have mem: "(k, s) \<in> set (vb_states bridge)" and kind: "vt_kind s = Some kind"
    by (auto simp: find_state_def find_Some_iff in_set_conv_nth)
  then have "map_of (vb_states bridge) k = Some s"
    using assms(1) by (auto simp: bridge_ok_def om_ok_distinct split: prod.splits)
  then have "state_ok next (fst out) s"
    using assms(1) by (cases out) (simp add: bridge_ok_def)
  then have p: "passed next (fst out) (vt_arguments s) s" using kind by (simp add: state_ok_def unannounced_def)
  show "vt_kind s = Some kind" "passed next (fst out) (vt_arguments s) s" "vt_output_index s = Some i" by fact+
  show "deltas_at i (fst out) = vt_emitted s" using p kind i assms(3) by (auto simp: passed_def)
qed

text \<open>A function call shown while it is written: after any deltas, completing the call has sent the
  client, in pieces, exactly the arguments of the finished item, whenever these extend what was
  collected for the call.\<close>

lemma function_deltas_complete:
  assumes "(bridge, next, out) = fold (process_delta env) deltas (new_bridge, next0, [], q0)"
    and "\<forall>delta \<in> set deltas. \<forall>call \<in> set (delta_calls delta). starts_char (delta_arguments call)"
    and "announced call ExternalFunction bridge = Some (k, s, item_id, i)"
    and "prefix (vt_arguments s) (tc_arguments call)"
  shows "\<exists>item bridge' out'. finish_external_function env call (bridge, out) = Some (item, bridge', out')
     \<and> deltas_at i (fst out') = tc_arguments call"
proof -
  have ok: "bridge_ok (bridge, next, out)"
    unfolding assms(1) using bridge_ok_start assms(2) by (rule process_deltas_ok)
  note st = announced_state [OF ok assms(3), simplified]
  have em: "vt_emitted s = vt_arguments s" using st(1,2) by (simp add: passed_def)
  obtain s' out' where r: "emit_rest (function_arguments_delta (be_response_id env) item_id i) (tc_arguments call) (s, out) = (s', out')"
    by (metis surj_pair)
  let ?item = "response_item_from_chat_call_with_id (be_lib env) (be_perr env) (be_tools env) call item_id"
  let ?out = "function_call_sse_done (be_response_id env) i ?item out'"
  have "deltas_at i (fst out') = tc_arguments call"
    by (rule emit_rest_deltas [OF st(3) _ _ r]) (simp_all add: em assms(4))
  then have "deltas_at i (fst ?out) = tc_arguments call" by simp
  moreover have "finish_external_function env call (bridge, out) = Some (?item, put_state k s' bridge, ?out)"
    by (simp add: finish_external_function_def assms(3) r Let_def)
  ultimately show ?thesis by blast
qed

text \<open>A patch shown while it is written: after any deltas, completing the call has sent the client,
  in pieces, exactly the patch of the finished item, whenever the text that was extracted on the way
  is the one the finished arguments hold.\<close>

lemma patch_deltas_complete:
  assumes "(bridge, next, out) = fold (process_delta env) deltas (new_bridge, next0, [], q0)"
    and "\<forall>delta \<in> set deltas. \<forall>call \<in> set (delta_calls delta). starts_char (delta_arguments call)"
    and "announced call NativeApplyPatch bridge = Some (k, s, item_id, i)"
    and "ap_input (normalize_apply_patch_response_input_with_diagnostic (be_lib env) (tc_arguments call)) =
       normalize_patch_newlines (extracted (vt_arguments s))"
  shows "\<exists>item bridge' out'. finish_native_apply_patch env call (bridge, out) = Some (item, bridge', out')
     \<and> get_str item ''input'' = Some (deltas_at i (fst out'))"
proof -
  have ok: "bridge_ok (bridge, next, out)"
    unfolding assms(1) using bridge_ok_start assms(2) by (rule process_deltas_ok)
  note st = announced_state [OF ok assms(3), simplified]
  let ?final = "normalize_patch_newlines (extracted (vt_arguments s))"
  let ?delta = "custom_tool_input_delta (be_response_id env) item_id i"
  let ?flushed = "patch_finish (vt_normalizer s)" and ?s = "s\<lparr>vt_normalizer := patch_finished (vt_normalizer s)\<rparr>"
  have pre: "prefix (vt_emitted s) ?final"
    using patch_run_prefix [of "vt_arguments s"] st(1,2) by (simp add: passed_def)
  obtain s1 out1 where s1: "(if ?flushed \<noteq> [] \<and> starts_with ?final (vt_emitted ?s @ ?flushed)
      then (?s\<lparr>vt_emitted := vt_emitted ?s @ ?flushed\<rparr>, ?delta ?flushed out) else (?s, out)) = (s1, out1)"
    by (metis surj_pair)
  then have "deltas_at i (fst out1) = vt_emitted s1" "prefix (vt_emitted s1) ?final"
    using st(3) pre by (auto simp: starts_with_iff prefix_def split: if_splits)
  moreover obtain s2 out2 where r: "emit_rest ?delta ?final (s1, out1) = (s2, out2)" by (metis surj_pair)
  ultimately have d: "deltas_at i (fst out2) = ?final" by (intro emit_rest_deltas [OF _ _ _ r]) simp_all
  let ?item = "apply_patch_item item_id (tc_id call) ?final"
  let ?out = "custom_tool_call_sse_done (be_response_id env) i ?item out2"
  have inp: "get_str ?item ''input'' = Some ?final" by (simp add: apply_patch_item_def)
  have "finish_native_apply_patch env call (bridge, out) = Some (?item, put_state k s2 bridge, ?out)"
    unfolding finish_native_apply_patch_def prod.case assms(3,4) option.case Let_def inp unwrap_or_simps s1 r
    by simp
  moreover have "get_str ?item ''input'' = Some (deltas_at i (fst ?out))" by (simp add: inp d)
  ultimately show ?thesis by blast
qed

section \<open>Witnesses\<close>

definition demo_env :: bridge_env where
  "demo_env = \<lparr>be_lib = brace_lib, be_perr = (\<lambda>_. []), be_uuid = (\<lambda>_. ''u''), be_response_id = ''r'',
     be_tools = push_tool_value \<lparr>td_response_name = ''ls'', td_description = [], td_parameters = JNull,
       td_namespace = None, td_kind = FunctionTool\<rparr> (''ls'', JNull) empty_context\<rparr>"

definition demo_fragment :: "string \<Rightarrow> string \<Rightarrow> string \<Rightarrow> json" where
  "demo_fragment i n a = jobj [(''tool_calls'', JArr [jobj [(''id'', JStr i),
     (''function'', jobj [(''name'', JStr n), (''arguments'', JStr a)])]])]"

definition demo_turn :: "bridge_env \<Rightarrow> string \<Rightarrow> string \<Rightarrow> string \<Rightarrow> visible_bridge \<times> nat \<times> emitter" where
  "demo_turn env n a b = fold (process_delta env) [demo_fragment ''c'' n a, demo_fragment ''c'' [] b] (new_bridge, 0, [], 0)"

definition demo_patch_args :: string where
  "demo_patch_args = ''{'' @ [CHR 0x22] @ ''patch'' @ [CHR 0x22] @ '':'' @ [CHR 0x22] @ ''a'' @ [CHR 0x5C] @ ''nb'' @ [CHR 0x22] @ ''}''"

definition demo_patch_env :: bridge_env where
  "demo_patch_env = demo_env\<lparr>be_lib := brace_lib\<lparr>json_from_str := (\<lambda>s.
     if s = demo_patch_args then Some (jobj [(''patch'', JStr [CHR ''a'', CHR 0x0A, CHR ''b''])]) else None)\<rparr>\<rparr>"

lemma demo_fragment_calls:
  "delta_calls (demo_fragment i n a) =
     [jobj [(''id'', JStr i), (''function'', jobj [(''name'', JStr n), (''arguments'', JStr a)])]]"
  "delta_arguments (jobj [(''id'', JStr i), (''function'', jobj [(''name'', JStr n), (''arguments'', JStr a)])]) = a"
  by (simp_all add: delta_calls_def demo_fragment_def delta_arguments_def)

lemma demo_turn_split: "(fst (demo_turn env n a b), fst (snd (demo_turn env n a b)), snd (snd (demo_turn env n a b))) =
    fold (process_delta env) [demo_fragment ''c'' n a, demo_fragment ''c'' [] b] (new_bridge, 0, [], 0)"
  by (simp add: demo_turn_def)

lemma demo_turn_text:
  "starts_char a \<Longrightarrow> starts_char b \<Longrightarrow> \<forall>delta \<in> set [demo_fragment ''c'' n a, demo_fragment ''c'' [] b].
     \<forall>call \<in> set (delta_calls delta). starts_char (delta_arguments call)"
  by (simp add: demo_fragment_calls)

end
