(* ===== verification/Reasoning_Summary.thy ===== *)
theory Reasoning_Summary
  imports Prelude
begin

text \<open>
  The summary of the provider's reasoning that is mirrored to the client while it is written,
  \<^verbatim>\<open>crates/proxy/src/reasoning_summary.rs\<close> with the modes of \<^verbatim>\<open>crates/core/src/config.rs\<close>. A slice
  \<^verbatim>\<open>&text[..end]\<close> is \<open>take end text\<close>.
\<close>

datatype reasoning_summary_mode = NoSummary | Smart | Fixed | Full

definition budget :: "reasoning_summary_mode \<Rightarrow> nat option" where
  "budget mode = (case mode of Smart \<Rightarrow> Some 400 | Fixed \<Rightarrow> Some 400 | NoSummary \<Rightarrow> None | Full \<Rightarrow> None)"

definition parse_reasoning_summary_mode :: "string \<Rightarrow> reasoning_summary_mode option" where
  "parse_reasoning_summary_mode v =
     (let w = to_ascii_lowercase (trim v)
      in if w \<in> {''none'', ''off'', ''disabled''} then Some NoSummary
         else if w \<in> {''smart'', ''intelligent''} then Some Smart
         else if w \<in> {''fixed'', ''trimmed'', ''truncate''} then Some Fixed
         else if w \<in> {''full'', ''complete''} then Some Full else None)"

section \<open>Boundaries\<close>

text \<open>The full stops, exclamation and question marks of Chinese typography: U+3002, U+FF01, U+FF1F, and
  the wide colon U+FF1A.\<close>

definition wide_stops :: "rchar list" where
  "wide_stops = [[CHR 0xE3, CHR 0x80, CHR 0x82], [CHR 0xEF, CHR 0xBC, CHR 0x81], [CHR 0xEF, CHR 0xBC, CHR 0x9F]]"

definition is_boundary :: "rchar \<Rightarrow> bool \<Rightarrow> bool" where
  "is_boundary ch followed_by_space =
     (if ch \<in> set ([[CHR 0x0A], ''!'', ''?''] @ wide_stops) then True
      else if ch = ''.'' then followed_by_space else False)"

definition touches_boundary :: "string \<Rightarrow> bool" where
  "touches_boundary delta = list_ex (\<lambda>ch. ch \<in> set ([[CHR 0x0A], ''.'', ''!'', ''?''] @ wide_stops)) (chars delta)"

fun boundary_loop :: "nat \<Rightarrow> nat \<Rightarrow> nat option \<Rightarrow> rchar list \<Rightarrow> nat option" where
  "boundary_loop limit index boundary [] = boundary"
| "boundary_loop limit index boundary (ch # rest) =
     (let stop = index + length ch
      in if stop > limit then boundary
         else boundary_loop limit stop
           (if is_boundary ch (case rest of [] \<Rightarrow> True | next # _ \<Rightarrow> is_whitespace next) then Some stop else boundary)
           rest)"

definition last_boundary_within :: "string \<Rightarrow> nat \<Rightarrow> nat option" where
  "last_boundary_within txt limit = boundary_loop limit 0 None (chars txt)"

fun floor_loop :: "string \<Rightarrow> nat \<Rightarrow> nat" where
  "floor_loop txt 0 = 0"
| "floor_loop txt (Suc i) = (if is_char_boundary txt (Suc i) then Suc i else floor_loop txt i)"

definition floor_char_boundary :: "string \<Rightarrow> nat \<Rightarrow> nat" where
  "floor_char_boundary txt limit =
     (if limit \<ge> length txt then length txt
      else if is_char_boundary txt limit then limit else floor_loop txt limit)"

section \<open>The opening of the reasoning\<close>

fun trim_line_end :: "string \<Rightarrow> nat \<Rightarrow> nat" where
  "trim_line_end txt 0 = 0"
| "trim_line_end txt (Suc e) =
     (if txt ! e = CHR 0x0A \<or> txt ! e = CHR 0x0D then trim_line_end txt e else Suc e)"

fun paragraph_loop :: "string \<Rightarrow> nat \<Rightarrow> string list \<Rightarrow> nat" where
  "paragraph_loop txt offset [] = trim_line_end txt (length txt)"
| "paragraph_loop txt offset (line # lines) =
     (if blank line then trim_line_end txt offset else paragraph_loop txt (offset + length line) lines)"

definition first_paragraph_end :: "string \<Rightarrow> nat" where
  "first_paragraph_end txt = paragraph_loop txt 0 (split_inclusive (CHR 0x0A) txt)"

definition opens_list :: "string \<Rightarrow> bool" where
  "opens_list paragraph =
     (let t = trim_end paragraph in ends_with t '':'' \<or> ends_with t [CHR 0xEF, CHR 0xBC, CHR 0x9A])"

definition is_list_item :: "string \<Rightarrow> bool" where
  "is_list_item t =
     (if starts_with t ''- '' \<or> starts_with t ''* '' \<or> starts_with t ''+ '' then True
      else
        (let digits = length (takeWhile ascii_digit t); rest = drop digits t
         in digits \<noteq> 0 \<and> (starts_with rest ''. '' \<or> starts_with rest '') '')))"

fun list_loop :: "nat \<Rightarrow> bool \<Rightarrow> string list \<Rightarrow> nat \<times> bool" where
  "list_loop e seen [] = (e, seen)"
| "list_loop e seen (line # lines) =
     (if trim line = [] then (if seen then (e, seen) else list_loop (e + length line) seen lines)
      else if \<not> is_list_item (trim line) then (e, seen)
      else list_loop (e + length line) True lines)"

definition extend_list :: "string \<Rightarrow> nat \<Rightarrow> nat" where
  "extend_list txt start =
     (case list_loop start False (split_inclusive (CHR 0x0A) (drop start txt)) of
        (e, seen) \<Rightarrow> if seen then e else start)"

definition smart_prefix :: "string \<Rightarrow> string" where
  "smart_prefix txt =
     (let e = first_paragraph_end txt
      in if opens_list (take e txt) then take (trim_line_end txt (extend_list txt e)) txt else take e txt)"

section \<open>The projection\<close>

definition trim_to_budget :: "string \<Rightarrow> reasoning_summary_mode \<Rightarrow> string" where
  "trim_to_budget txt mode =
     (case budget mode of
        None \<Rightarrow> txt
      | Some b \<Rightarrow>
          if length txt \<le> b then txt
          else (case last_boundary_within txt b of
                  Some e \<Rightarrow> take e txt
                | None \<Rightarrow> take (floor_char_boundary txt b) txt))"

definition project :: "string \<Rightarrow> reasoning_summary_mode \<Rightarrow> string" where
  "project txt mode =
     (case mode of
        NoSummary \<Rightarrow> []
      | Full \<Rightarrow> txt
      | Fixed \<Rightarrow> trim_to_budget txt mode
      | Smart \<Rightarrow> trim_to_budget (smart_prefix txt) mode)"

definition streamable_len :: "string \<Rightarrow> reasoning_summary_mode \<Rightarrow> nat" where
  "streamable_len txt mode =
     (if mode = NoSummary then 0
      else if mode = Full then length txt
      else unwrap_or 0 (last_boundary_within txt (length (project txt mode))))"

section \<open>The projector\<close>

record summary_projector =
  sp_mode :: reasoning_summary_mode
  sp_text :: string
  sp_emitted :: nat
  sp_finished :: bool

definition new_projector :: "reasoning_summary_mode \<Rightarrow> summary_projector" where
  "new_projector mode = \<lparr>sp_mode = mode, sp_text = [], sp_emitted = 0, sp_finished = False\<rparr>"

definition emit_up_to :: "nat \<Rightarrow> summary_projector \<Rightarrow> string option \<times> summary_projector" where
  "emit_up_to target p =
     (if target \<le> sp_emitted p then (None, p)
      else (Some (drop (sp_emitted p) (take target (sp_text p))), p\<lparr>sp_emitted := target\<rparr>))"

definition projector_push :: "string \<Rightarrow> summary_projector \<Rightarrow> string option \<times> summary_projector" where
  "projector_push delta p =
     (if sp_finished p then (None, p)
      else
        (let p = p\<lparr>sp_text := sp_text p @ delta\<rparr>
         in if sp_mode p \<noteq> Full \<and> \<not> touches_boundary delta then (None, p)
            else emit_up_to (streamable_len (sp_text p) (sp_mode p)) p))"

definition projector_finish :: "summary_projector \<Rightarrow> string option \<times> summary_projector" where
  "projector_finish p =
     (if sp_finished p then (None, p)
      else
        (let p = p\<lparr>sp_finished := True\<rparr>
         in emit_up_to (length (project (sp_text p) (sp_mode p))) p))"

definition projector_summary :: "summary_projector \<Rightarrow> string" where
  "projector_summary p = take (sp_emitted p) (sp_text p)"

text \<open>The pieces that a sequence of deltas gives, and the projector they leave.\<close>

fun push_all :: "string list \<Rightarrow> summary_projector \<Rightarrow> string \<times> summary_projector" where
  "push_all [] p = ([], p)"
| "push_all (d # ds) p =
     (let (piece, p) = projector_push d p; (rest, p) = push_all ds p in (unwrap_or [] piece @ rest, p))"

definition project_stream :: "reasoning_summary_mode \<Rightarrow> string list \<Rightarrow> string \<times> summary_projector" where
  "project_stream mode deltas =
     (let (sent, p) = push_all deltas (new_projector mode); (piece, p) = projector_finish p
      in (sent @ unwrap_or [] piece, p))"

section \<open>Where a text can be cut\<close>

text \<open>All boundaries of a text, in order; the loop finds the last one within its limit.\<close>

fun boundaries :: "nat \<Rightarrow> rchar list \<Rightarrow> nat list" where
  "boundaries index [] = []"
| "boundaries index (ch # rest) =
     (if is_boundary ch (case rest of [] \<Rightarrow> True | next # _ \<Rightarrow> is_whitespace next) then [index + length ch] else [])
     @ boundaries (index + length ch) rest"

lemma boundaries_ge: "e \<in> set (boundaries i chs) \<Longrightarrow> i \<le> e"
  by (induction chs arbitrary: i) (fastforce split: if_splits)+

lemma boundaries_le: "e \<in> set (boundaries i chs) \<Longrightarrow> e \<le> i + length (concat chs)"
  by (induction chs arbitrary: i) (fastforce split: if_splits)+

lemma boundaries_sorted: "sorted (boundaries i chs)"
  by (induction chs arbitrary: i) (auto simp: sorted_append dest: boundaries_ge)

lemma sorted_le_last: "sorted es \<Longrightarrow> e \<in> set es \<Longrightarrow> e \<le> last es"
  by (induction es) auto

lemma boundary_loop_last:
  "boundary_loop limit i b chs =
     (case filter (\<lambda>e. e \<le> limit) (boundaries i chs) of [] \<Rightarrow> b | es \<Rightarrow> Some (last es))"
proof (induction chs arbitrary: i b)
  case (Cons ch rest)
  let ?e = "i + length ch"
  show ?case
  proof (cases "?e > limit")
    case True
    have "filter (\<lambda>e. e \<le> limit) (boundaries ?e rest) = []"
      using True by (auto simp: filter_empty_conv dest!: boundaries_ge)
    with True show ?thesis by simp
  next
    case False
    then show ?thesis
      by (cases "filter (\<lambda>e. e \<le> limit) (boundaries ?e rest)") (simp_all add: Cons.IH)
  qed
qed simp

lemma last_boundary_le:
  assumes "last_boundary_within s limit = Some e"
  shows "e \<le> limit" and "e \<in> set (boundaries 0 (chars s))" and "e \<le> length s"
proof -
  have ne: "filter (\<lambda>e. e \<le> limit) (boundaries 0 (chars s)) \<noteq> []"
    and e: "e = last (filter (\<lambda>e. e \<le> limit) (boundaries 0 (chars s)))"
    using assms by (auto simp: last_boundary_within_def boundary_loop_last split: list.splits)
  have "e \<in> set (filter (\<lambda>e. e \<le> limit) (boundaries 0 (chars s)))" unfolding e using ne by (rule last_in_set)
  then show "e \<le> limit" "e \<in> set (boundaries 0 (chars s))" by simp_all
  then show "e \<le> length s" using boundaries_le [of e 0 "chars s"] by simp
qed

lemma last_boundary_max:
  assumes "e \<in> set (boundaries 0 (chars s))" and "e \<le> limit"
  obtains m where "last_boundary_within s limit = Some m" and "e \<le> m"
proof -
  let ?es = "filter (\<lambda>e. e \<le> limit) (boundaries 0 (chars s))"
  have mem: "e \<in> set ?es" using assms by simp
  then have ne: "?es \<noteq> []" by (metis list.set(1) empty_iff)
  have "sorted ?es" using boundaries_sorted [of 0 "chars s"] by (rule sorted_wrt_filter)
  then have "e \<le> last ?es" using mem by (rule sorted_le_last)
  moreover have "last_boundary_within s limit = Some (last ?es)"
    using ne by (auto simp: last_boundary_within_def boundary_loop_last split: list.splits)
  ultimately show thesis by (intro that)
qed

section \<open>Lengths\<close>

lemma trim_line_end_le: "trim_line_end s e \<le> e"
  by (induction s e rule: trim_line_end.induct) auto

lemma floor_loop_le: "floor_loop s i \<le> i"
  by (induction s i rule: floor_loop.induct) auto

lemma trim_to_budget_prefix: "prefix (trim_to_budget s mode) s"
  by (simp add: trim_to_budget_def take_is_prefix split: option.split)

lemma trim_to_budget_short:
  assumes "budget mode = Some b"
  shows "length (trim_to_budget s mode) \<le> b"
proof -
  have "floor_char_boundary s b \<le> b" if "\<not> length s \<le> b"
    using that floor_loop_le [of s b] by (simp add: floor_char_boundary_def)
  moreover have "e \<le> b" if "last_boundary_within s b = Some e" for e
    using last_boundary_le(1) [OF that] .
  ultimately show ?thesis using assms by (fastforce simp: trim_to_budget_def split: option.split)
qed

lemma smart_prefix_prefix: "prefix (smart_prefix s) s"
  by (simp add: smart_prefix_def Let_def take_is_prefix)

lemma project_prefix: "prefix (project s mode) s"
  using trim_to_budget_prefix [of s] prefix_order.trans [OF trim_to_budget_prefix smart_prefix_prefix]
  by (simp add: project_def split: reasoning_summary_mode.split)

lemma project_short: "budget mode = Some b \<Longrightarrow> length (project s mode) \<le> b"
  using trim_to_budget_short by (auto simp: project_def budget_def split: reasoning_summary_mode.splits)

lemma streamable_le:
  "streamable_len s mode \<le> length s" "mode \<noteq> Full \<Longrightarrow> streamable_len s mode \<le> length (project s mode)"
proof -
  have "unwrap_or 0 (last_boundary_within s k) \<le> min k (length s)" for k
    using last_boundary_le [of s k] by (cases "last_boundary_within s k") auto
  then show "streamable_len s mode \<le> length s" "mode \<noteq> Full \<Longrightarrow> streamable_len s mode \<le> length (project s mode)"
    by (auto simp: streamable_len_def)
qed

section \<open>What the projector sends\<close>

definition projector_ok :: "string \<Rightarrow> summary_projector \<Rightarrow> bool" where
  "projector_ok sent p \<longleftrightarrow> sent = projector_summary p \<and> sp_emitted p \<le> length (sp_text p)
     \<and> (case budget (sp_mode p) of None \<Rightarrow> True | Some b \<Rightarrow> sp_emitted p \<le> b)
     \<and> (sp_mode p = NoSummary \<longrightarrow> sp_emitted p = 0)"

lemma emit_up_to_ok:
  assumes "projector_ok sent p" and "target \<le> length (sp_text p)"
    and "\<And>b. budget (sp_mode p) = Some b \<Longrightarrow> target \<le> b" and "sp_mode p = NoSummary \<Longrightarrow> target = 0"
    and "emit_up_to target p = (piece, p')"
  shows "projector_ok (sent @ unwrap_or [] piece) p'"
    and "sp_emitted p' = max (sp_emitted p) target" and "sp_text p' = sp_text p" and "sp_mode p' = sp_mode p"
proof -
  have "take a t @ drop a (take b t) = take b t" if "a \<le> b" for a b and t :: string
    using that by (metis append_take_drop_id min.absorb1 take_take)
  then show "projector_ok (sent @ unwrap_or [] piece) p'"
    using assms by (auto simp: projector_ok_def projector_summary_def emit_up_to_def split: if_splits option.splits)
  show "sp_emitted p' = max (sp_emitted p) target" and "sp_text p' = sp_text p" and "sp_mode p' = sp_mode p"
    using assms(5) by (auto simp: emit_up_to_def split: if_splits)
qed

lemma projector_push_cases:
  assumes "projector_push d p = (piece, p')" and "\<not> sp_finished p"
  obtains (skip) "sp_mode p \<noteq> Full" "piece = None" "p' = p\<lparr>sp_text := sp_text p @ d\<rparr>"
  | (emits) "emit_up_to (streamable_len (sp_text p @ d) (sp_mode p)) (p\<lparr>sp_text := sp_text p @ d\<rparr>) = (piece, p')"
proof (cases "sp_mode p \<noteq> Full \<and> \<not> touches_boundary d")
  case True
  with assms show thesis by (intro skip) (simp_all add: projector_push_def Let_def)
next
  case False
  with assms show thesis by (intro emits) (simp add: projector_push_def Let_def)
qed

lemma projector_push_ok:
  assumes "projector_ok sent p" and "projector_push d p = (piece, p')" and "\<not> sp_finished p"
  shows "projector_ok (sent @ unwrap_or [] piece) p' \<and> sp_text p' = sp_text p @ d
    \<and> sp_mode p' = sp_mode p \<and> \<not> sp_finished p'
    \<and> sp_emitted p' \<in> {sp_emitted p, max (sp_emitted p) (streamable_len (sp_text p @ d) (sp_mode p))}"
proof -
  let ?p = "p\<lparr>sp_text := sp_text p @ d\<rparr>" and ?t = "streamable_len (sp_text p @ d) (sp_mode p)"
  have ok: "projector_ok sent ?p"
    using assms(1) by (simp add: projector_ok_def projector_summary_def split: option.splits)
  have short: "?t \<le> b" if "budget (sp_mode p) = Some b" for b
    using streamable_le(2) [of "sp_mode p" "sp_text p @ d"] project_short [OF that, of "sp_text p @ d"] that
    by (auto simp: budget_def split: reasoning_summary_mode.splits)
  show ?thesis using assms(2,3)
  proof (cases rule: projector_push_cases)
    case skip
    with ok assms(3) show ?thesis by simp
  next
    case emits
    have "?t \<le> length (sp_text ?p)" using streamable_le(1) [of "sp_text p @ d"] by simp
    note r = emit_up_to_ok [OF ok this _ _ emits, simplified, OF short]
    have "\<not> sp_finished p'" using emits assms(3) by (auto simp: emit_up_to_def split: if_splits)
    with r show ?thesis by (simp add: streamable_len_def)
  qed
qed

lemma push_all_ok:
  assumes "projector_ok sent p" and "\<not> sp_finished p" and "push_all ds p = (rest, p')"
  shows "projector_ok (sent @ rest) p' \<and> sp_text p' = sp_text p @ concat ds
    \<and> sp_mode p' = sp_mode p \<and> \<not> sp_finished p'"
  using assms
proof (induction ds arbitrary: sent p rest p')
  case (Cons d ds)
  obtain piece q where push: "projector_push d p = (piece, q)" by fastforce
  obtain r q' where rest: "push_all ds q = (r, q')" by fastforce
  note step = projector_push_ok [OF Cons.prems(1) push Cons.prems(2)]
  have "rest = unwrap_or [] piece @ r" "p' = q'" using Cons.prems(3) push rest by simp_all
  with step Cons.IH [of "sent @ unwrap_or [] piece" q, OF _ _ rest] show ?case by simp
qed simp

lemma new_projector_ok: "projector_ok [] (new_projector mode)"
  by (simp add: projector_ok_def projector_summary_def new_projector_def split: option.split)

lemma project_none: "project s NoSummary = []" "project s Full = s"
  by (simp_all add: project_def)

lemma project_stream_ok:
  assumes "project_stream mode ds = (sent, p)"
  shows "projector_ok sent p" and "sp_text p = concat ds" and "sp_mode p = mode"
    and "\<exists>q r. push_all ds (new_projector mode) = (r, q)
           \<and> sp_emitted p = max (sp_emitted q) (length (project (concat ds) mode))"
proof -
  obtain r q where push: "push_all ds (new_projector mode) = (r, q)" by fastforce
  obtain piece q' where fin: "projector_finish q = (piece, q')" by fastforce
  have out: "sent = r @ unwrap_or [] piece" "p = q'" using assms push fin by (simp_all add: project_stream_def)
  have ok: "projector_ok r q" "sp_text q = concat ds" "sp_mode q = mode" "\<not> sp_finished q"
    using push_all_ok [OF new_projector_ok _ push] by (simp_all add: new_projector_def)
  have ok': "projector_ok r (q\<lparr>sp_finished := True\<rparr>)"
    using ok(1) by (simp add: projector_ok_def projector_summary_def split: option.splits)
  have emit: "emit_up_to (length (project (concat ds) mode)) (q\<lparr>sp_finished := True\<rparr>) = (piece, p)"
    using fin ok out(2) by (simp add: projector_finish_def)
  have len: "length (project (concat ds) mode) \<le> length (concat ds)" by (rule prefix_length_le) (rule project_prefix)
  note r = emit_up_to_ok [OF ok' _ _ _ emit, simplified, unfolded ok(2,3), OF len project_short]
  from r project_none(1) out(1) show "projector_ok sent p" "sp_text p = concat ds" "sp_mode p = mode" by simp_all
  from r project_none(1) push show "\<exists>q r. push_all ds (new_projector mode) = (r, q)
      \<and> sp_emitted p = max (sp_emitted q) (length (project (concat ds) mode))" by auto
qed

text \<open>The summary that is mirrored to the client is text of the provider: the pieces that a reasoning
  item sends, joined, are the projector's summary, a prefix of the provider's text that begins with the
  projection of the complete text. It has at most 400 bytes in the modes with a budget, is empty when
  summaries are off and is the whole text in the full mode.\<close>

lemma summary_mirrors_reasoning:
  "case project_stream mode deltas of (sent, p) \<Rightarrow>
     sent = projector_summary p \<and> prefix sent (concat deltas)
     \<and> prefix (project (concat deltas) mode) sent
     \<and> length sent \<le> unwrap_or (length (concat deltas)) (budget mode)
     \<and> (case mode of NoSummary \<Rightarrow> sent = [] | Full \<Rightarrow> sent = concat deltas | _ \<Rightarrow> True)"
proof (cases "project_stream mode deltas")
  case (Pair sent p)
  note ok = project_stream_ok [OF Pair]
  have sent: "sent = take (sp_emitted p) (concat deltas)" and mirrored: "sent = projector_summary p"
    using ok(1,2) by (simp_all add: projector_ok_def projector_summary_def)
  have long: "length (project (concat deltas) mode) \<le> sp_emitted p" using ok(4) by auto
  have pre: "prefix sent (concat deltas)" unfolding sent by (rule take_is_prefix)
  have "length (project (concat deltas) mode) \<le> length sent"
    using long sent prefix_length_le [OF project_prefix [of "concat deltas" mode]] by simp
  then have "prefix (project (concat deltas) mode) sent"
    by (rule prefix_length_prefix [OF project_prefix pre])
  moreover have "length sent \<le> unwrap_or (length (concat deltas)) (budget mode)"
  proof (cases "budget mode")
    case (Some b)
    then have "sp_emitted p \<le> b" using ok(1,3) by (simp add: projector_ok_def)
    then show ?thesis using Some sent by simp
  qed (use prefix_length_le [OF pre] in simp)
  moreover have "sent = []" if "mode = NoSummary" using that ok(1,3) sent by (simp add: projector_ok_def)
  moreover have "sent = concat deltas" if "mode = Full" using that long sent by (simp add: project_none)
  ultimately show ?thesis using Pair mirrored pre by (simp split: reasoning_summary_mode.split)
qed

section \<open>When a boundary lasts\<close>

text \<open>Only a full stop at the end of the text so far can cease to be a boundary.\<close>

lemma boundaries_append:
  assumes "chs = [] \<or> last chs \<noteq> ''.''"
  shows "boundaries i (chs @ chs') = boundaries i chs @ boundaries (i + length (concat chs)) chs'"
  using assms
proof (induction chs arbitrary: i)
  case step: (Cons ch rest)
  show ?case
  proof (cases rest)
    case Nil
    then have "is_boundary ch a = is_boundary ch b" for a b using step.prems by (simp add: is_boundary_def)
    then show ?thesis using Nil by (simp split: list.split) metis
  next
    case (Cons c rest')
    note rest = this
    have "boundaries (i + length ch) (rest @ chs')
        = boundaries (i + length ch) rest @ boundaries (i + length ch + length (concat rest)) chs'"
      using step.prems rest by (intro step.IH) simp
    with rest show ?thesis by (simp only: boundaries.simps append_Cons list.case
          append_assoc concat.simps length_append add.assoc)
  qed
qed simp

lemma boundary_kept:
  assumes "e \<in> set (boundaries 0 (chars s))" and "starts_char d" and "s = [] \<or> last (chars s) \<noteq> ''.''"
  shows "e \<in> set (boundaries 0 (chars (s @ d)))"
  using assms boundaries_append [of "chars s" 0 "chars d"] by (auto simp: chars_append)

text \<open>A text ends in a full stop or not; a character is a full stop only as the single byte.\<close>

definition ends_sentence :: "string \<Rightarrow> bool" where
  "ends_sentence s = (s \<noteq> [] \<and> last s = CHR ''.'')"

lemma last_chars_dot: "s \<noteq> [] \<Longrightarrow> last (chars s) = ''.'' \<Longrightarrow> ends_sentence s"
proof -
  assume "s \<noteq> []" "last (chars s) = ''.''"
  then have "s = concat (butlast (chars s)) @ ''.''"
    by (metis append_butlast_last_id chars_Nil_iff concat_append concat_chars concat.simps append_Nil2)
  then have "last s = CHR ''.''" by (metis last_snoc)
  with \<open>s \<noteq> []\<close> show ?thesis by (simp add: ends_sentence_def)
qed

definition lasting :: "summary_projector \<Rightarrow> bool" where
  "lasting p \<longleftrightarrow> sp_emitted p = 0 \<or> sp_emitted p \<in> set (boundaries 0 (chars (sp_text p)))"

lemma streamable_boundary:
  "mode = Fixed \<Longrightarrow> streamable_len s mode = 0 \<or> streamable_len s mode \<in> set (boundaries 0 (chars s))"
  using last_boundary_le(2) [of s "length (project s mode)"]
  by (cases "last_boundary_within s (length (project s mode))") (simp_all add: streamable_len_def)

lemma push_lasting:
  assumes "projector_ok sent p" and "projector_push d p = (piece, p')" and "\<not> sp_finished p" and "sp_mode p = Fixed"
    and "lasting p" and "\<not> ends_sentence (sp_text p)" and "starts_char d"
  shows "lasting p'"
proof -
  note r = projector_push_ok [OF assms(1-3)]
  have "sp_text p = [] \<or> last (chars (sp_text p)) \<noteq> ''.''" using last_chars_dot assms(6) by blast
  then have "sp_emitted p = 0 \<or> sp_emitted p \<in> set (boundaries 0 (chars (sp_text p @ d)))"
    using assms(5,7) boundary_kept by (auto simp: lasting_def)
  then show ?thesis using r streamable_boundary [OF assms(4), of "sp_text p @ d"]
    unfolding lasting_def max_def by (auto split: if_splits)
qed

lemma ends_sentence_append: "ends_sentence (s @ d) \<longleftrightarrow> (if d = [] then ends_sentence s else ends_sentence d)"
  by (simp add: ends_sentence_def)

lemma push_all_lasting:
  assumes "projector_ok sent p" and "\<not> sp_finished p" and "push_all ds p = (rest, p')" and "sp_mode p = Fixed"
    and "lasting p" and "\<not> ends_sentence (sp_text p)"
    and "\<forall>d \<in> set ds. starts_char d" and "\<forall>d \<in> set (butlast ds). \<not> ends_sentence d"
  shows "lasting p'"
  using assms
proof (induction ds arbitrary: sent p rest p')
  case (Cons d ds)
  obtain piece q where push: "projector_push d p = (piece, q)" by fastforce
  obtain r q' where rest: "push_all ds q = (r, q')" by fastforce
  have p': "p' = q'" using Cons.prems(3) push rest by simp
  note step = projector_push_ok [OF Cons.prems(1) push Cons.prems(2)]
  have last: "lasting q" using Cons.prems by (intro push_lasting [OF Cons.prems(1) push]) simp_all
  show ?case
  proof (cases ds)
    case Nil
    with last rest p' show ?thesis by simp
  next
    case (Cons d' ds')
    then have "\<not> ends_sentence (sp_text q)" and "\<forall>d \<in> set (butlast ds). \<not> ends_sentence d"
      using Cons.prems step by (simp_all add: ends_sentence_append)
    with step last Cons.prems Cons.IH [of "sent @ unwrap_or [] piece" q, OF _ _ rest] p' show ?thesis by simp
  qed
qed simp

lemma fixed_keeps_boundaries:
  assumes "e = 0 \<or> e \<in> set (boundaries 0 (chars s))" and "e \<le> 400" and "e \<le> length s"
  shows "e \<le> length (project s Fixed)"
proof (cases "e = 0 \<or> length s \<le> 400")
  case True
  with assms(3) show ?thesis by (auto simp: project_def trim_to_budget_def budget_def)
next
  case False
  then obtain m where "last_boundary_within s 400 = Some m" "e \<le> m"
    using assms(1,2) last_boundary_max [of e s 400] by auto
  with False assms(3) show ?thesis by (simp add: project_def trim_to_budget_def budget_def)
qed

lemma fixed_summary_final:
  assumes "\<forall>d \<in> set deltas. starts_char d" and "\<forall>d \<in> set (butlast deltas). \<not> ends_sentence d"
  shows "fst (project_stream Fixed deltas) = project (concat deltas) Fixed"
proof -
  obtain sent p where run: "project_stream Fixed deltas = (sent, p)" by fastforce
  note ok = project_stream_ok [OF run]
  obtain q r where push: "push_all deltas (new_projector Fixed) = (r, q)"
    and emitted: "sp_emitted p = max (sp_emitted q) (length (project (concat deltas) Fixed))" using ok(4) by auto
  have "lasting q"
    using assms by (intro push_all_lasting [OF new_projector_ok _ push])
      (simp_all add: new_projector_def lasting_def ends_sentence_def)
  moreover have "projector_ok r q" "sp_text q = concat deltas" "sp_mode q = Fixed"
    using push_all_ok [OF new_projector_ok _ push] by (simp_all add: new_projector_def)
  ultimately have "sp_emitted q \<le> length (project (concat deltas) Fixed)"
    by (intro fixed_keeps_boundaries) (auto simp: lasting_def projector_ok_def budget_def)
  then have "sent = take (length (project (concat deltas) Fixed)) (concat deltas)"
    using emitted ok(1,2) by (simp add: projector_ok_def projector_summary_def max_def)
  moreover have "take (length x) y = x" if "prefix x y" for x y :: string using that by (auto simp: prefix_def)
  ultimately show ?thesis using project_prefix [of "concat deltas" Fixed] run by simp
qed

text \<open>With the fixed budget, when the deltas end on character boundaries and none but the final one ends
  in a full stop, what has been sent is exactly the projection of the complete text. A full stop at the
  end of a delta is taken for the end of a sentence before its next character is known: of
  \<open>''x! a.''\<close> and \<open>''5...''\<close> the piece \<open>''x! a.''\<close> is sent, which the projection of the
  complete text does not keep.\<close>

lemma fixed_summary_is_projection:
  "((\<forall>d \<in> set deltas. starts_char d) \<and> (\<forall>d \<in> set (butlast deltas). \<not> ends_sentence d)
      \<longrightarrow> fst (project_stream Fixed deltas) = project (concat deltas) Fixed)
   \<and> fst (project_stream Fixed [''x! a.'', replicate 400 (CHR ''5'')]) = ''x! a.''
   \<and> project (''x! a.'' @ replicate 400 (CHR ''5'')) Fixed = ''x!''"
proof -
  have "fst (project_stream Fixed [''x! a.'', replicate 400 (CHR ''5'')]) = ''x! a.''" by code_simp
  moreover have "project (''x! a.'' @ replicate 400 (CHR ''5'')) Fixed = ''x!''" by code_simp
  ultimately show ?thesis using fixed_summary_final by blast
qed

end
