(* ===== verification/Store_Text.thy ===== *)
theory Store_Text
  imports Context_Compiler Usage
begin

text \<open>
  What the runtime store keeps of the texts and values it is given, \<^verbatim>\<open>crates/store/src/store.rs\<close>:
  sanitised strings, bounded arrays, titles of user requests and normalised usage objects. The standard
  library leaves its hash function unspecified and the redaction of secrets is done with the \<^verbatim>\<open>regex\<close>
  crate: both are parameters, fields of \<open>store_lib\<close>.
\<close>

record store_lib = ext_lib +
  hash_hex :: "string \<Rightarrow> string"
  redact_secret_text :: "string \<Rightarrow> string"

definition MAX_LOG_STRING_CHARS :: nat where "MAX_LOG_STRING_CHARS = 1024"
definition MAX_MEMORY_STRING_CHARS :: nat where "MAX_MEMORY_STRING_CHARS = 64 * 1024"
definition MAX_MEMORY_ARRAY_ITEMS :: nat where "MAX_MEMORY_ARRAY_ITEMS = 256"
definition MAX_USAGE_SESSION_TITLE_CHARS :: nat where "MAX_USAGE_SESSION_TITLE_CHARS = 80"
definition MAX_USAGE_SEGMENT_SUMMARY_CHARS :: nat where "MAX_USAGE_SEGMENT_SUMMARY_CHARS = 180"

section \<open>Sanitised texts\<close>

definition looks_like_inline_data_url :: "string \<Rightarrow> bool" where
  "looks_like_inline_data_url value =
     (let lower = to_ascii_lowercase value
      in contains_str lower ''data:'' \<and> contains_str lower '';base64,'')"

definition truncate_chars_with_hash :: "store_lib \<Rightarrow> string \<Rightarrow> nat \<Rightarrow> string" where
  "truncate_chars_with_hash lib value max_chars =
     (if char_count value \<le> max_chars then value
      else take_chars max_chars value @ [CHR 0x0A] @ ''[CodeSeeX omitted ''
        @ nat_str (char_count value - max_chars) @ '' chars; hash='' @ hash_hex lib value @ '']'')"

definition redacted_data_url :: "store_lib \<Rightarrow> string \<Rightarrow> string" where
  "redacted_data_url lib value =
     ''[redacted inline data url; original_chars='' @ nat_str (char_count value)
       @ ''; hash='' @ hash_hex lib value @ '']''"

definition sanitize_memory_string :: "store_lib \<Rightarrow> string \<Rightarrow> string" where
  "sanitize_memory_string lib value =
     (if looks_like_inline_data_url value then redacted_data_url lib value
      else truncate_chars_with_hash lib value MAX_MEMORY_STRING_CHARS)"

definition sanitize_log_string :: "store_lib \<Rightarrow> string \<Rightarrow> string" where
  "sanitize_log_string lib value =
     (if looks_like_inline_data_url value then redacted_data_url lib value
      else truncate_chars_with_hash lib (redact_secret_text lib value) MAX_LOG_STRING_CHARS)"

definition memory_array :: "json list \<Rightarrow> json list" where
  "memory_array values =
     (if length values \<le> MAX_MEMORY_ARRAY_ITEMS then values
      else take (MAX_MEMORY_ARRAY_ITEMS div 2) values
        @ [jobj [(''_codeseex_runtime_notice'', JStr ''array middle omitted from in-memory adapter state''),
                 (''omitted_items'', jnat (length values - MAX_MEMORY_ARRAY_ITEMS))]]
        @ drop (length values - MAX_MEMORY_ARRAY_ITEMS div 2) values)"

fun memory_json_value :: "store_lib \<Rightarrow> json \<Rightarrow> json" where
  "memory_json_value lib (JStr s) = JStr (sanitize_memory_string lib s)"
| "memory_json_value lib (JArr xs) = JArr (memory_array (map (memory_json_value lib) xs))"
| "memory_json_value lib (JObj m) = JObj (map (\<lambda>(k, v). (k, memory_json_value lib v)) m)"
| "memory_json_value lib v = v"

section \<open>Titles\<close>

definition codex_user_request_text :: "string \<Rightarrow> string option" where
  "codex_user_request_text value =
     (let after_marker = (\<lambda>marker. Option.bind (find_str marker value)
            (\<lambda>i. opt_filter (\<lambda>r. r \<noteq> []) (Some (trim (drop (i + length marker) value)))))
      in or_else (after_marker ''## My request for Codex:'') (after_marker ''## My request:''))"

definition compact_usage_title :: "string \<Rightarrow> string option" where
  "compact_usage_title value =
     (let t = trim (join '' '' (split_whitespace (unwrap_or value (codex_user_request_text value))))
      in if t = [] then None
         else if starts_with t ''# Selected text:'' \<or> starts_with t ''# Files mentioned by the user:'' then None
         else if char_count t > MAX_USAGE_SESSION_TITLE_CHARS
         then Some (take_chars (MAX_USAGE_SESSION_TITLE_CHARS - 1) t @ ''...'') else Some t)"

definition runtime_latest_user_summary :: "json \<Rightarrow> string option" where
  "runtime_latest_user_summary value =
     Option.bind (Option.bind (jpointer value [''_codeseex_runtime'', ''latest_user_summary'']) as_str)
       compact_usage_title"

text \<open>\<^verbatim>\<open>find_map\<close>: the first result there is.\<close>

fun find_map :: "('a \<Rightarrow> 'b option) \<Rightarrow> 'a list \<Rightarrow> 'b option" where
  "find_map f [] = None"
| "find_map f (x # xs) = or_else (f x) (find_map f xs)"

definition latest_user_summary_from_messages :: "json list \<Rightarrow> string option" where
  "latest_user_summary_from_messages messages =
     find_map (\<lambda>message.
       if get_str message ''role'' \<noteq> Some ''user'' then None
       else Option.bind (get_str message ''content'') compact_usage_title) (rev messages)"

definition latest_user_summary_from_input :: "store_lib \<Rightarrow> json \<Rightarrow> string option" where
  "latest_user_summary_from_input lib input =
     (case get_str input ''input'' of
        Some t \<Rightarrow> compact_usage_title t
      | None \<Rightarrow>
          or_else
            (Option.bind (Option.bind (jget input ''messages'') as_array) latest_user_summary_from_messages)
            (Option.bind (Option.bind (jget input ''input'') as_array) (\<lambda>items.
               find_map (\<lambda>item.
                 if get_str item ''role'' \<noteq> Some ''user'' then None
                 else Option.bind (jget item ''content'')
                   (\<lambda>c. compact_usage_title (content_to_text (ext_lib.truncate lib) c))) (rev items))))"

section \<open>The stored copy of a request\<close>

definition request_input_for_runtime :: "store_lib \<Rightarrow> string option \<Rightarrow> json \<Rightarrow> json" where
  "request_input_for_runtime lib previous_response_id value =
     (case as_object value of
        None \<Rightarrow> memory_json_value lib value
      | Some object \<Rightarrow>
          (let keep = (\<lambda>key stored. case map_of object key of
                None \<Rightarrow> stored | Some v \<Rightarrow> jinsert key (memory_json_value lib v) stored);
              stored = keep ''prompt_cache_key'' (keep ''model'' (JObj []));
              effort = map_option to_ascii_lowercase (opt_filter (\<lambda>v. v \<noteq> []) (map_option trim
                (Option.bind (jpointer value [''reasoning'', ''effort'']) as_str)));
              stored = (case effort of None \<Rightarrow> stored
                | Some e \<Rightarrow> jinsert ''_codeseex_runtime'' (jobj [(''reasoning_effort'', JStr e)]) stored)
           in case map_of object ''input'' of
                Some input \<Rightarrow>
                  (let explicit = previous_response_id \<noteq> None \<and>
                         is_some_and (\<lambda>v. trim v \<noteq> [])
                           (Option.bind (map_of object ''previous_response_id'') as_str)
                   in if request_looks_like_codex_full_context value \<and> \<not> explicit
                      then
                        (let runtime = jobj [(''mode'', JStr ''codex_full_context_not_stored''),
                               (''reason'', JStr ''Codex owns and resends full conversation context; CodeSeeX keeps no duplicate transcript.''),
                               (''original_input_items'', jnat (case as_array input of None \<Rightarrow> 0 | Some xs \<Rightarrow> length xs)),
                               (''original_input_hash'', JStr (hash_hex lib (json_to_string lib input)))];
                             runtime = (case latest_user_summary_from_input lib value of None \<Rightarrow> runtime
                               | Some s \<Rightarrow> jinsert ''latest_user_summary'' (JStr s) runtime);
                             runtime = (case effort of None \<Rightarrow> runtime
                               | Some e \<Rightarrow> jinsert ''reasoning_effort'' (JStr e) runtime)
                         in jinsert ''_codeseex_runtime'' runtime (jinsert ''input'' (JArr []) stored))
                      else jinsert ''input'' (memory_json_value lib input) stored)
              | None \<Rightarrow>
                  (case map_of object ''messages'' of
                     Some messages \<Rightarrow> jinsert ''messages'' (memory_json_value lib messages) stored
                   | None \<Rightarrow> memory_json_value lib value)))"

definition merge_request_diagnostic :: "store_lib \<Rightarrow> json option \<Rightarrow> json \<Rightarrow> json" where
  "merge_request_diagnostic lib existing next =
     (case (map_option (memory_json_value lib) existing, memory_json_value lib next) of
        (Some (JObj m), JObj n) \<Rightarrow> JObj (fold (\<lambda>(k, v). om_insert k v) n m)
      | (_, n) \<Rightarrow> n)"

section \<open>Usage objects\<close>

definition first_u64 :: "json \<Rightarrow> string list \<Rightarrow> nat option" where
  "first_u64 value keys = find_map value_to_u64 (List.map_filter (jget value) keys)"

definition usage_value :: "json \<Rightarrow> json option" where
  "usage_value response =
     or_else (or_else (jget response ''usage'') (jpointer response [''response'', ''usage'']))
       (Option.bind (jget response ''choices'') (\<lambda>choices.
          Option.bind (case choices of JArr (c # _) \<Rightarrow> Some c | JObj m \<Rightarrow> map_of m ''0'' | _ \<Rightarrow> None)
            (\<lambda>c. jget c ''usage'')))"

record token_counts =
  tc_input :: nat
  tc_cached :: nat
  tc_miss :: nat
  tc_output :: nat
  tc_total :: nat

definition read_token_counts :: "json \<Rightarrow> token_counts" where
  "read_token_counts usage =
     (let input = unwrap_or 0 (first_u64 usage [''input_tokens'', ''prompt_tokens'']);
          cached = unwrap_or 0 (or_else (or_else
            (first_u64 usage [''cached_input_tokens'', ''input_cached_tokens'', ''prompt_cache_hit_tokens'',
               ''cache_hit_input_tokens'', ''cached_tokens''])
            (Option.bind (jpointer usage [''input_tokens_details'', ''cached_tokens'']) value_to_u64))
            (Option.bind (jpointer usage [''prompt_tokens_details'', ''cached_tokens'']) value_to_u64));
          miss = unwrap_or (input - cached)
            (first_u64 usage [''cache_miss_input_tokens'', ''input_cache_miss_tokens'',
               ''prompt_cache_miss_tokens'', ''cache_miss_tokens'']);
          output = unwrap_or 0 (first_u64 usage [''output_tokens'', ''completion_tokens'']);
          all = unwrap_or (sat_add (sat_add cached miss) output) (first_u64 usage [''total_tokens''])
      in \<lparr>tc_input = input, tc_cached = cached, tc_miss = miss, tc_output = output, tc_total = all\<rparr>)"

definition usage_has_tokens :: "json \<Rightarrow> bool" where
  "usage_has_tokens usage =
     (let c = read_token_counts usage
      in tc_total c > 0 \<or> tc_input c > 0 \<or> tc_cached c > 0 \<or> tc_miss c > 0 \<or> tc_output c > 0)"

definition usage_object :: "nat \<Rightarrow> nat \<Rightarrow> nat \<Rightarrow> nat \<Rightarrow> json" where
  "usage_object cached miss output total_tokens =
     jobj [(''input_tokens'', jnat (sat_add cached miss)), (''cached_input_tokens'', jnat cached),
       (''cache_miss_input_tokens'', jnat miss), (''output_tokens'', jnat output), (''total_tokens'', jnat total_tokens)]"

definition normalized_usage_value :: "json \<Rightarrow> json" where
  "normalized_usage_value usage =
     (let c = read_token_counts usage in usage_object (tc_cached c) (tc_miss c) (tc_output c) (tc_total c))"

definition merge_usage_values :: "json \<Rightarrow> json \<Rightarrow> json" where
  "merge_usage_values left right =
     (let l = normalized_usage_value left; r = normalized_usage_value right;
          sum = (\<lambda>key. sat_add (unwrap_or 0 (first_u64 l [key])) (unwrap_or 0 (first_u64 r [key])));
          cached = sum ''cached_input_tokens''; miss = sum ''cache_miss_input_tokens''; output = sum ''output_tokens''
      in usage_object cached miss output (sat_add (sat_add cached miss) output))"

definition usage_input_tokens :: "json \<Rightarrow> nat" where
  "usage_input_tokens usage = unwrap_or 0 (first_u64 usage [''input_tokens'', ''prompt_tokens''])"

definition usage_total_tokens :: "json \<Rightarrow> nat \<Rightarrow> nat" where
  "usage_total_tokens usage input_tokens =
     unwrap_or (sat_add input_tokens (unwrap_or 0 (first_u64 usage [''output_tokens'', ''completion_tokens''])))
       (first_u64 usage [''total_tokens''])"

end
