(* ===== verification/Handoff_Guard.thy ===== *)
theory Handoff_Guard
  imports Store_Text
begin

text \<open>
  The guard over the tool calls that are handed to the client, \<^verbatim>\<open>crates/store/src/store/handoff_guard.rs\<close>
  and the guard's data in \<^verbatim>\<open>store.rs\<close>: which calls of a user turn are pending, how often a call was
  repeated and how often in a row it failed in the same way. A \<^verbatim>\<open>HashMap\<close> is a list of entries whose
  order stands for the unspecified order of its iteration. Times are nanoseconds.
\<close>

definition MAX_CLIENT_HANDOFF_GUARD_TURNS :: nat where "MAX_CLIENT_HANDOFF_GUARD_TURNS = 128"
definition MAX_CLIENT_HANDOFF_PENDING_CALLS :: nat where "MAX_CLIENT_HANDOFF_PENDING_CALLS = 512"
definition MAX_CLIENT_HANDOFF_FAILURES :: nat where "MAX_CLIENT_HANDOFF_FAILURES = 3"

record pending_key =
  pk_turn_key :: string
  pk_request_key :: string
  pk_call_id :: string

record pending_call =
  pc_turn_key :: string
  pc_name :: string
  pc_arguments_hash :: string

record failure_streak =
  fs_arguments_hash :: string
  fs_failure_summary_hash :: "string option"
  fs_count :: nat

record handoff_turn =
  ht_handoff_requests :: nat
  ht_tool_calls :: nat
  ht_signature_counts :: "(string \<times> nat) list"
  ht_failure_streaks :: "(string \<times> failure_streak) list"
  ht_cumulative_input_tokens :: nat
  ht_cumulative_total_tokens :: nat
  ht_updated_at :: "int option"

record client_handoff_guard =
  hg_turns :: "(string \<times> handoff_turn) list"
  hg_pending :: "(pending_key \<times> pending_call) list"
  hg_turn_order :: "string list"

definition default_turn :: handoff_turn where
  "default_turn = \<lparr>ht_handoff_requests = 0, ht_tool_calls = 0, ht_signature_counts = [],
     ht_failure_streaks = [], ht_cumulative_input_tokens = 0, ht_cumulative_total_tokens = 0,
     ht_updated_at = None\<rparr>"

definition default_guard :: client_handoff_guard where
  "default_guard = \<lparr>hg_turns = [], hg_pending = [], hg_turn_order = []\<rparr>"

section \<open>Operations\<close>

definition update_client_handoff_failure_streak ::
    "string \<Rightarrow> string \<Rightarrow> string option \<Rightarrow> handoff_turn \<Rightarrow> nat \<times> handoff_turn" where
  "update_client_handoff_failure_streak tool_name arguments_hash failure_summary_hash st =
     (let n = (case opt_filter (\<lambda>s. fs_arguments_hash s = arguments_hash
                   \<and> fs_failure_summary_hash s = failure_summary_hash)
                 (map_of (ht_failure_streaks st) tool_name) of
               Some s \<Rightarrow> sat_add32 (fs_count s) 1 | None \<Rightarrow> 1)
      in (n, st\<lparr>ht_failure_streaks := hm_insert tool_name
            \<lparr>fs_arguments_hash = arguments_hash, fs_failure_summary_hash = failure_summary_hash, fs_count = n\<rparr>
            (ht_failure_streaks st)\<rparr>))"

definition forget_turn :: "string \<Rightarrow> client_handoff_guard \<Rightarrow> client_handoff_guard" where
  "forget_turn oldest g =
     g\<lparr>hg_turns := kv_remove oldest (hg_turns g),
       hg_pending := filter (\<lambda>(key, pending). pk_turn_key key \<noteq> oldest \<and> pc_turn_key pending \<noteq> oldest) (hg_pending g)\<rparr>"

function prune_turns :: "client_handoff_guard \<Rightarrow> client_handoff_guard" where
  "prune_turns g =
     (if length (hg_turn_order g) > MAX_CLIENT_HANDOFF_GUARD_TURNS
      then (case hg_turn_order g of
              [] \<Rightarrow> g
            | oldest # rest \<Rightarrow> prune_turns (forget_turn oldest (g\<lparr>hg_turn_order := rest\<rparr>)))
      else g)"
  by pat_completeness auto
termination
  by (relation "measure (\<lambda>g. length (hg_turn_order g))") (auto simp: forget_turn_def)

declare prune_turns.simps [simp del]

definition prune_client_handoff_guard :: "client_handoff_guard \<Rightarrow> client_handoff_guard" where
  "prune_client_handoff_guard g =
     (let g = prune_turns g
      in if length (hg_pending g) > MAX_CLIENT_HANDOFF_PENDING_CALLS
         then (let keys = take (length (hg_pending g) - MAX_CLIENT_HANDOFF_PENDING_CALLS) (map fst (hg_pending g))
               in g\<lparr>hg_pending := fold kv_remove keys (hg_pending g)\<rparr>)
         else g)"

definition ensure_client_handoff_turn :: "string \<Rightarrow> client_handoff_guard \<Rightarrow> client_handoff_guard" where
  "ensure_client_handoff_turn turn_key g =
     prune_client_handoff_guard
       (if turn_key \<in> fst ` set (hg_turns g) then g
        else g\<lparr>hg_turn_order := hg_turn_order g @ [turn_key],
               hg_turns := hm_insert turn_key default_turn (hg_turns g)\<rparr>)"

definition client_handoff_pending_request_keys :: "string \<Rightarrow> json \<Rightarrow> string list" where
  "client_handoff_pending_request_keys request_id input =
     (let keys = (case opt_filter (\<lambda>v. v \<noteq> []) (map_option trim (get_str input ''previous_response_id'')) of
            Some previous \<Rightarrow> [previous] | None \<Rightarrow> [])
      in if trim request_id \<noteq> [] \<and> request_id \<notin> set keys then keys @ [request_id] else keys)"

definition unique_client_handoff_pending_key_for_turn ::
    "client_handoff_guard \<Rightarrow> string \<Rightarrow> string \<Rightarrow> pending_key option" where
  "unique_client_handoff_pending_key_for_turn g turn_key call_id =
     (case filter (\<lambda>key. pk_turn_key key = turn_key \<and> pk_call_id key = call_id) (map fst (hg_pending g)) of
        [first] \<Rightarrow> Some first | _ \<Rightarrow> None)"

definition client_handoff_turn_key :: "store_lib \<Rightarrow> json \<Rightarrow> string" where
  "client_handoff_turn_key lib input =
     unwrap_or (''request:'' @ hash_hex lib (json_to_string lib input))
       (or_else (or_else (or_else
          (map_option (\<lambda>s. ''summary:'' @ hash_hex lib s) (runtime_latest_user_summary input))
          (map_option (\<lambda>h. ''full_context:'' @ h)
             (Option.bind (jpointer input [''_codeseex_runtime'', ''original_input_hash'']) as_str)))
          (map_option (\<lambda>v. ''prompt_cache:'' @ hash_hex lib v)
             (opt_filter (\<lambda>v. v \<noteq> []) (map_option trim (get_str input ''prompt_cache_key'')))))
          (map_option (\<lambda>s. ''input:'' @ hash_hex lib s) (latest_user_summary_from_input lib input)))"

section \<open>The outputs of a request\<close>

record handoff_output =
  ho_call_id :: string
  ho_failed :: bool
  ho_failure_summary :: "string option"

definition client_handoff_output_failure :: "store_lib \<Rightarrow> json \<Rightarrow> bool \<times> string option" where
  "client_handoff_output_failure lib out =
     (if Option.bind (jget out ''ok'') as_bool = Some False \<or> jget out ''error'' \<noteq> None
        \<or> is_some_and (\<lambda>s. to_ascii_lowercase (trim s) \<in> {''failed'', ''error'', ''cancelled''}) (get_str out ''status'')
      then (True, Some (content_to_text (ext_lib.truncate lib) out))
      else
        (let t = content_to_text (ext_lib.truncate lib) out;
             normalized = to_ascii_lowercase (trim t);
             failed = starts_with normalized ''error:'' \<or> starts_with normalized ''failed:''
               \<or> contains_str normalized ''apply_patch verification failed''
               \<or> contains_str normalized ''tool execution failed''
               \<or> contains_str normalized ''traceback (most recent call last)''
         in (failed, if failed then Some t else None)))"

definition client_handoff_output_items :: "store_lib \<Rightarrow> json \<Rightarrow> handoff_output list" where
  "client_handoff_output_items lib input =
     List.map_filter (\<lambda>item.
         map_option (\<lambda>call_id.
           (let out = unwrap_or JNull
                  (or_else (or_else (jget item ''output'') (jget item ''content'')) (jget item ''result''));
                (failed, summary) = client_handoff_output_failure lib out
            in \<lparr>ho_call_id = call_id, ho_failed = failed, ho_failure_summary = summary\<rparr>))
         (Option.bind (or_else (or_else (jget item ''call_id'') (jget item ''tool_call_id'')) (jget item ''id'')) as_str))
       (filter (\<lambda>item. get_str item ''type'' \<in>
            {Some ''function_call_output'', Some ''custom_tool_call_output'', Some ''tool_search_output''})
          (unwrap_or [] (Option.bind (jget input ''input'') as_array)))"

definition compact_client_handoff_failure_summary :: "string \<Rightarrow> string option" where
  "compact_client_handoff_failure_summary value =
     (let t = trim (join '' '' (split_whitespace value))
      in if t = [] then None
         else if char_count t \<le> MAX_USAGE_SEGMENT_SUMMARY_CHARS then Some t
         else Some (take_chars (MAX_USAGE_SEGMENT_SUMMARY_CHARS - 1) t @ ''...''))"

definition client_handoff_failure_summary_hash :: "store_lib \<Rightarrow> string option \<Rightarrow> string option" where
  "client_handoff_failure_summary_hash lib value =
     map_option (hash_hex lib) (Option.bind value compact_client_handoff_failure_summary)"

text \<open>
  The body of the loop over the outputs in \<^verbatim>\<open>settle_client_tool_handoff_outputs\<close>: the guard, the first
  report of a repeated failure and the number of outputs that answer no pending call. The result is
  \<open>None\<close> when the turn's state is missing, where the code panics.
\<close>

record settle_state =
  ss_guard :: client_handoff_guard
  ss_report :: "json option"
  ss_unmatched :: nat

definition repeated_failure_report :: "string \<Rightarrow> string \<Rightarrow> string option \<Rightarrow> nat \<Rightarrow> json" where
  "repeated_failure_report name arguments_hash failure_hash n =
     jobj [(''client_tool_handoff_repeated_failure'',
       jobj [(''tool_name'', JStr name), (''arguments_hash'', JStr arguments_hash),
         (''failure_summary_hash'', jopt JStr failure_hash), (''count'', jnat n),
         (''diagnostic_threshold'', jnat MAX_CLIENT_HANDOFF_FAILURES), (''mode'', JStr ''warn_before_guard'')])]"

definition find_pending_key ::
    "string \<Rightarrow> json \<Rightarrow> string \<Rightarrow> string \<Rightarrow> client_handoff_guard \<Rightarrow> pending_key option" where
  "find_pending_key request_id input turn_key call_id g =
     or_else
       (find_map (\<lambda>request_key.
          (let key = \<lparr>pk_turn_key = turn_key, pk_request_key = request_key, pk_call_id = call_id\<rparr>
           in if key \<in> fst ` set (hg_pending g) then Some key else None))
          (client_handoff_pending_request_keys request_id input))
       (unique_client_handoff_pending_key_for_turn g turn_key call_id)"

definition settle_output ::
    "store_lib \<Rightarrow> int \<Rightarrow> string \<Rightarrow> json \<Rightarrow> string \<Rightarrow> handoff_output \<Rightarrow> settle_state \<Rightarrow> settle_state option" where
  "settle_output lib now request_id input turn_key out st =
     (let g = ss_guard st
      in case find_pending_key request_id input turn_key (trim (ho_call_id out)) g of
           None \<Rightarrow> Some (st\<lparr>ss_unmatched := sat_add32 (ss_unmatched st) 1\<rparr>)
         | Some key \<Rightarrow>
             (case map_of (hg_pending g) key of
                None \<Rightarrow> Some st
              | Some pending \<Rightarrow>
                  (let effective = (if pc_turn_key pending = [] then turn_key else pc_turn_key pending);
                       g = ensure_client_handoff_turn effective (g\<lparr>hg_pending := kv_remove key (hg_pending g)\<rparr>)
                   in case map_of (hg_turns g) effective of
                        None \<Rightarrow> None
                      | Some t \<Rightarrow>
                          (let t = t\<lparr>ht_updated_at := Some now\<rparr>
                           in if ho_failed out
                              then
                                (let h = client_handoff_failure_summary_hash lib (ho_failure_summary out);
                                     (n, t) = update_client_handoff_failure_streak (pc_name pending)
                                       (pc_arguments_hash pending) h t
                                 in Some (st\<lparr>ss_guard := g\<lparr>hg_turns := hm_insert effective t (hg_turns g)\<rparr>,
                                       ss_report := (if n \<ge> MAX_CLIENT_HANDOFF_FAILURES \<and> ss_report st = None
                                         then Some (repeated_failure_report (pc_name pending) (pc_arguments_hash pending) h n)
                                         else ss_report st)\<rparr>))
                              else Some (st\<lparr>ss_guard := g\<lparr>hg_turns := hm_insert effective
                                (t\<lparr>ht_failure_streaks := kv_remove (pc_name pending) (ht_failure_streaks t)\<rparr>)
                                (hg_turns g)\<rparr>\<rparr>)))))"

fun settle_outputs ::
    "store_lib \<Rightarrow> int \<Rightarrow> string \<Rightarrow> json \<Rightarrow> string \<Rightarrow> handoff_output list \<Rightarrow> settle_state \<Rightarrow> settle_state option" where
  "settle_outputs lib now request_id input turn_key [] st = Some st"
| "settle_outputs lib now request_id input turn_key (out # outs) st =
     Option.bind (settle_output lib now request_id input turn_key out st)
       (settle_outputs lib now request_id input turn_key outs)"

section \<open>The calls of a response\<close>

definition CLIENT_HANDOFF_SIGNATURE_REPEAT_DIAGNOSTIC_THRESHOLD :: nat where
  "CLIENT_HANDOFF_SIGNATURE_REPEAT_DIAGNOSTIC_THRESHOLD = 3"

definition CLIENT_HANDOFF_VOLUME_DIAGNOSTIC_THRESHOLD :: nat where
  "CLIENT_HANDOFF_VOLUME_DIAGNOSTIC_THRESHOLD = 48"

record handoff_call =
  hc_call_id :: string
  hc_name :: string
  hc_arguments :: string

text \<open>The state of the loop over the calls in \<^verbatim>\<open>record_client_tool_handoff_calls\<close>.\<close>

record record_state =
  rs_turn :: handoff_turn
  rs_pending :: "(pending_key \<times> pending_call) list"
  rs_signature :: "json option"
  rs_failure :: "json option"

definition repeated_failure_guard_report :: "string \<Rightarrow> string \<Rightarrow> failure_streak \<Rightarrow> json" where
  "repeated_failure_guard_report name arguments_hash streak =
     jobj [(''client_tool_handoff_repeated_failure_guard'',
       jobj [(''tool_name'', JStr name), (''arguments_hash'', JStr arguments_hash),
         (''failure_summary_hash'', jopt JStr (fs_failure_summary_hash streak)), (''count'', jnat (fs_count streak)),
         (''diagnostic_threshold'', jnat MAX_CLIENT_HANDOFF_FAILURES), (''mode'', JStr ''diagnostic_only'')])]"

definition repeated_signature_report :: "string \<Rightarrow> string \<Rightarrow> nat \<Rightarrow> json" where
  "repeated_signature_report name arguments_hash n =
     jobj [(''client_tool_handoff_repeated_signature'',
       jobj [(''tool_name'', JStr name), (''arguments_hash'', JStr arguments_hash), (''count'', jnat n),
         (''diagnostic_threshold'', jnat CLIENT_HANDOFF_SIGNATURE_REPEAT_DIAGNOSTIC_THRESHOLD)])]"

definition volume_report :: "handoff_turn \<Rightarrow> json" where
  "volume_report t =
     jobj [(''client_tool_handoff_high_volume'', JBool True),
       (''client_tool_handoff_volume'',
          jobj [(''handoff_requests'', jnat (ht_handoff_requests t)), (''tool_calls'', jnat (ht_tool_calls t)),
            (''cumulative_input_tokens'', jnat (ht_cumulative_input_tokens t)),
            (''cumulative_total_tokens'', jnat (ht_cumulative_total_tokens t)),
            (''diagnostic_threshold'', jnat CLIENT_HANDOFF_VOLUME_DIAGNOSTIC_THRESHOLD)])]"

definition record_call :: "store_lib \<Rightarrow> string \<Rightarrow> string \<Rightarrow> handoff_call \<Rightarrow> record_state \<Rightarrow> record_state" where
  "record_call lib turn_key request_key call st =
     (let t = rs_turn st;
          arguments_hash = hash_hex lib (hc_arguments call);
          signature = hc_name call @ [CHR 0x0A] @ arguments_hash;
          failure = (case rs_failure st of Some f \<Rightarrow> Some f
            | None \<Rightarrow> map_option (repeated_failure_guard_report (hc_name call) arguments_hash)
                (opt_filter (\<lambda>s. fs_arguments_hash s = arguments_hash \<and> fs_count s \<ge> MAX_CLIENT_HANDOFF_FAILURES)
                  (map_of (ht_failure_streaks t) (hc_name call))));
          repeats = sat_add32 (unwrap_or 0 (map_of (ht_signature_counts t) signature)) 1
      in \<lparr>rs_turn = t\<lparr>ht_signature_counts := hm_insert signature repeats (ht_signature_counts t)\<rparr>,
          rs_pending = rs_pending st @
            [(\<lparr>pk_turn_key = turn_key, pk_request_key = request_key, pk_call_id = hc_call_id call\<rparr>,
              \<lparr>pc_turn_key = turn_key, pc_name = hc_name call, pc_arguments_hash = arguments_hash\<rparr>)],
          rs_signature = (if repeats \<ge> CLIENT_HANDOFF_SIGNATURE_REPEAT_DIAGNOSTIC_THRESHOLD \<and> rs_signature st = None
            then Some (repeated_signature_report (hc_name call) arguments_hash repeats) else rs_signature st),
          rs_failure = failure\<rparr>)"

text \<open>
  The guard's part of \<^verbatim>\<open>record_client_tool_handoff_calls\<close>, up to the reports: the guard with the turn's
  counters updated and its calls pending, and the reports in the order in which they are merged.
\<close>

definition count_request :: "int \<Rightarrow> nat \<Rightarrow> nat \<Rightarrow> nat \<Rightarrow> handoff_turn \<Rightarrow> handoff_turn" where
  "count_request now calls usage_input usage_total t =
     t\<lparr>ht_handoff_requests := sat_add32 (ht_handoff_requests t) 1,
       ht_tool_calls := sat_add32 (ht_tool_calls t) (min calls u32_max),
       ht_cumulative_input_tokens := sat_add (ht_cumulative_input_tokens t) usage_input,
       ht_cumulative_total_tokens := sat_add (ht_cumulative_total_tokens t) usage_total,
       ht_updated_at := Some now\<rparr>"

definition record_handoff_calls ::
    "store_lib \<Rightarrow> int \<Rightarrow> string \<Rightarrow> json \<Rightarrow> handoff_call list \<Rightarrow> json option \<Rightarrow> client_handoff_guard
       \<Rightarrow> (client_handoff_guard \<times> json list) option" where
  "record_handoff_calls lib now request_id input calls usage g =
     (let turn_key = client_handoff_turn_key lib input;
          g = ensure_client_handoff_turn turn_key (prune_client_handoff_guard g);
          usage_input = usage_input_tokens (unwrap_or JNull usage);
          usage_total = usage_total_tokens (unwrap_or JNull usage) usage_input
      in case map_of (hg_turns g) turn_key of
           None \<Rightarrow> None
         | Some t \<Rightarrow>
             (let st = fold (record_call lib turn_key request_id) calls
                    \<lparr>rs_turn = count_request now (length calls) usage_input usage_total t,
                     rs_pending = [], rs_signature = None, rs_failure = None\<rparr>;
                  t = rs_turn st;
                  volume = (if ht_handoff_requests t > CLIENT_HANDOFF_VOLUME_DIAGNOSTIC_THRESHOLD
                    then Some (volume_report t) else None)
              in Some (g\<lparr>hg_turns := hm_insert turn_key t (hg_turns g),
                         hg_pending := fold (\<lambda>(k, p). hm_insert k p) (rs_pending st) (hg_pending g)\<rparr>,
                       List.map_filter id [rs_signature st, volume, rs_failure st])))"

section \<open>The invariant of the guard\<close>

definition guard_ok :: "client_handoff_guard \<Rightarrow> bool" where
  "guard_ok g \<longleftrightarrow> hm_ok (hg_turns g) \<and> hm_ok (hg_pending g) \<and> distinct (hg_turn_order g)
     \<and> set (hg_turn_order g) = fst ` set (hg_turns g)
     \<and> (\<forall>(key, p) \<in> set (hg_pending g). pc_turn_key p = pk_turn_key key \<and> pk_turn_key key \<in> set (hg_turn_order g))"

lemma guard_ok_default: "guard_ok default_guard"
  by (simp add: guard_ok_def default_guard_def hm_ok_def)

lemma guard_ok_forget:
  assumes "guard_ok g" and "hg_turn_order g = oldest # rest"
  shows "guard_ok (forget_turn oldest (g\<lparr>hg_turn_order := rest\<rparr>))"
proof -
  have "oldest \<notin> set rest" using assms by (simp add: guard_ok_def)
  then have "set rest = fst ` set (hg_turns g) - {oldest}" using assms by (auto simp: guard_ok_def)
  then have "set rest = fst ` set (kv_remove oldest (hg_turns g))" by (auto simp: set_kv_remove)
  moreover have "hm_ok (kv_remove oldest (hg_turns g))" using assms(1) by (auto simp: guard_ok_def)
  ultimately show ?thesis using assms
    by (auto simp: guard_ok_def forget_turn_def intro: hm_ok_filter)
qed

lemma prune_turns_ok: "guard_ok g \<Longrightarrow> guard_ok (prune_turns g)"
proof (induction g rule: prune_turns.induct)
  case (1 g)
  show ?case
  proof (cases "length (hg_turn_order g) > MAX_CLIENT_HANDOFF_GUARD_TURNS")
    case True
    then obtain oldest rest where o: "hg_turn_order g = oldest # rest" by (cases "hg_turn_order g") auto
    from "1.IH" [OF True o] guard_ok_forget [OF "1.prems" o] True o show ?thesis
      by (simp add: prune_turns.simps [of g])
  next
    case False
    with "1.prems" show ?thesis by (simp add: prune_turns.simps [of g])
  qed
qed

text \<open>Pruning keeps the newest turns, their number within the bound.\<close>

lemma prune_turns_order:
  "hg_turn_order (prune_turns g) = drop (length (hg_turn_order g) - MAX_CLIENT_HANDOFF_GUARD_TURNS) (hg_turn_order g)"
proof (induction g rule: prune_turns.induct)
  case (1 g)
  show ?case
  proof (cases "length (hg_turn_order g) > MAX_CLIENT_HANDOFF_GUARD_TURNS")
    case True
    then obtain oldest rest where o: "hg_turn_order g = oldest # rest" by (cases "hg_turn_order g") auto
    from "1.IH" [OF True o] True o show ?thesis
      by (simp add: prune_turns.simps [of g] forget_turn_def Suc_diff_le)
  next
    case False
    then show ?thesis by (simp add: prune_turns.simps [of g])
  qed
qed

lemma guard_ok_pending:
  assumes "guard_ok g" and "hm_ok ps" and "set ps \<subseteq> set (hg_pending g)"
  shows "guard_ok (g\<lparr>hg_pending := ps\<rparr>)"
proof -
  have "\<forall>(key, p) \<in> set ps. pc_turn_key p = pk_turn_key key \<and> pk_turn_key key \<in> set (hg_turn_order g)"
    using assms(1,3) unfolding guard_ok_def by blast
  with assms(1,2) show ?thesis by (simp add: guard_ok_def)
qed

lemma fold_kv_remove: "fold kv_remove ks m = filter (\<lambda>e. fst e \<notin> set ks) m"
proof (induction ks arbitrary: m)
  case (Cons k ks)
  have "fold kv_remove (k # ks) m = filter (\<lambda>e. fst e \<notin> set ks) (kv_remove k m)" by (simp add: Cons.IH)
  also have "\<dots> = filter (\<lambda>e. fst e \<notin> set (k # ks)) m" by (simp add: kv_remove_def conj_commute)
  finally show ?case .
qed simp

lemma filter_not_taken: "distinct (map fst m) \<Longrightarrow> filter (\<lambda>e. fst e \<notin> set (take n (map fst m))) m = drop n m"
proof (induction m arbitrary: n)
  case (Cons e m)
  show ?case
  proof (cases n)
    case (Suc k)
    have "filter (\<lambda>x. fst x \<noteq> fst e \<and> fst x \<notin> set (take k (map fst m))) m
        = filter (\<lambda>x. fst x \<notin> set (take k (map fst m))) m"
      using Cons.prems by (intro filter_cong) (auto simp: rev_image_eqI)
    then show ?thesis using Cons Suc by simp
  qed simp
qed simp

lemma prune_pending:
  assumes "hm_ok (hg_pending (prune_turns g))"
  shows "prune_client_handoff_guard g = (prune_turns g)\<lparr>hg_pending :=
     drop (length (hg_pending (prune_turns g)) - MAX_CLIENT_HANDOFF_PENDING_CALLS) (hg_pending (prune_turns g))\<rparr>"
  using assms by (simp add: prune_client_handoff_guard_def Let_def fold_kv_remove filter_not_taken hm_ok_def)

lemma prune_guard:
  assumes "guard_ok g"
  shows "guard_ok (prune_client_handoff_guard g)"
    and "hg_turn_order (prune_client_handoff_guard g)
      = drop (length (hg_turn_order g) - MAX_CLIENT_HANDOFF_GUARD_TURNS) (hg_turn_order g)"
    and "length (hg_pending (prune_client_handoff_guard g)) \<le> MAX_CLIENT_HANDOFF_PENDING_CALLS"
proof -
  note ok = prune_turns_ok [OF assms]
  then have eq: "prune_client_handoff_guard g = (prune_turns g)\<lparr>hg_pending :=
      drop (length (hg_pending (prune_turns g)) - MAX_CLIENT_HANDOFF_PENDING_CALLS) (hg_pending (prune_turns g))\<rparr>"
    by (intro prune_pending) (simp add: guard_ok_def)
  show "guard_ok (prune_client_handoff_guard g)"
    unfolding eq by (intro guard_ok_pending ok)
      (use ok in \<open>auto simp: guard_ok_def hm_ok_def drop_map [symmetric] distinct_drop dest: in_set_dropD\<close>)
  show "hg_turn_order (prune_client_handoff_guard g)
      = drop (length (hg_turn_order g) - MAX_CLIENT_HANDOFF_GUARD_TURNS) (hg_turn_order g)"
    by (simp add: eq prune_turns_order)
  show "length (hg_pending (prune_client_handoff_guard g)) \<le> MAX_CLIENT_HANDOFF_PENDING_CALLS"
    by (simp add: eq)
qed

lemma guard_ok_add_turn:
  assumes "guard_ok g" and "k \<notin> fst ` set (hg_turns g)"
  shows "guard_ok (g\<lparr>hg_turn_order := hg_turn_order g @ [k], hg_turns := hm_insert k t (hg_turns g)\<rparr>)"
  using assms by (auto simp: guard_ok_def hm_insert_keys)

lemma ensure_turn:
  assumes "guard_ok g"
  shows "guard_ok (ensure_client_handoff_turn k g)"
    and "length (hg_turn_order g) \<le> MAX_CLIENT_HANDOFF_GUARD_TURNS \<Longrightarrow>
      \<exists>t. map_of (hg_turns (ensure_client_handoff_turn k g)) k = Some t"
    and "length (hg_turn_order (ensure_client_handoff_turn k g)) \<le> MAX_CLIENT_HANDOFF_GUARD_TURNS"
    and "length (hg_pending (ensure_client_handoff_turn k g)) \<le> MAX_CLIENT_HANDOFF_PENDING_CALLS"
proof -
  let ?g = "if k \<in> fst ` set (hg_turns g) then g
    else g\<lparr>hg_turn_order := hg_turn_order g @ [k], hg_turns := hm_insert k default_turn (hg_turns g)\<rparr>"
  have ok: "guard_ok ?g" using assms guard_ok_add_turn [OF assms] by simp
  note p = prune_guard [OF ok, folded ensure_client_handoff_turn_def]
  show "guard_ok (ensure_client_handoff_turn k g)"
    and "length (hg_pending (ensure_client_handoff_turn k g)) \<le> MAX_CLIENT_HANDOFF_PENDING_CALLS" by (fact p)+
  show "length (hg_turn_order (ensure_client_handoff_turn k g)) \<le> MAX_CLIENT_HANDOFF_GUARD_TURNS"
    by (simp add: p(2))
  assume short: "length (hg_turn_order g) \<le> MAX_CLIENT_HANDOFF_GUARD_TURNS"
  have "k \<in> set (hg_turn_order (ensure_client_handoff_turn k g))"
    using short assms unfolding p(2) by (auto simp: MAX_CLIENT_HANDOFF_GUARD_TURNS_def guard_ok_def)
  then show "\<exists>t. map_of (hg_turns (ensure_client_handoff_turn k g)) k = Some t"
    using p(1) by (cases "map_of (hg_turns (ensure_client_handoff_turn k g)) k")
      (auto simp: guard_ok_def map_of_eq_None_iff)
qed

section \<open>Settling and recording\<close>

text \<open>An operation on a guard whose turns are within the bound leaves such a guard.\<close>

definition guard_bounded :: "client_handoff_guard \<Rightarrow> bool" where
  "guard_bounded g \<longleftrightarrow> guard_ok g \<and> length (hg_turn_order g) \<le> MAX_CLIENT_HANDOFF_GUARD_TURNS"

lemma guard_bounded_default: "guard_bounded default_guard"
  by (simp add: guard_bounded_def guard_ok_default) (simp add: default_guard_def)

lemma guard_bounded_prune: "guard_bounded g \<Longrightarrow> guard_bounded (prune_client_handoff_guard g)"
  by (simp add: guard_bounded_def prune_guard)

lemma guard_bounded_ensure:
  "guard_bounded g \<Longrightarrow> guard_bounded (ensure_client_handoff_turn k g)"
  "guard_bounded g \<Longrightarrow> \<exists>t. map_of (hg_turns (ensure_client_handoff_turn k g)) k = Some t"
  by (auto simp: guard_bounded_def ensure_turn intro: ensure_turn(2))

lemma guard_bounded_set_turn:
  assumes "guard_bounded g" and "map_of (hg_turns g) k = Some t"
  shows "guard_bounded (g\<lparr>hg_turns := hm_insert k t' (hg_turns g)\<rparr>)"
proof -
  have "k \<in> fst ` set (hg_turns g)" using assms(2) by (force dest: map_of_SomeD)
  then show ?thesis using assms(1) by (auto simp: guard_bounded_def guard_ok_def hm_insert_keys insert_absorb)
qed

lemma guard_bounded_take_pending:
  "guard_bounded g \<Longrightarrow> guard_bounded (g\<lparr>hg_pending := kv_remove k (hg_pending g)\<rparr>)"
  unfolding guard_bounded_def by (auto intro!: guard_ok_pending simp: guard_ok_def kv_remove_def hm_ok_filter)

lemma settle_output_returns:
  assumes "guard_bounded (ss_guard st)"
  shows "\<exists>st'. settle_output lib now request_id input turn_key out st = Some st' \<and> guard_bounded (ss_guard st')"
proof (cases "find_pending_key request_id input turn_key (trim (ho_call_id out)) (ss_guard st)")
  case None
  then show ?thesis using assms by (simp add: settle_output_def)
next
  case (Some key)
  show ?thesis
  proof (cases "map_of (hg_pending (ss_guard st)) key")
    case None
    with Some assms show ?thesis by (simp add: settle_output_def)
  next
    case pending: (Some pending)
    define k where "k = (if pc_turn_key pending = [] then turn_key else pc_turn_key pending)"
    let ?g = "ensure_client_handoff_turn k
      ((ss_guard st)\<lparr>hg_pending := kv_remove key (hg_pending (ss_guard st))\<rparr>)"
    note g = guard_bounded_ensure [OF guard_bounded_take_pending [OF assms], of k key]
    from g(2) obtain t where "map_of (hg_turns ?g) k = Some t" by blast
    then show ?thesis using Some pending guard_bounded_set_turn [OF g(1)]
      by (simp add: settle_output_def Let_def k_def [symmetric] split: prod.split)
  qed
qed

lemma settle_outputs_returns:
  assumes "guard_bounded (ss_guard st)"
  shows "\<exists>st'. settle_outputs lib now request_id input turn_key outs st = Some st' \<and> guard_bounded (ss_guard st')"
  using assms
proof (induction outs arbitrary: st)
  case (Cons out outs)
  from settle_output_returns [OF Cons.prems] obtain st' where
    "settle_output lib now request_id input turn_key out st = Some st'" "guard_bounded (ss_guard st')" by blast
  with Cons.IH show ?case by simp
qed simp

lemma record_call_pending:
  "rs_pending (fold (record_call lib turn_key request_key) calls st) = rs_pending st @ map (\<lambda>call.
     (\<lparr>pk_turn_key = turn_key, pk_request_key = request_key, pk_call_id = hc_call_id call\<rparr>,
      \<lparr>pc_turn_key = turn_key, pc_name = hc_name call, pc_arguments_hash = hash_hex lib (hc_arguments call)\<rparr>)) calls"
  by (induction calls arbitrary: st) (simp_all add: record_call_def Let_def)

lemma guard_bounded_add_pending:
  assumes "guard_bounded g" and "\<forall>(k, p) \<in> set ps. pc_turn_key p = pk_turn_key k \<and> pk_turn_key k \<in> set (hg_turn_order g)"
  shows "guard_bounded (g\<lparr>hg_pending := fold (\<lambda>(k, p). hm_insert k p) ps (hg_pending g)\<rparr>)"
  using assms
proof (induction ps arbitrary: g)
  case (Cons e ps)
  obtain k p where e: "e = (k, p)" by fastforce
  let ?g = "g\<lparr>hg_pending := hm_insert k p (hg_pending g)\<rparr>"
  have "hm_ok (hg_pending g)" using Cons.prems(1) by (simp add: guard_bounded_def guard_ok_def)
  then have "guard_bounded ?g"
    using Cons.prems e by (auto simp: guard_bounded_def guard_ok_def hashmap.set_ins)
  with Cons.IH [of ?g] Cons.prems e show ?case by simp
qed simp

lemma record_handoff_calls_returns:
  assumes "guard_bounded g"
  shows "\<exists>g' reports. record_handoff_calls lib now request_id input calls usage g = Some (g', reports) \<and> guard_bounded g'"
proof -
  let ?k = "client_handoff_turn_key lib input"
  let ?g = "ensure_client_handoff_turn ?k (prune_client_handoff_guard g)"
  note g = guard_bounded_ensure [OF guard_bounded_prune [OF assms], of ?k]
  from g(2) obtain t where t: "map_of (hg_turns ?g) ?k = Some t" by blast
  then have "?k \<in> set (hg_turn_order ?g)"
    using g(1) by (force simp: guard_bounded_def guard_ok_def dest: map_of_SomeD)
  then show ?thesis
    using t guard_bounded_add_pending [OF guard_bounded_set_turn [OF g(1) t]]
    by (simp add: record_handoff_calls_def Let_def record_call_pending)
qed

section \<open>Failure streaks\<close>

text \<open>
  What the answers to the calls of one tool do to a turn, as \<open>settle_output\<close> applies them: \<open>None\<close>
  a success, \<open>Some (a, h)\<close> a failure of the arguments \<open>a\<close> with the summary \<open>h\<close>.
\<close>

definition apply_outcome :: "string \<Rightarrow> (string \<times> string option) option \<Rightarrow> handoff_turn \<Rightarrow> handoff_turn" where
  "apply_outcome tool out t =
     (case out of
        None \<Rightarrow> t\<lparr>ht_failure_streaks := kv_remove tool (ht_failure_streaks t)\<rparr>
      | Some (a, h) \<Rightarrow> snd (update_client_handoff_failure_streak tool a h t))"

text \<open>Settling the answer to a pending call is an outcome of the call's tool in the call's turn.\<close>

lemma settle_output_outcome:
  assumes "find_pending_key request_id input turn_key (trim (ho_call_id out)) (ss_guard st) = Some key"
    and "map_of (hg_pending (ss_guard st)) key = Some pending" and "pc_turn_key pending \<noteq> []"
    and "settle_output lib now request_id input turn_key out st = Some st'"
  shows "\<exists>t. map_of (hg_turns (ensure_client_handoff_turn (pc_turn_key pending)
        ((ss_guard st)\<lparr>hg_pending := kv_remove key (hg_pending (ss_guard st))\<rparr>))) (pc_turn_key pending) = Some t
    \<and> map_of (hg_turns (ss_guard st')) (pc_turn_key pending) = Some (apply_outcome (pc_name pending)
        (if ho_failed out then Some (pc_arguments_hash pending,
           client_handoff_failure_summary_hash lib (ho_failure_summary out)) else None) (t\<lparr>ht_updated_at := Some now\<rparr>))"
  using assms
  by (auto simp: settle_output_def Let_def apply_outcome_def map_simps split: option.splits if_splits prod.splits)

fun streak_of :: "(string \<times> string option) option list \<Rightarrow> failure_streak option" where
  "streak_of (Some (a, h) # outs) =
     Some \<lparr>fs_arguments_hash = a, fs_failure_summary_hash = h,
       fs_count = min (Suc (length (takeWhile (\<lambda>x. x = Some (a, h)) outs))) u32_max\<rparr>"
| "streak_of _ = None"

lemma streak_of_Cons:
  "streak_of (Some (a, h) # outs) = Some \<lparr>fs_arguments_hash = a, fs_failure_summary_hash = h,
     fs_count = (case opt_filter (\<lambda>s. fs_arguments_hash s = a \<and> fs_failure_summary_hash s = h) (streak_of outs) of
       Some s \<Rightarrow> sat_add32 (fs_count s) 1 | None \<Rightarrow> 1)\<rparr>"
  by (cases outs rule: streak_of.cases)
    (auto simp: opt_filter_def sat_add32_def u32_max_def min_def)

text \<open>What counts as failing again. After any sequence of answers to the calls of a tool in a turn, the
  recorded streak is that of the latest answers: nothing when the last one succeeded, and otherwise the
  last failure, with the number of answers in a row up to it that failed with the same arguments and
  the same message, saturating at 32 bits. A success, other arguments or another message start over.\<close>

lemma failure_streak_counts:
  "map_of (ht_failure_streaks (fold (apply_outcome tool) outs default_turn)) tool = streak_of (rev outs)"
proof (induction outs rule: rev_induct)
  case Nil
  show ?case by (simp add: default_turn_def)
next
  case (snoc out outs)
  then show ?case
    by (cases out) (auto simp: apply_outcome_def update_client_handoff_failure_streak_def Let_def map_simps
        streak_of_Cons simp del: streak_of.simps(1))
qed

end
