(* ===== verification/Request_Store.thy ===== *)
theory Request_Store
  imports Handoff_Guard
begin

text \<open>
  The runtime store of requests, \<^verbatim>\<open>crates/store/src/store.rs\<close>: a request is checkpointed when it
  arrives, finished or interrupted once, read back as the context of later requests, and dropped when
  the store is full. The lock around the state makes each method one step on \<open>store_inner\<close>; the
  current time, in nanoseconds, is an argument. Of the state the price list and the cache of the usage
  summary are left out. A \<^verbatim>\<open>bail!\<close> is an \<open>Inl\<close> and leaves the state alone.
\<close>

definition MAX_RUNTIME_REQUESTS :: nat where "MAX_RUNTIME_REQUESTS = 2048"
definition MAX_RUNTIME_EVENTS :: nat where "MAX_RUNTIME_EVENTS = 2048"
definition MAX_TURN_MESSAGES_PER_REQUEST :: nat where "MAX_TURN_MESSAGES_PER_REQUEST = 256"
definition MAX_TOOL_FACTS_PER_REQUEST :: nat where "MAX_TOOL_FACTS_PER_REQUEST = 100"
definition IN_PROGRESS_TTL_SECONDS :: int where "IN_PROGRESS_TTL_SECONDS = 6 * 60 * 60"

datatype request_status = InProgress | Completed | RequestFailed | Interrupted

record stored_request =
  rq_id :: string
  rq_previous :: "string option"
  rq_status :: request_status
  rq_model :: "string option"
  rq_input :: json
  rq_response :: json
  rq_turn_messages :: "json list"
  rq_tool_facts :: "string list"
  rq_diagnostic :: "json option"
  rq_created_at :: int
  rq_updated_at :: int

record event_record =
  ev_id :: int
  ev_level :: string
  ev_type :: string
  ev_audience :: "string option"
  ev_message :: string
  ev_detail :: "json option"
  ev_ts :: string

record store_inner =
  si_requests :: "(string \<times> stored_request) list"
  si_order :: "string list"
  si_events :: "event_record list"
  si_next_event_id :: int
  si_usage_revision :: nat
  si_event_revision :: nat
  si_guard :: client_handoff_guard

datatype store_error =
    DuplicateRequest string
  | RequestNotFound string
  | PreviousNotAvailable string
  | PreviousNotCompleted string request_status
  | ChainCycle string
  | ChainIncomplete string
  | ChainNotCompleted string request_status

definition empty_store :: store_inner where
  "empty_store = \<lparr>si_requests = [], si_order = [], si_events = [], si_next_event_id = 0,
     si_usage_revision = 0, si_event_revision = 0, si_guard = default_guard\<rparr>"

section \<open>Revisions and pruning\<close>

definition bump_usage_revision :: "store_inner \<Rightarrow> store_inner" where
  "bump_usage_revision s = s\<lparr>si_usage_revision := sat_add (si_usage_revision s) 1\<rparr>"

definition bump_event_revision :: "store_inner \<Rightarrow> store_inner" where
  "bump_event_revision s = s\<lparr>si_event_revision := sat_add (si_event_revision s) 1\<rparr>"

definition push_request_order :: "string list \<Rightarrow> string \<Rightarrow> string list" where
  "push_request_order order rid = remove1 rid order @ [rid]"

definition is_stale :: "int \<Rightarrow> stored_request \<Rightarrow> bool" where
  "is_stale now r \<longleftrightarrow> rq_status r = InProgress
     \<and> \<not> (now - rq_created_at r) div 1000000000 < IN_PROGRESS_TTL_SECONDS"

definition mark_stale :: "int \<Rightarrow> stored_request \<Rightarrow> stored_request" where
  "mark_stale now r =
     (if is_stale now r
      then r\<lparr>rq_status := Interrupted,
             rq_diagnostic := Some (jobj [(''reason'', JStr ''in_progress request exceeded runtime TTL''),
               (''ttl_seconds'', JNum (PosInt (nat IN_PROGRESS_TTL_SECONDS)))]),
             rq_updated_at := now\<rparr>
      else r)"

definition mark_stale_in_progress_requests :: "int \<Rightarrow> store_inner \<Rightarrow> bool \<times> store_inner" where
  "mark_stale_in_progress_requests now s =
     (list_ex (\<lambda>(k, r). is_stale now r) (si_requests s),
      s\<lparr>si_requests := map (\<lambda>(k, r). (k, mark_stale now r)) (si_requests s)\<rparr>)"

text \<open>The loop that drops the oldest requests, with the number of requests it has put back in a row.\<close>

function prune_loop ::
    "nat \<Rightarrow> (string \<times> stored_request) list \<Rightarrow> string list \<Rightarrow> (string \<times> stored_request) list \<times> string list" where
  "prune_loop scanned requests order =
     (if length requests > MAX_RUNTIME_REQUESTS
      then (case order of
              [] \<Rightarrow> (requests, order)
            | rid # rest \<Rightarrow>
                if map_option rq_status (map_of requests rid) = Some InProgress
                then (let order = rest @ [rid]; scanned = Suc scanned
                      in if scanned \<ge> length order then (requests, order)
                         else prune_loop scanned requests order)
                else prune_loop 0 (kv_remove rid requests) rest)
      else (requests, order))"
  by pat_completeness auto
termination
  by (relation "measures [\<lambda>(n, m, ord). length ord, \<lambda>(n, m, ord). length ord - n]") auto

declare prune_loop.simps [simp del]

definition prune_runtime_requests :: "int \<Rightarrow> store_inner \<Rightarrow> store_inner" where
  "prune_runtime_requests now s =
     (let (changed, s) = mark_stale_in_progress_requests now s;
          s = (if changed then bump_usage_revision s else s);
          (requests, order) = prune_loop 0 (si_requests s) (si_order s)
      in s\<lparr>si_requests := requests, si_order := order\<rparr>)"

section \<open>The life of a request\<close>

definition checkpoint_request ::
    "store_lib \<Rightarrow> int \<Rightarrow> string \<Rightarrow> string option \<Rightarrow> string option \<Rightarrow> json \<Rightarrow> store_inner \<Rightarrow> store_error + store_inner" where
  "checkpoint_request lib now rid previous model input s =
     (if rid \<in> fst ` set (si_requests s) then Inl (DuplicateRequest rid)
      else
        (let r = \<lparr>rq_id = rid, rq_previous = previous, rq_status = InProgress, rq_model = model,
               rq_input = request_input_for_runtime lib previous input, rq_response = JNull,
               rq_turn_messages = [], rq_tool_facts = [], rq_diagnostic = None,
               rq_created_at = now, rq_updated_at = now\<rparr>;
             s = s\<lparr>si_requests := hm_insert rid r (si_requests s),
                   si_order := push_request_order (si_order s) rid\<rparr>
         in Inr (bump_usage_revision (prune_runtime_requests now s))))"

text \<open>\<^verbatim>\<open>get_mut\<close>: update the request in place, or report that it is not there.\<close>

definition with_request ::
    "string \<Rightarrow> (stored_request \<Rightarrow> stored_request) \<Rightarrow> store_inner \<Rightarrow> store_error + store_inner" where
  "with_request rid f s =
     (case map_of (si_requests s) rid of
        None \<Rightarrow> Inl (RequestNotFound rid)
      | Some r \<Rightarrow> Inr (s\<lparr>si_requests := hm_insert rid (f r) (si_requests s)\<rparr>))"

definition omitted_notice :: "nat \<Rightarrow> string" where
  "omitted_notice n = ''[CodeSeeX runtime omitted '' @ nat_str n @ '' older tool fact(s)]''"

definition push_tool_fact :: "store_lib \<Rightarrow> string \<Rightarrow> string list \<Rightarrow> string list" where
  "push_tool_fact lib fct facts =
     (let facts = facts @ [sanitize_log_string lib fct]
      in if length facts > MAX_TOOL_FACTS_PER_REQUEST
         then (let omitted = length facts - MAX_TOOL_FACTS_PER_REQUEST
               in omitted_notice omitted # drop omitted facts)
         else facts)"

definition append_request_tool_fact ::
    "store_lib \<Rightarrow> int \<Rightarrow> string \<Rightarrow> string \<Rightarrow> store_inner \<Rightarrow> store_error + store_inner" where
  "append_request_tool_fact lib now rid fct =
     with_request rid (\<lambda>r. r\<lparr>rq_tool_facts := push_tool_fact lib fct (rq_tool_facts r), rq_updated_at := now\<rparr>)"

definition last_messages :: "json list \<Rightarrow> json list" where
  "last_messages values =
     (if length values > MAX_TURN_MESSAGES_PER_REQUEST
      then drop (length values - MAX_TURN_MESSAGES_PER_REQUEST) values else values)"

definition replace_request_turn_messages ::
    "store_lib \<Rightarrow> int \<Rightarrow> string \<Rightarrow> json list \<Rightarrow> store_inner \<Rightarrow> store_error + store_inner" where
  "replace_request_turn_messages lib now rid messages =
     with_request rid (\<lambda>r. r\<lparr>rq_turn_messages := last_messages (map (memory_json_value lib) messages),
       rq_updated_at := now\<rparr>)"

definition append_request_turn_messages ::
    "store_lib \<Rightarrow> int \<Rightarrow> string \<Rightarrow> json list \<Rightarrow> store_inner \<Rightarrow> store_error + store_inner" where
  "append_request_turn_messages lib now rid messages s =
     (if messages = [] then Inr s
      else with_request rid (\<lambda>r. r\<lparr>rq_turn_messages :=
             last_messages (rq_turn_messages r @ map (memory_json_value lib) messages), rq_updated_at := now\<rparr>) s)"

definition finish_request ::
    "store_lib \<Rightarrow> int \<Rightarrow> string \<Rightarrow> request_status \<Rightarrow> json option \<Rightarrow> json option \<Rightarrow> store_inner
       \<Rightarrow> store_error + store_inner" where
  "finish_request lib now rid status response diagnostic s =
     (case map_of (si_requests s) rid of
        None \<Rightarrow> Inl (RequestNotFound rid)
      | Some r \<Rightarrow>
          if rq_status r = Interrupted then Inr s
          else map_sum (\<lambda>e. e) bump_usage_revision (with_request rid (\<lambda>r. r\<lparr>rq_status := status,
            rq_response := (case response of None \<Rightarrow> rq_response r | Some v \<Rightarrow> memory_json_value lib v),
            rq_diagnostic := (case diagnostic of None \<Rightarrow> rq_diagnostic r
              | Some d \<Rightarrow> Some (merge_request_diagnostic lib (rq_diagnostic r) d)),
            rq_updated_at := now\<rparr>) s))"

definition interrupt :: "int \<Rightarrow> string \<Rightarrow> stored_request \<Rightarrow> stored_request" where
  "interrupt now reason r =
     r\<lparr>rq_status := Interrupted, rq_diagnostic := Some (jobj [(''reason'', JStr reason)]), rq_updated_at := now\<rparr>"

definition interrupt_request_if_in_progress ::
    "int \<Rightarrow> string \<Rightarrow> string \<Rightarrow> store_inner \<Rightarrow> bool \<times> store_inner" where
  "interrupt_request_if_in_progress now rid reason s =
     (case map_of (si_requests s) rid of
        None \<Rightarrow> (False, s)
      | Some r \<Rightarrow>
          if rq_status r \<noteq> InProgress then (False, s)
          else (True, bump_usage_revision (s\<lparr>si_requests := hm_insert rid (interrupt now reason r) (si_requests s)\<rparr>)))"

definition update_request_diagnostic ::
    "store_lib \<Rightarrow> int \<Rightarrow> string \<Rightarrow> json \<Rightarrow> store_inner \<Rightarrow> store_error + store_inner" where
  "update_request_diagnostic lib now rid diagnostic s =
     map_sum (\<lambda>e. e) bump_usage_revision (with_request rid (\<lambda>r. r\<lparr>
       rq_diagnostic := Some (merge_request_diagnostic lib (rq_diagnostic r) diagnostic), rq_updated_at := now\<rparr>) s)"

definition recover_interrupted_requests :: "int \<Rightarrow> string \<Rightarrow> store_inner \<Rightarrow> string list \<times> store_inner" where
  "recover_interrupted_requests now reason s =
     (let ids = map (rq_id \<circ> snd) (filter (\<lambda>(k, r). rq_status r = InProgress) (si_requests s));
          s = s\<lparr>si_requests := map (\<lambda>(k, r).
            (k, if rq_status r = InProgress then interrupt now reason r else r)) (si_requests s)\<rparr>
      in (ids, if ids \<noteq> [] then bump_usage_revision s else s))"

section \<open>Reading a conversation back\<close>

record stored_response =
  sr_id :: string
  sr_previous :: "string option"
  sr_status :: request_status
  sr_input :: json
  sr_response :: json
  sr_turn_messages :: "json list"
  sr_tool_facts :: "string list"
  sr_diagnostic :: "json option"

definition response_of :: "stored_request \<Rightarrow> stored_response" where
  "response_of r = \<lparr>sr_id = rq_id r, sr_previous = rq_previous r, sr_status = rq_status r,
     sr_input = rq_input r, sr_response = rq_response r, sr_turn_messages = rq_turn_messages r,
     sr_tool_facts = rq_tool_facts r, sr_diagnostic = rq_diagnostic r\<rparr>"

text \<open>The loop \<^verbatim>\<open>for _ in 0..max_depth\<close>, with the responses found so far, newest first.\<close>

fun chain_loop ::
    "(string \<times> stored_request) list \<Rightarrow> nat \<Rightarrow> string option \<Rightarrow> string list \<Rightarrow> stored_response list
       \<Rightarrow> store_error + stored_response list" where
  "chain_loop requests 0 cursor visited newest_first = Inr newest_first"
| "chain_loop requests (Suc n) cursor visited newest_first =
     (case cursor of
        None \<Rightarrow> Inr newest_first
      | Some rid \<Rightarrow>
          if rid \<in> set visited then Inl (ChainCycle rid)
          else (case map_of requests rid of
                  None \<Rightarrow> Inl (ChainIncomplete rid)
                | Some r \<Rightarrow>
                    if rq_status r \<noteq> Completed then Inl (ChainNotCompleted rid (rq_status r))
                    else chain_loop requests n (rq_previous r) (rid # visited) (newest_first @ [response_of r])))"

definition response_context_chain :: "string \<Rightarrow> nat \<Rightarrow> store_inner \<Rightarrow> store_error + stored_response list" where
  "response_context_chain previous max_depth s =
     (case map_of (si_requests s) previous of
        None \<Rightarrow> Inl (PreviousNotAvailable previous)
      | Some r \<Rightarrow>
          if rq_status r \<noteq> Completed then Inl (PreviousNotCompleted previous (rq_status r))
          else map_sum (\<lambda>e. e) rev
            (chain_loop (si_requests s) (max 1 (min max_depth 10000)) (Some previous) [] []))"

definition contains_response :: "string \<Rightarrow> store_inner \<Rightarrow> bool" where
  "contains_response rid s = (rid \<in> fst ` set (si_requests s))"

definition response_status :: "string \<Rightarrow> store_inner \<Rightarrow> request_status option" where
  "response_status rid s = map_option rq_status (map_of (si_requests s) rid)"

definition guard_stopped :: "stored_request \<Rightarrow> bool" where
  "guard_stopped r = (Option.bind (Option.bind (rq_diagnostic r)
     (\<lambda>d. jget d ''client_tool_handoff_guard_stopped'')) as_bool = Some True)"

definition request_lifecycle :: "stored_request \<Rightarrow> string" where
  "request_lifecycle r =
     (case Option.bind (rq_diagnostic r) (\<lambda>d. get_str d ''codeseex_lifecycle'') of
        Some lifecycle \<Rightarrow> lifecycle
      | None \<Rightarrow> if rq_status r \<in> {RequestFailed, Interrupted} then ''failed_billable'' else ''final_turn'')"

definition request_is_completed_final_turn :: "stored_request \<Rightarrow> bool" where
  "request_is_completed_final_turn r \<longleftrightarrow>
     rq_status r = Completed \<and> request_lifecycle r = ''final_turn'' \<and> \<not> guard_stopped r"

definition request_prompt_cache_key :: "stored_request \<Rightarrow> string option" where
  "request_prompt_cache_key r =
     opt_filter (\<lambda>v. v \<noteq> []) (map_option trim (get_str (rq_input r) ''prompt_cache_key''))"

definition latest_matching :: "(stored_request \<Rightarrow> bool) \<Rightarrow> store_inner \<Rightarrow> string option" where
  "latest_matching p s = map_option rq_id (find p (List.map_filter (map_of (si_requests s)) (rev (si_order s))))"

definition latest_completed_final_response_for_prompt_cache_key :: "string \<Rightarrow> store_inner \<Rightarrow> string option" where
  "latest_completed_final_response_for_prompt_cache_key key s =
     (if trim key = [] then None
      else latest_matching (\<lambda>r. rq_status r = Completed \<and> request_is_completed_final_turn r
        \<and> request_prompt_cache_key r = Some (trim key)) s)"

definition latest_completed_context_response_for_prompt_cache_key :: "string \<Rightarrow> store_inner \<Rightarrow> string option" where
  "latest_completed_context_response_for_prompt_cache_key key s =
     (if trim key = [] then None
      else latest_matching (\<lambda>r. rq_status r = Completed \<and> request_prompt_cache_key r = Some (trim key)
        \<and> request_lifecycle r \<in> {''final_turn'', ''client_tool_handoff''} \<and> \<not> guard_stopped r) s)"

section \<open>Handed over tool calls\<close>

definition merge_report :: "store_lib \<Rightarrow> int \<Rightarrow> string \<Rightarrow> json \<Rightarrow> store_inner \<Rightarrow> store_inner" where
  "merge_report lib now rid diagnostic s =
     (case update_request_diagnostic lib now rid diagnostic s of Inl _ \<Rightarrow> s | Inr s \<Rightarrow> s)"

definition unmatched_report :: "nat \<Rightarrow> json" where
  "unmatched_report n =
     jobj [(''client_tool_handoff_unmatched_outputs'', jnat n),
       (''client_tool_handoff_pending_match'', JStr ''turn_and_request'')]"

definition settle_client_tool_handoff_outputs ::
    "store_lib \<Rightarrow> int \<Rightarrow> string \<Rightarrow> json \<Rightarrow> store_inner \<Rightarrow> store_inner option" where
  "settle_client_tool_handoff_outputs lib now rid input s =
     (let outs = client_handoff_output_items lib input
      in if outs = [] then Some s
         else map_option (\<lambda>st.
             (let s = s\<lparr>si_guard := ss_guard st\<rparr>;
                  s = (case ss_report st of None \<Rightarrow> s | Some d \<Rightarrow> merge_report lib now rid d s)
              in if ss_unmatched st > 0 then merge_report lib now rid (unmatched_report (ss_unmatched st)) s else s))
           (settle_outputs lib now rid input (client_handoff_turn_key lib input) outs
              \<lparr>ss_guard = prune_client_handoff_guard (si_guard s), ss_report = None, ss_unmatched = 0\<rparr>))"

definition record_client_tool_handoff_calls ::
    "store_lib \<Rightarrow> int \<Rightarrow> string \<Rightarrow> json \<Rightarrow> handoff_call list \<Rightarrow> json option \<Rightarrow> store_inner \<Rightarrow> store_inner option" where
  "record_client_tool_handoff_calls lib now rid input calls usage s =
     (if calls = [] then Some s
      else map_option (\<lambda>(g, reports).
          bump_usage_revision (fold (merge_report lib now rid) reports (s\<lparr>si_guard := g\<rparr>)))
        (record_handoff_calls lib now rid input calls usage (si_guard s)))"

definition client_tool_handoff_guard_preflight :: "store_inner \<Rightarrow> store_inner" where
  "client_tool_handoff_guard_preflight s = s\<lparr>si_guard := prune_client_handoff_guard (si_guard s)\<rparr>"

section \<open>Events\<close>

definition event_affects_usage :: "string \<Rightarrow> bool" where
  "event_affects_usage event_type \<longleftrightarrow>
     event_type \<in> {''tool_call'', ''tool_result'', ''upstream_call_usage_breakdown'',
       ''upstream_usage_chunk_diagnostic'', ''client_tool_handoff_guard_diagnostic''}
     \<or> contains_str event_type ''usage''"

definition fallback_response :: "stored_request \<Rightarrow> json \<Rightarrow> json" where
  "fallback_response r usage =
     jobj [(''object'', JStr ''codeseex_usage_fallback''), (''_codeseex_runtime_usage_fallback'', JBool True),
       (''model'', JStr (unwrap_or [] (rq_model r))), (''usage'', usage)]"

definition is_fallback :: "stored_request \<Rightarrow> bool" where
  "is_fallback r =
     (Option.bind (jget (rq_response r) ''_codeseex_runtime_usage_fallback'') as_bool = Some True)"

definition apply_upstream_usage_event_to_request :: "int \<Rightarrow> event_record \<Rightarrow> store_inner \<Rightarrow> bool \<times> store_inner" where
  "apply_upstream_usage_event_to_request now event s =
     (if ev_type event \<noteq> ''upstream_call_usage_breakdown'' then (False, s)
      else (case ev_detail event of None \<Rightarrow> (False, s)
      | Some detail \<Rightarrow>
        (case get_str detail ''id'' of None \<Rightarrow> (False, s)
         | Some rid \<Rightarrow>
           (let usage = unwrap_or JNull (jget detail ''usage'')
            in if \<not> usage_has_tokens usage then (False, s)
               else (case map_of (si_requests s) rid of None \<Rightarrow> (False, s)
               | Some r \<Rightarrow>
                   if usage_value (rq_response r) \<noteq> None \<and> \<not> is_fallback r then (False, s)
                   else
                     (let next_usage = normalized_usage_value usage;
                          merged = (if is_fallback r
                            then merge_usage_values (unwrap_or JNull (usage_value (rq_response r))) next_usage
                            else next_usage)
                      in (True, s\<lparr>si_requests := hm_insert rid
                            (r\<lparr>rq_response := fallback_response r merged, rq_updated_at := now\<rparr>) (si_requests s)\<rparr>)))))))"

definition push_runtime_event :: "int \<Rightarrow> event_record \<Rightarrow> store_inner \<Rightarrow> store_inner" where
  "push_runtime_event now event s =
     (let (changed, s) = apply_upstream_usage_event_to_request now event s;
          s = bump_event_revision s;
          s = (if event_affects_usage (ev_type event) \<or> changed then bump_usage_revision s else s);
          events = si_events s @ [event]
      in s\<lparr>si_events := drop (length events - MAX_RUNTIME_EVENTS) events\<rparr>)"

section \<open>Dropping the oldest requests\<close>

definition in_progress :: "(string \<times> stored_request) list \<Rightarrow> string \<Rightarrow> bool" where
  "in_progress m k \<longleftrightarrow> map_option rq_status (map_of m k) = Some InProgress"

definition index_ok :: "(string \<times> stored_request) list \<Rightarrow> string list \<Rightarrow> bool" where
  "index_ok m order \<longleftrightarrow> hm_ok m \<and> distinct order \<and> set order = fst ` set m"

lemma index_ok_drop:
  assumes "index_ok m (k # rest)"
  shows "index_ok (kv_remove k m) rest"
proof -
  have "set rest = fst ` set m - {k}" using assms by (auto simp: index_ok_def)
  then show ?thesis using assms by (auto simp: index_ok_def set_kv_remove)
qed

lemma in_progress_remove: "in_progress (kv_remove k m) k' \<longleftrightarrow> k' \<noteq> k \<and> in_progress m k'"
  by (simp add: in_progress_def map_simps)

text \<open>
  The loop ends when the store fits, when the order is empty, or when all of the order was put back; what
  holds of these ends and passes back through a turn of the loop holds of its result.
\<close>

lemma prune_loop_rule [case_names fits all rotate drop]:
  assumes fits: "\<And>n m order. length m \<le> MAX_RUNTIME_REQUESTS \<or> order = [] \<Longrightarrow> P n m order (m, order)"
    and all: "\<And>n m k rest. in_progress m k \<Longrightarrow> length rest \<le> n \<Longrightarrow> P n m (k # rest) (m, rest @ [k])"
    and rotate: "\<And>n m k rest r. in_progress m k \<Longrightarrow> n < length rest \<Longrightarrow> P (Suc n) m (rest @ [k]) r
      \<Longrightarrow> P n m (k # rest) r"
    and drop: "\<And>n m k rest r. \<not> in_progress m k \<Longrightarrow> P 0 (kv_remove k m) rest r \<Longrightarrow> P n m (k # rest) r"
  shows "P n m order (prune_loop n m order)"
proof (induction n m order rule: prune_loop.induct)
  case (1 n m order)
  show ?case
  proof (cases "length m \<le> MAX_RUNTIME_REQUESTS \<or> order = []")
    case True
    then have "prune_loop n m order = (m, order)" by (auto simp: prune_loop.simps)
    with fits [OF True] show ?thesis by simp
  next
    case False
    then obtain k rest where o: "order = k # rest" and big: "MAX_RUNTIME_REQUESTS < length m" by (cases order) auto
    show ?thesis
    proof (cases "in_progress m k")
      case True
      note k = True [unfolded in_progress_def]
      show ?thesis
      proof (cases "length rest \<le> n")
        case True
        with all [OF \<open>in_progress m k\<close> True] k big o show ?thesis by (simp add: prune_loop.simps [of n m])
      next
        case False
        with "1.IH"(1) [OF big o k refl refl] rotate [OF \<open>in_progress m k\<close>] k big o show ?thesis
          by (simp add: prune_loop.simps [of n m])
      qed
    next
      case False
      with "1.IH"(2) [OF big o] drop [OF False] big o show ?thesis
        by (auto simp: prune_loop.simps [of n m] in_progress_def)
    qed
  qed
qed

lemma prune_loop_index:
  assumes "index_ok m order"
  shows "case prune_loop n m order of (m', order') \<Rightarrow> index_ok m' order'"
  using assms
proof (induction rule: prune_loop_rule)
  case (rotate n m k rest r)
  then show ?case by (auto simp: index_ok_def)
next
  case (drop n m k rest r)
  then show ?case using index_ok_drop by blast
qed (auto simp: index_ok_def)

text \<open>Requests in progress stay, and what stays is unchanged.\<close>

lemma prune_loop_kept:
  "case prune_loop n m order of (m', order') \<Rightarrow>
     (\<forall>k. map_of m' k = map_of m k \<or> map_of m' k = None \<and> \<not> in_progress m k)"
proof (induction rule: prune_loop_rule)
  case (drop n m k rest r)
  then show ?case by (cases r) (auto simp: map_simps in_progress_def split: if_splits)
qed (auto split: prod.splits)

text \<open>When the loop gives up, every request is in progress.\<close>

lemma prune_loop_fits:
  assumes "index_ok m order" and "n \<le> length order" and "\<forall>k \<in> set (drop (length order - n) order). in_progress m k"
  shows "case prune_loop n m order of (m', order') \<Rightarrow>
    length m' \<le> MAX_RUNTIME_REQUESTS \<or> (\<forall>k \<in> set order'. in_progress m' k)"
  using assms
proof (induction rule: prune_loop_rule)
  case (all n m k rest)
  then have "n = length rest \<or> n = Suc (length rest)" by auto
  with all have "\<forall>k \<in> set (k # rest). in_progress m k" by auto
  then show ?case by simp
next
  case (rotate n m k rest r)
  have "drop (length rest - n) (rest @ [k]) = drop (length rest - n) rest @ [k]" by simp
  moreover have "\<forall>x \<in> set (drop (length rest - n) rest). in_progress m x"
    using rotate.prems(3) rotate.hyps(2) by (simp add: Suc_diff_le)
  ultimately show ?case using rotate by (auto simp: index_ok_def)
next
  case (drop n m k rest r)
  then show ?case using index_ok_drop by auto
qed auto

text \<open>Of the requests that are not in progress the oldest go first.\<close>

lemma prune_loop_oldest:
  assumes "distinct order"
  shows "case prune_loop n m order of (m', order') \<Rightarrow>
    set order' \<subseteq> set order
    \<and> (\<exists>i. filter (\<lambda>k. \<not> in_progress m k) order' = drop i (filter (\<lambda>k. \<not> in_progress m k) order))"
  using assms
proof (induction rule: prune_loop_rule)
  case (fits n m order)
  show ?case by (auto intro: exI [of _ 0])
next
  case (all n m k rest)
  then show ?case by (auto intro: exI [of _ 0])
next
  case (rotate n m k rest r)
  then show ?case by (cases r) simp
next
  case (drop n m k rest r)
  have "filter (\<lambda>x. \<not> in_progress (kv_remove k m) x) xs = filter (\<lambda>x. \<not> in_progress m x) xs" if "k \<notin> set xs" for xs
    using that by (intro filter_cong) (auto simp: in_progress_remove)
  moreover obtain m' order' where r: "r = (m', order')" by fastforce
  moreover from drop r obtain i where "set order' \<subseteq> set rest" "k \<notin> set rest" "k \<notin> set order'"
    "filter (\<lambda>x. \<not> in_progress (kv_remove k m) x) order' = drop i (filter (\<lambda>x. \<not> in_progress (kv_remove k m) x) rest)"
    by auto
  ultimately have "filter (\<lambda>x. \<not> in_progress m x) order' = drop (Suc i) (filter (\<lambda>x. \<not> in_progress m x) (k # rest))"
    using drop.hyps by auto
  then have "\<exists>j. filter (\<lambda>x. \<not> in_progress m x) order' = drop j (filter (\<lambda>x. \<not> in_progress m x) (k # rest))" by (rule exI)
  with r \<open>set order' \<subseteq> set rest\<close> show ?case by auto
qed

section \<open>The invariant of the store\<close>

definition store_ok :: "store_inner \<Rightarrow> bool" where
  "store_ok s \<longleftrightarrow> index_ok (si_requests s) (si_order s) \<and> (\<forall>(k, r) \<in> set (si_requests s). rq_id r = k)
     \<and> guard_bounded (si_guard s) \<and> length (si_events s) \<le> MAX_RUNTIME_EVENTS"

lemma store_ok_id: "store_ok s \<Longrightarrow> map_of (si_requests s) k = Some r \<Longrightarrow> rq_id r = k"
  by (auto simp: store_ok_def dest: map_of_SomeD)

lemma store_ok_empty: "store_ok empty_store"
  by (simp add: store_ok_def empty_store_def index_ok_def hm_ok_def guard_bounded_default)

lemma store_ok_bump [simp]:
  "store_ok (bump_usage_revision s) = store_ok s" "store_ok (bump_event_revision s) = store_ok s"
  "si_requests (bump_usage_revision s) = si_requests s" "si_order (bump_usage_revision s) = si_order s"
  "si_guard (bump_usage_revision s) = si_guard s" "si_events (bump_usage_revision s) = si_events s"
  "si_requests (bump_event_revision s) = si_requests s" "si_order (bump_event_revision s) = si_order s"
  "si_guard (bump_event_revision s) = si_guard s" "si_events (bump_event_revision s) = si_events s"
  by (simp_all add: store_ok_def bump_usage_revision_def bump_event_revision_def)

lemma store_ok_update:
  assumes "store_ok s" and "map_of (si_requests s) k = Some r" and "rq_id r' = k"
  shows "store_ok (s\<lparr>si_requests := hm_insert k r' (si_requests s)\<rparr>)"
proof -
  have "hm_ok (si_requests s)" using assms(1) by (simp add: store_ok_def index_ok_def)
  moreover have "k \<in> fst ` set (si_requests s)" using assms(2) by (force dest: map_of_SomeD)
  ultimately show ?thesis using assms(1,3)
    by (auto simp: store_ok_def index_ok_def hm_insert_keys insert_absorb hashmap.set_ins)
qed

lemma store_ok_map:
  assumes "store_ok s" and "\<And>r. rq_id (f r) = rq_id r"
  shows "store_ok (s\<lparr>si_requests := map (\<lambda>(k, r). (k, f r)) (si_requests s)\<rparr>)"
proof -
  have "map fst (map (\<lambda>(k, r). (k, f r)) (si_requests s)) = map fst (si_requests s)" by auto
  then have "index_ok (map (\<lambda>(k, r). (k, f r)) (si_requests s)) (si_order s)"
    using assms(1) unfolding store_ok_def index_ok_def hm_ok_def by (metis set_map)
  then show ?thesis using assms by (auto simp: store_ok_def)
qed

lemma map_of_map_requests: "map_of (map (\<lambda>(k, r). (k, f r)) m) k = map_option f (map_of m k)"
  by (induction m) auto

lemma with_request_ok:
  assumes "store_ok s" and "with_request rid f s = Inr s'" and "\<And>r. rq_id (f r) = rq_id r"
  shows "store_ok s'" and "\<exists>r. map_of (si_requests s) rid = Some r \<and> si_requests s' = hm_insert rid (f r) (si_requests s)"
  using assms store_ok_update [OF assms(1)] store_ok_id [OF assms(1)]
  by (auto simp: with_request_def split: option.splits)

lemma rq_id_mark_stale [simp]: "rq_id (mark_stale now r) = rq_id r"
  by (simp add: mark_stale_def)

text \<open>Pruning, with the requests before it.\<close>

lemma prune_runtime:
  assumes "store_ok s" and s'_def: "s' = prune_runtime_requests now s"
  shows "store_ok s'"
    and "\<And>k. map_of (si_requests s') k = map_option (mark_stale now) (map_of (si_requests s) k)
      \<or> map_of (si_requests s') k = None
        \<and> map_option (\<lambda>r. rq_status (mark_stale now r)) (map_of (si_requests s) k) \<noteq> Some InProgress"
    and "length (si_requests s') \<le> MAX_RUNTIME_REQUESTS \<or> (\<forall>(k, r) \<in> set (si_requests s'). rq_status r = InProgress)"
proof -
  let ?m = "map (\<lambda>(k, r). (k, mark_stale now r)) (si_requests s)"
  obtain m' o' where loop: "prune_loop 0 ?m (si_order s) = (m', o')" by fastforce
  have s': "si_requests s' = m'" "si_order s' = o'" "si_guard s' = si_guard s" "si_events s' = si_events s"
    using loop by (simp_all add: s'_def prune_runtime_requests_def mark_stale_in_progress_requests_def Let_def
        bump_usage_revision_def split: prod.split)
  have ok: "store_ok (s\<lparr>si_requests := ?m\<rparr>)" by (rule store_ok_map [OF assms(1)]) simp
  then have idx: "index_ok ?m (si_order s)" by (simp add: store_ok_def)
  have kept: "map_of m' k = map_of ?m k \<or> map_of m' k = None \<and> \<not> in_progress ?m k" for k
    using prune_loop_kept [where n = 0 and m = ?m and order = "si_order s"] loop by simp
  then show "map_of (si_requests s') k = map_option (mark_stale now) (map_of (si_requests s) k)
      \<or> map_of (si_requests s') k = None
        \<and> map_option (\<lambda>r. rq_status (mark_stale now r)) (map_of (si_requests s) k) \<noteq> Some InProgress" for k
    unfolding s' in_progress_def map_of_map_requests option.map_comp comp_def by simp
  have idx': "index_ok m' o'" using prune_loop_index [OF idx, of 0] loop by simp
  have look: "map_of m' k = Some r" if "(k, r) \<in> set m'" for k r
    using that idx' by (simp add: index_ok_def hm_ok_def)
  have "rq_id r = k" if "(k, r) \<in> set m'" for k r
    using look [OF that] kept [of k] store_ok_id [OF ok, of k r] by simp
  then show "store_ok s'" using assms(1) idx' by (auto simp: store_ok_def s')
  have "length m' \<le> MAX_RUNTIME_REQUESTS \<or> (\<forall>k \<in> set o'. in_progress m' k)"
    using prune_loop_fits [OF idx, of 0] loop by simp
  then show "length (si_requests s') \<le> MAX_RUNTIME_REQUESTS \<or> (\<forall>(k, r) \<in> set (si_requests s'). rq_status r = InProgress)"
    using idx' look unfolding s' in_progress_def index_ok_def by force
qed

lemma fresh_not_stale: "rq_created_at r = now \<Longrightarrow> mark_stale now r = r"
  by (simp add: mark_stale_def is_stale_def IN_PROGRESS_TTL_SECONDS_def)

lemma store_ok_insert:
  assumes "store_ok s" and "rid \<notin> fst ` set (si_requests s)" and "rq_id r = rid"
  shows "store_ok (s\<lparr>si_requests := hm_insert rid r (si_requests s), si_order := push_request_order (si_order s) rid\<rparr>)"
proof -
  have "hm_ok (si_requests s)" and "rid \<notin> set (si_order s)" using assms(1,2) by (auto simp: store_ok_def index_ok_def)
  then have "push_request_order (si_order s) rid = si_order s @ [rid]"
    by (simp add: push_request_order_def remove1_idem)
  with \<open>hm_ok (si_requests s)\<close> assms show ?thesis
    by (auto simp: store_ok_def index_ok_def hm_insert_keys hashmap.set_ins)
qed

lemma checkpoint_stored:
  assumes "store_ok s" and "checkpoint_request lib now rid previous model input s = Inr s'"
  shows "store_ok s'"
    and "\<exists>r. map_of (si_requests s') rid = Some r \<and> rq_status r = InProgress \<and> rq_previous r = previous
      \<and> rq_input r = request_input_for_runtime lib previous input"
    and "\<And>k r'. k \<noteq> rid \<Longrightarrow> map_of (si_requests s') k = Some r'
      \<Longrightarrow> \<exists>r. map_of (si_requests s) k = Some r \<and> r' = mark_stale now r"
    and "\<And>k r. map_of (si_requests s) k = Some r \<Longrightarrow> rq_status r = InProgress \<Longrightarrow> \<not> is_stale now r
      \<Longrightarrow> map_of (si_requests s') k = Some r"
    and "length (si_requests s') \<le> MAX_RUNTIME_REQUESTS \<or> (\<forall>(k, r) \<in> set (si_requests s'). rq_status r = InProgress)"
proof -
  have fresh: "rid \<notin> fst ` set (si_requests s)" using assms(2) by (auto simp: checkpoint_request_def split: if_splits)
  define r where "r = \<lparr>rq_id = rid, rq_previous = previous, rq_status = InProgress, rq_model = model,
    rq_input = request_input_for_runtime lib previous input, rq_response = JNull, rq_turn_messages = [],
    rq_tool_facts = [], rq_diagnostic = None, rq_created_at = now, rq_updated_at = now\<rparr>"
  define t where "t = s\<lparr>si_requests := hm_insert rid r (si_requests s), si_order := push_request_order (si_order s) rid\<rparr>"
  have s': "s' = bump_usage_revision (prune_runtime_requests now t)"
    using assms(2) fresh by (simp add: checkpoint_request_def r_def t_def Let_def)
  have "store_ok t" unfolding t_def by (rule store_ok_insert [OF assms(1) fresh]) (simp add: r_def)
  note p = prune_runtime [OF this refl, of now]
  have t: "map_of (si_requests t) k = (if k = rid then Some r else map_of (si_requests s) k)" for k
    by (simp add: t_def map_simps)
  show "store_ok s'" and "length (si_requests s') \<le> MAX_RUNTIME_REQUESTS
      \<or> (\<forall>(k, r) \<in> set (si_requests s'). rq_status r = InProgress)" using p(1,3) by (simp_all add: s')
  have "mark_stale now r = r" by (rule fresh_not_stale) (simp add: r_def)
  then show "\<exists>r. map_of (si_requests s') rid = Some r \<and> rq_status r = InProgress \<and> rq_previous r = previous
      \<and> rq_input r = request_input_for_runtime lib previous input"
    using p(2) [of rid] by (simp add: s' t r_def)
  show "map_of (si_requests s') k = Some r0"
    if "map_of (si_requests s) k = Some r0" "rq_status r0 = InProgress" "\<not> is_stale now r0" for k r0
  proof -
    have "k \<noteq> rid" using that(1) fresh by (force dest: map_of_SomeD)
    with p(2) [of k] that show ?thesis by (simp add: s' t mark_stale_def)
  qed
  show "\<exists>r. map_of (si_requests s) k = Some r \<and> r' = mark_stale now r"
    if "k \<noteq> rid" "map_of (si_requests s') k = Some r'" for k r'
    using p(2) [of k] that by (cases "map_of (si_requests s) k") (auto simp: s' t)
qed

section \<open>Every sequence of operations\<close>

inductive store_step :: "store_lib \<Rightarrow> store_inner \<Rightarrow> store_inner \<Rightarrow> bool" for lib where
  checkpoint: "checkpoint_request lib now rid previous model input s = Inr s' \<Longrightarrow> store_step lib s s'"
| tool_fact: "append_request_tool_fact lib now rid fct s = Inr s' \<Longrightarrow> store_step lib s s'"
| replace: "replace_request_turn_messages lib now rid messages s = Inr s' \<Longrightarrow> store_step lib s s'"
| append: "append_request_turn_messages lib now rid messages s = Inr s' \<Longrightarrow> store_step lib s s'"
| finish: "finish_request lib now rid status response diagnostic s = Inr s' \<Longrightarrow> store_step lib s s'"
| interrupted: "interrupt_request_if_in_progress now rid reason s = (b, s') \<Longrightarrow> store_step lib s s'"
| diagnostic: "update_request_diagnostic lib now rid d s = Inr s' \<Longrightarrow> store_step lib s s'"
| recover: "recover_interrupted_requests now reason s = (ids, s') \<Longrightarrow> store_step lib s s'"
| settle: "settle_client_tool_handoff_outputs lib now rid input s = Some s' \<Longrightarrow> store_step lib s s'"
| record_handoff: "record_client_tool_handoff_calls lib now rid input calls usage s = Some s' \<Longrightarrow> store_step lib s s'"
| preflight: "store_step lib s (client_tool_handoff_guard_preflight s)"
| event: "store_step lib s (push_runtime_event now e s)"

inductive store_reachable :: "store_lib \<Rightarrow> store_inner \<Rightarrow> bool" for lib where
  start: "store_reachable lib empty_store"
| step: "store_reachable lib s \<Longrightarrow> store_step lib s s' \<Longrightarrow> store_reachable lib s'"

text \<open>
  An operation on the requests that are there keeps the invariant, and no interrupted request becomes
  anything else.
\<close>

definition safe_step :: "store_inner \<Rightarrow> store_inner \<Rightarrow> bool" where
  "safe_step s s' \<longleftrightarrow> store_ok s'
     \<and> (\<forall>k. is_some_and (\<lambda>r. rq_status r = Interrupted) (map_of (si_requests s) k)
           \<longrightarrow> is_some_and (\<lambda>r. rq_status r = Interrupted) (map_of (si_requests s') k))"

lemma safe_step_bump [simp]: "safe_step s (bump_usage_revision s') = safe_step s s'"
  by (simp add: safe_step_def)

lemma safe_step_refl: "store_ok s \<Longrightarrow> safe_step s s"
  by (simp add: safe_step_def)

lemma safe_step_trans: "safe_step s t \<Longrightarrow> safe_step t u \<Longrightarrow> safe_step s u"
  by (simp add: safe_step_def)

lemma safe_step_update:
  assumes "store_ok s" and "map_of (si_requests s) k = Some r" and "rq_id r' = rq_id r"
    and "rq_status r = Interrupted \<Longrightarrow> rq_status r' = Interrupted"
  shows "safe_step s (s\<lparr>si_requests := hm_insert k r' (si_requests s)\<rparr>)"
  using assms store_ok_update [OF assms(1,2)] store_ok_id [OF assms(1,2)]
  by (auto simp: safe_step_def map_simps)

lemma safe_step_with_request:
  assumes "store_ok s" and "with_request rid f s = Inr s'" and "\<And>r. rq_id (f r) = rq_id r"
    and "\<And>r. map_of (si_requests s) rid = Some r \<Longrightarrow> rq_status r = Interrupted \<Longrightarrow> rq_status (f r) = Interrupted"
  shows "safe_step s s'"
  using assms by (auto simp: with_request_def intro!: safe_step_update split: option.splits)

lemma safe_step_map:
  assumes "store_ok s" and "\<And>r. rq_id (f r) = rq_id r" and "\<And>r. rq_status r = Interrupted \<Longrightarrow> rq_status (f r) = Interrupted"
  shows "safe_step s (s\<lparr>si_requests := map (\<lambda>(k, r). (k, f r)) (si_requests s)\<rparr>)"
  using store_ok_map [OF assms(1,2)] assms(3)
  by (auto simp: safe_step_def map_of_map_requests is_some_and_iff)

lemma safe_step_guard: "store_ok s \<Longrightarrow> guard_bounded g \<Longrightarrow> safe_step s (s\<lparr>si_guard := g\<rparr>)"
  by (simp add: safe_step_def store_ok_def is_some_and_iff)

lemma safe_update_diagnostic:
  assumes "store_ok s" and "update_request_diagnostic lib now rid d s = Inr s'"
  shows "safe_step s s'"
proof -
  let ?f = "\<lambda>r. r\<lparr>rq_diagnostic := Some (merge_request_diagnostic lib (rq_diagnostic r) d), rq_updated_at := now\<rparr>"
  obtain t where "with_request rid ?f s = Inr t" "s' = bump_usage_revision t"
    using assms(2) by (cases "with_request rid ?f s") (auto simp: update_request_diagnostic_def)
  with safe_step_with_request [OF assms(1)] show ?thesis by simp
qed

lemma safe_merge_report: "store_ok s \<Longrightarrow> safe_step s (merge_report lib now rid d s)"
  using safe_update_diagnostic safe_step_refl by (auto simp: merge_report_def split: sum.split)

lemma safe_merge_reports: "store_ok s \<Longrightarrow> safe_step s (fold (merge_report lib now rid) ds s)"
proof (induction ds arbitrary: s)
  case (Cons d ds)
  have one: "safe_step s (merge_report lib now rid d s)" using Cons.prems by (rule safe_merge_report)
  then have "store_ok (merge_report lib now rid d s)" by (simp add: safe_step_def)
  from safe_step_trans [OF one Cons.IH [OF this]] show ?case by simp
qed (simp add: safe_step_refl)

lemma safe_settle:
  assumes "store_ok s"
  shows "\<exists>s'. settle_client_tool_handoff_outputs lib now rid input s = Some s' \<and> safe_step s s'"
proof (cases "client_handoff_output_items lib input = []")
  case True
  then show ?thesis using safe_step_refl [OF assms] by (simp add: settle_client_tool_handoff_outputs_def)
next
  case False
  let ?init = "\<lparr>ss_guard = prune_client_handoff_guard (si_guard s), ss_report = None, ss_unmatched = 0\<rparr>"
  have "guard_bounded (ss_guard ?init)" using assms guard_bounded_prune by (simp add: store_ok_def)
  from settle_outputs_returns [OF this] obtain st where
    st: "settle_outputs lib now rid input (client_handoff_turn_key lib input) (client_handoff_output_items lib input) ?init = Some st"
    and g: "guard_bounded (ss_guard st)" by blast
  let ?ds = "(case ss_report st of None \<Rightarrow> [] | Some d \<Rightarrow> [d])
    @ (if ss_unmatched st > 0 then [unmatched_report (ss_unmatched st)] else [])"
  have "settle_client_tool_handoff_outputs lib now rid input s
      = Some (fold (merge_report lib now rid) ?ds (s\<lparr>si_guard := ss_guard st\<rparr>))"
    using False st by (simp add: settle_client_tool_handoff_outputs_def Let_def split: option.split)
  moreover have guard: "safe_step s (s\<lparr>si_guard := ss_guard st\<rparr>)" by (rule safe_step_guard [OF assms g])
  moreover have "safe_step (s\<lparr>si_guard := ss_guard st\<rparr>) (fold (merge_report lib now rid) ?ds (s\<lparr>si_guard := ss_guard st\<rparr>))"
    using guard by (intro safe_merge_reports) (simp add: safe_step_def)
  ultimately show ?thesis using safe_step_trans by blast
qed

lemma safe_record:
  assumes "store_ok s"
  shows "\<exists>s'. record_client_tool_handoff_calls lib now rid input calls usage s = Some s' \<and> safe_step s s'"
proof (cases "calls = []")
  case True
  then show ?thesis using safe_step_refl [OF assms] by (simp add: record_client_tool_handoff_calls_def)
next
  case False
  have "guard_bounded (si_guard s)" using assms by (simp add: store_ok_def)
  from record_handoff_calls_returns [OF this] obtain g ds where
    run: "record_handoff_calls lib now rid input calls usage (si_guard s) = Some (g, ds)" and g: "guard_bounded g" by blast
  have guard: "safe_step s (s\<lparr>si_guard := g\<rparr>)" by (rule safe_step_guard [OF assms g])
  then have "safe_step (s\<lparr>si_guard := g\<rparr>) (fold (merge_report lib now rid) ds (s\<lparr>si_guard := g\<rparr>))"
    by (intro safe_merge_reports) (simp add: safe_step_def)
  with guard have "safe_step s (fold (merge_report lib now rid) ds (s\<lparr>si_guard := g\<rparr>))" by (rule safe_step_trans)
  then show ?thesis using False run by (simp add: record_client_tool_handoff_calls_def)
qed

lemma safe_usage_event:
  assumes "store_ok s" and "apply_upstream_usage_event_to_request now e s = (b, s')"
  shows "safe_step s s'"
  using assms safe_step_refl [OF assms(1)]
  by (auto simp: apply_upstream_usage_event_to_request_def Let_def intro!: safe_step_update
      split: if_splits option.splits)

lemma safe_event:
  assumes "store_ok s"
  shows "safe_step s (push_runtime_event now e s)"
proof -
  obtain b t where t: "apply_upstream_usage_event_to_request now e s = (b, t)" by fastforce
  note safe_usage_event [OF assms t]
  then show ?thesis using t by (auto simp: push_runtime_event_def Let_def safe_step_def store_ok_def MAX_RUNTIME_EVENTS_def)
qed

lemma safe_finish:
  assumes "store_ok s" and "finish_request lib now rid status response diagnostic s = Inr s'"
  shows "safe_step s s'"
proof (cases "map_of (si_requests s) rid")
  case (Some r)
  then show ?thesis
    using assms safe_step_refl [OF assms(1)]
    by (auto simp: finish_request_def with_request_def intro!: safe_step_update split: if_splits)
qed (use assms in \<open>simp add: finish_request_def\<close>)

lemma safe_recover:
  assumes "store_ok s" and "recover_interrupted_requests now reason s = (ids, s')"
  shows "safe_step s s'"
proof -
  let ?f = "\<lambda>r. if rq_status r = InProgress then interrupt now reason r else r"
  have "safe_step s (s\<lparr>si_requests := map (\<lambda>(k, r). (k, ?f r)) (si_requests s)\<rparr>)"
    by (rule safe_step_map [OF assms(1)]) (simp_all add: interrupt_def)
  then show ?thesis using assms(2) by (auto simp: recover_interrupted_requests_def Let_def split: if_splits)
qed

lemma safe_interrupt:
  assumes "store_ok s" and "interrupt_request_if_in_progress now rid reason s = (b, s')"
  shows "safe_step s s'"
  using assms safe_step_refl [OF assms(1)]
  by (auto simp: interrupt_request_if_in_progress_def interrupt_def intro!: safe_step_update
      split: if_splits option.splits)

lemma safe_messages:
  assumes "store_ok s"
  shows "append_request_tool_fact lib now rid fct s = Inr s' \<Longrightarrow> safe_step s s'"
    and "replace_request_turn_messages lib now rid messages s = Inr s' \<Longrightarrow> safe_step s s'"
    and "append_request_turn_messages lib now rid messages s = Inr s' \<Longrightarrow> safe_step s s'"
  using safe_step_with_request [OF assms] safe_step_refl [OF assms]
  by (auto simp: append_request_tool_fact_def replace_request_turn_messages_def append_request_turn_messages_def
      split: if_splits)

lemma store_step_safe:
  assumes "store_step lib s s'" and "store_ok s"
  shows "safe_step s s' \<or> (\<exists>now rid previous model input. checkpoint_request lib now rid previous model input s = Inr s')"
  using assms
proof cases
  case (settle now rid input)
  with safe_settle [OF assms(2), of lib now rid input] show ?thesis by auto
next
  case (record_handoff now rid input calls usage)
  with safe_record [OF assms(2), of lib now rid input calls usage] show ?thesis by auto
next
  case preflight
  have "guard_bounded (prune_client_handoff_guard (si_guard s))"
    using assms(2) guard_bounded_prune by (simp add: store_ok_def)
  then show ?thesis
    using safe_step_guard [OF assms(2)] preflight by (simp add: client_tool_handoff_guard_preflight_def)
next
  case checkpoint
  then show ?thesis by blast
next
  case tool_fact
  with safe_messages(1) [OF assms(2)] show ?thesis by blast
next
  case replace
  with safe_messages(2) [OF assms(2)] show ?thesis by blast
next
  case append
  with safe_messages(3) [OF assms(2)] show ?thesis by blast
next
  case finish
  with safe_finish [OF assms(2)] show ?thesis by blast
next
  case interrupted
  with safe_interrupt [OF assms(2)] show ?thesis by blast
next
  case diagnostic
  with safe_update_diagnostic [OF assms(2)] show ?thesis by blast
next
  case recover
  with safe_recover [OF assms(2)] show ?thesis by blast
next
  case event
  with safe_event [OF assms(2)] show ?thesis by blast
qed

lemma store_step_ok: "store_step lib s s' \<Longrightarrow> store_ok s \<Longrightarrow> store_ok s'"
  using store_step_safe [of lib s s'] checkpoint_stored [of s] unfolding safe_step_def by fastforce

lemma reachable_ok: "store_reachable lib s \<Longrightarrow> store_ok s"
  by (induction rule: store_reachable.induct) (auto intro: store_ok_empty store_step_ok)

lemma checkpoint_interrupted:
  assumes "store_ok s" and "checkpoint_request lib now rid previous model input s = Inr s'"
    and "map_of (si_requests s) k = Some r" and "rq_status r = Interrupted"
    and "map_of (si_requests s') k = Some r'"
  shows "r' = r"
proof -
  have "k \<noteq> rid" using assms(2,3) by (force simp: checkpoint_request_def split: if_splits dest: map_of_SomeD)
  with checkpoint_stored(3) [OF assms(1,2) _ assms(5)] assms(3,4) show ?thesis
    by (simp add: mark_stale_def is_stale_def)
qed

text \<open>C7: in every state that the operations of the store can reach, its tables fit together: the order
  lists every request exactly once, a request is filed under its own id, at most 2,048 events are
  kept, the handoff guard tracks at most 128 turns and files every pending call under a turn that it
  tracks. In such a state settling tool outputs and recording handed over calls always succeed: the
  turn that the code expects to be there is there.\<close>

theorem store_invariant:
  assumes "store_reachable lib s"
  shows "store_ok s
    \<and> (\<exists>s'. settle_client_tool_handoff_outputs lib now rid input s = Some s')
    \<and> (\<exists>s'. record_client_tool_handoff_calls lib now rid input calls usage s = Some s')"
  using reachable_ok [OF assms] safe_settle safe_record by blast

text \<open>Taking in a request. A request id that is known is refused. Otherwise the request is stored, in
  progress, and no request that is in progress and younger than six hours is lost or changed; what
  else is kept is unchanged, but for requests that were in progress for too long, which are
  interrupted. Afterwards the store holds at most 2,048 requests, unless every one of them is in
  progress.\<close>

lemma checkpoint_keeps_active:
  assumes "store_reachable lib s"
  shows "case checkpoint_request lib now rid previous model input s of
      Inl e \<Rightarrow> e = DuplicateRequest rid \<and> rid \<in> fst ` set (si_requests s)
    | Inr s' \<Rightarrow>
        (\<exists>r. map_of (si_requests s') rid = Some r \<and> rq_status r = InProgress \<and> rq_previous r = previous
           \<and> rq_input r = request_input_for_runtime lib previous input)
        \<and> (\<forall>k r. map_of (si_requests s) k = Some r \<and> rq_status r = InProgress \<and> \<not> is_stale now r
             \<longrightarrow> map_of (si_requests s') k = Some r)
        \<and> (\<forall>k r'. k \<noteq> rid \<and> map_of (si_requests s') k = Some r'
             \<longrightarrow> (\<exists>r. map_of (si_requests s) k = Some r \<and> r' = mark_stale now r))
        \<and> (length (si_requests s') \<le> MAX_RUNTIME_REQUESTS
             \<or> (\<forall>(k, r) \<in> set (si_requests s'). rq_status r = InProgress))"
proof (cases "checkpoint_request lib now rid previous model input s")
  case (Inl e)
  then show ?thesis by (auto simp: checkpoint_request_def Let_def split: if_splits)
next
  case (Inr s')
  note c = checkpoint_stored [OF reachable_ok [OF assms] Inr]
  show ?thesis unfolding Inr sum.case using c by blast
qed

text \<open>An interruption is final. Whatever operation follows, an interrupted request is afterwards still
  interrupted or gone; a late completion of it is accepted and ignored.\<close>

lemma interrupted_is_final:
  assumes "store_reachable lib s" and "map_of (si_requests s) k = Some r" and "rq_status r = Interrupted"
  shows "(\<forall>s'. store_step lib s s' \<longrightarrow>
       map_of (si_requests s') k = None \<or> (\<exists>r'. map_of (si_requests s') k = Some r' \<and> rq_status r' = Interrupted))
    \<and> finish_request lib now k status response diagnostic s = Inr s"
proof -
  note ok = reachable_ok [OF assms(1)]
  have "map_of (si_requests s') k = None \<or> (\<exists>r'. map_of (si_requests s') k = Some r' \<and> rq_status r' = Interrupted)"
    if step: "store_step lib s s'" for s'
    using store_step_safe [OF step ok]
  proof
    assume "safe_step s s'"
    with assms(2,3) show ?thesis by (auto simp: safe_step_def is_some_and_iff)
  next
    assume "\<exists>now rid previous model input. checkpoint_request lib now rid previous model input s = Inr s'"
    with checkpoint_interrupted [OF ok _ assms(2,3)] assms(3) show ?thesis
      by (cases "map_of (si_requests s') k") auto
  qed
  with assms(2,3) show ?thesis by (simp add: finish_request_def)
qed

section \<open>The chain of a conversation\<close>

text \<open>
  What a chain of earlier responses is, newest first: stored, completed requests, each the one that its
  successor names, without repetition, at most \<open>depth\<close> of them and back to the first request of the
  conversation unless there are more.
\<close>

definition conversation :: "(string \<times> stored_request) list \<Rightarrow> string \<Rightarrow> nat \<Rightarrow> stored_request list \<Rightarrow> bool" where
  "conversation m previous depth rs \<longleftrightarrow>
     (\<forall>r \<in> set rs. map_of m (rq_id r) = Some r \<and> rq_status r = Completed)
     \<and> rs \<noteq> [] \<and> rq_id (hd rs) = previous \<and> successively (\<lambda>a b. rq_previous a = Some (rq_id b)) rs
     \<and> distinct (map rq_id rs) \<and> length rs \<le> depth \<and> (length rs = depth \<or> rq_previous (last rs) = None)"

text \<open>The same, along the loop.\<close>

fun path :: "(string \<times> stored_request) list \<Rightarrow> nat \<Rightarrow> string option \<Rightarrow> string list \<Rightarrow> stored_request list \<Rightarrow> bool" where
  "path m n cursor visited [] \<longleftrightarrow> n = 0 \<or> cursor = None"
| "path m n cursor visited (r # rs) \<longleftrightarrow> 0 < n \<and> cursor = Some (rq_id r) \<and> rq_id r \<notin> set visited
     \<and> map_of m (rq_id r) = Some r \<and> rq_status r = Completed
     \<and> path m (n - 1) (rq_previous r) (rq_id r # visited) rs"

lemma chain_loop_path:
  assumes "\<And>k r. map_of m k = Some r \<Longrightarrow> rq_id r = k"
  shows "chain_loop m n cursor visited acc = Inr ys \<longleftrightarrow>
    (\<exists>rs. ys = acc @ map response_of rs \<and> path m n cursor visited rs)"
proof (induction n arbitrary: cursor visited acc)
  case 0
  have "path m 0 cursor visited rs \<longleftrightarrow> rs = []" for rs by (cases rs) auto
  then show ?case by auto
next
  case (Suc n)
  show ?case
  proof (cases cursor)
    case None
    have "path m (Suc n) None visited rs \<longleftrightarrow> rs = []" for rs by (cases rs) auto
    then show ?thesis using None by auto
  next
    case (Some rid)
    have split: "path m (Suc n) (Some rid) visited rs \<longleftrightarrow> (\<exists>r rs'. rs = r # rs' \<and> rq_id r = rid \<and> rid \<notin> set visited
        \<and> map_of m rid = Some r \<and> rq_status r = Completed \<and> path m n (rq_previous r) (rid # visited) rs')" for rs
      by (cases rs) auto
    have ex: "(\<exists>rs. A rs \<and> (\<exists>r rs'. rs = r # rs' \<and> Q r rs')) \<longleftrightarrow> (\<exists>r rs'. A (r # rs') \<and> Q r rs')"
      for A :: "stored_request list \<Rightarrow> bool" and Q by blast
    show ?thesis unfolding Some split ex
      by (cases "map_of m rid") (auto simp: Suc.IH dest: assms)
  qed
qed

lemma path_conversation:
  assumes "0 < n"
  shows "path m n (Some k) visited rs \<longleftrightarrow> conversation m k n rs \<and> set (map rq_id rs) \<inter> set visited = {}"
  using assms
proof (induction rs arbitrary: n k visited)
  case (Cons r rs)
  show ?case
  proof (cases rs)
    case Nil
    then show ?thesis using Cons.prems by (auto simp: conversation_def)
  next
    case (Cons r' rs')
    show ?thesis
    proof (cases "rq_previous r = Some (rq_id r') \<and> 1 < n")
      case True
      then have "path m (n - 1) (rq_previous r) (rq_id r # visited) rs
          \<longleftrightarrow> conversation m (rq_id r') (n - 1) rs \<and> set (map rq_id rs) \<inter> set (rq_id r # visited) = {}"
        using Cons.IH [of "n - 1" "rq_id r'" "rq_id r # visited"] by simp
      then show ?thesis using True Cons by (auto simp: conversation_def)
    next
      case False
      then show ?thesis using Cons Cons.prems by (auto simp: conversation_def)
    qed
  qed
qed (simp add: conversation_def)

text \<open>C8: the context of a request that continues an earlier one. The store answers with the responses of
  the conversation, oldest first, exactly when the named request and those before it are all stored
  and completed and do not form a cycle within the depth, which is clamped to between 1 and 10,000;
  in every other case it answers with an error, and never with a part of the context.\<close>

theorem context_chain_exact:
  assumes "store_reachable lib s"
  shows "response_context_chain previous max_depth s = Inr xs \<longleftrightarrow>
    (\<exists>rs. conversation (si_requests s) previous (max 1 (min max_depth 10000)) rs \<and> xs = rev (map response_of rs))"
proof -
  let ?m = "si_requests s" and ?d = "max 1 (min max_depth 10000)"
  have root: "map_of ?m previous \<noteq> None \<and> rq_status (the (map_of ?m previous)) = Completed"
    if "conversation ?m previous ?d rs" for rs
    using that by (cases rs) (auto simp: conversation_def)
  have loop: "chain_loop ?m ?d (Some previous) [] [] = Inr ys \<longleftrightarrow>
      (\<exists>rs. ys = map response_of rs \<and> conversation ?m previous ?d rs)" for ys
    using chain_loop_path [of ?m ?d "Some previous" "[]" "[]" ys] path_conversation [of ?d ?m previous "[]"]
      store_ok_id [OF reachable_ok [OF assms]] by simp
  have "response_context_chain previous max_depth s = Inr xs \<longleftrightarrow>
      map_of ?m previous \<noteq> None \<and> rq_status (the (map_of ?m previous)) = Completed
      \<and> chain_loop ?m ?d (Some previous) [] [] = Inr (rev xs)"
    by (cases "chain_loop ?m ?d (Some previous) [] []")
      (auto simp: response_context_chain_def split: option.split)
  also have "\<dots> \<longleftrightarrow> (\<exists>rs. conversation ?m previous ?d rs \<and> xs = rev (map response_of rs))"
    unfolding loop using root by (metis rev_rev_ident)
  finally show ?thesis .
qed

section \<open>Tool facts\<close>

text \<open>What is kept of the tool facts of a request. The first hundred facts are kept as they are. From then
  on the list holds 101 entries, a notice and the latest hundred facts; the notice counts one omitted
  fact at the 101st and two at every later one, since the notice itself is counted and dropped with
  the facts.\<close>

lemma tool_facts_kept:
  "fold (push_tool_fact lib) facts [] =
     (let kept = map (sanitize_log_string lib) facts; n = length facts
      in if n \<le> 100 then kept else omitted_notice (if n = 101 then 1 else 2) # drop (n - 100) kept)"
proof (induction facts rule: rev_induct)
  case (snoc f facts)
  let ?kept = "map (sanitize_log_string lib) facts" and ?n = "length facts"
  consider "?n < 100" | "?n = 100" | "?n = 101" | "?n > 101" by linarith
  then show ?case
    using snoc Suc_diff_le [of 100 ?n]
    by cases (simp_all add: push_tool_fact_def Let_def MAX_TOOL_FACTS_PER_REQUEST_def drop_Suc_Cons numeral_2_eq_2)
qed simp

section \<open>A conversation of two requests, and an interrupted one\<close>

definition demo_store_lib :: store_lib where
  "demo_store_lib = \<lparr>json_to_string = (\<lambda>_. ''{}''), json_from_str = (\<lambda>_. None), b64_decode_utf8 = (\<lambda>_. None),
     sha256 = (\<lambda>s. s), hash_hex = (\<lambda>s. s), redact_secret_text = (\<lambda>s. s)\<rparr>"

fun stored :: "store_error + store_inner \<Rightarrow> store_inner" where
  "stored (Inr s) = s" | "stored (Inl _) = empty_store"

definition demo_first :: store_inner where
  "demo_first = stored (finish_request demo_store_lib 2 ''a'' Completed None None
     (stored (checkpoint_request demo_store_lib 1 ''a'' None None JNull empty_store)))"

definition demo_store :: store_inner where
  "demo_store = stored (finish_request demo_store_lib 4 ''b'' Completed None None
     (stored (checkpoint_request demo_store_lib 3 ''b'' (Some ''a'') None JNull demo_first)))"

definition demo_interrupted :: store_inner where
  "demo_interrupted = snd (interrupt_request_if_in_progress 6 ''c'' ''closed''
     (stored (checkpoint_request demo_store_lib 5 ''c'' (Some ''b'') None JNull demo_store)))"

lemma stored_Inr: "\<not> isl x \<Longrightarrow> x = Inr (stored x)"
  by (cases x) auto

lemma prune_loop_small: "length m \<le> MAX_RUNTIME_REQUESTS \<Longrightarrow> prune_loop n m order = (m, order)"
  by (simp add: prune_loop.simps)

lemmas run_store = checkpoint_request_def finish_request_def with_request_def interrupt_request_if_in_progress_def
  prune_runtime_requests_def mark_stale_in_progress_requests_def mark_stale_def is_stale_def IN_PROGRESS_TTL_SECONDS_def
  prune_loop_small MAX_RUNTIME_REQUESTS_def push_request_order_def request_input_for_runtime_def
  bump_usage_revision_def interrupt_def empty_store_def Let_def

lemma demo_first_requests: "si_requests demo_first = [(''a'', \<lparr>rq_id = ''a'', rq_previous = None, rq_status = Completed,
    rq_model = None, rq_input = JNull, rq_response = JNull, rq_turn_messages = [], rq_tool_facts = [],
    rq_diagnostic = None, rq_created_at = 1, rq_updated_at = 2\<rparr>)]"
  by (simp add: demo_first_def run_store)

lemma demo_store_requests: "si_requests demo_store = si_requests demo_first @ [(''b'', \<lparr>rq_id = ''b'', rq_previous = Some ''a'',
    rq_status = Completed, rq_model = None, rq_input = JNull, rq_response = JNull, rq_turn_messages = [],
    rq_tool_facts = [], rq_diagnostic = None, rq_created_at = 3, rq_updated_at = 4\<rparr>)]"
  by (simp add: demo_store_def demo_first_requests run_store)

lemma demo_store_reachable: "store_reachable demo_store_lib demo_store"
proof -
  have checkpointed: "store_reachable demo_store_lib (stored (checkpoint_request demo_store_lib now rid previous model input s))"
    if "store_reachable demo_store_lib s" for now rid previous model input s
    using that store_reachable.start store_reachable.step [OF that store_step.checkpoint]
    by (cases "checkpoint_request demo_store_lib now rid previous model input s") simp_all
  have finished: "store_reachable demo_store_lib (stored (finish_request demo_store_lib now rid status response d s))"
    if "store_reachable demo_store_lib s" for now rid status response d s
    using that store_reachable.start store_reachable.step [OF that store_step.finish]
    by (cases "finish_request demo_store_lib now rid status response d s") simp_all
  show ?thesis unfolding demo_store_def demo_first_def
    by (intro finished checkpointed store_reachable.start)
qed

lemma demo_interrupted_reachable: "store_reachable demo_store_lib demo_interrupted"
proof -
  let ?c = "checkpoint_request demo_store_lib 5 ''c'' (Some ''b'') None JNull demo_store"
  have "?c = Inr (stored ?c)" by (rule stored_Inr) (simp add: demo_store_requests demo_first_requests run_store)
  then have "store_reachable demo_store_lib (stored ?c)"
    by (rule store_reachable.step [OF demo_store_reachable store_step.checkpoint])
  then show ?thesis unfolding demo_interrupted_def
    by (rule store_reachable.step) (rule store_step.interrupted, rule prod.collapse [symmetric])
qed

theorem store_invariant_witness:
  "store_ok demo_store
   \<and> (\<exists>s'. settle_client_tool_handoff_outputs demo_store_lib 7 ''b'' JNull demo_store = Some s')
   \<and> (\<exists>s'. record_client_tool_handoff_calls demo_store_lib 7 ''b'' JNull
        [\<lparr>hc_call_id = ''1'', hc_name = ''shell'', hc_arguments = ''ls''\<rparr>] None demo_store = Some s')"
  using store_invariant [OF demo_store_reachable] by blast

theorem context_chain_exact_witness:
  "map_sum id (map sr_id) (response_context_chain ''b'' 20 demo_store) = Inr [''a'', ''b'']"
proof -
  let ?rs = "rev (map snd (si_requests demo_store))"
  have "conversation (si_requests demo_store) ''b'' (max 1 (min 20 10000)) ?rs"
    by (simp add: conversation_def demo_store_requests demo_first_requests)
  with context_chain_exact [OF demo_store_reachable, of "''b''" 20 "rev (map response_of ?rs)"]
  have "response_context_chain ''b'' 20 demo_store = Inr (rev (map response_of ?rs))" by blast
  then show ?thesis by (simp add: demo_store_requests demo_first_requests response_of_def)
qed

end
