(* ===== verification/Access.thy ===== *)
theory Access
  imports Json
begin

text \<open>
  Who may call the proxy, \<^verbatim>\<open>crates/proxy/src/server/access.rs\<close>: the guards before the \<^verbatim>\<open>/v1\<close> routes and the
  manager API. A header map lists the headers of a request in order, under their lower-case names; a
  header value is its bytes. The parser of URLs (\<^verbatim>\<open>reqwest::Url\<close>) is a parameter that gives the host of
  an origin; the rest of the server is one, too: the function that handles an admitted request.
\<close>

type_synonym header_map = "(string \<times> string) list"

definition CODESEEX_V1_ACCESS_TOKEN_HEADER :: string where
  "CODESEEX_V1_ACCESS_TOKEN_HEADER = ''x-codeseex-token''"

text \<open>\<^verbatim>\<open>HeaderValue::to_str\<close>: only visible ASCII characters, blanks and tabs.\<close>

definition header_str :: "header_map \<Rightarrow> string \<Rightarrow> string option" where
  "header_str headers name =
     opt_filter (list_all (\<lambda>c. 32 \<le> byte_val c \<and> byte_val c < 127 \<or> byte_val c = 9)) (map_of headers name)"

section \<open>Tokens\<close>

fun constant_time_loop :: "8 word \<Rightarrow> (char \<times> char) list \<Rightarrow> 8 word" where
  "constant_time_loop diff [] = diff"
| "constant_time_loop diff ((a, b) # pairs) =
     constant_time_loop (or diff (xor (of_nat (byte_val a)) (of_nat (byte_val b)))) pairs"

definition constant_time_eq :: "string \<Rightarrow> string \<Rightarrow> bool" where
  "constant_time_eq left right =
     (if length left \<noteq> length right then False else constant_time_loop 0 (zip left right) = 0)"

text \<open>The text around its first blank character, \<^verbatim>\<open>split_once(char::is_whitespace)\<close>.\<close>

definition split_once_whitespace :: "string \<Rightarrow> (string \<times> string) option" where
  "split_once_whitespace s =
     (case dropWhile (\<lambda>ch. \<not> is_whitespace ch) (chars s) of
        [] \<Rightarrow> None
      | ch # rest \<Rightarrow> Some (concat (takeWhile (\<lambda>ch. \<not> is_whitespace ch) (chars s)), concat rest))"

definition bearer_token :: "string \<Rightarrow> string option" where
  "bearer_token value =
     Option.bind (split_once_whitespace (trim value)) (\<lambda>(scheme, rest).
       if eq_ignore_ascii_case scheme ''bearer'' \<and> trim rest \<noteq> [] then Some (trim rest) else None)"

definition v1_access_token_matches :: "header_map \<Rightarrow> string \<Rightarrow> bool" where
  "v1_access_token_matches headers access_token =
     (if trim access_token = [] then False
      else if is_some_and (\<lambda>v. constant_time_eq (trim v) access_token)
                (header_str headers CODESEEX_V1_ACCESS_TOKEN_HEADER) then True
      else is_some_and (\<lambda>v. constant_time_eq v access_token)
             (Option.bind (header_str headers ''authorization'') bearer_token))"

definition upstream_authorization_from_headers :: "header_map \<Rightarrow> string \<Rightarrow> string option" where
  "upstream_authorization_from_headers headers access_token =
     opt_filter (\<lambda>v. case bearer_token v of Some t \<Rightarrow> \<not> constant_time_eq t access_token | None \<Rightarrow> True)
       (header_str headers ''authorization'')"

section \<open>Local requests\<close>

definition authority_host :: "string \<Rightarrow> string" where
  "authority_host authority =
     (let trimmed = trim authority
      in case strip_prefix trimmed ''['' of
           Some rest \<Rightarrow> takeWhile (\<lambda>c. c \<noteq> CHR '']'') rest
         | None \<Rightarrow>
             if length (filter (\<lambda>c. c = CHR '':'') trimmed) = 1
             then takeWhile (\<lambda>c. c \<noteq> CHR '':'') trimmed else trimmed)"

definition authority_host_is_local :: "string \<Rightarrow> bool" where
  "authority_host_is_local authority =
     (let host = to_ascii_lowercase (rev (dropWhile (\<lambda>c. c = CHR ''.'') (rev (authority_host authority))))
      in host \<in> {''localhost'', ''127.0.0.1'', ''::1''})"

definition origin_host_is_local :: "(string \<Rightarrow> string option) \<Rightarrow> string \<Rightarrow> bool" where
  "origin_host_is_local url_host origin = is_some_and authority_host_is_local (url_host origin)"

definition fetch_metadata_is_cross_site :: "header_map \<Rightarrow> bool" where
  "fetch_metadata_is_cross_site headers =
     is_some_and (\<lambda>v. eq_ignore_ascii_case v ''cross-site'') (header_str headers ''sec-fetch-site'')"

record access_policy =
  listener_host_is_local :: bool

definition manager_request_is_local :: "(string \<Rightarrow> string option) \<Rightarrow> access_policy \<Rightarrow> header_map \<Rightarrow> bool" where
  "manager_request_is_local url_host policy headers =
     (if \<not> listener_host_is_local policy then False
      else if fetch_metadata_is_cross_site headers then False
      else
        (let host_is_local = is_some_and authority_host_is_local (header_str headers ''host'');
             origin_is_local = (case header_str headers ''origin'' of
               None \<Rightarrow> True | Some origin \<Rightarrow> origin_host_is_local url_host origin)
         in host_is_local \<and> origin_is_local))"

definition v1_request_is_allowed ::
    "(string \<Rightarrow> string option) \<Rightarrow> access_policy \<Rightarrow> header_map \<Rightarrow> string \<Rightarrow> bool" where
  "v1_request_is_allowed url_host policy headers access_token =
     (if v1_access_token_matches headers access_token then True
      else manager_request_is_local url_host policy headers)"

section \<open>The guards\<close>

record http_request =
  hr_method :: string
  hr_headers :: header_map
  hr_body :: string

record http_response =
  hs_status :: nat
  hs_headers :: header_map
  hs_body :: json

definition v1_preflight_is_allowed :: "header_map \<Rightarrow> bool" where
  "v1_preflight_is_allowed headers =
     (if map_of headers ''origin'' = None then False
      else if \<not> is_some_and (\<lambda>v. eq_ignore_ascii_case v ''GET'' \<or> eq_ignore_ascii_case v ''POST'')
                 (header_str headers ''access-control-request-method'') then False
      else is_some_and (\<lambda>v. list_ex (\<lambda>h. h = CODESEEX_V1_ACCESS_TOKEN_HEADER \<or> h = ''authorization'')
             (map (\<lambda>h. to_ascii_lowercase (trim h)) (split_char (CHR '','') v)))
             (header_str headers ''access-control-request-headers''))"

text \<open>\<^verbatim>\<open>HeaderMap::insert\<close> replaces every value of the name, \<^verbatim>\<open>append\<close> adds one.\<close>

definition header_insert :: "string \<Rightarrow> string \<Rightarrow> header_map \<Rightarrow> header_map" where
  "header_insert name value headers = kv_remove name headers @ [(name, value)]"

definition header_append :: "string \<Rightarrow> string \<Rightarrow> header_map \<Rightarrow> header_map" where
  "header_append name value headers = headers @ [(name, value)]"

definition apply_v1_cors_headers :: "header_map \<Rightarrow> header_map \<Rightarrow> header_map" where
  "apply_v1_cors_headers request headers =
     (case map_of request ''origin'' of
        None \<Rightarrow> headers
      | Some origin \<Rightarrow>
          header_append ''vary'' ''Access-Control-Request-Method''
            (header_append ''vary'' ''Access-Control-Request-Headers''
              (header_append ''vary'' ''Origin''
                (header_insert ''access-control-max-age'' ''600''
                  (header_insert ''access-control-allow-headers''
                     (unwrap_or ''authorization,content-type,x-codeseex-token''
                        (map_of request ''access-control-request-headers''))
                    (header_insert ''access-control-allow-methods'' ''GET,POST,OPTIONS''
                      (header_insert ''access-control-allow-origin'' origin headers)))))))"

definition v1_preflight_response :: "header_map \<Rightarrow> http_response" where
  "v1_preflight_response request =
     \<lparr>hs_status = 204, hs_headers = apply_v1_cors_headers request [], hs_body = JNull\<rparr>"

definition forbidden :: "string \<Rightarrow> string \<Rightarrow> http_response" where
  "forbidden code message =
     \<lparr>hs_status = 403, hs_headers = [(''content-type'', ''application/json'')],
      hs_body = jobj [(''error'', jobj [(''code'', JStr code), (''message'', JStr message)])]\<rparr>"

definition v1_forbidden :: http_response where
  "v1_forbidden = forbidden ''v1_api_forbidden''
     ''CodeSeeX /v1 only accepts local requests or requests with the local access token.''"

definition manager_forbidden :: http_response where
  "manager_forbidden = forbidden ''manager_api_forbidden'' ''CodeSeeX manager API only accepts local requests.''"

text \<open>The guards, with the handler that they protect; the result tells whether it was called.\<close>

definition v1_local_request_guard ::
    "(string \<Rightarrow> string option) \<Rightarrow> string \<Rightarrow> string \<Rightarrow> (http_request \<Rightarrow> http_response) \<Rightarrow> http_request
       \<Rightarrow> bool \<times> http_response" where
  "v1_local_request_guard url_host config_host access_token handler request =
     (let headers = hr_headers request
      in if hr_method request = ''OPTIONS'' \<and> v1_preflight_is_allowed headers
         then (False, v1_preflight_response headers)
         else if v1_request_is_allowed url_host \<lparr>listener_host_is_local = authority_host_is_local config_host\<rparr>
                headers access_token
         then (let response = handler request
               in (True, response\<lparr>hs_headers := apply_v1_cors_headers headers (hs_headers response)\<rparr>))
         else (False, v1_forbidden))"

definition manager_local_request_guard ::
    "(string \<Rightarrow> string option) \<Rightarrow> access_policy \<Rightarrow> (http_request \<Rightarrow> http_response) \<Rightarrow> http_request
       \<Rightarrow> bool \<times> http_response" where
  "manager_local_request_guard url_host policy handler request =
     (if manager_request_is_local url_host policy (hr_headers request) then (True, handler request)
      else (False, manager_forbidden))"

section \<open>Equality in constant time\<close>

lemma byte_val_less: "byte_val c < 256"
  by (cases c) (simp add: byte_val_def)

lemma byte_val_inj: "byte_val a = byte_val b \<longleftrightarrow> a = b"
  by (simp add: byte_val_def)

lemma xor_bytes: "xor (of_nat (byte_val a) :: 8 word) (of_nat (byte_val b)) = 0 \<longleftrightarrow> a = b"
proof -
  have "xor (of_nat (byte_val a) :: 8 word) (of_nat (byte_val b)) = 0
      \<longleftrightarrow> (of_nat (byte_val a) :: 8 word) = of_nat (byte_val b)"
    by (metis bit.xor_self bit.xor_left_self xor.right_neutral)
  also have "\<dots> \<longleftrightarrow> byte_val a = byte_val b"
    using byte_val_less [of a] byte_val_less [of b] by (simp add: word_of_nat_eq_iff take_bit_nat_eq_self)
  finally show ?thesis by (simp add: byte_val_inj)
qed

lemma constant_time_loop_0: "constant_time_loop d ps = 0 \<longleftrightarrow> d = 0 \<and> (\<forall>(a, b) \<in> set ps. a = b)"
  by (induction d ps rule: constant_time_loop.induct) (auto simp: or_eq_0_iff xor_bytes)

lemma constant_time_eq_iff [simp]: "constant_time_eq l r \<longleftrightarrow> l = r"
proof (cases "length l = length r")
  case True
  then have "(\<forall>(a, b) \<in> set (zip l r). a = b) \<longleftrightarrow> l = r"
    by (induction l r rule: list_induct2) auto
  with True show ?thesis by (simp add: constant_time_eq_def constant_time_loop_0)
qed (auto simp: constant_time_eq_def)

section \<open>Who is let in\<close>

definition presents_token :: "header_map \<Rightarrow> string \<Rightarrow> bool" where
  "presents_token headers token \<longleftrightarrow> trim token \<noteq> [] \<and>
     (\<exists>v. header_str headers ''x-codeseex-token'' = Some v \<and> trim v = token
        \<or> header_str headers ''authorization'' = Some v \<and> bearer_token v = Some token)"

definition from_this_machine :: "(string \<Rightarrow> string option) \<Rightarrow> string \<Rightarrow> header_map \<Rightarrow> bool" where
  "from_this_machine url_host config_host headers \<longleftrightarrow>
     authority_host_is_local config_host
     \<and> \<not> (\<exists>v. header_str headers ''sec-fetch-site'' = Some v \<and> to_ascii_lowercase v = ''cross-site'')
     \<and> (\<exists>h. header_str headers ''host'' = Some h \<and> authority_host_is_local h)
     \<and> (\<forall>origin. header_str headers ''origin'' = Some origin
           \<longrightarrow> (\<exists>h. url_host origin = Some h \<and> authority_host_is_local h))"

lemma token_matches_iff: "v1_access_token_matches headers token \<longleftrightarrow> presents_token headers token"
  by (auto simp: v1_access_token_matches_def presents_token_def is_some_and_iff CODESEEX_V1_ACCESS_TOKEN_HEADER_def
      bind_eq_Some_conv)

lemma manager_local_iff:
  "manager_request_is_local url_host \<lparr>listener_host_is_local = authority_host_is_local config_host\<rparr> headers
     \<longleftrightarrow> from_this_machine url_host config_host headers"
proof -
  have lower: "to_ascii_lowercase ''cross-site'' = ''cross-site''" by code_simp
  have "fetch_metadata_is_cross_site headers \<longleftrightarrow>
      (\<exists>v. header_str headers ''sec-fetch-site'' = Some v \<and> to_ascii_lowercase v = ''cross-site'')"
    by (simp add: fetch_metadata_is_cross_site_def is_some_and_iff eq_ignore_ascii_case_def lower)
  then show ?thesis
    by (auto simp: manager_request_is_local_def from_this_machine_def is_some_and_iff origin_host_is_local_def
        split: option.split)
qed


end
