(* ===== verification/Web_Safety.thy ===== *)
theory Web_Safety
  imports Prelude
begin

text \<open>
  Which web targets the search tool may fetch, \<^verbatim>\<open>crates/proxy/src/tools/web/safety.rs\<close>. Addresses are those
  of the standard library, with its parser of their text; octets and segments are words. The crate that
  parses URLs and the name service are parameters: a URL is given by what the code reads of it, and a
  lookup by its answer.
\<close>

datatype ip_addr = V4 "8 word" "8 word" "8 word" "8 word" | V6 "16 word list"

text \<open>An IPv6 address has eight segments.\<close>

definition ip_ok :: "ip_addr \<Rightarrow> bool" where
  "ip_ok ip = (case ip of V4 _ _ _ _ \<Rightarrow> True | V6 segments \<Rightarrow> length segments = 8)"

section \<open>Reading an address\<close>

definition digit_value :: "nat \<Rightarrow> char \<Rightarrow> nat option" where
  "digit_value radix c =
     (let v = byte_val c;
          d = (if 48 \<le> v \<and> v \<le> 57 then v - 48
               else if 97 \<le> v \<and> v \<le> 122 then v - 87 else if 65 \<le> v \<and> v \<le> 90 then v - 55 else 36)
      in if d < radix then Some d else None)"

text \<open>\<^verbatim>\<open>Parser::read_number\<close>: all digits that follow, their value at most \<open>bound\<close>, and the rest.\<close>

definition read_number :: "nat \<Rightarrow> int \<Rightarrow> nat \<Rightarrow> bool \<Rightarrow> string \<Rightarrow> (int \<times> string) option" where
  "read_number radix bound max_digits allow_zero_prefix s =
     (let digits = takeWhile (\<lambda>c. digit_value radix c \<noteq> None) s;
          value = fold (\<lambda>c n. n * int radix + int (the (digit_value radix c))) digits 0
      in if digits = [] \<or> length digits > max_digits \<or> value > bound
           \<or> (\<not> allow_zero_prefix \<and> hd digits = CHR ''0'' \<and> length digits > 1)
         then None else Some (value, drop (length digits) s))"

definition read_given_char :: "char \<Rightarrow> string \<Rightarrow> string option" where
  "read_given_char c s = (case s of [] \<Rightarrow> None | d # rest \<Rightarrow> if d = c then Some rest else None)"

definition read_octet :: "string \<Rightarrow> (8 word \<times> string) option" where
  "read_octet s = map_option (\<lambda>(n, rest). (of_int n, rest)) (read_number 10 255 3 False s)"

definition read_ipv4_addr :: "string \<Rightarrow> ((8 word \<times> 8 word \<times> 8 word \<times> 8 word) \<times> string) option" where
  "read_ipv4_addr s =
     Option.bind (read_octet s) (\<lambda>(a, s).
     Option.bind (Option.bind (read_given_char (CHR ''.'') s) read_octet) (\<lambda>(b, s).
     Option.bind (Option.bind (read_given_char (CHR ''.'') s) read_octet) (\<lambda>(c, s).
     Option.bind (Option.bind (read_given_char (CHR ''.'') s) read_octet) (\<lambda>(d, s).
       Some ((a, b, c, d), s)))))"

definition be16 :: "8 word \<Rightarrow> 8 word \<Rightarrow> 16 word" where
  "be16 hi lo = of_nat (unat hi * 256 + unat lo)"

text \<open>
  The groups of an IPv6 address, at most \<open>left\<close> of them; a dotted address may stand for the final two.
  A separator that is not followed by a group is not consumed.
\<close>

fun read_groups :: "nat \<Rightarrow> bool \<Rightarrow> string \<Rightarrow> 16 word list \<times> bool \<times> string" where
  "read_groups 0 first s = ([], False, s)"
| "read_groups (Suc left) first s =
     (let after_sep = (if first then Some s else read_given_char (CHR '':'') s)
      in case (if left > 0 then Option.bind after_sep read_ipv4_addr else None) of
           Some ((a, b, c, d), rest) \<Rightarrow> ([be16 a b, be16 c d], True, rest)
         | None \<Rightarrow>
             (case Option.bind after_sep (read_number 16 65535 4 True) of
                None \<Rightarrow> ([], False, s)
              | Some (g, rest) \<Rightarrow>
                  (case read_groups left False rest of (gs, v4, rest) \<Rightarrow> (of_int g # gs, v4, rest))))"

definition read_ipv6_addr :: "string \<Rightarrow> (16 word list \<times> string) option" where
  "read_ipv6_addr s =
     (case read_groups 8 True s of (head, head_ipv4, rest) \<Rightarrow>
        if length head = 8 then Some (head, rest)
        else if head_ipv4 then None
        else Option.bind (Option.bind (read_given_char (CHR '':'') rest) (read_given_char (CHR '':''))) (\<lambda>rest.
          (case read_groups (8 - (length head + 1)) True rest of (tail, _, rest) \<Rightarrow>
             Some (head @ replicate (8 - length head - length tail) 0 @ tail, rest))))"

definition parse_ip :: "string \<Rightarrow> ip_addr option" where
  "parse_ip s =
     (case or_else (map_option (\<lambda>((a, b, c, d), rest). (V4 a b c d, rest)) (read_ipv4_addr s))
             (map_option (\<lambda>(gs, rest). (V6 gs, rest)) (read_ipv6_addr s)) of
        Some (ip, []) \<Rightarrow> Some ip | _ \<Rightarrow> None)"

section \<open>Which addresses are blocked\<close>

text \<open>The tests of the standard library.\<close>

definition is_loopback :: "ip_addr \<Rightarrow> bool" where
  "is_loopback ip = (case ip of V4 a b c d \<Rightarrow> a = 127 | V6 gs \<Rightarrow> gs = [0, 0, 0, 0, 0, 0, 0, 1])"

definition is_unspecified :: "ip_addr \<Rightarrow> bool" where
  "is_unspecified ip = (case ip of V4 a b c d \<Rightarrow> a = 0 \<and> b = 0 \<and> c = 0 \<and> d = 0 | V6 gs \<Rightarrow> gs = [0, 0, 0, 0, 0, 0, 0, 0])"

definition ipv4_mapped :: "16 word list \<Rightarrow> ip_addr option" where
  "ipv4_mapped gs =
     (if gs ! 0 = 0 \<and> gs ! 1 = 0 \<and> gs ! 2 = 0 \<and> gs ! 3 = 0 \<and> gs ! 4 = 0 \<and> gs ! 5 = 0xffff
      then Some (V4 (of_nat (unat (gs ! 6) div 256)) (of_nat (unat (gs ! 6) mod 256))
                    (of_nat (unat (gs ! 7) div 256)) (of_nat (unat (gs ! 7) mod 256)))
      else None)"

definition normalize_mapped_ip :: "ip_addr \<Rightarrow> ip_addr" where
  "normalize_mapped_ip ip = (case ip of V6 gs \<Rightarrow> unwrap_or (V6 gs) (ipv4_mapped gs) | other \<Rightarrow> other)"

definition is_private_ip :: "ip_addr \<Rightarrow> bool" where
  "is_private_ip ip =
     (case ip of
        V4 a b c d \<Rightarrow> a = 10 \<or> (a = 172 \<and> 16 \<le> b \<and> b \<le> 31) \<or> (a = 192 \<and> b = 168)
      | V6 gs \<Rightarrow> and (gs ! 0) 0xfe00 = 0xfc00)"

definition is_link_local_ip :: "ip_addr \<Rightarrow> bool" where
  "is_link_local_ip ip =
     (case ip of V4 a b c d \<Rightarrow> a = 169 \<and> b = 254 | V6 gs \<Rightarrow> and (gs ! 0) 0xffc0 = 0xfe80)"

definition is_documentation_ip :: "ip_addr \<Rightarrow> bool" where
  "is_documentation_ip ip =
     (case ip of
        V4 a b c d \<Rightarrow> (a = 192 \<and> b = 0 \<and> c = 2) \<or> (a = 198 \<and> b = 51 \<and> c = 100) \<or> (a = 203 \<and> b = 0 \<and> c = 113)
      | V6 gs \<Rightarrow> gs ! 0 = 0x2001 \<and> gs ! 1 = 0x0db8)"

definition is_reserved_special_ip :: "ip_addr \<Rightarrow> bool" where
  "is_reserved_special_ip ip =
     (case ip of
        V4 a b c d \<Rightarrow> a = 0 \<or> (a = 100 \<and> 64 \<le> b \<and> b \<le> 127) \<or> (a = 192 \<and> b = 0 \<and> c = 0)
          \<or> (a = 198 \<and> (b = 18 \<or> b = 19)) \<or> 240 \<le> a
      | V6 gs \<Rightarrow> gs ! 0 = 0x2002 \<or> (gs ! 0 = 0x0064 \<and> gs ! 1 = 0xff9b))"

definition ip_is_blocked :: "ip_addr \<Rightarrow> bool" where
  "ip_is_blocked ip =
     (let ip = normalize_mapped_ip ip
      in is_loopback ip \<or> is_unspecified ip \<or> is_private_ip ip \<or> is_link_local_ip ip
         \<or> is_documentation_ip ip \<or> is_reserved_special_ip ip)"

section \<open>Checking a target\<close>

text \<open>What the code reads of a \<^verbatim>\<open>reqwest::Url\<close>.\<close>

record web_url =
  wu_scheme :: string
  wu_host :: "string option"
  wu_port :: "nat option"

definition allow_private_web_targets :: "string option \<Rightarrow> bool" where
  "allow_private_web_targets env =
     is_some_and (\<lambda>v. to_ascii_lowercase (trim v) \<in> {''1'', ''true'', ''yes'', ''on''}) env"

text \<open>\<^verbatim>\<open>trim_matches(['[', ']'])\<close>.\<close>

definition trim_brackets :: "string \<Rightarrow> string" where
  "trim_brackets s =
     (let bracket = (\<lambda>c. c = CHR ''['' \<or> c = CHR '']'') in rev (dropWhile bracket (rev (dropWhile bracket s))))"

definition validate_public_web_url :: "string option \<Rightarrow> web_url \<Rightarrow> string + unit" where
  "validate_public_web_url env url =
     (if wu_scheme url \<noteq> ''http'' \<and> wu_scheme url \<noteq> ''https''
      then Inl ''Only http:// and https:// URLs are supported.''
      else if allow_private_web_targets env then Inr ()
      else (case wu_host url of
              None \<Rightarrow> Inl ''URL must include a host.''
            | Some host \<Rightarrow>
                (let host_lower = to_ascii_lowercase (trim_brackets host)
                 in if host_lower = ''localhost'' \<or> host_lower = ''localhost.localdomain''
                    then Inl ''Localhost targets are blocked for web_search.''
                    else if is_some_and ip_is_blocked (parse_ip host_lower)
                    then Inl ''Private or local network targets are blocked for web_search.''
                    else Inr ())))"

text \<open>The name service answers with addresses or with an error, at a host and a port.\<close>

definition resolve_public_web_host ::
    "string option \<Rightarrow> (string \<Rightarrow> nat \<Rightarrow> string + ip_addr list) \<Rightarrow> web_url \<Rightarrow> string + ip_addr list" where
  "resolve_public_web_host env lookup url =
     (case validate_public_web_url env url of
        Inl e \<Rightarrow> Inl e
      | Inr _ \<Rightarrow>
          if allow_private_web_targets env then Inr []
          else (case wu_host url of
                  None \<Rightarrow> Inl ''URL must include a host.''
                | Some host \<Rightarrow>
                    (let host = trim_brackets host
                     in case parse_ip host of
                          Some ip \<Rightarrow> Inr [ip]
                        | None \<Rightarrow>
                            (case lookup host (unwrap_or 80 (wu_port url)) of
                               Inl e \<Rightarrow> Inl (''DNS lookup failed: '' @ e)
                             | Inr addresses \<Rightarrow>
                                 if addresses = [] then Inl ''DNS lookup returned no addresses.''
                                 else if list_ex ip_is_blocked addresses
                                 then Inl ''DNS resolved to a private or local network target.''
                                 else Inr (fold (\<lambda>ip resolved. if ip \<in> set resolved then resolved else resolved @ [ip])
                                        addresses [])))))"

definition blocked_suffixes :: "string list" where
  "blocked_suffixes = [''.png'', ''.jpg'', ''.jpeg'', ''.gif'', ''.webp'', ''.avif'', ''.svg'', ''.ico'', ''.bmp'',
     ''.mp4'', ''.webm'', ''.mp3'', ''.wav'', ''.flac'', ''.woff'', ''.woff2'', ''.ttf'', ''.otf'', ''.eot'', ''.pdf'',
     ''.zip'', ''.7z'', ''.rar'', ''.tar'', ''.gz'', ''.exe'', ''.dll'', ''.dmg'', ''.iso'']"

definition url_path_looks_blocked_resource :: "string \<Rightarrow> bool" where
  "url_path_looks_blocked_resource path = list_ex (ends_with (to_ascii_lowercase path)) blocked_suffixes"

text \<open>The loop over the end of the text drops one character at a time; the dropped ones are ASCII.\<close>

function trim_url_trailing_punctuation :: "string \<Rightarrow> string" where
  "trim_url_trailing_punctuation value =
     (if value \<noteq> [] \<and> (last value \<in> {CHR ''.'', CHR '','', CHR '';''}
          \<or> last value = CHR '')'' \<and> length (filter (\<lambda>c. c = CHR '')'') value) > length (filter (\<lambda>c. c = CHR ''('') value))
      then trim_url_trailing_punctuation (butlast value) else value)"
  by pat_completeness auto
termination
  by (relation "measure length") auto

section \<open>Blocks of addresses\<close>

text \<open>An IPv4 address as a number, and the blocks \<open>base/len\<close> that are never a public web target.\<close>

definition ipv4_value :: "8 word \<Rightarrow> 8 word \<Rightarrow> 8 word \<Rightarrow> 8 word \<Rightarrow> nat" where
  "ipv4_value a b c d = ((unat a * 256 + unat b) * 256 + unat c) * 256 + unat d"

definition in_block :: "nat \<Rightarrow> nat \<times> nat \<times> nat \<times> nat \<times> nat \<Rightarrow> bool" where
  "in_block v blk = (case blk of (a, b, c, d, len) \<Rightarrow>
     v div 2 ^ (32 - len) = (((a * 256 + b) * 256 + c) * 256 + d) div 2 ^ (32 - len))"

definition local_blocks :: "(nat \<times> nat \<times> nat \<times> nat \<times> nat) list" where
  "local_blocks = [(0, 0, 0, 0, 8), (10, 0, 0, 0, 8), (100, 64, 0, 0, 10), (127, 0, 0, 0, 8), (169, 254, 0, 0, 16),
     (172, 16, 0, 0, 12), (192, 0, 0, 0, 24), (192, 0, 2, 0, 24), (192, 168, 0, 0, 16), (198, 18, 0, 0, 15),
     (198, 51, 100, 0, 24), (203, 0, 113, 0, 24), (240, 0, 0, 0, 4)]"

definition public_ip :: "ip_addr \<Rightarrow> bool" where
  "public_ip ip =
     (case normalize_mapped_ip ip of
        V4 a b c d \<Rightarrow> \<not> list_ex (in_block (ipv4_value a b c d)) local_blocks
      | V6 gs \<Rightarrow> gs \<noteq> [0, 0, 0, 0, 0, 0, 0, 0] \<and> gs \<noteq> [0, 0, 0, 0, 0, 0, 0, 1]
          \<and> \<not> (0xfc00 \<le> gs ! 0 \<and> gs ! 0 \<le> 0xfdff) \<and> \<not> (0xfe80 \<le> gs ! 0 \<and> gs ! 0 \<le> 0xfebf)
          \<and> \<not> (gs ! 0 = 0x2001 \<and> gs ! 1 = 0x0db8) \<and> gs ! 0 \<noteq> 0x2002 \<and> \<not> (gs ! 0 = 0x0064 \<and> gs ! 1 = 0xff9b))"

lemma octet_less: "unat (a :: 8 word) < 256"
  using unsigned_less [of a] by simp

lemma ipv4_value_div:
  fixes a b c d :: "8 word"
  shows "ipv4_value a b c d div 2 ^ 8 = (unat a * 256 + unat b) * 256 + unat c"
    and "ipv4_value a b c d div 2 ^ 16 = unat a * 256 + unat b"
    and "ipv4_value a b c d div 2 ^ 24 = unat a"
    and "k \<le> 8 \<Longrightarrow> ipv4_value a b c d div 2 ^ (16 + k) = (unat a * 256 + unat b) div 2 ^ k"
    and "k \<le> 8 \<Longrightarrow> ipv4_value a b c d div 2 ^ (24 + k) = unat a div 2 ^ k"
proof -
  have small: "unat a < 256" "unat b < 256" "unat c < 256" "unat d < 256"
    by (rule octet_less)+
  show v8: "ipv4_value a b c d div 2 ^ 8 = (unat a * 256 + unat b) * 256 + unat c"
    using small by (simp add: ipv4_value_def)
  have "ipv4_value a b c d div 2 ^ 16 = ipv4_value a b c d div 2 ^ 8 div 2 ^ 8" by (simp add: div_mult2_eq [symmetric])
  then show v16: "ipv4_value a b c d div 2 ^ 16 = unat a * 256 + unat b" unfolding v8 using small by simp
  have "ipv4_value a b c d div 2 ^ 24 = ipv4_value a b c d div 2 ^ 16 div 2 ^ 8" by (simp add: div_mult2_eq [symmetric])
  then show v24: "ipv4_value a b c d div 2 ^ 24 = unat a" unfolding v16 using small by simp
  show "ipv4_value a b c d div 2 ^ (16 + k) = (unat a * 256 + unat b) div 2 ^ k"
    by (simp add: power_add div_mult2_eq v16 [simplified])
  show "ipv4_value a b c d div 2 ^ (24 + k) = unat a div 2 ^ k"
    by (simp add: power_add div_mult2_eq v24 [simplified])
qed

lemma word8_nat: "(a :: 8 word) = numeral k \<longleftrightarrow> unat a = unat (numeral k :: 8 word)"
  "(a :: 8 word) \<le> b \<longleftrightarrow> unat a \<le> unat b"
  by (simp_all add: word_unat_eq_iff word_le_nat_alt)

lemma div_range: "0 < k \<Longrightarrow> n div k = m \<longleftrightarrow> m * k \<le> n \<and> n < Suc m * (k :: nat)"
  by (metis div_nat_eqI dividend_less_div_times div_times_less_eq_dividend mult.commute mult_Suc)

lemma digits_eq: "y < k \<Longrightarrow> x * k + y = n \<longleftrightarrow> x = n div k \<and> y = n mod (k :: nat)"
  by auto

lemma shift_octet: "(x * 256 + y) div 64 = x * 4 + y div (64 :: nat)" "(x * 256 + y) div 16 = x * 16 + y div (16 :: nat)"
  "(x * 256 + y) div 2 = x * 128 + y div (2 :: nat)"
  using div_mult_self3 [of 64 "x * 4" y] div_mult_self3 [of 16 "x * 16" y] div_mult_self3 [of 2 "x * 128" y] by simp_all

lemma octet_ranges:
  fixes x y :: nat
  assumes "x < 256" and "y < 256"
  shows "(x * 256 + y) div 64 = 401 \<longleftrightarrow> x = 100 \<and> 64 \<le> y \<and> y \<le> 127"
    and "(x * 256 + y) div 16 = 2753 \<longleftrightarrow> x = 172 \<and> 16 \<le> y \<and> y \<le> 31"
    and "(x * 256 + y) div 2 = 25353 \<longleftrightarrow> x = 198 \<and> (y = 18 \<or> y = 19)"
    and "x div 16 = 15 \<longleftrightarrow> 240 \<le> x"
  using assms digits_eq [of "y div 64" 4 x] digits_eq [of "y div 16" 16 x] digits_eq [of "y div 2" 128 x]
  by (auto simp: shift_octet div_range)

lemma blocked_v4:
  "is_loopback (V4 a b c d) \<or> is_unspecified (V4 a b c d) \<or> is_private_ip (V4 a b c d) \<or> is_link_local_ip (V4 a b c d)
     \<or> is_documentation_ip (V4 a b c d) \<or> is_reserved_special_ip (V4 a b c d)
   \<longleftrightarrow> list_ex (in_block (ipv4_value a b c d)) local_blocks"
proof -
  have small: "unat a < 256" "unat b < 256" "unat c < 256"
    by (rule octet_less)+
  note v = ipv4_value_div(1-3) [of a b c d, simplified]
    ipv4_value_div(4) [of 1 a b c d, simplified] ipv4_value_div(4) [of 4 a b c d, simplified]
    ipv4_value_div(4) [of 6 a b c d, simplified] ipv4_value_div(5) [of 4 a b c d, simplified]
  have "list_ex (in_block (ipv4_value a b c d)) local_blocks \<longleftrightarrow>
      unat a = 0 \<or> unat a = 10 \<or> (unat a * 256 + unat b) div 64 = 401 \<or> unat a = 127
      \<or> unat a * 256 + unat b = 43518 \<or> (unat a * 256 + unat b) div 16 = 2753
      \<or> (unat a * 256 + unat b) * 256 + unat c = 12582912 \<or> (unat a * 256 + unat b) * 256 + unat c = 12582914
      \<or> unat a * 256 + unat b = 49320 \<or> (unat a * 256 + unat b) div 2 = 25353
      \<or> (unat a * 256 + unat b) * 256 + unat c = 12989284 \<or> (unat a * 256 + unat b) * 256 + unat c = 13303921
      \<or> unat a div 16 = 15"
    by (simp add: local_blocks_def in_block_def v)
  also have "\<dots> \<longleftrightarrow> is_loopback (V4 a b c d) \<or> is_unspecified (V4 a b c d) \<or> is_private_ip (V4 a b c d)
      \<or> is_link_local_ip (V4 a b c d) \<or> is_documentation_ip (V4 a b c d) \<or> is_reserved_special_ip (V4 a b c d)"
    unfolding digits_eq [OF small(2)] digits_eq [OF small(3)] octet_ranges [OF small(1,2)]
    by (simp add: is_loopback_def is_unspecified_def is_private_ip_def is_link_local_ip_def is_documentation_ip_def
        is_reserved_special_ip_def word8_nat unsigned_eq_0_iff) argo
  finally show ?thesis by simp
qed

lemma and_high_bits:
  fixes g :: "16 word"
  shows "and g 0xfe00 = push_bit 9 (drop_bit 9 g)" and "and g 0xffc0 = push_bit 6 (drop_bit 6 g)"
proof -
  have masks: "(0xfe00 :: 16 word) = push_bit 9 (mask 7)" "(0xffc0 :: 16 word) = push_bit 6 (mask 10)"
    by (simp_all add: mask_eq_exp_minus_1 push_bit_eq_mult)
  show "and g 0xfe00 = push_bit 9 (drop_bit 9 g)" "and g 0xffc0 = push_bit 6 (drop_bit 6 g)"
    unfolding masks by (rule bit_word_eqI, auto simp: bit_simps)+
qed

lemma unat_high_bits: "unat (push_bit n (drop_bit n (g :: 16 word))) = unat g div 2 ^ n * 2 ^ n"
proof -
  have "unat g div 2 ^ n * 2 ^ n \<le> unat g" by simp
  also have "\<dots> < 2 ^ 16" using unsigned_less [of g] by simp
  finally have less: "unat g div 2 ^ n * 2 ^ n < 2 ^ 16" .
  have unat_drop: "unat (drop_bit n g) = unat g div 2 ^ n" by (subst unat_drop_bit_eq) (rule drop_bit_eq_div)
  have "push_bit n (drop_bit n g) = of_nat (unat g div 2 ^ n * 2 ^ n)"
    by (simp add: push_bit_eq_mult flip: unat_drop)
  then have "unat (push_bit n (drop_bit n g)) = (unat g div 2 ^ n * 2 ^ n) mod 2 ^ LENGTH(16)"
    by (simp only: unat_of_nat)
  then show ?thesis using less by simp
qed

lemma masked_ranges:
  fixes g :: "16 word"
  shows "and g 0xfe00 = 0xfc00 \<longleftrightarrow> 0xfc00 \<le> g \<and> g \<le> 0xfdff"
    and "and g 0xffc0 = 0xfe80 \<longleftrightarrow> 0xfe80 \<le> g \<and> g \<le> 0xfebf"
proof -
  have "unat g div 2 ^ 9 * 2 ^ 9 = 0xfc00 \<longleftrightarrow> unat g div 2 ^ 9 = 126"
    "unat g div 2 ^ 6 * 2 ^ 6 = 0xfe80 \<longleftrightarrow> unat g div 2 ^ 6 = 1018" by auto
  then show "and g 0xfe00 = 0xfc00 \<longleftrightarrow> 0xfc00 \<le> g \<and> g \<le> 0xfdff"
    and "and g 0xffc0 = 0xfe80 \<longleftrightarrow> 0xfe80 \<le> g \<and> g \<le> 0xfebf"
    unfolding and_high_bits word_unat_eq_iff word_le_nat_alt unat_high_bits by (auto simp: div_range)
qed

lemma blocked_iff_not_public: "ip_is_blocked ip \<longleftrightarrow> \<not> public_ip ip"
proof (cases "normalize_mapped_ip ip")
  case (V4 a b c d)
  then show ?thesis using blocked_v4 [of a b c d] by (simp add: ip_is_blocked_def public_ip_def)
next
  case (V6 gs)
  then show ?thesis
    by (auto simp: ip_is_blocked_def public_ip_def is_loopback_def is_unspecified_def is_private_ip_def
        is_link_local_ip_def is_documentation_ip_def is_reserved_special_ip_def masked_ranges)
qed

section \<open>Addresses in upper and lower case\<close>

lemma digit_value_lower [simp]: "digit_value radix (ascii_lower_byte c) = digit_value radix c"
proof (cases "ascii_upper c")
  case True
  then have "byte_val c + 32 < 256" by (simp add: ascii_upper_def)
  then have "byte_val (ascii_lower_byte c) = byte_val c + 32"
    using True by (simp add: ascii_lower_byte_def byte_val_def)
  with True show ?thesis by (simp add: digit_value_def ascii_upper_def Let_def)
qed (simp add: ascii_lower_byte_def)

lemma lower_eq_iff: "\<not> ascii_upper c \<Longrightarrow> \<not> (97 \<le> byte_val c \<and> byte_val c \<le> 122) \<Longrightarrow> ascii_lower_byte d = c \<longleftrightarrow> d = c"
proof (cases "ascii_upper d")
  case True
  assume c: "\<not> ascii_upper c" "\<not> (97 \<le> byte_val c \<and> byte_val c \<le> 122)"
  from True have "byte_val (ascii_lower_byte d) = byte_val d + 32"
    by (simp add: ascii_lower_byte_def ascii_upper_def byte_val_def)
  with True c show ?thesis by (auto simp: ascii_upper_def)
qed (auto simp: ascii_lower_byte_def)

lemma separators_lower [simp]: "ascii_lower_byte d = CHR ''.'' \<longleftrightarrow> d = CHR ''.''"
  "ascii_lower_byte d = CHR '':'' \<longleftrightarrow> d = CHR '':''" "ascii_lower_byte d = CHR ''0'' \<longleftrightarrow> d = CHR ''0''"
  by (rule lower_eq_iff; code_simp)+

abbreviation low :: "string \<Rightarrow> string" where
  "low \<equiv> to_ascii_lowercase"

lemma takeWhile_lower:
  "takeWhile (\<lambda>c. digit_value r c \<noteq> None) (low s) = low (takeWhile (\<lambda>c. digit_value r c \<noteq> None) s)"
  by (simp add: to_ascii_lowercase_def takeWhile_map comp_def)

lemma fold_lower: "fold (\<lambda>c n. n * int r + int (the (digit_value r c))) (low s) k = fold (\<lambda>c n. n * int r + int (the (digit_value r c))) s k"
  by (induction s arbitrary: k) (simp_all add: to_ascii_lowercase_def)

lemma read_number_lower: "read_number r b m z (low s) = map_option (map_prod id low) (read_number r b m z s)"
proof -
  let ?d = "takeWhile (\<lambda>c. digit_value r c \<noteq> None) s"
  have hd: "hd (low t) = CHR ''0'' \<longleftrightarrow> hd t = CHR ''0''" if "t \<noteq> []" for t
    using that by (cases t) (simp_all add: to_ascii_lowercase_def)
  have low: "low t = [] \<longleftrightarrow> t = []" "length (low t) = length t" "drop k (low t) = low (drop k t)" for t k
    by (simp_all add: to_ascii_lowercase_def drop_map)
  show ?thesis unfolding read_number_def Let_def takeWhile_lower fold_lower low
    by (cases "?d = []") (simp_all only: hd option.map map_prod_simp id_apply simp_thms if_True if_False
        if_distrib [of "map_option (map_prod id low)"] cong: if_cong)
qed

lemma read_given_lower:
  "read_given_char (CHR ''.'') (low s) = map_option low (read_given_char (CHR ''.'') s)"
  "read_given_char (CHR '':'') (low s) = map_option low (read_given_char (CHR '':'') s)"
  by (cases s; simp add: read_given_char_def to_ascii_lowercase_def)+

lemma read_octet_lower: "read_octet (low s) = map_option (map_prod id low) (read_octet s)"
  by (cases "read_number 10 255 3 False s") (auto simp: read_octet_def read_number_lower)

lemma bind_lower:
  assumes "\<And>s. f (low s) = map_option (map_prod id low) (f s)"
  shows "Option.bind (map_option low a) f = map_option (map_prod id low) (Option.bind a f)"
  using assms by (cases a) auto

lemma read_ipv4_lower: "read_ipv4_addr (low s) = map_option (map_prod id low) (read_ipv4_addr s)"
proof -
  have step: "Option.bind (map_option (map_prod id low) a) (\<lambda>(x, s). F x s)
      = map_option (map_prod id low) (Option.bind a (\<lambda>(x, s). G x s))"
    if "\<And>x s. F x (low s) = map_option (map_prod id low) (G x s)"
    for a :: "('a \<times> string) option" and F G :: "'a \<Rightarrow> string \<Rightarrow> ('b \<times> string) option"
    using that by (cases a) auto
  have dot: "Option.bind (read_given_char (CHR ''.'') (low s)) read_octet
      = map_option (map_prod id low) (Option.bind (read_given_char (CHR ''.'') s) read_octet)" for s
    unfolding read_given_lower by (rule bind_lower) (rule read_octet_lower)
  show ?thesis unfolding read_ipv4_addr_def read_octet_lower
    by (intro step, simp only: dot, intro step, simp only: dot, intro step, simp only: dot, intro step, simp)
qed

lemma read_groups_lower:
  "read_groups n first (low s) = (case read_groups n first s of (gs, v4, rest) \<Rightarrow> (gs, v4, low rest))"
proof (induction n first s rule: read_groups.induct)
  case (2 left first s)
  define a where "a = (if first then Some s else read_given_char (CHR '':'') s)"
  have sep: "(if first then Some (low s) else read_given_char (CHR '':'') (low s)) = map_option low a"
    by (simp add: a_def read_given_lower)
  have v4: "Option.bind (map_option low a) read_ipv4_addr = map_option (map_prod id low) (Option.bind a read_ipv4_addr)"
    and num: "Option.bind (map_option low a) (read_number 16 65535 4 True)
      = map_option (map_prod id low) (Option.bind a (read_number 16 65535 4 True))"
    by (rule bind_lower, rule read_ipv4_lower read_number_lower)+
  note step = read_groups.simps(2) [of left first] Let_def sep a_def [symmetric] v4 num
  show ?case
  proof (cases "if left > 0 then Option.bind a read_ipv4_addr else None")
    case (Some p)
    then show ?thesis unfolding step by (auto split: if_splits prod.splits)
  next
    case None
    then have none: "(if left > 0 then map_option (map_prod id low) (Option.bind a read_ipv4_addr) else None) = None"
      by (auto split: if_splits)
    show ?thesis
    proof (cases "Option.bind a (read_number 16 65535 4 True)")
      case n: None
      show ?thesis unfolding step None none n by simp
    next
      case (Some p)
      obtain g rest where p: "p = (g, rest)" by fastforce
      with "2.IH" [OF a_def None Some] have "read_groups left False (low rest)
          = (case read_groups left False rest of (gs, v4, rest) \<Rightarrow> (gs, v4, low rest))" by simp
      then show ?thesis unfolding step None none Some p by (simp split: prod.splits)
    qed
  qed
qed simp

lemma read_ipv6_lower: "read_ipv6_addr (low s) = map_option (map_prod id low) (read_ipv6_addr s)"
proof -
  obtain head v4 rest where h: "read_groups 8 True s = (head, v4, rest)" by (metis prod_cases3)
  have colons: "Option.bind (map_option low a) (read_given_char (CHR '':''))
      = map_option low (Option.bind a (read_given_char (CHR '':'')))" for a
    by (cases a) (simp_all add: read_given_lower)
  show ?thesis
    by (cases "Option.bind (read_given_char (CHR '':'') rest) (read_given_char (CHR '':''))")
      (auto simp: read_ipv6_addr_def h read_groups_lower read_given_lower colons split: prod.splits)
qed

lemma parse_ip_lower: "parse_ip (low s) = parse_ip s"
proof -
  have nil: "low [] = []" "low t = [] \<longleftrightarrow> t = []" for t by (simp_all add: to_ascii_lowercase_def)
  show ?thesis
    by (cases "read_ipv4_addr s"; cases "read_ipv6_addr s")
      (auto simp: parse_ip_def read_ipv4_lower read_ipv6_lower nil split: list.splits)
qed

section \<open>Only public targets\<close>

lemma fold_dedup:
  "set (fold (\<lambda>ip resolved. if ip \<in> set resolved then resolved else resolved @ [ip]) ips acc) = set acc \<union> set ips"
  "distinct acc \<Longrightarrow> distinct (fold (\<lambda>ip resolved. if ip \<in> set resolved then resolved else resolved @ [ip]) ips acc)"
  by (induction ips arbitrary: acc) auto

lemma resolve_ok:
  assumes "\<not> allow_private_web_targets env" and "resolve_public_web_host env lookup url = Inr ips"
  shows "wu_scheme url \<in> {''http'', ''https''} \<and> ips \<noteq> [] \<and> distinct ips \<and> (\<forall>ip \<in> set ips. public_ip ip)
    \<and> (\<exists>host. wu_host url = Some host \<and>
         (ips = [the (parse_ip (trim_brackets host))]
          \<or> (\<exists>addresses. lookup (trim_brackets host) (unwrap_or 80 (wu_port url)) = Inr addresses \<and> set ips = set addresses)))"
proof -
  obtain u where valid: "validate_public_web_url env url = Inr u"
    using assms by (auto simp: resolve_public_web_host_def split: sum.splits)
  then have scheme: "wu_scheme url \<in> {''http'', ''https''}"
    by (auto simp: validate_public_web_url_def split: if_splits)
  obtain host where host: "wu_host url = Some host"
    using valid assms(1) by (auto simp: validate_public_web_url_def split: if_splits option.splits)
  have given: "public_ip ip" if "parse_ip (trim_brackets host) = Some ip" for ip
    using valid assms(1) host that
    by (auto simp: validate_public_web_url_def Let_def parse_ip_lower blocked_iff_not_public split: if_splits)
  show ?thesis
  proof (cases "parse_ip (trim_brackets host)")
    case (Some ip)
    then have "ips = [ip]" using assms host valid by (simp add: resolve_public_web_host_def)
    with Some given scheme host show ?thesis by simp
  next
    case None
    then obtain addresses where "lookup (trim_brackets host) (unwrap_or 80 (wu_port url)) = Inr addresses"
      and "addresses \<noteq> []" and "\<not> list_ex ip_is_blocked addresses"
      and "ips = fold (\<lambda>ip resolved. if ip \<in> set resolved then resolved else resolved @ [ip]) addresses []"
      using assms host valid by (auto simp: resolve_public_web_host_def split: sum.splits if_splits)
    with scheme host show ?thesis
      using fold_dedup(1) [of addresses "[]"] fold_dedup(2) [of "[]" addresses]
      by (auto simp: list_ex_iff blocked_iff_not_public)
  qed
qed

text \<open>Which addresses a page is fetched from. Unless private targets are allowed by the environment, a target
  that is accepted has the scheme http or https, and the addresses it is fetched from are not empty,
  without repetition and all public: an IPv4 address, also when it is written as a mapped IPv6 address, in
  none of the thirteen local, private, shared, documentation, benchmarking and reserved blocks, and an
  IPv6 address that is not unspecified, loopback, unique local, link local, for documentation, 6to4 or
  NAT64. They are the address written in the URL, in whatever spelling, or all that the name service
  answers. Teredo addresses, which embed an IPv4 address too, count as public.\<close>

lemma resolved_targets_public:
  assumes "\<not> allow_private_web_targets env" and "resolve_public_web_host env lookup url = Inr ips"
  shows "wu_scheme url \<in> {''http'', ''https''} \<and> ips \<noteq> [] \<and> distinct ips \<and> (\<forall>ip \<in> set ips. public_ip ip)
    \<and> (\<exists>host. wu_host url = Some host \<and>
         (ips = [the (parse_ip (trim_brackets host))]
          \<or> (\<exists>addresses. lookup (trim_brackets host) (unwrap_or 80 (wu_port url)) = Inr addresses \<and> set ips = set addresses)))
    \<and> public_ip (V6 [0x2001, 0, g2, g3, g4, g5, g6, g7])"
  using resolve_ok [OF assms] by (simp add: public_ip_def normalize_mapped_ip_def ipv4_mapped_def word_le_nat_alt)

end
