(* ===== verification/Tool_Definitions.thy ===== *)
theory Tool_Definitions
  imports Tool_Ownership
begin

text \<open>
  The tool declarations of \<^verbatim>\<open>crates/proxy/src/tools/definitions.rs\<close> (with the parameter text of
  \<^verbatim>\<open>crates/core/src/catalog.rs\<close>): the Chat-shaped JSON of every built-in tool, and the lists of
  declarations the two transports publish for a set of enabled tools. The lemmas show that the tables,
  the declarations and the ownership of a call agree: a published tool is one whose call the proxy or
  the Codex client executes.
\<close>

section \<open>Tables\<close>

definition CODEX_NATIVE_TOOL_IDS :: "string list" where
  "CODEX_NATIVE_TOOL_IDS = [''apply_patch'']"

definition DEFAULT_CONFIGURABLE_HOSTED_TOOL_IDS :: "string list" where
  "DEFAULT_CONFIGURABLE_HOSTED_TOOL_IDS =
     [''list_directory'', ''read_file_range'', ''workspace_search'', ''vision_analyze'']"

definition NATIVE_HOSTABLE_HOSTED_TOOL_IDS :: "string list" where
  "NATIVE_HOSTABLE_HOSTED_TOOL_IDS = [''image_gen'']"

definition ty :: "string \<Rightarrow> json" where
  "ty t = jobj [(''type'', JStr t)]"

section \<open>Declarations\<close>

definition APPLY_PATCH_TOOL_PARAMETER_DESCRIPTION :: string where
  \<open>APPLY_PATCH_TOOL_PARAMETER_DESCRIPTION =
     (''One complete raw apply_patch document. The first line must be *** Begin Patch and the final line must be ''
      @ ''*** End Patch; nothing before or after them. '')
     @ (''Every data line inside a hunk starts with exactly one prefix: space for unchanged context, + for an ''
      @ ''added line, - for a removed line. An empty context line is written as a single space character. '')
     @ (''Operation headers are exactly *** Add File: path, *** Update File: path, *** Delete File: path. Bare --- ''
      @ ''a/file and +++ b/file headers are invalid. '')
     @ (''For *** Update File: path, write hunks in top-to-bottom file order, each starting with a line containing ''
      @ ''only @@. Do not write unified range headers such as @@ -1,3 +1,3 @@; they are not accepted. '')
     @ (''Text after @@ (for example @@ fn main) is a forward anchor: the hunk is matched after that line, so it ''
      @ ''must appear above the lines you change. Omit it unless you are sure. '')
     @ (''Keep one to three context lines per hunk. Context must match the file byte for byte, including trailing ''
      @ ''spaces and tabs; without context only the first matching line is changed. '')
     @ (''For *** Add File: path, each content line is + followed by the content. For *** Delete File: path, write ''
      @ ''no hunks. '')
     @ (''A rename needs at least one hunk: write *** Move to: new_path right below the update header and add a ''
      @ ''hunk with only context lines. '')
     @ (''Never let Add File or Move to target a path that already exists; it is overwritten silently. Delete the ''
      @ ''target first or choose another path. '')
     @ (''Every write rewrites the file with LF endings and a trailing newline, so a CRLF file or a file with no ''
      @ ''final newline changes on disk. '')
     @ ''Use workspace-relative paths; never absolute paths, and never step outside the workspace with ../.''\<close>

definition apply_patch_definition :: json where
  \<open>apply_patch_definition = jobj
     [(''type'', JStr ''function''),
      (''function'', jobj
       [(''name'', JStr ''apply_patch''),
        (''description'', JStr (''Apply one native Codex patch. The patch must be one complete raw apply_patch document, not markdown or ''
          @ ''prose. It must start with *** Begin Patch and end with *** End Patch. It can add, update, delete, or ''
          @ ''move files.'')),
        (''parameters'', jobj
         [(''type'', JStr ''object''),
          (''properties'', jobj
           [(''patch'', jobj [(''type'', JStr ''string''), (''description'', JStr APPLY_PATCH_TOOL_PARAMETER_DESCRIPTION)])]),
          (''required'', JArr [JStr ''patch'']),
          (''additionalProperties'', JBool False)])])]\<close>

definition web_search_definition :: json where
  \<open>web_search_definition = jobj
     [(''type'', JStr ''function''),
      (''function'', jobj
       [(''name'', JStr ''web_search''),
        (''description'', JStr (''Search the web for public information or open selected public HTTP/HTTPS pages. mode="search" returns ''
          @ ''candidates and automatically opens top candidates into compact evidence; answer from evidence when ''
          @ ''sufficient instead of repeating search. Use mode="open" with open_urls or open_ids only when a specific ''
          @ ''page needs more content. Local/private network targets and binary resources are blocked by default.'')),
        (''parameters'', jobj
         [(''type'', JStr ''object''),
          (''properties'', jobj
           [(''mode'', jobj [(''type'', JStr ''string''), (''enum'', JArr [JStr ''search'', JStr ''open''])]),
            (''type'', jobj [(''type'', JStr ''string''), (''enum'', JArr [JStr ''search'', JStr ''open''])]),
            (''query'', ty ''string''),
            (''q'', ty ''string''),
            (''queries'', jobj [(''type'', JStr ''array''), (''items'', ty ''string'')]),
            (''search_query'', jobj
             [(''oneOf'', JArr [ty ''string'', jobj [(''type'', JStr ''array''), (''items'', ty ''string'')]])]),
            (''url'', ty ''string''),
            (''urls'', jobj [(''type'', JStr ''array''), (''items'', ty ''string'')]),
            (''open_urls'', jobj [(''type'', JStr ''array''), (''items'', ty ''string'')]),
            (''id'', ty ''string''),
            (''ids'', jobj [(''type'', JStr ''array''), (''items'', ty ''string'')]),
            (''open_ids'', jobj [(''type'', JStr ''array''), (''items'', ty ''string'')]),
            (''max_results'', ty ''integer'')]),
          (''additionalProperties'', JBool True)])])]\<close>

definition list_directory_definition :: json where
  \<open>list_directory_definition = jobj
     [(''type'', JStr ''function''),
      (''function'', jobj
       [(''name'', JStr ''list_directory''),
        (''description'', JStr (''List files and folders in a compact, paginated page. Results use paths relative to the requested root. ''
          @ ''When has_more=true, call again with next_cursor. Metadata is omitted by default because names and paths ''
          @ ''are usually sufficient.'')),
        (''parameters'', jobj
         [(''type'', JStr ''object''),
          (''properties'', jobj
           [(''path'', ty ''string''),
            (''depth'', ty ''integer''),
            (''include_files'', ty ''boolean''),
            (''include_dirs'', ty ''boolean''),
            (''max_entries'', jobj
             [(''type'', JStr ''integer''),
              (''description'', JStr ''Page size. Defaults to 60 and is capped for stable output.'')]),
            (''cursor'', jobj
             [(''type'', JStr ''integer''),
              (''description'', JStr ''Use next_cursor from the preceding page. Omit for the first page.'')]),
            (''include_metadata'', jobj
             [(''type'', JStr ''boolean''),
              (''description'', JStr ''Include size, modified time, and readonly state only when needed.'')])]),
          (''additionalProperties'', JBool False)])])]\<close>

definition read_file_range_definition :: json where
  \<open>read_file_range_definition = jobj
     [(''type'', JStr ''function''),
      (''function'', jobj
       [(''name'', JStr ''read_file_range''),
        (''description'', JStr (''Read a bounded UTF-8 text page from a file. Use start/end/count for a range or tail_lines for the end. ''
          @ ''whole_file=true is paginated rather than unbounded: follow next_start/next_column until truncated=false. ''
          @ ''start_column is a zero-based character offset for continuing one very long line. Returned credential ''
          @ ''values are redacted. Do not use this tool for images, media, archives, PDFs, executables, or other ''
          @ ''binary files.'')),
        (''parameters'', jobj
         [(''type'', JStr ''object''),
          (''properties'', jobj
           [(''path'', jobj [(''type'', JStr ''string''), (''description'', JStr ''Text file path to read.'')]),
            (''whole_file'', jobj
             [(''type'', JStr ''boolean''),
              (''description'', JStr ''Start reading from the beginning and continue with next_start/next_column when the page is truncated.'')]),
            (''start'', jobj
             [(''type'', JStr ''integer''),
              (''description'', JStr (''1-based start line. Negative values count backward from EOF, so -50 starts 50 lines from the end. ''
                @ ''Negative indexes require a bounded full-file line count.''))]),
            (''end'', jobj
             [(''type'', JStr ''integer''),
              (''description'', JStr (''1-based inclusive end line. Negative values count backward from EOF. Prefer tail_lines when only the end ''
                @ ''of a file is needed.''))]),
            (''count'', jobj
             [(''type'', JStr ''integer''),
              (''description'', JStr ''Maximum number of lines to read from start.'')]),
            (''tail_lines'', jobj [(''type'', JStr ''integer''), (''description'', JStr ''Read the last N lines of the file.'')]),
            (''start_column'', jobj
             [(''type'', JStr ''integer''),
              (''description'', JStr ''Zero-based character offset for continuing a long line from next_column.'')])]),
          (''required'', JArr [JStr ''path'']),
          (''additionalProperties'', JBool False)])])]\<close>

definition workspace_search_definition :: json where
  \<open>workspace_search_definition = jobj
     [(''type'', JStr ''function''),
      (''function'', jobj
       [(''name'', JStr ''workspace_search''),
        (''description'', JStr (''Search UTF-8 workspace text and return compact relative-path snippets. Literal search is the default; ''
          @ ''set regex=true only for Rust regex syntax. Broad searches are source-first, then include hidden or large ''
          @ ''directories by default while result/file/byte budgets remain. Inspect truncation_reasons and narrow ''
          @ ''path/include/query when a budget is reached. Returned credential values are redacted.'')),
        (''parameters'', jobj
         [(''type'', JStr ''object''),
          (''properties'', jobj
           [(''query'', jobj
             [(''type'', JStr ''string''),
              (''description'', JStr (''Literal text by default. When regex=true, this must be a Rust regex pattern, not JavaScript/PCRE-only ''
                @ ''syntax.''))]),
            (''path'', jobj [(''type'', JStr ''string''), (''description'', JStr ''Directory or file path to search.'')]),
            (''include'', jobj
             [(''description'', JStr ''Glob-style file filters such as "src/*.rs" or ["*.ts", "*.tsx"].''),
              (''oneOf'', JArr [ty ''string'', jobj [(''type'', JStr ''array''), (''items'', ty ''string'')]])]),
            (''exclude'', jobj
             [(''description'', JStr ''Glob-style path filters to skip, such as "target" or ["node_modules", "*.lock"].''),
              (''oneOf'', JArr [ty ''string'', jobj [(''type'', JStr ''array''), (''items'', ty ''string'')]])]),
            (''max_results'', ty ''integer''),
            (''context_lines'', ty ''integer''),
            (''case_sensitive'', ty ''boolean''),
            (''regex'', jobj
             [(''type'', JStr ''boolean''),
              (''description'', JStr (''Treat query as a Rust regex pattern. Supports common regex syntax and inline flags like (?i), but not ''
                @ ''JavaScript-style lookaround or backreferences.''))]),
            (''include_deferred_dirs'', jobj
             [(''type'', JStr ''boolean''),
              (''description'', JStr (''When true (default), source-first search continues into low-priority directories such as .git, target, ''
                @ ''or very large directories until result/file limits are reached. Set false only when broad search speed ''
                @ ''matters more than exhaustive coverage.''))])]),
          (''required'', JArr [JStr ''query'']),
          (''additionalProperties'', JBool False)])])]\<close>

definition vision_analyze_definition :: json where
  \<open>vision_analyze_definition = jobj
     [(''type'', JStr ''function''),
      (''function'', jobj
       [(''name'', JStr ''vision_analyze''),
        (''description'', JStr (''Use the configured image understanding backend to inspect one or more images. Pass the user's image ''
          @ ''reference directly in image/images when needed: HTTP(S) URL, data:image URL, file:// URL, workspace ''
          @ ''path, or local absolute path when full file access is active. If the current user message already ''
          @ ''contains an input_image, the tool can use it without extra file work. Do not convert local files to ''
          @ ''base64, copy files into the workspace, or use shell as an image transport. The tool reads local files, ''
          @ ''checks permissions, sends the image to the configured backend, and returns the extracted text.'')),
        (''parameters'', jobj
         [(''type'', JStr ''object''),
          (''properties'', jobj
           [(''prompt'', jobj
             [(''type'', JStr ''string''),
              (''description'', JStr (''Exact question or instruction to send to the visual model. If omitted, the tool uses the latest user ''
                @ ''request text when available.''))]),
            (''image'', jobj
             [(''type'', JStr ''string''),
              (''description'', JStr (''Single image reference. Use the user-provided HTTP(S), data:image, file://, workspace path, or allowed ''
                @ ''local absolute path unchanged.''))]),
            (''images'', jobj
             [(''type'', JStr ''array''),
              (''items'', ty ''string''),
              (''description'', JStr ''Multiple image references. Pass user-provided references unchanged.'')])]),
          (''additionalProperties'', JBool False)])])]\<close>

definition image_gen_definition :: json where
  \<open>image_gen_definition = jobj
     [(''type'', JStr ''function''),
      (''function'', jobj
       [(''name'', JStr ''image_gen''),
        (''description'', JStr (''Use the separately configured image generation backend to generate images directly from text. Use this ''
          @ ''tool for image generation; do not read image files, skill files, or generated images first. If the ''
          @ ''generation endpoint, model, or API key is not configured correctly, this tool returns a structured ''
          @ ''unavailable error. It returns image URLs or local file paths and images_markdown for direct display; ''
          @ ''generated base64 is saved to disk and never returned inline.'')),
        (''parameters'', jobj
         [(''type'', JStr ''object''),
          (''properties'', jobj
           [(''prompt'', jobj
             [(''type'', JStr ''string''),
              (''description'', JStr ''Exact image generation prompt to send.'')]),
            (''size'', jobj
             [(''type'', JStr ''string''),
              (''description'', JStr ''Image size such as 1024x1024. Defaults to 1024x1024.'')]),
            (''n'', jobj
             [(''type'', JStr ''integer''),
              (''description'', JStr ''Number of images to request. Defaults to 1.'')]),
            (''quality'', jobj
             [(''type'', JStr ''string''),
              (''description'', JStr ''Optional provider-specific quality value.'')]),
            (''background'', jobj
             [(''type'', JStr ''string''),
              (''description'', JStr ''Optional provider-specific background value.'')]),
            (''output_format'', jobj
             [(''type'', JStr ''string''),
              (''description'', JStr ''Optional output format such as png, jpeg, or webp.'')]),
            (''response_format'', jobj
             [(''type'', JStr ''string''),
              (''description'', JStr ''Optional provider-specific response format such as url or b64_json.'')]),
            (''style'', jobj
             [(''type'', JStr ''string''),
              (''description'', JStr ''Optional provider-specific style value.'')])]),
          (''required'', JArr [JStr ''prompt'']),
          (''additionalProperties'', JBool False)])])]\<close>

definition codex_native_tool_definition :: "string \<Rightarrow> json option" where
  "codex_native_tool_definition i = (if i = ''apply_patch'' then Some apply_patch_definition else None)"

definition codeseex_system_hosted_tool_definition :: "string \<Rightarrow> json option" where
  "codeseex_system_hosted_tool_definition i = (if i = ''web_search'' then Some web_search_definition else None)"

definition codeseex_configurable_hosted_tool_definition :: "string \<Rightarrow> json option" where
  "codeseex_configurable_hosted_tool_definition i =
     (if i = ''list_directory'' then Some list_directory_definition
      else if i = ''read_file_range'' then Some read_file_range_definition
      else if i = ''workspace_search'' then Some workspace_search_definition
      else if i = ''vision_analyze'' then Some vision_analyze_definition
      else if i = ''image_gen'' then Some image_gen_definition
      else None)"

definition tool_definition :: "string \<Rightarrow> json option" where
  "tool_definition i =
     or_else (codex_native_tool_definition i)
       (or_else (codeseex_system_hosted_tool_definition i) (codeseex_configurable_hosted_tool_definition i))"

definition enabled_set :: "string list \<Rightarrow> string set" where
  "enabled_set enabled_ids = set (map canonical_tool_id enabled_ids)"

definition configurable_tool_enabled :: "string \<Rightarrow> string set \<Rightarrow> bool" where
  "configurable_tool_enabled i enabled = (i \<in> enabled)"

definition upstream_tool_definitions_with_local_web_search :: "string list \<Rightarrow> bool \<Rightarrow> json list" where
  "upstream_tool_definitions_with_local_web_search enabled_ids include_local_web_search =
     List.map_filter tool_definition
       (CODEX_NATIVE_TOOL_IDS
        @ filter (\<lambda>_. include_local_web_search) CODESEEX_SYSTEM_HOSTED_TOOL_IDS
        @ filter (\<lambda>i. configurable_tool_enabled i (enabled_set enabled_ids)) CODESEEX_CONFIGURABLE_HOSTED_TOOL_IDS)"

definition is_native_hostable_hosted_tool :: "string \<Rightarrow> bool" where
  "is_native_hostable_hosted_tool name = (canonical_tool_id name \<in> set NATIVE_HOSTABLE_HOSTED_TOOL_IDS)"

definition native_hostable_hosted_tool_definitions :: "string list \<Rightarrow> json list" where
  "native_hostable_hosted_tool_definitions enabled_ids =
     List.map_filter codeseex_configurable_hosted_tool_definition
       (filter (\<lambda>i. configurable_tool_enabled i (enabled_set enabled_ids)) NATIVE_HOSTABLE_HOSTED_TOOL_IDS)"

definition local_web_search_tool_definition :: json where
  "local_web_search_tool_definition = the (codeseex_system_hosted_tool_definition ''web_search'')"

definition default_enabled_tool_ids :: "string list" where
  "default_enabled_tool_ids = DEFAULT_CONFIGURABLE_HOSTED_TOOL_IDS"

section \<open>The declarations agree with the tables\<close>

lemmas definition_bodies =
  apply_patch_definition_def web_search_definition_def list_directory_definition_def
  read_file_range_definition_def workspace_search_definition_def vision_analyze_definition_def
  image_gen_definition_def

lemmas tool_tables =
  CODEX_NATIVE_TOOL_IDS_def CODESEEX_SYSTEM_HOSTED_TOOL_IDS_def CODESEEX_CONFIGURABLE_HOSTED_TOOL_IDS_def
  DEFAULT_CONFIGURABLE_HOSTED_TOOL_IDS_def NATIVE_HOSTABLE_HOSTED_TOOL_IDS_def

text \<open>A function declaration in the Chat shape, named \<open>i\<close> and with an object schema.\<close>

definition chat_function :: "string \<Rightarrow> json \<Rightarrow> bool" where
  "chat_function i d =
     (get_str d ''type'' = Some ''function''
      \<and> Option.bind (jpointer d [''function'', ''name'']) as_str = Some i
      \<and> Option.bind (jpointer d [''function'', ''parameters'', ''type'']) as_str = Some ''object'')"

lemma declared_functions [simp]:
  "chat_function ''apply_patch'' apply_patch_definition"
  "chat_function ''web_search'' web_search_definition"
  "chat_function ''list_directory'' list_directory_definition"
  "chat_function ''read_file_range'' read_file_range_definition"
  "chat_function ''workspace_search'' workspace_search_definition"
  "chat_function ''vision_analyze'' vision_analyze_definition"
  "chat_function ''image_gen'' image_gen_definition"
  by (simp_all add: chat_function_def definition_bodies)

lemma tool_definition_named: "tool_definition i = Some d \<Longrightarrow> chat_function i d"
  by (auto simp: tool_definition_def codex_native_tool_definition_def
      codeseex_system_hosted_tool_definition_def codeseex_configurable_hosted_tool_definition_def
      split: if_splits)

lemma hosted_definition_named:
  "codeseex_configurable_hosted_tool_definition i = Some d \<Longrightarrow> chat_function i d"
  by (auto simp: codeseex_configurable_hosted_tool_definition_def split: if_splits)

lemma tool_id_defined:
  "tool_definition i \<noteq> None \<longleftrightarrow>
     i \<in> set (CODEX_NATIVE_TOOL_IDS @ CODESEEX_SYSTEM_HOSTED_TOOL_IDS @ CODESEEX_CONFIGURABLE_HOSTED_TOOL_IDS)"
  by (auto simp: tool_definition_def codex_native_tool_definition_def tool_tables
      codeseex_system_hosted_tool_definition_def codeseex_configurable_hosted_tool_definition_def)

text \<open>
  Every declaration published to the Chat upstream is a function with an object schema whose calls have
  an executor: it is Codex's own tool, or the web search, or a configurable tool that is enabled, unless
  the client declared the name itself.
\<close>

lemma published_tools_executable:
  assumes "d \<in> set (upstream_tool_definitions_with_local_web_search enabled_ids web)"
  shows "\<exists>i. chat_function i d \<and>
     (resolve_tool_owner i community {} = CodexNative ApplyPatch
      \<or> resolve_tool_owner i community {} \<in> {CodeseexHosted WebSearch, CodeseexHosted BuiltIn}
          \<and> is_code_tool_executable i enabled_ids community)"
proof -
  obtain i where i: "tool_definition i = Some d"
    and src: "i \<in> set CODEX_NATIVE_TOOL_IDS \<or> i \<in> set CODESEEX_SYSTEM_HOSTED_TOOL_IDS
      \<or> i \<in> set CODESEEX_CONFIGURABLE_HOSTED_TOOL_IDS \<and> i \<in> enabled_set enabled_ids"
    using assms
    by (auto simp: upstream_tool_definitions_with_local_web_search_def in_map_filter configurable_tool_enabled_def)
  have fixed: "canonical_tool_id i = i" if "i \<in> set CODESEEX_CONFIGURABLE_HOSTED_TOOL_IDS"
    using that by (auto simp: canonical_tool_id_def tool_tables)
  have "resolve_tool_owner i community {} = CodexNative ApplyPatch
      \<or> resolve_tool_owner i community {} \<in> {CodeseexHosted WebSearch, CodeseexHosted BuiltIn}
          \<and> is_code_tool_executable i enabled_ids community"
    using src
  proof (elim disjE conjE)
    assume "i \<in> set CODESEEX_CONFIGURABLE_HOSTED_TOOL_IDS" and "i \<in> enabled_set enabled_ids"
    with fixed show ?thesis
      by (auto simp: resolve_tool_owner_def is_known_code_tool_def is_code_tool_executable_def
          is_executable_tool_enabled_def enabled_set_def)
  qed (auto simp: tool_tables resolve_tool_owner_def is_native_apply_patch_tool_def is_web_search_tool_def
      canonical_tool_name_def is_code_tool_executable_def)
  with tool_definition_named [OF i] show ?thesis by blast
qed

text \<open>
  The native transport publishes exactly the enabled tools that it can host, and a call by any alias of a
  published tool is recognised as hosted.
\<close>

lemma native_hosted_published:
  "d \<in> set (native_hostable_hosted_tool_definitions enabled_ids) \<longleftrightarrow>
     d = image_gen_definition \<and> (\<exists>i \<in> set enabled_ids. is_native_hostable_hosted_tool i)"
  by (force simp: native_hostable_hosted_tool_definitions_def in_map_filter tool_tables enabled_set_def
      configurable_tool_enabled_def is_native_hostable_hosted_tool_def
      codeseex_configurable_hosted_tool_definition_def)

end
