(* ===== verification/Native_Tools.thy ===== *)
theory Native_Tools
  imports Tool_Definitions
begin

text \<open>
  The tool protocol of the native Responses transport, the first half of
  \<^verbatim>\<open>crates/proxy/src/native_responses.rs\<close>: reading the tool calls of a provider output group and
  appending their results, planning the tool list of a request, folding repeated grouped declarations
  into the first one, completing the parameter schemas the provider insists on, and rewriting the
  response identity. A \<^verbatim>\<open>Result<_, String>\<close> is a sum whose left side is the message.
\<close>

section \<open>Updating a value in place\<close>

text \<open>\<^verbatim>\<open>get_mut(key)\<close> and \<^verbatim>\<open>as_array_mut()\<close> followed by a write through the reference.\<close>

fun kv_update :: "'k \<Rightarrow> ('v \<Rightarrow> 'v) \<Rightarrow> ('k \<times> 'v) list \<Rightarrow> ('k \<times> 'v) list" where
  "kv_update k f [] = []"
| "kv_update k f ((a, b) # m) = (if a = k then (a, f b) # m else (a, b) # kv_update k f m)"

fun jmodify :: "string \<Rightarrow> (json \<Rightarrow> json) \<Rightarrow> json \<Rightarrow> json" where
  "jmodify k f (JObj m) = JObj (kv_update k f m)"
| "jmodify k f j = j"

fun arr_modify :: "(json list \<Rightarrow> json list) \<Rightarrow> json \<Rightarrow> json" where
  "arr_modify f (JArr xs) = JArr (f xs)"
| "arr_modify f j = j"

definition get_arr :: "json \<Rightarrow> string \<Rightarrow> json list option" where
  "get_arr v k = Option.bind (jget v k) as_array"

lemma map_of_kv_update [map_simps]: "map_of (kv_update k f m) = (map_of m)(k := map_option f (map_of m k))"
  by (induction k f m rule: kv_update.induct) auto

lemma kv_update_id: "map_of m k = Some v \<Longrightarrow> f v = v \<Longrightarrow> kv_update k f m = m"
  by (induction k f m rule: kv_update.induct) (auto split: if_splits)

lemma kv_update_None: "map_of m k = None \<Longrightarrow> kv_update k f m = m"
  by (induction k f m rule: kv_update.induct) (auto split: if_splits)

lemma kv_update_const: "map_of m k = Some v \<Longrightarrow> kv_update k (\<lambda>_. f v) m = kv_update k f m"
  by (induction k f m rule: kv_update.induct) (auto split: if_splits)

lemma kv_update_keys [simp]: "map fst (kv_update k f m) = map fst m"
  by (induction k f m rule: kv_update.induct) auto

text \<open>On an ordered map the update is the insertion of the new value.\<close>

lemma kv_update_om_insert: "om_ok m \<Longrightarrow> map_of m k = Some v \<Longrightarrow> kv_update k f m = om_insert k (f v) m"
proof (induction k f m rule: kv_update.induct)
  case (2 k f a b m)
  then have "a < k" if "a \<noteq> k" using that by (fastforce dest: map_of_SomeD)
  with 2 show ?case by auto
qed simp

lemma jget_jmodify [simp]:
  "jget (jmodify k f j) k' = (if k' = k then map_option f (jget j k) else jget j k')"
  by (cases j) (auto simp: map_simps)

lemma jmodify_id: "jget j k = Some v \<Longrightarrow> f v = v \<Longrightarrow> jmodify k f j = j"
  by (cases j) (auto simp: kv_update_id)

lemma jmodify_None: "jget j k = None \<Longrightarrow> jmodify k f j = j"
  by (cases j) (auto simp: kv_update_None)

lemma get_str_jmodify:
  "get_str (jmodify k f j) k' = (if k' = k then Option.bind (map_option f (jget j k)) as_str else get_str j k')"
  by (simp add: get_str_def)

lemma as_array_Some: "as_array v = Some xs \<longleftrightarrow> v = JArr xs"
  by (cases v) auto

lemma get_arr_Some: "get_arr v k = Some xs \<longleftrightarrow> jget v k = Some (JArr xs)"
  by (auto simp: get_arr_def bind_eq_Some_conv as_array_Some)

lemma as_array_arr_modify [simp]: "as_array (arr_modify f v) = map_option f (as_array v)"
  by (cases v) auto

lemma get_arr_jmodify:
  "get_arr (jmodify k (arr_modify f) j) k' = (if k' = k then map_option f (get_arr j k) else get_arr j k')"
  by (cases "jget j k") (auto simp: get_arr_def)


section \<open>Tool call groups\<close>

datatype native_tool_call_kind = FunctionCall | CustomCall

record native_tool_call =
  nc_call_id :: string
  nc_name :: string
  nc_input :: string
  nc_kind :: native_tool_call_kind

record native_tool_call_group =
  ng_provider_output :: "json list"
  ng_calls :: "native_tool_call list"

definition nonblank_str :: "json \<Rightarrow> string \<Rightarrow> string option" where
  "nonblank_str item k = opt_filter (\<lambda>v. \<not> blank v) (get_str item k)"

definition native_tool_call_from_output_item :: "json \<Rightarrow> string + native_tool_call option" where
  "native_tool_call_from_output_item item =
     (let item_type = unwrap_or [] (get_str item ''type'');
          shape = (if item_type = ''function_call'' then Some (FunctionCall, ''arguments'')
                   else if item_type = ''custom_tool_call'' then Some (CustomCall, ''input'')
                   else None)
      in case shape of
           None \<Rightarrow> Inr None
         | Some (kind, input_field) \<Rightarrow>
             (case nonblank_str item ''call_id'' of
                None \<Rightarrow> Inl ''Native tool call did not contain a call identifier.''
              | Some call_id \<Rightarrow>
                  (case nonblank_str item ''name'' of
                     None \<Rightarrow> Inl ''Native tool call did not contain a tool name.''
                   | Some name \<Rightarrow>
                       if kind = CustomCall \<and> name \<noteq> ''apply_patch'' then Inr None
                       else if get_str item ''status'' \<noteq> Some ''completed''
                       then Inl ''Native tool call was not completed in the provider response.''
                       else (case get_str item input_field of
                               None \<Rightarrow> Inl ''Native tool call did not contain its verified input field.''
                             | Some input \<Rightarrow>
                                 Inr (Some \<lparr>nc_call_id = call_id, nc_name = name, nc_input = input, nc_kind = kind\<rparr>)))))"

fun group_calls :: "string set \<Rightarrow> native_tool_call list \<Rightarrow> json list \<Rightarrow> string + native_tool_call list" where
  "group_calls call_ids calls [] = Inr calls"
| "group_calls call_ids calls (item # items) =
     (case native_tool_call_from_output_item item of
        Inl e \<Rightarrow> Inl e
      | Inr None \<Rightarrow> group_calls call_ids calls items
      | Inr (Some call) \<Rightarrow>
          if nc_call_id call \<in> call_ids
          then Inl ''Native Responses returned duplicate tool call identifiers in one output group.''
          else group_calls (insert (nc_call_id call) call_ids) (calls @ [call]) items)"

definition native_tool_call_group_from_response :: "json \<Rightarrow> string + native_tool_call_group option" where
  "native_tool_call_group_from_response response =
     (case get_arr response ''output'' of
        None \<Rightarrow> Inl ''Native Responses response did not contain an output array.''
      | Some output \<Rightarrow>
          (case group_calls {} [] output of
             Inl e \<Rightarrow> Inl e
           | Inr calls \<Rightarrow>
               if calls = [] then Inr None
               else Inr (Some \<lparr>ng_provider_output = output, ng_calls = calls\<rparr>)))"

definition output_type :: "native_tool_call_kind \<Rightarrow> string" where
  "output_type kind = (case kind of FunctionCall \<Rightarrow> ''function_call_output'' | CustomCall \<Rightarrow> ''custom_tool_call_output'')"

definition output_matches :: "native_tool_call \<Rightarrow> json \<Rightarrow> bool" where
  "output_matches call out =
     (get_str out ''type'' = Some (output_type (nc_kind call))
      \<and> get_str out ''call_id'' = Some (nc_call_id call) \<and> get_str out ''output'' \<noteq> None)"

definition append_complete_native_tool_group ::
  "json list \<Rightarrow> native_tool_call_group \<Rightarrow> json list \<Rightarrow> string + json list" where
  "append_complete_native_tool_group authoritative_input grp output_items =
     (if length output_items \<noteq> length (ng_calls grp)
      then Inl ''Native tool continuation requires one result for every call in the provider output group.''
      else if \<not> list_all (\<lambda>(call, out). output_matches call out) (zip (ng_calls grp) output_items)
      then Inl ''Native tool continuation output did not exactly match the provider call group.''
      else Inr (authoritative_input @ ng_provider_output grp @ output_items))"

definition native_tool_output_item :: "native_tool_call \<Rightarrow> string \<Rightarrow> json" where
  "native_tool_output_item call output =
     jobj [(''type'', JStr (output_type (nc_kind call))), (''call_id'', JStr (nc_call_id call)),
       (''output'', JStr output)]"

section \<open>Planning the tool list\<close>

record native_tool_plan =
  np_tools :: "json list"
  np_requires_local_execution :: bool
  np_requires_hosted_web_search :: bool

definition ptr_str :: "json \<Rightarrow> string list \<Rightarrow> string option" where
  "ptr_str v ks = Option.bind (jpointer v ks) as_str"

definition tool_name :: "json \<Rightarrow> string option" where
  "tool_name d = opt_filter (\<lambda>v. \<not> blank v)
     (or_else (ptr_str d [''function'', ''name'']) (get_str d ''name''))"

definition is_provider_native_grouped_type :: "string \<Rightarrow> bool" where
  "is_provider_native_grouped_type t = (t = ''namespace'' \<or> t = ''tool_search'')"

definition empty_object_schema :: json where
  "empty_object_schema = jobj [(''type'', JStr ''object''), (''properties'', jobj [])]"

definition native_definition_from_chat :: "json \<Rightarrow> string \<Rightarrow> json" where
  "native_definition_from_chat d name =
     (let declared_type = unwrap_or [] (get_str d ''type'')
      in if is_provider_native_grouped_type declared_type then d
         else if declared_type = ''custom'' then d
         else if name = ''apply_patch'' then
           jobj [(''type'', JStr ''custom''), (''name'', JStr ''apply_patch''),
             (''description'', JStr (unwrap_or ''Apply one complete native apply_patch document.''
                (Option.bind (or_else (jpointer d [''function'', ''description'']) (jget d ''description'')) as_str)))]
         else if declared_type = ''web_search'' \<or> declared_type = ''web_search_2025_08_26''
         then jobj [(''type'', JStr ''web_search'')]
         else if declared_type \<noteq> ''function'' then d
         else
           (let function = unwrap_or d (jget d ''function'');
                description = unwrap_or []
                  (Option.bind (or_else (jget function ''description'') (jget d ''description'')) as_str);
                parameters = unwrap_or empty_object_schema
                  (or_else (jget function ''parameters'') (or_else (jget function ''input_schema'')
                     (or_else (jget d ''parameters'') (jget d ''input_schema''))));
                native = jobj [(''type'', JStr ''function''), (''name'', JStr name),
                  (''description'', JStr description), (''parameters'', parameters)]
            in case Option.bind (or_else (jget function ''strict'') (jget d ''strict'')) as_bool of
                 None \<Rightarrow> native
               | Some strict \<Rightarrow> jinsert ''strict'' (JBool strict) native))"

definition is_provider_web_search_definition :: "json \<Rightarrow> bool" where
  "is_provider_web_search_definition d =
     is_some_and (\<lambda>t. t = ''web_search'' \<or> t = ''web_search_2025_08_26'') (get_str d ''type'')"

definition provider_native_identity :: "json \<Rightarrow> string option" where
  "provider_native_identity d =
     (if get_str d ''type'' = Some ''tool_search'' then Some ''tool_search'' else None)"

definition tool_identity :: "json \<Rightarrow> string" where
  "tool_identity d = unwrap_or [] (or_else (get_str d ''name'')
     (or_else (ptr_str d [''function'', ''name'']) (provider_native_identity d)))"

record plan_state =
  ps_tools :: "json list"
  ps_names :: "string set"
  ps_local :: bool
  ps_hosted_search :: bool
  ps_saw_local :: bool
  ps_saw_provider :: bool

definition publish :: "json \<Rightarrow> plan_state \<Rightarrow> plan_state" where
  "publish native s =
     (if tool_identity native \<in> ps_names s then s
      else s\<lparr>ps_tools := ps_tools s @ [native], ps_names := insert (tool_identity native) (ps_names s)\<rparr>)"

definition plan_client :: "string set \<Rightarrow> json \<Rightarrow> plan_state \<Rightarrow> plan_state" where
  "plan_client hosted_names d s =
     (if is_provider_web_search_definition d then s\<lparr>ps_saw_provider := True\<rparr>
      else case or_else (tool_name d) (provider_native_identity d) of
             None \<Rightarrow> s\<lparr>ps_tools := ps_tools s @ [d]\<rparr>
           | Some name \<Rightarrow>
               if name \<in> hosted_names then s\<lparr>ps_local := True\<rparr>
               else let s = (if name = ''web_search'' \<or> name = ''web_search_preview''
                             then s\<lparr>ps_saw_local := True, ps_local := True, ps_hosted_search := True\<rparr>
                             else s)
                    in publish (native_definition_from_chat d name) s)"

definition plan_hosted :: "json \<Rightarrow> plan_state \<Rightarrow> plan_state" where
  "plan_hosted d s =
     (case tool_name d of
        None \<Rightarrow> s
      | Some name \<Rightarrow> publish (native_definition_from_chat d name) (s\<lparr>ps_local := True\<rparr>))"

definition plan_web_search :: "plan_state \<Rightarrow> plan_state" where
  "plan_web_search s =
     (if ps_saw_provider s \<or> ps_saw_local s
      then let s = s\<lparr>ps_local := True, ps_hosted_search := True\<rparr>
           in if \<not> ps_saw_local s \<and> ''web_search'' \<notin> ps_names s
              then s\<lparr>ps_tools := ps_tools s @ [native_definition_from_chat local_web_search_tool_definition ''web_search''],
                     ps_names := insert ''web_search'' (ps_names s)\<rparr>
              else s
      else s)"

definition plan_start :: plan_state where
  "plan_start = \<lparr>ps_tools = [], ps_names = {}, ps_local = False, ps_hosted_search = False,
     ps_saw_local = False, ps_saw_provider = False\<rparr>"

definition plan_native_tools :: "json list \<Rightarrow> json list \<Rightarrow> native_tool_plan" where
  "plan_native_tools chat_tool_definitions native_hosted_definitions =
     (let hosted_names = set (List.map_filter tool_name native_hosted_definitions);
          s = fold (plan_client hosted_names) chat_tool_definitions plan_start;
          s = fold plan_hosted native_hosted_definitions s;
          s = plan_web_search s
      in \<lparr>np_tools = ps_tools s, np_requires_local_execution = ps_local s,
          np_requires_hosted_web_search = ps_hosted_search s\<rparr>)"

section \<open>Grouped declarations\<close>

definition grouped_declaration_name :: "json \<Rightarrow> string option" where
  "grouped_declaration_name entry =
     (case get_arr entry ''tools'' of
        None \<Rightarrow> None
      | Some nested \<Rightarrow>
          if nested = [] then None
          else opt_filter (\<lambda>n. n \<noteq> []) (map_option trim (get_str entry ''name'')))"

datatype grouped_tool_site = ToolsSite nat | InputSite nat nat

definition grouped_tool_occurrences :: "json \<Rightarrow> (string \<times> grouped_tool_site) list" where
  "grouped_tool_occurrences obj =
     List.map_filter (\<lambda>(index, entry). map_option (\<lambda>n. (n, ToolsSite index)) (grouped_declaration_name entry))
       (enumerate 0 (unwrap_or [] (get_arr obj ''tools'')))
     @ concat (map (\<lambda>(item_index, item).
         List.map_filter (\<lambda>(tool_index, entry).
             map_option (\<lambda>n. (n, InputSite item_index tool_index)) (grouped_declaration_name entry))
           (enumerate 0 (unwrap_or [] (get_arr item ''tools''))))
       (enumerate 0 (unwrap_or [] (get_arr obj ''input''))))"

definition get_nth :: "'a list \<Rightarrow> nat \<Rightarrow> 'a option" where
  "get_nth xs i = (if i < length xs then Some (xs ! i) else None)"

definition grouped_tool_entry :: "json \<Rightarrow> grouped_tool_site \<Rightarrow> json option" where
  "grouped_tool_entry obj site =
     (case site of
        ToolsSite index \<Rightarrow> Option.bind (get_arr obj ''tools'') (\<lambda>ts. get_nth ts index)
      | InputSite item tool \<Rightarrow>
          Option.bind (Option.bind (get_arr obj ''input'') (\<lambda>is. get_nth is item))
            (\<lambda>it. Option.bind (get_arr it ''tools'') (\<lambda>ts. get_nth ts tool)))"

definition nested_tools_of :: "json \<Rightarrow> grouped_tool_site \<Rightarrow> json list" where
  "nested_tools_of obj site =
     unwrap_or [] (Option.bind (grouped_tool_entry obj site) (\<lambda>e. get_arr e ''tools''))"

definition nested_tool_identity :: "ext_lib \<Rightarrow> json \<Rightarrow> string" where
  "nested_tool_identity L entry =
     (case opt_filter (\<lambda>n. n \<noteq> []) (map_option trim (get_str entry ''name'')) of
        Some name \<Rightarrow> unwrap_or ''function'' (get_str entry ''type'') @ [CHR 0x1F] @ name
      | None \<Rightarrow> json_to_string L entry)"

fun merge_new :: "ext_lib \<Rightarrow> string set \<Rightarrow> json list \<Rightarrow> json list \<Rightarrow> json list" where
  "merge_new L seen canonical [] = canonical"
| "merge_new L seen canonical (entry # additional) =
     (if nested_tool_identity L entry \<in> seen then merge_new L seen canonical additional
      else merge_new L (insert (nested_tool_identity L entry) seen) (canonical @ [entry]) additional)"

definition merge_nested_tools :: "ext_lib \<Rightarrow> json list \<Rightarrow> json list \<Rightarrow> json list" where
  "merge_nested_tools L canonical additional =
     merge_new L (set (map (nested_tool_identity L) canonical)) canonical additional"

definition modify_nth :: "nat \<Rightarrow> ('a \<Rightarrow> 'a) \<Rightarrow> 'a list \<Rightarrow> 'a list" where
  "modify_nth i f xs = (if i < length xs then xs[i := f (xs ! i)] else xs)"

definition set_grouped_tools :: "json list \<Rightarrow> grouped_tool_site \<Rightarrow> json \<Rightarrow> json" where
  "set_grouped_tools tools site obj =
     (let put = jinsert ''tools'' (JArr tools)
      in case site of
           ToolsSite index \<Rightarrow> jmodify ''tools'' (arr_modify (modify_nth index put)) obj
         | InputSite item tool \<Rightarrow>
             jmodify ''input'' (arr_modify (modify_nth item
               (jmodify ''tools'' (arr_modify (modify_nth tool put))))) obj)"

text \<open>\<^verbatim>\<open>Vec::remove\<close> behind its bounds check, deepest index first.\<close>

definition remove_nth :: "nat \<Rightarrow> 'a list \<Rightarrow> 'a list" where
  "remove_nth i xs = (if i < length xs then take i xs @ drop (Suc i) xs else xs)"

definition remove_all_nth :: "nat list \<Rightarrow> 'a list \<Rightarrow> 'a list" where
  "remove_all_nth indexes xs = fold remove_nth (rev indexes) xs"

definition remove_grouped_entries :: "nat list \<Rightarrow> (nat \<times> nat list) list \<Rightarrow> json \<Rightarrow> json" where
  "remove_grouped_entries top_level per_item obj =
     (let obj = (if top_level \<noteq> [] then jmodify ''tools'' (arr_modify (remove_all_nth top_level)) obj else obj)
      in fold (\<lambda>(item_index, nested_indexes).
           jmodify ''input'' (arr_modify (modify_nth item_index
             (jmodify ''tools'' (arr_modify (remove_all_nth (sort nested_indexes)))))))
         per_item obj)"

record reconcile_state =
  rc_first_site :: "(string \<times> grouped_tool_site) list"
  rc_merged_tools :: "(string \<times> json list) list"
  rc_merged_names :: "string list"
  rc_repeated :: "grouped_tool_site list"

definition reconcile_start :: reconcile_state where
  "reconcile_start = \<lparr>rc_first_site = [], rc_merged_tools = [], rc_merged_names = [], rc_repeated = []\<rparr>"

definition reconcile_step :: "ext_lib \<Rightarrow> json \<Rightarrow> string \<times> grouped_tool_site \<Rightarrow> reconcile_state \<Rightarrow> reconcile_state" where
  "reconcile_step L obj occ s =
     (let (name, site) = occ
      in case map_of (rc_merged_tools s) name of
           Some canonical \<Rightarrow>
             s\<lparr>rc_merged_tools := om_insert name (merge_nested_tools L canonical (nested_tools_of obj site)) (rc_merged_tools s),
               rc_merged_names := (if name \<in> set (rc_merged_names s) then rc_merged_names s else rc_merged_names s @ [name]),
               rc_repeated := rc_repeated s @ [site]\<rparr>
         | None \<Rightarrow>
             s\<lparr>rc_first_site := om_insert name site (rc_first_site s),
               rc_merged_tools := om_insert name (nested_tools_of obj site) (rc_merged_tools s)\<rparr>)"

definition fold_merged :: "reconcile_state \<Rightarrow> string \<Rightarrow> json \<Rightarrow> json" where
  "fold_merged s name obj =
     (case (map_of (rc_first_site s) name, map_of (rc_merged_tools s) name) of
        (Some site, Some tools) \<Rightarrow> set_grouped_tools tools site obj
      | _ \<Rightarrow> obj)"

fun split_site :: "grouped_tool_site \<Rightarrow> nat list \<times> (nat \<times> nat list) list \<Rightarrow> nat list \<times> (nat \<times> nat list) list" where
  "split_site (ToolsSite index) (top_level, per_item) = (top_level @ [index], per_item)"
| "split_site (InputSite item tool) (top_level, per_item) =
     (top_level, om_insert item (unwrap_or [] (map_of per_item item) @ [tool]) per_item)"

definition reconcile_grouped_tool_namespaces :: "ext_lib \<Rightarrow> json \<Rightarrow> json \<times> string list" where
  "reconcile_grouped_tool_namespaces L payload =
     (case as_object payload of
        None \<Rightarrow> (payload, [])
      | Some _ \<Rightarrow>
          let occurrences = grouped_tool_occurrences payload
          in if length occurrences < 2 then (payload, [])
             else let s = fold (reconcile_step L payload) occurrences reconcile_start
                  in if rc_merged_names s = [] then (payload, [])
                     else let obj = fold (fold_merged s) (rc_merged_names s) payload;
                              (top_level, per_item) = fold split_site (rc_repeated s) ([], [])
                          in (remove_grouped_entries top_level per_item obj, rc_merged_names s))"

section \<open>Parameter schemas\<close>

definition repair_object_schema :: "json \<Rightarrow> json \<times> bool" where
  "repair_object_schema schema =
     (case as_object schema of
        None \<Rightarrow> (empty_object_schema, True)
      | Some m \<Rightarrow>
          if is_some_and (\<lambda>v. v \<noteq> JNull) (map_of m ''type'') then (schema, False)
          else (jinsert ''type'' (JStr ''object'') schema, True))"

definition repair_schema_at :: "string \<Rightarrow> json \<Rightarrow> json \<times> bool" where
  "repair_schema_at k tool =
     (case jget tool k of
        None \<Rightarrow> (tool, False)
      | Some schema \<Rightarrow> (jmodify k (\<lambda>s. fst (repair_object_schema s)) tool, snd (repair_object_schema schema)))"

text \<open>The body of the loop for one declaration, after its nested tools.\<close>

definition repair_function :: "json \<Rightarrow> json \<times> string list" where
  "repair_function tool =
     (if get_str tool ''type'' \<noteq> Some ''function'' then (tool, [])
      else
        let has_parameters = (jget tool ''parameters'' \<noteq> None);
            has_input_schema = (jget tool ''input_schema'' \<noteq> None);
            (tool, c1) = (if has_parameters then repair_schema_at ''parameters'' tool else (tool, False));
            (tool, c2) = (if has_input_schema then repair_schema_at ''input_schema'' tool else (tool, False));
            (tool, c3) = (if \<not> has_parameters \<and> \<not> has_input_schema
                          then (jinsert ''parameters'' empty_object_schema tool, True) else (tool, False))
        in (tool, if c1 \<or> c2 \<or> c3
                  then (case get_str tool ''name'' of None \<Rightarrow> [] | Some name \<Rightarrow> [name]) else []))"

lemma size_map_of: "map_of m k = Some v \<Longrightarrow> size v < size (JObj m)"
proof -
  assume "map_of m k = Some v"
  then have "(k, v) \<in> set m" by (rule map_of_SomeD)
  then show ?thesis
    by (induction m) (auto simp: less_Suc_eq)
qed

lemma get_arr_size: "get_arr v k = Some xs \<Longrightarrow> x \<in> set xs \<Longrightarrow> size x < size v"
proof -
  assume a: "get_arr v k = Some xs" and x: "x \<in> set xs"
  from a obtain m where v: "v = JObj m" and m: "map_of m k = Some (JArr xs)"
    by (cases v) (auto simp: get_arr_Some)
  from x have "size x < size (JArr xs)" by (induction xs) auto
  with size_map_of [OF m] v show ?thesis by simp
qed

function repair_tool_declaration :: "json \<Rightarrow> json \<times> string list" where
  "repair_tool_declaration tool =
     (let (tool, names) =
        (case get_arr tool ''tools'' of
           None \<Rightarrow> (tool, [])
         | Some nested \<Rightarrow>
             let rs = map repair_tool_declaration nested
             in (jmodify ''tools'' (\<lambda>_. JArr (map fst rs)) tool, concat (map snd rs)));
          (tool, own) = repair_function tool
      in (tool, names @ own))"
  by pat_completeness auto
termination
  by (relation "measure size") (auto dest: get_arr_size)

declare repair_tool_declaration.simps [simp del]

definition repair_tool_declarations :: "json \<Rightarrow> json \<times> string list" where
  "repair_tool_declarations holder =
     (case get_arr holder ''tools'' of
        None \<Rightarrow> (holder, [])
      | Some tools \<Rightarrow>
          let rs = map repair_tool_declaration tools
          in (jmodify ''tools'' (\<lambda>_. JArr (map fst rs)) holder, concat (map snd rs)))"

definition repair_provider_tool_schemas :: "json \<Rightarrow> json \<times> string list" where
  "repair_provider_tool_schemas payload =
     (let (payload, n1) = repair_tool_declarations payload;
          (payload, n2) =
            (case get_arr payload ''input'' of
               None \<Rightarrow> (payload, [])
             | Some items \<Rightarrow>
                 let rs = map repair_tool_declarations items
                 in (jmodify ''input'' (\<lambda>_. JArr (map fst rs)) payload, concat (map snd rs)))
      in (payload, sort (remdups (n1 @ n2))))"

section \<open>Response identity\<close>

definition rewrite_provider_response_identity :: "json \<Rightarrow> string \<Rightarrow> string \<Rightarrow> json \<times> bool" where
  "rewrite_provider_response_identity payload provider_response_id local_response_id =
     (if provider_response_id = local_response_id then (payload, False)
      else
        let new = (\<lambda>_. JStr local_response_id);
            (payload, c1) = (if get_str payload ''id'' = Some provider_response_id
                             then (jmodify ''id'' new payload, True) else (payload, False));
            (payload, c2) = (if ptr_str payload [''response'', ''id''] = Some provider_response_id
                             then (jmodify ''response'' (jmodify ''id'' new) payload, True) else (payload, False));
            (payload, c3) = (if get_str payload ''response_id'' = Some provider_response_id
                             then (jmodify ''response_id'' new payload, True) else (payload, False))
        in (payload, c1 \<or> c2 \<or> c3))"

section \<open>A group is answered as a whole\<close>

definition read_call :: "json \<Rightarrow> native_tool_call option" where
  "read_call item = (case native_tool_call_from_output_item item of Inr (Some c) \<Rightarrow> Some c | _ \<Rightarrow> None)"

lemma group_calls_read:
  assumes "group_calls ids calls items = Inr cs" and "ids = nc_call_id ` set calls"
    and "distinct (map nc_call_id calls)"
  shows "cs = calls @ List.map_filter read_call items \<and> distinct (map nc_call_id cs)"
  using assms
proof (induction items arbitrary: ids calls)
  case (Cons item items)
  consider (skip) "native_tool_call_from_output_item item = Inr None"
    | (call) c where "native_tool_call_from_output_item item = Inr (Some c)"
    using Cons.prems(1) by (auto split: sum.splits option.splits)
  then show ?case
  proof cases
    case skip
    then have "read_call item = None" by (simp add: read_call_def)
    with skip Cons show ?thesis by (simp add: List.map_filter_simps)
  next
    case (call c)
    then have "read_call item = Some c" by (simp add: read_call_def)
    then have eq: "calls @ List.map_filter read_call (item # items) = (calls @ [c]) @ List.map_filter read_call items"
      by (simp add: List.map_filter_simps)
    have "group_calls (insert (nc_call_id c) ids) (calls @ [c]) items = Inr cs" and "nc_call_id c \<notin> ids"
      using call Cons.prems(1) by (auto split: if_splits)
    then show ?thesis unfolding eq using Cons.prems by (intro Cons.IH) auto
  qed
qed (simp add: List.map_filter_simps)

lemma native_tool_output_item_matches [simp]: "output_matches call (native_tool_output_item call txt)"
  by (simp add: output_matches_def native_tool_output_item_def)

lemma append_complete_iff:
  "append_complete_native_tool_group inp g outs = Inr r \<longleftrightarrow>
     list_all2 output_matches (ng_calls g) outs \<and> r = inp @ ng_provider_output g @ outs"
  by (auto simp: append_complete_native_tool_group_def list_all2_iff list_all_iff split: if_splits)

lemma output_matches_call_ids:
  "list_all2 output_matches calls outs \<Longrightarrow>
     map (\<lambda>out. get_str out ''call_id'') outs = map (\<lambda>c. Some (nc_call_id c)) calls"
  by (induction rule: list_all2_induct) (auto simp: output_matches_def)

text \<open>C23: the calls of a provider output group are read in their order, with distinct identifiers. A
  continuation is accepted exactly when it brings one matching output per call in that order, and is then
  the input, the untouched provider output and the outputs, so that every call is answered once; the
  outputs the coordinator builds itself are always accepted.\<close>

theorem native_group_continuation:
  assumes "native_tool_call_group_from_response response = Inr (Some g)"
  shows "get_arr response ''output'' = Some (ng_provider_output g)
     \<and> ng_calls g = List.map_filter read_call (ng_provider_output g) \<and> ng_calls g \<noteq> []
     \<and> distinct (map nc_call_id (ng_calls g))
     \<and> (\<forall>outs r. append_complete_native_tool_group inp g outs = Inr r \<longleftrightarrow>
          list_all2 output_matches (ng_calls g) outs \<and> r = inp @ ng_provider_output g @ outs)
     \<and> (\<forall>outs r. append_complete_native_tool_group inp g outs = Inr r \<longrightarrow>
          map (\<lambda>out. get_str out ''call_id'') outs = map (\<lambda>c. Some (nc_call_id c)) (ng_calls g))
     \<and> (\<forall>texts. length texts = length (ng_calls g) \<longrightarrow>
          append_complete_native_tool_group inp g (map2 native_tool_output_item (ng_calls g) texts)
            = Inr (inp @ ng_provider_output g @ map2 native_tool_output_item (ng_calls g) texts))"
proof -
  from assms obtain out where "get_arr response ''output'' = Some out"
    and "group_calls {} [] out = Inr (ng_calls g)" and "ng_calls g \<noteq> []" and "ng_provider_output g = out"
    by (auto simp: native_tool_call_group_from_response_def split: option.splits sum.splits if_splits)
  moreover have "list_all2 output_matches calls (map2 native_tool_output_item calls texts)"
    if "length texts = length calls" for calls texts
    using that by (induction calls texts rule: list_induct2') auto
  ultimately show ?thesis
    using group_calls_read [of "{}" "[]" out] by (auto simp: append_complete_iff output_matches_call_ids)
qed

section \<open>Repaired schemas\<close>

text \<open>What the provider requires of a declaration, and of every declaration nested in it.\<close>

definition schema_complete :: "json \<Rightarrow> bool" where
  "schema_complete schema = is_some_and (\<lambda>v. v \<noteq> JNull) (jget schema ''type'')"

definition function_complete :: "json \<Rightarrow> bool" where
  "function_complete tool =
     (get_str tool ''type'' = Some ''function'' \<longrightarrow>
        (jget tool ''parameters'' \<noteq> None \<or> jget tool ''input_schema'' \<noteq> None)
        \<and> (\<forall>s. jget tool ''parameters'' = Some s \<longrightarrow> schema_complete s)
        \<and> (\<forall>s. jget tool ''input_schema'' = Some s \<longrightarrow> schema_complete s))"

function declaration_complete :: "json \<Rightarrow> bool" where
  "declaration_complete tool =
     (function_complete tool \<and>
      (case get_arr tool ''tools'' of None \<Rightarrow> True | Some nested \<Rightarrow> list_all declaration_complete nested))"
  by pat_completeness auto
termination
  by (relation "measure size") (auto dest: get_arr_size)

declare declaration_complete.simps [simp del]

definition declarations_complete :: "json \<Rightarrow> bool" where
  "declarations_complete holder = list_all declaration_complete (unwrap_or [] (get_arr holder ''tools''))"

definition payload_complete :: "json \<Rightarrow> bool" where
  "payload_complete payload =
     (declarations_complete payload \<and> list_all declarations_complete (unwrap_or [] (get_arr payload ''input'')))"

lemma schema_complete_obj: "schema_complete s \<Longrightarrow> as_object s \<noteq> None"
  by (cases s) (auto simp: schema_complete_def)

lemma repair_object_schema_complete [simp]: "schema_complete (fst (repair_object_schema s))"
  by (cases s) (auto simp: repair_object_schema_def schema_complete_def empty_object_schema_def map_simps)

lemma repair_object_schema_id: "schema_complete s \<Longrightarrow> repair_object_schema s = (s, False)"
  by (cases s) (auto simp: repair_object_schema_def schema_complete_def)

lemma repair_function_complete: "function_complete (fst (repair_function tool))"
proof -
  have "get_str tool ''type'' = Some ''function'' \<Longrightarrow> \<exists>m. tool = JObj m"
    by (cases tool) (auto simp: get_str_def)
  then show ?thesis
    by (auto simp: repair_function_def repair_schema_at_def function_complete_def get_str_def Let_def
        empty_object_schema_def schema_complete_def split: option.splits)
      (auto simp: schema_complete_def [symmetric])
qed

lemma repair_function_id: "function_complete tool \<Longrightarrow> repair_function tool = (tool, [])"
  by (auto simp: repair_function_def function_complete_def repair_schema_at_def Let_def repair_object_schema_id
      jmodify_id split: option.splits)

lemma repair_function_tools [simp]: "get_arr (fst (repair_function tool)) ''tools'' = get_arr tool ''tools''"
  by (cases tool) (auto simp: repair_function_def repair_schema_at_def get_arr_def Let_def map_simps split: option.splits)

lemma function_complete_tools [simp]: "function_complete (jmodify ''tools'' f tool) = function_complete tool"
  by (simp add: function_complete_def get_str_def)

lemma repairs_nothing:
  assumes "\<forall>x \<in> set xs. f x = (x, [])"
  shows "map (\<lambda>x. fst (f x)) xs = xs" and "concat (map (\<lambda>x. snd (f x)) xs) = []"
  using assms by (auto intro: map_idI)

lemma repair_tool_declaration_complete: "declaration_complete (fst (repair_tool_declaration tool))"
proof (induction tool rule: repair_tool_declaration.induct)
  case (1 tool)
  show ?case
  proof (cases "get_arr tool ''tools''")
    case None
    then show ?thesis
      by (simp add: repair_tool_declaration.simps [of tool] declaration_complete.simps repair_function_complete case_prod_beta)
  next
    case (Some nested)
    let ?rs = "map repair_tool_declaration nested"
    let ?tool = "jmodify ''tools'' (\<lambda>_. JArr (map fst ?rs)) tool"
    have "get_arr ?tool ''tools'' = Some (map fst ?rs)" using Some by (auto simp: get_arr_def bind_eq_Some_conv)
    moreover have "list_all declaration_complete (map fst ?rs)"
      using 1 Some by (auto simp: list_all_iff)
    ultimately have "declaration_complete (fst (repair_function ?tool))"
      by (subst declaration_complete.simps) (simp add: repair_function_complete)
    then show ?thesis using Some by (simp add: repair_tool_declaration.simps [of tool] case_prod_beta Let_def)
  qed
qed

lemma repair_tool_declaration_id: "declaration_complete tool \<Longrightarrow> repair_tool_declaration tool = (tool, [])"
proof (induction tool rule: repair_tool_declaration.induct)
  case (1 tool)
  then have own: "repair_function tool = (tool, [])"
    by (subst (asm) (2) declaration_complete.simps) (simp add: repair_function_id)
  show ?case
  proof (cases "get_arr tool ''tools''")
    case None
    then show ?thesis by (simp add: repair_tool_declaration.simps [of tool] own)
  next
    case (Some nested)
    with 1 have "\<forall>n \<in> set nested. repair_tool_declaration n = (n, [])"
      by (subst (asm) (2) declaration_complete.simps) (auto simp: list_all_iff)
    note repairs_nothing [OF this]
    moreover have "jmodify ''tools'' (\<lambda>_. JArr nested) tool = tool"
      using Some by (auto simp: get_arr_Some intro: jmodify_id)
    ultimately show ?thesis using Some
      by (simp add: repair_tool_declaration.simps [of tool] own Let_def comp_def)
  qed
qed

lemma repair_tool_declarations_complete: "declarations_complete (fst (repair_tool_declarations holder))"
  by (cases "get_arr holder ''tools''")
    (auto simp: repair_tool_declarations_def declarations_complete_def get_arr_def Let_def list_all_iff
      bind_eq_Some_conv repair_tool_declaration_complete)

lemma repair_tool_declarations_id:
  assumes "declarations_complete holder"
  shows "repair_tool_declarations holder = (holder, [])"
proof (cases "get_arr holder ''tools''")
  case (Some tools)
  with assms have "\<forall>n \<in> set tools. repair_tool_declaration n = (n, [])"
    by (auto simp: declarations_complete_def list_all_iff repair_tool_declaration_id)
  note repairs_nothing [OF this]
  moreover have "jmodify ''tools'' (\<lambda>_. JArr tools) holder = holder"
    using Some by (auto simp: get_arr_Some intro: jmodify_id)
  ultimately show ?thesis using Some by (simp add: repair_tool_declarations_def Let_def comp_def)
qed (simp add: repair_tool_declarations_def)

lemma repair_tool_declarations_input [simp]:
  "get_arr (fst (repair_tool_declarations holder)) ''input'' = get_arr holder ''input''"
  by (auto simp: repair_tool_declarations_def get_arr_def Let_def split: option.splits)

lemma declarations_complete_input [simp]:
  "declarations_complete (jmodify ''input'' f holder) = declarations_complete holder"
  by (simp add: declarations_complete_def get_arr_def)

lemma repair_complete: "payload_complete (fst (repair_provider_tool_schemas payload))"
proof (cases "get_arr payload ''input''")
  case None
  then show ?thesis
    by (simp add: repair_provider_tool_schemas_def payload_complete_def case_prod_beta repair_tool_declarations_complete)
next
  case (Some items)
  then have "get_arr (jmodify ''input'' (\<lambda>_. JArr xs) (fst (repair_tool_declarations payload))) ''input'' = Some xs" for xs
    using repair_tool_declarations_input [of payload] by (auto simp: get_arr_def bind_eq_Some_conv)
  with Some show ?thesis
    by (simp add: repair_provider_tool_schemas_def payload_complete_def case_prod_beta Let_def list_all_iff
        repair_tool_declarations_complete)
qed

lemma repair_complete_id:
  assumes "payload_complete payload"
  shows "repair_provider_tool_schemas payload = (payload, [])"
proof (cases "get_arr payload ''input''")
  case None
  with assms show ?thesis
    by (simp add: repair_provider_tool_schemas_def payload_complete_def repair_tool_declarations_id)
next
  case (Some items)
  with assms have "\<forall>n \<in> set items. repair_tool_declarations n = (n, [])"
    by (auto simp: payload_complete_def list_all_iff repair_tool_declarations_id)
  note repairs_nothing [OF this]
  moreover have "jmodify ''input'' (\<lambda>_. JArr items) payload = payload"
    using Some by (auto simp: get_arr_Some intro: jmodify_id)
  ultimately show ?thesis using Some assms
    by (simp add: repair_provider_tool_schemas_def payload_complete_def repair_tool_declarations_id Let_def comp_def
        del: concat_eq_Nil_conv)
qed

text \<open>After the schema repair every function declaration of the request, at any depth of grouping and
  in the tools of this turn as in the replayed ones, carries a parameter schema with a type; a request that
  already has them is forwarded unchanged, so the repair is idempotent.\<close>

theorem schemas_repaired:
  "payload_complete (fst (repair_provider_tool_schemas payload))
   \<and> (payload_complete payload \<longrightarrow> repair_provider_tool_schemas payload = (payload, []))
   \<and> repair_provider_tool_schemas (fst (repair_provider_tool_schemas payload))
       = (fst (repair_provider_tool_schemas payload), [])"
  using repair_complete repair_complete_id by blast

section \<open>The rewritten identity\<close>

text \<open>The three fields that may carry the response identity.\<close>

definition identities :: "json \<Rightarrow> string option list" where
  "identities payload =
     [get_str payload ''id'', ptr_str payload [''response'', ''id''], get_str payload ''response_id'']"

lemma ptr_str_response_id: "ptr_str payload [''response'', ''id''] = Option.bind (jget payload ''response'') (\<lambda>r. get_str r ''id'')"
  by (cases "jget payload ''response''"; cases "jget (the (jget payload ''response'')) ''id''")
    (simp_all add: ptr_str_def get_str_def)

lemma rename_field:
  "get_str (if get_str p k = Some a then jmodify k (\<lambda>_. JStr b) p else p) k' =
     (if k' = k then map_option (\<lambda>v. if v = a then b else v) (get_str p k) else get_str p k')"
  by (cases "get_str p k"; cases "jget p k") (auto simp: get_str_def)

lemma identity_rewritten:
  assumes "provider \<noteq> local"
  shows "identities (fst (rewrite_provider_response_identity payload provider local))
           = map (map_option (\<lambda>v. if v = provider then local else v)) (identities payload)"
proof -
  let ?new = "\<lambda>_. JStr local"
  define p1 where "p1 = (if get_str payload ''id'' = Some provider then jmodify ''id'' ?new payload else payload)"
  define p2 where "p2 = (if ptr_str p1 [''response'', ''id''] = Some provider
                 then jmodify ''response'' (jmodify ''id'' ?new) p1 else p1)"
  define p3 where "p3 = (if get_str p2 ''response_id'' = Some provider then jmodify ''response_id'' ?new p2 else p2)"
  have p3: "fst (rewrite_provider_response_identity payload provider local) = p3"
    using assms by (simp add: rewrite_provider_response_identity_def Let_def p1_def p2_def p3_def)
  have 1: "get_str p1 k = (if k = ''id'' then map_option (\<lambda>v. if v = provider then local else v) (get_str payload k)
      else get_str payload k)" "jget p1 ''response'' = jget payload ''response''" for k
    unfolding p1_def rename_field by simp_all
  have 2: "get_str p2 k = get_str p1 k" if "k \<noteq> ''response''" for k
    using that by (simp add: p2_def get_str_jmodify)
  have "Option.bind (jget p2 ''response'') (\<lambda>r. get_str r ''id'') =
      map_option (\<lambda>v. if v = provider then local else v) (ptr_str p1 [''response'', ''id''])"
    by (cases "jget p1 ''response''"; cases "get_str (the (jget p1 ''response'')) ''id''")
      (auto simp: p2_def ptr_str_response_id get_str_def bind_eq_Some_conv)
  moreover have "get_str p3 k = (if k = ''response_id'' then map_option (\<lambda>v. if v = provider then local else v) (get_str p2 k)
      else get_str p2 k)" "jget p3 ''response'' = jget p2 ''response''" for k
    unfolding p3_def rename_field by simp_all
  ultimately show ?thesis using 1 2 by (simp add: identities_def p3 ptr_str_response_id)
qed

lemma identity_flag:
  assumes "provider \<noteq> local"
  shows "snd (rewrite_provider_response_identity payload provider local) \<longleftrightarrow> Some provider \<in> set (identities payload)"
  using assms by (auto simp: rewrite_provider_response_identity_def identities_def Let_def get_str_jmodify ptr_str_response_id)

lemma identity_other_fields:
  "k \<notin> {''id'', ''response'', ''response_id''} \<Longrightarrow>
     jget (fst (rewrite_provider_response_identity payload provider local)) k = jget payload k"
  by (simp add: rewrite_provider_response_identity_def Let_def)

section \<open>The planned tools\<close>

text \<open>The name under which a declaration is planned, and what the planner calls its identity.\<close>

definition planned_name :: "json \<Rightarrow> string option" where
  "planned_name d = or_else (tool_name d) (provider_native_identity d)"

definition names_agree :: "json \<Rightarrow> bool" where
  "names_agree d = (case planned_name d of None \<Rightarrow> True | Some n \<Rightarrow> tool_identity (native_definition_from_chat d n) = n)"

definition plan_inv :: "plan_state \<Rightarrow> bool" where
  "plan_inv s =
     (distinct (map tool_identity (filter (\<lambda>t. planned_name t \<noteq> None) (ps_tools s)))
      \<and> (\<forall>t \<in> set (ps_tools s). planned_name t \<noteq> None \<longrightarrow> tool_identity t \<in> ps_names s)
      \<and> ps_names s \<subseteq> tool_identity ` set (ps_tools s))"

definition plan_le :: "plan_state \<Rightarrow> plan_state \<Rightarrow> bool" where
  "plan_le s s' =
     (set (ps_tools s) \<subseteq> set (ps_tools s') \<and> ps_names s \<subseteq> ps_names s' \<and> (ps_local s \<longrightarrow> ps_local s')
      \<and> (ps_hosted_search s \<longrightarrow> ps_hosted_search s') \<and> (ps_saw_local s \<longrightarrow> ps_saw_local s')
      \<and> (ps_saw_provider s \<longrightarrow> ps_saw_provider s'))"

text \<open>What the planner did with a client declaration, and with a hosted one.\<close>

definition client_planned :: "string set \<Rightarrow> json \<Rightarrow> plan_state \<Rightarrow> bool" where
  "client_planned H d s =
     (if is_provider_web_search_definition d then ps_saw_provider s
      else case planned_name d of
             None \<Rightarrow> d \<in> set (ps_tools s)
           | Some n \<Rightarrow> if n \<in> H then ps_local s
               else tool_identity (native_definition_from_chat d n) \<in> ps_names s
                    \<and> (n \<in> {''web_search'', ''web_search_preview''} \<longrightarrow> ps_saw_local s))"

definition hosted_planned :: "json \<Rightarrow> plan_state \<Rightarrow> bool" where
  "hosted_planned d s =
     (\<forall>n. tool_name d = Some n \<longrightarrow> tool_identity (native_definition_from_chat d n) \<in> ps_names s \<and> ps_local s)"

lemma plan_le_refl [simp]: "plan_le s s"
  by (simp add: plan_le_def)

lemma plan_le_trans [trans]: "plan_le a b \<Longrightarrow> plan_le b c \<Longrightarrow> plan_le a c"
  by (auto simp: plan_le_def)

lemma client_planned_mono: "plan_le s s' \<Longrightarrow> client_planned H d s \<Longrightarrow> client_planned H d s'"
  by (auto simp: client_planned_def plan_le_def split: option.splits if_splits)

lemma hosted_planned_mono: "plan_le s s' \<Longrightarrow> hosted_planned d s \<Longrightarrow> hosted_planned d s'"
  by (auto simp: hosted_planned_def plan_le_def)

lemma plan_inv_cong:
  "ps_tools s = ps_tools s' \<Longrightarrow> ps_names s = ps_names s' \<Longrightarrow> plan_inv s = plan_inv s'"
  by (simp add: plan_inv_def)

lemma publish_inv: "plan_inv s \<Longrightarrow> plan_inv (publish t s)"
  by (auto simp: plan_inv_def publish_def)

lemma publish_le: "plan_le s (publish t s) \<and> tool_identity t \<in> ps_names (publish t s)"
  by (auto simp: plan_le_def publish_def)

lemma plan_client_step:
  assumes "plan_inv s"
  shows "plan_inv (plan_client H d s)" and "plan_le s (plan_client H d s)" and "client_planned H d (plan_client H d s)"
proof -
  note defs = plan_client_def planned_name_def [symmetric] Let_def
  show "plan_inv (plan_client H d s)"
    using assms publish_inv unfolding defs
    by (auto simp: plan_inv_def split: option.splits)
  show "plan_le s (plan_client H d s)"
    unfolding defs by (auto simp: plan_le_def publish_def split: option.splits)
  show "client_planned H d (plan_client H d s)"
    unfolding defs client_planned_def by (auto simp: publish_def split: option.splits)
qed

lemma plan_hosted_step:
  assumes "plan_inv s"
  shows "plan_inv (plan_hosted d s)" and "plan_le s (plan_hosted d s)" and "hosted_planned d (plan_hosted d s)"
  using assms publish_inv [of "s\<lparr>ps_local := True\<rparr>"]
  by (auto simp: plan_hosted_def plan_inv_def hosted_planned_def plan_le_def publish_def split: option.splits)

text \<open>A loop whose step keeps the invariant, only grows the state and handles its element.\<close>

lemma plan_fold:
  assumes "\<And>d s. plan_inv s \<Longrightarrow> plan_inv (f d s) \<and> plan_le s (f d s) \<and> P d (f d s)"
    and "\<And>d s s'. plan_le s s' \<Longrightarrow> P d s \<Longrightarrow> P d s'" and "plan_inv s"
  shows "plan_inv (fold f ds s) \<and> plan_le s (fold f ds s) \<and> (\<forall>d \<in> set ds. P d (fold f ds s))"
  using assms(3)
proof (induction ds arbitrary: s)
  case (Cons d ds)
  have step: "plan_inv (f d s)" "plan_le s (f d s)" "P d (f d s)" using assms(1) [OF Cons.prems, of d] by auto
  from Cons.IH [OF step(1)] step(2,3) assms(2) plan_le_trans show ?case by (metis fold_Cons o_apply set_ConsD)
qed simp

lemma local_search_identity:
  "tool_identity (native_definition_from_chat local_web_search_tool_definition ''web_search'') = ''web_search''"
  by (simp add: local_web_search_tool_definition_def codeseex_system_hosted_tool_definition_def
      native_definition_from_chat_def web_search_definition_def tool_identity_def is_provider_native_grouped_type_def
      Let_def)

lemma plan_web_search_step:
  assumes "plan_inv s"
  shows "plan_inv (plan_web_search s)" and "plan_le s (plan_web_search s)"
  using assms local_search_identity
  by (auto simp: plan_web_search_def plan_inv_def plan_le_def Let_def)

text \<open>Where a planned tool that answers to a hosted name comes from.\<close>

definition hosted_origin :: "string set \<Rightarrow> json set \<Rightarrow> plan_state \<Rightarrow> bool" where
  "hosted_origin H N s =
     (\<forall>t \<in> set (ps_tools s). planned_name t \<noteq> None \<longrightarrow> tool_identity t \<in> H \<longrightarrow> t \<in> N)"

lemma publish_origin:
  "hosted_origin H N s \<Longrightarrow> tool_identity t \<notin> H \<or> t \<in> N \<Longrightarrow> hosted_origin H N (publish t s)"
  by (auto simp: hosted_origin_def publish_def)

lemma hosted_origin_simps [simp]:
  "hosted_origin H N (s\<lparr>ps_local := b\<rparr>) = hosted_origin H N s"
  "hosted_origin H N (s\<lparr>ps_saw_provider := b\<rparr>) = hosted_origin H N s"
  "hosted_origin H N (s\<lparr>ps_saw_local := b\<rparr>) = hosted_origin H N s"
  "hosted_origin H N (s\<lparr>ps_hosted_search := b\<rparr>) = hosted_origin H N s"
  "planned_name d = None \<Longrightarrow> hosted_origin H N (s\<lparr>ps_tools := ps_tools s @ [d]\<rparr>) = hosted_origin H N s"
  by (auto simp: hosted_origin_def)

lemma plan_client_origin:
  assumes "hosted_origin H N s" and "names_agree d"
  shows "hosted_origin H N (plan_client H d s)"
proof (cases "planned_name d")
  case None
  with assms(1) show ?thesis by (simp add: plan_client_def planned_name_def [symmetric])
next
  case (Some n)
  with assms(2) have "tool_identity (native_definition_from_chat d n) = n" by (simp add: names_agree_def)
  with assms(1) Some show ?thesis
    by (simp add: plan_client_def planned_name_def [symmetric] Let_def publish_origin)
qed

lemma plan_hosted_origin:
  "hosted_origin H N s \<Longrightarrow> (\<And>n. tool_name d = Some n \<Longrightarrow> native_definition_from_chat d n \<in> N) \<Longrightarrow>
     hosted_origin H N (plan_hosted d s)"
  by (auto simp: plan_hosted_def publish_origin split: option.splits)

lemma fold_origin:
  assumes "\<And>d s. d \<in> set ds \<Longrightarrow> hosted_origin H N s \<Longrightarrow> hosted_origin H N (f d s)" and "hosted_origin H N s"
  shows "hosted_origin H N (fold f ds s)"
  using assms by (induction ds arbitrary: s) auto

definition hosted_names_of :: "json list \<Rightarrow> string set" where
  "hosted_names_of hosted = set (List.map_filter tool_name hosted)"

definition hosted_natives :: "json list \<Rightarrow> json set" where
  "hosted_natives hosted = {native_definition_from_chat d n | d n. d \<in> set hosted \<and> tool_name d = Some n}"

lemma plan_phases:
  assumes "list_all names_agree (chat @ hosted)"
  defines "H \<equiv> hosted_names_of hosted"
  defines "s2 \<equiv> fold plan_hosted hosted (fold (plan_client H) chat plan_start)"
  shows "plan_inv s2" and "\<forall>d \<in> set chat. client_planned H d s2" and "\<forall>d \<in> set hosted. hosted_planned d s2"
    and "hosted_origin H (hosted_natives hosted) s2"
proof -
  let ?s1 = "fold (plan_client H) chat plan_start"
  have start: "plan_inv plan_start" by (simp add: plan_inv_def plan_start_def)
  have c: "plan_inv ?s1 \<and> plan_le plan_start ?s1 \<and> (\<forall>d \<in> set chat. client_planned H d ?s1)"
    by (rule plan_fold) (use plan_client_step client_planned_mono start in auto)
  have h: "plan_inv s2 \<and> plan_le ?s1 s2 \<and> (\<forall>d \<in> set hosted. hosted_planned d s2)"
    unfolding s2_def by (rule plan_fold) (use plan_hosted_step hosted_planned_mono c in auto)
  from h show "plan_inv s2" and "\<forall>d \<in> set hosted. hosted_planned d s2" by auto
  from c h show "\<forall>d \<in> set chat. client_planned H d s2" using client_planned_mono by blast
  have "hosted_origin H (hosted_natives hosted) ?s1"
    by (rule fold_origin) (use assms(1) in \<open>simp_all add: list_all_iff plan_client_origin\<close>,
        simp add: hosted_origin_def plan_start_def)
  then show "hosted_origin H (hosted_natives hosted) s2" unfolding s2_def
    by (rule fold_origin [rotated]) (rule plan_hosted_origin, auto simp: hosted_natives_def)
qed

lemma plan_search_published:
  assumes "plan_inv s" and "\<forall>d \<in> set hosted. hosted_planned d s" and "list_all names_agree hosted"
    and "hosted_origin (hosted_names_of hosted) N s"
  shows "hosted_origin (hosted_names_of hosted) N (plan_web_search s)"
proof -
  have "''web_search'' \<in> ps_names s" if web: "''web_search'' \<in> hosted_names_of hosted"
  proof -
    obtain d where "d \<in> set hosted" "tool_name d = Some ''web_search''"
      using web unfolding hosted_names_of_def in_map_filter by blast
    with assms(2,3) show ?thesis
      by (force simp: hosted_planned_def list_all_iff names_agree_def planned_name_def)
  qed
  with assms(4) show ?thesis
    by (auto simp: plan_web_search_def hosted_origin_def Let_def local_search_identity)
qed

text \<open>A web search function that the client declared is published under its own name.\<close>

definition search_named :: "plan_state \<Rightarrow> bool" where
  "search_named s = (ps_saw_local s \<longrightarrow> ''web_search'' \<in> ps_names s \<or> ''web_search_preview'' \<in> ps_names s)"

lemma plan_client_search:
  assumes "search_named s" and "names_agree d"
  shows "search_named (plan_client H d s)"
proof (cases "planned_name d")
  case None
  with assms(1) show ?thesis by (simp add: plan_client_def planned_name_def [symmetric] search_named_def)
next
  case (Some n)
  with assms(2) have "tool_identity (native_definition_from_chat d n) = n" by (simp add: names_agree_def)
  with assms(1) Some show ?thesis
    by (auto simp: plan_client_def planned_name_def [symmetric] Let_def publish_def search_named_def)
qed

lemma plan_hosted_search: "search_named s \<Longrightarrow> search_named (plan_hosted d s)"
  by (auto simp: plan_hosted_def publish_def search_named_def split: option.splits)

lemma search_named_phases:
  assumes "list_all names_agree chat"
  shows "search_named (fold plan_hosted hosted (fold (plan_client H) chat plan_start))"
proof -
  have "search_named plan_start" by (simp add: search_named_def plan_start_def)
  moreover have "search_named (fold (plan_client H) chat s)" if "search_named s" for s
    using that assms by (induction chat arbitrary: s) (simp_all add: plan_client_search)
  moreover have "search_named (fold plan_hosted hosted s)" if "search_named s" for s
    using that by (induction hosted arbitrary: s) (simp_all add: plan_hosted_search)
  ultimately show ?thesis by blast
qed

lemma plan_web_search_named:
  assumes "search_named s" and "ps_saw_provider s \<or> ps_saw_local s"
  shows "ps_hosted_search (plan_web_search s)
     \<and> (''web_search'' \<in> ps_names (plan_web_search s) \<or> ''web_search_preview'' \<in> ps_names (plan_web_search s))"
  using assms by (auto simp: plan_web_search_def search_named_def Let_def)

definition plan_end :: "json list \<Rightarrow> json list \<Rightarrow> plan_state" where
  "plan_end chat hosted =
     plan_web_search (fold plan_hosted hosted (fold (plan_client (hosted_names_of hosted)) chat plan_start))"

lemma plan_native_tools_end:
  "np_tools (plan_native_tools chat hosted) = ps_tools (plan_end chat hosted)"
  "np_requires_local_execution (plan_native_tools chat hosted) = ps_local (plan_end chat hosted)"
  "np_requires_hosted_web_search (plan_native_tools chat hosted) = ps_hosted_search (plan_end chat hosted)"
  by (simp_all add: plan_native_tools_def plan_end_def hosted_names_of_def Let_def)

lemma plan_end_inv:
  assumes "list_all names_agree (chat @ hosted)"
  shows "plan_inv (plan_end chat hosted)"
    and "d \<in> set chat \<Longrightarrow> client_planned (hosted_names_of hosted) d (plan_end chat hosted)"
    and "d \<in> set hosted \<Longrightarrow> hosted_planned d (plan_end chat hosted)"
    and "hosted_origin (hosted_names_of hosted) (hosted_natives hosted) (plan_end chat hosted)"
proof -
  note ph = plan_phases [OF assms]
  note step = plan_web_search_step [OF ph(1)]
  show "plan_inv (plan_end chat hosted)" using step by (simp add: plan_end_def)
  show "d \<in> set chat \<Longrightarrow> client_planned (hosted_names_of hosted) d (plan_end chat hosted)"
    using ph(2) client_planned_mono [OF step(2)] by (simp add: plan_end_def)
  show "d \<in> set hosted \<Longrightarrow> hosted_planned d (plan_end chat hosted)"
    using ph(3) hosted_planned_mono [OF step(2)] by (simp add: plan_end_def)
  show "hosted_origin (hosted_names_of hosted) (hosted_natives hosted) (plan_end chat hosted)"
    using plan_search_published [OF ph(1) ph(3) _ ph(4)] assms by (simp add: plan_end_def)
qed

lemma agreed_identity:
  "list_all names_agree ds \<Longrightarrow> d \<in> set ds \<Longrightarrow> planned_name d = Some n \<Longrightarrow>
     tool_identity (native_definition_from_chat d n) = n"
  by (force simp: list_all_iff names_agree_def)

lemma plan_end_hosted:
  assumes "list_all names_agree (chat @ hosted)" and n: "n \<in> hosted_names_of hosted"
  shows "n \<in> ps_names (plan_end chat hosted) \<and> ps_local (plan_end chat hosted)"
proof -
  obtain d where d: "d \<in> set hosted" "tool_name d = Some n"
    using n unfolding hosted_names_of_def in_map_filter by blast
  then have "planned_name d = Some n" by (simp add: planned_name_def)
  with plan_end_inv(3) [OF assms(1) d(1)] agreed_identity [OF assms(1), of d n] d show ?thesis
    by (auto simp: hosted_planned_def)
qed

lemma plan_end_client:
  assumes "list_all names_agree (chat @ hosted)" and "d \<in> set chat" and "\<not> is_provider_web_search_definition d"
  shows "case planned_name d of None \<Rightarrow> d \<in> set (ps_tools (plan_end chat hosted))
         | Some n \<Rightarrow> n \<in> ps_names (plan_end chat hosted)"
proof (cases "planned_name d")
  case None
  with plan_end_inv(2) [OF assms(1,2)] assms(3) show ?thesis by (simp add: client_planned_def)
next
  case (Some n)
  with plan_end_inv(2) [OF assms(1,2)] assms(2,3) agreed_identity [OF assms(1), of d n] plan_end_hosted [OF assms(1), of n]
  show ?thesis by (simp add: client_planned_def split: if_splits)
qed

lemma plan_end_search:
  assumes "list_all names_agree (chat @ hosted)" and "d \<in> set chat"
    and "is_provider_web_search_definition d \<or> planned_name d = Some n \<and> n \<in> {''web_search'', ''web_search_preview''}
         \<and> n \<notin> hosted_names_of hosted"
  shows "ps_hosted_search (plan_end chat hosted)
     \<and> (''web_search'' \<in> ps_names (plan_end chat hosted) \<or> ''web_search_preview'' \<in> ps_names (plan_end chat hosted))"
  unfolding plan_end_def
proof (rule plan_web_search_named)
  let ?s = "fold plan_hosted hosted (fold (plan_client (hosted_names_of hosted)) chat plan_start)"
  show "search_named ?s" using assms(1) by (simp add: search_named_phases)
  have "client_planned (hosted_names_of hosted) d ?s" using plan_phases(2) [OF assms(1)] assms(2) by blast
  with assms(3) show "ps_saw_provider ?s \<or> ps_saw_local ?s" by (auto simp: client_planned_def split: if_splits)
qed


section \<open>Concrete instances\<close>

definition plain_lib :: ext_lib where
  "plain_lib = \<lparr>json_to_string = (\<lambda>_. ''{}''), json_from_str = (\<lambda>_. None), b64_decode_utf8 = (\<lambda>_. None), sha256 = (\<lambda>s. s)\<rparr>"

definition demo_response :: json where
  "demo_response = jobj [(''output'', JArr
     [jobj [(''type'', JStr ''function_call''), (''call_id'', JStr ''c1''), (''name'', JStr ''image_gen''),
        (''status'', JStr ''completed''), (''arguments'', JStr ''{}'')],
      jobj [(''type'', JStr ''message'')]])]"

definition demo_native_call :: native_tool_call where
  "demo_native_call = \<lparr>nc_call_id = ''c1'', nc_name = ''image_gen'', nc_input = ''{}'', nc_kind = FunctionCall\<rparr>"

theorem native_group_continuation_witness:
  "\<exists>g. native_tool_call_group_from_response demo_response = Inr (Some g) \<and> ng_calls g = [demo_native_call]
     \<and> append_complete_native_tool_group [] g [native_tool_output_item demo_native_call ''ok'']
         = Inr (ng_provider_output g @ [native_tool_output_item demo_native_call ''ok''])"
proof -
  obtain g where g: "native_tool_call_group_from_response demo_response = Inr (Some g)" and calls: "ng_calls g = [demo_native_call]"
    by (simp add: native_tool_call_group_from_response_def demo_response_def get_arr_def demo_native_call_def
        native_tool_call_from_output_item_def nonblank_str_def opt_filter_def Let_def blank_def trim_def trim_start_def trim_end_def
        is_whitespace_def ws_chars_def)
  have "append_complete_native_tool_group [] g (map2 native_tool_output_item (ng_calls g) [''ok''])
      = Inr ([] @ ng_provider_output g @ map2 native_tool_output_item (ng_calls g) [''ok''])"
    using native_group_continuation [OF g, of "[]"] calls by (metis length_Cons list.size(3))
  with g calls show ?thesis by auto
qed

definition demo_tools :: json where
  "demo_tools = jobj [(''tools'', JArr [jobj [(''type'', JStr ''function''), (''name'', JStr ''f''),
     (''parameters'', empty_object_schema)]])]"

theorem schemas_repaired_witness: "repair_provider_tool_schemas demo_tools = (demo_tools, [])"
proof -
  have "payload_complete demo_tools"
    by (simp add: payload_complete_def declarations_complete_def demo_tools_def get_arr_def declaration_complete.simps
        function_complete_def schema_complete_def empty_object_schema_def)
  with schemas_repaired [of demo_tools] show ?thesis by simp
qed

definition demo_chat :: "json list" where
  "demo_chat = [jobj [(''type'', JStr ''web_search'')], jobj [(''type'', JStr ''function''), (''name'', JStr ''image_gen'')]]"


end
