(* ===== verification/Namespace_Reconcile.thy ===== *)
theory Namespace_Reconcile
  imports Native_Tools
begin

text \<open>
  Folding repeated grouped declarations into the first one, \<open>reconcile_grouped_tool_namespaces\<close> of
  \<open>Native_Tools\<close>, refines an abstract operation on the list of declared groups: the loop over sites,
  the writes through paths into the request and the removal by index together do nothing but merge the
  groups of equal name. The request is viewed as rows of declarations, row 0 the \<^verbatim>\<open>tools\<close> of this
  turn and row k+1 the \<^verbatim>\<open>tools\<close> of input item k.
\<close>

section \<open>The abstract operation\<close>

definition tools_of :: "json \<Rightarrow> json list" where
  "tools_of v = unwrap_or [] (get_arr v ''tools'')"

definition decl_rows :: "json \<Rightarrow> json list list" where
  "decl_rows obj = tools_of obj # map tools_of (unwrap_or [] (get_arr obj ''input''))"

definition group_view :: "json \<Rightarrow> (string \<times> json list) option" where
  "group_view e = map_option (\<lambda>n. (n, tools_of e)) (grouped_declaration_name e)"

definition declared_groups :: "json \<Rightarrow> (string \<times> json list) list" where
  "declared_groups obj = List.map_filter group_view (concat (decl_rows obj))"

definition add_group :: "ext_lib \<Rightarrow> (string \<times> json list) list \<Rightarrow> string \<times> json list \<Rightarrow> (string \<times> json list) list" where
  "add_group L acc g =
     (if fst g \<in> fst ` set acc
      then map (\<lambda>(m, us). if m = fst g then (m, merge_nested_tools L us (snd g)) else (m, us)) acc
      else acc @ [g])"

definition merge_groups :: "ext_lib \<Rightarrow> (string \<times> json list) list \<Rightarrow> (string \<times> json list) list" where
  "merge_groups L gs = foldl (add_group L) [] gs"

lemma add_group_names:
  "map fst (add_group L acc g) = (if fst g \<in> fst ` set acc then map fst acc else map fst acc @ [fst g])"
  by (auto simp: add_group_def case_prod_beta)

lemma merge_groups_distinct: "distinct (map fst (merge_groups L gs))"
proof -
  have "distinct (map fst (foldl (add_group L) acc gs))" if "distinct (map fst acc)" for acc
    using that by (induction gs arbitrary: acc) (auto simp: add_group_names simp del: map_map)
  then show ?thesis by (simp add: merge_groups_def)
qed

lemma merge_new_keeps: "set canonical \<subseteq> set (merge_new L seen canonical additional)"
  by (induction L seen canonical additional rule: merge_new.induct) auto

lemma merge_new_covers:
  "seen \<subseteq> nested_tool_identity L ` set canonical \<Longrightarrow>
   nested_tool_identity L ` set additional \<subseteq> nested_tool_identity L ` set (merge_new L seen canonical additional)"
proof (induction L seen canonical additional rule: merge_new.induct)
  case (2 L seen canonical entry additional)
  let ?i = "nested_tool_identity L"
  show ?case
  proof (cases "?i entry \<in> seen")
    case True
    then have "?i entry \<in> ?i ` set (merge_new L seen canonical additional)"
      using 2(3) merge_new_keeps [of canonical L seen additional] by blast
    with True 2(1) [OF True 2(3)] show ?thesis by simp
  next
    case False
    let ?r = "merge_new L (insert (?i entry) seen) (canonical @ [entry]) additional"
    have "entry \<in> set ?r" using merge_new_keeps [of "canonical @ [entry]" L "insert (?i entry) seen" additional] by simp
    moreover have "insert (?i entry) seen \<subseteq> ?i ` set (canonical @ [entry])" using 2(3) by auto
    ultimately show ?thesis using False 2(2) [OF False] by simp
  qed
qed simp

lemma merge_nested_tools_covers:
  "set us \<subseteq> set (merge_nested_tools L us ts)"
  "nested_tool_identity L ` set ts \<subseteq> nested_tool_identity L ` set (merge_nested_tools L us ts)"
  using merge_new_keeps merge_new_covers by (fastforce simp: merge_nested_tools_def)+

definition covers :: "ext_lib \<Rightarrow> (string \<times> json list) list \<Rightarrow> string \<times> json list \<Rightarrow> bool" where
  "covers L acc g =
     (\<exists>us. (fst g, us) \<in> set acc \<and> nested_tool_identity L ` set (snd g) \<subseteq> nested_tool_identity L ` set us)"

lemma add_group_merged:
  assumes "(m, us) \<in> set acc" and "fst g \<in> fst ` set acc"
  shows "(m, if m = fst g then merge_nested_tools L us (snd g) else us) \<in> set (add_group L acc g)"
  using assms by (auto simp: add_group_def intro!: rev_image_eqI [OF assms(1)])

lemma add_group_covers: "covers L (add_group L acc g) g" "covers L acc g' \<Longrightarrow> covers L (add_group L acc g) g'"
proof -
  show "covers L (add_group L acc g) g"
  proof (cases "fst g \<in> fst ` set acc")
    case True
    then obtain us where "(fst g, us) \<in> set acc" by auto
    then have "(fst g, merge_nested_tools L us (snd g)) \<in> set (add_group L acc g)"
      using add_group_merged [OF _ True, of "fst g" us] by simp
    then show ?thesis unfolding covers_def using merge_nested_tools_covers(2) by blast
  qed (auto simp: covers_def add_group_def intro!: exI [of _ "snd g"])
  assume "covers L acc g'"
  then obtain us where us: "(fst g', us) \<in> set acc"
    "nested_tool_identity L ` set (snd g') \<subseteq> nested_tool_identity L ` set us" by (auto simp: covers_def)
  show "covers L (add_group L acc g) g'"
  proof (cases "fst g \<in> fst ` set acc")
    case True
    let ?us = "if fst g' = fst g then merge_nested_tools L us (snd g) else us"
    have "(fst g', ?us) \<in> set (add_group L acc g)" by (rule add_group_merged [OF us(1) True])
    moreover have "set us \<subseteq> set ?us" using merge_nested_tools_covers(1) by auto
    ultimately show ?thesis unfolding covers_def using us(2) by (meson image_mono subset_trans)
  next
    case False
    with us show ?thesis by (auto simp: covers_def add_group_def)
  qed
qed

lemma merge_groups_covers: "g \<in> set gs \<Longrightarrow> covers L (merge_groups L gs) g"
proof -
  have "covers L (foldl (add_group L) acc gs) g" if "covers L acc g \<or> g \<in> set gs" for acc
    using that by (induction gs arbitrary: acc) (auto intro: add_group_covers)
  then show "g \<in> set gs \<Longrightarrow> covers L (merge_groups L gs) g" by (simp add: merge_groups_def)
qed

section \<open>Removal by index\<close>

lemma remove_nth_split: "i = length us \<Longrightarrow> remove_nth i (us @ x # vs) = us @ vs"
  by (simp add: remove_nth_def)

lemma remove_all_nth_Cons [simp]: "remove_all_nth (i # is) xs = remove_nth i (remove_all_nth is xs)"
  by (simp add: remove_all_nth_def)

lemma remove_all_nth_nths:
  "sorted_wrt (<) is \<Longrightarrow> remove_all_nth is xs = nths xs (- set is)"
proof (induction "is")
  case (Cons i "is")
  then have rest: "remove_all_nth is xs = nths xs (- set is)" and gt: "\<forall>j \<in> set is. i < j" by auto
  show ?case
  proof (cases "i < length xs")
    case True
    define us x vs where "us = take i xs" and "x = xs ! i" and "vs = drop (Suc i) xs"
    have xs: "xs = us @ x # vs" and len: "length us = i" using True by (simp_all add: us_def x_def vs_def id_take_nth_drop)
    have keep: "nths us A = us" if "\<forall>j < i. j \<in> A" for A using that len by (intro nths_all) auto
    have "i \<notin> set is" using gt by blast
    have k1: "nths us (- set is) = us" and k2: "nths us (- set (i # is)) = us" by (rule keep, use gt in auto)+
    have "nths xs (- set is) = us @ x # nths vs {j. j + Suc i \<in> - set is}"
      unfolding xs nths_append nths_Cons using k1 len \<open>i \<notin> set is\<close> by (simp add: add.commute)
    moreover have "nths xs (- set (i # is)) = us @ nths vs {j. j + Suc i \<in> - set is}"
      unfolding xs nths_append nths_Cons using k2 len by (auto simp: add.commute intro!: arg_cong2 [of _ _ _ _ nths])
    ultimately show ?thesis using len by (simp add: rest remove_nth_split)
  next
    case False
    then have "nths xs (- set is) = xs" "nths xs (- set (i # is)) = xs" using gt by (auto intro!: nths_all)
    with False show ?thesis by (simp add: rest remove_nth_def)
  qed
qed (simp add: remove_all_nth_def nths_all)

section \<open>Sites as positions in the rows\<close>

fun pos :: "grouped_tool_site \<Rightarrow> nat \<times> nat" where
  "pos (ToolsSite i) = (0, i)"
| "pos (InputSite k i) = (Suc k, i)"

lemma pos_inj [simp]: "pos s = pos s' \<longleftrightarrow> s = s'"
  by (cases s; cases s') auto

definition pos_less :: "nat \<times> nat \<Rightarrow> nat \<times> nat \<Rightarrow> bool" where
  "pos_less p q = (fst p < fst q \<or> fst p = fst q \<and> snd p < snd q)"

definition valid_pos :: "'a list list \<Rightarrow> nat \<times> nat \<Rightarrow> bool" where
  "valid_pos R p = (fst p < length R \<and> snd p < length (R ! fst p))"

definition upd :: "nat \<times> nat \<Rightarrow> ('a \<Rightarrow> 'a) \<Rightarrow> 'a list list \<Rightarrow> 'a list list" where
  "upd p f R = modify_nth (fst p) (modify_nth (snd p) f) R"

lemma modify_nth_length [simp]: "length (modify_nth i f xs) = length xs"
  by (simp add: modify_nth_def)

lemma modify_nth_nth: "j < length xs \<Longrightarrow> modify_nth i f xs ! j = (if i = j then f (xs ! j) else xs ! j)"
  by (simp add: modify_nth_def)

lemma modify_nth_map: "(\<And>x. h (g x) = f (h x)) \<Longrightarrow> map h (modify_nth i g xs) = modify_nth i f (map h xs)"
  by (simp add: modify_nth_def map_update)

lemma upd_lengths [simp]: "map length (upd p f R) = map length R"
  by (auto simp: upd_def modify_nth_nth intro!: nth_equalityI)

lemma upd_nth:
  "valid_pos R q \<Longrightarrow> upd p f R ! fst q ! snd q = (if p = q then f (R ! fst q ! snd q) else R ! fst q ! snd q)"
  by (cases p; cases q) (auto simp: upd_def valid_pos_def modify_nth_nth)

lemma valid_pos_lengths: "map length R = map length R' \<Longrightarrow> valid_pos R p = valid_pos R' p"
  by (metis length_map nth_map valid_pos_def)

lemma rows_eqI:
  assumes "map length R = map length R'" and "\<And>p. valid_pos R p \<Longrightarrow> R ! fst p ! snd p = R' ! fst p ! snd p"
  shows "R = R'"
proof (rule nth_equalityI)
  show "length R = length R'" using assms(1) by (rule map_eq_imp_length_eq)
  fix i assume i: "i < length R"
  then have "length (R ! i) = length (R' ! i)" using assms(1) \<open>length R = length R'\<close> by (metis nth_map)
  then show "R ! i = R' ! i"
    using assms(2) [of "(i, _)"] i by (auto simp: valid_pos_def intro!: nth_equalityI)
qed

lemma tools_of_jmodify:
  "tools_of (jmodify k (arr_modify f) v) = (if k = ''tools'' \<and> get_arr v ''tools'' \<noteq> None then f (tools_of v) else tools_of v)"
  by (cases "get_arr v ''tools''") (auto simp: tools_of_def get_arr_jmodify)

lemma modify_nth_Nil [simp]: "modify_nth i f [] = []"
  by (simp add: modify_nth_def)

lemma tools_of_modify: "f [] = [] \<Longrightarrow> tools_of (jmodify ''tools'' (arr_modify f) v) = f (tools_of v)"
  by (cases "get_arr v ''tools''") (auto simp: tools_of_def get_arr_jmodify)

lemma input_of_modify:
  "f [] = [] \<Longrightarrow> unwrap_or [] (get_arr (jmodify ''input'' (arr_modify f) v) ''input'') = f (unwrap_or [] (get_arr v ''input''))"
  by (cases "get_arr v ''input''") (auto simp: get_arr_jmodify)

lemma modify_nth_0 [simp]: "modify_nth 0 f (x # xs) = f x # xs"
  by (simp add: modify_nth_def)

lemma modify_nth_Suc [simp]: "modify_nth (Suc i) f (x # xs) = x # modify_nth i f xs"
  by (simp add: modify_nth_def)

lemma decl_rows_tools:
  "f [] = [] \<Longrightarrow> decl_rows (jmodify ''tools'' (arr_modify f) obj) = modify_nth 0 f (decl_rows obj)"
  by (simp add: decl_rows_def tools_of_modify get_arr_jmodify)

lemma decl_rows_input:
  assumes "f [] = []"
  shows "decl_rows (jmodify ''input'' (arr_modify (modify_nth k (jmodify ''tools'' (arr_modify f)))) obj)
     = modify_nth (Suc k) f (decl_rows obj)"
  using modify_nth_map [of tools_of "jmodify ''tools'' (arr_modify f)" f] tools_of_modify [where f = f, OF assms]
  by (simp add: decl_rows_def input_of_modify tools_of_jmodify)

lemma decl_rows_set: "decl_rows (set_grouped_tools ts site obj) = upd (pos site) (jinsert ''tools'' (JArr ts)) (decl_rows obj)"
  by (cases site) (simp_all add: set_grouped_tools_def upd_def decl_rows_tools decl_rows_input)

lemma remove_all_nth_Nil [simp]: "remove_all_nth is [] = []"
  by (induction "is") (simp_all add: remove_nth_def, simp add: remove_all_nth_def)

lemma decl_rows_remove:
  "decl_rows (remove_grouped_entries top_level per_item obj) =
     fold (\<lambda>(k, is). modify_nth (Suc k) (remove_all_nth (sort is))) per_item
       (modify_nth 0 (remove_all_nth top_level) (decl_rows obj))"
proof -
  have step: "decl_rows (fold (\<lambda>(k, is). jmodify ''input'' (arr_modify (modify_nth k
        (jmodify ''tools'' (arr_modify (remove_all_nth (sort is))))))) per_item obj')
      = fold (\<lambda>(k, is). modify_nth (Suc k) (remove_all_nth (sort is))) per_item (decl_rows obj')" for obj'
    by (induction per_item arbitrary: obj') (auto simp: decl_rows_input)
  have "modify_nth 0 (remove_all_nth []) (decl_rows obj) = decl_rows obj"
    by (simp add: decl_rows_def remove_all_nth_def)
  then show ?thesis by (simp add: remove_grouped_entries_def step decl_rows_tools Let_def)
qed

section \<open>The sites in order\<close>

definition all_pos :: "'a list list \<Rightarrow> (nat \<times> nat) list" where
  "all_pos R = concat (map (\<lambda>r. map (Pair r) [0..<length (R ! r)]) [0..<length R])"

definition cell :: "'a list list \<Rightarrow> nat \<times> nat \<Rightarrow> 'a" where
  "cell R p = R ! fst p ! snd p"

lemma all_pos_valid: "p \<in> set (all_pos R) \<longleftrightarrow> valid_pos R p"
  by (cases p) (fastforce simp: all_pos_def valid_pos_def)

lemma all_pos_lengths: "map length R = map length R' \<Longrightarrow> all_pos R = all_pos R'"
proof -
  assume eq: "map length R = map length R'"
  then have "length R = length R'" by (rule map_eq_imp_length_eq)
  with eq have "length (R ! r) = length (R' ! r)" if "r < length R" for r using that by (metis nth_map)
  with \<open>length R = length R'\<close> show ?thesis
    unfolding all_pos_def by (intro arg_cong [of _ _ concat] map_cong) auto
qed

lemma all_pos_sorted: "sorted_wrt pos_less (all_pos R)"
proof -
  have "sorted_wrt pos_less (concat (map (\<lambda>r. map (Pair r) [0..<len r]) [a..<b]))" for a b :: nat and len :: "nat \<Rightarrow> nat"
  proof (induction b)
    case (Suc b)
    have "sorted_wrt pos_less (map (Pair b) [0..<len b])"
      by (simp add: sorted_wrt_map pos_less_def)
    moreover have "pos_less x y" if "x \<in> set (concat (map (\<lambda>r. map (Pair r) [0..<len r]) [a..<b]))"
        and "y \<in> set (map (Pair b) [0..<len b])" for x y
      using that by (auto simp: pos_less_def)
    ultimately show ?case using Suc by (simp add: sorted_wrt_append)
  qed simp
  then show ?thesis by (simp add: all_pos_def)
qed

lemma map_filter_map: "List.map_filter f (map g xs) = List.map_filter (\<lambda>x. f (g x)) xs"
  by (induction xs) (auto simp: List.map_filter_simps split: option.split)

lemma map_map_filter: "map h (List.map_filter f xs) = List.map_filter (\<lambda>x. map_option h (f x)) xs"
  by (induction xs) (auto simp: List.map_filter_simps split: option.split)

lemma map_filter_concat: "List.map_filter f (concat xss) = concat (map (List.map_filter f) xss)"
  by (induction xss) (auto simp: List.map_filter_def)

lemma map_filter_filter: "List.map_filter f (filter P xs) = List.map_filter (\<lambda>x. if P x then f x else None) xs"
  by (induction xs) (auto simp: List.map_filter_simps split: option.split)

lemma map_filter_cong: "(\<And>x. x \<in> set xs \<Longrightarrow> f x = g x) \<Longrightarrow> List.map_filter f xs = List.map_filter g xs"
  by (induction xs) (auto simp: List.map_filter_simps split: option.split)

lemma enumerate_map: "enumerate 0 xs = map (\<lambda>i. (i, xs ! i)) [0..<length xs]"
  by (rule nth_equalityI) (simp_all add: nth_enumerate_eq)

lemma concat_cells: "concat R = map (cell R) (all_pos R)"
proof -
  have "map (cell R) (all_pos R) = concat (map (\<lambda>r. map (nth (R ! r)) [0..<length (R ! r)]) [0..<length R])"
    by (simp add: all_pos_def map_concat cell_def comp_def)
  also have "\<dots> = concat (map (nth R) [0..<length R])" by (simp add: map_nth)
  finally show ?thesis by (simp add: map_nth)
qed

lemma occurrence_positions:
  "map (\<lambda>(n, s). (n, pos s)) (grouped_tool_occurrences obj) =
     List.map_filter (\<lambda>p. map_option (\<lambda>n. (n, p)) (grouped_declaration_name (cell (decl_rows obj) p)))
       (all_pos (decl_rows obj))"
proof -
  let ?f = "\<lambda>p e. map_option (\<lambda>n. (n, p)) (grouped_declaration_name e)"
  have row: "List.map_filter (\<lambda>i. ?f (r, i) (row ! i)) [0..<length row]
      = map (\<lambda>(n, s). (n, pos s)) (List.map_filter (\<lambda>(i, e). map_option (\<lambda>n. (n, mk i)) (grouped_declaration_name e)) (enumerate 0 row))"
    if "\<And>i. pos (mk i) = (r, i)" for r row mk
    using that by (simp add: enumerate_map map_filter_map map_map_filter option.map_comp comp_def)
  let ?items = "unwrap_or [] (get_arr obj ''input'')"
  have "List.map_filter (\<lambda>p. ?f p (cell (decl_rows obj) p)) (all_pos (decl_rows obj))
      = concat (map (\<lambda>r. List.map_filter (\<lambda>i. ?f (r, i) (decl_rows obj ! r ! i)) [0..<length (decl_rows obj ! r)])
          [0..<length (decl_rows obj)])"
    by (simp add: all_pos_def map_filter_concat map_filter_map comp_def cell_def)
  also have "[0..<length (decl_rows obj)] = 0 # map Suc [0..<length ?items]"
    by (simp add: decl_rows_def map_Suc_upt upt_conv_Cons del: upt_Suc)
  also have "concat (map (\<lambda>r. List.map_filter (\<lambda>i. ?f (r, i) (decl_rows obj ! r ! i)) [0..<length (decl_rows obj ! r)])
        (0 # map Suc [0..<length ?items])) = map (\<lambda>(n, s). (n, pos s)) (grouped_tool_occurrences obj)"
    by (simp add: grouped_tool_occurrences_def decl_rows_def row [of ToolsSite 0] row [of "InputSite _" "Suc _"]
        map_concat enumerate_map [of ?items] comp_def tools_of_def)
      (rule arg_cong [of _ _ concat], rule map_cong, simp_all add: tools_of_def)
  finally show ?thesis by simp
qed

lemma site_positions:
  assumes "(n, s) \<in> set (grouped_tool_occurrences obj)"
  shows "valid_pos (decl_rows obj) (pos s)" and "grouped_declaration_name (cell (decl_rows obj) (pos s)) = Some n"
    and "nested_tools_of obj s = tools_of (cell (decl_rows obj) (pos s))"
proof -
  have "(n, pos s) \<in> set (map (\<lambda>(n, s). (n, pos s)) (grouped_tool_occurrences obj))"
    using assms by (auto simp: rev_image_eqI)
  then have "valid_pos (decl_rows obj) (pos s) \<and> grouped_declaration_name (cell (decl_rows obj) (pos s)) = Some n"
    unfolding occurrence_positions by (auto simp: in_map_filter all_pos_valid)
  then show v: "valid_pos (decl_rows obj) (pos s)" and "grouped_declaration_name (cell (decl_rows obj) (pos s)) = Some n"
    by auto
  from v show "nested_tools_of obj s = tools_of (cell (decl_rows obj) (pos s))"
  proof (cases s)
    case (ToolsSite i)
    with v show ?thesis
      by (cases "get_arr obj ''tools''")
        (simp_all add: nested_tools_of_def grouped_tool_entry_def valid_pos_def decl_rows_def cell_def tools_of_def get_nth_def)
  next
    case (InputSite k i)
    then show ?thesis using v
      by (cases "get_arr obj ''input''"; cases "get_arr (the (get_arr obj ''input'') ! k) ''tools''")
        (simp_all add: nested_tools_of_def grouped_tool_entry_def valid_pos_def decl_rows_def cell_def tools_of_def get_nth_def)
  qed
qed

lemma sites_sorted: "sorted_wrt pos_less (map (\<lambda>oc. pos (snd oc)) (grouped_tool_occurrences obj))"
proof -
  let ?R = "decl_rows obj"
  have "map (\<lambda>oc. pos (snd oc)) (grouped_tool_occurrences obj)
      = map snd (map (\<lambda>(n, s). (n, pos s)) (grouped_tool_occurrences obj))" by (simp add: case_prod_beta)
  also have "\<dots> = filter (\<lambda>p. grouped_declaration_name (cell ?R p) \<noteq> None) (all_pos ?R)"
    unfolding occurrence_positions map_map_filter
    by (auto simp: List.map_filter_def comp_def option.map_comp intro!: map_idI)
  finally show ?thesis by (simp add: sorted_wrt_filter all_pos_sorted)
qed

lemma sites_distinct: "distinct (map snd (grouped_tool_occurrences obj))"
proof -
  have "distinct ps" if "sorted_wrt pos_less ps" for ps
    using that by (induction ps) (auto simp: pos_less_def)
  from this [OF sites_sorted] have "distinct (map pos (map snd (grouped_tool_occurrences obj)))"
    by (simp add: comp_def)
  then show ?thesis unfolding distinct_map by blast
qed

section \<open>The loop\<close>

text \<open>The state after the loop, for occurrences at distinct sites: \<open>map_of\<close> finds the first site of a name.\<close>

definition is_first :: "(string \<times> grouped_tool_site) list \<Rightarrow> string \<times> grouped_tool_site \<Rightarrow> bool" where
  "is_first occs o1 = (map_of occs (fst o1) = Some (snd o1))"

definition groups_at :: "json \<Rightarrow> (string \<times> grouped_tool_site) list \<Rightarrow> (string \<times> json list) list" where
  "groups_at obj occs = map (\<lambda>(n, s). (n, nested_tools_of obj s)) occs"

lemma map_of_add_group:
  "map_of (add_group L acc g) n =
     (if n = fst g then Some (case map_of acc n of None \<Rightarrow> snd g | Some us \<Rightarrow> merge_nested_tools L us (snd g))
      else map_of acc n)"
proof (cases "fst g \<in> fst ` set acc")
  case True
  then have "map_of acc (fst g) \<noteq> None" by (simp add: map_of_eq_None_iff)
  moreover have "map_of (map (\<lambda>(m, us). if m = fst g then (m, f us) else (m, us)) acc) n =
      (if n = fst g then map_option f (map_of acc n) else map_of acc n)" for f
    by (induction acc) auto
  ultimately show ?thesis using True by (auto simp: add_group_def)
next
  case False
  then have "map_of acc (fst g) = None" by (simp add: map_of_eq_None_iff)
  with False show ?thesis by (cases g) (auto simp: add_group_def map_add_def split: option.splits)
qed

lemma is_first_snoc:
  assumes "distinct (map snd (occs @ [o1]))"
  shows "filter (is_first (occs @ [o1])) occs = filter (is_first occs) occs"
    and "filter (\<lambda>o2. \<not> is_first (occs @ [o1]) o2) occs = filter (\<lambda>o2. \<not> is_first occs o2) occs"
    and "is_first (occs @ [o1]) o1 \<longleftrightarrow> fst o1 \<notin> fst ` set occs"
proof -
  have "is_first (occs @ [o1]) o2 = is_first occs o2" if "o2 \<in> set occs" for o2
    using that weak_map_of_SomeI [of "fst o2" "snd o2" occs] by (auto simp: is_first_def map_add_def split: option.splits)
  then show "filter (is_first (occs @ [o1])) occs = filter (is_first occs) occs"
    and "filter (\<lambda>o2. \<not> is_first (occs @ [o1]) o2) occs = filter (\<lambda>o2. \<not> is_first occs o2) occs"
    by (auto cong: filter_cong)
  have "snd o1 \<notin> snd ` set occs" using assms by auto
  then show "is_first (occs @ [o1]) o1 \<longleftrightarrow> fst o1 \<notin> fst ` set occs"
    by (cases o1) (auto simp: is_first_def map_add_def map_of_eq_None_iff split: option.splits dest: map_of_SomeD
        intro: rev_image_eqI)
qed

definition loop_inv :: "ext_lib \<Rightarrow> json \<Rightarrow> (string \<times> grouped_tool_site) list \<Rightarrow> reconcile_state \<Rightarrow> bool" where
  "loop_inv L obj occs st =
     (map_of (rc_merged_tools st) = map_of (merge_groups L (groups_at obj occs))
      \<and> map_of (rc_first_site st) = map_of occs
      \<and> rc_repeated st = map snd (filter (\<lambda>oc. \<not> is_first occs oc) occs)
      \<and> set (rc_merged_names st) = fst ` set (filter (\<lambda>oc. \<not> is_first occs oc) occs)
      \<and> distinct (rc_merged_names st)
      \<and> (\<forall>n s. map_of occs n = Some s \<and> n \<notin> set (rc_merged_names st) \<longrightarrow>
            map_of (rc_merged_tools st) n = Some (nested_tools_of obj s))
      \<and> map fst (merge_groups L (groups_at obj occs)) = map fst (filter (is_first occs) occs))"

lemma merge_groups_snoc: "merge_groups L (gs @ [g]) = add_group L (merge_groups L gs) g"
  by (simp add: merge_groups_def)

lemma merged_keys:
  "map_of (merge_groups L (groups_at obj occs)) n = None \<longleftrightarrow> n \<notin> fst ` set occs"
proof -
  have "fst ` set (merge_groups L gs) = fst ` set gs" for gs
  proof (induction gs rule: rev_induct)
    case (snoc g gs)
    have "fst ` set (add_group L acc g) = insert (fst g) (fst ` set acc)" for acc
      using arg_cong [OF add_group_names [of L acc g], of set] by (auto simp: image_comp)
    with snoc show ?case by (simp add: merge_groups_snoc)
  qed (simp add: merge_groups_def)
  then show ?thesis by (simp add: map_of_eq_None_iff groups_at_def image_image case_prod_beta)
qed

lemma loop_inv_step:
  assumes inv: "loop_inv L obj occs st" and d: "distinct (map snd (occs @ [(n, s)]))"
  shows "loop_inv L obj (occs @ [(n, s)]) (reconcile_step L obj (n, s) st)"
proof -
  let ?g = "groups_at obj occs" and ?occs' = "occs @ [(n, s)]"
  have g: "groups_at obj ?occs' = ?g @ [(n, nested_tools_of obj s)]" by (simp add: groups_at_def)
  note first = is_first_snoc [OF d]
  have M: "map_of (rc_merged_tools st) = map_of (merge_groups L ?g)"
    and F: "map_of (rc_first_site st) = map_of occs" using inv by (simp_all add: loop_inv_def)
  have names: "map fst (merge_groups L (groups_at obj ?occs')) = map fst (filter (is_first ?occs') ?occs')"
    using inv merged_keys [of L obj occs n] unfolding g merge_groups_snoc add_group_names
    by (simp add: loop_inv_def first map_of_eq_None_iff)
  show ?thesis
  proof (cases "n \<in> fst ` set occs")
    case True
    then obtain us where us: "map_of (merge_groups L ?g) n = Some us"
      using merged_keys [of L obj occs n] by (cases "map_of (merge_groups L ?g) n") auto
    from True obtain s0 where "map_of occs n = Some s0" by (cases "map_of occs n") (auto simp: map_of_eq_None_iff)
    then have "map_of ?occs' = map_of occs" by (auto simp: map_add_def split: option.splits)
    then show ?thesis using inv us names M F True first(2,3)
      by (auto simp: loop_inv_def reconcile_step_def map_simps g merge_groups_snoc map_of_add_group fun_eq_iff)
  next
    case False
    then have "map_of occs n = None" and none: "map_of (merge_groups L ?g) n = None"
      using merged_keys [of L obj occs n] by (simp_all add: map_of_eq_None_iff)
    moreover from False inv have "n \<notin> set (rc_merged_names st)" by (auto simp: loop_inv_def)
    ultimately show ?thesis using inv names M F False first(2,3)
      by (auto simp: loop_inv_def reconcile_step_def map_simps g merge_groups_snoc map_of_add_group fun_eq_iff
          map_add_def split: option.splits)
  qed
qed

lemma loop_inv_all:
  "distinct (map snd occs) \<Longrightarrow> loop_inv L obj occs (fold (reconcile_step L obj) occs reconcile_start)"
proof (induction occs rule: rev_induct)
  case (snoc oc occs)
  then show ?case using loop_inv_step [of L obj occs _ "fst oc" "snd oc"] by simp
qed (simp add: loop_inv_def reconcile_start_def merge_groups_def groups_at_def)

section \<open>Writing the merged tools\<close>

definition put_tools :: "json list \<Rightarrow> json \<Rightarrow> json" where
  "put_tools ts = jinsert ''tools'' (JArr ts)"

text \<open>The write of a merged name, at the position of its first site.\<close>

definition written :: "reconcile_state \<Rightarrow> string list \<Rightarrow> nat \<times> nat \<Rightarrow> json \<Rightarrow> json" where
  "written st ns p e =
     (case find (\<lambda>n. map_option pos (map_of (rc_first_site st) n) = Some p \<and> map_of (rc_merged_tools st) n \<noteq> None) ns of
        None \<Rightarrow> e
      | Some n \<Rightarrow> put_tools (the (map_of (rc_merged_tools st) n)) e)"

lemma fold_merged_rows:
  assumes "distinct ns"
    and "\<And>m n s. map_of (rc_first_site st) m = Some s \<Longrightarrow> map_of (rc_first_site st) n = Some s \<Longrightarrow> m = n"
  shows "map length (decl_rows (fold (fold_merged st) ns obj)) = map length (decl_rows obj)
    \<and> (\<forall>p. valid_pos (decl_rows obj) p \<longrightarrow>
         cell (decl_rows (fold (fold_merged st) ns obj)) p = written st ns p (cell (decl_rows obj) p))"
  using assms(1)
proof (induction ns arbitrary: obj)
  case Nil
  then show ?case by (simp add: written_def)
next
  case (Cons n ns)
  let ?obj = "fold_merged st n obj"
  have len: "map length (decl_rows ?obj) = map length (decl_rows obj)"
    by (simp add: fold_merged_def decl_rows_set split: option.split)
  have fresh: "written st ns p e = e" if "map_option pos (map_of (rc_first_site st) n) = Some p" for p e
    using that Cons.prems assms(2) by (fastforce simp: written_def find_None_iff split: option.split dest: find_Some_iff [THEN iffD1])
  have "written st ns p (cell (decl_rows ?obj) p) = written st (n # ns) p (cell (decl_rows obj) p)"
    if "valid_pos (decl_rows obj) p" for p
    using upd_nth [OF that] fresh
    by (auto simp: fold_merged_def decl_rows_set cell_def written_def put_tools_def split: option.splits)
  with Cons.IH [of ?obj] Cons.prems len show ?case by (simp add: valid_pos_lengths [OF len])
qed

section \<open>Removing the repeated declarations\<close>

lemma split_sites:
  "om_ok per \<Longrightarrow> (case fold split_site sites (tops, per) of (tops', per') \<Rightarrow>
     tops' = tops @ map snd (filter (\<lambda>p. fst p = 0) (map pos sites)) \<and> om_ok per'
     \<and> (\<forall>k. unwrap_or [] (map_of per' k) =
          unwrap_or [] (map_of per k) @ map snd (filter (\<lambda>p. fst p = Suc k) (map pos sites))))"
proof (induction sites arbitrary: tops per)
  case (Cons site sites)
  show ?case
  proof (cases site)
    case (ToolsSite i)
    with Cons.IH [OF Cons.prems, of "tops @ [i]"] show ?thesis by (auto simp: case_prod_beta)
  next
    case (InputSite k i)
    with Cons.IH [OF om_ok_insert [OF Cons.prems], of tops k "unwrap_or [] (map_of per k) @ [i]"] show ?thesis
      by (auto simp: case_prod_beta map_simps)
  qed
qed simp

lemma fold_modify_rows:
  assumes "distinct (map fst per)"
  shows "fold (\<lambda>(k, is). modify_nth (Suc k) (f is)) per R =
     map (\<lambda>r. case r of 0 \<Rightarrow> R ! 0 | Suc k \<Rightarrow> (case map_of per k of None \<Rightarrow> R ! r | Some is \<Rightarrow> f is (R ! r))) [0..<length R]"
  using assms
proof (induction per arbitrary: R)
  case Nil
  then show ?case by (auto simp: map_nth split: nat.split intro!: nth_equalityI)
next
  case (Cons kis per)
  obtain k "is" where kis: "kis = (k, is)" by fastforce
  with Cons.prems have "map_of per k = None" by (simp add: map_of_eq_None_iff)
  with Cons show ?case
    by (auto simp: kis modify_nth_nth split: nat.split option.split intro!: map_cong)
qed

lemma remove_rows:
  assumes "distinct sites" and "sorted_wrt pos_less (map pos sites)"
  defines "P \<equiv> pos ` set sites"
  defines "parts \<equiv> fold split_site sites ([], [])"
  shows "decl_rows (remove_grouped_entries (fst parts) (snd parts) obj) =
     map (\<lambda>r. nths (decl_rows obj ! r) (- {i. (r, i) \<in> P})) [0..<length (decl_rows obj)]"
proof -
  have parts: "fst parts = map snd (filter (\<lambda>p. fst p = 0) (map pos sites))" "om_ok (snd parts)"
    "\<And>k. unwrap_or [] (map_of (snd parts) k) = map snd (filter (\<lambda>p. fst p = Suc k) (map pos sites))"
    using split_sites [where per = "[]" and sites = sites and tops = "[]"] by (auto simp: parts_def case_prod_beta)
  have row: "sorted_wrt (<) (map snd (filter (\<lambda>p. fst p = r) (map pos sites)))"
    "set (map snd (filter (\<lambda>p. fst p = r) (map pos sites))) = {i. (r, i) \<in> P}" for r
  proof -
    have "sorted_wrt pos_less (filter (\<lambda>p. fst p = r) (map pos sites))" using assms(2) by (rule sorted_wrt_filter)
    then show "sorted_wrt (<) (map snd (filter (\<lambda>p. fst p = r) (map pos sites)))"
      unfolding sorted_wrt_map by (rule sorted_wrt_mono_rel [rotated]) (auto simp: pos_less_def)
    show "set (map snd (filter (\<lambda>p. fst p = r) (map pos sites))) = {i. (r, i) \<in> P}"
      unfolding P_def by (auto simp: image_iff)
  qed
  have "remove_all_nth (fst parts) xs = nths xs (- {i. (0, i) \<in> P})" for xs :: "json list"
    using remove_all_nth_nths [OF row(1) [of 0]] row(2) [of 0] by (simp add: parts(1))
  moreover have "remove_all_nth (sort is) xs = nths xs (- {i. (Suc k, i) \<in> P})" if "map_of (snd parts) k = Some is"
    for xs :: "json list" and k "is"
    using that parts(3) [of k] row [of "Suc k"] remove_all_nth_nths [OF row(1) [of "Suc k"]]
    by (simp add: sorted_sort_id strict_sorted_imp_sorted)
  moreover have "xs = nths xs (- {i. (Suc k, i) \<in> P})" if "map_of (snd parts) k = None" for xs :: "json list" and k
    using that parts(3) [of k] row(2) [of "Suc k"] by (simp add: nths_all)
  ultimately show ?thesis
    unfolding decl_rows_remove fold_modify_rows [OF om_ok_distinct [OF parts(2)]]
    by (auto simp: decl_rows_def split: nat.split option.split intro!: map_cong)
qed

section \<open>The refinement\<close>

lemma declared_groups_occurrences: "declared_groups obj = groups_at obj (grouped_tool_occurrences obj)"
proof -
  let ?R = "decl_rows obj"
  have "groups_at obj (grouped_tool_occurrences obj)
      = map (\<lambda>(n, p). (n, tools_of (cell ?R p))) (map (\<lambda>(n, s). (n, pos s)) (grouped_tool_occurrences obj))"
    by (auto simp: groups_at_def site_positions(3))
  also have "\<dots> = List.map_filter group_view (map (cell ?R) (all_pos ?R))"
    unfolding occurrence_positions by (simp add: map_map_filter map_filter_map group_view_def option.map_comp comp_def)
  finally show ?thesis by (simp add: declared_groups_def concat_cells)
qed

lemma map_of_distinct_nth: "distinct (map fst xs) \<Longrightarrow> i < length xs \<Longrightarrow> map_of xs (fst (xs ! i)) = Some (snd (xs ! i))"
  by simp

lemma distinct_map_of: "distinct (map fst xs) \<Longrightarrow> xs = map (\<lambda>n. (n, the (map_of xs n))) (map fst xs)"
  by (rule nth_equalityI) (auto simp: prod_eq_iff nth_eq_iff_index_eq map_of_distinct_nth)

lemma merged_first:
  assumes "loop_inv L obj occs st"
  shows "merge_groups L (groups_at obj occs) =
     map (\<lambda>oc. (fst oc, the (map_of (rc_merged_tools st) (fst oc)))) (filter (is_first occs) occs)"
proof -
  let ?mg = "merge_groups L (groups_at obj occs)"
  have M: "map_of (rc_merged_tools st) = map_of ?mg" and "map fst ?mg = map fst (filter (is_first occs) occs)"
    using assms by (simp_all add: loop_inv_def)
  then have "map (\<lambda>n. (n, the (map_of ?mg n))) (map fst ?mg)
      = map (\<lambda>n. (n, the (map_of ?mg n))) (map fst (filter (is_first occs) occs))" by simp
  with distinct_map_of [OF merge_groups_distinct [of L "groups_at obj occs"]] show ?thesis
    by (simp add: M comp_def)
qed

lemma merged_nonempty:
  assumes "loop_inv L obj occs st" and "(n, s) \<in> set occs" and "nested_tools_of obj s \<noteq> []"
  shows "\<exists>us. map_of (rc_merged_tools st) n = Some us \<and> us \<noteq> []"
proof -
  have "covers L (merge_groups L (groups_at obj occs)) (n, nested_tools_of obj s)"
    using assms(2) by (intro merge_groups_covers) (force simp: groups_at_def)
  then obtain us where "(n, us) \<in> set (merge_groups L (groups_at obj occs))" "us \<noteq> []"
    unfolding covers_def fst_conv snd_conv
    by (metis assms(3) image_is_empty list.set(1) set_empty subset_empty)
  then have "map_of (merge_groups L (groups_at obj occs)) n = Some us" using merge_groups_distinct by simp
  with assms(1) \<open>us \<noteq> []\<close> show ?thesis by (simp add: loop_inv_def)
qed

lemma grouped_tools_nonempty: "grouped_declaration_name e = Some n \<Longrightarrow> tools_of e \<noteq> []"
  by (auto simp: grouped_declaration_name_def tools_of_def split: option.splits if_splits)

lemma group_view_put:
  assumes "grouped_declaration_name e = Some n" and "us \<noteq> []"
  shows "group_view (put_tools us e) = Some (n, us)"
proof -
  obtain m where "e = JObj m"
    using assms(1) by (cases e) (auto simp: grouped_declaration_name_def get_arr_def)
  with assms show ?thesis
    by (auto simp: group_view_def grouped_declaration_name_def put_tools_def tools_of_def get_arr_def get_str_def map_simps
        split: option.splits if_splits)
qed

lemma find_only: "n \<in> set ns \<Longrightarrow> find (\<lambda>m. m = n) ns = Some n"
  by (induction ns) auto

lemma written_first:
  assumes inv: "loop_inv L obj occs st" and d: "distinct (map snd occs)"
    and s: "map_of occs n = Some s" and e: "grouped_declaration_name e = Some n" and ts: "tools_of e = nested_tools_of obj s"
  shows "group_view (written st (rc_merged_names st) (pos s) e) = Some (n, the (map_of (rc_merged_tools st) n))"
proof -
  have F: "map_of (rc_first_site st) = map_of occs" using inv by (simp add: loop_inv_def)
  have inj: "m = n" if "map_of occs m = Some s" for m
    using map_of_SomeD [OF that] map_of_SomeD [OF s] d by (fastforce simp: distinct_map inj_on_def)
  obtain us where us: "map_of (rc_merged_tools st) n = Some us" "us \<noteq> []"
    using merged_nonempty [OF inv map_of_SomeD [OF s]] grouped_tools_nonempty [OF e] ts by auto
  let ?Q = "\<lambda>n. map_option pos (map_of (rc_first_site st) n) = Some (pos s) \<and> map_of (rc_merged_tools st) n \<noteq> None"
  have Q: "?Q m \<longleftrightarrow> m = n" for m using inj [of m] us s by (auto simp: F)
  show ?thesis
  proof (cases "n \<in> set (rc_merged_names st)")
    case True
    then have "find ?Q (rc_merged_names st) = Some n" unfolding Q by (rule find_only)
    then show ?thesis using group_view_put [OF e us(2)] us by (simp add: written_def)
  next
    case False
    then have "find ?Q (rc_merged_names st) = None" unfolding Q find_None_iff by auto
    moreover have "us = nested_tools_of obj s" using inv False s us by (auto simp: loop_inv_def)
    ultimately show ?thesis using e ts us by (simp add: written_def group_view_def)
  qed
qed

lemma written_other: "p \<notin> pos ` ran (map_of (rc_first_site st)) \<Longrightarrow> written st ns p e = e"
  by (auto simp: written_def ran_def split: option.split dest!: find_Some_iff [THEN iffD1])

lemma nths_upt: "nths xs A = map (nth xs) (filter (\<lambda>i. i \<in> A) [0..<length xs])"
proof (induction xs rule: rev_induct)
  case (snoc x xs)
  have "map (nth (xs @ [x])) (filter (\<lambda>i. i \<in> A) [0..<length xs]) = map (nth xs) (filter (\<lambda>i. i \<in> A) [0..<length xs])"
    by (auto simp: nth_append)
  with snoc show ?case by (simp add: nths_append)
qed simp

definition reconciled :: "ext_lib \<Rightarrow> json \<Rightarrow> json" where
  "reconciled L obj =
     (let st = fold (reconcile_step L obj) (grouped_tool_occurrences obj) reconcile_start;
          parts = fold split_site (rc_repeated st) ([], [])
      in remove_grouped_entries (fst parts) (snd parts) (fold (fold_merged st) (rc_merged_names st) obj))"

lemma reconciled_rows:
  fixes L obj
  defines "occs \<equiv> grouped_tool_occurrences obj"
  defines "st \<equiv> fold (reconcile_step L obj) occs reconcile_start"
  defines "P \<equiv> pos ` snd ` set (filter (\<lambda>oc. \<not> is_first occs oc) occs)"
  defines "R \<equiv> decl_rows obj"
  shows "\<exists>R1. map length R1 = map length R
     \<and> (\<forall>p. valid_pos R p \<longrightarrow> cell R1 p = written st (rc_merged_names st) p (cell R p))
     \<and> decl_rows (reconciled L obj) = map (\<lambda>r. nths (R1 ! r) (- {i. (r, i) \<in> P})) [0..<length R]"
proof -
  have d: "distinct (map snd occs)" unfolding occs_def by (rule sites_distinct)
  have inv: "loop_inv L obj occs st" unfolding st_def by (rule loop_inv_all [OF d])
  define obj1 where "obj1 = fold (fold_merged st) (rc_merged_names st) obj"
  have "m = n" if "map_of occs m = Some s" "map_of occs n = Some s" for m n s
    using that [THEN map_of_SomeD] d by (fastforce simp: distinct_map inj_on_def)
  then have rows: "map length (decl_rows obj1) = map length R \<and>
      (\<forall>p. valid_pos R p \<longrightarrow> cell (decl_rows obj1) p = written st (rc_merged_names st) p (cell R p))"
    unfolding obj1_def R_def using inv by (intro fold_merged_rows) (auto simp: loop_inv_def)
  have rep: "rc_repeated st = map snd (filter (\<lambda>oc. \<not> is_first occs oc) occs)" using inv by (simp add: loop_inv_def)
  have "distinct (rc_repeated st)" unfolding rep using d by (simp add: distinct_map_filter)
  moreover have "sorted_wrt pos_less (map pos (rc_repeated st))"
    using sorted_wrt_filter [OF sites_sorted [of obj, unfolded sorted_wrt_map]]
    by (simp add: rep occs_def sorted_wrt_map)
  ultimately have "decl_rows (reconciled L obj) = map (\<lambda>r. nths (decl_rows obj1 ! r) (- {i. (r, i) \<in> pos ` set (rc_repeated st)}))
      [0..<length (decl_rows obj1)]"
    unfolding reconciled_def Let_def obj1_def st_def occs_def by (rule remove_rows)
  moreover have "length (decl_rows obj1) = length R" using rows map_eq_imp_length_eq by blast
  moreover have "pos ` set (rc_repeated st) = P" by (simp add: rep P_def)
  ultimately show ?thesis using rows by auto
qed

lemma first_position:
  assumes "grouped_declaration_name (cell (decl_rows obj) p) = Some n" and "valid_pos (decl_rows obj) p"
  shows "\<exists>s. (n, s) \<in> set (grouped_tool_occurrences obj) \<and> pos s = p"
proof -
  have "(n, p) \<in> set (map (\<lambda>(n, s). (n, pos s)) (grouped_tool_occurrences obj))"
    unfolding occurrence_positions using assms by (force simp: in_map_filter all_pos_valid)
  then show ?thesis by auto
qed

lemma concat_removed:
  "concat (map (\<lambda>r. nths (R ! r) (- {i. (r, i) \<in> P})) [0..<length R]) = map (cell R) (filter (\<lambda>p. p \<notin> P) (all_pos R))"
  by (simp add: nths_upt all_pos_def filter_concat map_concat filter_map comp_def cell_def)

lemma map_filter_bind:
  "List.map_filter (\<lambda>x. Option.bind (f x) g) xs = List.map_filter g (List.map_filter f xs)"
  by (induction xs) (auto simp: List.map_filter_simps split: option.split)

lemma map_filter_if: "List.map_filter (\<lambda>x. if Q x then Some (f x) else None) xs = map f (filter Q xs)"
  by (induction xs) (auto simp: List.map_filter_simps)

text \<open>The positions whose declaration is removed.\<close>

definition repeated_pos :: "(string \<times> grouped_tool_site) list \<Rightarrow> (nat \<times> nat) set" where
  "repeated_pos occs = pos ` snd ` set (filter (\<lambda>oc. \<not> is_first occs oc) occs)"

lemma repeated_pos_iff:
  assumes "distinct (map snd occs)" and "(n, s) \<in> set occs"
  shows "pos s \<in> repeated_pos occs \<longleftrightarrow> \<not> is_first occs (n, s)"
proof -
  have only: "oc = (n, s)" if "oc \<in> set occs" "snd oc = s" for oc
    using that assms unfolding distinct_map inj_on_def by (metis snd_conv)
  have "pos s \<in> repeated_pos occs \<longleftrightarrow> (\<exists>oc \<in> set occs. \<not> is_first occs oc \<and> snd oc = s)"
    by (auto simp: repeated_pos_def)
  then show ?thesis using only assms(2) by (metis snd_conv)
qed

lemma reconciled_view:
  assumes inv: "loop_inv L obj occs st" and occs: "occs = grouped_tool_occurrences obj" and p: "valid_pos (decl_rows obj) p"
  shows "(if p \<notin> repeated_pos occs then group_view (written st (rc_merged_names st) p (cell (decl_rows obj) p)) else None) =
      Option.bind (map_option (\<lambda>n. (n, p)) (grouped_declaration_name (cell (decl_rows obj) p)))
        (\<lambda>(n, p). if p \<notin> repeated_pos occs then Some (n, the (map_of (rc_merged_tools st) n)) else None)"
proof (cases "grouped_declaration_name (cell (decl_rows obj) p)")
  case None
  have "p \<notin> pos ` ran (map_of occs)"
    using None site_positions(2) [of _ _ obj] unfolding occs by (force simp: ran_def dest: map_of_SomeD)
  then have "written st (rc_merged_names st) p (cell (decl_rows obj) p) = cell (decl_rows obj) p"
    using inv by (intro written_other) (simp add: loop_inv_def)
  with None show ?thesis by (simp add: group_view_def)
next
  case (Some n)
  have d: "distinct (map snd occs)" unfolding occs by (rule sites_distinct)
  from first_position [OF Some p] obtain s where s: "(n, s) \<in> set occs" and ps: "pos s = p" by (auto simp: occs)
  show ?thesis
  proof (cases "is_first occs (n, s)")
    case True
    then have "map_of occs n = Some s" by (simp add: is_first_def)
    moreover have "tools_of (cell (decl_rows obj) p) = nested_tools_of obj s"
      using site_positions(3) [of n s obj] s ps by (simp add: occs)
    ultimately show ?thesis using written_first [OF inv d _ Some] repeated_pos_iff [OF d s] True ps Some by simp
  next
    case False
    with repeated_pos_iff [OF d s] ps Some show ?thesis by simp
  qed
qed

lemma reconciled_groups: "declared_groups (reconciled L obj) = merge_groups L (declared_groups obj)"
proof -
  define occs where "occs = grouped_tool_occurrences obj"
  define st where "st = fold (reconcile_step L obj) occs reconcile_start"
  define R where "R = decl_rows obj"
  let ?P = "repeated_pos occs" and ?m = "\<lambda>n. the (map_of (rc_merged_tools st) n)"
  have d: "distinct (map snd occs)" unfolding occs_def by (rule sites_distinct)
  have inv: "loop_inv L obj occs st" unfolding st_def by (rule loop_inv_all [OF d])
  obtain R1 where len: "map length R1 = map length R"
    and cells: "\<And>p. valid_pos R p \<Longrightarrow> cell R1 p = written st (rc_merged_names st) p (cell R p)"
    and rows: "decl_rows (reconciled L obj) = map (\<lambda>r. nths (R1 ! r) (- {i. (r, i) \<in> ?P})) [0..<length R]"
    using reconciled_rows [of obj L] unfolding occs_def st_def repeated_pos_def R_def by blast
  have "length R1 = length R" using len by (rule map_eq_imp_length_eq)
  then have "concat (decl_rows (reconciled L obj)) = map (cell R1) (filter (\<lambda>p. p \<notin> ?P) (all_pos R))"
    using concat_removed [of R1 ?P] all_pos_lengths [OF len] by (simp add: rows)
  then have "declared_groups (reconciled L obj)
      = List.map_filter (\<lambda>p. if p \<notin> ?P then group_view (cell R1 p) else None) (all_pos R)"
    by (simp add: declared_groups_def map_filter_map map_filter_filter)
  also have "\<dots> = List.map_filter (\<lambda>p. Option.bind (map_option (\<lambda>n. (n, p)) (grouped_declaration_name (cell R p)))
        (\<lambda>(n, p). if p \<notin> ?P then Some (n, ?m n) else None)) (all_pos R)"
  proof (rule map_filter_cong)
    fix p assume "p \<in> set (all_pos R)"
    then have v: "valid_pos R p" by (simp add: all_pos_valid)
    show "(if p \<notin> ?P then group_view (cell R1 p) else None) =
      Option.bind (map_option (\<lambda>n. (n, p)) (grouped_declaration_name (cell R p)))
        (\<lambda>(n, p). if p \<notin> ?P then Some (n, ?m n) else None)"
      unfolding cells [OF v] using reconciled_view [OF inv occs_def, of p] v unfolding R_def by blast
  qed
  also have "\<dots> = List.map_filter (\<lambda>(n, p). if p \<notin> ?P then Some (n, ?m n) else None) (map (\<lambda>(n, s). (n, pos s)) occs)"
    unfolding map_filter_bind occs_def occurrence_positions R_def by simp
  also have "\<dots> = List.map_filter (\<lambda>oc. if is_first occs oc then Some (fst oc, ?m (fst oc)) else None) occs"
    unfolding map_filter_map using repeated_pos_iff [OF d] by (intro map_filter_cong) auto
  also have "\<dots> = merge_groups L (groups_at obj occs)"
    unfolding map_filter_if merged_first [OF inv] by simp
  finally show ?thesis by (simp add: declared_groups_occurrences occs_def)
qed

section \<open>What is left alone\<close>

definition plain_rows :: "json \<Rightarrow> json list list" where
  "plain_rows obj = map (filter (\<lambda>e. grouped_declaration_name e = None)) (decl_rows obj)"

lemma written_grouped:
  assumes inv: "loop_inv L obj occs st" and occs: "occs = grouped_tool_occurrences obj" and p: "valid_pos (decl_rows obj) p"
    and new: "p \<notin> repeated_pos occs"
  shows "grouped_declaration_name (written st (rc_merged_names st) p (cell (decl_rows obj) p)) = None \<longleftrightarrow>
     grouped_declaration_name (cell (decl_rows obj) p) = None"
proof -
  have "group_view e = None \<longleftrightarrow> grouped_declaration_name e = None" for e by (simp add: group_view_def)
  moreover have "group_view (written st (rc_merged_names st) p (cell (decl_rows obj) p)) =
      map_option (\<lambda>n. (n, the (map_of (rc_merged_tools st) n))) (grouped_declaration_name (cell (decl_rows obj) p))"
    using reconciled_view [OF inv occs p] new by (cases "grouped_declaration_name (cell (decl_rows obj) p)") simp_all
  ultimately show ?thesis by (metis option.map_disc_iff)
qed

lemma plain_not_repeated:
  assumes "grouped_declaration_name (cell (decl_rows obj) p) = None"
  shows "p \<notin> repeated_pos (grouped_tool_occurrences obj)" and
    "p \<notin> pos ` ran (map_of (grouped_tool_occurrences obj))"
  using assms site_positions(2) [of _ _ obj]
  by (force simp: repeated_pos_def, force simp: ran_def dest: map_of_SomeD)

lemma reconciled_plain: "plain_rows (reconciled L obj) = plain_rows obj"
proof -
  define occs where "occs = grouped_tool_occurrences obj"
  define st where "st = fold (reconcile_step L obj) occs reconcile_start"
  define R where "R = decl_rows obj"
  let ?g = "\<lambda>e. grouped_declaration_name e = None" and ?P = "repeated_pos occs"
  have inv: "loop_inv L obj occs st"
    unfolding st_def occs_def by (rule loop_inv_all [OF sites_distinct])
  obtain R1 where len: "map length R1 = map length R"
    and cells: "\<And>p. valid_pos R p \<Longrightarrow> cell R1 p = written st (rc_merged_names st) p (cell R p)"
    and rows: "decl_rows (reconciled L obj) = map (\<lambda>r. nths (R1 ! r) (- {i. (r, i) \<in> ?P})) [0..<length R]"
    using reconciled_rows [of obj L] unfolding occs_def st_def repeated_pos_def R_def by blast
  have eq_len: "length R1 = length R" using len by (rule map_eq_imp_length_eq)
  have kept: "(r, i) \<notin> ?P \<and> ?g (R1 ! r ! i) \<longleftrightarrow> ?g (R ! r ! i)" and same: "?g (R ! r ! i) \<Longrightarrow> R1 ! r ! i = R ! r ! i"
    if "r < length R" "i < length (R ! r)" for r i
  proof -
    have v: "valid_pos R (r, i)" using that by (simp add: valid_pos_def)
    have c: "R1 ! r ! i = written st (rc_merged_names st) (r, i) (R ! r ! i)" using cells [OF v] by (simp add: cell_def)
    show "(r, i) \<notin> ?P \<and> ?g (R1 ! r ! i) \<longleftrightarrow> ?g (R ! r ! i)"
      using written_grouped [OF inv occs_def v [unfolded R_def]] plain_not_repeated(1) [of obj "(r, i)"]
      unfolding c occs_def by (auto simp: cell_def R_def)
    show "R1 ! r ! i = R ! r ! i" if "?g (R ! r ! i)"
      unfolding c using plain_not_repeated(2) [of obj "(r, i)"] that inv
      by (intro written_other) (simp add: cell_def R_def loop_inv_def occs_def)
  qed
  have "filter ?g (nths (R1 ! r) (- {i. (r, i) \<in> ?P})) = filter ?g (R ! r)" if r: "r < length R" for r
  proof -
    have lr: "length (R1 ! r) = length (R ! r)" using len r eq_len by (metis nth_map)
    have "filter ?g (nths (R1 ! r) (- {i. (r, i) \<in> ?P})) = map (nth (R1 ! r)) (filter (\<lambda>i. (r, i) \<notin> ?P \<and> ?g (R1 ! r ! i)) [0..<length (R ! r)])"
      by (simp add: nths_upt filter_map comp_def lr conj_commute)
    also have "\<dots> = map (nth (R ! r)) (filter (\<lambda>i. ?g (R ! r ! i)) [0..<length (R ! r)])"
      using kept [OF r] same [OF r] by (intro map_cong filter_cong) auto
    also have "\<dots> = filter ?g (map (nth (R ! r)) [0..<length (R ! r)])" by (simp add: filter_map comp_def)
    finally show ?thesis by (simp add: map_nth)
  qed
  then have "map (filter ?g) (decl_rows (reconciled L obj)) = map (filter ?g) (map (nth R) [0..<length R])"
    unfolding rows by simp
  then show ?thesis by (simp add: plain_rows_def R_def map_nth)
qed

lemma jget_remove:
  "k \<notin> {''tools'', ''input''} \<Longrightarrow> jget (remove_grouped_entries tops per obj) k = jget obj k"
proof -
  assume k: "k \<notin> {''tools'', ''input''}"
  have "jget (fold (\<lambda>(j, is). jmodify ''input'' (f j is)) per obj') k = jget obj' k" for f obj'
    using k by (induction per arbitrary: obj') auto
  then show ?thesis using k by (simp add: remove_grouped_entries_def Let_def)
qed

lemma jget_fold_merged: "k \<notin> {''tools'', ''input''} \<Longrightarrow> jget (fold (fold_merged st) ns obj) k = jget obj k"
  by (induction ns arbitrary: obj)
    (auto simp: fold_merged_def set_grouped_tools_def Let_def split: option.split grouped_tool_site.split)

section \<open>The request after reconciliation\<close>

lemma loop_unmerged:
  assumes "loop_inv L obj occs st" and "rc_merged_names st = []"
  shows "merge_groups L (groups_at obj occs) = groups_at obj occs"
proof -
  have all: "\<forall>oc \<in> set occs. is_first occs oc"
    using assms by (auto simp: loop_inv_def)
  then have "filter (is_first occs) occs = occs" by simp
  moreover have "the (map_of (rc_merged_tools st) (fst oc)) = nested_tools_of obj (snd oc)" if "oc \<in> set occs" for oc
  proof -
    have "map_of occs (fst oc) = Some (snd oc)" using all that by (simp add: is_first_def)
    then have "map_of (rc_merged_tools st) (fst oc) = Some (nested_tools_of obj (snd oc))"
      using assms unfolding loop_inv_def by (metis list.set(1) empty_iff)
    then show ?thesis by simp
  qed
  ultimately show ?thesis unfolding merged_first [OF assms(1)] by (auto simp: groups_at_def)
qed

lemma merge_groups_short: "length gs < 2 \<Longrightarrow> merge_groups L gs = gs"
  by (cases gs; cases "tl gs") (auto simp: merge_groups_def add_group_def)

lemma reconcile_cases:
  "fst (reconcile_grouped_tool_namespaces L payload) = payload
     \<and> merge_groups L (declared_groups payload) = declared_groups payload
   \<or> fst (reconcile_grouped_tool_namespaces L payload) = reconciled L payload"
proof (cases "as_object payload")
  case None
  then have "declared_groups payload = []"
    by (cases payload) (simp_all add: declared_groups_def decl_rows_def tools_of_def get_arr_def List.map_filter_simps)
  with None show ?thesis by (simp add: reconcile_grouped_tool_namespaces_def merge_groups_def)
next
  case (Some m)
  let ?occs = "grouped_tool_occurrences payload"
  let ?st = "fold (reconcile_step L payload) ?occs reconcile_start"
  have inv: "loop_inv L payload ?occs ?st" by (rule loop_inv_all [OF sites_distinct])
  consider "length ?occs < 2" | "\<not> length ?occs < 2" "rc_merged_names ?st = []"
    | "\<not> length ?occs < 2" "rc_merged_names ?st \<noteq> []" by blast
  then show ?thesis
  proof cases
    case 1
    then show ?thesis using Some
      by (simp add: reconcile_grouped_tool_namespaces_def declared_groups_occurrences groups_at_def merge_groups_short)
  next
    case 2
    then show ?thesis using Some loop_unmerged [OF inv]
      by (simp add: reconcile_grouped_tool_namespaces_def declared_groups_occurrences Let_def)
  next
    case 3
    then show ?thesis using Some
      by (simp add: reconcile_grouped_tool_namespaces_def reconciled_def Let_def case_prod_beta)
  qed
qed

lemma reconcile_unrepeated:
  assumes "distinct (map fst (declared_groups payload))"
  shows "fst (reconcile_grouped_tool_namespaces L payload) = payload"
proof -
  let ?occs = "grouped_tool_occurrences payload"
  let ?st = "fold (reconcile_step L payload) ?occs reconcile_start"
  have inv: "loop_inv L payload ?occs ?st" by (rule loop_inv_all [OF sites_distinct])
  have "map fst (declared_groups payload) = map fst ?occs"
    by (simp add: declared_groups_occurrences groups_at_def case_prod_beta)
  with assms have "\<forall>oc \<in> set ?occs. is_first ?occs oc" by (simp add: is_first_def)
  with inv have "set (rc_merged_names ?st) = {}" unfolding loop_inv_def by simp
  then show ?thesis by (simp add: reconcile_grouped_tool_namespaces_def Let_def split: option.split)
qed

text \<open>C17: reconciling the grouped declarations refines the merge of equally named groups: afterwards the
  request declares exactly the merged groups, in the order of their first declaration, so every name occurs
  once and every nested tool of every declaration is still callable under its group; ungrouped declarations
  and the other fields of the request are untouched, and without a repeated name the request is unchanged.\<close>

theorem namespaces_reconciled:
  "let payload' = fst (reconcile_grouped_tool_namespaces L payload) in
     declared_groups payload' = merge_groups L (declared_groups payload)
     \<and> distinct (map fst (declared_groups payload'))
     \<and> list_all (covers L (declared_groups payload')) (declared_groups payload)
     \<and> plain_rows payload' = plain_rows payload
     \<and> (\<forall>k. k \<notin> {''tools'', ''input''} \<longrightarrow> jget payload' k = jget payload k)
     \<and> (distinct (map fst (declared_groups payload)) \<longrightarrow> payload' = payload)"
proof -
  define payload' where "payload' = fst (reconcile_grouped_tool_namespaces L payload)"
  have groups: "declared_groups payload' = merge_groups L (declared_groups payload)"
    and plain: "plain_rows payload' = plain_rows payload"
    and other: "\<forall>k. k \<notin> {''tools'', ''input''} \<longrightarrow> jget payload' k = jget payload k"
    using reconcile_cases [of L payload] reconciled_groups reconciled_plain jget_remove jget_fold_merged
    unfolding payload'_def [symmetric] by (auto simp: reconciled_def Let_def)
  have "payload' = payload" if "distinct (map fst (declared_groups payload))"
    unfolding payload'_def using that by (rule reconcile_unrepeated)
  then show ?thesis
    using groups plain other merge_groups_distinct merge_groups_covers
    by (simp add: payload'_def [symmetric] Let_def list_all_iff)
qed

definition demo_group_of :: "string \<Rightarrow> json" where
  "demo_group_of tool = jobj [(''type'', JStr ''namespace''), (''name'', JStr ''ns''), (''tools'', JArr [jobj [(''name'', JStr tool)]])]"

theorem namespaces_reconciled_witness:
  "map fst (declared_groups (fst (reconcile_grouped_tool_namespaces plain_lib
      (jobj [(''model'', JStr ''m''), (''tools'', JArr [demo_group_of ''f'', demo_group_of ''g''])])))) = [''ns'']
   \<and> jget (fst (reconcile_grouped_tool_namespaces plain_lib
      (jobj [(''model'', JStr ''m''), (''tools'', JArr [demo_group_of ''f'', demo_group_of ''g''])]))) ''model'' = Some (JStr ''m'')"
proof -
  let ?p = "jobj [(''model'', JStr ''m''), (''tools'', JArr [demo_group_of ''f'', demo_group_of ''g''])]"
  have "declared_groups ?p = [(''ns'', [jobj [(''name'', JStr ''f'')]]), (''ns'', [jobj [(''name'', JStr ''g'')]])]"
    by (simp add: declared_groups_def decl_rows_def tools_of_def get_arr_def demo_group_of_def List.map_filter_simps group_view_def
        grouped_declaration_name_def opt_filter_def trim_def trim_start_def trim_end_def is_whitespace_def ws_chars_def)
  then have "map fst (merge_groups plain_lib (declared_groups ?p)) = [''ns'']"
    by (simp add: merge_groups_def add_group_def)
  with namespaces_reconciled [of plain_lib ?p] show ?thesis by (simp add: Let_def)
qed

end
