(* ===== verification/Native_Inspector.thy ===== *)
theory Native_Inspector
  imports Native_Tools Response_Sse Patch_Normalize
begin

text \<open>
  The bounded accounting of a native Responses stream, from \<^verbatim>\<open>crates/proxy/src/native_responses.rs\<close>:
  the frame delimiter, the line-wise rewriting of a frame's data, the repair of \<^verbatim>\<open>apply_patch\<close> calls in
  frames and bodies, and \<^verbatim>\<open>NativeResponseSseInspector\<close>, which reads the provider's events for the
  terminal state, the usage, the sequence numbers and the output items.
\<close>

definition MAX_INSPECTED_SSE_FRAME_BYTES :: nat where "MAX_INSPECTED_SSE_FRAME_BYTES = 256 * 1024"
definition MAX_RELAYED_SSE_FRAME_BYTES :: nat where "MAX_RELAYED_SSE_FRAME_BYTES = 8 * 1024 * 1024"
definition MAX_RETAINED_NATIVE_OUTPUT_ITEMS :: nat where "MAX_RETAINED_NATIVE_OUTPUT_ITEMS = 128"
definition MAX_RETAINED_NATIVE_OUTPUT_BYTES :: nat where "MAX_RETAINED_NATIVE_OUTPUT_BYTES = 1048576"

section \<open>Frames\<close>

definition find_sse_frame_delimiter :: "string \<Rightarrow> (nat \<times> nat) option" where
  "find_sse_frame_delimiter buffer =
     (let lf = map_option (\<lambda>i. (i, 2)) (find_str LFLF buffer);
          crlf = map_option (\<lambda>i. (i, 4)) (find_str CRLFCRLF buffer)
      in case (lf, crlf) of
           (Some l, Some r) \<Rightarrow> Some (if fst l \<le> fst r then l else r)
         | (Some l, None) \<Rightarrow> Some l
         | (None, r) \<Rightarrow> r)"

lemma take_sse_frame_delimiter:
  "take_sse_frame buffer = map_option (\<lambda>(i, n). (take i buffer, drop (i + n) buffer)) (find_sse_frame_delimiter buffer)"
  by (simp add: take_sse_frame_def find_sse_frame_delimiter_def Let_def)

text \<open>\<^verbatim>\<open>std::str::from_utf8(bytes).is_ok()\<close>.\<close>

function valid_utf8 :: "string \<Rightarrow> bool" where
  "valid_utf8 s = (if s = [] then True else snd (utf8_step s) \<and> valid_utf8 (drop (fst (utf8_step s)) s))"
  by pat_completeness auto
termination
  by (relation "measure length") (use utf8_step_pos in auto)

declare valid_utf8.simps [simp del]

text \<open>The joined data of a frame, empty without a data line, and its event name.\<close>

definition frame_data :: "string \<Rightarrow> string" where
  "frame_data frame =
     join [CHR 0x0A] (List.map_filter (\<lambda>line. map_option trim_start (strip_prefix ''data:'' line)) (str_lines frame))"

definition find_map :: "('a \<Rightarrow> 'b option) \<Rightarrow> 'a list \<Rightarrow> 'b option" where
  "find_map f xs = (case List.map_filter f xs of [] \<Rightarrow> None | y # _ \<Rightarrow> Some y)"

definition frame_event_name :: "string \<Rightarrow> string option" where
  "frame_event_name frame = find_map (\<lambda>line. map_option trim (strip_prefix ''event:'' line)) (str_lines frame)"

definition strip_suffix :: "string \<Rightarrow> string \<Rightarrow> string option" where
  "strip_suffix p s = (if ends_with s p then Some (take (length s - length p) s) else None)"

definition split_ending :: "string \<Rightarrow> string \<times> string" where
  "split_ending raw_line =
     (case strip_suffix [CR, LF] raw_line of
        Some line \<Rightarrow> (line, [CR, LF])
      | None \<Rightarrow> (case strip_suffix [LF] raw_line of Some line \<Rightarrow> (line, [LF]) | None \<Rightarrow> (raw_line, [])))"

fun rewrite_lines :: "string \<Rightarrow> bool \<Rightarrow> string list \<Rightarrow> string" where
  "rewrite_lines serialized replaced [] = []"
| "rewrite_lines serialized replaced (raw_line # raw_lines) =
     (let (line, ending) = split_ending raw_line
      in if strip_prefix ''data:'' line \<noteq> None
         then (if replaced then [] else ''data: '' @ serialized @ ending) @ rewrite_lines serialized True raw_lines
         else raw_line @ rewrite_lines serialized replaced raw_lines)"

definition rewrite_sse_data_lines :: "string \<Rightarrow> string \<Rightarrow> string" where
  "rewrite_sse_data_lines frame serialized_data = rewrite_lines serialized_data False (split_inclusive LF frame)"

definition append_delimiter :: "string \<Rightarrow> string \<Rightarrow> string" where
  "append_delimiter frame delimiter = frame @ delimiter"

definition response_id_from_event :: "json \<Rightarrow> string option" where
  "response_id_from_event payload =
     opt_filter (\<lambda>v. \<not> blank v) (or_else (ptr_str payload [''response'', ''id'']) (get_str payload ''response_id''))"

definition hash_identifier :: "ext_lib \<Rightarrow> string \<Rightarrow> string" where
  "hash_identifier L v = concat (map (\<lambda>b. hex_str 2 (byte_val b)) (sha256 L v))"

section \<open>Repair of apply-patch calls\<close>

record apply_patch_repair_tally =
  at_headers :: nat
  at_blanks :: nat

definition empty_tally :: apply_patch_repair_tally where
  "empty_tally = \<lparr>at_headers = 0, at_blanks = 0\<rparr>"

definition from_normalization :: "apply_patch_input_normalization \<Rightarrow> apply_patch_repair_tally" where
  "from_normalization n = \<lparr>at_headers = ap_headers_repaired n, at_blanks = ap_blanks_repaired n\<rparr>"

definition tally_merge :: "apply_patch_repair_tally \<Rightarrow> apply_patch_repair_tally \<Rightarrow> apply_patch_repair_tally" where
  "tally_merge a b = \<lparr>at_headers = at_headers a + at_headers b, at_blanks = at_blanks a + at_blanks b\<rparr>"

definition tally_is_empty :: "apply_patch_repair_tally \<Rightarrow> bool" where
  "tally_is_empty t = (at_headers t = 0 \<and> at_blanks t = 0)"

definition normalize_apply_patch_item_input :: "ext_lib \<Rightarrow> json \<Rightarrow> json \<times> apply_patch_repair_tally" where
  "normalize_apply_patch_item_input L item =
     (if get_str item ''type'' \<noteq> Some ''custom_tool_call'' \<or> get_str item ''name'' \<noteq> Some ''apply_patch''
      then (item, empty_tally)
      else case get_str item ''input'' of
             None \<Rightarrow> (item, empty_tally)
           | Some input \<Rightarrow>
               let normalized = normalize_apply_patch_response_input_with_diagnostic L input
               in if ap_input normalized = input then (item, empty_tally)
                  else (jmodify ''input'' (\<lambda>_. JStr (ap_input normalized)) item, from_normalization normalized))"

fun normalize_items :: "ext_lib \<Rightarrow> json list \<Rightarrow> apply_patch_repair_tally \<Rightarrow> json list \<times> apply_patch_repair_tally" where
  "normalize_items L [] tally = ([], tally)"
| "normalize_items L (item # items) tally =
     (let (item, t) = normalize_apply_patch_item_input L item;
          (items, tally) = normalize_items L items (tally_merge tally t)
      in (item # items, tally))"

definition normalize_apply_patch_event_payload :: "ext_lib \<Rightarrow> json \<Rightarrow> json \<times> apply_patch_repair_tally" where
  "normalize_apply_patch_event_payload L payload =
     (let (payload, tally) =
        (case jget payload ''item'' of
           Some item \<Rightarrow>
             (if as_object item \<noteq> None
              then let (item', t) = normalize_apply_patch_item_input L item
                   in (jmodify ''item'' (\<lambda>_. item') payload, tally_merge empty_tally t)
              else (payload, empty_tally))
         | None \<Rightarrow> (payload, empty_tally))
      in case Option.bind (jget payload ''response'') (\<lambda>r. get_arr r ''output'') of
           None \<Rightarrow> (payload, tally)
         | Some items \<Rightarrow>
             let (items, tally) = normalize_items L items tally
             in (jmodify ''response'' (jmodify ''output'' (\<lambda>_. JArr items)) payload, tally))"

definition normalize_apply_patch_sse_frame :: "ext_lib \<Rightarrow> string \<Rightarrow> (string \<times> apply_patch_repair_tally) option" where
  "normalize_apply_patch_sse_frame L frame_text =
     (if \<not> contains_str frame_text ''custom_tool_call'' then None
      else case json_from_str L (trim (frame_data frame_text)) of
             None \<Rightarrow> None
           | Some payload \<Rightarrow>
               let (payload, tally) = normalize_apply_patch_event_payload L payload
               in if tally_is_empty tally then None
                  else Some (rewrite_sse_data_lines frame_text (json_to_string L payload), tally))"

text \<open>\<^verbatim>\<open>split_inclusive("\n\n")\<close>.\<close>

function split_inclusive_str :: "string \<Rightarrow> string \<Rightarrow> string list" where
  "split_inclusive_str d s =
     (if s = [] then []
      else case find_str d s of
             None \<Rightarrow> [s]
           | Some i \<Rightarrow> if d = [] then [s]
               else take (i + length d) s # split_inclusive_str d (drop (i + length d) s))"
  by pat_completeness auto
termination
  by (relation "measure (\<lambda>(d, s). length s)") auto

declare split_inclusive_str.simps [simp del]

definition normalize_body_part :: "ext_lib \<Rightarrow> string \<Rightarrow> string \<times> bool" where
  "normalize_body_part L part =
     (let (frame, delimiter) = (case strip_suffix LFLF part of Some frame \<Rightarrow> (frame, LFLF) | None \<Rightarrow> (part, []))
      in case normalize_apply_patch_sse_frame L frame of
           Some (rewritten, _) \<Rightarrow> (rewritten @ delimiter, True)
         | None \<Rightarrow> (part, False))"

definition normalize_apply_patch_sse_body :: "ext_lib \<Rightarrow> string \<Rightarrow> string" where
  "normalize_apply_patch_sse_body L body =
     (if \<not> valid_utf8 body then body
      else if \<not> contains_str body ''custom_tool_call'' then body
      else let parts = map (normalize_body_part L) (split_inclusive_str LFLF body)
           in if list_ex snd parts then concat (map fst parts) else body)"

section \<open>The inspector\<close>

datatype native_response_terminal = TCompleted | TFailed | TIncomplete
datatype native_stream_finalization = FCompleted | FFailed | FInterrupted

record native_response_stream_inspection =
  in_terminal :: "native_response_terminal option"
  in_final_usage :: "json option"
  in_provider_response_id_hash :: "string option"
  in_event_count :: nat
  in_sequence_count :: nat
  in_sequences_strictly_increasing :: bool
  in_saw_done_sentinel :: bool
  in_oversized_frame_ignored :: bool
  in_output_items :: "json list"
  in_output_items_bytes :: nat
  in_output_items_incomplete :: bool

definition new_inspection :: native_response_stream_inspection where
  "new_inspection =
     \<lparr>in_terminal = None, in_final_usage = None, in_provider_response_id_hash = None, in_event_count = 0,
      in_sequence_count = 0, in_sequences_strictly_increasing = False, in_saw_done_sentinel = False,
      in_oversized_frame_ignored = False, in_output_items = [], in_output_items_bytes = 0,
      in_output_items_incomplete = False\<rparr>"

definition finalize_native_stream :: "native_response_stream_inspection \<Rightarrow> bool \<Rightarrow> native_stream_finalization" where
  "finalize_native_stream i locally_cancelled =
     (case in_terminal i of
        Some TCompleted \<Rightarrow> FCompleted
      | Some _ \<Rightarrow> FFailed
      | None \<Rightarrow> if locally_cancelled then FInterrupted else FFailed)"

record native_response_sse_inspector =
  is_buffer :: string
  is_last_sequence :: "nat option"
  is_inspection :: native_response_stream_inspection

definition new_inspector :: native_response_sse_inspector where
  "new_inspector = \<lparr>is_buffer = [], is_last_sequence = None, is_inspection = new_inspection\<rparr>"

abbreviation incomplete :: "native_response_stream_inspection \<Rightarrow> native_response_stream_inspection" where
  "incomplete i \<equiv> i\<lparr>in_output_items_incomplete := True\<rparr>"

definition mark_uninspectable_frame :: "native_response_sse_inspector \<Rightarrow> native_response_sse_inspector" where
  "mark_uninspectable_frame s =
     s\<lparr>is_inspection := (is_inspection s)\<lparr>in_oversized_frame_ignored := True, in_output_items_incomplete := True\<rparr>\<rparr>"

definition retain_output_item ::
  "ext_lib \<Rightarrow> json \<Rightarrow> native_response_stream_inspection \<Rightarrow> native_response_stream_inspection" where
  "retain_output_item L item i =
     (if in_output_items_incomplete i then i
      else let bytes = length (json_to_string L item)
           in if MAX_RETAINED_NATIVE_OUTPUT_ITEMS \<le> length (in_output_items i)
                \<or> MAX_RETAINED_NATIVE_OUTPUT_BYTES < sat_add (in_output_items_bytes i) bytes
              then incomplete i
              else i\<lparr>in_output_items_bytes := in_output_items_bytes i + bytes,
                     in_output_items := in_output_items i @ [item]\<rparr>)"

definition note_sequence :: "json \<Rightarrow> native_response_sse_inspector \<Rightarrow> native_response_sse_inspector" where
  "note_sequence payload s =
     (case Option.bind (jget payload ''sequence_number'') as_u64 of
        None \<Rightarrow> s
      | Some sequence \<Rightarrow>
          let i = (is_inspection s)\<lparr>in_sequence_count := in_sequence_count (is_inspection s) + 1\<rparr>;
              i = (if is_some_and (\<lambda>previous. sequence \<le> previous) (is_last_sequence s)
                   then i\<lparr>in_sequences_strictly_increasing := False\<rparr>
                   else if in_sequence_count i = 1 then i\<lparr>in_sequences_strictly_increasing := True\<rparr>
                   else i)
          in s\<lparr>is_inspection := i, is_last_sequence := Some sequence\<rparr>)"

definition note_identity :: "ext_lib \<Rightarrow> json \<Rightarrow> native_response_stream_inspection \<Rightarrow> native_response_stream_inspection" where
  "note_identity L payload i =
     (case response_id_from_event payload of
        None \<Rightarrow> i
      | Some provider_id \<Rightarrow> i\<lparr>in_provider_response_id_hash := Some (hash_identifier L provider_id)\<rparr>)"

definition note_usage :: "json \<Rightarrow> native_response_stream_inspection \<Rightarrow> native_response_stream_inspection" where
  "note_usage payload i =
     (case or_else (jpointer payload [''response'', ''usage'']) (jget payload ''usage'') of
        None \<Rightarrow> i | Some usage \<Rightarrow> i\<lparr>in_final_usage := Some usage\<rparr>)"

definition note_items ::
  "ext_lib \<Rightarrow> string \<Rightarrow> json \<Rightarrow> native_response_stream_inspection \<Rightarrow> native_response_stream_inspection" where
  "note_items L event_kind payload i =
     (if event_kind = ''response.output_item.done'' then
        (case jget payload ''item'' of Some item \<Rightarrow> retain_output_item L item i | None \<Rightarrow> incomplete i)
      else if event_kind = ''response.completed'' \<and> in_output_items i = [] \<and> \<not> in_output_items_incomplete i then
        fold (retain_output_item L) (unwrap_or [] (Option.bind (jpointer payload [''response'', ''output'']) as_array)) i
      else i)"

definition note_terminal :: "string \<Rightarrow> native_response_stream_inspection \<Rightarrow> native_response_stream_inspection" where
  "note_terminal event_kind i =
     (if event_kind = ''response.completed'' then i\<lparr>in_terminal := Some TCompleted\<rparr>
      else if event_kind = ''response.failed'' then i\<lparr>in_terminal := Some TFailed\<rparr>
      else if event_kind = ''response.incomplete'' then i\<lparr>in_terminal := Some TIncomplete\<rparr>
      else i)"

abbreviation upd_inspection ::
  "(native_response_stream_inspection \<Rightarrow> native_response_stream_inspection) \<Rightarrow> native_response_sse_inspector
     \<Rightarrow> native_response_sse_inspector" where
  "upd_inspection f s \<equiv> s\<lparr>is_inspection := f (is_inspection s)\<rparr>"

definition frame_kind :: "string \<Rightarrow> json \<Rightarrow> string" where
  "frame_kind frame payload = unwrap_or [] (or_else (frame_event_name frame) (get_str payload ''type''))"

definition inspect_event :: "ext_lib \<Rightarrow> string \<Rightarrow> json \<Rightarrow> native_response_sse_inspector \<Rightarrow> native_response_sse_inspector" where
  "inspect_event L event_kind payload s =
     (let s = upd_inspection (\<lambda>i. i\<lparr>in_event_count := in_event_count i + 1\<rparr>) s;
          s = note_sequence payload s
      in upd_inspection (\<lambda>i. note_terminal event_kind (note_items L event_kind payload
            (note_usage payload (note_identity L payload i)))) s)"

definition inspect_frame :: "ext_lib \<Rightarrow> string \<Rightarrow> native_response_sse_inspector \<Rightarrow> native_response_sse_inspector" where
  "inspect_frame L frame s =
     (if MAX_INSPECTED_SSE_FRAME_BYTES < length frame then mark_uninspectable_frame s
      else if \<not> valid_utf8 frame then upd_inspection incomplete s
      else let data = trim (frame_data frame)
           in if data = [] then s
              else if data = ''[DONE]'' then upd_inspection (\<lambda>i. i\<lparr>in_saw_done_sentinel := True\<rparr>) s
              else case json_from_str L data of
                     None \<Rightarrow> upd_inspection incomplete s
                   | Some payload \<Rightarrow> inspect_event L (frame_kind frame payload) payload s)"

lemma find_sse_frame_delimiter_bound:
  "find_sse_frame_delimiter b = Some (i, n) \<Longrightarrow> i + n \<le> length b \<and> 0 < n"
  by (auto simp: find_sse_frame_delimiter_def Let_def split: option.splits if_splits dest!: find_str_bound)

function inspect_loop :: "ext_lib \<Rightarrow> native_response_sse_inspector \<Rightarrow> native_response_sse_inspector" where
  "inspect_loop L s =
     (case find_sse_frame_delimiter (is_buffer s) of
        None \<Rightarrow> s
      | Some (index, delimiter_len) \<Rightarrow>
          if MAX_INSPECTED_SSE_FRAME_BYTES < index then mark_uninspectable_frame (s\<lparr>is_buffer := []\<rparr>)
          else inspect_loop L ((inspect_frame L (take index (is_buffer s)) s)
                 \<lparr>is_buffer := drop (index + delimiter_len) (is_buffer s)\<rparr>))"
  by pat_completeness auto
termination
  by (relation "measure (\<lambda>(L, s). length (is_buffer s))") (auto dest!: find_sse_frame_delimiter_bound)

declare inspect_loop.simps [simp del]

definition observe_bytes :: "ext_lib \<Rightarrow> string \<Rightarrow> native_response_sse_inspector \<Rightarrow> native_response_sse_inspector" where
  "observe_bytes L bytes s =
     (if in_oversized_frame_ignored (is_inspection s) then s
      else let s = inspect_loop L (s\<lparr>is_buffer := is_buffer s @ bytes\<rparr>)
           in if MAX_INSPECTED_SSE_FRAME_BYTES < length (is_buffer s)
              then mark_uninspectable_frame (s\<lparr>is_buffer := []\<rparr>) else s)"

definition inspector_finish :: "ext_lib \<Rightarrow> native_response_sse_inspector \<Rightarrow> native_response_sse_inspector" where
  "inspector_finish L s =
     (if \<not> in_oversized_frame_ignored (is_inspection s) \<and> is_buffer s \<noteq> []
      then inspect_frame L (is_buffer s) (s\<lparr>is_buffer := []\<rparr>) else s)"

section \<open>Repairs that are not counted\<close>

text \<open>A repair of an apply-patch call that changes the patch without counting a repaired header or blank line
  (carriage returns removed, or the patch taken out of a JSON wrapper) is computed but not applied: the event payload
  is rewritten, yet the frame is forwarded as it came.\<close>

theorem uncounted_patch_repair_dropped:
  fixes L :: ext_lib
  assumes "json_from_str L (trim (frame_data frame)) = Some payload" and "jget payload ''item'' = Some item"
    and "get_str item ''type'' = Some ''custom_tool_call''" and "get_str item ''name'' = Some ''apply_patch''"
    and "get_str item ''input'' = Some input" and "jpointer payload [''response'', ''output''] = None"
  defines "n \<equiv> normalize_apply_patch_response_input_with_diagnostic L input"
  assumes "ap_input n \<noteq> input" and "ap_headers_repaired n = 0" and "ap_blanks_repaired n = 0"
  shows "normalize_apply_patch_sse_frame L frame = None
    \<and> fst (normalize_apply_patch_event_payload L payload) = jmodify ''item'' (jmodify ''input'' (\<lambda>_. JStr (ap_input n))) payload
    \<and> fst (normalize_apply_patch_event_payload L payload) \<noteq> payload"
proof -
  have obj: "as_object item \<noteq> None" using assms(3) by (cases item) (auto simp: get_str_def)
  have item: "normalize_apply_patch_item_input L item = (jmodify ''input'' (\<lambda>_. JStr (ap_input n)) item, empty_tally)"
    using assms(3-5) assms(8-10)
    by (simp add: normalize_apply_patch_item_input_def n_def [symmetric] from_normalization_def empty_tally_def Let_def)
  have out: "Option.bind (jget payload ''response'') (\<lambda>r. get_arr r ''output'') = None"
    using assms(6) by (auto simp: get_arr_def split: option.splits)
  have same: "jmodify ''item'' (\<lambda>_. f item) payload = jmodify ''item'' f payload" for f
    using assms(2) by (cases payload) (simp_all add: kv_update_const)
  have pay: "normalize_apply_patch_event_payload L payload =
      (jmodify ''item'' (jmodify ''input'' (\<lambda>_. JStr (ap_input n))) payload, empty_tally)"
    using assms(2) obj out by (simp add: normalize_apply_patch_event_payload_def item same tally_merge_def empty_tally_def Let_def)
  have "Option.bind (jget (jmodify ''item'' (jmodify ''input'' (\<lambda>_. JStr (ap_input n))) payload) ''item'') (\<lambda>it. get_str it ''input'')
      = Some (ap_input n)"
    using assms(2,5) by (auto simp: get_str_def bind_eq_Some_conv)
  moreover have "Option.bind (jget payload ''item'') (\<lambda>it. get_str it ''input'') = Some input" using assms(2,5) by simp
  ultimately have "jmodify ''item'' (jmodify ''input'' (\<lambda>_. JStr (ap_input n))) payload \<noteq> payload"
    using assms(8) by (metis option.inject)
  then show ?thesis
    using assms(1) pay by (simp add: normalize_apply_patch_sse_frame_def tally_is_empty_def empty_tally_def)
qed

definition crlf_payload :: json where
  "crlf_payload = jobj [(''type'', JStr ''response.output_item.done''),
     (''item'', jobj [(''type'', JStr ''custom_tool_call''), (''name'', JStr ''apply_patch''), (''input'', JStr [CHR ''a'', CR, LF])])]"

definition crlf_lib :: ext_lib where
  "crlf_lib = plain_lib\<lparr>json_from_str := (\<lambda>_. Some crlf_payload)\<rparr>"

theorem uncounted_patch_repair_dropped_witness:
  "normalize_apply_patch_sse_frame crlf_lib ''data: custom_tool_call'' = None
   \<and> fst (normalize_apply_patch_event_payload crlf_lib crlf_payload) \<noteq> crlf_payload"
proof -
  let ?n = "normalize_apply_patch_response_input_with_diagnostic crlf_lib [CHR ''a'', CR, LF]"
  have n: "?n = normalize_patch_newlines_with_diagnostic [CHR ''a'', CR, LF]"
    by (simp add: normalize_apply_patch_response_input_with_diagnostic_def crlf_lib_def crlf_payload_def)
  have "ap_input ?n = [CHR ''a'', LF] \<and> ap_headers_repaired ?n = 0 \<and> ap_blanks_repaired ?n = 0"
    unfolding n by code_simp
  moreover have "jget crlf_payload ''item'' = Some (jobj [(''type'', JStr ''custom_tool_call''), (''name'', JStr ''apply_patch''),
      (''input'', JStr [CHR ''a'', CR, LF])])" by (simp add: crlf_payload_def)
  moreover have "jpointer crlf_payload [''response'', ''output''] = None" by (simp add: crlf_payload_def)
  moreover have "json_from_str crlf_lib x = Some crlf_payload" for x by (simp add: crlf_lib_def)
  ultimately show ?thesis
    using uncounted_patch_repair_dropped [of crlf_lib "''data: custom_tool_call''" crlf_payload _ "[CHR ''a'', CR, LF]"] by auto
qed

section \<open>What the inspector has accounted for\<close>

text \<open>The events of a stream of frames, with their kinds.\<close>

definition read_event :: "ext_lib \<Rightarrow> string \<Rightarrow> (string \<times> json) option" where
  "read_event L frame =
     (if MAX_INSPECTED_SSE_FRAME_BYTES < length frame \<or> \<not> valid_utf8 frame then None
      else let data = trim (frame_data frame)
           in if data = [] \<or> data = ''[DONE]'' then None
              else map_option (\<lambda>payload. (frame_kind frame payload, payload)) (json_from_str L data))"

definition terminal_of :: "string \<Rightarrow> native_response_terminal option" where
  "terminal_of kind =
     (if kind = ''response.completed'' then Some TCompleted
      else if kind = ''response.failed'' then Some TFailed
      else if kind = ''response.incomplete'' then Some TIncomplete
      else None)"

definition last_of :: "('a \<Rightarrow> 'b option) \<Rightarrow> 'a list \<Rightarrow> 'b option" where
  "last_of f xs = find_map f (rev xs)"

definition sequence_number :: "string \<times> json \<Rightarrow> nat option" where
  "sequence_number e = Option.bind (jget (snd e) ''sequence_number'') as_u64"

definition usage_of :: "string \<times> json \<Rightarrow> json option" where
  "usage_of e = or_else (jpointer (snd e) [''response'', ''usage'']) (jget (snd e) ''usage'')"

lemma last_of_simps [simp]:
  "last_of f [] = None" "last_of f (xs @ [x]) = or_else (f x) (last_of f xs)"
  by (auto simp: last_of_def find_map_def List.map_filter_simps split: option.split)

lemma inspect_frame_event:
  "read_event L frame = Some (kind, payload) \<Longrightarrow> inspect_frame L frame s = inspect_event L kind payload s"
  by (auto simp: read_event_def inspect_frame_def Let_def split: if_splits option.splits)

definition retained_ok :: "ext_lib \<Rightarrow> native_response_stream_inspection \<Rightarrow> bool" where
  "retained_ok L i =
     (length (in_output_items i) \<le> MAX_RETAINED_NATIVE_OUTPUT_ITEMS
      \<and> in_output_items_bytes i = sum_list (map (\<lambda>v. length (json_to_string L v)) (in_output_items i))
      \<and> in_output_items_bytes i \<le> MAX_RETAINED_NATIVE_OUTPUT_BYTES)"

lemma retain_ok: "retained_ok L i \<Longrightarrow> retained_ok L (retain_output_item L item i)"
  by (auto simp: retained_ok_def retain_output_item_def Let_def sat_add_def u64_max_def
      MAX_RETAINED_NATIVE_OUTPUT_BYTES_def not_less split: if_splits)

lemma retained_ok_cong:
  "in_output_items i = in_output_items j \<Longrightarrow> in_output_items_bytes i = in_output_items_bytes j \<Longrightarrow>
     retained_ok L i = retained_ok L j"
  by (simp add: retained_ok_def)

lemma note_items_ok: "retained_ok L i \<Longrightarrow> retained_ok L (note_items L kind payload i)"
proof -
  assume ok: "retained_ok L i"
  have "retained_ok L (fold (retain_output_item L) items i)" for items
    using ok by (induction items arbitrary: i) (simp_all add: retain_ok)
  moreover have "retained_ok L (incomplete i)" using ok by (simp add: retained_ok_def)
  ultimately show ?thesis unfolding note_items_def using retain_ok [OF ok] ok by (simp split: option.split)
qed

lemma retain_keeps [simp]:
  "in_terminal (retain_output_item L item i) = in_terminal i"
  "in_event_count (retain_output_item L item i) = in_event_count i"
  "in_sequence_count (retain_output_item L item i) = in_sequence_count i"
  "in_sequences_strictly_increasing (retain_output_item L item i) = in_sequences_strictly_increasing i"
  "in_final_usage (retain_output_item L item i) = in_final_usage i"
  "in_oversized_frame_ignored (retain_output_item L item i) = in_oversized_frame_ignored i"
  by (simp_all add: retain_output_item_def Let_def)

lemma retain_all_keeps [simp]:
  "in_terminal (fold (retain_output_item L) items i) = in_terminal i"
  "in_event_count (fold (retain_output_item L) items i) = in_event_count i"
  "in_sequence_count (fold (retain_output_item L) items i) = in_sequence_count i"
  "in_sequences_strictly_increasing (fold (retain_output_item L) items i) = in_sequences_strictly_increasing i"
  "in_final_usage (fold (retain_output_item L) items i) = in_final_usage i"
  "in_oversized_frame_ignored (fold (retain_output_item L) items i) = in_oversized_frame_ignored i"
  by (induction items arbitrary: i) simp_all

lemma note_items_keeps [simp]:
  "in_terminal (note_items L kind p i) = in_terminal i"
  "in_event_count (note_items L kind p i) = in_event_count i"
  "in_sequence_count (note_items L kind p i) = in_sequence_count i"
  "in_sequences_strictly_increasing (note_items L kind p i) = in_sequences_strictly_increasing i"
  "in_final_usage (note_items L kind p i) = in_final_usage i"
  "in_oversized_frame_ignored (note_items L kind p i) = in_oversized_frame_ignored i"
  by (simp_all add: note_items_def split: option.split)

definition account_ok :: "ext_lib \<Rightarrow> (string \<times> json) list \<Rightarrow> native_response_sse_inspector \<Rightarrow> bool" where
  "account_ok L events s =
     (let i = is_inspection s; seqs = List.map_filter sequence_number events
      in in_event_count i = length events
         \<and> in_terminal i = last_of (\<lambda>e. terminal_of (fst e)) events
         \<and> in_final_usage i = last_of usage_of events
         \<and> is_last_sequence s = last_of sequence_number events
         \<and> in_sequence_count i = length seqs
         \<and> in_sequences_strictly_increasing i = (seqs \<noteq> [] \<and> sorted_wrt (<) seqs)
         \<and> retained_ok L i)"

lemma last_of_map_filter: "last_of f xs = (if List.map_filter f xs = [] then None else Some (last (List.map_filter f xs)))"
  by (induction xs rule: rev_induct)
    (auto simp: List.map_filter_def split: option.split)

lemma sorted_wrt_less_snoc:
  fixes xs :: "nat list"
  shows "sorted_wrt (<) (xs @ [x]) \<longleftrightarrow> sorted_wrt (<) xs \<and> (xs = [] \<or> last xs < x)"
proof (cases xs rule: rev_cases)
  case (snoc ys y)
  then show ?thesis by (auto simp: sorted_wrt_append dest: less_trans)
qed simp

lemma account_new: "account_ok L [] new_inspector"
  by (simp add: account_ok_def new_inspector_def new_inspection_def retained_ok_def List.map_filter_simps Let_def)

definition seq_ok :: "nat list \<Rightarrow> native_response_sse_inspector \<Rightarrow> bool" where
  "seq_ok seqs s =
     (is_last_sequence s = (if seqs = [] then None else Some (last seqs))
      \<and> in_sequence_count (is_inspection s) = length seqs
      \<and> in_sequences_strictly_increasing (is_inspection s) = (seqs \<noteq> [] \<and> sorted_wrt (<) seqs))"

lemma note_sequence_ok:
  assumes "seq_ok seqs s"
  shows "seq_ok (seqs @ (case sequence_number (kind, payload) of None \<Rightarrow> [] | Some n \<Rightarrow> [n])) (note_sequence payload s)"
proof (cases "sequence_number (kind, payload)")
  case None
  with assms show ?thesis by (simp add: note_sequence_def sequence_number_def)
next
  case (Some n)
  with assms show ?thesis
    by (cases "seqs = []")
      (auto simp: note_sequence_def sequence_number_def seq_ok_def Let_def sorted_wrt_less_snoc)
qed

lemma note_sequence_keeps [simp]:
  "in_terminal (is_inspection (note_sequence payload s)) = in_terminal (is_inspection s)"
  "in_event_count (is_inspection (note_sequence payload s)) = in_event_count (is_inspection s)"
  "in_final_usage (is_inspection (note_sequence payload s)) = in_final_usage (is_inspection s)"
  "in_oversized_frame_ignored (is_inspection (note_sequence payload s)) = in_oversized_frame_ignored (is_inspection s)"
  "retained_ok L (is_inspection (note_sequence payload s)) = retained_ok L (is_inspection s)"
  "is_buffer (note_sequence payload s) = is_buffer s"
  by (auto simp: note_sequence_def Let_def retained_ok_def split: option.split)

lemma note_fields [simp]:
  "in_terminal (note_terminal kind i) = or_else (terminal_of kind) (in_terminal i)"
  "in_terminal (note_usage p i) = in_terminal i" "in_terminal (note_identity L p i) = in_terminal i"
  "in_final_usage (note_usage p i) = or_else (usage_of (kind, p)) (in_final_usage i)"
  "in_final_usage (note_terminal kind i) = in_final_usage i" "in_final_usage (note_identity L p i) = in_final_usage i"
  "in_event_count (note_terminal kind i) = in_event_count i" "in_event_count (note_usage p i) = in_event_count i"
  "in_event_count (note_identity L p i) = in_event_count i"
  "in_sequence_count (note_terminal kind i) = in_sequence_count i" "in_sequence_count (note_usage p i) = in_sequence_count i"
  "in_sequence_count (note_identity L p i) = in_sequence_count i"
  "in_sequences_strictly_increasing (note_terminal kind i) = in_sequences_strictly_increasing i"
  "in_sequences_strictly_increasing (note_usage p i) = in_sequences_strictly_increasing i"
  "in_sequences_strictly_increasing (note_identity L p i) = in_sequences_strictly_increasing i"
  "in_oversized_frame_ignored (note_terminal kind i) = in_oversized_frame_ignored i"
  "in_oversized_frame_ignored (note_usage p i) = in_oversized_frame_ignored i"
  "in_oversized_frame_ignored (note_identity L p i) = in_oversized_frame_ignored i"
  "retained_ok M (note_terminal kind i) = retained_ok M i" "retained_ok M (note_usage p i) = retained_ok M i"
  "retained_ok M (note_identity L p i) = retained_ok M i"
  by (auto simp: note_terminal_def note_usage_def note_identity_def terminal_of_def usage_of_def retained_ok_def
      split: option.split)

lemma account_split:
  "account_ok L events s \<longleftrightarrow>
     seq_ok (List.map_filter sequence_number events) s
     \<and> in_event_count (is_inspection s) = length events
     \<and> in_terminal (is_inspection s) = last_of (\<lambda>e. terminal_of (fst e)) events
     \<and> in_final_usage (is_inspection s) = last_of usage_of events
     \<and> retained_ok L (is_inspection s)"
  by (auto simp: account_ok_def seq_ok_def last_of_map_filter [of sequence_number] Let_def)

lemma account_event:
  assumes "account_ok L events s"
  shows "account_ok L (events @ [(kind, payload)]) (inspect_event L kind payload s)"
proof -
  let ?a = "upd_inspection (\<lambda>i. i\<lparr>in_event_count := in_event_count i + 1\<rparr>) s"
  let ?s = "note_sequence payload ?a"
  let ?seqs = "List.map_filter sequence_number events"
  have "seq_ok ?seqs ?a" using assms by (simp add: account_split seq_ok_def)
  then have seq: "seq_ok (?seqs @ (case sequence_number (kind, payload) of None \<Rightarrow> [] | Some n \<Rightarrow> [n])) ?s"
    by (rule note_sequence_ok)
  moreover have "?seqs @ (case sequence_number (kind, payload) of None \<Rightarrow> [] | Some n \<Rightarrow> [n])
      = List.map_filter sequence_number (events @ [(kind, payload)])"
    by (simp add: List.map_filter_def split: option.split)
  moreover have "seq_ok qs (inspect_event L kind payload s) = seq_ok qs ?s" for qs
    by (simp add: inspect_event_def Let_def seq_ok_def)
  ultimately have "seq_ok (List.map_filter sequence_number (events @ [(kind, payload)])) (inspect_event L kind payload s)"
    by simp
  moreover have "retained_ok L (is_inspection ?a)" using assms by (simp add: account_split retained_ok_def)
  then have "retained_ok L (is_inspection ?s)" by simp
  then have "retained_ok L (note_items L kind payload (note_usage payload (note_identity L payload (is_inspection ?s))))"
    by (intro note_items_ok) simp
  ultimately show ?thesis using assms
    by (simp add: account_split inspect_event_def Let_def note_fields(4) [of _ _ kind])
qed

lemma account_other:
  "account_ok L events s \<Longrightarrow> account_ok L events (upd_inspection incomplete s)"
  "account_ok L events s \<Longrightarrow> account_ok L events (upd_inspection (\<lambda>i. i\<lparr>in_saw_done_sentinel := b\<rparr>) s)"
  "account_ok L events s \<Longrightarrow> account_ok L events (mark_uninspectable_frame s)"
  "account_ok L events s \<Longrightarrow> account_ok L events (s\<lparr>is_buffer := x\<rparr>)"
  by (simp_all add: account_split seq_ok_def retained_ok_def mark_uninspectable_frame_def)

lemma inspect_frame_no_event:
  assumes "read_event L frame = None"
  shows "inspect_frame L frame s = s \<or> inspect_frame L frame s = upd_inspection incomplete s
    \<or> inspect_frame L frame s = upd_inspection (\<lambda>i. i\<lparr>in_saw_done_sentinel := True\<rparr>) s
    \<or> inspect_frame L frame s = mark_uninspectable_frame s"
proof -
  let ?d = "trim (frame_data frame)"
  consider (big) "MAX_INSPECTED_SSE_FRAME_BYTES < length frame"
    | (bad) "\<not> MAX_INSPECTED_SSE_FRAME_BYTES < length frame" "\<not> valid_utf8 frame"
    | (empty) "\<not> MAX_INSPECTED_SSE_FRAME_BYTES < length frame" "valid_utf8 frame" "?d = []"
    | (sentinel) "\<not> MAX_INSPECTED_SSE_FRAME_BYTES < length frame" "valid_utf8 frame" "?d = ''[DONE]''"
    | (unparsed) "\<not> MAX_INSPECTED_SSE_FRAME_BYTES < length frame" "valid_utf8 frame" "?d \<noteq> []" "?d \<noteq> ''[DONE]''"
        "json_from_str L ?d = None"
    using assms by (auto simp: read_event_def Let_def split: if_splits)
  then show ?thesis by cases (simp_all add: inspect_frame_def Let_def)
qed

lemma account_frame:
  assumes "account_ok L (List.map_filter (read_event L) frames) s"
  shows "account_ok L (List.map_filter (read_event L) (frames @ [frame])) (inspect_frame L frame s)"
proof (cases "read_event L frame")
  case (Some e)
  then obtain kind payload where e: "read_event L frame = Some (kind, payload)" by (cases e) auto
  then have "List.map_filter (read_event L) (frames @ [frame]) = List.map_filter (read_event L) frames @ [(kind, payload)]"
    by (simp add: List.map_filter_def)
  with account_event [OF assms, of kind payload] inspect_frame_event [OF e] show ?thesis by simp
next
  case None
  then have "List.map_filter (read_event L) (frames @ [frame]) = List.map_filter (read_event L) frames"
    by (simp add: List.map_filter_def)
  moreover consider "inspect_frame L frame s = s" | "inspect_frame L frame s = upd_inspection incomplete s"
    | "inspect_frame L frame s = upd_inspection (\<lambda>i. i\<lparr>in_saw_done_sentinel := True\<rparr>) s"
    | "inspect_frame L frame s = mark_uninspectable_frame s"
    using inspect_frame_no_event [OF None] by blast
  then have "account_ok L (List.map_filter (read_event L) frames) (inspect_frame L frame s)"
    using assms account_other [OF assms] by cases simp_all
  ultimately show ?thesis by simp
qed

lemma account_frames:
  "account_ok L (List.map_filter (read_event L) frames) (fold (inspect_frame L) frames new_inspector)"
proof (induction frames rule: rev_induct)
  case (snoc frame frames)
  then show ?case by (simp add: account_frame)
qed (simp add: List.map_filter_simps account_new)

section \<open>Streams in chunks\<close>

lemma inspect_frame_buffer [simp]:
  "inspect_frame L f (s\<lparr>is_buffer := b\<rparr>) = (inspect_frame L f s)\<lparr>is_buffer := b\<rparr>"
  by (simp add: inspect_frame_def inspect_event_def note_sequence_def mark_uninspectable_frame_def Let_def split: option.split)

lemma inspect_frames_buffer [simp]:
  "fold (inspect_frame L) fs (s\<lparr>is_buffer := b\<rparr>) = (fold (inspect_frame L) fs s)\<lparr>is_buffer := b\<rparr>"
  by (induction fs arbitrary: s) simp_all

lemma inspect_frame_oversized:
  "length f \<le> MAX_INSPECTED_SSE_FRAME_BYTES \<Longrightarrow>
   in_oversized_frame_ignored (is_inspection (inspect_frame L f s)) = in_oversized_frame_ignored (is_inspection s)"
  by (simp add: inspect_frame_def inspect_event_def Let_def split: option.split)

lemma inspect_frames_oversized:
  "list_all (\<lambda>f. length f \<le> MAX_INSPECTED_SSE_FRAME_BYTES) fs \<Longrightarrow>
   in_oversized_frame_ignored (is_inspection (fold (inspect_frame L) fs s)) = in_oversized_frame_ignored (is_inspection s)"
  by (induction fs arbitrary: s) (simp_all add: inspect_frame_oversized)

lemma inspect_loop_frames:
  assumes "list_all (\<lambda>f. length f \<le> MAX_INSPECTED_SSE_FRAME_BYTES) (snd (drain_frames (is_buffer s)))"
  shows "inspect_loop L s =
     (fold (inspect_frame L) (snd (drain_frames (is_buffer s))) s)\<lparr>is_buffer := fst (drain_frames (is_buffer s))\<rparr>"
  using assms
proof (induction L s rule: inspect_loop.induct)
  case (1 L s)
  show ?case
  proof (cases "find_sse_frame_delimiter (is_buffer s)")
    case None
    then show ?thesis by (simp add: inspect_loop.simps [of L s] drain_frames.simps [of "is_buffer s"] take_sse_frame_delimiter)
  next
    case (Some d)
    obtain i n where d: "d = (i, n)" by fastforce
    let ?f = "take i (is_buffer s)" and ?r = "drop (i + n) (is_buffer s)"
    have drain: "drain_frames (is_buffer s) = (fst (drain_frames ?r), ?f # snd (drain_frames ?r))"
      using Some d by (simp add: drain_frames.simps [of "is_buffer s"] take_sse_frame_delimiter case_prod_beta Let_def)
    have "i \<le> length (is_buffer s)" using find_sse_frame_delimiter_bound Some d by fastforce
    then have "\<not> MAX_INSPECTED_SSE_FRAME_BYTES < i" using 1(2) drain by (simp add: min_absorb2)
    with 1 Some d drain show ?thesis by (simp add: inspect_loop.simps [of L s])
  qed
qed

text \<open>The stream stays within the inspector's bound when every frame and the rest after every chunk do.\<close>

fun within_bound :: "string \<Rightarrow> string list \<Rightarrow> bool" where
  "within_bound buffer [] = True"
| "within_bound buffer (c # cs) =
     (let (rest, frames) = drain_frames (buffer @ c)
      in list_all (\<lambda>f. length f \<le> MAX_INSPECTED_SSE_FRAME_BYTES) (rest # frames) \<and> within_bound rest cs)"

definition inspect_stream :: "ext_lib \<Rightarrow> string list \<Rightarrow> native_response_stream_inspection" where
  "inspect_stream L chunks =
     is_inspection (inspector_finish L (fold (observe_bytes L) chunks new_inspector))"

definition stream_frames :: "string \<Rightarrow> string list" where
  "stream_frames s = (let (rest, frames) = drain_frames s in if rest = [] then frames else frames @ [rest])"

lemma observe_chunks:
  assumes "within_bound (is_buffer s) chunks" and "\<not> in_oversized_frame_ignored (is_inspection s)"
    and "drained (is_buffer s)"
  shows "fold (observe_bytes L) chunks s =
     (fold (inspect_frame L) (snd (feed_all feed_frames (is_buffer s) chunks)) s)
       \<lparr>is_buffer := fst (feed_all feed_frames (is_buffer s) chunks)\<rparr>
   \<and> \<not> in_oversized_frame_ignored (is_inspection (fold (inspect_frame L) (snd (feed_all feed_frames (is_buffer s) chunks)) s))
   \<and> length (fst (feed_all feed_frames (is_buffer s) chunks)) \<le> max (length (is_buffer s)) MAX_INSPECTED_SSE_FRAME_BYTES"
  using assms
proof (induction chunks arbitrary: s)
  case (Cons c cs)
  obtain rest frames where dr: "drain_frames (is_buffer s @ c) = (rest, frames)" by fastforce
  have fits: "list_all (\<lambda>f. length f \<le> MAX_INSPECTED_SSE_FRAME_BYTES) frames" "length rest \<le> MAX_INSPECTED_SSE_FRAME_BYTES"
    "within_bound rest cs" using Cons.prems(1) dr by simp_all
  define s' where "s' = (fold (inspect_frame L) frames s)\<lparr>is_buffer := rest\<rparr>"
  have "observe_bytes L c s = s'"
    using Cons.prems(2) fits inspect_loop_frames [of "s\<lparr>is_buffer := is_buffer s @ c\<rparr>" L]
    by (simp add: observe_bytes_def dr s'_def Let_def)
  moreover have "\<not> in_oversized_frame_ignored (is_inspection s')"
    using Cons.prems(2) inspect_frames_oversized [OF fits(1)] by (simp add: s'_def)
  moreover have "drained rest" using drain_frames_drained [of "is_buffer s @ c"] dr by simp
  ultimately show ?case using Cons.IH [of s'] fits
    by (simp add: s'_def feed_frames_def dr case_prod_beta Let_def max_def split: if_splits)
qed simp

lemma inspect_stream_frames:
  assumes "within_bound [] chunks"
  shows "inspect_stream L chunks = is_inspection (fold (inspect_frame L) (stream_frames (concat chunks)) new_inspector)"
proof -
  have new: "is_buffer new_inspector = []" "\<not> in_oversized_frame_ignored (is_inspection new_inspector)" "drained []"
    by (simp_all add: new_inspector_def new_inspection_def drained_def take_sse_frame_cases)
  have all: "feed_all feed_frames [] chunks = drain_frames (concat chunks)"
    using frame_reader.feed_all_concat [OF new(3)] by (simp add: feed_frames_def)
  obtain rest frames where dr: "drain_frames (concat chunks) = (rest, frames)" by fastforce
  have "fold (observe_bytes L) chunks new_inspector = (fold (inspect_frame L) frames new_inspector)\<lparr>is_buffer := rest\<rparr>
      \<and> \<not> in_oversized_frame_ignored (is_inspection (fold (inspect_frame L) frames new_inspector))"
    using observe_chunks [of new_inspector chunks L] assms new all dr by simp
  then show ?thesis
    by (simp add: inspect_stream_def inspector_finish_def stream_frames_def dr)
qed

text \<open>C25: for a stream within the inspector's bound, however it is cut into chunks, the inspection is exactly
  the account of its events: their number, the last terminal event, the last usage snapshot, and whether
  the sequence numbers increase strictly. The retained output stays within its item and byte limits. The stream
  is finalised as completed only when its last terminal event says so; without a terminal event it is
  interrupted when the client cancelled and failed otherwise.\<close>

theorem native_stream_accounted:
  fixes L :: ext_lib
  assumes "within_bound [] chunks"
  defines "i \<equiv> inspect_stream L chunks"
  defines "events \<equiv> List.map_filter (read_event L) (stream_frames (concat chunks))"
  defines "seqs \<equiv> List.map_filter sequence_number events"
  shows "in_event_count i = length events \<and> in_terminal i = last_of (\<lambda>e. terminal_of (fst e)) events
     \<and> in_final_usage i = last_of usage_of events
     \<and> in_sequence_count i = length seqs
     \<and> in_sequences_strictly_increasing i = (seqs \<noteq> [] \<and> sorted_wrt (<) seqs)
     \<and> length (in_output_items i) \<le> MAX_RETAINED_NATIVE_OUTPUT_ITEMS
     \<and> sum_list (map (\<lambda>v. length (json_to_string L v)) (in_output_items i)) \<le> MAX_RETAINED_NATIVE_OUTPUT_BYTES
     \<and> finalize_native_stream i cancelled =
         (case last_of (\<lambda>e. terminal_of (fst e)) events of
            Some t \<Rightarrow> if t = TCompleted then FCompleted else FFailed
          | None \<Rightarrow> if cancelled then FInterrupted else FFailed)"
proof -
  let ?s = "fold (inspect_frame L) (stream_frames (concat chunks)) new_inspector"
  have i: "i = is_inspection ?s" unfolding i_def by (rule inspect_stream_frames [OF assms(1)])
  have acc: "account_ok L events ?s" unfolding events_def by (rule account_frames)
  then have t: "in_terminal i = last_of (\<lambda>e. terminal_of (fst e)) events" by (simp add: account_split i)
  have "finalize_native_stream i cancelled =
         (case last_of (\<lambda>e. terminal_of (fst e)) events of
            Some t \<Rightarrow> if t = TCompleted then FCompleted else FFailed
          | None \<Rightarrow> if cancelled then FInterrupted else FFailed)"
    by (simp add: finalize_native_stream_def t split: option.split native_response_terminal.split)
  with acc t show ?thesis by (simp add: account_split seq_ok_def retained_ok_def i seqs_def)
qed

theorem native_stream_accounted_witness:
  "finalize_native_stream (inspect_stream plain_lib [''event: response.comp'', ''leted'' @ LFLF]) True = FInterrupted"
proof -
  have bound: "within_bound [] [''event: response.comp'', ''leted'' @ LFLF]"
    by (simp add: drain_frames.simps take_sse_frame_cases starts_with_def MAX_INSPECTED_SSE_FRAME_BYTES_def)
  have "List.map_filter (read_event plain_lib) fs = []" for fs
    by (induction fs) (simp_all add: List.map_filter_simps read_event_def Let_def plain_lib_def)
  with native_stream_accounted [OF bound, of plain_lib True] show ?thesis by simp
qed

end
