(* ===== verification/Native_Relay.thy ===== *)
theory Native_Relay
  imports Native_Inspector Reasoning_Summary
begin

text \<open>
  The client side of a native Responses stream, from \<^verbatim>\<open>crates/proxy/src/native_responses.rs\<close>:
  \<^verbatim>\<open>ReasoningSummaryMirror\<close>, which turns the provider's reasoning text into the summary events Codex
  renders (one projector of \<open>Reasoning_Summary\<close> per item), and \<^verbatim>\<open>NativeResponseSseRelay\<close>, which cuts
  the stream into frames, hands them to the inspector, rewrites the response identity, suppresses the
  mirrored reasoning events and injects the summary events with sequence numbers of their own.
\<close>

section \<open>The reasoning mirror\<close>

definition MAX_TRACKED_ITEMS :: nat where "MAX_TRACKED_ITEMS = 8"

record reasoning_summary_mirror =
  rm_active_item_id :: "string option"
  rm_part_announced :: bool
  rm_text_done :: bool
  rm_mode :: reasoning_summary_mode
  rm_projectors :: "(string \<times> summary_projector) list"
  rm_provider_summary_items :: "string list"

definition new_mirror :: "reasoning_summary_mode \<Rightarrow> reasoning_summary_mirror" where
  "new_mirror mode = \<lparr>rm_active_item_id = None, rm_part_announced = False, rm_text_done = False,
     rm_mode = mode, rm_projectors = [], rm_provider_summary_items = []\<rparr>"

text \<open>\<^verbatim>\<open>while map.len() > MAX { remove the first key }\<close>, on the entries in key order.\<close>

definition drop_first :: "nat \<Rightarrow> 'a list \<Rightarrow> 'a list" where
  "drop_first cap entries = drop (length entries - cap) entries"

definition mirror_begin :: "string \<Rightarrow> reasoning_summary_mirror \<Rightarrow> reasoning_summary_mirror" where
  "mirror_begin item_id m =
     (let m = (if rm_active_item_id m \<noteq> Some item_id
               then m\<lparr>rm_active_item_id := Some item_id, rm_part_announced := False, rm_text_done := False\<rparr> else m);
          ps = (if map_of (rm_projectors m) item_id = None
                then om_insert item_id (new_projector (rm_mode m)) (rm_projectors m) else rm_projectors m)
      in m\<lparr>rm_projectors := drop_first MAX_TRACKED_ITEMS ps\<rparr>)"

definition with_projector ::
  "(summary_projector \<Rightarrow> string option \<times> summary_projector) \<Rightarrow> string \<Rightarrow> reasoning_summary_mirror
     \<Rightarrow> string option \<times> reasoning_summary_mirror" where
  "with_projector f item_id m =
     (case map_of (rm_projectors m) item_id of
        None \<Rightarrow> (None, m)
      | Some p \<Rightarrow> (fst (f p), m\<lparr>rm_projectors := om_insert item_id (snd (f p)) (rm_projectors m)\<rparr>))"

definition push_delta :: "string \<Rightarrow> string \<Rightarrow> reasoning_summary_mirror \<Rightarrow> string option \<times> reasoning_summary_mirror" where
  "push_delta item_id delta = with_projector (projector_push delta) item_id"

definition finish_text :: "string \<Rightarrow> reasoning_summary_mirror \<Rightarrow> string option \<times> reasoning_summary_mirror" where
  "finish_text item_id = with_projector projector_finish item_id"

definition mirror_summary :: "string \<Rightarrow> reasoning_summary_mirror \<Rightarrow> string option" where
  "mirror_summary item_id m =
     opt_filter (\<lambda>t. t \<noteq> []) (map_option projector_summary (map_of (rm_projectors m) item_id))"

definition mirror_summaries :: "reasoning_summary_mirror \<Rightarrow> (string \<times> string) list" where
  "mirror_summaries m =
     filter (\<lambda>e. snd e \<noteq> []) (map (\<lambda>(item_id, p). (item_id, projector_summary p)) (rm_projectors m))"

definition finish_item :: "string \<Rightarrow> reasoning_summary_mirror \<Rightarrow> reasoning_summary_mirror" where
  "finish_item item_id m =
     (if rm_active_item_id m = Some item_id
      then m\<lparr>rm_active_item_id := None, rm_part_announced := False, rm_text_done := False\<rparr> else m)"

fun os_insert :: "'a::linorder \<Rightarrow> 'a list \<Rightarrow> 'a list" where
  "os_insert x [] = [x]"
| "os_insert x (y # ys) = (if x < y then x # y # ys else if x = y then y # ys else y # os_insert x ys)"

definition mark_provider_summary :: "string \<Rightarrow> reasoning_summary_mirror \<Rightarrow> reasoning_summary_mirror" where
  "mark_provider_summary item_id m =
     m\<lparr>rm_provider_summary_items := drop_first MAX_TRACKED_ITEMS (os_insert item_id (rm_provider_summary_items m))\<rparr>"

definition provider_writes_summary :: "string \<Rightarrow> reasoning_summary_mirror \<Rightarrow> bool" where
  "provider_writes_summary item_id m = (item_id \<in> set (rm_provider_summary_items m))"

section \<open>Summary events\<close>

definition reasoning_summary_part :: "string \<Rightarrow> json" where
  "reasoning_summary_part t = jobj [(''type'', JStr ''summary_text''), (''text'', JStr t)]"

definition summary_event :: "string \<Rightarrow> string \<Rightarrow> string \<Rightarrow> nat \<Rightarrow> string \<times> json \<Rightarrow> json" where
  "summary_event kind response_id item_id output_index extra =
     jobj [(''type'', JStr kind), (''response_id'', JStr response_id), (''item_id'', JStr item_id),
       (''output_index'', jnat output_index), (''summary_index'', jnat 0), extra]"

definition reasoning_summary_part_added :: "string \<Rightarrow> string \<Rightarrow> nat \<Rightarrow> json" where
  "reasoning_summary_part_added response_id item_id output_index =
     summary_event ''response.reasoning_summary_part.added'' response_id item_id output_index
       (''part'', reasoning_summary_part [])"

definition reasoning_summary_text_delta :: "string \<Rightarrow> string \<Rightarrow> nat \<Rightarrow> string \<Rightarrow> json" where
  "reasoning_summary_text_delta response_id item_id output_index delta =
     summary_event ''response.reasoning_summary_text.delta'' response_id item_id output_index (''delta'', JStr delta)"

definition reasoning_summary_text_done :: "string \<Rightarrow> string \<Rightarrow> nat \<Rightarrow> string \<Rightarrow> json" where
  "reasoning_summary_text_done response_id item_id output_index t =
     summary_event ''response.reasoning_summary_text.done'' response_id item_id output_index (''text'', JStr t)"

definition reasoning_summary_part_done :: "string \<Rightarrow> string \<Rightarrow> nat \<Rightarrow> string \<Rightarrow> json" where
  "reasoning_summary_part_done response_id item_id output_index t =
     summary_event ''response.reasoning_summary_part.done'' response_id item_id output_index
       (''part'', reasoning_summary_part t)"

definition summary_empty :: "json \<Rightarrow> bool" where
  "summary_empty item = (case get_arr item ''summary'' of None \<Rightarrow> True | Some xs \<Rightarrow> xs = [])"

definition set_summary :: "string \<Rightarrow> json \<Rightarrow> json" where
  "set_summary t item = jinsert ''summary'' (JArr [reasoning_summary_part t]) item"

definition reasoning_content_text :: "json \<Rightarrow> string" where
  "reasoning_content_text item =
     concat (map (\<lambda>part. unwrap_or [] (get_str part ''text''))
       (filter (\<lambda>part. get_str part ''type'' = Some ''reasoning_text'') (unwrap_or [] (get_arr item ''content''))))"

definition present_item :: "reasoning_summary_mode \<Rightarrow> json \<Rightarrow> json" where
  "present_item mode item =
     (if as_object item = None \<or> get_str item ''type'' \<noteq> Some ''reasoning'' then item
      else if \<not> summary_empty item then item
      else let projected = project (reasoning_content_text item) mode
           in if projected \<noteq> [] then set_summary projected item else item)"

definition present_reasoning_summary_in_response :: "reasoning_summary_mode option \<Rightarrow> json \<Rightarrow> json" where
  "present_reasoning_summary_in_response mode response =
     (case mode of
        None \<Rightarrow> response
      | Some mode \<Rightarrow> jmodify ''output'' (arr_modify (map (present_item mode))) response)"

definition sse_frame :: "ext_lib \<Rightarrow> string \<Rightarrow> json \<Rightarrow> string" where
  "sse_frame L event payload =
     ''event: '' @ event @ [LF] @ ''data: '' @ json_to_string L payload @ [LF, LF]"

section \<open>The relay\<close>

record native_response_sse_relay =
  rl_buffer :: string
  rl_inspector :: native_response_sse_inspector
  rl_provider_response_id :: "string option"
  rl_local_response_id :: string
  rl_present :: bool
  rl_sequence_offset :: nat
  rl_reasoning :: reasoning_summary_mirror
  rl_apply_patch_repairs :: apply_patch_repair_tally

text \<open>\<^verbatim>\<open>new(local_id).with_reasoning_summary(mode)\<close>; the default mode is \<^verbatim>\<open>Smart\<close>.\<close>

definition new_relay :: "string \<Rightarrow> reasoning_summary_mode option \<Rightarrow> native_response_sse_relay" where
  "new_relay local_id mode =
     \<lparr>rl_buffer = [], rl_inspector = new_inspector, rl_provider_response_id = None,
      rl_local_response_id = local_id, rl_present = (mode \<noteq> None), rl_sequence_offset = 0,
      rl_reasoning = new_mirror (unwrap_or Smart mode), rl_apply_patch_repairs = empty_tally\<rparr>"

text \<open>The mirror and the events it injects, in order.\<close>

type_synonym mirrored = "reasoning_summary_mirror \<times> json list"

definition announce_part :: "string \<Rightarrow> string \<Rightarrow> nat \<Rightarrow> mirrored \<Rightarrow> mirrored" where
  "announce_part response_id item_id output_index mi =
     (let (m, injected) = mi
      in if rm_part_announced m then mi
         else (m\<lparr>rm_part_announced := True\<rparr>, injected @ [reasoning_summary_part_added response_id item_id output_index]))"

definition push_text_delta :: "string \<Rightarrow> string \<Rightarrow> nat \<Rightarrow> string option \<Rightarrow> json list \<Rightarrow> json list" where
  "push_text_delta response_id item_id output_index piece injected =
     (case piece of
        None \<Rightarrow> injected
      | Some t \<Rightarrow> injected @ [reasoning_summary_text_delta response_id item_id output_index t])"

definition finish_reasoning_summary :: "string \<Rightarrow> string \<Rightarrow> nat \<Rightarrow> mirrored \<Rightarrow> mirrored" where
  "finish_reasoning_summary response_id item_id output_index mi =
     (let (m, injected) = announce_part response_id item_id output_index mi
      in if rm_text_done m then (m, injected)
         else let m = m\<lparr>rm_text_done := True\<rparr>;
                  (tail, m) = finish_text item_id m;
                  injected = push_text_delta response_id item_id output_index tail injected
              in case mirror_summary item_id m of
                   None \<Rightarrow> (m, injected)
                 | Some t \<Rightarrow>
                     (m, injected @ [reasoning_summary_text_done response_id item_id output_index t,
                                     reasoning_summary_part_done response_id item_id output_index t]))"

definition mirror_output_item_done :: "string \<Rightarrow> nat \<Rightarrow> json \<Rightarrow> reasoning_summary_mirror \<Rightarrow> json \<times> mirrored" where
  "mirror_output_item_done response_id output_index payload m =
     (case ptr_str payload [''item'', ''id''] of
        None \<Rightarrow> (payload, m, [])
      | Some item_id \<Rightarrow>
          if ptr_str payload [''item'', ''type''] \<noteq> Some ''reasoning'' then (payload, m, [])
          else if provider_writes_summary item_id m then (payload, finish_item item_id m, [])
          else if \<not> summary_empty (unwrap_or JNull (jget payload ''item'')) then (payload, finish_item item_id m, [])
          else case mirror_summary item_id m of
                 None \<Rightarrow> (payload, finish_item item_id m, [])
               | Some t \<Rightarrow>
                   let (m, injected) = finish_reasoning_summary response_id item_id output_index (m, [])
                   in (jmodify ''item'' (set_summary t) payload, finish_item item_id m, injected))"

definition complete_item :: "reasoning_summary_mirror \<Rightarrow> (string \<times> string) list \<Rightarrow> json \<Rightarrow> json" where
  "complete_item m texts item =
     (if get_str item ''type'' \<noteq> Some ''reasoning'' \<or> \<not> summary_empty item then item
      else case get_str item ''id'' of
             None \<Rightarrow> item
           | Some item_id \<Rightarrow>
               if provider_writes_summary item_id m then item
               else case map_of texts item_id of None \<Rightarrow> item | Some t \<Rightarrow> set_summary t item)"

definition mirror_reasoning_event :: "string \<Rightarrow> json \<Rightarrow> reasoning_summary_mirror \<Rightarrow> json \<times> mirrored" where
  "mirror_reasoning_event response_id payload m =
     (let event_type = unwrap_or [] (get_str payload ''type'');
          output_index = unwrap_or 0 (Option.bind (jget payload ''output_index'') as_u64)
      in if event_type = ''response.output_item.added'' then
           (if ptr_str payload [''item'', ''type''] \<noteq> Some ''reasoning'' then (payload, m, [])
            else case ptr_str payload [''item'', ''id''] of
                   None \<Rightarrow> (payload, m, [])
                 | Some item_id \<Rightarrow>
                     let m = mirror_begin item_id m;
                         provider_summary = is_some_and (\<lambda>xs. xs \<noteq> []) (Option.bind (jpointer payload [''item'', ''summary'']) as_array)
                     in (payload, if provider_summary then mark_provider_summary item_id m else m, []))
         else if event_type \<in> {''response.reasoning_summary_part.added'', ''response.reasoning_summary_text.delta'',
             ''response.reasoning_summary_text.done'', ''response.reasoning_summary_part.done''} then
           (payload, (case get_str payload ''item_id'' of None \<Rightarrow> m | Some item_id \<Rightarrow> mark_provider_summary item_id m), [])
         else if event_type = ''response.content_part.added'' then
           (case get_str payload ''item_id'' of
              None \<Rightarrow> (payload, m, [])
            | Some item_id \<Rightarrow>
                if ptr_str payload [''part'', ''type''] \<noteq> Some ''reasoning_text'' then (payload, m, [])
                else let m = mirror_begin item_id m
                     in if provider_writes_summary item_id m then (payload, m, [])
                        else (payload, announce_part response_id item_id output_index (m, [])))
         else if event_type = ''response.reasoning_text.delta'' then
           (case get_str payload ''item_id'' of
              None \<Rightarrow> (payload, m, [])
            | Some item_id \<Rightarrow>
                let delta = unwrap_or [] (get_str payload ''delta'');
                    m = mirror_begin item_id m
                in if provider_writes_summary item_id m then (payload, m, [])
                   else let (piece, m) = push_delta item_id delta m;
                            (m, injected) = announce_part response_id item_id output_index (m, [])
                        in (payload, m, push_text_delta response_id item_id output_index piece injected))
         else if event_type = ''response.reasoning_text.done'' then
           (case get_str payload ''item_id'' of
              None \<Rightarrow> (payload, m, [])
            | Some item_id \<Rightarrow>
                let m = mirror_begin item_id m
                in if provider_writes_summary item_id m then (payload, m, [])
                   else (payload, finish_reasoning_summary response_id item_id output_index (m, [])))
         else if event_type = ''response.output_item.done'' then
           mirror_output_item_done response_id output_index payload m
         else if event_type = ''response.completed'' then
           (jmodify ''response'' (jmodify ''output'' (arr_modify (map (complete_item m (mirror_summaries m))))) payload, m, [])
         else (payload, m, []))"

definition suppress_provider_reasoning :: "bool \<Rightarrow> reasoning_summary_mirror \<Rightarrow> string \<Rightarrow> json \<Rightarrow> bool" where
  "suppress_provider_reasoning present m event_type payload =
     (let shown = is_some_and (\<lambda>item_id. \<not> provider_writes_summary item_id m) (get_str payload ''item_id'')
      in if \<not> present then False
         else if event_type \<in> {''response.content_part.added'', ''response.content_part.done''}
         then ptr_str payload [''part'', ''type''] = Some ''reasoning_text'' \<and> shown
         else if event_type \<in> {''response.reasoning_text.delta'', ''response.reasoning_text.done''} then shown
         else False)"

definition number_event :: "nat \<Rightarrow> json \<Rightarrow> json" where
  "number_event n event = jinsert ''sequence_number'' (jnat n) event"

text \<open>
  The decision of \<^verbatim>\<open>relay_frame\<close> for a parsed payload: \<open>Untouched\<close> forwards the frame as it is, and
  \<open>Shown own injected\<close> renders the provider's event (unless it is suppressed) and the injected events.
\<close>

datatype relayed = Untouched | Shown "json option" "json list"

definition learn_identity :: "json \<Rightarrow> native_response_sse_relay \<Rightarrow> native_response_sse_relay" where
  "learn_identity payload r =
     (if rl_provider_response_id r = None
      then r\<lparr>rl_provider_response_id := response_id_from_event payload\<rparr> else r)"

definition hide_identity :: "json \<Rightarrow> native_response_sse_relay \<Rightarrow> json \<times> bool" where
  "hide_identity payload r =
     (case rl_provider_response_id r of
        None \<Rightarrow> (payload, False)
      | Some pid \<Rightarrow> rewrite_provider_response_identity payload pid (rl_local_response_id r))"

definition base_sequence :: "json \<Rightarrow> nat option" where
  "base_sequence payload = Option.bind (jget payload ''sequence_number'') as_u64"

definition event_type_of :: "json \<Rightarrow> string" where
  "event_type_of payload = unwrap_or [] (get_str payload ''type'')"

definition present_event ::
  "bool \<Rightarrow> string \<Rightarrow> reasoning_summary_mirror \<Rightarrow> nat \<Rightarrow> json \<Rightarrow> bool \<Rightarrow> relayed \<times> reasoning_summary_mirror \<times> nat" where
  "present_event present local_id m offset payload identity_rewritten =
     (let base = base_sequence payload;
          event_type = event_type_of payload;
          (payload, m, injected) =
            (if present \<and> base \<noteq> None then mirror_reasoning_event local_id payload m else (payload, m, []));
          mutated = (present \<and> event_type \<in>
            {''response.output_item.added'', ''response.output_item.done'', ''response.completed''});
          suppressed = suppress_provider_reasoning present m event_type payload
      in if \<not> identity_rewritten \<and> injected = [] \<and> \<not> mutated \<and> \<not> suppressed then (Untouched, m, offset)
         else (Shown (if suppressed then None
                      else Some (case base of None \<Rightarrow> payload | Some b \<Rightarrow> number_event (b + offset) payload))
                     (case base of
                        None \<Rightarrow> []
                      | Some b \<Rightarrow> map (\<lambda>(index, event). number_event (b + offset + 1 + index) event) (enumerate 0 injected)),
               m, offset + length injected))"

definition relay_event :: "json \<Rightarrow> native_response_sse_relay \<Rightarrow> relayed \<times> native_response_sse_relay" where
  "relay_event payload r =
     (let r = learn_identity payload r;
          (payload, identity_rewritten) = hide_identity payload r;
          (shown, m, offset) = present_event (rl_present r) (rl_local_response_id r) (rl_reasoning r)
            (rl_sequence_offset r) payload identity_rewritten
      in (shown, r\<lparr>rl_reasoning := m, rl_sequence_offset := offset\<rparr>))"

definition relay_frame ::
  "ext_lib \<Rightarrow> string \<Rightarrow> string \<Rightarrow> native_response_sse_relay \<Rightarrow> string list \<times> native_response_sse_relay" where
  "relay_frame L frame delimiter r =
     (if \<not> valid_utf8 frame then ([append_delimiter frame delimiter], r)
      else case json_from_str L (trim (frame_data frame)) of
        None \<Rightarrow> ([append_delimiter frame delimiter], r)
      | Some payload \<Rightarrow>
          (case relay_event payload r of
             (Untouched, r) \<Rightarrow> ([append_delimiter frame delimiter], r)
           | (Shown own injected, r) \<Rightarrow>
               ((case own of
                   None \<Rightarrow> []
                 | Some p \<Rightarrow> [append_delimiter (rewrite_sse_data_lines frame (json_to_string L p)) delimiter])
                @ map (\<lambda>event. sse_frame L (event_type_of event) event) injected, r)))"

definition relay_delimited ::
  "ext_lib \<Rightarrow> string \<Rightarrow> string \<Rightarrow> native_response_sse_relay \<Rightarrow> string list \<times> native_response_sse_relay" where
  "relay_delimited L frame delimiter r =
     (if MAX_INSPECTED_SSE_FRAME_BYTES < length frame
      then ([append_delimiter frame delimiter], r\<lparr>rl_inspector := mark_uninspectable_frame (rl_inspector r)\<rparr>)
      else
        let (frame, r) =
          (case (if valid_utf8 frame then normalize_apply_patch_sse_frame L frame else None) of
             Some (rewritten, tally) \<Rightarrow>
               (rewritten, r\<lparr>rl_apply_patch_repairs := tally_merge (rl_apply_patch_repairs r) tally\<rparr>)
           | None \<Rightarrow> (frame, r));
            r = r\<lparr>rl_inspector := observe_bytes L delimiter (observe_bytes L frame (rl_inspector r))\<rparr>
        in relay_frame L frame delimiter r)"

function relay_loop :: "ext_lib \<Rightarrow> native_response_sse_relay \<Rightarrow> string list \<times> native_response_sse_relay" where
  "relay_loop L r =
     (case find_sse_frame_delimiter (rl_buffer r) of
        None \<Rightarrow> ([], r)
      | Some (index, delimiter_len) \<Rightarrow>
          let frame = take index (rl_buffer r);
              delimiter = take delimiter_len (drop index (rl_buffer r));
              rest = drop (index + delimiter_len) (rl_buffer r);
              (out, r) = relay_delimited L frame delimiter r;
              (more_out, r) = relay_loop L (r\<lparr>rl_buffer := rest\<rparr>)
          in (out @ more_out, r))"
  by pat_completeness auto
termination
  by (relation "measure (\<lambda>(L, r). length (rl_buffer r))") (auto dest!: find_sse_frame_delimiter_bound)

declare relay_loop.simps [simp del]

definition relay_bytes :: "ext_lib \<Rightarrow> string \<Rightarrow> native_response_sse_relay \<Rightarrow> string list \<times> native_response_sse_relay" where
  "relay_bytes L bytes r =
     (let (ready, r) = relay_loop L (r\<lparr>rl_buffer := rl_buffer r @ bytes\<rparr>);
          r = (if MAX_INSPECTED_SSE_FRAME_BYTES < length (rl_buffer r)
               then let r = r\<lparr>rl_inspector := mark_uninspectable_frame (rl_inspector r)\<rparr>
                    in if MAX_RELAYED_SSE_FRAME_BYTES < length (rl_buffer r) then r\<lparr>rl_buffer := []\<rparr> else r
               else r)
      in (ready, r))"

definition relay_finish :: "ext_lib \<Rightarrow> native_response_sse_relay \<Rightarrow> string list \<times> native_response_sse_relay" where
  "relay_finish L r =
     (if rl_buffer r = [] then ([], r\<lparr>rl_inspector := inspector_finish L (rl_inspector r)\<rparr>)
      else let frame = rl_buffer r;
               r = r\<lparr>rl_buffer := [], rl_inspector := inspector_finish L (observe_bytes L frame (rl_inspector r))\<rparr>
           in relay_frame L frame [] r)"

section \<open>Frames do not depend on the chunks\<close>

function drain_delimited :: "string \<Rightarrow> (string \<times> string) list" where
  "drain_delimited buffer =
     (case find_sse_frame_delimiter buffer of
        None \<Rightarrow> []
      | Some (i, n) \<Rightarrow> (take i buffer, take n (drop i buffer)) # drain_delimited (drop (i + n) buffer))"
  by pat_completeness auto
termination
  by (relation "measure length") (auto dest!: find_sse_frame_delimiter_bound)

declare drain_delimited.simps [simp del]

fun relay_all :: "ext_lib \<Rightarrow> (string \<times> string) list \<Rightarrow> native_response_sse_relay \<Rightarrow> string list \<times> native_response_sse_relay" where
  "relay_all L [] r = ([], r)"
| "relay_all L ((f, d) # fs) r =
     (let (out, r) = relay_delimited L f d r; (rest, r) = relay_all L fs r in (out @ rest, r))"

lemma learn_identity_buffer:
  "learn_identity p (r\<lparr>rl_buffer := b\<rparr>) = (learn_identity p r)\<lparr>rl_buffer := b\<rparr>"
  "hide_identity p (r\<lparr>rl_buffer := b\<rparr>) = hide_identity p r"
  by (simp_all add: learn_identity_def hide_identity_def split: option.split)

lemma relay_event_buffer [simp]:
  "relay_event p (r\<lparr>rl_buffer := b\<rparr>) = (fst (relay_event p r), (snd (relay_event p r))\<lparr>rl_buffer := b\<rparr>)"
  by (simp add: relay_event_def learn_identity_buffer Let_def case_prod_beta)

lemma relay_frame_buffer:
  "relay_frame L f d (r\<lparr>rl_buffer := b\<rparr>) = (fst (relay_frame L f d r), (snd (relay_frame L f d r))\<lparr>rl_buffer := b\<rparr>)"
  by (auto simp: relay_frame_def case_prod_beta split: option.split relayed.split)

lemma relay_delimited_buffer [simp]:
  "relay_delimited L f d (r\<lparr>rl_buffer := b\<rparr>) =
     (fst (relay_delimited L f d r), (snd (relay_delimited L f d r))\<lparr>rl_buffer := b\<rparr>)"
proof -
  have upd: "r\<lparr>rl_buffer := b, rl_inspector := i\<rparr> = r\<lparr>rl_inspector := i, rl_buffer := b\<rparr>"
    "r\<lparr>rl_buffer := b, rl_apply_patch_repairs := t, rl_inspector := i\<rparr> = r\<lparr>rl_apply_patch_repairs := t, rl_inspector := i, rl_buffer := b\<rparr>"
    for i t and r :: native_response_sse_relay by simp_all
  show ?thesis
    by (simp add: relay_delimited_def Let_def case_prod_beta upd relay_frame_buffer split: option.split)
qed

lemma relay_all_buffer [simp]:
  "relay_all L fs (r\<lparr>rl_buffer := b\<rparr>) = (fst (relay_all L fs r), (snd (relay_all L fs r))\<lparr>rl_buffer := b\<rparr>)"
  by (induction fs arbitrary: r) (auto simp: case_prod_beta Let_def)

lemma relay_all_append:
  "relay_all L (fs @ gs) r =
     (let (out, r) = relay_all L fs r; (out', r) = relay_all L gs r in (out @ out', r))"
  by (induction fs arbitrary: r) (auto simp: case_prod_beta Let_def)

lemma relay_loop_all:
  "relay_loop L r = (fst (relay_all L (drain_delimited (rl_buffer r)) r),
     (snd (relay_all L (drain_delimited (rl_buffer r)) r))\<lparr>rl_buffer := fst (drain_frames (rl_buffer r))\<rparr>)"
proof (induction L r rule: relay_loop.induct)
  case (1 L r)
  show ?case
  proof (cases "find_sse_frame_delimiter (rl_buffer r)")
    case None
    then show ?thesis
      by (simp add: relay_loop.simps [of L r] drain_delimited.simps [of "rl_buffer r"] drain_frames.simps [of "rl_buffer r"]
          take_sse_frame_delimiter)
  next
    case (Some d)
    obtain i n where d: "d = (i, n)" by fastforce
    let ?f = "take i (rl_buffer r)" and ?d = "take n (drop i (rl_buffer r))" and ?rest = "drop (i + n) (rl_buffer r)"
    obtain out r1 where o1: "relay_delimited L ?f ?d r = (out, r1)" by fastforce
    have "drain_frames (rl_buffer r) = (fst (drain_frames ?rest), ?f # snd (drain_frames ?rest))"
      using Some d by (simp add: drain_frames.simps [of "rl_buffer r"] take_sse_frame_delimiter case_prod_beta Let_def)
    moreover have "drain_delimited (rl_buffer r) = (?f, ?d) # drain_delimited ?rest"
      using Some d by (simp add: drain_delimited.simps [of "rl_buffer r"])
    moreover have "relay_loop L (r1\<lparr>rl_buffer := ?rest\<rparr>) =
        (fst (relay_all L (drain_delimited ?rest) r1), (snd (relay_all L (drain_delimited ?rest) r1))\<lparr>rl_buffer := fst (drain_frames ?rest)\<rparr>)"
      using 1 [OF Some d [symmetric] refl refl refl o1 [symmetric] refl] by simp
    ultimately show ?thesis using Some d o1
      by (simp add: relay_loop.simps [of L r] case_prod_beta Let_def)
  qed
qed

lemma find_delimiter_append:
  assumes "find_sse_frame_delimiter b = Some (i, n)"
  shows "find_sse_frame_delimiter (b @ x) = Some (i, n)"
proof -
  have len: "i + n \<le> length b" using find_sse_frame_delimiter_bound [OF assms] by simp
  have "take_sse_frame b = Some (take i b, drop (i + n) b)" using assms by (simp add: take_sse_frame_delimiter)
  then have "take_sse_frame (b @ x) = Some (take i b, drop (i + n) b @ x)" by (rule take_sse_frame_append)
  then obtain i' n' where f: "find_sse_frame_delimiter (b @ x) = Some (i', n')"
    and t: "take i' (b @ x) = take i b" and d: "drop (i' + n') (b @ x) = drop (i + n) b @ x"
    by (auto simp: take_sse_frame_delimiter)
  have "i' + n' \<le> length (b @ x)" using find_sse_frame_delimiter_bound [OF f] by simp
  moreover from arg_cong [OF t, of length] have "i' = i" using len calculation by simp
  moreover from arg_cong [OF d, of length] have "i' + n' = i + n" using len calculation by simp
  ultimately show ?thesis using f by simp
qed

lemma drain_delimited_append:
  "drain_delimited (b @ x) = drain_delimited b @ drain_delimited (fst (drain_frames b) @ x)"
proof (induction b rule: drain_delimited.induct)
  case (1 b)
  show ?case
  proof (cases "find_sse_frame_delimiter b")
    case None
    then show ?thesis
      by (simp add: drain_delimited.simps [of b] drain_frames.simps [of b] take_sse_frame_delimiter)
  next
    case (Some d)
    obtain i n where d: "d = (i, n)" by fastforce
    note bound = find_sse_frame_delimiter_bound [OF Some [unfolded d]]
    have "fst (drain_frames b) = fst (drain_frames (drop (i + n) b))"
      using Some d by (simp add: drain_frames.simps [of b] take_sse_frame_delimiter case_prod_beta Let_def)
    with 1 [OF Some d [symmetric]] Some d find_delimiter_append [OF Some [unfolded d], of x] bound show ?thesis
      by (simp add: drain_delimited.simps [of b] drain_delimited.simps [of "b @ x"])
  qed
qed

fun relay_chunks :: "ext_lib \<Rightarrow> string list \<Rightarrow> native_response_sse_relay \<Rightarrow> string list \<times> native_response_sse_relay" where
  "relay_chunks L [] r = relay_finish L r"
| "relay_chunks L (c # cs) r =
     (let (out, r) = relay_bytes L c r; (rest, r) = relay_chunks L cs r in (out @ rest, r))"

lemma relay_bytes_bounded:
  assumes "length (fst (drain_frames (rl_buffer r @ c))) \<le> MAX_INSPECTED_SSE_FRAME_BYTES"
  shows "relay_bytes L c r =
     (let fs = drain_delimited (rl_buffer r @ c)
      in (fst (relay_all L fs r), (snd (relay_all L fs r))\<lparr>rl_buffer := fst (drain_frames (rl_buffer r @ c))\<rparr>))"
  using assms by (simp add: relay_bytes_def relay_loop_all Let_def)

lemma relay_chunks_frames:
  assumes "within_bound (rl_buffer r) chunks"
  shows "relay_chunks L chunks r =
     (let fs = drain_delimited (rl_buffer r @ concat chunks);
          (out, r') = relay_all L fs r;
          (rest, r') = relay_finish L (r'\<lparr>rl_buffer := fst (drain_frames (rl_buffer r @ concat chunks))\<rparr>)
      in (out @ rest, r'))
    \<or> \<not> drained (rl_buffer r)"
proof (cases "drained (rl_buffer r)")
  case True
  from this assms show ?thesis
  proof (induction chunks arbitrary: r)
    case Nil
    then have "find_sse_frame_delimiter (rl_buffer r) = None"
      by (simp add: drained_def take_sse_frame_delimiter)
    then show ?case
      by (simp add: drain_delimited.simps [of "rl_buffer r"] drain_frames.simps [of "rl_buffer r"] take_sse_frame_delimiter
          case_prod_beta)
  next
    case (Cons c cs)
    let ?rest = "fst (drain_frames (rl_buffer r @ c))"
    define r' where "r' = (snd (relay_all L (drain_delimited (rl_buffer r @ c)) r))\<lparr>rl_buffer := ?rest\<rparr>"
    have bound: "length ?rest \<le> MAX_INSPECTED_SSE_FRAME_BYTES" "within_bound ?rest cs"
      using Cons.prems(2) by (auto simp: case_prod_beta)
    have dr: "fst (drain_frames (rl_buffer r @ c @ concat cs)) = fst (drain_frames (?rest @ concat cs))"
      using drain_frames_append [of "rl_buffer r @ c" "concat cs"] by (simp add: case_prod_beta Let_def)
    have dd: "drain_delimited (rl_buffer r @ c @ concat cs)
        = drain_delimited (rl_buffer r @ c) @ drain_delimited (?rest @ concat cs)"
      using drain_delimited_append [of "rl_buffer r @ c" "concat cs"] by simp
    have "drained (rl_buffer r')" "within_bound (rl_buffer r') cs"
      using bound drain_frames_drained by (simp_all add: r'_def)
    from Cons.IH [OF this] this(1) show ?case
      using relay_bytes_bounded [OF bound(1), of L]
      by (simp add: dr dd r'_def relay_all_append case_prod_beta Let_def)
  qed
qed simp

text \<open>C24: what the client receives of a native stream, and the state the relay ends in, do not depend on how the
  stream is cut into chunks, as long as the frames and the rest after every chunk stay within the bound on
  inspected frames.\<close>

theorem relay_chunking_irrelevant:
  assumes "within_bound [] chunks" and "rl_buffer r = []"
  shows "relay_chunks L chunks r = relay_chunks L [concat chunks] r"
proof -
  have d: "drained []" by (simp add: drained_def take_sse_frame_cases)
  have rest: "fst (drain_frames (concat chunks)) = fst (feed_all feed_frames [] chunks)"
    "snd (drain_frames (concat chunks)) = snd (feed_all feed_frames [] chunks)"
    using frame_reader.feed_all_concat [OF d] by (simp_all add: feed_frames_def)
  have "list_all (\<lambda>f. length f \<le> MAX_INSPECTED_SSE_FRAME_BYTES) (snd (feed_all feed_frames b chunks))
      \<and> length (fst (feed_all feed_frames b chunks)) \<le> MAX_INSPECTED_SSE_FRAME_BYTES"
    if "within_bound b chunks" "length b \<le> MAX_INSPECTED_SSE_FRAME_BYTES" for b
    using that by (induction chunks arbitrary: b) (auto simp: feed_frames_def case_prod_beta Let_def)
  from this [OF assms(1)] have "within_bound [] [concat chunks]" by (simp add: case_prod_beta rest Let_def)
  with assms d relay_chunks_frames [of r chunks L] relay_chunks_frames [of r "[concat chunks]" L] show ?thesis by simp
qed

section \<open>What the mirror does to an event\<close>

definition is_summary_event :: "string \<Rightarrow> json \<Rightarrow> bool" where
  "is_summary_event response_id e =
     (\<exists>kind item_id output_index k v. e = summary_event kind response_id item_id output_index (k, v) \<and> k \<in> {''part'', ''delta'', ''text''})"

lemma summary_events [simp]:
  "is_summary_event rid (reasoning_summary_part_added rid i n)"
  "is_summary_event rid (reasoning_summary_text_delta rid i n t)"
  "is_summary_event rid (reasoning_summary_text_done rid i n t)"
  "is_summary_event rid (reasoning_summary_part_done rid i n t)"
  unfolding is_summary_event_def reasoning_summary_part_added_def reasoning_summary_text_delta_def
    reasoning_summary_text_done_def reasoning_summary_part_done_def by blast+

lemma announce_events:
  "list_all (is_summary_event rid) evs \<Longrightarrow> list_all (is_summary_event rid) (snd (announce_part rid i n (m, evs)))"
  by (simp add: announce_part_def)

lemma push_text_events:
  "list_all (is_summary_event rid) evs \<Longrightarrow> list_all (is_summary_event rid) (push_text_delta rid i n piece evs)"
  by (simp add: push_text_delta_def split: option.split)

lemma finish_events:
  "list_all (is_summary_event rid) evs \<Longrightarrow> list_all (is_summary_event rid) (snd (finish_reasoning_summary rid i n (m, evs)))"
  using announce_events [of rid evs i n m]
  by (auto simp: finish_reasoning_summary_def case_prod_beta Let_def push_text_events split: option.split)

lemma done_events:
  "list_all (is_summary_event rid) (snd (snd (mirror_output_item_done rid n p m)))"
  by (simp add: mirror_output_item_done_def case_prod_beta Let_def finish_events split: option.split)

lemma mirror_events: "list_all (is_summary_event rid) (snd (snd (mirror_reasoning_event rid p m)))"
  by (simp add: mirror_reasoning_event_def case_prod_beta Let_def finish_events done_events announce_events push_text_events
      split: option.split)

text \<open>The only fields of the provider's event that the mirror edits are the item and the response's output.\<close>

lemma done_payload:
  "fst (mirror_output_item_done rid n p m) = p \<or> (\<exists>f. fst (mirror_output_item_done rid n p m) = jmodify ''item'' f p)"
  by (auto simp: mirror_output_item_done_def case_prod_beta Let_def split: option.split)

lemma mirror_payload:
  "fst (mirror_reasoning_event rid p m) = p
   \<or> (\<exists>f. fst (mirror_reasoning_event rid p m) = jmodify ''item'' f p)
   \<or> (\<exists>f. fst (mirror_reasoning_event rid p m) = jmodify ''response'' (jmodify ''output'' f) p)"
proof -
  consider "event_type_of p = ''response.output_item.done''" | "event_type_of p = ''response.completed''"
    | "event_type_of p \<noteq> ''response.output_item.done''" "event_type_of p \<noteq> ''response.completed''" by blast
  then show ?thesis
  proof cases
    case 1
    with done_payload [of rid _ p m] show ?thesis by (auto simp: mirror_reasoning_event_def event_type_of_def Let_def)
  next
    case 2
    then show ?thesis by (auto simp: mirror_reasoning_event_def event_type_of_def Let_def)
  next
    case 3
    then have "fst (mirror_reasoning_event rid p m) = p"
      by (simp add: mirror_reasoning_event_def event_type_of_def case_prod_beta Let_def split: option.split)
    then show ?thesis by blast
  qed
qed

lemma mirror_identities [simp]: "identities (fst (mirror_reasoning_event rid p m)) = identities p"
proof -
  have "Option.bind (map_option (jmodify ''output'' f) v) (\<lambda>r. get_str r ''id'') = Option.bind v (\<lambda>r. get_str r ''id'')" for f v
    by (cases v) (simp_all add: get_str_jmodify)
  with mirror_payload [of rid p m] show ?thesis
    by (auto simp: identities_def get_str_jmodify ptr_str_response_id)
qed

lemma mirror_base [simp]: "base_sequence (fst (mirror_reasoning_event rid p m)) = base_sequence p"
  using mirror_payload [of rid p m] by (auto simp: base_sequence_def)

lemma number_event_identities [simp]: "identities (number_event n p) = identities p"
  by (cases p) (auto simp: identities_def number_event_def get_str_def ptr_str_def map_simps)

lemma summary_event_identities: "is_summary_event rid e \<Longrightarrow> identities e = [None, None, Some rid]"
  by (auto simp: is_summary_event_def summary_event_def identities_def ptr_str_def)

lemma present_event_identities:
  "fst (present_event present rid m off p rewritten) = Shown own evs \<Longrightarrow>
     (\<forall>q. own = Some q \<longrightarrow> identities q = identities p) \<and> (\<forall>e \<in> set evs. identities e = [None, None, Some rid])"
  using mirror_events [of rid p m]
  by (auto simp: present_event_def case_prod_beta Let_def list_all_iff summary_event_identities in_set_enumerate_eq
      split: if_splits option.splits)

lemma present_event_untouched:
  "fst (present_event present rid m off p rewritten) = Untouched \<Longrightarrow> \<not> rewritten"
  by (auto simp: present_event_def case_prod_beta Let_def split: if_splits)

section \<open>The provider's identity stays hidden\<close>

definition shown_payloads :: "json \<Rightarrow> relayed \<Rightarrow> json list" where
  "shown_payloads payload shown =
     (case shown of
        Untouched \<Rightarrow> [payload]
      | Shown own injected \<Rightarrow> (case own of None \<Rightarrow> [] | Some p \<Rightarrow> [p]) @ injected)"

text \<open>C18: once the relay knows the provider's response identifier, no event it shows to the client carries it:
  a forwarded event never named it, a rewritten one names the local response in its place in every identity
  field, and the injected summary events name the local response.\<close>

theorem relay_hides_provider_identity:
  assumes "relay_event payload r = (shown, r')" and "rl_provider_response_id r' = Some pid"
    and "pid \<noteq> rl_local_response_id r"
  shows "\<forall>e \<in> set (shown_payloads payload shown). Some pid \<notin> set (identities e)
     \<and> (identities e = map (map_option (\<lambda>v. if v = pid then rl_local_response_id r else v)) (identities payload)
        \<or> identities e = [None, None, Some (rl_local_response_id r)])"
proof -
  let ?r = "learn_identity payload r" and ?local = "rl_local_response_id r"
  have pid: "rl_provider_response_id ?r = Some pid" and loc: "rl_local_response_id ?r = ?local"
    using assms(1,2) by (auto simp: relay_event_def learn_identity_def case_prod_beta Let_def)
  let ?h = "rewrite_provider_response_identity payload pid ?local"
  have hide: "hide_identity payload ?r = ?h" by (simp add: hide_identity_def pid loc)
  let ?pe = "present_event (rl_present ?r) ?local (rl_reasoning ?r) (rl_sequence_offset ?r) (fst ?h) (snd ?h)"
  have shown: "shown = fst ?pe" using assms(1) by (simp add: relay_event_def hide loc case_prod_beta Let_def)
  let ?sub = "map (map_option (\<lambda>v. if v = pid then ?local else v)) (identities payload)"
  have ids: "identities (fst ?h) = ?sub" using identity_rewritten [OF assms(3)] .
  have gone: "Some pid \<notin> set ?sub" using assms(3) by (auto simp: map_option_case split: option.splits if_splits)
  show ?thesis
  proof (cases shown)
    case Untouched
    then have "\<not> snd ?h" using present_event_untouched shown by metis
    then have plain: "Some pid \<notin> set (identities payload)" using identity_flag [OF assms(3)] by simp
    then have "?sub = identities payload" by (intro map_idI) (auto simp: map_option_case split: option.splits)
    with plain Untouched show ?thesis by (simp add: shown_payloads_def)
  next
    case (Shown own evs)
    have "(\<forall>q. own = Some q \<longrightarrow> identities q = ?sub) \<and> (\<forall>e \<in> set evs. identities e = [None, None, Some ?local])"
      using present_event_identities [of "rl_present ?r" ?local "rl_reasoning ?r" "rl_sequence_offset ?r" "fst ?h" "snd ?h"]
        Shown shown ids by simp
    with gone assms(3) Shown show ?thesis by (auto simp: shown_payloads_def split: option.splits)
  qed
qed

section \<open>Sequence numbers\<close>

definition shown_sequence :: "json \<Rightarrow> relayed \<Rightarrow> nat list" where
  "shown_sequence payload shown = List.map_filter base_sequence (shown_payloads payload shown)"

fun relay_sequence :: "json list \<Rightarrow> native_response_sse_relay \<Rightarrow> nat list \<times> native_response_sse_relay" where
  "relay_sequence [] r = ([], r)"
| "relay_sequence (p # ps) r =
     (let (shown, r) = relay_event p r; (seqs, r) = relay_sequence ps r in (shown_sequence p shown @ seqs, r))"

lemma number_event_base [simp]: "base_sequence p = Some b \<Longrightarrow> base_sequence (number_event n p) = Some n"
  by (cases p) (auto simp: base_sequence_def number_event_def map_simps)

lemma summary_event_base [simp]: "is_summary_event rid e \<Longrightarrow> base_sequence (number_event n e) = Some n"
  by (auto simp: is_summary_event_def summary_event_def base_sequence_def number_event_def jobj_def map_simps)

lemma enumerate_numbers:
  "list_all (is_summary_event rid) evs \<Longrightarrow>
   List.map_filter base_sequence (map (\<lambda>(i, e). number_event (c + i) e) (enumerate k evs)) = [c + k..<c + k + length evs]"
proof (induction evs arbitrary: k)
  case (Cons e evs)
  then have "base_sequence (number_event (c + k) e) = Some (c + k)" by (intro summary_event_base [of rid]) simp
  with Cons show ?case by (simp add: List.map_filter_simps upt_conv_Cons del: upt_Suc)
qed (simp add: List.map_filter_simps)

text \<open>An event of number \<open>b\<close> that the relay renders anew takes the numbers from \<open>b\<close> plus the offset on.\<close>

lemma present_event_numbers:
  assumes "base_sequence p = Some b" and "present_event present rid m off p rewritten = (Shown own evs, m', off')"
  shows "off' = off + length evs \<and> List.map_filter base_sequence ((case own of None \<Rightarrow> [] | Some p \<Rightarrow> [p]) @ evs)
     = (if own = None then [] else [b + off]) @ [b + off + 1..<b + off + 1 + length evs]"
proof -
  define me where "me = (if present then mirror_reasoning_event rid p m else (p, m, []))"
  have ev: "list_all (is_summary_event rid) (snd (snd me))" by (simp add: me_def mirror_events)
  have base: "base_sequence (fst me) = Some b" using assms(1) by (simp add: me_def)
  have eq: "off' = off + length (snd (snd me))" "evs = map (\<lambda>(i, e). number_event (b + off + 1 + i) e) (enumerate 0 (snd (snd me)))"
    "own = None \<or> own = Some (number_event (b + off) (fst me))"
    using assms unfolding present_event_def Let_def by (auto simp: me_def case_prod_beta split: if_splits)
  have "List.map_filter base_sequence evs = [b + off + 1..<b + off + 1 + length (snd (snd me))]"
    unfolding eq(2) using enumerate_numbers [OF ev, of "b + off + 1" 0] by simp
  moreover have "length evs = length (snd (snd me))" by (simp add: eq(2))
  ultimately show ?thesis using eq(1,3) base by (auto simp: List.map_filter_simps simp del: upt_Suc)
qed

lemma relay_event_state:
  assumes "relay_event p r = (shown, r')"
  shows "rl_local_response_id r' = rl_local_response_id r"
    and "rl_provider_response_id r' = or_else (rl_provider_response_id r) (response_id_from_event p)"
  using assms by (auto simp: relay_event_def learn_identity_def case_prod_beta Let_def split: option.splits)

text \<open>An event that names the provider's response is rendered anew.\<close>

lemma relay_event_named:
  assumes "relay_event p r = (shown, r')" and "rl_provider_response_id r' = Some pid" and "pid \<noteq> rl_local_response_id r"
    and "Some pid \<in> set (identities p)"
  shows "\<exists>own evs. shown = Shown own evs"
proof -
  let ?r = "learn_identity p r"
  have pid: "rl_provider_response_id ?r = Some pid" and loc: "rl_local_response_id ?r = rl_local_response_id r"
    using assms(1,2) by (auto simp: relay_event_def learn_identity_def case_prod_beta Let_def)
  have "snd (hide_identity p ?r)"
    using identity_flag [OF assms(3)] assms(4) by (simp add: hide_identity_def pid loc)
  moreover have "shown = fst (present_event (rl_present ?r) (rl_local_response_id ?r) (rl_reasoning ?r) (rl_sequence_offset ?r)
      (fst (hide_identity p ?r)) (snd (hide_identity p ?r)))"
    using assms(1) by (simp add: relay_event_def case_prod_beta Let_def)
  ultimately have "shown \<noteq> Untouched" using present_event_untouched by metis
  then show ?thesis by (cases shown) auto
qed

lemma relay_event_numbers:
  assumes "relay_event p r = (Shown own evs, r')" and "base_sequence p = Some b"
  shows "rl_sequence_offset r' = rl_sequence_offset r + length evs \<and> shown_sequence p (Shown own evs) =
     (if own = None then [] else [b + rl_sequence_offset r])
       @ [b + rl_sequence_offset r + 1..<b + rl_sequence_offset r + 1 + length evs]"
proof -
  let ?r = "learn_identity p r"
  have off: "rl_sequence_offset ?r = rl_sequence_offset r" by (simp add: learn_identity_def)
  have base: "base_sequence (fst (hide_identity p ?r)) = Some b"
    using assms(2) identity_other_fields [of "''sequence_number''" p]
    by (simp add: hide_identity_def base_sequence_def split: option.split)
  obtain m' off' where pe: "present_event (rl_present ?r) (rl_local_response_id ?r) (rl_reasoning ?r) (rl_sequence_offset r)
      (fst (hide_identity p ?r)) (snd (hide_identity p ?r)) = (Shown own evs, m', off')" and r': "rl_sequence_offset r' = off'"
    using assms(1) by (auto simp: relay_event_def case_prod_beta Let_def off prod_eq_iff)
  from present_event_numbers [OF base pe] r' show ?thesis by (simp add: shown_sequence_def shown_payloads_def)
qed

text \<open>The numbers of a run lie above the number of its first event plus the offset.\<close>

lemma relay_sequence_increasing:
  assumes "list_all (\<lambda>p. Some pid \<in> set (identities p)) ps"
    and "map base_sequence ps = map Some bs" and "sorted_wrt (<) bs"
    and "rl_provider_response_id r = Some pid" and "pid \<noteq> rl_local_response_id r"
  shows "sorted_wrt (<) (fst (relay_sequence ps r))
     \<and> (\<forall>b \<in> set bs. hd bs \<le> b) \<and> (\<forall>n \<in> set (fst (relay_sequence ps r)). hd bs + rl_sequence_offset r \<le> n)"
  using assms
proof (induction ps arbitrary: bs r)
  case (Cons p ps)
  obtain b bs' where bs: "bs = b # bs'" "base_sequence p = Some b" "map base_sequence ps = map Some bs'"
    using Cons.prems(2) by (cases bs) auto
  obtain shown r1 where ev: "relay_event p r = (shown, r1)" by fastforce
  have st: "rl_provider_response_id r1 = Some pid" "rl_local_response_id r1 = rl_local_response_id r"
    using relay_event_state [OF ev] Cons.prems(4) by auto
  obtain own evs where shown: "shown = Shown own evs"
    using relay_event_named [OF ev st(1) Cons.prems(5)] Cons.prems(1) by auto
  let ?o = "rl_sequence_offset r"
  let ?k = "length evs"
  have k: "rl_sequence_offset r1 = ?o + ?k"
    and seq: "shown_sequence p shown = (if own = None then [] else [b + ?o]) @ [b + ?o + 1..<b + ?o + 1 + ?k]"
    using relay_event_numbers [OF ev [unfolded shown] bs(2)] shown by auto
  have IH: "sorted_wrt (<) (fst (relay_sequence ps r1)) \<and> (\<forall>b \<in> set bs'. hd bs' \<le> b)
      \<and> (\<forall>n \<in> set (fst (relay_sequence ps r1)). hd bs' + (?o + ?k) \<le> n)"
    using Cons.IH [OF _ bs(3), of r1] Cons.prems bs(1) st k by auto
  have later: "b + 1 + ?o + ?k \<le> n" if "n \<in> set (fst (relay_sequence ps r1))" for n
  proof -
    have "ps \<noteq> []" using that by auto
    then have "b < hd bs'" using Cons.prems(3) bs by (cases bs') auto
    with IH that show ?thesis by fastforce
  qed
  have "fst (relay_sequence (p # ps) r) = shown_sequence p shown @ fst (relay_sequence ps r1)"
    by (simp add: ev case_prod_beta Let_def)
  moreover have own: "sorted_wrt (<) (shown_sequence p shown)" "\<forall>n \<in> set (shown_sequence p shown). b + ?o \<le> n \<and> n \<le> b + ?o + ?k"
    by (auto simp: seq sorted_wrt_append)
  moreover have "m < n" if "m \<in> set (shown_sequence p shown)" "n \<in> set (fst (relay_sequence ps r1))" for m n
    using own(2) that(1) later [OF that(2)] by fastforce
  ultimately have "sorted_wrt (<) (fst (relay_sequence (p # ps) r))" using IH by (simp add: sorted_wrt_append)
  moreover have "\<forall>n \<in> set (fst (relay_sequence (p # ps) r)). b + ?o \<le> n"
    using own(2) later by (fastforce simp: ev case_prod_beta Let_def)
  moreover have "\<forall>b' \<in> set bs. b \<le> b'" using Cons.prems(3) bs(1) by auto
  ultimately show ?case by (simp add: bs(1))
qed simp

text \<open>When every event of a native stream names the provider's response, the numbers that the client sees are
  strictly increasing if the provider's are, the injected summary events included.\<close>

theorem relayed_sequence_increasing:
  assumes "list_all (\<lambda>p. Some pid \<in> set (identities p)) ps"
    and "map base_sequence ps = map Some bs" and "sorted_wrt (<) bs"
    and "rl_provider_response_id r = Some pid" and "pid \<noteq> rl_local_response_id r"
  shows "sorted_wrt (<) (fst (relay_sequence ps r))"
  using relay_sequence_increasing [OF assms] by simp

text \<open>An event that does not name the provider's response, such as a text delta, is forwarded with the number
  it came with. When the event before it was followed by injected summary events, that number is not above
  the last one shown: the client's sequence repeats or goes back.\<close>

theorem untouched_event_breaks_sequence:
  assumes "relay_event p r = (Shown own evs, r1)" and "base_sequence p = Some b" and "evs \<noteq> []"
    and "relay_event q r1 = (Untouched, r2)" and "base_sequence q = Some (b + 1)"
  shows "\<exists>n. last (shown_sequence p (Shown own evs)) = n \<and> shown_sequence q Untouched = [b + 1] \<and> b + 1 \<le> n
     \<and> \<not> sorted_wrt (<) (fst (relay_sequence [p, q] r))"
proof -
  have seq: "shown_sequence p (Shown own evs) = (if own = None then [] else [b + rl_sequence_offset r])
       @ [b + rl_sequence_offset r + 1..<b + rl_sequence_offset r + 1 + length evs]"
    using relay_event_numbers [OF assms(1,2)] by simp
  obtain k where "length evs = Suc k" using assms(3) by (cases evs) auto
  then have last: "last (shown_sequence p (Shown own evs)) = b + rl_sequence_offset r + 1 + k"
    and ne: "shown_sequence p (Shown own evs) \<noteq> []" by (simp_all add: seq)
  have q: "shown_sequence q Untouched = [b + 1]"
    using assms(5) by (simp add: shown_sequence_def shown_payloads_def List.map_filter_simps)
  have "fst (relay_sequence [p, q] r) = shown_sequence p (Shown own evs) @ [b + 1]"
    using assms(1,4) q by simp
  moreover have "\<not> sorted_wrt (<) (shown_sequence p (Shown own evs) @ [b + 1])"
    using last ne by (simp add: sorted_wrt_less_snoc)
  ultimately show ?thesis using last q by auto
qed

section \<open>Concrete instances\<close>

theorem relay_chunking_irrelevant_witness:
  "relay_chunks plain_lib [''data: '', ''{}'', LFLF] (new_relay ''l'' None) = relay_chunks plain_lib [''data: {}'' @ LFLF] (new_relay ''l'' None)"
proof -
  have "within_bound [] [''data: '', ''{}'', LFLF]"
    by (simp add: drain_frames.simps take_sse_frame_cases starts_with_def MAX_INSPECTED_SSE_FRAME_BYTES_def)
  from relay_chunking_irrelevant [OF this, of "new_relay ''l'' None" plain_lib] show ?thesis by (simp add: new_relay_def)
qed

definition demo_created :: json where
  "demo_created = jobj [(''type'', JStr ''response.created''), (''sequence_number'', jnat 1), (''response_id'', JStr ''prov'')]"

definition demo_relay :: native_response_sse_relay where
  "demo_relay = (new_relay ''loc'' (Some Full))\<lparr>rl_provider_response_id := Some ''prov''\<rparr>"

theorem relay_hides_provider_identity_witness:
  "list_all (\<lambda>e. Some ''prov'' \<notin> set (identities e)) (shown_payloads demo_created (fst (relay_event demo_created demo_relay)))"
proof -
  let ?s = "fst (relay_event demo_created demo_relay)" and ?r = "snd (relay_event demo_created demo_relay)"
  have "rl_provider_response_id ?r = Some ''prov''" "''prov'' \<noteq> rl_local_response_id demo_relay"
    using relay_event_state(2) [of demo_created demo_relay ?s ?r] by (simp_all add: demo_relay_def new_relay_def)
  from relay_hides_provider_identity [OF _ this, of demo_created ?s] show ?thesis by (simp add: list_all_iff)
qed

theorem relayed_sequence_increasing_witness:
  "sorted_wrt (<) (fst (relay_sequence [demo_created] demo_relay))"
  by (rule relayed_sequence_increasing [of "''prov''" "[demo_created]" "[1]" demo_relay])
    (simp_all add: demo_created_def identities_def ptr_str_def base_sequence_def demo_relay_def new_relay_def)

definition demo_reasoning :: json where
  "demo_reasoning = jobj [(''type'', JStr ''response.reasoning_text.delta''), (''sequence_number'', jnat 2),
     (''item_id'', JStr ''rs''), (''delta'', JStr ''why'')]"

definition demo_text :: json where
  "demo_text = jobj [(''type'', JStr ''response.output_text.delta''), (''sequence_number'', jnat 3), (''delta'', JStr ''because'')]"

lemma demo_reasoning_shown: "\<exists>evs r1. relay_event demo_reasoning demo_relay = (Shown None evs, r1) \<and> evs \<noteq> []"
proof -
  let ?m = "mirror_begin ''rs'' (new_mirror Full)"
  have l: "learn_identity demo_reasoning demo_relay = demo_relay"
    by (simp add: learn_identity_def demo_relay_def)
  have h: "hide_identity demo_reasoning demo_relay = (demo_reasoning, False)"
    by (simp add: hide_identity_def demo_relay_def new_relay_def demo_reasoning_def rewrite_provider_response_identity_def ptr_str_def)
  have f: "rl_present demo_relay" "rl_reasoning demo_relay = new_mirror Full" "rl_local_response_id demo_relay = ''loc''"
    by (simp_all add: demo_relay_def new_relay_def)
  have e: "get_str demo_reasoning ''type'' = Some ''response.reasoning_text.delta''" "get_str demo_reasoning ''item_id'' = Some ''rs''"
    "base_sequence demo_reasoning = Some 2"
    by (simp_all add: demo_reasoning_def base_sequence_def)
  have p: "\<not> provider_writes_summary ''rs'' ?m" "rm_part_announced ?m = False" "rm_provider_summary_items ?m = []"
    by (simp_all add: mirror_begin_def new_mirror_def provider_writes_summary_def)
  obtain piece m' where pd: "push_delta ''rs'' (unwrap_or [] (get_str demo_reasoning ''delta'')) ?m = (piece, m')" by fastforce
  then have m': "rm_part_announced m' = False" "rm_provider_summary_items m' = []"
    using p by (auto simp: push_delta_def with_projector_def split: option.splits)
  have "\<exists>m'' evs. mirror_reasoning_event ''loc'' demo_reasoning (new_mirror Full) = (demo_reasoning, m'', evs) \<and> evs \<noteq> []
      \<and> rm_provider_summary_items m'' = []"
    using m' by (simp add: mirror_reasoning_event_def e p pd Let_def announce_part_def push_text_delta_def split: option.split)
  then obtain m'' evs where me: "mirror_reasoning_event ''loc'' demo_reasoning (new_mirror Full) = (demo_reasoning, m'', evs)"
    "evs \<noteq> []" "rm_provider_summary_items m'' = []" by blast
  show ?thesis
    by (simp add: relay_event_def l h f present_event_def e me event_type_of_def suppress_provider_reasoning_def
        provider_writes_summary_def Let_def enumerate_eq_zip)
qed

lemma demo_text_untouched:
  assumes "rl_provider_response_id r = Some ''prov''"
  shows "\<exists>r2. relay_event demo_text r = (Untouched, r2)"
proof -
  have l: "learn_identity demo_text r = r" by (simp add: learn_identity_def assms)
  have h: "hide_identity demo_text r = (demo_text, False)"
    by (simp add: hide_identity_def assms demo_text_def rewrite_provider_response_identity_def ptr_str_def)
  have e: "get_str demo_text ''type'' = Some ''response.output_text.delta''" by (simp add: demo_text_def)
  have me: "mirror_reasoning_event rid demo_text m = (demo_text, m, [])" for rid m
    by (simp add: mirror_reasoning_event_def e Let_def)
  show ?thesis
    by (simp add: relay_event_def l h present_event_def e me event_type_of_def suppress_provider_reasoning_def Let_def)
qed

theorem untouched_event_breaks_sequence_witness:
  "\<not> sorted_wrt (<) (fst (relay_sequence [demo_reasoning, demo_text] demo_relay))"
proof -
  obtain evs r1 where 1: "relay_event demo_reasoning demo_relay = (Shown None evs, r1)" "evs \<noteq> []"
    using demo_reasoning_shown by blast
  have "rl_provider_response_id r1 = Some ''prov''"
    using relay_event_state(2) [OF 1(1)] by (simp add: demo_relay_def)
  then obtain r2 where 2: "relay_event demo_text r1 = (Untouched, r2)" using demo_text_untouched by blast
  have "base_sequence demo_reasoning = Some 2" "base_sequence demo_text = Some (2 + 1)"
    by (simp_all add: base_sequence_def demo_reasoning_def demo_text_def)
  from untouched_event_breaks_sequence [OF 1(1) this(1) 1(2) 2 this(2)] show ?thesis by blast
qed

end
