(* ===== verification/Reasoning_Mirror.thy ===== *)
theory Reasoning_Mirror
  imports Native_Relay
begin

text \<open>
  What the reasoning mirror of \<open>Native_Relay\<close> shows of one reasoning item: the text deltas it injects join
  to the summary the projector keeps, and the events that close the item carry that summary. Two paths on
  which they do not are stated as well: an item that ends without its text being closed first, and an
  item that the table of tracked items has no room for.
\<close>

section \<open>Events of one item\<close>

definition delta_event :: "string \<Rightarrow> string \<Rightarrow> json \<Rightarrow> bool" where
  "delta_event i d p =
     (event_type_of p = ''response.reasoning_text.delta'' \<and> get_str p ''item_id'' = Some i \<and> get_str p ''delta'' = Some d)"

definition text_done_event :: "string \<Rightarrow> json \<Rightarrow> bool" where
  "text_done_event i p = (event_type_of p = ''response.reasoning_text.done'' \<and> get_str p ''item_id'' = Some i)"

definition item_done_event :: "string \<Rightarrow> json \<Rightarrow> bool" where
  "item_done_event i p =
     (event_type_of p = ''response.output_item.done'' \<and> ptr_str p [''item'', ''id''] = Some i
      \<and> ptr_str p [''item'', ''type''] = Some ''reasoning'' \<and> summary_empty (unwrap_or JNull (jget p ''item'')))"

text \<open>The text that the injected events add, and the texts that they close with.\<close>

definition delta_of :: "json \<Rightarrow> string option" where
  "delta_of e = (if event_type_of e = ''response.reasoning_summary_text.delta'' then get_str e ''delta'' else None)"

definition deltas_of :: "json list \<Rightarrow> string" where
  "deltas_of es = concat (List.map_filter delta_of es)"

definition done_of :: "json \<Rightarrow> string option" where
  "done_of e = (if event_type_of e = ''response.reasoning_summary_text.done'' then get_str e ''text'' else None)"

definition done_texts :: "json list \<Rightarrow> string list" where
  "done_texts es = List.map_filter done_of es"

definition item_summary :: "json \<Rightarrow> json option" where
  "item_summary p = Option.bind (jget p ''item'') (\<lambda>it. jget it ''summary'')"

lemma event_texts [simp]:
  "delta_of (reasoning_summary_part_added r i n) = None" "done_of (reasoning_summary_part_added r i n) = None"
  "delta_of (reasoning_summary_text_delta r i n t) = Some t" "done_of (reasoning_summary_text_delta r i n t) = None"
  "delta_of (reasoning_summary_text_done r i n t) = None" "done_of (reasoning_summary_text_done r i n t) = Some t"
  "delta_of (reasoning_summary_part_done r i n t) = None" "done_of (reasoning_summary_part_done r i n t) = None"
  by (simp_all add: delta_of_def done_of_def event_type_of_def summary_event_def
      reasoning_summary_part_added_def reasoning_summary_text_delta_def reasoning_summary_text_done_def
      reasoning_summary_part_done_def)

lemma deltas_of_simps [simp]:
  "deltas_of [] = []" "deltas_of (e # es) = unwrap_or [] (delta_of e) @ deltas_of es"
  "deltas_of (a @ b) = deltas_of a @ deltas_of b"
  by (simp add: deltas_of_def List.map_filter_simps, simp add: deltas_of_def List.map_filter_simps split: option.split,
      simp add: deltas_of_def List.map_filter_def)

lemma done_texts_simps [simp]:
  "done_texts [] = []" "done_texts (e # es) = (case done_of e of None \<Rightarrow> [] | Some t \<Rightarrow> [t]) @ done_texts es"
  "done_texts (a @ b) = done_texts a @ done_texts b"
  by (simp_all add: done_texts_def List.map_filter_def split: option.split)

section \<open>A tracked item\<close>

definition tracked :: "string \<Rightarrow> summary_projector \<Rightarrow> reasoning_summary_mirror \<Rightarrow> bool" where
  "tracked i p m =
     (map_of (rm_projectors m) i = Some p \<and> om_ok (rm_projectors m) \<and> length (rm_projectors m) \<le> MAX_TRACKED_ITEMS
      \<and> rm_active_item_id m = Some i \<and> \<not> provider_writes_summary i m)"

lemma mirror_begin_tracked: "tracked i p m \<Longrightarrow> mirror_begin i m = m"
  by (simp add: tracked_def mirror_begin_def drop_first_def)

lemma begin_tracks:
  assumes "om_ok (rm_projectors m)" and "length (rm_projectors m) < MAX_TRACKED_ITEMS"
    and "map_of (rm_projectors m) i = None" and "\<not> provider_writes_summary i m" and "rm_active_item_id m \<noteq> Some i"
  shows "tracked i (new_projector (rm_mode m)) (mirror_begin i m) \<and> \<not> rm_text_done (mirror_begin i m)
    \<and> rm_mode (mirror_begin i m) = rm_mode m"
  using assms btree.length_ins [OF assms(1), of i]
  by (auto simp: tracked_def mirror_begin_def drop_first_def provider_writes_summary_def map_simps Let_def)

lemma with_projector_tracked:
  assumes "tracked i p m"
  shows "with_projector f i m = (fst (f p), m\<lparr>rm_projectors := om_insert i (snd (f p)) (rm_projectors m)\<rparr>)"
    and "tracked i (snd (f p)) (m\<lparr>rm_projectors := om_insert i (snd (f p)) (rm_projectors m)\<rparr>)"
proof -
  have "i \<in> fst ` set (rm_projectors m)" using assms by (force simp: tracked_def dest: map_of_SomeD)
  then have "length (om_insert i q (rm_projectors m)) = length (rm_projectors m)" for q
    using assms btree.length_ins [of "rm_projectors m" i q] by (simp add: tracked_def)
  with assms show "with_projector f i m = (fst (f p), m\<lparr>rm_projectors := om_insert i (snd (f p)) (rm_projectors m)\<rparr>)"
    and "tracked i (snd (f p)) (m\<lparr>rm_projectors := om_insert i (snd (f p)) (rm_projectors m)\<rparr>)"
    by (auto simp: tracked_def with_projector_def map_simps provider_writes_summary_def)
qed

lemma tracked_flags [simp]:
  "tracked i p (m\<lparr>rm_part_announced := b\<rparr>) = tracked i p m" "tracked i p (m\<lparr>rm_text_done := c\<rparr>) = tracked i p m"
  by (simp_all add: tracked_def provider_writes_summary_def)

lemma announce_tracked:
  "announce_part r i n (m, es) = (m\<lparr>rm_part_announced := True\<rparr>, es @ (if rm_part_announced m then [] else [reasoning_summary_part_added r i n]))"
  by (auto simp: announce_part_def)

lemma delta_step:
  assumes "delta_event i d e" and "tracked i p m" and "\<not> rm_text_done m"
  shows "\<exists>m' es. mirror_reasoning_event rid e m = (e, m', es) \<and> tracked i (snd (projector_push d p)) m'
     \<and> \<not> rm_text_done m' \<and> deltas_of es = unwrap_or [] (fst (projector_push d p)) \<and> done_texts es = []"
proof -
  have ev: "unwrap_or [] (get_str e ''type'') = ''response.reasoning_text.delta''" "get_str e ''item_id'' = Some i"
    "get_str e ''delta'' = Some d" using assms(1) by (simp_all add: delta_event_def event_type_of_def)
  have "\<not> provider_writes_summary i m" using assms(2) by (simp add: tracked_def)
  then show ?thesis
    using with_projector_tracked [OF assms(2), of "projector_push d"] assms(3)
    by (simp add: mirror_reasoning_event_def ev mirror_begin_tracked [OF assms(2)] push_delta_def Let_def announce_tracked
        push_text_delta_def split: option.split)
qed

lemma finish_tracked:
  assumes "tracked i p m" and "\<not> rm_text_done m"
  defines "q \<equiv> snd (projector_finish p)"
  shows "\<exists>m' es'. finish_reasoning_summary rid i n (m, es) = (m', es @ es') \<and> tracked i q m' \<and> rm_text_done m'
     \<and> rm_part_announced m'
     \<and> deltas_of es' = unwrap_or [] (fst (projector_finish p))
     \<and> done_texts es' = (if projector_summary q = [] then [] else [projector_summary q])"
proof -
  let ?m = "m\<lparr>rm_part_announced := True, rm_text_done := True\<rparr>"
  have t: "tracked i p ?m" using assms(1) by simp
  note w = with_projector_tracked [OF t, of projector_finish]
  have s: "mirror_summary i (m\<lparr>rm_part_announced := True, rm_text_done := True, rm_projectors := om_insert i q ps\<rparr>)
      = (if projector_summary q = [] then None else Some (projector_summary q))" for ps
    by (simp add: mirror_summary_def map_simps opt_filter_def)
  show ?thesis
    using w(2) assms(2)
    by (simp add: finish_reasoning_summary_def announce_tracked finish_text_def w(1) q_def [symmetric] s Let_def
        push_text_delta_def split: option.split)
qed

section \<open>A whole item\<close>

fun mirror_run :: "string \<Rightarrow> json list \<Rightarrow> reasoning_summary_mirror \<Rightarrow> json list \<times> json list \<times> reasoning_summary_mirror" where
  "mirror_run rid [] m = ([], [], m)"
| "mirror_run rid (e # es) m =
     (let (e', m, injected) = mirror_reasoning_event rid e m;
          (es', more_events, m) = mirror_run rid es m
      in (e' # es', injected @ more_events, m))"

lemma delta_run:
  assumes "list_all2 (delta_event i) ds es" and "tracked i p m" and "\<not> rm_text_done m"
  shows "\<exists>evs m'. mirror_run rid es m = (es, evs, m') \<and> tracked i (snd (push_all ds p)) m' \<and> \<not> rm_text_done m'
     \<and> deltas_of evs = fst (push_all ds p) \<and> done_texts evs = []"
  using assms
proof (induction arbitrary: p m rule: list_all2_induct)
  case (Cons d ds e es)
  obtain m1 es1 where 1: "mirror_reasoning_event rid e m = (e, m1, es1)" "tracked i (snd (projector_push d p)) m1"
    "\<not> rm_text_done m1" "deltas_of es1 = unwrap_or [] (fst (projector_push d p))" "done_texts es1 = []"
    using delta_step [OF Cons.hyps(1) Cons.prems] by blast
  obtain es2 m2 where 2: "mirror_run rid es m1 = (es, es2, m2)" "tracked i (snd (push_all ds (snd (projector_push d p)))) m2"
    "\<not> rm_text_done m2" "deltas_of es2 = fst (push_all ds (snd (projector_push d p)))" "done_texts es2 = []"
    using Cons.IH [OF 1(2,3)] by blast
  from 1 2 show ?case by (simp add: case_prod_beta Let_def)
qed simp

lemma text_done_step:
  assumes "text_done_event i e" and "tracked i p m" and "\<not> rm_text_done m"
  defines "q \<equiv> snd (projector_finish p)"
  shows "\<exists>m' es. mirror_reasoning_event rid e m = (e, m', es) \<and> tracked i q m' \<and> rm_text_done m' \<and> rm_part_announced m'
     \<and> deltas_of es = unwrap_or [] (fst (projector_finish p))
     \<and> done_texts es = (if projector_summary q = [] then [] else [projector_summary q])"
proof -
  have ev: "unwrap_or [] (get_str e ''type'') = ''response.reasoning_text.done''" "get_str e ''item_id'' = Some i"
    using assms(1) by (simp_all add: text_done_event_def event_type_of_def)
  have "\<not> provider_writes_summary i m" using assms(2) by (simp add: tracked_def)
  then show ?thesis
    using finish_tracked [OF assms(2,3), of rid "unwrap_or 0 (Option.bind (jget e ''output_index'') as_u64)" "[]"]
    by (auto simp: mirror_reasoning_event_def ev mirror_begin_tracked [OF assms(2)] Let_def q_def)
qed

lemma item_done_parts:
  assumes "item_done_event i e"
  shows "\<exists>mm. unwrap_or [] (get_str e ''type'') = ''response.output_item.done'' \<and> ptr_str e [''item'', ''id''] = Some i
     \<and> ptr_str e [''item'', ''type''] = Some ''reasoning'' \<and> jget e ''item'' = Some (JObj mm) \<and> summary_empty (JObj mm)"
proof -
  have "ptr_str e [''item'', ''id''] = Some i" using assms by (simp add: item_done_event_def)
  then obtain mm where "jget e ''item'' = Some (JObj mm)"
    by (cases "jget e ''item''"; cases "the (jget e ''item'')") (auto simp: ptr_str_def)
  with assms show ?thesis by (auto simp: item_done_event_def event_type_of_def)
qed

lemma item_done_step:
  assumes "item_done_event i e" and "tracked i p m" and "rm_text_done m" and "rm_part_announced m"
    and "projector_summary p \<noteq> []"
  shows "\<exists>e' m'. mirror_reasoning_event rid e m = (e', m', [])
     \<and> item_summary e' = Some (JArr [reasoning_summary_part (projector_summary p)])"
proof -
  obtain mm where ev: "unwrap_or [] (get_str e ''type'') = ''response.output_item.done''" "ptr_str e [''item'', ''id''] = Some i"
    "ptr_str e [''item'', ''type''] = Some ''reasoning''" and it: "jget e ''item'' = Some (JObj mm)"
    and empty: "summary_empty (JObj mm)"
    using item_done_parts [OF assms(1)] by blast
  have s: "mirror_summary i m = Some (projector_summary p)" "\<not> provider_writes_summary i m"
    using assms(2,5) by (simp_all add: tracked_def mirror_summary_def opt_filter_def)
  have f: "finish_reasoning_summary rid i n (m, []) = (m, [])" for n
    using assms(3,4) by (simp add: finish_reasoning_summary_def announce_part_def)
  show ?thesis
    by (simp add: mirror_reasoning_event_def ev mirror_output_item_done_def s f Let_def item_summary_def it empty
        set_summary_def map_simps)
qed

lemma mirror_run_append:
  "mirror_run rid (a @ b) m =
     (let (a', ea, m) = mirror_run rid a m; (b', eb, m) = mirror_run rid b m in (a' @ b', ea @ eb, m))"
  by (induction a arbitrary: m) (auto simp: case_prod_beta Let_def)

text \<open>C26: for a reasoning item that the mirror begins to track, whose text deltas are followed by the end of the text
  and the end of the item, the summary deltas shown to the client join to the projector's summary of the
  provider's text, the summary is closed once with exactly that text, and the finished item carries it;
  nothing is shown as finished when the summary is empty.\<close>

theorem mirrored_item_consistent:
  assumes "om_ok (rm_projectors m)" and "length (rm_projectors m) < MAX_TRACKED_ITEMS"
    and "map_of (rm_projectors m) i = None" and "\<not> provider_writes_summary i m" and "rm_active_item_id m \<noteq> Some i"
    and "list_all2 (delta_event i) ds es" and "text_done_event i fin" and "item_done_event i end_item"
  defines "t \<equiv> fst (project_stream (rm_mode m) ds)"
  shows "case mirror_run rid (es @ [fin, end_item]) (mirror_begin i m) of (es', injected, m') \<Rightarrow>
     deltas_of injected = t \<and> done_texts injected = (if t = [] then [] else [t])
     \<and> (t \<noteq> [] \<longrightarrow> item_summary (last es') = Some (JArr [reasoning_summary_part t]))"
proof -
  let ?m = "mirror_begin i m" and ?p = "new_projector (rm_mode m)"
  have m: "tracked i ?p ?m" "\<not> rm_text_done ?m" using begin_tracks [OF assms(1-5)] by auto
  obtain e1 m1 where 1: "mirror_run rid es ?m = (es, e1, m1)" "tracked i (snd (push_all ds ?p)) m1" "\<not> rm_text_done m1"
    "deltas_of e1 = fst (push_all ds ?p)" "done_texts e1 = []"
    using delta_run [OF assms(6) m] by blast
  define q where "q = snd (projector_finish (snd (push_all ds ?p)))"
  obtain m2 e2 where 2: "mirror_reasoning_event rid fin m1 = (fin, m2, e2)" "tracked i q m2" "rm_text_done m2" "rm_part_announced m2"
    "deltas_of e2 = unwrap_or [] (fst (projector_finish (snd (push_all ds ?p))))"
    "done_texts e2 = (if projector_summary q = [] then [] else [projector_summary q])"
    using text_done_step [OF assms(7) 1(2,3)] unfolding q_def by blast
  have t: "t = fst (push_all ds ?p) @ unwrap_or [] (fst (projector_finish (snd (push_all ds ?p))))"
    and "snd (project_stream (rm_mode m) ds) = q"
    by (simp_all add: t_def q_def project_stream_def case_prod_beta Let_def)
  then have tq: "t = projector_summary q"
    using project_stream_ok(1) [of "rm_mode m" ds t q] by (simp add: t_def prod_eq_iff projector_ok_def)
  show ?thesis
  proof (cases "t = []")
    case False
    obtain e' m3 where "mirror_reasoning_event rid end_item m2 = (e', m3, [])"
      "item_summary e' = Some (JArr [reasoning_summary_part (projector_summary q)])"
      using item_done_step [OF assms(8) 2(2-4), where rid = rid] False tq by auto
    with 1 2 t tq False show ?thesis by (simp add: mirror_run_append)
  next
    case True
    have "mirror_summary i m2 = None"
      using 2(2) True tq by (simp add: tracked_def mirror_summary_def opt_filter_def)
    then have "snd (snd (mirror_reasoning_event rid end_item m2)) = []"
      using assms(8) by (simp add: mirror_reasoning_event_def mirror_output_item_done_def item_done_event_def event_type_of_def Let_def)
    with 1 2 t tq True show ?thesis by (simp add: mirror_run_append case_prod_beta Let_def)
  qed
qed

section \<open>Where the mirror falls short\<close>

lemma finish_tail:
  "fst (projector_finish p) = Some tail \<Longrightarrow> projector_summary (snd (projector_finish p)) = projector_summary p @ tail"
proof -
  assume a: "fst (projector_finish p) = Some tail"
  have "take a x @ drop a (take b x) = take b x" if "a \<le> b" for a b and x :: string
    using that by (metis append_take_drop_id min.absorb1 take_take)
  with a show ?thesis
    by (auto simp: projector_finish_def emit_up_to_def projector_summary_def Let_def split: if_splits)
qed

text \<open>An item that ends while the projector still holds text back (its text was not closed by an event of its
  own) is closed with the whole summary in the summary events but finished with the part shown before, so that the
  item the client keeps lacks the tail.\<close>

theorem unclosed_item_loses_tail:
  assumes "item_done_event i e" and "tracked i p m" and "\<not> rm_text_done m" and "projector_summary p \<noteq> []"
    and "fst (projector_finish p) = Some tail"
  shows "case mirror_reasoning_event rid e m of (e', m', injected) \<Rightarrow>
     done_texts injected = [projector_summary p @ tail]
     \<and> item_summary e' = Some (JArr [reasoning_summary_part (projector_summary p)])"
proof -
  obtain mm where ev: "unwrap_or [] (get_str e ''type'') = ''response.output_item.done''" "ptr_str e [''item'', ''id''] = Some i"
    "ptr_str e [''item'', ''type''] = Some ''reasoning''" and it: "jget e ''item'' = Some (JObj mm)"
    and empty: "summary_empty (JObj mm)"
    using item_done_parts [OF assms(1)] by blast
  have s: "mirror_summary i m = Some (projector_summary p)" "\<not> provider_writes_summary i m"
    using assms(2,4) by (simp_all add: tracked_def mirror_summary_def opt_filter_def)
  let ?n = "unwrap_or 0 (Option.bind (jget e ''output_index'') as_u64)"
  obtain m' es where f: "finish_reasoning_summary rid i ?n (m, []) = (m', es)" "done_texts es = [projector_summary p @ tail]"
    using finish_tracked [OF assms(2,3), of rid ?n "[]"] assms(4) finish_tail [OF assms(5)] by auto
  show ?thesis
    by (simp add: mirror_reasoning_event_def ev mirror_output_item_done_def s f Let_def item_summary_def it empty
        set_summary_def map_simps)
qed

text \<open>The table of tracked items drops the smallest identifier, not the oldest item. An item that begins when
  the table is full of larger identifiers is dropped at once: its reasoning deltas are suppressed and no
  summary text is shown in their place.\<close>

theorem full_table_drops_new_item:
  assumes "om_ok (rm_projectors m)" and "length (rm_projectors m) = MAX_TRACKED_ITEMS"
    and "list_all (\<lambda>e. i < fst e) (rm_projectors m)" and "\<not> provider_writes_summary i m" and "delta_event i d e"
  shows "case mirror_reasoning_event rid e m of (e', m', injected) \<Rightarrow>
     map_of (rm_projectors m') i = None \<and> deltas_of injected = [] \<and> done_texts injected = []
     \<and> suppress_provider_reasoning True m' (event_type_of e) e'"
proof -
  have ev: "unwrap_or [] (get_str e ''type'') = ''response.reasoning_text.delta''" "get_str e ''item_id'' = Some i"
    using assms(5) by (simp_all add: delta_event_def event_type_of_def)
  have fresh: "map_of (rm_projectors m) i = None"
    using assms(3) by (auto simp: map_of_eq_None_iff list_all_iff)
  have "om_insert i v (rm_projectors m) = (i, v) # rm_projectors m" for v
    using assms(3) by (cases "rm_projectors m") auto
  then have ps: "rm_projectors (mirror_begin i m) = rm_projectors m"
    using fresh assms(2) by (simp add: mirror_begin_def drop_first_def Let_def)
  have items: "rm_provider_summary_items (mirror_begin i m) = rm_provider_summary_items m"
    by (simp add: mirror_begin_def Let_def)
  then have "\<not> provider_writes_summary i (mirror_begin i m)" using assms(4) by (simp add: provider_writes_summary_def)
  moreover have "push_delta i x (mirror_begin i m) = (None, mirror_begin i m)" for x
    by (simp add: push_delta_def with_projector_def ps fresh)
  ultimately show ?thesis using assms(4)
    by (simp add: mirror_reasoning_event_def ev Let_def announce_tracked push_text_delta_def ps fresh
        suppress_provider_reasoning_def event_type_of_def provider_writes_summary_def items)
qed

section \<open>Concrete instances\<close>

definition demo_delta :: "string \<Rightarrow> json" where
  "demo_delta d = jobj [(''type'', JStr ''response.reasoning_text.delta''), (''sequence_number'', jnat 2),
     (''item_id'', JStr ''rs''), (''delta'', JStr d)]"

definition demo_text_done :: json where
  "demo_text_done = jobj [(''type'', JStr ''response.reasoning_text.done''), (''sequence_number'', jnat 3), (''item_id'', JStr ''rs'')]"

definition demo_item_done :: json where
  "demo_item_done = jobj [(''type'', JStr ''response.output_item.done''), (''sequence_number'', jnat 4),
     (''item'', jobj [(''type'', JStr ''reasoning''), (''id'', JStr ''rs'')])]"

lemma demo_events:
  "delta_event ''rs'' d (demo_delta d)" "text_done_event ''rs'' demo_text_done" "item_done_event ''rs'' demo_item_done"
  by (simp_all add: delta_event_def text_done_event_def item_done_event_def demo_delta_def demo_text_done_def demo_item_done_def
      event_type_of_def ptr_str_def summary_empty_def get_arr_def)

theorem mirrored_item_consistent_witness:
  "fst (snd (mirror_run ''r'' ([demo_delta ''why''] @ [demo_text_done, demo_item_done]) (mirror_begin ''rs'' (new_mirror Full)))) \<noteq> []
   \<and> deltas_of (fst (snd (mirror_run ''r'' ([demo_delta ''why''] @ [demo_text_done, demo_item_done])
        (mirror_begin ''rs'' (new_mirror Full))))) = ''why''"
proof -
  have "fst (project_stream Full [''why'']) = ''why''"
    by (simp add: project_stream_def new_projector_def projector_push_def emit_up_to_def streamable_len_def projector_finish_def
        project_none Let_def)
  moreover have "list_all2 (delta_event ''rs'') [''why''] [demo_delta ''why'']" by (simp add: demo_events)
  ultimately have "deltas_of (fst (snd (mirror_run ''r'' ([demo_delta ''why''] @ [demo_text_done, demo_item_done])
      (mirror_begin ''rs'' (new_mirror Full))))) = ''why''"
    using mirrored_item_consistent [of "new_mirror Full" "''rs''" "[''why'']" "[demo_delta ''why'']" demo_text_done demo_item_done "''r''"]
    by (simp add: new_mirror_def MAX_TRACKED_ITEMS_def provider_writes_summary_def demo_events case_prod_beta)
  then show ?thesis by (metis deltas_of_simps(1) list.distinct(1))
qed

definition demo_projector :: summary_projector where
  "demo_projector = \<lparr>sp_mode = Full, sp_text = ''one. two'', sp_emitted = 4, sp_finished = False\<rparr>"

definition demo_mirror :: reasoning_summary_mirror where
  "demo_mirror = (new_mirror Full)\<lparr>rm_active_item_id := Some ''rs'', rm_projectors := [(''rs'', demo_projector)]\<rparr>"

theorem unclosed_item_loses_tail_witness:
  "item_summary (fst (mirror_reasoning_event ''r'' demo_item_done demo_mirror)) = Some (JArr [reasoning_summary_part ''one.''])
   \<and> done_texts (snd (snd (mirror_reasoning_event ''r'' demo_item_done demo_mirror))) = [''one. two'']"
proof -
  have t: "tracked ''rs'' demo_projector demo_mirror" "\<not> rm_text_done demo_mirror"
    by (simp_all add: tracked_def demo_mirror_def new_mirror_def MAX_TRACKED_ITEMS_def provider_writes_summary_def)
  have s: "projector_summary demo_projector = ''one.''" "fst (projector_finish demo_projector) = Some '' two''"
    by (simp_all add: projector_summary_def demo_projector_def projector_finish_def emit_up_to_def project_none Let_def)
  show ?thesis
    using unclosed_item_loses_tail [OF demo_events(3) t _ s(2), of "''r''"] by (simp add: s(1) case_prod_beta)
qed

definition full_mirror :: reasoning_summary_mirror where
  "full_mirror = (new_mirror Full)\<lparr>rm_projectors := map (\<lambda>i. (i, new_projector Full))
     [''s1'', ''s2'', ''s3'', ''s4'', ''s5'', ''s6'', ''s7'', ''s8'']\<rparr>"

theorem full_table_drops_new_item_witness:
  "deltas_of (snd (snd (mirror_reasoning_event ''r'' (demo_delta ''why'') full_mirror))) = []
   \<and> suppress_provider_reasoning True (fst (snd (mirror_reasoning_event ''r'' (demo_delta ''why'') full_mirror)))
       (event_type_of (demo_delta ''why'')) (fst (mirror_reasoning_event ''r'' (demo_delta ''why'') full_mirror))"
proof -
  have "om_ok (rm_projectors full_mirror)" "length (rm_projectors full_mirror) = MAX_TRACKED_ITEMS"
    "list_all (\<lambda>e. ''rs'' < fst e) (rm_projectors full_mirror)" "\<not> provider_writes_summary ''rs'' full_mirror"
    by (simp_all add: full_mirror_def new_mirror_def MAX_TRACKED_ITEMS_def provider_writes_summary_def
        List_Lexorder.Cons_less_Cons less_char_def)
  from full_table_drops_new_item [OF this demo_events(1), of "''why''" "''r''"] show ?thesis by (simp add: case_prod_beta)
qed

end
