(* ===== verification/Web_Text.thy ===== *)
theory Web_Text
  imports Chat_Messages
begin

text \<open>
  Text of the web search tool on its way to the model: \<^verbatim>\<open>compact_whitespace\<close> and \<^verbatim>\<open>truncate_web_text\<close> of
  \<^verbatim>\<open>crates/proxy/src/tools/web/text.rs\<close>, the removal of payloads in \<^verbatim>\<open>sanitize.rs\<close>, and the guard and
  the excerpt bound of \<^verbatim>\<open>outcome.rs\<close>. A run of opaque characters is counted in characters, which are
  ASCII there.
\<close>

definition compact_whitespace :: "string \<Rightarrow> string" where
  "compact_whitespace s = join '' '' (split_whitespace s)"

definition truncate_web_text :: "string \<Rightarrow> nat \<Rightarrow> string" where
  "truncate_web_text s max_chars =
     (if char_count s \<le> max_chars then s
      else take_chars max_chars s @ ''...[truncated chars='' @ nat_str (char_count s) @ '']'')"

section \<open>Payloads\<close>

definition PROSE_RUN_LIMIT :: nat where "PROSE_RUN_LIMIT = 512"
definition CODE_RUN_LIMIT :: nat where "CODE_RUN_LIMIT = 4096"

datatype block_kind = Prose | Code | TableRow

definition ascii_alphanumeric :: "char \<Rightarrow> bool" where
  "ascii_alphanumeric c = (ascii_digit c \<or> ascii_upper c \<or> (97 \<le> byte_val c \<and> byte_val c \<le> 122))"

definition is_opaque_char :: "rchar \<Rightarrow> bool" where
  "is_opaque_char ch =
     (case ch of [c] \<Rightarrow> ascii_alphanumeric c \<or> c = CHR ''+'' \<or> c = CHR ''/'' \<or> c = CHR ''_'' | _ \<Rightarrow> False)"

definition payload_marker :: "nat \<Rightarrow> string" where
  "payload_marker n = ''[payload omitted chars='' @ nat_str n @ '']''"

definition flush_run :: "rchar list \<Rightarrow> nat \<Rightarrow> string" where
  "flush_run run limit =
     (if run = [] then [] else if limit \<le> length run then payload_marker (length run) else concat run)"

fun truncate_loop :: "nat \<Rightarrow> rchar list \<Rightarrow> rchar list \<Rightarrow> string" where
  "truncate_loop limit run [] = flush_run run limit"
| "truncate_loop limit run (ch # chs) =
     (if is_opaque_char ch then truncate_loop limit (run @ [ch]) chs
      else flush_run run limit @ ch @ truncate_loop limit [] chs)"

definition truncate_opaque_runs :: "string \<Rightarrow> nat \<Rightarrow> string" where
  "truncate_opaque_runs s limit = (if limit = 0 then s else truncate_loop limit [] (chars s))"

definition sanitize_with_limit :: "string \<Rightarrow> nat \<Rightarrow> string" where
  "sanitize_with_limit s limit = truncate_opaque_runs (redact_inline_data_urls s) limit"

definition sanitize_block_text :: "string \<Rightarrow> block_kind \<Rightarrow> string" where
  "sanitize_block_text s kind =
     sanitize_with_limit s (case kind of Code \<Rightarrow> CODE_RUN_LIMIT | _ \<Rightarrow> PROSE_RUN_LIMIT)"

definition sanitize_prose :: "string \<Rightarrow> string" where
  "sanitize_prose s = sanitize_with_limit s PROSE_RUN_LIMIT"

fun sanitize_value :: "json \<Rightarrow> json \<times> bool"
  and sanitize_items :: "json list \<Rightarrow> json list \<times> bool"
  and sanitize_members :: "(string \<times> json) list \<Rightarrow> (string \<times> json) list \<times> bool" where
  "sanitize_value (JStr s) = (JStr (sanitize_prose s), sanitize_prose s \<noteq> s)"
| "sanitize_value (JArr items) = (let (items', changed) = sanitize_items items in (JArr items', changed))"
| "sanitize_value (JObj m) = (let (m', changed) = sanitize_members m in (JObj m', changed))"
| "sanitize_value v = (v, False)"
| "sanitize_items [] = ([], False)"
| "sanitize_items (v # vs) =
     (let (v', c) = sanitize_value v; (vs', cs) = sanitize_items vs in (v' # vs', c \<or> cs))"
| "sanitize_members [] = ([], False)"
| "sanitize_members (e # es) =
     (let (v', c) = sanitize_value (snd e); (es', cs) = sanitize_members es in ((fst e, v') # es', c \<or> cs))"

definition payload_guard :: "json \<Rightarrow> json" where
  "payload_guard outcome =
     (let (outcome, changed) = sanitize_value outcome
      in if changed then jinsert ''payload_guard'' (JBool True) outcome else outcome)"

section \<open>The excerpt of a page\<close>

definition EVIDENCE_BUDGET_CHARS :: nat where "EVIDENCE_BUDGET_CHARS = 2000"

definition bound_excerpt :: "string \<Rightarrow> string" where
  "bound_excerpt rendered =
     (if char_count rendered \<le> EVIDENCE_BUDGET_CHARS then rendered
      else truncate_web_text rendered EVIDENCE_BUDGET_CHARS)"

section \<open>What the guard leaves behind\<close>

text \<open>\<open>runs_below limit k chs\<close>: no run of opaque characters reaches the limit, the first one counted from \<open>k\<close>.\<close>

fun runs_below :: "nat \<Rightarrow> nat \<Rightarrow> rchar list \<Rightarrow> bool" where
  "runs_below limit k [] = True"
| "runs_below limit k (ch # chs) =
     (if is_opaque_char ch then Suc k < limit \<and> runs_below limit (Suc k) chs else runs_below limit 0 chs)"

definition payload_free :: "nat \<Rightarrow> string \<Rightarrow> bool" where
  "payload_free limit s = (\<not> sublist ''data:'' s \<and> runs_below limit 0 (chars s))"

lemma runs_below_mono: "runs_below limit k chs \<Longrightarrow> j \<le> k \<Longrightarrow> runs_below limit j chs"
  by (induction chs arbitrary: j k) (auto split: if_splits)

lemma runs_below_append:
  "runs_below limit k xs \<Longrightarrow> runs_below limit 0 (ch # ys) \<Longrightarrow> \<not> is_opaque_char ch \<Longrightarrow> runs_below limit k (xs @ ch # ys)"
  by (induction xs arbitrary: k) (auto split: if_splits)

lemma runs_below_run: "list_all is_opaque_char run \<Longrightarrow> runs_below limit k run \<longleftrightarrow> run = [] \<or> k + length run < limit"
  by (induction run arbitrary: k) auto

text \<open>A text without long runs is left as it is.\<close>

lemma truncate_loop_id:
  "runs_below limit (length run) chs \<Longrightarrow> list_all is_opaque_char run \<Longrightarrow> length run < limit \<Longrightarrow>
   truncate_loop limit run chs = concat run @ concat chs"
proof (induction chs arbitrary: run)
  case (Cons ch chs)
  then show ?case by (auto simp: flush_run_def)
qed (simp add: flush_run_def)

lemma truncate_id: "runs_below limit 0 (chars s) \<Longrightarrow> truncate_opaque_runs s limit = s"
  using truncate_loop_id [of limit "[]" "chars s"] by (auto simp: truncate_opaque_runs_def)

text \<open>The output as characters.\<close>

definition flush_chars :: "rchar list \<Rightarrow> nat \<Rightarrow> rchar list" where
  "flush_chars run limit = (if run \<noteq> [] \<and> limit \<le> length run then map (\<lambda>c. [c]) (payload_marker (length run)) else run)"

fun truncated_chars :: "nat \<Rightarrow> rchar list \<Rightarrow> rchar list \<Rightarrow> rchar list" where
  "truncated_chars limit run [] = flush_chars run limit"
| "truncated_chars limit run (ch # chs) =
     (if is_opaque_char ch then truncated_chars limit (run @ [ch]) chs
      else flush_chars run limit @ ch # truncated_chars limit [] chs)"

lemma concat_flush_chars [simp]: "concat (flush_chars run limit) = flush_run run limit"
proof -
  have "concat (map (\<lambda>c. [c]) t) = t" for t :: string by (induction t) auto
  then show ?thesis by (simp add: flush_chars_def flush_run_def)
qed

lemma concat_truncated_chars: "concat (truncated_chars limit run chs) = truncate_loop limit run chs"
  by (induction limit run chs rule: truncated_chars.induct) auto

lemma opaque_single: "is_opaque_char ch \<Longrightarrow> \<exists>c. ch = [c] \<and> ascii_alphanumeric c \<or> ch \<in> {''+'', ''/'', ''_''}"
  by (auto simp: is_opaque_char_def split: list.splits)

lemma marker_text:
  "map (\<lambda>c. [c]) (payload_marker n)
   = map (\<lambda>c. [c]) ''[payload omitted chars='' @ map (\<lambda>c. [c]) (nat_str n) @ ['']'']"
  by (simp add: payload_marker_def)

lemma nat_str_short: "n \<le> u64_max \<Longrightarrow> length (nat_str n) \<le> 20"
  using nat_str_length [of n 19] by (simp add: u64_max_def)

lemma runs_below_marker:
  assumes "n \<le> u64_max" "32 \<le> limit"
  shows "runs_below limit 0 (map (\<lambda>c. [c]) (payload_marker n))"
proof -
  have "list_all is_opaque_char (map (\<lambda>c. [c]) (nat_str n))"
    using nat_str_digits by (auto simp: list_all_iff is_opaque_char_def ascii_alphanumeric_def)
  moreover have "0 + length (map (\<lambda>c. [c]) (nat_str n)) < limit" using nat_str_short [OF assms(1)] assms(2) by simp
  ultimately have "runs_below limit 0 (map (\<lambda>c. [c]) (nat_str n))" using runs_below_run by blast
  then have "runs_below limit 0 (map (\<lambda>c. [c]) (nat_str n) @ ['']''])"
    by (rule runs_below_append) (simp_all add: is_opaque_char_def ascii_alphanumeric_def ascii_digit_def ascii_upper_def byte_val_def)
  then show ?thesis
    using assms(2) unfolding marker_text
    by (simp add: is_opaque_char_def ascii_alphanumeric_def ascii_digit_def ascii_upper_def byte_val_def)
qed

lemma truncated_runs:
  "list_all is_opaque_char run \<Longrightarrow> length run + length chs \<le> u64_max \<Longrightarrow> 32 \<le> limit \<Longrightarrow>
   runs_below limit 0 (truncated_chars limit run chs)"
proof (induction limit run chs rule: truncated_chars.induct)
  case (1 limit run)
  then show ?case using runs_below_marker [of "length run" limit] by (auto simp: flush_chars_def runs_below_run)
next
  case (2 limit run ch chs)
  have "runs_below limit 0 (flush_chars run limit)"
    using 2 runs_below_marker [of "length run" limit] by (auto simp: flush_chars_def runs_below_run)
  with 2 show ?case by (auto intro!: runs_below_append)
qed

lemma nat_str_no_cont: "c \<in> set (nat_str n) \<Longrightarrow> \<not> is_cont c"
  by (drule nat_str_digits, cases c) (auto simp: ascii_digit_def byte_val_def of_char_def split: if_splits)

lemma char_count_plain: "list_all (\<lambda>c. \<not> is_cont c) t \<Longrightarrow> char_count t = length t"
proof (induction t)
  case (Cons c t)
  then have "takeWhile is_cont t = [] \<and> dropWhile is_cont t = t" by (cases t) auto
  with Cons show ?case by (simp add: char_count_def)
qed simp

lemma truncated_pieces:
  assumes "\<forall>ch \<in> set run \<union> set chs. char_piece ch \<and> starts_char ch"
  shows "\<forall>ch \<in> set (truncated_chars limit run chs). char_piece ch \<and> starts_char ch"
proof -
  have "\<forall>ch \<in> set (map (\<lambda>c. [c]) (payload_marker n)). char_piece ch \<and> starts_char ch" for n
    unfolding marker_text using nat_str_no_cont by (auto simp: char_piece_def starts_char_def)
  then show ?thesis using assms
    by (induction limit run chs rule: truncated_chars.induct) (auto simp: flush_chars_def)
qed

lemma chars_truncated:
  assumes "starts_char s" "limit \<noteq> 0"
  shows "chars (truncate_opaque_runs s limit) = truncated_chars limit [] (chars s)"
  using chars_concat [OF truncated_pieces [of "[]" "chars s" limit]] chars_pieces [OF assms(1)] assms(2)
  by (simp add: truncate_opaque_runs_def concat_truncated_chars)

text \<open>A pattern does not straddle a place where the left text ends outside its beginning.\<close>

lemma sublist_cut:
  assumes "\<not> sublist p x" "\<not> sublist p y" "x = [] \<or> last x \<notin> set (butlast p)" "p \<noteq> []"
  shows "\<not> sublist p (x @ y)"
proof
  assume "sublist p (x @ y)"
  with assms(1,2) obtain p1 p2 where p: "p = p1 @ p2" "suffix p1 x" "prefix p2 y" by (auto simp: sublist_append)
  show False
  proof (cases "p1 = [] \<or> p2 = []")
    case True
    with p assms(1,2) show False by (auto intro: prefix_imp_sublist suffix_imp_sublist)
  next
    case False
    then have "last p1 = last x" using p(2) by (auto simp: suffix_def)
    moreover have "last p1 \<in> set (butlast p)" using False p(1) by (simp add: butlast_append)
    ultimately show False using False p(2) assms(3) by auto
  qed
qed

lemma piece_ends: "char_piece ch \<Longrightarrow> starts_char ch \<Longrightarrow> \<not> is_opaque_char ch \<Longrightarrow> ch \<noteq> [] \<and> last ch \<notin> set ''data''"
proof -
  assume a: "char_piece ch" "starts_char ch" "\<not> is_opaque_char ch"
  then obtain c cs where ch: "ch = c # cs" by (cases ch) (auto simp: char_piece_def)
  show ?thesis
  proof (cases cs)
    case Nil
    have "is_opaque_char [c]" if "c \<in> set ''data''"
      using that by (auto simp: is_opaque_char_def ascii_alphanumeric_def byte_val_def)
    with Nil a(3) ch show ?thesis by auto
  next
    case (Cons d ds)
    then have "is_cont (last ch)" using a(1) ch by (auto simp: char_piece_def list_all_iff)
    then show ?thesis using ch by auto
  qed
qed

lemma truncate_loop_no_data:
  "\<not> sublist ''data:'' (concat run @ concat chs) \<Longrightarrow> \<forall>ch \<in> set chs. char_piece ch \<and> starts_char ch \<Longrightarrow>
   \<not> sublist ''data:'' (truncate_loop limit run chs)"
proof (induction limit run chs rule: truncate_loop.induct)
  case (1 limit run)
  have "CHR '':'' \<notin> set (payload_marker n)" for n by (simp add: payload_marker_def)
  then have "\<not> sublist ''data:'' (payload_marker n)" for n by (auto dest!: set_mono_sublist)
  with 1 show ?case by (auto simp: flush_run_def)
next
  case (2 limit run ch chs)
  show ?case
  proof (cases "is_opaque_char ch")
    case False
    have part: "\<not> sublist ''data:'' x" if "sublist x (concat run @ ch @ concat chs)" for x
      using 2 that by (auto dest: sublist_order.order_trans)
    have ih: "\<not> sublist ''data:'' (truncate_loop limit [] chs)"
      using 2 False part [of "concat chs"] by (auto simp: sublist_append)
    have marker: "\<not> sublist ''data:'' (payload_marker n)" "last (payload_marker n) = CHR '']''" for n
    proof -
      have "CHR '':'' \<notin> set (payload_marker n)" by (simp add: payload_marker_def)
      then show "\<not> sublist ''data:'' (payload_marker n)" by (auto dest!: set_mono_sublist)
    qed (simp add: payload_marker_def)
    have "\<not> sublist ''data:'' (flush_run run limit @ ch)"
    proof (cases "run \<noteq> [] \<and> limit \<le> length run")
      case True
      have "sublist ch (concat run @ ch @ concat chs)" by (rule sublist_appendI)
      from sublist_cut [OF marker(1) part [OF this]] marker(2) True show ?thesis by (simp add: flush_run_def)
    next
      case no: False
      have "sublist (concat run @ ch) (concat run @ ch @ concat chs)" by (metis append_assoc prefix_imp_sublist prefixI)
      with part no show ?thesis by (auto simp: flush_run_def)
    qed
    from sublist_cut [OF this ih] piece_ends [of ch] 2 False show ?thesis by simp
  qed (use 2 in auto)
qed

lemma redact_starts_char: "starts_char s \<Longrightarrow> starts_char (redact_inline_data_urls s)"
proof (cases "find_str ''data:'' s")
  case (Some i)
  assume s: "starts_char s"
  have "redact_inline_data_urls s = take i s @ CHR ''['' # tl (data_url_marker (take (data_segment_len (drop i s)) (drop i s)))
      @ redact_inline_data_urls (drop (data_segment_len (drop i s)) (drop i s))"
    by (subst redact_inline_data_urls.simps) (simp add: Some Let_def data_url_marker_def)
  then show ?thesis using s by (cases i; cases s) (simp_all add: starts_char_def)
qed (simp add: redact_inline_data_urls.simps [of s])

lemma sanitize_payload_free:
  assumes "starts_char s" "length (redact_inline_data_urls s) \<le> u64_max" "32 \<le> limit"
  shows "payload_free limit (sanitize_with_limit s limit)"
proof -
  let ?r = "redact_inline_data_urls s"
  have r: "starts_char ?r" using assms(1) by (rule redact_starts_char)
  have "runs_below limit 0 (truncated_chars limit [] (chars ?r))"
    using assms(2,3) char_count_le_length [of ?r] by (intro truncated_runs) (simp_all add: char_count_def)
  moreover have "\<not> sublist ''data:'' (truncate_loop limit [] (chars ?r))"
    using redact_clean chars_pieces [OF r] by (intro truncate_loop_no_data) auto
  ultimately show ?thesis
    using assms(3) chars_truncated [OF r, of limit]
    by (simp add: payload_free_def sanitize_with_limit_def) (simp add: truncate_opaque_runs_def)
qed

lemma sanitize_id: "payload_free limit s \<Longrightarrow> sanitize_with_limit s limit = s"
  by (simp add: payload_free_def sanitize_with_limit_def redact_id truncate_id)

text \<open>Every text of a value.\<close>

fun json_texts :: "json \<Rightarrow> string list" and items_texts :: "json list \<Rightarrow> string list"
  and members_texts :: "(string \<times> json) list \<Rightarrow> string list" where
  "json_texts (JStr s) = [s]"
| "json_texts (JArr vs) = items_texts vs"
| "json_texts (JObj m) = members_texts m"
| "json_texts _ = []"
| "items_texts [] = []"
| "items_texts (v # vs) = json_texts v @ items_texts vs"
| "members_texts [] = []"
| "members_texts (e # es) = json_texts (snd e) @ members_texts es"

lemma sanitize_texts:
  "json_texts (fst (sanitize_value v)) = map sanitize_prose (json_texts v)"
  "items_texts (fst (sanitize_items vs)) = map sanitize_prose (items_texts vs)"
  "members_texts (fst (sanitize_members m)) = map sanitize_prose (members_texts m)"
  by (induction v and vs and m rule: json_texts_items_texts_members_texts.induct) (auto simp: case_prod_unfold Let_def)

lemma sanitize_clean:
  "list_all (\<lambda>s. sanitize_prose s = s) (json_texts v) \<Longrightarrow> sanitize_value v = (v, False)"
  "list_all (\<lambda>s. sanitize_prose s = s) (items_texts vs) \<Longrightarrow> sanitize_items vs = (vs, False)"
  "list_all (\<lambda>s. sanitize_prose s = s) (members_texts m) \<Longrightarrow> sanitize_members m = (m, False)"
  by (induction v and vs and m rule: json_texts_items_texts_members_texts.induct) auto

lemma sanitize_changed:
  "snd (sanitize_value v) \<longleftrightarrow> fst (sanitize_value v) \<noteq> v"
  "snd (sanitize_items vs) \<longleftrightarrow> fst (sanitize_items vs) \<noteq> vs"
  "snd (sanitize_members m) \<longleftrightarrow> fst (sanitize_members m) \<noteq> m"
proof (induction v and vs and m rule: json_texts_items_texts_members_texts.induct)
  case (8 e es)
  then show ?case by (cases e) (auto simp: case_prod_unfold Let_def)
qed (auto simp: case_prod_unfold Let_def)

definition text_fits :: "string \<Rightarrow> bool" where
  "text_fits s = (starts_char s \<and> length (redact_inline_data_urls s) \<le> u64_max)"

lemma sanitize_prose_free: "text_fits s \<Longrightarrow> payload_free PROSE_RUN_LIMIT (sanitize_prose s)"
  using sanitize_payload_free [of s PROSE_RUN_LIMIT] by (simp add: text_fits_def sanitize_prose_def PROSE_RUN_LIMIT_def)

lemma members_texts_insert:
  "set (members_texts (om_insert k (JBool b) m)) \<subseteq> set (members_texts m)"
  by (induction m) (auto split: if_splits)

lemma guard_texts: "set (json_texts (payload_guard v)) \<subseteq> sanitize_prose ` set (json_texts v)"
proof -
  have "set (json_texts (jinsert ''payload_guard'' (JBool True) w)) \<subseteq> set (json_texts w)" for w
    using members_texts_insert by (cases w) auto
  then have "set (json_texts (payload_guard v)) \<subseteq> set (json_texts (fst (sanitize_value v)))"
    by (auto simp: payload_guard_def case_prod_unfold Let_def)
  then show ?thesis by (simp add: sanitize_texts)
qed

section \<open>Properties\<close>

text \<open>C39: The last guard in front of the model. Whatever a producer put into a web result, every text of the
guarded result is free of inline data URLs and of opaque runs of the payload size, guarding it again
changes nothing, and a result that the guard had to change carries the defect flag.
\<close>

theorem guarded_result_clean:
  assumes "list_all text_fits (json_texts v)"
  shows "list_all (payload_free PROSE_RUN_LIMIT) (json_texts (payload_guard v))
       \<and> payload_guard (payload_guard v) = payload_guard v
       \<and> (case v of JObj m \<Rightarrow> payload_guard v = v \<or> jget (payload_guard v) ''payload_guard'' = Some (JBool True) | _ \<Rightarrow> True)"
proof (intro conjI)
  have "\<forall>s \<in> set (json_texts (payload_guard v)). payload_free PROSE_RUN_LIMIT s"
    using guard_texts [of v] assms sanitize_prose_free by (fastforce simp: list_all_iff)
  then show free: "list_all (payload_free PROSE_RUN_LIMIT) (json_texts (payload_guard v))" by (simp add: list_all_iff)
  then have "list_all (\<lambda>s. sanitize_prose s = s) (json_texts (payload_guard v))"
    using sanitize_id by (auto simp: list_all_iff sanitize_prose_def)
  from sanitize_clean(1) [OF this] show "payload_guard (payload_guard v) = payload_guard v"
    by (simp add: payload_guard_def [of "payload_guard v"])
  show "case v of JObj m \<Rightarrow> payload_guard v = v \<or> jget (payload_guard v) ''payload_guard'' = Some (JBool True) | _ \<Rightarrow> True"
    using sanitize_changed(1) [of v]
    by (cases v) (auto simp: payload_guard_def case_prod_unfold Let_def map_simps)
qed

definition leaky_result :: json where
  "leaky_result = jobj [(''ok'', JBool True), (''excerpt'', JStr ''logo data:image/png;base64,AAAA tail'')]"

lemma guarded_result_clean_witness:
  "list_all (payload_free PROSE_RUN_LIMIT) (json_texts (payload_guard leaky_result))
   \<and> payload_guard (payload_guard leaky_result) = payload_guard leaky_result"
proof -
  have "redact_inline_data_urls ''logo data:image/png;base64,AAAA tail''
      = ''logo '' @ data_url_marker ''data:image/png;base64,AAAA'' @ '' tail''"
    by (simp add: redact_inline_data_urls.simps [of "''logo data:image/png;base64,AAAA tail''"]
        redact_inline_data_urls.simps [of "'' tail''"] starts_with_def data_segment_len_def is_data_url_terminator_def)
  moreover have "length (data_url_marker ''data:image/png;base64,AAAA'') \<le> 200"
  proof -
    have "length (nat_str (char_count ''data:image/png;base64,AAAA'')) \<le> 20" "length (nat_str (length ''data:image/png;base64,AAAA'')) \<le> 20"
      using char_count_le_length [of "''data:image/png;base64,AAAA''"] by (simp_all add: nat_str_short u64_max_def)
    then show ?thesis by (simp add: data_url_marker_def stable_hash_hex_def)
  qed
  ultimately have "text_fits ''logo data:image/png;base64,AAAA tail''"
    by (simp add: text_fits_def starts_char_def u64_max_def)
  then show ?thesis using guarded_result_clean [of leaky_result] by (simp add: leaky_result_def jobj_def)
qed

text \<open>The excerpt of a page is not bounded by its budget. \<^verbatim>\<open>EVIDENCE_BUDGET_CHARS\<close> is documented as the size
of the whole excerpt, markers included, but the cut that enforces it appends its own truncation note
after the last character of the budget, so every cut excerpt is longer than the budget.
\<close>

theorem cut_excerpt_over_budget:
  assumes "starts_char rendered" "EVIDENCE_BUDGET_CHARS < char_count rendered"
  shows "EVIDENCE_BUDGET_CHARS + 21 < char_count (bound_excerpt rendered)"
proof -
  let ?note = "''...[truncated chars='' @ nat_str (char_count rendered) @ '']''"
  have "bound_excerpt rendered = take_chars EVIDENCE_BUDGET_CHARS rendered @ ?note"
    using assms(2) by (simp add: bound_excerpt_def truncate_web_text_def)
  moreover have "starts_char ?note" by (simp add: starts_char_def)
  ultimately have "char_count (bound_excerpt rendered) = EVIDENCE_BUDGET_CHARS + char_count ?note"
    using assms by (simp add: char_count_append char_count_take_chars)
  moreover have "char_count ?note = length ?note"
    using nat_str_no_cont by (intro char_count_plain) (auto simp: list_all_iff)
  moreover have "0 < length (nat_str (char_count rendered))" by simp
  ultimately show ?thesis by simp
qed

lemma cut_excerpt_over_budget_witness:
  "EVIDENCE_BUDGET_CHARS + 21 < char_count (bound_excerpt (replicate 2001 (CHR ''x'')))"
proof -
  have "char_count (replicate 2001 (CHR ''x'')) = 2001" by (simp add: char_count_plain list_all_iff)
  moreover have "starts_char (replicate 2001 (CHR ''x''))" by (simp add: starts_char_def numeral_eq_Suc)
  ultimately show ?thesis using cut_excerpt_over_budget [of "replicate 2001 (CHR ''x'')"] by (simp add: EVIDENCE_BUDGET_CHARS_def)
qed

end
