(* ===== verification/Web_Request.thy ===== *)
theory Web_Request
  imports Web_Safety Web_Text
begin

text \<open>
  What the web search tool is asked to do: the normalisation of candidate URLs of
  \<^verbatim>\<open>crates/proxy/src/tools/web/safety.rs\<close>, the arguments of a call (\<^verbatim>\<open>request.rs\<close>), the ids of published
  candidates (\<^verbatim>\<open>ids.rs\<close>) and the page fetch with its checked redirects (\<^verbatim>\<open>fetch.rs\<close>, \<^verbatim>\<open>net.rs\<close>).
  The URL crate and the base64 decoder are the parameter \<open>url_lib\<close>, the network is an argument of the fetch.
\<close>

section \<open>URLs\<close>

record parsed_url = web_url +
  pu_path :: string
  pu_query :: "(string \<times> string) list"
  pu_text :: string

record url_lib =
  ul_parse :: "string \<Rightarrow> parsed_url option"
  ul_join :: "parsed_url \<Rightarrow> string \<Rightarrow> parsed_url option"
  ul_b64 :: "string \<Rightarrow> string option"

definition is_http :: "parsed_url \<Rightarrow> bool" where
  "is_http u = (wu_scheme u = ''http'' \<or> wu_scheme u = ''https'')"

text \<open>\<^verbatim>\<open>trim_matches\<close> of a set of ASCII characters, and \<^verbatim>\<open>trim_start_matches("a1")\<close>.\<close>

definition trim_set :: "char set \<Rightarrow> string \<Rightarrow> string" where
  "trim_set cs s = rev (dropWhile (\<lambda>c. c \<in> cs) (rev (dropWhile (\<lambda>c. c \<in> cs) s)))"

fun trim_a1 :: "string \<Rightarrow> string" where
  "trim_a1 (c # d # cs) = (if c = CHR ''a'' \<and> d = CHR ''1'' then trim_a1 cs else c # d # cs)"
| "trim_a1 cs = cs"

definition decode_duckduckgo_redirect_url :: "url_lib \<Rightarrow> parsed_url \<Rightarrow> parsed_url option" where
  "decode_duckduckgo_redirect_url U url =
     (case wu_host url of
        None \<Rightarrow> None
      | Some host \<Rightarrow>
          if \<not> ends_with (to_ascii_lowercase host) ''duckduckgo.com'' then None
          else case find (\<lambda>(key, _). key = ''uddg'' \<or> key = ''u'') (pu_query url) of
                 None \<Rightarrow> None
               | Some (_, target) \<Rightarrow> opt_filter is_http (ul_parse U (trim_a1 target)))"

definition decode_bing_redirect_url :: "url_lib \<Rightarrow> parsed_url \<Rightarrow> parsed_url option" where
  "decode_bing_redirect_url U url =
     (case wu_host url of
        None \<Rightarrow> None
      | Some host \<Rightarrow>
          if \<not> ends_with (to_ascii_lowercase host) ''bing.com'' \<or> \<not> starts_with (pu_path url) ''/ck/'' then None
          else case find (\<lambda>(key, _). key = ''u'') (pu_query url) of
                 None \<Rightarrow> None
               | Some (_, value) \<Rightarrow>
                   (case ul_b64 U (trim_a1 (trim value)) of
                      None \<Rightarrow> None
                    | Some decoded \<Rightarrow> opt_filter is_http (ul_parse U decoded)))"

definition decode_search_redirect_url :: "url_lib \<Rightarrow> parsed_url \<Rightarrow> parsed_url option" where
  "decode_search_redirect_url U url =
     or_else (decode_bing_redirect_url U url) (decode_duckduckgo_redirect_url U url)"

definition normalize_candidate_url :: "url_lib \<Rightarrow> string \<Rightarrow> string option" where
  "normalize_candidate_url U value =
     (let raw = trim_set {CHR 0x22, CHR 0x27, CHR '' '', CHR 0x0A, CHR 0x0D, CHR 0x09} (trim value)
      in if raw = [] then None
         else
           let raw = trim_url_trailing_punctuation raw;
               raw = (case strip_prefix ''//'' raw of None \<Rightarrow> raw | Some rest \<Rightarrow> ''https://'' @ rest);
               parsed = (if starts_with raw ''http://'' \<or> starts_with raw ''https://'' then ul_parse U raw
                         else if CHR ''.'' \<in> set (hd (split_char (CHR ''/'') raw)) then ul_parse U (''https://'' @ raw)
                         else None)
           in case parsed of
                None \<Rightarrow> None
              | Some parsed \<Rightarrow>
                  let parsed = unwrap_or parsed (decode_search_redirect_url U parsed)
                  in if is_http parsed then Some (pu_text parsed) else None)"

section \<open>The arguments of a call\<close>

definition MAX_RESULTS :: nat where "MAX_RESULTS = 8"
definition MAX_QUERIES :: nat where "MAX_QUERIES = 3"
definition MAX_OPEN_TARGETS :: nat where "MAX_OPEN_TARGETS = 6"

datatype web_mode = Search | Open

definition web_mode_str :: "web_mode \<Rightarrow> string" where
  "web_mode_str mode = (case mode of Search \<Rightarrow> ''search'' | Open \<Rightarrow> ''open'')"

record web_request =
  wr_mode :: web_mode
  wr_queries :: "string list"
  wr_open_urls :: "string list"
  wr_open_ids :: "string list"
  wr_max_results :: nat

definition desired_max_results :: "json \<Rightarrow> nat" where
  "desired_max_results args = min MAX_RESULTS (max 1 (unwrap_or 5 (Option.bind (jget args ''max_results'') as_u64)))"

text \<open>\<^verbatim>\<open>text.split(['\n', '\r'])\<close>.\<close>

definition split_breaks :: "string \<Rightarrow> string list" where
  "split_breaks s = concat (map (split_char (CHR 0x0D)) (split_char (CHR 0x0A) s))"

definition string_or_array :: "json option \<Rightarrow> string list" where
  "string_or_array value =
     (case value of
        Some (JStr s) \<Rightarrow> split_breaks s
      | Some (JArr items) \<Rightarrow> List.map_filter as_str items
      | _ \<Rightarrow> [])"

definition query_values :: "json option \<Rightarrow> string list" where
  "query_values value =
     (case value of
        Some (JArr items) \<Rightarrow>
          List.map_filter (\<lambda>item. or_else (as_str item) (or_else (get_str item ''q'') (get_str item ''query''))) items
      | other \<Rightarrow> string_or_array other)"

fun dedupe_loop :: "nat \<Rightarrow> nat \<Rightarrow> string set \<Rightarrow> string list \<Rightarrow> string list \<Rightarrow> string list" where
  "dedupe_loop max_items max_chars seen out [] = out"
| "dedupe_loop max_items max_chars seen out (value # vs) =
     (let cleaned = take_chars max_chars (compact_whitespace value); key = to_ascii_lowercase cleaned
      in if cleaned = [] \<or> key \<in> seen then dedupe_loop max_items max_chars seen out vs
         else if max_items \<le> length (out @ [cleaned]) then out @ [cleaned]
         else dedupe_loop max_items max_chars (insert key seen) (out @ [cleaned]) vs)"

definition dedupe :: "string list \<Rightarrow> nat \<Rightarrow> nat \<Rightarrow> string list" where
  "dedupe vs max_items max_chars = dedupe_loop max_items max_chars {} [] vs"

definition collect_queries :: "json \<Rightarrow> string list" where
  "collect_queries args =
     dedupe (query_values (jget args ''queries'') @ string_or_array (jget args ''search_query'')
       @ string_or_array (jget args ''query'') @ string_or_array (jget args ''q'')) MAX_QUERIES 300"

definition collect_targets :: "json \<Rightarrow> string list \<Rightarrow> string list" where
  "collect_targets args keys = concat (map (\<lambda>key. string_or_array (jget args key)) keys)"

definition parse_request :: "url_lib \<Rightarrow> json \<Rightarrow> web_request" where
  "parse_request U args =
     (let declared = map_option (\<lambda>v. to_ascii_lowercase (trim v))
            (Option.bind (or_else (jget args ''mode'') (jget args ''type'')) as_str);
          queries = collect_queries args;
          open_urls = collect_targets args [''open_urls'', ''urls'', ''url''];
          open_ids = collect_targets args [''open_ids'', ''ids'', ''id''];
          open_urls = (if open_urls = [] \<and> open_ids = [] then List.map_filter (normalize_candidate_url U) queries
                       else open_urls);
          open_urls = List.map_filter (normalize_candidate_url U) (dedupe open_urls MAX_OPEN_TARGETS 2048);
          open_ids = dedupe open_ids MAX_OPEN_TARGETS 128;
          mode = (if declared = Some ''open'' \<or> open_urls \<noteq> [] \<or> open_ids \<noteq> [] then Open else Search)
      in \<lparr>wr_mode = mode, wr_queries = queries, wr_open_urls = open_urls, wr_open_ids = open_ids,
          wr_max_results = desired_max_results args\<rparr>)"

definition parse_arguments :: "ext_lib \<Rightarrow> url_lib \<Rightarrow> string \<Rightarrow> web_request" where
  "parse_arguments L U arguments = parse_request U (unwrap_or (JObj []) (json_from_str L arguments))"

definition client_action :: "web_request \<Rightarrow> json" where
  "client_action r =
     (if wr_mode r = Open then
        let action = jobj [(''type'', JStr ''open_page'')];
            action = (case wr_open_urls r of [] \<Rightarrow> action | url # _ \<Rightarrow> jinsert ''url'' (JStr url) action);
            action = (if length (wr_open_urls r) > 1 then jinsert ''urls'' (JArr (map JStr (wr_open_urls r))) action else action);
            action = (if wr_open_ids r \<noteq> [] then jinsert ''ids'' (JArr (map JStr (wr_open_ids r))) action else action)
        in if wr_queries r \<noteq> [] then jinsert ''query'' (JStr (join [CHR 0x0A] (wr_queries r))) action else action
      else jobj [(''type'', JStr ''search''), (''query'', JStr (join [CHR 0x0A] (wr_queries r))),
             (''queries'', JArr (map JStr (wr_queries r)))])"

definition client_action_from_arguments :: "ext_lib \<Rightarrow> url_lib \<Rightarrow> string \<Rightarrow> json" where
  "client_action_from_arguments L U arguments = client_action (parse_arguments L U arguments)"

section \<open>Bounds of a request\<close>

definition cleaned_entry :: "nat \<Rightarrow> string \<Rightarrow> bool" where
  "cleaned_entry max_chars v = (v \<noteq> [] \<and> (\<exists>w. v = take_chars max_chars (compact_whitespace w)))"

lemma dedupe_loop_ok:
  assumes "distinct (map to_ascii_lowercase out)" "seen = to_ascii_lowercase ` set out" "length out < max_items"
    and "list_all (cleaned_entry max_chars) out"
  defines "res \<equiv> \<lambda>vs. dedupe_loop max_items max_chars seen out vs"
  shows "length (res vs) \<le> max_items \<and> distinct (map to_ascii_lowercase (res vs))
     \<and> list_all (cleaned_entry max_chars) (res vs)"
  using assms(1-4) unfolding res_def
proof (induction vs arbitrary: out seen)
  case (Cons v vs)
  let ?c = "take_chars max_chars (compact_whitespace v)"
  show ?case
  proof (cases "?c = [] \<or> to_ascii_lowercase ?c \<in> seen")
    case False
    then have "cleaned_entry max_chars ?c" by (auto simp: cleaned_entry_def)
    with False Cons.prems Cons.IH [of "out @ [?c]" "insert (to_ascii_lowercase ?c) seen"]
    show ?thesis by (auto simp: Let_def)
  qed (use Cons in \<open>simp add: Let_def\<close>)
qed simp

lemma dedupe_ok:
  assumes "0 < max_items"
  shows "length (dedupe vs max_items max_chars) \<le> max_items"
    and "distinct (map to_ascii_lowercase (dedupe vs max_items max_chars))"
    and "v \<in> set (dedupe vs max_items max_chars) \<Longrightarrow> cleaned_entry max_chars v"
  using dedupe_loop_ok [of "[]" "{}" max_items max_chars vs] assms by (auto simp: dedupe_def list_all_iff)

text \<open>\<open>is_candidate U url\<close>: the text of a parsed http or https URL.\<close>

definition is_candidate :: "url_lib \<Rightarrow> string \<Rightarrow> bool" where
  "is_candidate U url = (\<exists>s u. ul_parse U s = Some u \<and> is_http u \<and> url = pu_text u)"

lemma redirect_parsed: "decode_search_redirect_url U url = Some u \<Longrightarrow> \<exists>s. ul_parse U s = Some u \<and> is_http u"
  by (auto simp: decode_search_redirect_url_def decode_bing_redirect_url_def decode_duckduckgo_redirect_url_def or_else_def
      split: option.splits if_splits prod.splits)

lemma normalized_candidate:
  assumes "normalize_candidate_url U value = Some url"
  shows "is_candidate U url"
proof -
  from assms obtain s p where "ul_parse U s = Some p"
    and url: "(let q = unwrap_or p (decode_search_redirect_url U p) in if is_http q then Some (pu_text q) else None) = Some url"
    unfolding normalize_candidate_url_def Let_def by (auto split: option.splits if_splits)
  then show ?thesis
    using redirect_parsed [of U p] unfolding is_candidate_def
    by (cases "decode_search_redirect_url U p") (auto simp: Let_def split: if_splits)
qed

lemma map_filter_length: "length (List.map_filter f xs) \<le> length xs"
  by (simp add: map_filter_def)


definition demo_urls :: url_lib where
  "demo_urls = \<lparr>ul_parse = (\<lambda>s. Some \<lparr>wu_scheme = ''https'', wu_host = Some ''a.example'', wu_port = Some 443, pu_path = ''/'',
       pu_query = [], pu_text = ''https://a.example/''\<rparr>), ul_join = (\<lambda>u l. None), ul_b64 = (\<lambda>_. None)\<rparr>"

definition demo_search :: json where
  "demo_search = jobj [(''queries'', JArr [JStr ''a  b'', JStr ''A b'', JStr ''c'', JStr ''d'', JStr ''e'']), (''max_results'', JNum (PosInt 90))]"


end
