(* ===== verification/Web_Fetch.thy ===== *)
theory Web_Fetch
  imports Web_Request
begin

text \<open>
  Opening a page for the web search tool, \<^verbatim>\<open>crates/proxy/src/tools/web/fetch.rs\<close> with the reading loop of
  \<^verbatim>\<open>net.rs\<close>, and the ids of published candidates, \<^verbatim>\<open>ids.rs\<close>. The network is an argument: the answer to a GET
  of a URL through a client pinned to given addresses, the name service, and the extraction of a document
  (\<^verbatim>\<open>extract.rs\<close>). Every GET that is sent is recorded.
\<close>

definition MAX_BYTES :: nat where "MAX_BYTES = 524288"
definition MAX_REDIRECTS :: nat where "MAX_REDIRECTS = 5"

text \<open>\<^verbatim>\<open>read_limited_response_bytes\<close>: the chunks of a body, \<open>None\<close> for one that failed.\<close>

fun read_limited :: "string \<Rightarrow> string option list \<Rightarrow> string \<times> bool" where
  "read_limited bytes [] = (bytes, False)"
| "read_limited bytes (None # chunks) = (bytes, False)"
| "read_limited bytes (Some chunk # chunks) =
     (let remaining = MAX_BYTES - length bytes
      in if remaining = 0 then (bytes, True)
         else if length chunk > remaining then (bytes @ take remaining chunk, True)
         else read_limited (bytes @ chunk) chunks)"

definition bytes_have_binary_markers :: "string \<Rightarrow> bool" where
  "bytes_have_binary_markers bytes =
     (let sample = take 4096 bytes in starts_with sample ''%PDF'' \<or> CHR 0x00 \<in> set sample)"

definition is_textual_content_type :: "string \<Rightarrow> bool" where
  "is_textual_content_type content_type =
     (let ct = to_ascii_lowercase content_type
      in if list_ex (contains_str ct) [''text/css'', ''javascript'', ''font/'', ''image/'', ''audio/'', ''video/'', ''pdf'',
           ''octet-stream''] then False
         else starts_with ct ''text/'' \<or> contains_str ct ''json'' \<or> contains_str ct ''xml'' \<or> contains_str ct ''html'')"

record 'd fetched_page =
  fp_url :: string
  fp_requested_url :: string
  fp_status :: "nat option"
  fp_content_type :: string
  fp_bytes :: nat
  fp_truncated :: bool
  fp_redirects :: "string list"
  fp_error :: "string option"
  fp_message :: string
  fp_document :: "'d option"

definition page_ok :: "'d fetched_page \<Rightarrow> bool" where
  "page_ok p = (fp_error p = None \<and> fp_document p \<noteq> None)"

definition page_failure :: "string \<Rightarrow> string \<Rightarrow> string \<Rightarrow> 'd fetched_page" where
  "page_failure requested_url err message =
     \<lparr>fp_url = requested_url, fp_requested_url = requested_url, fp_status = None, fp_content_type = [], fp_bytes = 0,
      fp_truncated = False, fp_redirects = [], fp_error = Some err, fp_message = message, fp_document = None\<rparr>"

text \<open>An answer has a status, the Location and Content-Type headers and a body.\<close>

datatype http_answer = GetFailed string | Answer nat "string option" "string option" "string option list"

text \<open>The client of a request: \<^verbatim>\<open>pinned_no_redirect_client\<close> maps the host to the checked addresses.\<close>

type_synonym pin = "(string \<times> ip_addr list) option"

definition pinned_client :: "string \<Rightarrow> ip_addr list \<Rightarrow> pin" where
  "pinned_client host addrs = (if host = [] \<or> addrs = [] then None else Some (host, addrs))"

record 'd fetch_env =
  fe_urls :: url_lib
  fe_allow_private :: "string option"
  fe_lookup :: "string \<Rightarrow> nat \<Rightarrow> string + ip_addr list"
  fe_get :: "parsed_url \<Rightarrow> pin \<Rightarrow> http_answer"
  fe_document :: "string \<Rightarrow> string \<Rightarrow> string \<Rightarrow> 'd option"

type_synonym gets = "(parsed_url \<times> pin) list"

text \<open>
  The body of the page behind the last redirect. \<open>fe_document\<close> is the extracted document of the bytes, \<open>None\<close>
  when it has no block.
\<close>

definition read_page ::
  "'d fetch_env \<Rightarrow> string \<Rightarrow> parsed_url \<Rightarrow> string list \<Rightarrow> nat \<Rightarrow> string option \<Rightarrow> string option list \<Rightarrow> 'd fetched_page" where
  "read_page E requested_url url redirects status content_type chunks =
     (let content_type = unwrap_or [] content_type;
          (bytes, truncated) = read_limited [] chunks;
          page = (\<lambda>err message document.
            \<lparr>fp_url = pu_text url, fp_requested_url = requested_url, fp_status = Some status,
             fp_content_type = content_type, fp_bytes = length bytes, fp_truncated = truncated,
             fp_redirects = redirects, fp_error = err, fp_message = message, fp_document = document\<rparr>)
      in if \<not> (200 \<le> status \<and> status < 300)
         then page (Some ''http_status'') (''The page returned HTTP '' @ nat_str status @ ''.'') None
         else if bytes_have_binary_markers bytes \<or> \<not> is_textual_content_type content_type
         then page (Some ''unsupported_content_type'') ''The response is not a readable text document.'' None
         else case fe_document E bytes content_type (pu_text url) of
                None \<Rightarrow> page (Some ''empty_text_content'') ''The page yielded no readable text.'' None
              | Some document \<Rightarrow> page None [] (Some document))"

text \<open>The loop \<^verbatim>\<open>for _ in 0..=MAX_REDIRECTS\<close>, with the turns that are left and the GETs it sends.\<close>

fun fetch_loop :: "'d fetch_env \<Rightarrow> string \<Rightarrow> nat \<Rightarrow> parsed_url \<Rightarrow> string list \<Rightarrow> 'd fetched_page \<times> gets" where
  "fetch_loop E requested_url 0 url redirects =
     (page_failure requested_url ''too_many_redirects'' ''The page redirected more times than CodeSeeX follows.'', [])"
| "fetch_loop E requested_url (Suc n) url redirects =
     (if url_path_looks_blocked_resource (pu_path url)
      then (page_failure requested_url ''blocked_resource_type''
              ''Binary, font, image, media, archive, and PDF resources are not opened by web search.'', [])
      else case validate_public_web_url (fe_allow_private E) (web_url.truncate url) of
        Inl message \<Rightarrow> (page_failure requested_url ''blocked_url'' message, [])
      | Inr _ \<Rightarrow>
          (case resolve_public_web_host (fe_allow_private E) (fe_lookup E) (web_url.truncate url) of
             Inl message \<Rightarrow> (page_failure requested_url ''blocked_url'' message, [])
           | Inr pinned \<Rightarrow>
               let client = pinned_client (unwrap_or [] (wu_host url)) pinned
               in case fe_get E url client of
                    GetFailed message \<Rightarrow> (page_failure requested_url ''request_failed'' message, [(url, client)])
                  | Answer status location content_type chunks \<Rightarrow>
                      if 300 \<le> status \<and> status < 400 then
                        (case location of
                           None \<Rightarrow> (page_failure requested_url ''invalid_redirect''
                                     ''The server sent a redirect without a Location header.'', [(url, client)])
                         | Some l \<Rightarrow>
                             (case ul_join (fe_urls E) url l of
                                None \<Rightarrow> (page_failure requested_url ''invalid_redirect''
                                          ''The redirect target could not be resolved.'', [(url, client)])
                              | Some target \<Rightarrow>
                                  let (page, gets) = fetch_loop E requested_url n target (redirects @ [pu_text target])
                                  in (page, (url, client) # gets)))
                      else (read_page E requested_url url redirects status content_type chunks, [(url, client)])))"

definition fetch_page :: "'d fetch_env \<Rightarrow> string \<Rightarrow> 'd fetched_page \<times> gets" where
  "fetch_page E raw_url =
     (let normalized = unwrap_or (trim raw_url) (normalize_candidate_url (fe_urls E) raw_url)
      in case ul_parse (fe_urls E) normalized of
           None \<Rightarrow> (page_failure raw_url ''invalid_url'' ''The URL could not be parsed.'', [])
         | Some url \<Rightarrow> fetch_loop E (pu_text url) (Suc MAX_REDIRECTS) url [])"

section \<open>Candidate ids\<close>

definition candidate_id_for :: "ext_lib \<Rightarrow> string \<Rightarrow> string \<Rightarrow> string \<Rightarrow> string \<Rightarrow> string" where
  "candidate_id_for L url title query source =
     (let part = (\<lambda>s. to_ascii_lowercase (trim s));
          digest = sha256 L (part url @ [CHR 0x00] @ part title @ [CHR 0x00] @ part query @ [CHR 0x00] @ part source)
      in ''cand_'' @ concat (map (\<lambda>b. hex_str 2 (byte_val b)) (take 6 digest)))"

definition published :: "url_lib \<Rightarrow> (string \<times> json) list \<Rightarrow> (string \<times> string) option" where
  "published U m =
     (case (Option.bind (map_of m ''id'') as_str, Option.bind (or_else (map_of m ''url'') (map_of m ''link'')) as_str) of
        (Some i, Some url) \<Rightarrow>
          if starts_with (trim i) ''cand_''
          then map_option (\<lambda>url. (to_ascii_lowercase (trim i), url)) (normalize_candidate_url U url) else None
      | _ \<Rightarrow> None)"

text \<open>\<^verbatim>\<open>lookup.entry(key).or_insert(url)\<close>.\<close>

definition or_insert :: "(string \<times> string) option \<Rightarrow> (string \<times> string) list \<Rightarrow> (string \<times> string) list" where
  "or_insert entry lookup =
     (case entry of None \<Rightarrow> lookup | Some (k, v) \<Rightarrow> if map_of lookup k = None then om_insert k v lookup else lookup)"

fun collect_from_value :: "url_lib \<Rightarrow> json \<Rightarrow> (string \<times> string) list \<Rightarrow> (string \<times> string) list"
  and collect_from_items :: "url_lib \<Rightarrow> json list \<Rightarrow> (string \<times> string) list \<Rightarrow> (string \<times> string) list"
  and collect_from_members :: "url_lib \<Rightarrow> (string \<times> json) list \<Rightarrow> (string \<times> string) list \<Rightarrow> (string \<times> string) list" where
  "collect_from_value U (JArr items) lookup = collect_from_items U items lookup"
| "collect_from_value U (JObj m) lookup = collect_from_members U m (or_insert (published U m) lookup)"
| "collect_from_value U _ lookup = lookup"
| "collect_from_items U [] lookup = lookup"
| "collect_from_items U (v # vs) lookup = collect_from_items U vs (collect_from_value U v lookup)"
| "collect_from_members U [] lookup = lookup"
| "collect_from_members U (e # es) lookup =
     collect_from_members U es
       (if fst e \<in> {''id'', ''url'', ''link'', ''type'', ''score'', ''rank''} then lookup
        else collect_from_value U (snd e) lookup)"

text \<open>
  \<^verbatim>\<open>balanced_object\<close>: the state of the scan is the depth and whether it is in a string, after a backslash. All
  characters it tests are ASCII, so it may go byte by byte.
\<close>

fun balanced_loop :: "nat \<Rightarrow> bool \<Rightarrow> bool \<Rightarrow> string \<Rightarrow> string option" where
  "balanced_loop depth in_string escaped [] = None"
| "balanced_loop depth in_string escaped (c # cs) =
     map_option (\<lambda>rest. c # rest)
       (if in_string then
          (if escaped then balanced_loop depth True False cs
           else if c = CHR 0x5C then balanced_loop depth True True cs
           else balanced_loop depth (c \<noteq> CHR 0x22) False cs)
        else if c = CHR 0x22 then balanced_loop depth True escaped cs
        else if c = CHR ''{'' then balanced_loop (Suc depth) False escaped cs
        else if c = CHR ''}'' then
          (if depth = 0 then None else if depth = 1 then Some [] else balanced_loop (depth - 1) False escaped cs)
        else balanced_loop depth False escaped cs)"

definition balanced_object :: "string \<Rightarrow> string option" where
  "balanced_object s = balanced_loop 0 False False s"

definition embedded_json_after :: "ext_lib \<Rightarrow> string \<Rightarrow> string \<Rightarrow> json option" where
  "embedded_json_after L s marker =
     (case find_str marker s of
        None \<Rightarrow> None
      | Some i \<Rightarrow>
          let rest = drop (i + length marker) s
          in case find_str ''{'' rest of
               None \<Rightarrow> None
             | Some j \<Rightarrow> Option.bind (balanced_object (drop j rest)) (json_from_str L))"

definition collect_from_content :: "ext_lib \<Rightarrow> url_lib \<Rightarrow> json \<Rightarrow> (string \<times> string) list \<Rightarrow> (string \<times> string) list" where
  "collect_from_content L U content lookup =
     (case content of
        JStr s \<Rightarrow>
          (case json_from_str L s of
             Some parsed \<Rightarrow> collect_from_value U parsed lookup
           | None \<Rightarrow>
               (case embedded_json_after L s ''output='' of
                  Some v \<Rightarrow> collect_from_value U v lookup
                | None \<Rightarrow> lookup))
      | other \<Rightarrow> collect_from_value U other lookup)"

definition lookup_from_messages :: "ext_lib \<Rightarrow> url_lib \<Rightarrow> json list \<Rightarrow> (string \<times> string) list" where
  "lookup_from_messages L U messages =
     fold (\<lambda>message lookup.
       let lookup = collect_from_value U message lookup
       in case jget message ''content'' of None \<Rightarrow> lookup | Some content \<Rightarrow> collect_from_content L U content lookup)
       messages []"

fun resolve_loop ::
  "(string \<times> string) list \<Rightarrow> string set \<Rightarrow> string list \<Rightarrow> string list \<Rightarrow> string list \<Rightarrow> string list \<times> string list" where
  "resolve_loop lookup seen targets unresolved [] = (targets, unresolved)"
| "resolve_loop lookup seen targets unresolved (i # ids) =
     (case map_of lookup (to_ascii_lowercase (trim i)) of
        None \<Rightarrow> resolve_loop lookup seen targets (unresolved @ [i]) ids
      | Some url \<Rightarrow>
          if to_ascii_lowercase url \<in> seen then resolve_loop lookup seen targets unresolved ids
          else resolve_loop lookup (insert (to_ascii_lowercase url) seen) (targets @ [url]) unresolved ids)"

definition resolve_open_ids :: "string list \<Rightarrow> (string \<times> string) list \<Rightarrow> string list \<Rightarrow> string list \<times> string list" where
  "resolve_open_ids ids lookup targets =
     resolve_loop lookup (to_ascii_lowercase ` set targets) targets [] ids"

section \<open>Only checked targets are contacted\<close>

lemma read_limited_bound: "length bytes \<le> MAX_BYTES \<Longrightarrow> length (fst (read_limited bytes chunks)) \<le> MAX_BYTES"
  by (induction bytes chunks rule: read_limited.induct) (auto simp: Let_def)

text \<open>A GET that may be sent: to an http or https URL with a host, through a client pinned to public addresses of it.\<close>

definition checked_get :: "parsed_url \<times> pin \<Rightarrow> bool" where
  "checked_get g =
     (is_http (fst g) \<and> \<not> url_path_looks_blocked_resource (pu_path (fst g))
      \<and> (\<exists>host addrs. wu_host (fst g) = Some host \<and> addrs \<noteq> [] \<and> (\<forall>ip \<in> set addrs. public_ip ip)
           \<and> (host = [] \<or> snd g = Some (host, addrs))))"

lemma resolved_get_checked:
  assumes "\<not> allow_private_web_targets env" "resolve_public_web_host env lookup (web_url.truncate url) = Inr pinned"
    and "\<not> url_path_looks_blocked_resource (pu_path url)"
  shows "checked_get (url, pinned_client (unwrap_or [] (wu_host url)) pinned)"
proof -
  have t: "wu_scheme (web_url.truncate url) = wu_scheme url" "wu_host (web_url.truncate url) = wu_host url"
    by (simp_all add: web_url.truncate_def)
  from resolve_ok [OF assms(1,2), unfolded t] assms(3) show ?thesis
    by (auto simp: checked_get_def is_http_def pinned_client_def)
qed

text \<open>The chain of redirects that a page reports.\<close>

definition chain_ok :: "string list \<Rightarrow> parsed_url \<Rightarrow> 'd fetched_page \<Rightarrow> gets \<Rightarrow> bool" where
  "chain_ok redirects url page gets =
     (fp_bytes page \<le> MAX_BYTES \<and>
      (page_ok page \<longrightarrow> gets \<noteq> [] \<and> fst (hd gets) = url \<and> fp_url page = pu_text (fst (last gets))
         \<and> fp_redirects page = redirects @ map (\<lambda>g. pu_text (fst g)) (tl gets)))"

lemma read_page_facts:
  "fp_bytes (read_page E r url rs st ct chunks) \<le> MAX_BYTES"
  "fp_url (read_page E r url rs st ct chunks) = pu_text url"
  "fp_redirects (read_page E r url rs st ct chunks) = rs"
  using read_limited_bound [of "[]" chunks]
  by (auto simp: read_page_def Let_def case_prod_unfold split: option.splits)

lemma failure_facts [simp]: "fp_bytes (page_failure r e m) = 0" "\<not> page_ok (page_failure r e m)"
  by (simp_all add: page_failure_def page_ok_def)

lemma fetch_loop_ok:
  assumes "\<not> allow_private_web_targets (fe_allow_private E)" "fetch_loop E r n url rs = (page, gets)"
  shows "length gets \<le> n \<and> list_all checked_get gets \<and> chain_ok rs url page gets"
  using assms(2)
proof (induction n arbitrary: url rs page gets)
  case 0
  then show ?case by (auto simp: chain_ok_def)
next
  case (Suc n)
  consider (stopped) "gets = []" "page = page_failure r (the (fp_error page)) (fp_message page)"
    | (sent) pinned where "\<not> url_path_looks_blocked_resource (pu_path url)"
        "resolve_public_web_host (fe_allow_private E) (fe_lookup E) (web_url.truncate url) = Inr pinned"
    using Suc.prems by (auto simp: page_failure_def split: if_splits sum.splits)
  then show ?case
  proof cases
    case stopped
    then have "fp_bytes page = 0" "\<not> page_ok page" by (metis failure_facts)+
    with stopped(1) show ?thesis by (simp add: chain_ok_def)
  next
    case sent
    let ?g = "(url, pinned_client (unwrap_or [] (wu_host url)) pinned)"
    have g: "checked_get ?g" using resolved_get_checked assms(1) sent by blast
    have step: "(\<exists>e m. page = page_failure r e m) \<and> gets = [?g]
        \<or> (\<exists>st ct chunks. page = read_page E r url rs st ct chunks) \<and> gets = [?g]
        \<or> (\<exists>target gs. fetch_loop E r n target (rs @ [pu_text target]) = (page, gs) \<and> gets = ?g # gs)
        \<or> (\<exists>e m. page = page_failure r e m) \<and> gets = []"
    proof (cases "validate_public_web_url (fe_allow_private E) (web_url.truncate url)")
      case (Inl m)
      with Suc.prems sent show ?thesis by auto
    next
      case (Inr u)
      show ?thesis
      proof (cases "fe_get E url (snd ?g)")
        case (GetFailed m)
        with Suc.prems sent Inr show ?thesis by auto
      next
        case (Answer st loc ct chunks)
        show ?thesis
        proof (cases "300 \<le> st \<and> st < 400")
          case True
          show ?thesis
          proof (cases "Option.bind loc (ul_join (fe_urls E) url)")
            case None
            with Suc.prems sent Inr Answer True show ?thesis by (cases loc) auto
          next
            case (Some target)
            obtain page' gs where "fetch_loop E r n target (rs @ [pu_text target]) = (page', gs)" by fastforce
            with Suc.prems sent Inr Answer True Some show ?thesis by (cases loc) auto
          qed
        next
          case False
          with Suc.prems sent Inr Answer have "page = read_page E r url rs st ct chunks" "gets = [?g]" by auto
          then show ?thesis by blast
        qed
      qed
    qed
    then show ?thesis
    proof (elim disjE conjE exE)
      fix target gs assume run: "fetch_loop E r n target (rs @ [pu_text target]) = (page, gs)" and gets: "gets = ?g # gs"
      from Suc.IH [OF run] g gets show ?thesis by (cases gs) (auto simp: chain_ok_def)
    qed (use g read_page_facts in \<open>auto simp: chain_ok_def\<close>)
  qed
qed

section \<open>Candidate ids\<close>

lemma or_insert_candidates:
  assumes "\<forall>e \<in> set lookup. is_candidate U (snd e)"
  shows "\<forall>e \<in> set (or_insert (published U m) lookup). is_candidate U (snd e)"
proof (cases "published U m")
  case (Some p)
  obtain k v where p: "p = (k, v)" by (cases p)
  have ins: "e = (k, v) \<or> e \<in> set l" if "e \<in> set (om_insert k v l)" for e l
    using that by (induction l) (auto split: if_splits)
  have "is_candidate U v"
    using Some p by (auto simp: published_def normalized_candidate split: option.splits if_splits)
  with ins assms show ?thesis unfolding Some p or_insert_def by (auto dest: ins)
qed (use assms in \<open>simp add: or_insert_def\<close>)

lemma collected_candidates:
  "\<forall>e \<in> set lookup. is_candidate U (snd e) \<Longrightarrow> \<forall>e \<in> set (collect_from_value U v lookup). is_candidate U (snd e)"
  "\<forall>e \<in> set lookup. is_candidate U (snd e) \<Longrightarrow> \<forall>e \<in> set (collect_from_items U vs lookup). is_candidate U (snd e)"
  "\<forall>e \<in> set lookup. is_candidate U (snd e) \<Longrightarrow> \<forall>e \<in> set (collect_from_members U m lookup). is_candidate U (snd e)"
proof (induction U v lookup and U vs lookup and U m lookup rule: collect_from_value_collect_from_items_collect_from_members.induct)
  case (2 U m lookup)
  then show ?case using or_insert_candidates by simp
qed auto

lemma content_candidates:
  "\<forall>e \<in> set lookup. is_candidate U (snd e) \<Longrightarrow> \<forall>e \<in> set (collect_from_content L U c lookup). is_candidate U (snd e)"
  unfolding collect_from_content_def using collected_candidates(1) [of lookup U]
  by (cases c) (simp_all split: option.split del: collect_from_value.simps)

lemma lookup_candidates: "\<forall>e \<in> set (lookup_from_messages L U messages). is_candidate U (snd e)"
proof -
  define step where "step = (\<lambda>message lookup.
    let lookup = collect_from_value U message lookup
    in case jget message ''content'' of None \<Rightarrow> lookup | Some content \<Rightarrow> collect_from_content L U content lookup)"
  have step: "\<forall>e \<in> set (step m l). is_candidate U (snd e)" if "\<forall>e \<in> set l. is_candidate U (snd e)" for m l
    using collected_candidates(1) [OF that, of m] content_candidates
    by (cases "jget m ''content''") (simp_all add: step_def)
  have "\<forall>e \<in> set (fold step messages l). is_candidate U (snd e)" if "\<forall>e \<in> set l. is_candidate U (snd e)" for l
    using that
  proof (induction messages arbitrary: l)
    case (Cons m ms)
    then show ?case using step [OF Cons.prems, of m] by simp
  qed simp
  from this [of "[]"] show ?thesis by (simp add: lookup_from_messages_def step_def)
qed

lemma resolve_loop_spec:
  "resolve_loop lookup seen targets unresolved ids = (ts, us) \<Longrightarrow>
   us = unresolved @ filter (\<lambda>i. map_of lookup (to_ascii_lowercase (trim i)) = None) ids
   \<and> set targets \<subseteq> set ts
   \<and> set ts \<subseteq> set targets \<union> {url. \<exists>i \<in> set ids. map_of lookup (to_ascii_lowercase (trim i)) = Some url}"
  by (induction lookup seen targets unresolved ids rule: resolve_loop.induct)
    (auto split: option.splits if_splits)

section \<open>Properties\<close>


definition demo_url :: "string \<Rightarrow> parsed_url" where
  "demo_url host = \<lparr>wu_scheme = ''https'', wu_host = Some host, wu_port = Some 443, pu_path = ''/'', pu_query = [],
     pu_text = ''https://'' @ host @ ''/''\<rparr>"

definition demo_fetch :: "string fetch_env" where
  "demo_fetch = \<lparr>fe_urls = \<lparr>ul_parse = (\<lambda>s. Some (demo_url ''a.example'')),
       ul_join = (\<lambda>u l. Some (demo_url l)), ul_b64 = (\<lambda>_. None)\<rparr>,
     fe_allow_private = None, fe_lookup = (\<lambda>_ _. Inr [V4 93 184 215 14]),
     fe_get = (\<lambda>u c. Answer 302 (Some ''localhost'') None []),
     fe_document = (\<lambda>b c u. Some b)\<rparr>"


text \<open>The ids of an open call resolve only to what earlier results published. Every target that is added is the
URL looked up for one of the ids, and a normalised http or https URL; the targets that were given stay; and
the ids reported as unresolved are exactly those without an entry, in their order.
\<close>

theorem open_ids_resolved:
  assumes "resolve_open_ids ids (lookup_from_messages L U messages) targets = (ts, unresolved)"
  shows "set targets \<subseteq> set ts
       \<and> list_all (\<lambda>url. url \<in> set targets \<or> is_candidate U url
            \<and> list_ex (\<lambda>i. map_of (lookup_from_messages L U messages) (to_ascii_lowercase (trim i)) = Some url) ids) ts
       \<and> unresolved = filter (\<lambda>i. map_of (lookup_from_messages L U messages) (to_ascii_lowercase (trim i)) = None) ids"
  using resolve_loop_spec [OF assms [unfolded resolve_open_ids_def]] lookup_candidates [of L U messages]
  by (fastforce simp: list_all_iff list_ex_iff dest: map_of_SomeD)

definition fetch_demo_lib :: ext_lib where
  "fetch_demo_lib = \<lparr>json_to_string = (\<lambda>_. []), json_from_str = (\<lambda>_. None), b64_decode_utf8 = (\<lambda>_. None), sha256 = (\<lambda>s. s)\<rparr>"

definition demo_result :: json where
  "demo_result = jobj [(''candidates'', JArr [jobj [(''id'', JStr ''cand_01''), (''url'', JStr ''https://a.example/'')]])]"

lemma open_ids_resolved_witness:
  "resolve_open_ids [''cand_01'', ''cand_02''] (lookup_from_messages fetch_demo_lib (fe_urls demo_fetch) [demo_result]) []
     = ([''https://a.example/''], [''cand_02''])
   \<and> is_candidate (fe_urls demo_fetch) ''https://a.example/''"
proof -
  have run: "resolve_open_ids [''cand_01'', ''cand_02''] (lookup_from_messages fetch_demo_lib (fe_urls demo_fetch) [demo_result]) []
     = ([''https://a.example/''], [''cand_02''])" by code_simp
  show ?thesis using open_ids_resolved [OF run] run by simp
qed

end
