(* ===== verification/Native_Payload.thy ===== *)
theory Native_Payload
  imports Native_Relay Tool_Definitions "HOL-Library.Multiset"
begin

text \<open>
  What CodeSeeX sends upstream on the native Responses route, from
  \<^verbatim>\<open>crates/proxy/src/server/native_runtime.rs\<close>: the payload with the local lifecycle fields removed
  (\<^verbatim>\<open>native_payload\<close>), and the replay boundary \<^verbatim>\<open>native_upstream_payload\<close>, which drops the presented
  searches, puts presented reasoning back, groups the tool outputs behind their calls and trims the
  oldest inline images; and the client-facing rewriting of a turn whose hosted calls were executed here
  (\<^verbatim>\<open>present_executed_hosted_calls\<close>).
\<close>

section \<open>The payload\<close>

definition native_payload :: "json \<Rightarrow> string \<Rightarrow> json list \<Rightarrow> string + json" where
  "native_payload input model tools =
     (case as_object input of
        None \<Rightarrow> Inl ''Native Responses requests must be JSON objects.''
      | Some m \<Rightarrow>
          if get_arr input ''input'' = None
          then Inl (''Native Responses requires the authoritative Codex input item array; ''
                    @ ''CodeSeeX did not reconstruct hidden history.'')
          else
            let object = JObj m;
                object = jremove ''id'' object;
                object = jremove ''previous_response_id'' object;
                object = jinsert ''model'' (JStr model) object;
                object = (if tools = [] then jremove ''tool_choice'' (jremove ''tools'' object)
                          else jinsert ''tools'' (JArr tools) object);
                object = (if jget object ''stream'' = None then jinsert ''stream'' (JBool False) object else object)
            in Inr object)"

section \<open>Tool outputs behind their calls\<close>

definition is_native_tool_call_item :: "json \<Rightarrow> bool" where
  "is_native_tool_call_item item =
     (get_str item ''type'' \<in> {Some ''function_call'', Some ''custom_tool_call''})"

definition is_output_item :: "json \<Rightarrow> bool" where
  "is_output_item item =
     (get_str item ''type'' \<in> {Some ''function_call_output'', Some ''custom_tool_call_output''})"

fun position :: "('a \<Rightarrow> bool) \<Rightarrow> 'a list \<Rightarrow> nat option" where
  "position p [] = None"
| "position p (x # xs) = (if p x then Some 0 else map_option Suc (position p xs))"

definition tool_output_slot :: "json \<Rightarrow> string list \<Rightarrow> nat option" where
  "tool_output_slot item call_ids =
     (if \<not> is_output_item item then None
      else case get_str item ''call_id'' of
             None \<Rightarrow> None
           | Some call_id \<Rightarrow> position (\<lambda>i. i = call_id) call_ids)"

text \<open>
  The inner loop: the outputs of the turn by call, the notices between them, and the items from
  \<^verbatim>\<open>end\<close> on, which the window does not reach.
\<close>

fun output_window ::
  "string list \<Rightarrow> json option list \<Rightarrow> json list \<Rightarrow> json list \<Rightarrow> json option list \<times> json list \<times> json list" where
  "output_window call_ids outputs notices [] = (outputs, notices, [])"
| "output_window call_ids outputs notices (item # rest) =
     (if is_native_tool_call_item item then (outputs, notices, item # rest)
      else case tool_output_slot item call_ids of
             Some slot \<Rightarrow> output_window call_ids (outputs[slot := Some item]) notices rest
           | None \<Rightarrow>
               if get_str item ''type'' = Some ''message''
               then output_window call_ids outputs (notices @ [item]) rest
               else (outputs, notices, item # rest))"

lemma output_window_rest:
  "output_window ids os ns items = (os', ns', beyond) \<Longrightarrow> \<exists>win. items = win @ beyond"
proof (induction ids os ns items rule: output_window.induct)
  case (2 ids os ns item rest)
  then show ?case by (fastforce split: if_splits option.splits intro: exI [of _ "item # _"])
qed simp

lemma output_window_shorter:
  assumes "(os', ns', beyond) = output_window ids os ns (dropWhile p items)"
  shows "length beyond < Suc (length items)"
  using output_window_rest [OF assms [symmetric]] length_dropWhile_le [of p items] by auto

text \<open>
  The outer loop. The items before \<^verbatim>\<open>index\<close> are final, so the recursion is on the items from there.
\<close>

function group_tool_outputs_with_their_calls :: "json list \<Rightarrow> json list" where
  "group_tool_outputs_with_their_calls [] = []"
| "group_tool_outputs_with_their_calls (item # rest) =
     (if \<not> is_native_tool_call_item item then item # group_tool_outputs_with_their_calls rest
      else
        let calls = item # takeWhile is_native_tool_call_item rest;
            after = dropWhile is_native_tool_call_item rest;
            call_ids = List.map_filter (\<lambda>c. get_str c ''call_id'') calls
        in if call_ids = [] then calls @ group_tool_outputs_with_their_calls after
           else case output_window call_ids (replicate (length call_ids) None) [] after of
             (outputs, notices, beyond) \<Rightarrow>
               if notices = [] \<or> None \<in> set outputs
               then calls @ take (length after - length beyond) after @ group_tool_outputs_with_their_calls beyond
               else calls @ List.map_filter (\<lambda>x. x) outputs @ notices @ group_tool_outputs_with_their_calls beyond)"
  by pat_completeness auto
termination
  by (relation "measure length") (auto simp: le_imp_less_Suc length_dropWhile_le dest: output_window_shorter)

declare group_tool_outputs_with_their_calls.simps(2) [simp del]

section \<open>Inline images\<close>

definition MAX_INLINE_MEDIA_CHARS :: nat where "MAX_INLINE_MEDIA_CHARS = 6 * 1024 * 1024"

record inline_media_omission =
  om_images :: nat
  om_chars :: nat

definition no_omission :: inline_media_omission where
  "no_omission = \<lparr>om_images = 0, om_chars = 0\<rparr>"

definition omission_is_empty :: "inline_media_omission \<Rightarrow> bool" where
  "omission_is_empty t = (om_images t = 0)"

text \<open>The inline image that an object holds under a key.\<close>

fun inline_size :: "json \<Rightarrow> nat option" where
  "inline_size (JStr url) = (if starts_with url ''data:image/'' then Some (length url) else None)"
| "inline_size _ = None"

definition inline_data :: "string \<Rightarrow> (string \<times> json) list \<Rightarrow> nat option" where
  "inline_data key m = Option.bind (map_of m key) inline_size"

definition inline_image_chars :: "json \<Rightarrow> nat option" where
  "inline_image_chars value = Option.bind (as_object value) (inline_data ''image_url'')"

definition omitted_image_marker :: "nat \<Rightarrow> string" where
  "omitted_image_marker n =
     ''[inline image omitted by the local proxy: '' @ nat_str n @
     '' characters of base64 image data were removed from this replay to stay within the upstream body limit]''"

fun visit_inline_image_sizes :: "json \<Rightarrow> nat list"
  and visit_items :: "json list \<Rightarrow> nat list"
  and visit_members :: "(string \<times> json) list \<Rightarrow> nat list" where
  "visit_inline_image_sizes (JArr values) = visit_items values"
| "visit_inline_image_sizes (JObj m) =
     (case inline_data ''image_url'' m of None \<Rightarrow> [] | Some n \<Rightarrow> [n])
     @ (case inline_data ''output'' m of None \<Rightarrow> [] | Some n \<Rightarrow> [n])
     @ visit_members m"
| "visit_inline_image_sizes _ = []"
| "visit_items [] = []"
| "visit_items (v # vs) = visit_inline_image_sizes v @ visit_items vs"
| "visit_members [] = []"
| "visit_members (e # es) = visit_inline_image_sizes (snd e) @ visit_members es"

text \<open>\<^verbatim>\<open>collect_inline_image_sizes\<close> visits every item.\<close>

definition collect_inline_image_sizes :: "json list \<Rightarrow> nat list" where
  "collect_inline_image_sizes items = visit_items items"

type_synonym omission_state = "nat \<times> inline_media_omission"

definition spend :: "nat \<Rightarrow> omission_state \<Rightarrow> omission_state" where
  "spend n st =
     (fst st - 1, (snd st)\<lparr>om_images := om_images (snd st) + 1, om_chars := om_chars (snd st) + n\<rparr>)"

definition omitted_image_item :: "nat \<Rightarrow> json" where
  "omitted_image_item n =
     jobj [(''type'', JStr ''input_text''), (''text'', JStr (omitted_image_marker n))]"

fun omit_inline_images :: "json \<Rightarrow> omission_state \<Rightarrow> json \<times> omission_state"
  and omit_values :: "json list \<Rightarrow> omission_state \<Rightarrow> json list \<times> omission_state"
  and omit_members :: "(string \<times> json) list \<Rightarrow> omission_state \<Rightarrow> (string \<times> json) list \<times> omission_state" where
  "omit_inline_images (JArr values) st = (let (vs, st) = omit_values values st in (JArr vs, st))"
| "omit_inline_images (JObj m) st =
     (case if fst st > 0 then inline_data ''output'' m else None of
        Some n \<Rightarrow> (JObj (om_insert ''output'' (JStr (omitted_image_marker n)) m), spend n st)
      | None \<Rightarrow> (let (m', st) = omit_members m st in (JObj m', st)))"
| "omit_inline_images v st = (v, st)"
| "omit_values [] st = ([], st)"
| "omit_values (item # items) st =
     (case if fst st > 0 then inline_image_chars item else None of
        Some n \<Rightarrow> (let (items', st) = omit_values items (spend n st) in (omitted_image_item n # items', st))
      | None \<Rightarrow> (let (item', st) = omit_inline_images item st; (items', st) = omit_values items st
                 in (item' # items', st)))"
| "omit_members [] st = ([], st)"
| "omit_members (e # es) st =
     (let (v, st) = omit_inline_images (snd e) st; (es', st) = omit_members es st in ((fst e, v) # es', st))"

text \<open>How many of the oldest images have to go: the loop over \<^verbatim>\<open>kept\<close> and \<^verbatim>\<open>remaining\<close>.\<close>

fun images_to_drop :: "nat \<Rightarrow> nat list \<Rightarrow> nat" where
  "images_to_drop kept [] = 0"
| "images_to_drop kept (n # sizes) =
     (if kept \<le> MAX_INLINE_MEDIA_CHARS then 0 else Suc (images_to_drop (kept - n) sizes))"

fun omit_each :: "json list \<Rightarrow> omission_state \<Rightarrow> json list \<times> omission_state" where
  "omit_each [] st = ([], st)"
| "omit_each (item # items) st =
     (let (item', st) = omit_inline_images item st; (items', st) = omit_each items st in (item' # items', st))"

definition bound_inline_media :: "json list \<Rightarrow> json list \<times> inline_media_omission" where
  "bound_inline_media items =
     (let sizes = collect_inline_image_sizes items; tot = sum_list sizes
      in if tot \<le> MAX_INLINE_MEDIA_CHARS then (items, no_omission)
         else let (items', budget, tally) = omit_each items (images_to_drop tot sizes, no_omission)
              in (items', tally))"

section \<open>Reasoning text\<close>

definition summary_part_text :: "json \<Rightarrow> string" where
  "summary_part_text part = unwrap_or [] (get_str part ''text'')"

definition summary_is_mirrored :: "string \<Rightarrow> string \<Rightarrow> bool" where
  "summary_is_mirrored content summary = (summary \<noteq> [] \<and> starts_with content summary)"

definition restore_reasoning_text_field :: "json \<Rightarrow> json" where
  "restore_reasoning_text_field item =
     (if as_object item = None \<or> get_str item ''type'' \<noteq> Some ''reasoning'' then item
      else
        let summary_text = concat (map summary_part_text (unwrap_or [] (get_arr item ''summary'')));
            content_text = concat (map summary_part_text
              (filter (\<lambda>part. get_str part ''type'' = Some ''reasoning_text'') (unwrap_or [] (get_arr item ''content''))))
        in if content_text = [] then
             if summary_text = [] then item
             else jinsert ''summary'' (JArr [])
                    (jinsert ''content''
                       (JArr [jobj [(''type'', JStr ''reasoning_text''), (''text'', JStr summary_text)]]) item)
           else if summary_is_mirrored content_text summary_text then jinsert ''summary'' (JArr []) item
           else item)"

section \<open>The upstream boundary\<close>

definition is_codeseex_presented_web_search_item :: "json \<Rightarrow> bool" where
  "is_codeseex_presented_web_search_item item =
     (get_str item ''type'' \<in> {Some ''web_search_call'', Some ''web_search_call_output''})"

definition upstream_items :: "json list \<Rightarrow> json list \<times> inline_media_omission" where
  "upstream_items items =
     bound_inline_media (group_tool_outputs_with_their_calls
       (map restore_reasoning_text_field (filter (\<lambda>i. \<not> is_codeseex_presented_web_search_item i) items)))"

definition native_upstream_payload :: "json \<Rightarrow> json \<times> inline_media_omission" where
  "native_upstream_payload payload =
     (case get_arr payload ''input'' of
        None \<Rightarrow> (payload, no_omission)
      | Some items \<Rightarrow> (let (items', omitted) = upstream_items items in (jmodify ''input'' (\<lambda>_. JArr items') payload, omitted)))"

section \<open>Presenting executed hosted calls\<close>

definition sse_data_line :: "string \<Rightarrow> string option" where
  "sse_data_line frame =
     find_map (\<lambda>line. opt_filter (\<lambda>v. v \<noteq> []) (map_option trim (strip_prefix ''data:'' line))) (str_lines frame)"

text \<open>A replacement of \<open>None\<close> withholds the call from the client.\<close>

type_synonym replacements = "(string \<times> json option) list"

fun rewrite_hosted_items :: "json list \<Rightarrow> replacements \<Rightarrow> json list \<times> bool" where
  "rewrite_hosted_items [] replacements = ([], False)"
| "rewrite_hosted_items (item # items) replacements =
     (let (rewritten, changed) = rewrite_hosted_items items replacements
      in case Option.bind (get_str item ''call_id'') (map_of replacements) of
           None \<Rightarrow> (item # rewritten, changed)
         | Some (Some replacement) \<Rightarrow> (replacement # rewritten, True)
         | Some None \<Rightarrow> (rewritten, True))"

definition rewrite_hosted_frame :: "ext_lib \<Rightarrow> string \<Rightarrow> string set \<Rightarrow> replacements \<Rightarrow> string option" where
  "rewrite_hosted_frame L frame hosted_item_ids replacements =
     (if \<not> valid_utf8 frame then Some frame
      else case Option.bind (sse_data_line frame) (json_from_str L) of
        None \<Rightarrow> Some frame
      | Some payload \<Rightarrow>
          let event_type = unwrap_or [] (get_str payload ''type'')
          in if event_type \<in> {''response.output_item.added'', ''response.output_item.done''} then
               (case Option.bind (jget payload ''item'') (\<lambda>item. get_str item ''call_id'') of
                  None \<Rightarrow> Some frame
                | Some call_id \<Rightarrow>
                    (case map_of replacements call_id of
                       Some (Some replacement) \<Rightarrow>
                         Some (rewrite_sse_data_lines frame (json_to_string L (jinsert ''item'' replacement payload)))
                     | Some None \<Rightarrow> None
                     | None \<Rightarrow> Some frame))
             else if event_type \<in> {''response.function_call_arguments.delta'', ''response.function_call_arguments.done''} then
               (if is_some_and (\<lambda>item_id. item_id \<in> hosted_item_ids) (get_str payload ''item_id'')
                then None else Some frame)
             else if event_type = ''response.completed'' then
               (case Option.bind (jget payload ''response'') (\<lambda>r. get_arr r ''output'') of
                  None \<Rightarrow> Some frame
                | Some items \<Rightarrow>
                    let (items', changed) = rewrite_hosted_items items replacements
                    in if \<not> changed then Some frame
                       else Some (rewrite_sse_data_lines frame (json_to_string L
                              (jmodify ''response'' (jmodify ''output'' (\<lambda>_. JArr items')) payload))))
             else Some frame)"

definition hosted_item_ids :: "json list \<Rightarrow> replacements \<Rightarrow> string set" where
  "hosted_item_ids provider_output replacements =
     set (List.map_filter
       (\<lambda>item. if is_some_and (\<lambda>call_id. call_id \<in> fst ` set replacements) (get_str item ''call_id'')
               then get_str item ''id'' else None) provider_output)"

definition present_executed_hosted_calls ::
  "ext_lib \<Rightarrow> bool \<Rightarrow> string list \<Rightarrow> json list \<Rightarrow> replacements \<Rightarrow> string" where
  "present_executed_hosted_calls L is_sse frames provider_output replacements =
     (if replacements = [] then concat frames
      else if \<not> is_sse then
        (case frames of
           [] \<Rightarrow> []
         | frame # _ \<Rightarrow>
             (case json_from_str L frame of
                None \<Rightarrow> concat frames
              | Some payload \<Rightarrow>
                  json_to_string L (jmodify ''output'' (arr_modify (\<lambda>items. fst (rewrite_hosted_items items replacements))) payload)))
      else concat (List.map_filter
             (\<lambda>frame. rewrite_hosted_frame L frame (hosted_item_ids provider_output replacements) replacements) frames))"

section \<open>Labels\<close>

definition native_hosted_call_is_local :: "string \<Rightarrow> string list \<Rightarrow> bool" where
  "native_hosted_call_is_local name enabled_tools =
     (is_web_search_tool name \<or> (is_native_hostable_hosted_tool name \<and> is_executable_tool_enabled name enabled_tools))"

definition native_stream_status :: "native_stream_finalization \<Rightarrow> string" where
  "native_stream_status finalization =
     (case finalization of FCompleted \<Rightarrow> ''completed'' | FFailed \<Rightarrow> ''failed'' | FInterrupted \<Rightarrow> ''cancelled'')"

definition native_terminal_label :: "native_stream_finalization \<Rightarrow> string" where
  "native_terminal_label finalization =
     (case finalization of FCompleted \<Rightarrow> ''completed'' | FFailed \<Rightarrow> ''failed_or_incomplete'' | FInterrupted \<Rightarrow> ''interrupted'')"

section \<open>Grouping keeps the conversation\<close>

definition is_message_item :: "json \<Rightarrow> bool" where
  "is_message_item item = (get_str item ''type'' = Some ''message'')"

definition output_call_id :: "json \<Rightarrow> string option" where
  "output_call_id item = (if is_output_item item then get_str item ''call_id'' else None)"

abbreviation output_ids :: "json list \<Rightarrow> string list" where
  "output_ids items \<equiv> List.map_filter output_call_id items"

text \<open>The last output of a call among some items.\<close>

definition answer :: "json list \<Rightarrow> string \<Rightarrow> json option" where
  "answer items call_id = find (\<lambda>i. output_call_id i = Some call_id) (rev items)"

definition in_window :: "string list \<Rightarrow> json \<Rightarrow> bool" where
  "in_window call_ids item = (is_message_item item \<or> (\<exists>c \<in> set call_ids. output_call_id item = Some c))"

lemma item_kinds:
  "is_native_tool_call_item i \<Longrightarrow> \<not> is_output_item i" "is_message_item i \<Longrightarrow> \<not> is_output_item i"
  "is_message_item i \<Longrightarrow> \<not> is_native_tool_call_item i" "is_output_item i \<Longrightarrow> \<not> is_native_tool_call_item i"
  by (auto simp: is_native_tool_call_item_def is_output_item_def is_message_item_def)

lemma output_call_id_output: "output_call_id i = Some c \<Longrightarrow> is_output_item i"
  by (auto simp: output_call_id_def split: if_splits)

lemma position_Some: "position p xs = Some n \<Longrightarrow> n < length xs \<and> p (xs ! n)"
  by (induction xs arbitrary: n) (auto split: if_splits simp: less_Suc_eq_0_disj)

lemma position_None: "position p xs = None \<longleftrightarrow> (\<forall>x \<in> set xs. \<not> p x)"
  by (induction xs) auto

lemma slot_Some:
  assumes "tool_output_slot i ids = Some k"
  shows "k < length ids" "output_call_id i = Some (ids ! k)" "is_output_item i"
  using assms by (auto simp: tool_output_slot_def output_call_id_def split: if_splits option.splits dest: position_Some)

lemma slot_None: "tool_output_slot i ids = None \<longleftrightarrow> (\<forall>c \<in> set ids. output_call_id i \<noteq> Some c)"
  by (auto simp: tool_output_slot_def output_call_id_def position_None split: option.splits)

lemma window_step:
  "output_window ids os ns (item # rest) =
     (if \<not> in_window ids item then (os, ns, item # rest)
      else if is_message_item item then output_window ids os (ns @ [item]) rest
      else output_window ids (os[the (tool_output_slot item ids) := Some item]) ns rest)"
proof (cases "tool_output_slot item ids")
  case None
  then have "in_window ids item \<longleftrightarrow> is_message_item item" by (auto simp: in_window_def slot_None)
  with None show ?thesis by (auto simp: is_message_item_def is_native_tool_call_item_def)
next
  case (Some k)
  from slot_Some [OF Some] have "in_window ids item" "\<not> is_message_item item" "\<not> is_native_tool_call_item item"
    using item_kinds by (auto simp: in_window_def)
  with Some show ?thesis by simp
qed

declare output_window.simps(2) [simp del]

lemma find_append: "find p (xs @ ys) = or_else (find p xs) (find p ys)"
  by (induction xs) auto

lemma answer_Cons: "answer (x # xs) c = (case answer xs c of Some y \<Rightarrow> Some y | None \<Rightarrow> if output_call_id x = Some c then Some x else None)"
  by (auto simp: answer_def find_append split: option.splits)

lemma answer_Nil [simp]: "answer [] c = None"
  by (simp add: answer_def)

text \<open>The inner loop collects, for every call, the last output among the items of the window.\<close>

lemma output_window_spec:
  assumes "distinct ids" "length os = length ids"
  shows "output_window ids os ns items =
     (map2 (\<lambda>c d. or_else (answer (takeWhile (in_window ids) items) c) d) ids os,
      ns @ filter is_message_item (takeWhile (in_window ids) items), dropWhile (in_window ids) items)"
  using assms(2)
proof (induction items arbitrary: os ns)
  case Nil
  then show ?case by (auto simp: map2_map_map [symmetric] intro: nth_equalityI)
next
  case (Cons x xs)
  show ?case
  proof (cases "in_window ids x \<and> \<not> is_message_item x")
    case True
    then obtain k where k: "tool_output_slot x ids = Some k" using slot_None [of x ids] by (cases "tool_output_slot x ids") (auto simp: in_window_def)
    have "(case answer w (ids ! j) of None \<Rightarrow> os[k := Some x] ! j | Some y \<Rightarrow> Some y) = or_else (answer (x # w) (ids ! j)) (os ! j)"
      if "j < length ids" for j w
      using that slot_Some [OF k] assms(1) Cons.prems
      by (auto simp: answer_Cons nth_eq_iff_index_eq split: option.splits)
    then show ?thesis
      using True k Cons by (auto simp: window_step or_else_def intro!: nth_equalityI)
  next
    case False
    then have "answer (x # w) c = answer w c" if "in_window ids x" for w c
      using that item_kinds(2) [of x] output_call_id_output [of x] by (auto simp: answer_Cons split: option.splits)
    with False show ?thesis using Cons by (auto simp: window_step intro!: nth_equalityI)
  qed
qed

text \<open>A call id that is declared twice keeps the turn as it is: its second slot stays empty.\<close>

lemma position_first: "k < length xs \<Longrightarrow> j < k \<Longrightarrow> p (xs ! j) \<Longrightarrow> position p xs \<noteq> Some k"
proof (induction xs arbitrary: j k)
  case (Cons x xs)
  then show ?case by (cases j; cases k) (auto split: if_splits)
qed simp

lemma output_window_duplicate:
  assumes "j < k" "k < length ids" "ids ! j = ids ! k" "os ! k = None" "length os = length ids"
  shows "fst (output_window ids os ns items) ! k = None \<and> length (fst (output_window ids os ns items)) = length ids"
  using assms(4,5)
proof (induction items arbitrary: os ns)
  case (Cons x xs)
  have "tool_output_slot x ids \<noteq> Some k"
    using position_first [OF assms(2,1), of "\<lambda>i. i = ids ! k"] assms(3)
    by (auto simp: tool_output_slot_def split: option.splits dest: position_Some)
  then have "the (tool_output_slot x ids) \<noteq> k" if "in_window ids x" "\<not> is_message_item x"
    using that slot_None [of x ids] by (auto simp: in_window_def)
  with Cons show ?case by (auto simp: window_step)
qed simp

lemma window_none_if_duplicate:
  assumes "\<not> distinct ids" "output_window ids (replicate (length ids) None) [] items = (os, ns, beyond)"
  shows "None \<in> set os"
proof -
  from assms(1) obtain j k where "j < k" "k < length ids" "ids ! j = ids ! k"
    by (auto simp: distinct_conv_nth) (metis nat_neq_iff)
  from output_window_duplicate [OF this, of "replicate (length ids) None" "[]" items] this assms(2)
  show ?thesis by (auto simp: in_set_conv_nth)
qed

lemma output_window_ends:
  "snd (output_window ids os ns items) =
     (ns @ filter is_message_item (takeWhile (in_window ids) items), dropWhile (in_window ids) items)"
  by (induction items arbitrary: os ns) (auto simp: window_step)

lemma answer_None: "answer items c = None \<longleftrightarrow> c \<notin> set (output_ids items)"
  by (auto simp: answer_def find_None_iff in_map_filter)

text \<open>One step of the outer loop, in terms of the window.\<close>

abbreviation call_ids_of :: "json list \<Rightarrow> string list" where
  "call_ids_of calls \<equiv> List.map_filter (\<lambda>c. get_str c ''call_id'') calls"

lemma group_step:
  fixes item rest
  defines "calls \<equiv> item # takeWhile is_native_tool_call_item rest"
    and "after \<equiv> dropWhile is_native_tool_call_item rest"
  defines "ids \<equiv> call_ids_of calls"
  defines "win \<equiv> takeWhile (in_window ids) after"
    and "beyond \<equiv> dropWhile (in_window ids) after"
  assumes "is_native_tool_call_item item"
  shows "group_tool_outputs_with_their_calls (item # rest) =
     (if ids = [] then calls @ group_tool_outputs_with_their_calls after
      else if distinct ids \<and> list_ex is_message_item win \<and> set ids \<subseteq> set (output_ids win)
      then calls @ map (\<lambda>c. the (answer win c)) ids @ filter is_message_item win
             @ group_tool_outputs_with_their_calls beyond
      else calls @ win @ group_tool_outputs_with_their_calls beyond)"
proof (cases "ids = []")
  case True
  with assms show ?thesis by (simp add: group_tool_outputs_with_their_calls.simps(2) Let_def)
next
  case False
  let ?w = "output_window ids (replicate (length ids) None) [] after"
  obtain os ns b where w: "?w = (os, ns, b)" by (cases ?w)
  with output_window_ends [of ids "replicate (length ids) None" "[]" after]
  have b: "ns = filter is_message_item win" "b = beyond" by (simp_all add: win_def beyond_def)
  have step: "group_tool_outputs_with_their_calls (item # rest) =
      (if ns = [] \<or> None \<in> set os
       then calls @ take (length after - length b) after @ group_tool_outputs_with_their_calls b
       else calls @ List.map_filter (\<lambda>x. x) os @ ns @ group_tool_outputs_with_their_calls b)"
    using False assms(6) w
    by (simp add: group_tool_outputs_with_their_calls.simps(2) calls_def [symmetric] after_def [symmetric] ids_def [symmetric] Let_def)
  have after: "after = win @ beyond" by (simp add: win_def beyond_def)
  have os: "os = map (answer win) ids" if "distinct ids"
    using output_window_spec [OF that, of "replicate (length ids) None" "[]" after] w
    by (auto simp: win_def [symmetric] or_else_def intro!: nth_equalityI split: option.splits)
  have none: "None \<in> set os \<longleftrightarrow> \<not> (distinct ids \<and> set ids \<subseteq> set (output_ids win))"
  proof (cases "distinct ids")
    case True
    then show ?thesis using answer_None [of win] by (force simp: os)
  qed (use window_none_if_duplicate [OF _ w] in auto)
  have filtered: "List.map_filter (\<lambda>x. x) os = map (\<lambda>c. the (answer win c)) ids" if "None \<notin> set os"
  proof -
    have "List.map_filter (\<lambda>x. x) os = map the os"
      using that
    proof (induction os)
      case (Cons a os)
      then show ?case by (cases a) (auto simp: map_filter_simps)
    qed (simp add: map_filter_simps)
    then show ?thesis using that none by (simp add: os)
  qed
  have "filter is_message_item win = [] \<longleftrightarrow> \<not> list_ex is_message_item win"
    by (induction win) auto
  with step False none show ?thesis
    by (auto simp: b after filtered)
qed

text \<open>Nothing but an output ever moves, and no item is lost when every call is answered once.\<close>

lemma answer_is_output: "answer items c = Some i \<Longrightarrow> i \<in> set items \<and> output_call_id i = Some c"
  by (auto simp: answer_def find_Some_iff) (metis length_rev nth_mem set_rev)

lemma output_ids_append [simp]: "output_ids (xs @ ys) = output_ids xs @ output_ids ys"
  by (simp add: map_filter_def)

lemma window_items: "in_window ids i \<Longrightarrow> \<not> is_message_item i \<Longrightarrow> is_output_item i"
  by (auto simp: in_window_def output_call_id_output)

lemma filter_message_window:
  "list_all (in_window ids) win \<Longrightarrow> filter is_message_item win = filter (\<lambda>i. \<not> is_output_item i) win"
  by (induction win) (auto simp: window_items item_kinds)

lemma answers_perm:
  assumes "distinct ids" "distinct (output_ids win)" "set ids \<subseteq> set (output_ids win)" "list_all (in_window ids) win"
  shows "mset (map (\<lambda>c. the (answer win c)) ids) = mset (filter is_output_item win)"
proof -
  have outs: "\<exists>c \<in> set ids. output_call_id i = Some c" if "i \<in> set win" "is_output_item i" for i
    using assms(4) that item_kinds(2) by (auto simp: list_all_iff in_window_def)
  have ans: "\<exists>i \<in> set win. answer win c = Some i \<and> output_call_id i = Some c" if "c \<in> set ids" for c
    using that assms(3) answer_None [of win c] answer_is_output [of win c] by (cases "answer win c") auto
  have unique: "i = j" if "i \<in> set win" "j \<in> set win" "output_call_id i = Some c" "output_call_id j = Some c" for i j c
    using assms(2) that by (induction win) (auto simp: map_filter_simps in_map_filter split: option.splits)
  have "distinct (map output_call_id (filter is_output_item win))"
    using assms(2,4) by (induction win) (auto simp: map_filter_simps in_map_filter in_window_def output_call_id_output
        dest: item_kinds(2) split: option.splits)
  then have "distinct (filter is_output_item win)" by (simp add: distinct_map)
  moreover have "distinct (map (\<lambda>c. the (answer win c)) ids)"
    using assms(1) ans by (auto simp: distinct_map inj_on_def) (metis option.inject option.sel)
  moreover have "set (map (\<lambda>c. the (answer win c)) ids) = set (filter is_output_item win)"
  proof (intro set_eqI iffI)
    fix i assume "i \<in> set (filter is_output_item win)"
    with outs obtain c where "i \<in> set win" "c \<in> set ids" "output_call_id i = Some c" by auto
    with ans [of c] unique show "i \<in> set (map (\<lambda>c. the (answer win c)) ids)" by force
  qed (use ans output_call_id_output in force)
  ultimately show ?thesis using set_eq_iff_mset_eq_distinct by metis
qed

text \<open>The shape of a step: the turn stays as it is, or its outputs move in front of its notices.\<close>

definition regrouped :: "json list \<Rightarrow> json list \<Rightarrow> json list" where
  "regrouped calls win = map (\<lambda>c. the (answer win c)) (call_ids_of calls) @ filter is_message_item win"

definition complete_turn :: "json list \<Rightarrow> json list \<Rightarrow> bool" where
  "complete_turn calls win = (list_all is_native_tool_call_item calls \<and> list_all (in_window (call_ids_of calls)) win
     \<and> distinct (call_ids_of calls) \<and> set (call_ids_of calls) \<subseteq> set (output_ids win))"

lemma group_turn:
  assumes "is_native_tool_call_item item"
  obtains calls win beyond where "item # rest = calls @ win @ beyond" "length beyond < length (item # rest)"
    "group_tool_outputs_with_their_calls (item # rest) = calls @ win @ group_tool_outputs_with_their_calls beyond
     \<or> complete_turn calls win \<and>
       group_tool_outputs_with_their_calls (item # rest) = calls @ regrouped calls win @ group_tool_outputs_with_their_calls beyond"
proof -
  let ?calls = "item # takeWhile is_native_tool_call_item rest"
  let ?after = "dropWhile is_native_tool_call_item rest"
  let ?in = "in_window (call_ids_of ?calls)"
  have calls: "list_all is_native_tool_call_item ?calls" using assms by (auto simp: list_all_iff dest: set_takeWhileD)
  have win: "list_all ?in (takeWhile ?in ?after)" by (auto simp: list_all_iff dest: set_takeWhileD)
  have len: "length (dropWhile ?in ?after) < length (item # rest)" "length ?after < length (item # rest)"
    using length_dropWhile_le [of is_native_tool_call_item rest] length_dropWhile_le [of ?in ?after] by simp_all
  show thesis
  proof (cases "call_ids_of ?calls = []")
    case True
    then show thesis using len group_step [OF assms, of rest] by (intro that [of ?calls "[]" ?after]) simp_all
  next
    case False
    then show thesis
      using len group_step [OF assms, of rest] calls win
      by (intro that [of ?calls "takeWhile ?in ?after" "dropWhile ?in ?after"])
        (simp_all only: complete_turn_def regrouped_def append_Cons append_assoc takeWhile_dropWhile_id split: if_split, simp_all)
  qed
qed

lemma regrouped_others:
  assumes "complete_turn calls win"
  shows "filter (\<lambda>i. \<not> is_output_item i) (regrouped calls win) = filter (\<lambda>i. \<not> is_output_item i) win"
proof -
  have "is_output_item (the (answer win c))" if "c \<in> set (output_ids win)" for c
    using that answer_None [of win c] answer_is_output [of win c] output_call_id_output by fastforce
  with assms have "filter (\<lambda>i. \<not> is_output_item i) (map (\<lambda>c. the (answer win c)) (call_ids_of calls)) = []"
    by (auto simp: complete_turn_def filter_empty_conv subset_eq)
  moreover have "filter is_message_item win = filter (\<lambda>i. \<not> is_output_item i) win"
    using assms by (auto intro: filter_message_window simp: complete_turn_def)
  ultimately show ?thesis by (simp add: regrouped_def)
qed

lemma regrouped_perm:
  assumes "complete_turn calls win" "distinct (output_ids win)"
  shows "mset (regrouped calls win) = mset win"
proof -
  have "filter is_message_item win = filter (\<lambda>i. \<not> is_output_item i) win"
    using assms(1) by (auto intro: filter_message_window simp: complete_turn_def)
  moreover have "mset (map (\<lambda>c. the (answer win c)) (call_ids_of calls)) = mset (filter is_output_item win)"
    using assms by (intro answers_perm) (simp_all add: complete_turn_def)
  ultimately show ?thesis unfolding regrouped_def by (simp flip: multiset_partition)
qed

lemma group_keeps_others:
  "filter (\<lambda>i. \<not> is_output_item i) (group_tool_outputs_with_their_calls items) = filter (\<lambda>i. \<not> is_output_item i) items"
proof (induction "length items" arbitrary: items rule: less_induct)
  case less
  show ?case
  proof (cases items)
    case (Cons item rest)
    show ?thesis
    proof (cases "is_native_tool_call_item item")
      case True
      obtain calls win beyond where "items = calls @ win @ beyond" "length beyond < length items"
        "group_tool_outputs_with_their_calls items = calls @ win @ group_tool_outputs_with_their_calls beyond
         \<or> complete_turn calls win \<and> group_tool_outputs_with_their_calls items
             = calls @ regrouped calls win @ group_tool_outputs_with_their_calls beyond"
        using group_turn [OF True] Cons by metis
      then show ?thesis using less regrouped_others by auto
    qed (use less Cons in \<open>simp add: group_tool_outputs_with_their_calls.simps(2)\<close>)
  qed simp
qed

lemma group_perm:
  "distinct (output_ids items) \<Longrightarrow> mset (group_tool_outputs_with_their_calls items) = mset items"
proof (induction "length items" arbitrary: items rule: less_induct)
  case less
  show ?case
  proof (cases items)
    case (Cons item rest)
    show ?thesis
    proof (cases "is_native_tool_call_item item")
      case True
      obtain calls win beyond where "items = calls @ win @ beyond" "length beyond < length items"
        "group_tool_outputs_with_their_calls items = calls @ win @ group_tool_outputs_with_their_calls beyond
         \<or> complete_turn calls win \<and> group_tool_outputs_with_their_calls items
             = calls @ regrouped calls win @ group_tool_outputs_with_their_calls beyond"
        using group_turn [OF True] Cons by metis
      then show ?thesis using less regrouped_perm by auto
    next
      case False
      then have "distinct (output_ids rest)" using less.prems Cons by (auto simp: map_filter_simps split: option.splits)
      with less.hyps [of rest] Cons False show ?thesis by (simp add: group_tool_outputs_with_their_calls.simps(2))
    qed
  qed simp
qed

lemma group_before_turn:
  "list_all (\<lambda>i. \<not> is_native_tool_call_item i) pre \<Longrightarrow>
   group_tool_outputs_with_their_calls (pre @ items) = pre @ group_tool_outputs_with_their_calls items"
  by (induction pre) (simp_all add: group_tool_outputs_with_their_calls.simps(2))

definition window_ends :: "string list \<Rightarrow> json list \<Rightarrow> bool" where
  "window_ends call_ids post = (case post of [] \<Rightarrow> True | item # _ \<Rightarrow> \<not> in_window call_ids item)"

lemma group_complete_turn:
  assumes turn: "complete_turn calls win" "call_ids_of calls \<noteq> []" "list_ex is_message_item win"
    and post: "window_ends (call_ids_of calls) post"
  shows "group_tool_outputs_with_their_calls (calls @ win @ post)
     = calls @ regrouped calls win @ group_tool_outputs_with_their_calls post"
proof -
  obtain item cs where calls: "calls = item # cs" using turn(2) by (cases calls) (auto simp: map_filter_simps)
  obtain w ws where win: "win = w # ws" using turn(3) by (cases win) auto
  have "\<not> is_native_tool_call_item w"
    using turn(1) win item_kinds(3) [of w] item_kinds(4) [of w] window_items [of "call_ids_of calls" w] by (auto simp: complete_turn_def)
  then have split: "takeWhile is_native_tool_call_item (cs @ win @ post) = cs"
    "dropWhile is_native_tool_call_item (cs @ win @ post) = win @ post"
    using turn(1) win by (simp_all add: calls complete_turn_def list_all_iff takeWhile_append dropWhile_append)
  have w: "takeWhile (in_window (call_ids_of calls)) (win @ post) = win" "dropWhile (in_window (call_ids_of calls)) (win @ post) = post"
    using turn(1) post by (cases post; simp add: complete_turn_def list_all_iff window_ends_def takeWhile_append dropWhile_append)+
  have "is_native_tool_call_item item" using turn(1) by (simp add: calls complete_turn_def)
  from group_step [OF this, of "cs @ win @ post", unfolded split, folded calls, unfolded w] turn
  show ?thesis by (simp add: calls [symmetric] complete_turn_def regrouped_def) (simp add: calls)
qed

section \<open>Trimming inline images\<close>

text \<open>
  The images of a value can be trimmed one by one when each is an element of an array, or the
  \<^verbatim>\<open>output\<close> of an object, and holds no further image.
\<close>

fun trimmable :: "json \<Rightarrow> bool"
  and trimmable_items :: "json list \<Rightarrow> bool"
  and trimmable_members :: "(string \<times> json) list \<Rightarrow> bool" where
  "trimmable (JArr vs) = trimmable_items vs"
| "trimmable (JObj m) =
     (inline_data ''image_url'' m = None
      \<and> (if inline_data ''output'' m = None then trimmable_members m else visit_members m = []))"
| "trimmable _ = True"
| "trimmable_items [] = True"
| "trimmable_items (v # vs) =
     ((case inline_image_chars v of None \<Rightarrow> trimmable v | Some n \<Rightarrow> visit_inline_image_sizes v = [n])
      \<and> trimmable_items vs)"
| "trimmable_members [] = True"
| "trimmable_members (e # es) = (trimmable (snd e) \<and> trimmable_members es)"

definition omission_done :: "nat list \<Rightarrow> omission_state \<Rightarrow> nat list \<Rightarrow> omission_state \<Rightarrow> bool" where
  "omission_done sizes st sizes' st' =
     (sizes' = drop (fst st) sizes \<and> fst st' = fst st - length sizes
      \<and> om_images (snd st') = om_images (snd st) + min (fst st) (length sizes)
      \<and> om_chars (snd st') = om_chars (snd st) + sum_list (take (fst st) sizes))"

lemma omission_done_refl: "fst st = 0 \<or> sizes = [] \<Longrightarrow> omission_done sizes st sizes st"
  by (auto simp: omission_done_def)

lemma omission_done_append:
  assumes "omission_done xs st xs' st1" "omission_done ys st1 ys' st2"
  shows "omission_done (xs @ ys) st (xs' @ ys') st2"
  using assms by (auto simp: omission_done_def min_def)

lemma omission_done_spend: "0 < fst st \<Longrightarrow> omission_done [n] st [] (spend n st)"
  by (cases "fst st") (auto simp: omission_done_def spend_def)

lemma marker_not_inline: "\<not> starts_with (omitted_image_marker n) ''data:image/''"
  by (simp add: omitted_image_marker_def starts_with_def)

lemma omitted_item_no_image [simp]: "visit_inline_image_sizes (omitted_image_item n) = []"
  by (simp add: omitted_image_item_def jobj_def inline_data_def)

lemma visit_members_insert: "visit_members m = [] \<Longrightarrow> visit_members (om_insert k (JStr s) m) = []"
  by (induction m) auto

lemma omit_nothing:
  "fst st = 0 \<Longrightarrow> omit_inline_images v st = (v, st)"
  "fst st = 0 \<Longrightarrow> omit_values vs st = (vs, st)"
  "fst st = 0 \<Longrightarrow> omit_members m st = (m, st)"
  by (induction v st and vs st and m st rule: omit_inline_images_omit_values_omit_members.induct) auto

lemma inline_size_omit [simp]: "inline_size (fst (omit_inline_images v st)) = inline_size v"
  by (cases v) (auto split: option.splits prod.splits)

lemma omit_members_inline: "inline_data k (fst (omit_members m st)) = inline_data k m"
proof (induction m arbitrary: st)
  case (Cons e m)
  then show ?case
    by (cases e) (simp add: inline_data_def case_prod_unfold Let_def)
qed simp

lemma inline_data_marker:
  "inline_data k (om_insert k' (JStr (omitted_image_marker n)) m) = (if k = k' then None else inline_data k m)"
  by (simp add: inline_data_def map_simps marker_not_inline)

lemma inline_image_visited: "inline_image_chars v = Some n \<Longrightarrow> n \<in> set (visit_inline_image_sizes v)"
  by (cases v) (auto simp: inline_image_chars_def)

lemma omit_done:
  "trimmable v \<Longrightarrow> omission_done (visit_inline_image_sizes v) st
     (visit_inline_image_sizes (fst (omit_inline_images v st))) (snd (omit_inline_images v st))"
  "trimmable_items vs \<Longrightarrow> omission_done (visit_items vs) st
     (visit_items (fst (omit_values vs st))) (snd (omit_values vs st))"
  "trimmable_members m \<Longrightarrow> omission_done (visit_members m) st
     (visit_members (fst (omit_members m st))) (snd (omit_members m st))"
proof (induction v st and vs st and m st rule: omit_inline_images_omit_values_omit_members.induct)
  case (2 m st)
  show ?case
  proof (cases "fst st = 0")
    case True
    then show ?thesis by (simp add: omit_nothing omission_done_refl del: omit_inline_images.simps)
  next
    case False
    then show ?thesis
    proof (cases "inline_data ''output'' m")
      case None
      with 2 have "omission_done (visit_members m) st (visit_members (fst (omit_members m st))) (snd (omit_members m st))"
        by auto
      with 2 None show ?thesis using omit_members_inline [of _ m st] by (auto split: prod.splits)
    next
      case (Some n)
      with 2 False show ?thesis
        using omission_done_spend [of st n] by (simp add: inline_data_marker visit_members_insert)
    qed
  qed
next
  case (5 item items st)
  show ?case
  proof (cases "fst st = 0")
    case True
    then show ?thesis by (simp add: omit_nothing omission_done_refl del: omit_values.simps)
  next
    case False
    show ?thesis
    proof (cases "inline_image_chars item")
      case None
      with 5 have "omission_done (visit_inline_image_sizes item) st
          (visit_inline_image_sizes (fst (omit_inline_images item st))) (snd (omit_inline_images item st))" by auto
      moreover have "omission_done (visit_items items) (snd (omit_inline_images item st))
          (visit_items (fst (omit_values items (snd (omit_inline_images item st)))))
          (snd (omit_values items (snd (omit_inline_images item st))))"
        using 5 None by (cases "omit_inline_images item st") auto
      ultimately show ?thesis using None omission_done_append by (auto simp: case_prod_unfold Let_def)
    next
      case (Some n)
      with 5 False have "omission_done (visit_items items) (spend n st)
          (visit_items (fst (omit_values items (spend n st)))) (snd (omit_values items (spend n st)))" by auto
      from omission_done_append [OF omission_done_spend this] show ?thesis
        using 5 Some False by (auto split: prod.splits)
    qed
  qed
next
  case (7 e es st)
  have "omission_done (visit_members es) (snd (omit_inline_images (snd e) st))
          (visit_members (fst (omit_members es (snd (omit_inline_images (snd e) st)))))
          (snd (omit_members es (snd (omit_inline_images (snd e) st))))"
    using 7 by (cases "omit_inline_images (snd e) st") auto
  with 7 show ?case using omission_done_append by (auto simp: case_prod_unfold Let_def)
qed (auto simp: omission_done_refl split: prod.splits)

lemma omit_each_done:
  "list_all trimmable items \<Longrightarrow>
   omission_done (visit_items items) st (visit_items (fst (omit_each items st))) (snd (omit_each items st))"
proof (induction items arbitrary: st)
  case (Cons v items)
  then show ?case using omit_done(1) [of v st] omission_done_append by (auto simp: case_prod_unfold Let_def)
qed (simp add: omission_done_refl)

text \<open>The loop drops as few of the oldest images as the budget allows.\<close>

definition fewest_dropped :: "nat list \<Rightarrow> nat \<Rightarrow> bool" where
  "fewest_dropped sizes k = (k \<le> length sizes \<and> sum_list (drop k sizes) \<le> MAX_INLINE_MEDIA_CHARS
     \<and> (k = 0 \<or> MAX_INLINE_MEDIA_CHARS < sum_list (drop (k - 1) sizes)))"

lemma images_to_drop_fewest: "fewest_dropped sizes (images_to_drop (sum_list sizes) sizes)"
proof (induction sizes)
  case (Cons n sizes)
  let ?k = "images_to_drop (sum_list sizes) sizes"
  have "?k = 0 \<or> (\<exists>j. ?k = Suc j)" by (cases ?k) auto
  with Cons show ?case by (auto simp: fewest_dropped_def)
qed (simp add: fewest_dropped_def)

lemma bound_done:
  assumes "list_all trimmable items" "bound_inline_media items = (items', omitted)"
  defines "n \<equiv> images_to_drop (sum_list (collect_inline_image_sizes items)) (collect_inline_image_sizes items)"
  shows "collect_inline_image_sizes items' = drop n (collect_inline_image_sizes items)
     \<and> om_images omitted = n \<and> om_chars omitted = sum_list (take n (collect_inline_image_sizes items))"
proof (cases "sum_list (collect_inline_image_sizes items) \<le> MAX_INLINE_MEDIA_CHARS")
  case True
  then have "n = 0" unfolding n_def by (cases "collect_inline_image_sizes items") auto
  with True assms(2) show ?thesis by (auto simp: bound_inline_media_def no_omission_def)
next
  case False
  have "n \<le> length (collect_inline_image_sizes items)"
    using images_to_drop_fewest [of "collect_inline_image_sizes items"] by (simp add: fewest_dropped_def n_def)
  then show ?thesis
    using omit_each_done [OF assms(1), of "(n, no_omission)"] assms(2) False
    by (simp add: bound_inline_media_def omission_done_def collect_inline_image_sizes_def n_def no_omission_def
        case_prod_unfold Let_def)
qed

section \<open>Putting presented reasoning back\<close>

lemma om_insert_twice: "om_insert k v (om_insert k w m) = om_insert k v m"
  by (induction m) auto

lemma om_insert_same: "om_ok m \<Longrightarrow> map_of m k = Some v \<Longrightarrow> om_insert k v m = m"
  using kv_update_om_insert [of m k v "\<lambda>_. v"] kv_update_id [of m k v "\<lambda>_. v"] by simp

definition summary_is_array :: "json \<Rightarrow> bool" where
  "summary_is_array item = (case item of JObj m \<Rightarrow> om_ok m \<and> get_arr item ''summary'' \<noteq> None | _ \<Rightarrow> True)"

lemma restore_presented:
  assumes "summary_is_array item"
  shows "restore_reasoning_text_field (present_item mode item) = restore_reasoning_text_field item"
proof (cases "as_object item \<noteq> None \<and> get_str item ''type'' = Some ''reasoning'' \<and> get_arr item ''summary'' = Some []
    \<and> project (reasoning_content_text item) mode \<noteq> []")
  case False
  then have "present_item mode item = item" by (auto simp: present_item_def summary_empty_def Let_def split: option.splits)
      (use assms in \<open>auto simp: summary_is_array_def split: json.splits\<close>)
  then show ?thesis by simp
next
  case True
  then obtain m where m: "item = JObj m" by (cases item) auto
  let ?p = "project (reasoning_content_text item) mode"
  have p: "prefix ?p (reasoning_content_text item)" by (rule project_prefix)
  then have c: "reasoning_content_text item \<noteq> []" using True by auto
  have present: "present_item mode item = set_summary ?p item"
    using True by (auto simp: present_item_def summary_empty_def Let_def)
  have content: "concat (map summary_part_text (filter (\<lambda>part. get_str part ''type'' = Some ''reasoning_text'')
      (unwrap_or [] (get_arr i ''content'')))) = reasoning_content_text i" for i
    by (simp add: reasoning_content_text_def summary_part_text_def [abs_def])
  have keep: "get_arr (set_summary t item) ''content'' = get_arr item ''content''"
    "get_str (set_summary t item) ''type'' = get_str item ''type''"
    "reasoning_content_text (set_summary t item) = reasoning_content_text item" for t
    by (simp_all add: set_summary_def get_arr_def get_str_def m reasoning_content_text_def map_simps)
  have "restore_reasoning_text_field (set_summary ?p item) = jinsert ''summary'' (JArr []) (set_summary ?p item)"
  proof -
    have "concat (map summary_part_text (unwrap_or [] (get_arr (set_summary ?p item) ''summary''))) = ?p"
      by (simp add: set_summary_def get_arr_def m reasoning_summary_part_def summary_part_text_def map_simps)
    moreover have "summary_is_mirrored (reasoning_content_text item) ?p"
      using True p by (auto simp: summary_is_mirrored_def starts_with_iff prefix_def)
    moreover have "as_object (set_summary ?p item) \<noteq> None" by (simp add: set_summary_def m)
    ultimately show ?thesis using True c by (auto simp: restore_reasoning_text_field_def content keep Let_def)
  qed
  moreover have "jinsert ''summary'' (JArr []) (set_summary ?p item) = item"
    using True assms by (auto simp: set_summary_def m om_insert_twice om_insert_same summary_is_array_def get_arr_def bind_eq_Some_conv
        as_array_Some)
  moreover have "restore_reasoning_text_field item = item"
    using True c by (auto simp: restore_reasoning_text_field_def content summary_is_mirrored_def Let_def)
  ultimately show ?thesis using present by simp
qed

lemma present_item_type [simp]: "get_str (present_item mode item) ''type'' = get_str item ''type''"
  by (cases item) (auto simp: present_item_def set_summary_def get_str_def map_simps Let_def)

lemma jmodify_twice: "jmodify k (\<lambda>_. v) (jmodify k f j) = jmodify k (\<lambda>_. v) j"
proof -
  have "kv_update k (\<lambda>_. v) (kv_update k f m) = kv_update k (\<lambda>_. v) m" for m
    by (induction k f m rule: kv_update.induct) auto
  then show ?thesis by (cases j) auto
qed

section \<open>Properties\<close>


definition payload_demo_call :: "string \<Rightarrow> json" where
  "payload_demo_call c = jobj [(''type'', JStr ''function_call''), (''call_id'', JStr c)]"

definition demo_output :: "string \<Rightarrow> string \<Rightarrow> json" where
  "demo_output c t = jobj [(''type'', JStr ''function_call_output''), (''call_id'', JStr c), (''output'', JStr t)]"

definition demo_notice :: json where
  "demo_notice = jobj [(''type'', JStr ''message''), (''role'', JStr ''developer'')]"

lemmas demo_items = payload_demo_call_def demo_output_def demo_notice_def is_native_tool_call_item_def is_output_item_def
  is_message_item_def in_window_def output_call_id_def map_filter_simps


text \<open>An output that a second one of the same call follows is lost when a notice stands between them.\<close>

lemma duplicate_output_lost:
  "group_tool_outputs_with_their_calls [payload_demo_call ''a'', demo_output ''a'' ''1'', demo_notice, demo_output ''a'' ''2'']
   = [payload_demo_call ''a'', demo_output ''a'' ''2'', demo_notice]"
  using group_complete_turn [of "[payload_demo_call ''a'']" "[demo_output ''a'' ''1'', demo_notice, demo_output ''a'' ''2'']" "[]"]
  by (simp add: demo_items complete_turn_def window_ends_def regrouped_def answer_def)

text \<open>Trimming inline images. When every image of the replay is an element of an array or the output of
an item, and holds no further image, the images that are left are the newest ones, they fit into the
media budget, no image more than needed was dropped, and the reported omission counts exactly the
dropped images and their characters.
\<close>

lemma inline_media_bounded:
  assumes "list_all trimmable items" "bound_inline_media items = (items', omitted)"
  shows "\<exists>n. fewest_dropped (collect_inline_image_sizes items) n
       \<and> collect_inline_image_sizes items' = drop n (collect_inline_image_sizes items)
       \<and> sum_list (collect_inline_image_sizes items') \<le> MAX_INLINE_MEDIA_CHARS
       \<and> om_images omitted = n \<and> om_chars omitted = sum_list (take n (collect_inline_image_sizes items))"
  using bound_done [OF assms] images_to_drop_fewest [of "collect_inline_image_sizes items"]
  by (auto simp: fewest_dropped_def)

definition big_url :: string where
  "big_url = ''data:image/'' @ replicate MAX_INLINE_MEDIA_CHARS (CHR ''A'')"

definition image_part :: "string \<Rightarrow> json" where
  "image_part url = jobj [(''type'', JStr ''input_image''), (''image_url'', JStr url)]"

definition image_message :: "string list \<Rightarrow> json" where
  "image_message urls = jobj [(''type'', JStr ''message''), (''content'', JArr (map image_part urls))]"

lemma image_message_facts:
  "trimmable (image_message [big_url, ''data:image/x''])"
  "collect_inline_image_sizes [image_message [big_url, ''data:image/x'']] = [MAX_INLINE_MEDIA_CHARS + 11, 12]"
  "bound_inline_media [image_message [big_url, ''data:image/x'']]
   = ([jobj [(''type'', JStr ''message''),
        (''content'', JArr [omitted_image_item (MAX_INLINE_MEDIA_CHARS + 11), image_part ''data:image/x''])]],
      \<lparr>om_images = 1, om_chars = MAX_INLINE_MEDIA_CHARS + 11\<rparr>)"
  by (simp_all add: image_message_def image_part_def jobj_def inline_data_def inline_image_chars_def big_url_def
      starts_with_def collect_inline_image_sizes_def bound_inline_media_def no_omission_def spend_def eval_nat_numeral)
    (simp add: MAX_INLINE_MEDIA_CHARS_def)

text \<open>The budget counts an image that is the \<open>image_url\<close> of an object which is not an array element, such
as the screenshot of a \<^verbatim>\<open>computer_call_output\<close>, but the trimming never removes it: a replay with such
an image of any size is left as it is, over the budget, and reports no omission.
\<close>

theorem object_image_never_trimmed:
  assumes "starts_with url ''data:image/''" "MAX_INLINE_MEDIA_CHARS < length url"
  defines "item \<equiv> jobj [(''type'', JStr ''computer_call_output''), (''call_id'', JStr ''c''), (''output'', image_part url)]"
  shows "bound_inline_media [item] = ([item], no_omission)
       \<and> MAX_INLINE_MEDIA_CHARS < sum_list (collect_inline_image_sizes [item])"
  using assms(1,2)
  by (simp add: item_def image_part_def jobj_def inline_data_def collect_inline_image_sizes_def bound_inline_media_def
      no_omission_def)

lemma object_image_never_trimmed_witness:
  "bound_inline_media [jobj [(''type'', JStr ''computer_call_output''), (''call_id'', JStr ''c''), (''output'', image_part big_url)]]
   = ([jobj [(''type'', JStr ''computer_call_output''), (''call_id'', JStr ''c''), (''output'', image_part big_url)]], no_omission)"
  using object_image_never_trimmed [of big_url] by (simp add: big_url_def starts_with_def)


definition thought_item :: json where
  "thought_item = jobj [(''type'', JStr ''reasoning''), (''summary'', JArr []),
     (''content'', JArr [jobj [(''type'', JStr ''reasoning_text''), (''text'', JStr ''a plan'')]])]"


end
