(* ===== verification/Search_Presentation.thy ===== *)
theory Search_Presentation
  imports Native_Payload Web_Request
begin

text \<open>
  \<^verbatim>\<open>crates/proxy/src/server/native_search_presentation.rs\<close>: the searches that CodeSeeX executed itself are
  folded into the terminal provider turn as completed \<^verbatim>\<open>web_search_call\<close> items, in front of the provider's
  own items, whose output indices move. The ids of the items (fresh UUIDs) are an argument.
\<close>

record executed_search =
  es_call_id :: string
  es_input :: string

text \<open>\<^verbatim>\<open>native_web_search_call_item\<close>, with the UUID and the action of the arguments.\<close>

definition native_search_call_item :: "string \<Rightarrow> (string \<Rightarrow> json) \<Rightarrow> string \<Rightarrow> string \<Rightarrow> json" where
  "native_search_call_item uuid action call_id arguments =
     jobj [(''id'', JStr (''ws_'' @ uuid)), (''type'', JStr ''web_search_call''), (''status'', JStr ''completed''),
       (''call_id'', JStr call_id), (''action'', action arguments)]"

record frame =
  fr_event :: "string option"
  fr_payload :: "json option"
  fr_raw :: string

definition frame_from_bytes :: "ext_lib \<Rightarrow> string \<Rightarrow> frame" where
  "frame_from_bytes L bytes =
     (if \<not> valid_utf8 bytes then \<lparr>fr_event = None, fr_payload = None, fr_raw = bytes\<rparr>
      else \<lparr>fr_event = find_map (\<lambda>line. map_option trim (strip_prefix ''event:'' line)) (str_lines bytes),
            fr_payload = Option.bind (opt_filter (\<lambda>v. v \<noteq> [])
                (find_map (\<lambda>line. map_option trim (strip_prefix ''data:'' line)) (str_lines bytes))) (json_from_str L),
            fr_raw = bytes\<rparr>)"

definition synthetic :: "string \<Rightarrow> json \<Rightarrow> frame" where
  "synthetic event payload = \<lparr>fr_event = Some event, fr_payload = Some payload, fr_raw = []\<rparr>"

definition frame_type :: "frame \<Rightarrow> string option" where
  "frame_type f = Option.bind (fr_payload f) (\<lambda>p. get_str p ''type'')"

text \<open>A rendered payload gets the next sequence number when it carries one.\<close>

definition renumber :: "json \<Rightarrow> nat \<Rightarrow> json \<times> nat" where
  "renumber payload sequence =
     (if jget payload ''sequence_number'' \<noteq> None
      then (jinsert ''sequence_number'' (jnat (sequence + 1)) payload, sequence + 1) else (payload, sequence))"

definition render :: "ext_lib \<Rightarrow> frame \<Rightarrow> nat \<Rightarrow> string \<times> nat" where
  "render L f sequence =
     (case fr_payload f of
        None \<Rightarrow> (fr_raw f, sequence)
      | Some payload \<Rightarrow>
          let event = unwrap_or ''message'' (or_else (fr_event f) (get_str payload ''type''));
              (payload, sequence) = renumber payload sequence
          in (sse_frame L event payload, sequence))"

fun render_all :: "ext_lib \<Rightarrow> frame list \<Rightarrow> nat \<Rightarrow> string" where
  "render_all L [] sequence = []"
| "render_all L (f # fs) sequence =
     (let (bytes, sequence) = render L f sequence in bytes @ render_all L fs sequence)"

text \<open>The addition is one of \<^verbatim>\<open>u64\<close>.\<close>

definition shift_output_index :: "nat \<Rightarrow> json \<Rightarrow> json" where
  "shift_output_index shift payload =
     (if shift = 0 then payload
      else jmodify ''output_index''
             (\<lambda>index. case as_u64 index of None \<Rightarrow> index | Some v \<Rightarrow> jnat ((v + shift) mod 2 ^ 64)) payload)"

definition prepend_completed_items :: "json list \<Rightarrow> json \<Rightarrow> json" where
  "prepend_completed_items items payload =
     jmodify ''response'' (jmodify ''output'' (arr_modify (\<lambda>out. items @ out))) payload"

definition search_event :: "string \<Rightarrow> string \<Rightarrow> nat \<Rightarrow> (string \<times> json) list \<Rightarrow> frame" where
  "search_event kind response_id output_index extra =
     synthetic kind (jobj ([(''type'', JStr kind), (''response_id'', JStr response_id),
       (''output_index'', jnat output_index)] @ extra))"

definition search_event_frames_of :: "string \<Rightarrow> nat \<Rightarrow> json \<Rightarrow> frame list" where
  "search_event_frames_of response_id index item =
     (let item_id = unwrap_or JNull (jget item ''id''); action = unwrap_or JNull (jget item ''action'');
          progress = (if ptr_str item [''action'', ''type''] \<in> {Some ''open'', Some ''open_page''}
                      then ''response.web_search_call.opening'' else ''response.web_search_call.searching'')
      in [search_event ''response.output_item.added'' response_id index
            [(''item'', jinsert ''status'' (JStr ''in_progress'') item)],
          search_event ''response.web_search_call.in_progress'' response_id index [(''item_id'', item_id)],
          search_event progress response_id index [(''item_id'', item_id), (''action'', action)],
          search_event ''response.web_search_call.completed'' response_id index [(''item_id'', item_id)],
          search_event ''response.output_item.done'' response_id index [(''item'', item)]])"

definition search_event_frames :: "string \<Rightarrow> json list \<Rightarrow> frame list" where
  "search_event_frames response_id items =
     concat (map (\<lambda>(index, item). search_event_frames_of response_id index item) (enumerate 0 items))"

definition map_payload :: "(json \<Rightarrow> json) \<Rightarrow> frame \<Rightarrow> frame" where
  "map_payload g f = f\<lparr>fr_payload := map_option g (fr_payload f)\<rparr>"

text \<open>The frames in the order in which they are rendered.\<close>

definition ordered_frames :: "string \<Rightarrow> json list \<Rightarrow> frame list \<Rightarrow> frame list option" where
  "ordered_frames response_id items parsed =
     (case position (\<lambda>f. frame_type f = Some ''response.completed'') parsed of
        None \<Rightarrow> None
      | Some completed \<Rightarrow>
          let parsed = map (map_payload (shift_output_index (length items))) parsed;
              parsed = parsed[completed := map_payload (prepend_completed_items items) (parsed ! completed)];
              insertion = (case position (\<lambda>f. frame_type f = Some ''response.created'') parsed of
                             None \<Rightarrow> 0 | Some index \<Rightarrow> index + 1)
          in Some (if insertion < length parsed
                   then take insertion parsed @ search_event_frames response_id items @ drop insertion parsed
                   else parsed))"

definition present_sse :: "ext_lib \<Rightarrow> string list \<Rightarrow> string \<Rightarrow> json list \<Rightarrow> string option" where
  "present_sse L frames response_id items =
     map_option (\<lambda>fs. render_all L fs 0) (ordered_frames response_id items (map (frame_from_bytes L) frames))"

definition present_json :: "ext_lib \<Rightarrow> string \<Rightarrow> json list \<Rightarrow> string option" where
  "present_json L body items =
     (case json_from_str L body of
        None \<Rightarrow> None
      | Some payload \<Rightarrow>
          (case get_arr payload ''output'' of
             None \<Rightarrow> None
           | Some out \<Rightarrow> Some (json_to_string L (jmodify ''output'' (\<lambda>_. JArr (items @ out)) payload))))"

definition present_searches ::
  "ext_lib \<Rightarrow> (string \<Rightarrow> json) \<Rightarrow> (nat \<Rightarrow> string) \<Rightarrow> string list \<Rightarrow> bool \<Rightarrow> string \<Rightarrow> string \<Rightarrow> executed_search list \<Rightarrow> string" where
  "present_searches L action uuid frames is_sse body response_id searches =
     (if searches = [] then body
      else
        let items = map (\<lambda>(i, s). native_search_call_item (uuid i) action (es_call_id s) (es_input s)) (enumerate 0 searches)
        in unwrap_or body (if is_sse then present_sse L frames response_id items else present_json L body items))"

section \<open>Indices stay consistent\<close>

abbreviation is_completed :: "frame \<Rightarrow> bool" where
  "is_completed f \<equiv> frame_type f = Some ''response.completed''"

definition frame_output :: "frame \<Rightarrow> json list option" where
  "frame_output f = Option.bind (fr_payload f) (\<lambda>p. Option.bind (jget p ''response'') (\<lambda>r. get_arr r ''output''))"

definition completed_output :: "frame list \<Rightarrow> json list option" where
  "completed_output fs = Option.bind (find is_completed fs) frame_output"

text \<open>A done event names the place of its item in the final output.\<close>

definition done_ok :: "json list \<Rightarrow> frame \<Rightarrow> bool" where
  "done_ok out f =
     (frame_type f \<noteq> Some ''response.output_item.done''
      \<or> (\<exists>p k. fr_payload f = Some p \<and> Option.bind (jget p ''output_index'') as_u64 = Some k \<and> k < length out
           \<and> jget p ''item'' = Some (out ! k)))"

definition indices_match :: "frame list \<Rightarrow> bool" where
  "indices_match fs = (\<exists>out. completed_output fs = Some out \<and> list_all (done_ok out) fs)"

definition search_announced :: "frame list \<Rightarrow> nat \<Rightarrow> json \<Rightarrow> bool" where
  "search_announced fs index item =
     list_ex (\<lambda>f. frame_type f = Some ''response.output_item.done''
       \<and> (\<exists>p. fr_payload f = Some p \<and> jget p ''output_index'' = Some (jnat index) \<and> jget p ''item'' = Some item)) fs"

lemma shift_fields:
  "k \<noteq> ''output_index'' \<Longrightarrow> jget (shift_output_index n p) k = jget p k"
  "get_str (shift_output_index n p) ''type'' = get_str p ''type''"
  by (auto simp: shift_output_index_def get_str_jmodify)

lemma shift_index:
  assumes "Option.bind (jget p ''output_index'') as_u64 = Some k" "k + n < 2 ^ 64"
  shows "Option.bind (jget (shift_output_index n p) ''output_index'') as_u64 = Some (k + n)"
proof (cases "n = 0")
  case False
  with assms show ?thesis by (auto simp: shift_output_index_def bind_eq_Some_conv)
qed (use assms in \<open>simp add: shift_output_index_def\<close>)

lemma map_payload_type:
  "frame_type (map_payload (shift_output_index n) f) = frame_type f"
  "frame_type (map_payload (prepend_completed_items items) f) = frame_type f"
  by (cases "fr_payload f"; simp add: frame_type_def map_payload_def shift_fields prepend_completed_items_def get_str_jmodify)+

lemma shifted_done_ok:
  assumes "done_ok out f" "length items + length out < 2 ^ 64"
  shows "done_ok (items @ out) (map_payload (shift_output_index (length items)) f)"
proof (cases "frame_type f = Some ''response.output_item.done''")
  case True
  with assms(1) obtain p k where p: "fr_payload f = Some p" "Option.bind (jget p ''output_index'') as_u64 = Some k"
    "k < length out" "jget p ''item'' = Some (out ! k)" by (auto simp: done_ok_def)
  from shift_index [OF p(2), of "length items"] p assms(2) show ?thesis
    by (auto simp: done_ok_def map_payload_def shift_fields nth_append intro!: exI [of _ "k + length items"])
qed (simp add: done_ok_def map_payload_type)

lemma find_position: "find p xs = map_option ((!) xs) (position p xs)"
  by (induction xs) (auto simp: option.map_comp o_def)

lemma position_types:
  "map frame_type fs = map frame_type gs \<Longrightarrow>
   position (\<lambda>f. frame_type f = t) fs = position (\<lambda>f. frame_type f = t) gs"
  by (induction fs gs rule: list_induct2') auto

lemma injected_frames:
  "list_all (\<lambda>f. \<not> is_completed f \<and> done_ok (items @ out) f) (search_event_frames response_id items)"
  "i < length items \<Longrightarrow> search_announced (search_event_frames response_id items) i (items ! i)"
proof -
  have type: "frame_type (search_event kind r i extra) = Some kind" if "map_of (rev extra) ''type'' = None" for kind r i extra
    using that by (simp add: search_event_def synthetic_def frame_type_def map_add_def)
  have final: "frame_type (search_event ''response.output_item.done'' r i [(''item'', x)]) = Some ''response.output_item.done''"
    "\<exists>p. fr_payload (search_event ''response.output_item.done'' r i [(''item'', x)]) = Some p
       \<and> jget p ''output_index'' = Some (jnat i) \<and> jget p ''item'' = Some x" for r i x
    by (simp_all add: type) (simp add: search_event_def synthetic_def)
  have "list_all (\<lambda>f. \<not> is_completed f \<and> done_ok (items @ out) f) (search_event_frames_of response_id i x)"
    if "i < length items" "x = items ! i" for i x
    using that final(2) [of response_id i x]
    by (auto simp: search_event_frames_of_def Let_def type done_ok_def nth_append)
  then show "list_all (\<lambda>f. \<not> is_completed f \<and> done_ok (items @ out) f) (search_event_frames response_id items)"
    by (fastforce simp: search_event_frames_def list_all_iff in_set_enumerate_eq)
  assume i: "i < length items"
  have "search_event ''response.output_item.done'' response_id i [(''item'', items ! i)]
      \<in> set (search_event_frames_of response_id i (items ! i))"
    by (simp add: search_event_frames_of_def Let_def)
  then have "search_event ''response.output_item.done'' response_id i [(''item'', items ! i)]
      \<in> set (search_event_frames response_id items)"
    using i by (auto simp: search_event_frames_def in_set_enumerate_eq intro!: bexI [of _ "(i, items ! i)"])
  with final [of response_id i "items ! i"] show "search_announced (search_event_frames response_id items) i (items ! i)"
    by (auto simp: search_announced_def list_ex_iff)
qed

lemma ordered_frames_ok:
  assumes "ordered_frames response_id items parsed = Some fs" "completed_output parsed = Some out"
    "list_all (done_ok out) parsed" "length items + length out < 2 ^ 64"
    "position (\<lambda>f. frame_type f = Some ''response.created'') parsed \<noteq> Some (length parsed - 1)"
  shows "completed_output fs = Some (items @ out) \<and> list_all (done_ok (items @ out)) fs
     \<and> list_all (\<lambda>(i, item). search_announced fs i item) (enumerate 0 items)"
proof -
  obtain c where c: "position is_completed parsed = Some c" using assms(1) by (auto simp: ordered_frames_def split: option.splits)
  note cl = position_Some [OF c]
  define p1 where "p1 = map (map_payload (shift_output_index (length items))) parsed"
  define p2 where "p2 = p1[c := map_payload (prepend_completed_items items) (p1 ! c)]"
  have types1: "map frame_type p1 = map frame_type parsed" by (simp add: p1_def map_payload_type o_def)
  have types: "map frame_type p2 = map frame_type parsed"
    using cl by (auto simp: p2_def map_update map_payload_type p1_def nth_list_update intro!: nth_equalityI)
  have len: "c < length p1" using cl by (simp add: p1_def)
  have old: "frame_output (parsed ! c) = Some out"
    using assms(2) by (simp add: completed_output_def find_position c)
  then have "frame_output (p1 ! c) = Some out"
    using cl by (auto simp: p1_def frame_output_def map_payload_def shift_fields bind_eq_Some_conv)
  then have "frame_output (p2 ! c) = Some (items @ out)"
    using len by (auto simp: p2_def frame_output_def map_payload_def prepend_completed_items_def bind_eq_Some_conv
        get_arr_jmodify get_arr_Some)
  then have out2: "completed_output p2 = Some (items @ out)"
    using position_types [OF types] c by (simp add: completed_output_def find_position)
  have "list_all (done_ok (items @ out)) p1"
    using assms(3,4) shifted_done_ok by (auto simp: p1_def list_all_iff)
  moreover have "done_ok (items @ out) (map_payload (prepend_completed_items items) (p1 ! c))"
    using cl by (simp add: done_ok_def map_payload_type p1_def)
  ultimately have ok2: "list_all (done_ok (items @ out)) p2"
    unfolding p2_def list_all_iff using set_update_subset_insert by fastforce
  define k where "k = (case position (\<lambda>f. frame_type f = Some ''response.created'') p2 of None \<Rightarrow> 0 | Some index \<Rightarrow> index + 1)"
  have "k < length parsed"
    using assms(5) cl position_types [OF types, of "Some ''response.created''"]
      position_Some [of "\<lambda>f. frame_type f = Some ''response.created''" parsed]
    by (cases "position (\<lambda>f. frame_type f = Some ''response.created'') parsed") (auto simp: k_def)
  then have "k < length p2" by (simp add: p2_def p1_def)
  then have fs: "fs = take k p2 @ search_event_frames response_id items @ drop k p2"
    using assms(1) c by (auto simp: ordered_frames_def Let_def p1_def p2_def k_def split: if_splits)
  have "find is_completed (take k p2 @ search_event_frames response_id items @ drop k p2) = find is_completed p2"
  proof -
    have "find is_completed (search_event_frames response_id items) = None"
      using injected_frames(1) [of items _ response_id] by (auto simp: find_None_iff list_all_iff)
    then have "find is_completed (take k p2 @ search_event_frames response_id items @ drop k p2)
        = or_else (find is_completed (take k p2)) (find is_completed (drop k p2))"
      by (simp add: find_append)
    also have "\<dots> = find is_completed (take k p2 @ drop k p2)" by (simp only: find_append)
    finally show ?thesis by simp
  qed
  then have "completed_output fs = Some (items @ out)" using fs out2 by (auto simp: completed_output_def)
  moreover have "list_all (done_ok (items @ out)) fs"
    using fs ok2 injected_frames(1) [of items out response_id]
    by (auto simp: list_all_iff dest: in_set_takeD in_set_dropD)
  moreover have "list_all (\<lambda>(i, item). search_announced fs i item) (enumerate 0 items)"
    using fs injected_frames(2) [of _ items response_id]
    by (auto simp: list_all_iff in_set_enumerate_eq search_announced_def)
  ultimately show ?thesis by simp
qed

text \<open>The sequence numbers that the rendered payloads carry.\<close>

fun rendered_sequence :: "frame list \<Rightarrow> nat \<Rightarrow> nat list" where
  "rendered_sequence [] sequence = []"
| "rendered_sequence (f # fs) sequence =
     (case fr_payload f of
        None \<Rightarrow> rendered_sequence fs sequence
      | Some p \<Rightarrow>
          (case Option.bind (jget (fst (renumber p sequence)) ''sequence_number'') as_u64 of
             None \<Rightarrow> [] | Some n \<Rightarrow> [n]) @ rendered_sequence fs (snd (renumber p sequence)))"

lemma rendered_sequence_steps: "\<exists>n. rendered_sequence fs k = [Suc k..<Suc (k + n)]"
proof (induction fs arbitrary: k)
  case (Cons f fs)
  show ?case
  proof (cases "fr_payload f")
    case (Some p)
    show ?thesis
    proof (cases "jget p ''sequence_number''")
      case None
      with Some Cons.IH [of k] show ?thesis by (simp add: renumber_def)
    next
      case num: (Some v)
      then obtain m where p: "p = JObj m" by (cases p) auto
      obtain n where "rendered_sequence fs (Suc k) = [Suc (Suc k)..<Suc (Suc k + n)]" using Cons.IH by blast
      then have "rendered_sequence (f # fs) k = [Suc k..<Suc (k + Suc n)]"
        using Some num by (simp add: renumber_def p map_simps upt_conv_Cons)
      then show ?thesis by blast
    qed
  qed (use Cons.IH in simp)
qed (auto intro: exI [of _ 0])

text \<open>C34: Folding executed searches into a provider stream keeps it consistent. If every done event of the
provider's stream names the place of its item in the completed output, and the stream goes on behind its
created event, then every done event of the presented stream names the place of its item in the
completed output, which is the search items followed by the provider's, every search is announced at its
own index, and the sequence numbers that are rendered count up from one.
\<close>

theorem presented_searches_consistent:
  assumes "ordered_frames response_id items parsed = Some fs" "completed_output parsed = Some out"
    "list_all (done_ok out) parsed" "length items + length out < 2 ^ 64"
    "position (\<lambda>f. frame_type f = Some ''response.created'') parsed \<noteq> Some (length parsed - 1)"
  shows "completed_output fs = Some (items @ out) \<and> list_all (done_ok (items @ out)) fs
       \<and> list_all (\<lambda>(i, item). search_announced fs i item) (enumerate 0 items)
       \<and> (\<exists>n. rendered_sequence fs 0 = [1..<Suc n])"
  using ordered_frames_ok [OF assms] rendered_sequence_steps [of fs 0] by simp

definition demo_frame :: "string \<Rightarrow> (string \<times> json) list \<Rightarrow> frame" where
  "demo_frame kind members = synthetic kind (jobj ((''type'', JStr kind) # members))"

definition demo_stream :: "json \<Rightarrow> frame list" where
  "demo_stream message =
     [demo_frame ''response.created'' [],
      demo_frame ''response.output_item.done'' [(''output_index'', jnat 0), (''item'', message)],
      demo_frame ''response.completed'' [(''response'', jobj [(''output'', JArr [message])])]]"

lemma presented_searches_consistent_witness:
  "\<exists>fs. ordered_frames ''r'' [JStr ''search''] (demo_stream (JStr ''answer'')) = Some fs
     \<and> completed_output fs = Some [JStr ''search'', JStr ''answer''] \<and> length fs = 8
     \<and> search_announced fs 0 (JStr ''search'')"
proof -
  let ?s = "demo_stream (JStr ''answer'')"
  have types: "map frame_type ?s = [Some ''response.created'', Some ''response.output_item.done'', Some ''response.completed'']"
    by (simp add: demo_stream_def demo_frame_def synthetic_def frame_type_def jobj_def get_str_def)
  have out: "completed_output ?s = Some [JStr ''answer'']" "list_all (done_ok [JStr ''answer'']) ?s"
    using types by (simp_all add: completed_output_def frame_output_def done_ok_def demo_stream_def)
      (simp_all add: demo_frame_def synthetic_def get_arr_def)
  have "\<exists>fs. ordered_frames ''r'' [JStr ''search''] ?s = Some fs \<and> length fs = 8"
    using types by (simp add: ordered_frames_def demo_stream_def map_payload_type Let_def)
      (simp add: search_event_frames_def search_event_frames_of_def enumerate_eq_zip Let_def)
  then obtain fs where fs: "ordered_frames ''r'' [JStr ''search''] ?s = Some fs" "length fs = 8" by blast
  have "position (\<lambda>f. frame_type f = Some ''response.created'') ?s \<noteq> Some (length ?s - 1)"
    using types by (simp add: demo_stream_def)
  from presented_searches_consistent [OF fs(1) out _ this] fs show ?thesis by (simp add: enumerate_eq_zip)
qed

end
