(* ===== verification/Native_Hosted_Loop.thy ===== *)
theory Native_Hosted_Loop
  imports Native_Coordinator Search_Presentation Request_Store Tool_Loop_Guard
begin

text \<open>
  The hosted tool loop of the native Responses route, \<^verbatim>\<open>native_hosted_tool_loop\<close> of
  \<^verbatim>\<open>crates/proxy/src/server/native_runtime.rs\<close>, with the functions it calls: a provider turn is fetched and
  inspected, a turn that only calls hosted tools is executed and replayed, a turn with client tools is
  handed back with its hosted round retained, any other turn goes to the client.

  The upstream service, the execution of a tool, the fresh identifiers, the clock and the checkpoint of the
  store are the record \<open>hosted_env\<close>. The trace records what is posted upstream, which hosted calls are
  executed and how the request is finished in the store; the diagnostic events are not modelled.
\<close>

section \<open>The state of the loop\<close>

datatype native_reply =
    ConnectionFailed string
  | Refused nat "string + string"
  | EventStream "string list" "string option"
  | Body "string + string"

datatype hosted_effect =
    Posted json
  | Executed string string
  | Finished request_status "string option"

datatype hosted_response =
    JsonError nat string string
  | UpstreamBody nat string
  | TurnStream string
  | TurnJson json
  | TurnBytes string

record hosted_env =
  he_lib :: ext_lib
  he_post :: "nat \<Rightarrow> json \<Rightarrow> native_reply"
  he_execute :: "json list \<Rightarrow> string \<Rightarrow> string \<Rightarrow> string"
  he_action :: "string \<Rightarrow> json"
  he_uuid :: "nat \<Rightarrow> string"
  he_now :: nat
  he_checkpoint :: "string option"
  he_parse_error :: "string \<Rightarrow> string"
  he_enabled :: "string list"
  he_mode :: "reasoning_summary_mode option"

record hosted_request =
  hq_id :: string
  hq_input :: json
  hq_pending :: "native_pending_continuation option"

record hosted_state =
  hs_payload :: json
  hs_authoritative :: "json list"
  hs_injected :: "native_injected_items list"
  hs_search_calls :: nat
  hs_searches :: "executed_search list"
  hs_messages :: "json list"
  hs_groups :: native_pending_tool_groups
  hs_trace :: "hosted_effect list"

definition record_effect :: "hosted_effect \<Rightarrow> hosted_state \<Rightarrow> hosted_state" where
  "record_effect e st = st\<lparr>hs_trace := hs_trace st @ [e]\<rparr>"

definition finish_hosted :: "request_status \<Rightarrow> string option \<Rightarrow> hosted_state \<Rightarrow> hosted_state" where
  "finish_hosted status lifecycle = record_effect (Finished status lifecycle)"

definition settle_pending :: "hosted_request \<Rightarrow> hosted_state \<Rightarrow> hosted_state" where
  "settle_pending rq st =
     (case hq_pending rq of
        None \<Rightarrow> st
      | Some c \<Rightarrow> st\<lparr>hs_groups := settle (pending_response_id c) (hs_groups st)\<rparr>)"

section \<open>One hosted call\<close>

definition is_local :: "hosted_env \<Rightarrow> native_tool_call \<Rightarrow> bool" where
  "is_local E call = native_hosted_call_is_local (nc_name call) (he_enabled E)"

definition search_budget_result :: "ext_lib \<Rightarrow> string" where
  "search_budget_result L = json_to_string L (jobj
     [(''ok'', JBool False), (''tool'', JStr ''web_search''), (''error'', JStr ''web_search_budget_exhausted''),
      (''message'', JStr (''CodeSeeX stopped the loop: web_search reached its per-turn budget of ''
         @ nat_str MAX_WEB_SEARCH_LOOP_CALLS
         @ '' calls. Answer with the evidence already returned instead of searching again.''))])"

definition call_messages :: "native_tool_call \<Rightarrow> string \<Rightarrow> json list" where
  "call_messages call replay =
     [jobj [(''role'', JStr ''assistant''),
        (''tool_calls'', JArr [jobj [(''id'', JStr (nc_call_id call)), (''type'', JStr ''function''),
           (''function'', jobj [(''name'', JStr (nc_name call)), (''arguments'', JStr (nc_input call))])]])],
      jobj [(''role'', JStr ''tool''), (''tool_call_id'', JStr (nc_call_id call)), (''content'', JStr replay)]]"

definition run_call :: "hosted_env \<Rightarrow> native_tool_call \<Rightarrow> hosted_state \<Rightarrow> string \<times> hosted_state" where
  "run_call E call st =
     (let replay = he_execute E (hs_messages st) (nc_name call) (nc_input call);
          st = record_effect (Executed (nc_name call) (nc_input call)) st
      in (replay, st\<lparr>hs_messages := hs_messages st @ call_messages call replay\<rparr>))"

definition execute_native_hosted_call ::
  "hosted_env \<Rightarrow> native_tool_call \<Rightarrow> hosted_state \<Rightarrow> string \<times> hosted_state" where
  "execute_native_hosted_call E call st =
     (if is_web_search_tool (nc_name call) then
        if MAX_WEB_SEARCH_LOOP_CALLS \<le> hs_search_calls st then (search_budget_result (he_lib E), st)
        else run_call E call (st\<lparr>hs_search_calls := hs_search_calls st + 1,
               hs_searches := hs_searches st @ [\<lparr>es_call_id = nc_call_id call, es_input = nc_input call\<rparr>]\<rparr>)
      else run_call E call st)"

fun execute_hosted_calls :: "hosted_env \<Rightarrow> native_tool_call list \<Rightarrow> hosted_state \<Rightarrow> json list \<times> hosted_state" where
  "execute_hosted_calls E [] st = ([], st)"
| "execute_hosted_calls E (call # calls) st =
     (let (replay, st) = execute_native_hosted_call E call st; (outputs, st) = execute_hosted_calls E calls st
      in (native_tool_output_item call replay # outputs, st))"

section \<open>Reading a provider turn\<close>

record provider_turn =
  pt_frames :: "string list"
  pt_items :: "json list"
  pt_completed :: bool
  pt_is_sse :: bool

text \<open>\<^verbatim>\<open>buffer_native_sse\<close>: the relayed frames and the inspection at the end of the stream.\<close>

definition buffer_native_sse ::
  "hosted_env \<Rightarrow> string \<Rightarrow> string list \<Rightarrow> string list \<times> native_response_stream_inspection" where
  "buffer_native_sse E response_id chunks =
     (let (frames, relay) = relay_chunks (he_lib E) chunks (new_relay response_id (he_mode E))
      in (frames, is_inspection (rl_inspector relay)))"

definition read_turn :: "hosted_env \<Rightarrow> string \<Rightarrow> native_reply \<Rightarrow> hosted_response + provider_turn" where
  "read_turn E response_id reply =
     (case reply of
        ConnectionFailed e \<Rightarrow> Inl (JsonError 502 ''native_upstream_connection_failed'' e)
      | Refused status body \<Rightarrow>
          (case body of
             Inr bytes \<Rightarrow> Inl (UpstreamBody status bytes)
           | Inl e \<Rightarrow> Inl (JsonError 502 ''native_upstream_body_failed'' e))
      | EventStream chunks failed \<Rightarrow>
          (case failed of
             Some e \<Rightarrow> Inl (JsonError 502 ''native_upstream_body_failed'' e)
           | None \<Rightarrow>
               let (frames, inspection) = buffer_native_sse E response_id chunks
               in Inr \<lparr>pt_frames = frames,
                    pt_items = (if in_output_items_incomplete inspection then [] else in_output_items inspection),
                    pt_completed = (in_terminal inspection = Some TCompleted), pt_is_sse = True\<rparr>)
      | Body body \<Rightarrow>
          (case body of
             Inl e \<Rightarrow> Inl (JsonError 502 ''native_upstream_body_failed'' e)
           | Inr bytes \<Rightarrow>
               (case json_from_str (he_lib E) bytes of
                  None \<Rightarrow> Inl (JsonError 502 ''native_upstream_json_failed'' (he_parse_error E bytes))
                | Some native \<Rightarrow>
                    Inr \<lparr>pt_frames = [bytes], pt_items = unwrap_or [] (get_arr native ''output''),
                      pt_completed = (get_str native ''status'' = Some ''completed''), pt_is_sse = False\<rparr>)))"

text \<open>\<^verbatim>\<open>native_provider_turn_response\<close>.\<close>

definition turn_response :: "hosted_env \<Rightarrow> string \<Rightarrow> bool \<Rightarrow> string \<Rightarrow> hosted_response" where
  "turn_response E body is_sse response_id =
     (if is_sse then TurnStream (normalize_apply_patch_sse_body (he_lib E) body)
      else case json_from_str (he_lib E) body of
             None \<Rightarrow> TurnBytes body
           | Some native \<Rightarrow>
               let native = (case get_str native ''id'' of
                               None \<Rightarrow> native
                             | Some pid \<Rightarrow> fst (rewrite_provider_response_identity native pid response_id));
                   native = fst (normalize_apply_patch_event_payload (he_lib E) native)
               in TurnJson (present_reasoning_summary_in_response (he_mode E) native))"

definition turn_status :: "bool \<Rightarrow> request_status" where
  "turn_status completed = (if completed then Completed else RequestFailed)"

text \<open>\<^verbatim>\<open>native_hosted_client_tool_group\<close> with \<^verbatim>\<open>retain_native_pending_tool_group\<close>.\<close>

definition client_tool_group ::
  "hosted_env \<Rightarrow> hosted_request \<Rightarrow> native_tool_call_group \<Rightarrow> string \<Rightarrow> provider_turn
     \<Rightarrow> native_injected_items list \<Rightarrow> hosted_state \<Rightarrow> hosted_response \<times> hosted_state" where
  "client_tool_group E rq grp body turn injected st =
     (let st = (if pt_completed turn \<and> injected \<noteq> []
                then st\<lparr>hs_groups := register (he_now E)
                       (new_group (he_now E) (hq_id rq) (hq_input rq) injected (map nc_call_id (ng_calls grp)))
                       (hs_groups st)\<rparr>
                else st);
          st = (if pt_completed turn then settle_pending rq st else st);
          st = finish_hosted (turn_status (pt_completed turn)) (Some ''client_tool_handoff'') st
      in (turn_response E body (pt_is_sse turn) (hq_id rq), st))"

section \<open>A body that is not streamed\<close>

text \<open>
  \<^verbatim>\<open>native_non_streaming_response\<close>, the route without hosted tools: the body is repaired, its tool group checked,
  the pending round settled when the response is completed, and the request finished.
\<close>

definition native_non_streaming_response ::
  "hosted_env \<Rightarrow> hosted_request \<Rightarrow> string + string \<Rightarrow> hosted_state \<Rightarrow> hosted_response \<times> hosted_state" where
  "native_non_streaming_response E rq body st =
     (case body of
        Inl e \<Rightarrow> (JsonError 502 ''native_upstream_body_failed'' e, finish_hosted RequestFailed None st)
      | Inr bytes \<Rightarrow>
          (case json_from_str (he_lib E) bytes of
             None \<Rightarrow> (JsonError 502 ''native_upstream_json_failed'' (he_parse_error E bytes), finish_hosted RequestFailed None st)
           | Some native \<Rightarrow>
               let native = (case get_str native ''id'' of
                               None \<Rightarrow> native
                             | Some pid \<Rightarrow> fst (rewrite_provider_response_identity native pid (hq_id rq)));
                   native = fst (normalize_apply_patch_event_payload (he_lib E) native)
               in case native_tool_call_group_from_response native of
                    Inl e \<Rightarrow> (JsonError 502 ''native_tool_protocol_invalid'' e, finish_hosted RequestFailed None st)
                  | Inr grp \<Rightarrow>
                      let completed = (get_str native ''status'' = Some ''completed'');
                          st = (if completed then settle_pending rq st else st);
                          lifecycle = (if grp \<noteq> None then Some ''client_tool_handoff'' else None)
                      in (TurnJson (present_reasoning_summary_in_response (he_mode E) native),
                          finish_hosted (turn_status completed) lifecycle st)))"

section \<open>One turn of the loop\<close>

definition client_input_len :: "hosted_request \<Rightarrow> nat" where
  "client_input_len rq = length (unwrap_or [] (get_arr (hq_input rq) ''input''))"

definition presentation :: "hosted_env \<Rightarrow> nat \<Rightarrow> native_tool_call \<Rightarrow> json option" where
  "presentation E i call =
     (if is_web_search_tool (nc_name call)
      then Some (native_search_call_item (he_uuid E i) (he_action E) (nc_call_id call) (nc_input call)) else None)"

text \<open>A group that mixes hosted and client calls: the hosted ones are executed, the rest is handed back.\<close>

definition mixed_group ::
  "hosted_env \<Rightarrow> hosted_request \<Rightarrow> native_tool_call_group \<Rightarrow> provider_turn \<Rightarrow> hosted_state
     \<Rightarrow> hosted_response \<times> hosted_state" where
  "mixed_group E rq grp turn st =
     (let hosted = filter (is_local E) (ng_calls grp);
          (outputs, st) = execute_hosted_calls E hosted st;
          replacements = fold (\<lambda>(i, call). om_insert (nc_call_id call) (presentation E i call)) (enumerate 0 hosted) [];
          body = present_executed_hosted_calls (he_lib E) (pt_is_sse turn) (pt_frames turn)
                   (ng_provider_output grp) replacements;
          retained = hs_injected st @ [\<lparr>inj_offset = client_input_len rq, inj_items = ng_provider_output grp @ outputs\<rparr>]
      in client_tool_group E rq grp body turn retained st)"

text \<open>A group of hosted calls only: it is executed and replayed as one complete continuation.\<close>

definition hosted_group ::
  "hosted_env \<Rightarrow> hosted_request \<Rightarrow> native_tool_call_group \<Rightarrow> hosted_state
     \<Rightarrow> (hosted_response \<times> hosted_state) + hosted_state" where
  "hosted_group E rq grp st =
     (let (outputs, st) = execute_hosted_calls E (ng_calls grp) st
      in case append_complete_native_tool_group (hs_authoritative st) grp outputs of
           Inl e \<Rightarrow> Inl (JsonError 500 ''native_tool_continuation_failed'' e, finish_hosted RequestFailed None st)
         | Inr next_input \<Rightarrow>
             Inr (st\<lparr>hs_authoritative := next_input, hs_payload := jinsert ''input'' (JArr next_input) (hs_payload st),
                    hs_injected := hs_injected st
                      @ [\<lparr>inj_offset = client_input_len rq, inj_items = ng_provider_output grp @ outputs\<rparr>]\<rparr>))"

definition terminal_turn ::
  "hosted_env \<Rightarrow> hosted_request \<Rightarrow> provider_turn \<Rightarrow> hosted_state \<Rightarrow> hosted_response \<times> hosted_state" where
  "terminal_turn E rq turn st =
     (let body = present_searches (he_lib E) (he_action E) (he_uuid E) (pt_frames turn) (pt_is_sse turn)
            (concat (pt_frames turn)) (hq_id rq) (hs_searches st)
      in (turn_response E body (pt_is_sse turn) (hq_id rq), finish_hosted (turn_status (pt_completed turn)) None st))"

definition iteration_limit_message :: string where
  "iteration_limit_message = ''Native hosted tool loop exceeded '' @ nat_str MAX_TOOL_LOOP_ITERATIONS
     @ '' iterations; CodeSeeX stopped the loop to avoid unbounded execution.''"

definition hosted_round ::
  "hosted_env \<Rightarrow> hosted_request \<Rightarrow> nat \<Rightarrow> hosted_state \<Rightarrow> (hosted_response \<times> hosted_state) + hosted_state" where
  "hosted_round E rq iteration st =
     (let upstream_payload = fst (native_upstream_payload (hs_payload st));
          st = record_effect (Posted upstream_payload) st
      in case read_turn E (hq_id rq) (he_post E iteration upstream_payload) of
           Inl response \<Rightarrow> Inl (response, finish_hosted RequestFailed None st)
         | Inr turn \<Rightarrow>
             let st = settle_pending rq st
             in case native_tool_call_group_from_response (jobj [(''output'', JArr (pt_items turn))]) of
                  Inl e \<Rightarrow> Inl (JsonError 502 ''native_tool_protocol_invalid'' e, finish_hosted RequestFailed None st)
                | Inr None \<Rightarrow> Inl (terminal_turn E rq turn st)
                | Inr (Some grp) \<Rightarrow>
                    let hosted = length (filter (is_local E) (ng_calls grp))
                    in if hosted = 0
                       then Inl (client_tool_group E rq grp (concat (pt_frames turn)) turn (hs_injected st) st)
                       else if hosted \<noteq> length (ng_calls grp) then Inl (mixed_group E rq grp turn st)
                       else if MAX_TOOL_LOOP_ITERATIONS \<le> iteration
                       then Inl (JsonError 500 ''native_tool_loop_iteration_limit'' iteration_limit_message,
                                 finish_hosted RequestFailed None st)
                       else hosted_group E rq grp st)"

lemma hosted_round_below: "hosted_round E rq iteration st = Inr st' \<Longrightarrow> iteration < MAX_TOOL_LOOP_ITERATIONS"
  by (auto simp: hosted_round_def Let_def split: sum.splits option.splits if_splits)

function hosted_loop :: "hosted_env \<Rightarrow> hosted_request \<Rightarrow> nat \<Rightarrow> hosted_state \<Rightarrow> hosted_response \<times> hosted_state" where
  "hosted_loop E rq iteration st =
     (case hosted_round E rq iteration st of
        Inl result \<Rightarrow> result
      | Inr st' \<Rightarrow> hosted_loop E rq (Suc iteration) st')"
  by pat_completeness auto
termination
  by (relation "measure (\<lambda>(_, _, iteration, _). MAX_TOOL_LOOP_ITERATIONS - iteration)")
    (auto dest!: hosted_round_below)

declare hosted_loop.simps [simp del]

section \<open>The request\<close>

text \<open>\<^verbatim>\<open>resolve_native_pending_input\<close>.\<close>

definition resolve_native_pending_input ::
  "nat \<Rightarrow> json \<Rightarrow> json \<Rightarrow> native_pending_tool_groups
     \<Rightarrow> native_pending_continuation option \<times> json \<times> native_pending_tool_groups" where
  "resolve_native_pending_input now input payload groups =
     (let (continued, groups) = continuation_for now input groups
      in case continued of
           None \<Rightarrow> (None, payload, groups)
         | Some c \<Rightarrow> (Some c, jinsert ''input'' (JArr (merged_input c)) payload, snd (take_evictions groups)))"

definition hosted_start ::
  "hosted_env \<Rightarrow> string \<Rightarrow> json \<Rightarrow> string \<Rightarrow> json list \<Rightarrow> native_pending_tool_groups
     \<Rightarrow> (hosted_response \<times> native_pending_tool_groups) + hosted_request \<times> hosted_state" where
  "hosted_start E response_id input model tools groups =
     (case native_payload input model tools of
        Inl message \<Rightarrow> Inl (JsonError 400 ''native_responses_input_invalid'' message, groups)
      | Inr payload \<Rightarrow>
          let (pending, payload, groups) = resolve_native_pending_input (he_now E) input payload groups;
              payload = fst (reconcile_grouped_tool_namespaces (he_lib E) payload);
              payload = fst (repair_provider_tool_schemas payload)
          in case he_checkpoint E of
               Some e \<Rightarrow> Inl (JsonError 500 ''state_checkpoint_failed'' e, groups)
             | None \<Rightarrow>
                 Inr (\<lparr>hq_id = response_id, hq_input = input, hq_pending = pending\<rparr>,
                      \<lparr>hs_payload = payload, hs_authoritative = unwrap_or [] (get_arr payload ''input''),
                       hs_injected = (case pending of None \<Rightarrow> [] | Some c \<Rightarrow> cont_injected_items c),
                       hs_search_calls = 0, hs_searches = [], hs_messages = unwrap_or [] (get_arr input ''input''),
                       hs_groups = groups, hs_trace = []\<rparr>))"

text \<open>\<^verbatim>\<open>native_hosted_tool_loop\<close>: the response, the trace and the retained groups.\<close>

definition native_hosted_tool_loop ::
  "hosted_env \<Rightarrow> string \<Rightarrow> json \<Rightarrow> string \<Rightarrow> json list \<Rightarrow> native_pending_tool_groups
     \<Rightarrow> hosted_response \<times> hosted_effect list \<times> native_pending_tool_groups" where
  "native_hosted_tool_loop E response_id input model tools groups =
     (case hosted_start E response_id input model tools groups of
        Inl (response, groups) \<Rightarrow> (response, [], groups)
      | Inr (rq, st) \<Rightarrow>
          let (response, st) = hosted_loop E rq 1 st in (response, hs_trace st, hs_groups st))"

section \<open>What a run does\<close>

fun posted :: "hosted_effect \<Rightarrow> json option" where
  "posted (Posted p) = Some p" | "posted _ = None"

abbreviation posts :: "hosted_effect list \<Rightarrow> json list" where
  "posts tr \<equiv> List.map_filter posted tr"

fun executed_name :: "hosted_effect \<Rightarrow> string option" where
  "executed_name (Executed name _) = Some name" | "executed_name _ = None"

text \<open>A part of a trace that only executes hosted calls of the proxy.\<close>

definition local_calls :: "hosted_env \<Rightarrow> hosted_effect list \<Rightarrow> bool" where
  "local_calls E es = list_all (\<lambda>e. is_some_and (\<lambda>name. native_hosted_call_is_local name (he_enabled E)) (executed_name e)) es"

definition searches_run :: "hosted_effect list \<Rightarrow> nat" where
  "searches_run es = length (filter (\<lambda>e. is_some_and is_web_search_tool (executed_name e)) es)"

text \<open>Executing calls extends the trace and keeps the rest of the loop state.\<close>

definition executes :: "hosted_env \<Rightarrow> hosted_effect list \<Rightarrow> hosted_state \<Rightarrow> hosted_state \<Rightarrow> bool" where
  "executes E es st st' =
     (hs_trace st' = hs_trace st @ es \<and> local_calls E es
      \<and> hs_search_calls st' = hs_search_calls st + searches_run es
      \<and> (hs_search_calls st \<le> MAX_WEB_SEARCH_LOOP_CALLS \<longrightarrow> hs_search_calls st' \<le> MAX_WEB_SEARCH_LOOP_CALLS)
      \<and> hs_payload st' = hs_payload st \<and> hs_authoritative st' = hs_authoritative st
      \<and> hs_injected st' = hs_injected st \<and> hs_groups st' = hs_groups st)"

lemma execute_call_executes:
  assumes "is_local E call"
  shows "\<exists>es. executes E es st (snd (execute_native_hosted_call E call st))"
proof (cases "is_web_search_tool (nc_name call) \<and> MAX_WEB_SEARCH_LOOP_CALLS \<le> hs_search_calls st")
  case True
  then have "executes E [] st (snd (execute_native_hosted_call E call st))"
    by (simp add: execute_native_hosted_call_def executes_def local_calls_def searches_run_def)
  then show ?thesis by blast
next
  case False
  have "executes E [Executed (nc_name call) (nc_input call)] st (snd (execute_native_hosted_call E call st))"
    using False assms
    by (auto simp: execute_native_hosted_call_def executes_def local_calls_def searches_run_def run_call_def
        record_effect_def is_local_def Let_def)
  then show ?thesis by blast
qed

lemma executes_trans: "executes E es st st1 \<Longrightarrow> executes E fs st1 st2 \<Longrightarrow> executes E (es @ fs) st st2"
  by (auto simp: executes_def local_calls_def searches_run_def)

lemma execute_hosted_calls_executes:
  "list_all (is_local E) calls \<Longrightarrow> execute_hosted_calls E calls st = (outputs, st') \<Longrightarrow> \<exists>es. executes E es st st'"
proof (induction calls arbitrary: st outputs st')
  case Nil
  then have "executes E [] st st'" by (simp add: executes_def local_calls_def searches_run_def)
  then show ?case by blast
next
  case (Cons call calls)
  obtain replay st1 where one: "execute_native_hosted_call E call st = (replay, st1)" by fastforce
  obtain outs where rest: "execute_hosted_calls E calls st1 = (outs, st')"
    using Cons.prems one by (cases "execute_hosted_calls E calls st1") auto
  obtain es where "executes E es st st1" using execute_call_executes [of E call st] Cons.prems one by auto
  moreover obtain fs where "executes E fs st1 st'" using Cons.IH [OF _ rest] Cons.prems by auto
  ultimately show ?case using executes_trans by blast
qed

lemma execute_hosted_calls_outputs:
  "execute_hosted_calls E calls st = (outputs, st') \<Longrightarrow> length outputs = length calls
   \<and> list_all (\<lambda>(call, out). output_matches call out) (zip calls outputs)"
proof (induction calls arbitrary: st outputs st')
  case (Cons call calls)
  obtain replay st1 where "execute_native_hosted_call E call st = (replay, st1)" by fastforce
  moreover obtain outs st2 where "execute_hosted_calls E calls st1 = (outs, st2)" by fastforce
  ultimately show ?case using Cons.IH Cons.prems by auto
qed simp

text \<open>A finished run: the response of an error goes with a failed request.\<close>

definition is_failure :: "hosted_response \<Rightarrow> bool" where
  "is_failure r = (case r of JsonError _ _ _ \<Rightarrow> True | UpstreamBody _ _ \<Rightarrow> True | _ \<Rightarrow> False)"

definition finishes :: "hosted_response \<Rightarrow> hosted_effect \<Rightarrow> bool" where
  "finishes response e =
     (\<exists>status lifecycle. e = Finished status lifecycle \<and> status \<in> {Completed, RequestFailed}
        \<and> (is_failure response \<longrightarrow> status = RequestFailed))"

text \<open>One turn posts once, executes hosted calls, and finishes the request when it returns.\<close>

definition turn_effects :: "hosted_env \<Rightarrow> hosted_state \<Rightarrow> hosted_effect list \<Rightarrow> hosted_effect list \<Rightarrow> hosted_state \<Rightarrow> bool" where
  "turn_effects E st es fin st' =
     (hs_trace st' = hs_trace st @ Posted (fst (native_upstream_payload (hs_payload st))) # es @ fin
      \<and> local_calls E es
      \<and> hs_search_calls st' = hs_search_calls st + searches_run es
      \<and> (hs_search_calls st \<le> MAX_WEB_SEARCH_LOOP_CALLS \<longrightarrow> hs_search_calls st' \<le> MAX_WEB_SEARCH_LOOP_CALLS))"

lemma settle_pending_fields [simp]:
  "hs_trace (settle_pending rq st) = hs_trace st" "hs_search_calls (settle_pending rq st) = hs_search_calls st"
  "hs_payload (settle_pending rq st) = hs_payload st" "hs_authoritative (settle_pending rq st) = hs_authoritative st"
  "hs_injected (settle_pending rq st) = hs_injected st"
  by (simp_all add: settle_pending_def split: option.splits)

lemma client_tool_group_effects:
  assumes "client_tool_group E rq grp body turn injected st = (response, st')"
  shows "hs_search_calls st' = hs_search_calls st \<and> \<not> is_failure response
     \<and> hs_trace st' = hs_trace st @ [Finished (turn_status (pt_completed turn)) (Some ''client_tool_handoff'')]"
  using assms
  by (auto simp: client_tool_group_def finish_hosted_def record_effect_def turn_response_def is_failure_def Let_def
      split: option.splits if_splits)

text \<open>The turn as a case distinction, for the state after the post.\<close>

definition posted_state :: "hosted_state \<Rightarrow> hosted_state" where
  "posted_state st = record_effect (Posted (fst (native_upstream_payload (hs_payload st)))) st"

lemma posted_state_fields [simp]:
  "hs_trace (posted_state st) = hs_trace st @ [Posted (fst (native_upstream_payload (hs_payload st)))]"
  "hs_search_calls (posted_state st) = hs_search_calls st" "hs_payload (posted_state st) = hs_payload st"
  "hs_authoritative (posted_state st) = hs_authoritative st" "hs_injected (posted_state st) = hs_injected st"
  "hs_groups (posted_state st) = hs_groups st"
  by (simp_all add: posted_state_def record_effect_def)

lemma hosted_round_cases:
  obtains (failed) response st1 where "hosted_round E rq iteration st = Inl (response, finish_hosted RequestFailed None st1)"
      "st1 = posted_state st \<or> st1 = settle_pending rq (posted_state st)"
  | (terminal) turn where
      "hosted_round E rq iteration st = Inl (terminal_turn E rq turn (settle_pending rq (posted_state st)))"
  | (client) turn grp where "list_all (\<lambda>c. \<not> is_local E c) (ng_calls grp)"
      "hosted_round E rq iteration st = Inl (client_tool_group E rq grp (concat (pt_frames turn)) turn
         (hs_injected st) (settle_pending rq (posted_state st)))"
  | (mixed) turn grp where
      "hosted_round E rq iteration st = Inl (mixed_group E rq grp turn (settle_pending rq (posted_state st)))"
  | (hosted) grp items where "list_all (is_local E) (ng_calls grp)" "iteration < MAX_TOOL_LOOP_ITERATIONS"
      "native_tool_call_group_from_response (jobj [(''output'', JArr items)]) = Inr (Some grp)"
      "hosted_round E rq iteration st = hosted_group E rq grp (settle_pending rq (posted_state st))"
proof -
  let ?p = "fst (native_upstream_payload (hs_payload st))"
  let ?t = "read_turn E (hq_id rq) (he_post E iteration ?p)"
  show thesis
  proof (cases ?t)
    case (Inl response)
    then show thesis by (intro failed [of response "posted_state st"]) (simp_all add: hosted_round_def posted_state_def Let_def)
  next
    case (Inr turn)
    let ?g = "native_tool_call_group_from_response (jobj [(''output'', JArr (pt_items turn))])"
    have round: "hosted_round E rq iteration st =
       (let st = settle_pending rq (posted_state st)
        in case ?g of
             Inl e \<Rightarrow> Inl (JsonError 502 ''native_tool_protocol_invalid'' e, finish_hosted RequestFailed None st)
           | Inr None \<Rightarrow> Inl (terminal_turn E rq turn st)
           | Inr (Some grp) \<Rightarrow>
               let hosted = length (filter (is_local E) (ng_calls grp))
               in if hosted = 0
                  then Inl (client_tool_group E rq grp (concat (pt_frames turn)) turn (hs_injected st) st)
                  else if hosted \<noteq> length (ng_calls grp) then Inl (mixed_group E rq grp turn st)
                  else if MAX_TOOL_LOOP_ITERATIONS \<le> iteration
                  then Inl (JsonError 500 ''native_tool_loop_iteration_limit'' iteration_limit_message,
                            finish_hosted RequestFailed None st)
                  else hosted_group E rq grp st)"
      using Inr by (simp add: hosted_round_def posted_state_def Let_def)
    show thesis
    proof (cases ?g)
      case (Inl e)
      then show thesis by (intro failed [of _ "settle_pending rq (posted_state st)"]) (simp_all add: round Let_def)
    next
      case g: (Inr og)
      show thesis
      proof (cases og)
        case None
        then show thesis using g by (intro terminal) (simp add: round Let_def)
      next
        case (Some grp)
        let ?n = "length (filter (is_local E) (ng_calls grp))"
        have all: "?n = length (ng_calls grp) \<longleftrightarrow> list_all (is_local E) (ng_calls grp)"
          by (metis (no_types, lifting) length_filter_less list_all_iff nat_less_le filter_True)
        consider "?n = 0" | "?n \<noteq> 0" "?n \<noteq> length (ng_calls grp)"
          | "?n \<noteq> 0" "?n = length (ng_calls grp)" "MAX_TOOL_LOOP_ITERATIONS \<le> iteration"
          | "?n \<noteq> 0" "?n = length (ng_calls grp)" "iteration < MAX_TOOL_LOOP_ITERATIONS" by linarith
        then show thesis
        proof cases
          case 1
          then show thesis using g Some
            by (intro client [of grp turn]) (auto simp: round Let_def list_all_iff filter_empty_conv)
        next
          case 2
          then show thesis using g Some by (intro mixed [of grp turn]) (simp add: round Let_def)
        next
          case 3
          then show thesis using g Some
            by (intro failed [of _ "settle_pending rq (posted_state st)"]) (simp_all add: round Let_def)
        next
          case 4
          then show thesis using g Some all by (intro hosted [of grp "pt_items turn"]) (simp_all add: round Let_def)
        qed
      qed
    qed
  qed
qed

lemma hosted_round_effects:
  "(\<exists>response st' es e. hosted_round E rq iteration st = Inl (response, st') \<and> turn_effects E st es [e] st' \<and> finishes response e)
   \<or> (\<exists>st' es. hosted_round E rq iteration st = Inr st' \<and> turn_effects E st es [] st')"
proof (cases rule: hosted_round_cases [of E rq iteration st])
  case (failed response st1)
  then have "turn_effects E st [] [Finished RequestFailed None] (finish_hosted RequestFailed None st1)"
    by (auto simp: turn_effects_def finish_hosted_def record_effect_def local_calls_def searches_run_def)
  with failed show ?thesis by (fastforce simp: finishes_def)
next
  case (terminal turn)
  have "turn_effects E st [] [Finished (turn_status (pt_completed turn)) None]
      (snd (terminal_turn E rq turn (settle_pending rq (posted_state st))))"
    by (auto simp: turn_effects_def terminal_turn_def finish_hosted_def record_effect_def local_calls_def searches_run_def Let_def)
  moreover have "finishes (fst (terminal_turn E rq turn s)) (Finished (turn_status (pt_completed turn)) None)" for s
    by (auto simp: finishes_def terminal_turn_def turn_response_def is_failure_def turn_status_def Let_def split: option.splits)
  ultimately show ?thesis using terminal by (metis prod.collapse)
next
  case (client turn grp)
  obtain response st' where run: "client_tool_group E rq grp (concat (pt_frames turn)) turn (hs_injected st)
      (settle_pending rq (posted_state st)) = (response, st')" by fastforce
  note c = client_tool_group_effects [OF this]
  then have "turn_effects E st [] [Finished (turn_status (pt_completed turn)) (Some ''client_tool_handoff'')] st'"
    by (simp add: turn_effects_def local_calls_def searches_run_def)
  with client run c show ?thesis by (fastforce simp: finishes_def turn_status_def)
next
  case (mixed turn grp)
  let ?st = "settle_pending rq (posted_state st)"
  obtain outputs st1 where ex: "execute_hosted_calls E (filter (is_local E) (ng_calls grp)) ?st = (outputs, st1)" by fastforce
  moreover have "list_all (is_local E) (filter (is_local E) (ng_calls grp))" by (simp add: list_all_iff)
  ultimately obtain es where es: "executes E es ?st st1" using execute_hosted_calls_executes by blast
  obtain body retained where m: "mixed_group E rq grp turn ?st = client_tool_group E rq grp body turn retained st1"
    by (simp add: mixed_group_def ex Let_def)
  obtain response st' where run: "client_tool_group E rq grp body turn retained st1 = (response, st')" by fastforce
  note c = client_tool_group_effects [OF this]
  with es have "turn_effects E st es [Finished (turn_status (pt_completed turn)) (Some ''client_tool_handoff'')] st'"
    by (auto simp: turn_effects_def executes_def)
  with mixed m run c show ?thesis by (fastforce simp: finishes_def turn_status_def)
next
  case (hosted grp items)
  let ?st = "settle_pending rq (posted_state st)"
  obtain outputs st1 where ex: "execute_hosted_calls E (ng_calls grp) ?st = (outputs, st1)" by fastforce
  then obtain es where es: "executes E es ?st st1" using execute_hosted_calls_executes [OF hosted(1)] by blast
  obtain n where "append_complete_native_tool_group (hs_authoritative st1) grp outputs = Inr n"
    using execute_hosted_calls_outputs [OF ex] by (simp add: append_complete_native_tool_group_def)
  then obtain st' where "hosted_group E rq grp ?st = Inr st'" "hs_trace st' = hs_trace st1" "hs_search_calls st' = hs_search_calls st1"
    by (simp add: hosted_group_def ex)
  moreover from this es have "turn_effects E st es [] st'" by (auto simp: turn_effects_def executes_def)
  ultimately show ?thesis using hosted(4) by auto
qed

section \<open>A whole run\<close>

lemma posts_append [simp]: "posts (xs @ ys) = posts xs @ posts ys"
  by (simp add: map_filter_def)

lemma local_calls_no_posts:
  assumes "local_calls E es"
  shows "posts es = []"
proof -
  have "posted e = None" if "e \<in> set es" for e
    using assms that by (cases e) (auto simp: local_calls_def list_all_iff)
  then show ?thesis by (simp add: map_filter_def filter_empty_conv)
qed

definition run_ok :: "hosted_env \<Rightarrow> nat \<Rightarrow> hosted_state \<Rightarrow> hosted_response \<Rightarrow> hosted_state \<Rightarrow> bool" where
  "run_ok E n st response st' =
     (\<exists>es e. hs_trace st' = hs_trace st @ es @ [e] \<and> finishes response e
        \<and> list_all (\<lambda>e. posted e \<noteq> None \<or> is_some_and (\<lambda>name. native_hosted_call_is_local name (he_enabled E)) (executed_name e)) es
        \<and> 0 < length (posts es) \<and> length (posts es) \<le> n
        \<and> hs_search_calls st' = hs_search_calls st + searches_run es
        \<and> (hs_search_calls st \<le> MAX_WEB_SEARCH_LOOP_CALLS \<longrightarrow> hs_search_calls st' \<le> MAX_WEB_SEARCH_LOOP_CALLS))"

lemma turn_effects_facts:
  assumes "turn_effects E st es fin st'"
  shows "posts (Posted p # es) = [p]" "searches_run (Posted p # es) = searches_run es"
    "list_all (\<lambda>e. posted e \<noteq> None \<or> is_some_and (\<lambda>name. native_hosted_call_is_local name (he_enabled E)) (executed_name e)) (Posted p # es)"
  using assms local_calls_no_posts [of E es]
  by (auto simp: turn_effects_def map_filter_simps searches_run_def local_calls_def list_all_iff)

lemma hosted_loop_run:
  "1 \<le> iteration \<Longrightarrow> iteration \<le> MAX_TOOL_LOOP_ITERATIONS \<Longrightarrow> hosted_loop E rq iteration st = (response, st') \<Longrightarrow>
   run_ok E (Suc MAX_TOOL_LOOP_ITERATIONS - iteration) st response st'"
proof (induction E rq iteration st arbitrary: response st' rule: hosted_loop.induct)
  case (1 E rq iteration st)
  let ?p = "fst (native_upstream_payload (hs_payload st))"
  from hosted_round_effects [of E rq iteration st] show ?case
  proof (elim disjE exE conjE)
    fix r s es e
    assume round: "hosted_round E rq iteration st = Inl (r, s)" and eff: "turn_effects E st es [e] s" and fin: "finishes r e"
    from 1 round have "r = response" "s = st'" by (simp_all add: hosted_loop.simps [of E rq iteration])
    with eff fin 1 turn_effects_facts [OF eff] show ?thesis
      unfolding run_ok_def turn_effects_def
      by (intro exI [of _ "Posted ?p # es"] exI [of _ e]) auto
  next
    fix s es
    assume round: "hosted_round E rq iteration st = Inr s" and eff: "turn_effects E st es [] s"
    have lt: "Suc iteration \<le> MAX_TOOL_LOOP_ITERATIONS" using hosted_round_below [OF round] by simp
    have "hosted_loop E rq (Suc iteration) s = (response, st')" using 1 round by (simp add: hosted_loop.simps [of E rq iteration])
    from 1(1) [OF round _ lt this] have "run_ok E (Suc MAX_TOOL_LOOP_ITERATIONS - Suc iteration) s response st'" by simp
    then obtain fs e where "hs_trace st' = hs_trace s @ fs @ [e]" "finishes response e"
      "list_all (\<lambda>e. posted e \<noteq> None \<or> is_some_and (\<lambda>name. native_hosted_call_is_local name (he_enabled E)) (executed_name e)) fs"
      "length (posts fs) \<le> Suc MAX_TOOL_LOOP_ITERATIONS - Suc iteration"
      "hs_search_calls st' = hs_search_calls s + searches_run fs"
      "hs_search_calls s \<le> MAX_WEB_SEARCH_LOOP_CALLS \<longrightarrow> hs_search_calls st' \<le> MAX_WEB_SEARCH_LOOP_CALLS"
      by (auto simp: run_ok_def)
    with eff lt turn_effects_facts [OF eff] show ?thesis
      unfolding run_ok_def turn_effects_def
      by (intro exI [of _ "(Posted ?p # es) @ fs"] exI [of _ e]) (auto simp: searches_run_def)
  qed
qed

section \<open>The rounds are replayed\<close>

text \<open>A complete round: the output of one provider turn and one matching output for each of its calls.\<close>

definition complete_round :: "json list \<Rightarrow> bool" where
  "complete_round items =
     (\<exists>grp outputs. items = ng_provider_output grp @ outputs
        \<and> native_tool_call_group_from_response (jobj [(''output'', JArr (ng_provider_output grp))]) = Inr (Some grp)
        \<and> length outputs = length (ng_calls grp)
        \<and> list_all (\<lambda>(call, out). output_matches call out) (zip (ng_calls grp) outputs))"

definition carries :: "json \<Rightarrow> json list \<Rightarrow> json \<Rightarrow> bool" where
  "carries payload items p =
     (get_arr p ''input'' = Some (fst (upstream_items items)) \<and> (\<forall>k. k \<noteq> ''input'' \<longrightarrow> jget p k = jget payload k))"

lemma upstream_payload_carries:
  "get_arr payload ''input'' = Some items \<Longrightarrow> carries payload items (fst (native_upstream_payload payload))"
  by (simp add: carries_def native_upstream_payload_def case_prod_unfold Let_def)
    (simp add: get_arr_def bind_eq_Some_conv as_array_Some)

lemma carries_same: "\<forall>k. k \<noteq> ''input'' \<longrightarrow> jget payload k = jget payload' k \<Longrightarrow> carries payload items p = carries payload' items p"
  by (auto simp: carries_def)

lemma posts_of_turn:
  assumes "turn_effects E st es fin st'" "posts fin = []"
  shows "posts (hs_trace st') = posts (hs_trace st) @ [fst (native_upstream_payload (hs_payload st))]"
  using assms local_calls_no_posts [of E es] by (simp add: turn_effects_def map_filter_simps)

lemma hosted_round_continues:
  assumes "hosted_round E rq iteration st = Inr st'" "get_arr (hs_payload st) ''input'' = Some (hs_authoritative st)"
  shows "\<exists>items. complete_round items \<and> hs_authoritative st' = hs_authoritative st @ items
     \<and> get_arr (hs_payload st') ''input'' = Some (hs_authoritative st')
     \<and> (\<forall>k. k \<noteq> ''input'' \<longrightarrow> jget (hs_payload st') k = jget (hs_payload st) k)
     \<and> hs_injected st' = hs_injected st @ [\<lparr>inj_offset = client_input_len rq, inj_items = items\<rparr>]"
proof (cases rule: hosted_round_cases [of E rq iteration st])
  case (hosted grp items)
  let ?st = "settle_pending rq (posted_state st)"
  obtain outputs st1 where ex: "execute_hosted_calls E (ng_calls grp) ?st = (outputs, st1)" by fastforce
  then obtain es where es: "executes E es ?st st1" using execute_hosted_calls_executes [OF hosted(1)] by blast
  have prov: "ng_provider_output grp = items"
    using hosted(3) by (auto simp: native_tool_call_group_from_response_def get_arr_def split: sum.splits if_splits)
  have "complete_round (ng_provider_output grp @ outputs)"
    unfolding complete_round_def using execute_hosted_calls_outputs [OF ex] hosted(3) prov by blast
  moreover have "append_complete_native_tool_group (hs_authoritative st1) grp outputs
      = Inr (hs_authoritative st1 @ ng_provider_output grp @ outputs)"
    using execute_hosted_calls_outputs [OF ex] by (simp add: append_complete_native_tool_group_def)
  moreover obtain m where "hs_payload st = JObj m" using assms(2) by (cases "hs_payload st") (auto simp: get_arr_def)
  ultimately show ?thesis
    using assms(1) hosted(4) es
    by (intro exI [of _ "ng_provider_output grp @ outputs"])
      (auto simp: hosted_group_def ex executes_def get_arr_def map_simps)
qed (use assms(1) in auto)

lemma hosted_loop_rounds:
  assumes "get_arr (hs_payload st) ''input'' = Some (hs_authoritative st)" "hosted_loop E rq iteration st = (response, st')"
  shows "\<exists>rounds ps. posts (hs_trace st') = posts (hs_trace st) @ ps \<and> length ps = Suc (length rounds)
     \<and> list_all complete_round rounds
     \<and> (\<forall>i < length ps. carries (hs_payload st) (hs_authoritative st @ concat (take i rounds)) (ps ! i))"
  using assms
proof (induction E rq iteration st arbitrary: response st' rule: hosted_loop.induct)
  case (1 E rq iteration st)
  let ?p = "fst (native_upstream_payload (hs_payload st))"
  have p: "carries (hs_payload st) (hs_authoritative st) ?p" using 1 upstream_payload_carries by blast
  show ?case
  proof (cases "hosted_round E rq iteration st")
    case (Inl result)
    then have "result = (response, st')" using 1 by (simp add: hosted_loop.simps [of E rq iteration])
    with Inl obtain es e where eff: "turn_effects E st es [e] st'" "finishes response e"
      using hosted_round_effects [of E rq iteration st] by auto
    have "posts [e] = []" using eff(2) by (auto simp: finishes_def map_filter_simps)
    from posts_of_turn [OF eff(1) this] p show ?thesis
      by (intro exI [of _ "[]"] exI [of _ "[?p]"]) simp
  next
    case (Inr s)
    then obtain es where eff: "turn_effects E st es [] s" using hosted_round_effects [of E rq iteration st] by auto
    have loop: "hosted_loop E rq (Suc iteration) s = (response, st')" using 1 Inr by (simp add: hosted_loop.simps [of E rq iteration])
    obtain items where items: "complete_round items" "hs_authoritative s = hs_authoritative st @ items"
      "get_arr (hs_payload s) ''input'' = Some (hs_authoritative s)" "\<forall>k. k \<noteq> ''input'' \<longrightarrow> jget (hs_payload s) k = jget (hs_payload st) k"
      using hosted_round_continues [OF Inr 1(2)] by blast
    obtain rounds ps where ih: "posts (hs_trace st') = posts (hs_trace s) @ ps" "length ps = Suc (length rounds)"
      "list_all complete_round rounds"
      "\<forall>i < length ps. carries (hs_payload s) (hs_authoritative s @ concat (take i rounds)) (ps ! i)"
      using 1(1) [OF Inr items(3) loop] by blast
    have "posts (hs_trace st') = posts (hs_trace st) @ ?p # ps"
      using ih(1) posts_of_turn [OF eff] by (simp add: map_filter_simps)
    moreover have "\<forall>i < length (?p # ps). carries (hs_payload st) (hs_authoritative st @ concat (take i (items # rounds))) ((?p # ps) ! i)"
      using ih(4) p items(2) carries_same [OF items(4)] by (auto simp: nth_Cons' take_Cons' less_Suc_eq_0_disj)
    ultimately show ?thesis using ih(2,3) items(1)
      by (intro exI [of _ "items # rounds"] exI [of _ "?p # ps"]) auto
  qed
qed

section \<open>Properties\<close>

text \<open>C2: Every hosted request comes to an end that the store and the client both see. Once the request is
accepted and checkpointed, the loop returns a response after at most eight upstream calls; exactly one
effect of the run, its last one, finishes the request, as failed whenever the client gets an error; in
between it only posts and executes calls that belong to CodeSeeX, never a call of the client; and it runs
at most three web searches.
\<close>

theorem hosted_run_finishes:
  assumes "native_payload input model tools = Inr payload" "he_checkpoint E = None"
    and "native_hosted_tool_loop E response_id input model tools groups = (response, tr, groups')"
  shows "\<exists>es e. tr = es @ [e] \<and> finishes response e
       \<and> list_all (\<lambda>e. posted e \<noteq> None \<or> is_some_and (\<lambda>name. native_hosted_call_is_local name (he_enabled E)) (executed_name e)) es
       \<and> 1 \<le> length (posts es) \<and> length (posts es) \<le> MAX_TOOL_LOOP_ITERATIONS
       \<and> searches_run tr \<le> MAX_WEB_SEARCH_LOOP_CALLS"
proof -
  obtain rq st where start: "hosted_start E response_id input model tools groups = Inr (rq, st)"
    "hs_trace st = []" "hs_search_calls st = 0"
    using assms(1,2) by (auto simp: hosted_start_def case_prod_unfold Let_def)
  obtain st' where loop: "hosted_loop E rq 1 st = (response, st')" "tr = hs_trace st'"
    using assms(3) start(1) by (auto simp: native_hosted_tool_loop_def case_prod_unfold Let_def prod_eq_iff)
  have "run_ok E MAX_TOOL_LOOP_ITERATIONS st response st'"
    using hosted_loop_run [OF _ _ loop(1)] by (simp add: MAX_TOOL_LOOP_ITERATIONS_def)
  moreover have "searches_run (es @ [e]) = searches_run es" if "finishes response e" for es e
    using that by (auto simp: searches_run_def finishes_def)
  ultimately show ?thesis
    using loop(2) start(2,3) unfolding run_ok_def by (auto simp: Suc_le_eq)
qed


text \<open>A retained round is lost when a later call of the same request fails. The round that a request
continues is settled when its first upstream body has been read, although the loop may go on: when the
first turn only calls hosted tools and the connection of the second call fails, the client gets an error and
the request is stored as failed, but the round is no longer registered, so that a retry cannot replay it.
\<close>

lemma settled_round_lost:
  assumes "hosted_round E rq 1 st = Inr st1" "hq_pending rq = Some c"
    "he_post E 2 (fst (native_upstream_payload (hs_payload st1))) = ConnectionFailed e"
  defines "result \<equiv> hosted_loop E rq 1 st"
  shows "fst result = JsonError 502 ''native_upstream_connection_failed'' e
       \<and> last (hs_trace (snd result)) = Finished RequestFailed None
       \<and> map_of (npg_groups (hs_groups (snd result))) (pending_response_id c) = None"
proof -
  have "hs_groups st1 = hs_groups (settle_pending rq (posted_state st))"
  proof (cases rule: hosted_round_cases [of E rq 1 st])
    case (hosted grp items)
    obtain outputs st2 where ex: "execute_hosted_calls E (ng_calls grp) (settle_pending rq (posted_state st)) = (outputs, st2)" by fastforce
    then obtain es where "executes E es (settle_pending rq (posted_state st)) st2" using execute_hosted_calls_executes [OF hosted(1)] by blast
    with assms(1) hosted(4) show ?thesis by (auto simp: hosted_group_def ex executes_def split: sum.splits)
  qed (use assms(1) in auto)
  then have "map_of (npg_groups (hs_groups st1)) (pending_response_id c) = None"
    using assms(2) by (simp add: settle_pending_def settle_def map_simps)
  moreover have "hosted_round E rq 2 st1 = Inl (JsonError 502 ''native_upstream_connection_failed'' e,
      finish_hosted RequestFailed None (posted_state st1))"
    using assms(3) by (simp add: hosted_round_def read_turn_def posted_state_def Let_def)
  ultimately show ?thesis
    using assms(1) unfolding result_def
    by (simp add: hosted_loop.simps [of E rq "Suc 0"] hosted_loop.simps [of E rq "Suc (Suc 0)"] numeral_2_eq_2
        finish_hosted_def record_effect_def)
qed

text \<open>The repair of \<^verbatim>\<open>apply_patch\<close> inputs misses bodies that are not streamed. A Responses body has its items in
its own \<^verbatim>\<open>output\<close>; the repair that is run on it only looks at an \<^verbatim>\<open>item\<close> and at the output of a \<^verbatim>\<open>response\<close> member,
so the body reaches the client and the store unrepaired, while the same response in the completed event of a
stream has all its items repaired.
\<close>

lemma body_patch_not_repaired:
  assumes "get_arr native ''output'' = Some items" "jget native ''item'' = None" "jget native ''response'' = None"
  shows "normalize_apply_patch_event_payload L native = (native, empty_tally)
       \<and> Option.bind (jget (fst (normalize_apply_patch_event_payload L
             (jobj [(''type'', JStr ''response.completed''), (''response'', native)]))) ''response'')
           (\<lambda>r. get_arr r ''output'') = Some (fst (normalize_items L items empty_tally))"
proof -
  let ?e = "jobj [(''type'', JStr ''response.completed''), (''response'', native)]"
  have "Option.bind (jget ?e ''response'') (\<lambda>r. get_arr r ''output'') = Some items" "jget ?e ''item'' = None"
    using assms(1) by simp_all
  then have "fst (normalize_apply_patch_event_payload L ?e)
      = jmodify ''response'' (jmodify ''output'' (\<lambda>_. JArr (fst (normalize_items L items empty_tally)))) ?e"
    by (simp add: normalize_apply_patch_event_payload_def case_prod_unfold Let_def)
  moreover have "Option.bind (jget (jmodify ''response'' (jmodify ''output'' (\<lambda>_. JArr xs)) ?e) ''response'') (\<lambda>r. get_arr r ''output'') = Some xs"
    for xs using assms(1) by (simp add: get_arr_def bind_eq_Some_conv as_array_Some)
  ultimately show ?thesis
    using assms(2,3) by (simp add: normalize_apply_patch_event_payload_def)
qed

section \<open>An example run\<close>

definition demo_call_item :: json where
  "demo_call_item = jobj [(''type'', JStr ''function_call''), (''call_id'', JStr ''c1''), (''name'', JStr ''web_search''),
     (''arguments'', JStr ''q''), (''status'', JStr ''completed'')]"

definition search_call :: native_tool_call where
  "search_call = \<lparr>nc_call_id = ''c1'', nc_name = ''web_search'', nc_input = ''q'', nc_kind = FunctionCall\<rparr>"

definition hosted_demo_turn :: "json list \<Rightarrow> json" where
  "hosted_demo_turn items = jobj [(''status'', JStr ''completed''), (''output'', JArr items)]"

text \<open>The provider asks for one search; its next body, or the failure of the second call, ends the run.\<close>

definition hosted_demo_env :: "native_reply \<Rightarrow> hosted_env" where
  "hosted_demo_env second =
     \<lparr>he_lib = \<lparr>json_to_string = (\<lambda>_. ''out''), json_from_str = (\<lambda>s. if s = ''call'' then Some (hosted_demo_turn [demo_call_item])
          else if s = ''answer'' then Some (hosted_demo_turn []) else None), b64_decode_utf8 = (\<lambda>_. None), sha256 = (\<lambda>s. s)\<rparr>,
      he_post = (\<lambda>n _. if n = 1 then Body (Inr ''call'') else second),
      he_execute = (\<lambda>_ _ _. ''found''), he_action = (\<lambda>_. JNull), he_uuid = nat_str, he_now = 0, he_checkpoint = None,
      he_parse_error = (\<lambda>s. s), he_enabled = [], he_mode = None\<rparr>"

definition hosted_demo_input :: json where
  "hosted_demo_input = jobj [(''input'', JArr [])]"

definition demo_payload :: "json list \<Rightarrow> json" where
  "demo_payload items = jobj [(''input'', JArr items), (''model'', JStr ''m''), (''stream'', JBool False)]"

definition demo_continuation :: native_pending_continuation where
  "demo_continuation = \<lparr>pending_response_id = ''r0'', merged_input = [], cont_injected_items = []\<rparr>"

definition demo_state :: hosted_state where
  "demo_state = \<lparr>hs_payload = demo_payload [], hs_authoritative = [], hs_injected = [], hs_search_calls = 0,
     hs_searches = [], hs_messages = [], hs_groups = no_groups, hs_trace = []\<rparr>"

lemma demo_start:
  "native_payload hosted_demo_input ''m'' [] = Inr (demo_payload [])"
  "hosted_start (hosted_demo_env second) ''r1'' hosted_demo_input ''m'' [] no_groups
     = Inr (\<lparr>hq_id = ''r1'', hq_input = hosted_demo_input, hq_pending = None\<rparr>, demo_state)"
proof -
  show payload: "native_payload hosted_demo_input ''m'' [] = Inr (demo_payload [])" by code_simp
  have "continuation_for 0 hosted_demo_input no_groups = (None, no_groups)"
    by (simp add: continuation_for_def prune_expired_def no_groups_def matching_group_def hosted_demo_input_def trimmed_nonempty_def
        request_anchor_def installation_id_of_def get_str_def)
  moreover have "fst (reconcile_grouped_tool_namespaces L (demo_payload [])) = demo_payload []" for L
    by (simp add: reconcile_grouped_tool_namespaces_def demo_payload_def jobj_def grouped_tool_occurrences_def
        reconcile_start_def get_arr_def)
  moreover have "fst (repair_provider_tool_schemas (demo_payload [])) = demo_payload []"
    by (simp add: repair_provider_tool_schemas_def demo_payload_def jobj_def get_arr_def repair_tool_declarations_def)
  ultimately show "hosted_start (hosted_demo_env second) ''r1'' hosted_demo_input ''m'' [] no_groups
     = Inr (\<lparr>hq_id = ''r1'', hq_input = hosted_demo_input, hq_pending = None\<rparr>, demo_state)"
    using payload
    by (simp add: hosted_start_def resolve_native_pending_input_def hosted_demo_env_def demo_state_def)
      (simp add: demo_payload_def hosted_demo_input_def get_arr_def)
qed

lemma demo_round:
  assumes "rq = \<lparr>hq_id = ''r1'', hq_input = hosted_demo_input, hq_pending = p\<rparr>"
  shows "\<exists>st1. hosted_round (hosted_demo_env second) rq 1 demo_state = Inr st1"
proof -
  have "read_turn (hosted_demo_env second) i (he_post (hosted_demo_env second) 1 q)
      = Inr \<lparr>pt_frames = [''call''], pt_items = [demo_call_item], pt_completed = True, pt_is_sse = False\<rparr>" for i q
    by (simp add: read_turn_def hosted_demo_env_def hosted_demo_turn_def get_arr_def)
  moreover have "native_tool_call_group_from_response (jobj [(''output'', JArr [demo_call_item])])
      = Inr (Some \<lparr>ng_provider_output = [demo_call_item], ng_calls = [search_call]\<rparr>)"
    by code_simp
  moreover have "is_local (hosted_demo_env second) search_call"
    unfolding is_local_def native_hosted_call_is_local_def by (rule disjI1) code_simp
  moreover have "\<exists>st1. hosted_group E rq \<lparr>ng_provider_output = xs, ng_calls = cs\<rparr> st = Inr st1" for E xs cs st
  proof -
    obtain outputs st1 where ex: "execute_hosted_calls E cs st = (outputs, st1)" by fastforce
    from execute_hosted_calls_outputs [OF ex] show ?thesis by (simp add: hosted_group_def ex append_complete_native_tool_group_def)
  qed
  ultimately show ?thesis
    using assms by (simp add: hosted_round_def Let_def MAX_TOOL_LOOP_ITERATIONS_def)
qed

lemma hosted_run_finishes_witness:
  "\<exists>response tr groups' es e. native_hosted_tool_loop (hosted_demo_env (Body (Inr ''answer''))) ''r1'' hosted_demo_input ''m'' [] no_groups
       = (response, tr, groups') \<and> tr = es @ [e] \<and> finishes response e \<and> 1 \<le> length (posts es)"
proof -
  obtain response tr groups' where run: "native_hosted_tool_loop (hosted_demo_env (Body (Inr ''answer''))) ''r1'' hosted_demo_input ''m'' [] no_groups
       = (response, tr, groups')" by (metis prod_cases3)
  have "he_checkpoint (hosted_demo_env (Body (Inr ''answer''))) = None" by (simp add: hosted_demo_env_def)
  from hosted_run_finishes [OF demo_start(1) this run] run show ?thesis by blast
qed


end
