(* ===== verification/Ascii_Text.thy ===== *)
theory Ascii_Text
  imports Prelude
begin

text \<open>
  Lemmas on texts: the characters of a part of a text, trimming, and ASCII texts.
\<close>

section \<open>Trimming\<close>

lemma chars_concat_drop: "chars (concat (drop n (chars s))) = drop n (chars s)"
proof (induction s arbitrary: n rule: chars.induct)
  case (2 c cs)
  then show ?case by (cases n) simp_all
qed simp

lemma starts_char_dropWhile: "starts_char (dropWhile is_cont cs)"
  by (metis hd_dropWhile list.case(1) list.case(2) list.collapse starts_char_def)

lemma concat_take_chars_take: "\<exists>k. concat (take n (chars s)) = take k s"
  by (metis append_eq_conv_conj append_take_drop_id concat_append concat_chars)

lemma chars_concat_take: "chars (concat (take n (chars s))) = take n (chars s)"
proof (induction s arbitrary: n rule: chars.induct)
  case (2 c cs)
  show ?case
  proof (cases n)
    case (Suc m)
    let ?rest = "concat (take m (chars (dropWhile is_cont cs)))"
    obtain k where "?rest = take k (dropWhile is_cont cs)" using concat_take_chars_take by blast
    then have "starts_char ?rest" by (simp add: starts_char_dropWhile starts_char_take)
    then have "chars ((c # takeWhile is_cont cs) @ ?rest) = chars (c # takeWhile is_cont cs) @ chars ?rest"
      by (rule chars_append)
    moreover have "chars (c # takeWhile is_cont cs) = [c # takeWhile is_cont cs]"
    proof -
      have all: "\<forall>x \<in> set (takeWhile is_cont cs). is_cont x" by (blast dest: set_takeWhileD)
      then have "takeWhile is_cont (takeWhile is_cont cs) = takeWhile is_cont cs"
        and "dropWhile is_cont (takeWhile is_cont cs) = []"
        by (simp_all only: takeWhile_eq_all_conv dropWhile_eq_Nil_conv)
      then show ?thesis by (simp only: chars.simps)
    qed
    ultimately show ?thesis using 2 Suc by simp
  qed simp
qed simp

lemma chars_trim_start: "chars (trim_start s) = dropWhile is_whitespace (chars s)"
  by (simp add: trim_start_def dropWhile_eq_drop chars_concat_drop)

lemma rev_dropWhile_rev: "rev (dropWhile p (rev xs)) = take (length (dropWhile p (rev xs))) xs"
proof -
  have "dropWhile p (rev xs) = drop (length (takeWhile p (rev xs))) (rev xs)" by (rule dropWhile_eq_drop)
  then show ?thesis by (simp add: rev_drop)
qed

lemma chars_trim_end: "chars (trim_end s) = rev (dropWhile is_whitespace (rev (chars s)))"
  unfolding trim_end_def rev_dropWhile_rev by (rule chars_concat_take)

text \<open>Trimming drops the blanks at both ends, so that a trimmed text stays the same.\<close>

lemma hd_trimmed_list:
  assumes "rev (dropWhile p (rev (dropWhile p xs))) \<noteq> []"
  shows "\<not> p (hd (rev (dropWhile p (rev (dropWhile p xs)))))"
proof -
  let ?d = "dropWhile p xs"
  obtain ys where "rev ?d = ys @ dropWhile p (rev ?d)" by (metis takeWhile_dropWhile_id)
  then have "?d = rev (dropWhile p (rev ?d)) @ rev ys" by (metis rev_append rev_rev_ident)
  then have "hd (rev (dropWhile p (rev ?d))) = hd ?d \<and> ?d \<noteq> []" using assms by (metis append_is_Nil_conv hd_append2)
  then show ?thesis using hd_dropWhile [of p xs] by auto
qed

lemma dropWhile_id: "s = [] \<or> \<not> p (hd s) \<Longrightarrow> dropWhile p s = s"
  by (cases s) auto

lemma trim_trim: "trim (trim s) = trim s"
proof -
  let ?t = "rev (dropWhile is_whitespace (rev (dropWhile is_whitespace (chars s))))"
  have t: "chars (trim s) = ?t" by (simp add: trim_def chars_trim_end chars_trim_start)
  have "dropWhile is_whitespace ?t = ?t" using hd_trimmed_list [of is_whitespace "chars s"] by (intro dropWhile_id) blast
  then have "trim_start (trim s) = trim s" unfolding trim_start_def t by (metis concat_chars t)
  moreover have "dropWhile is_whitespace (rev ?t) = rev ?t" by (simp add: dropWhile_idem)
  then have "trim_end (trim s) = trim s" unfolding trim_end_def t by (metis concat_chars rev_rev_ident t)
  ultimately show ?thesis unfolding trim_def by metis
qed

section \<open>ASCII text\<close>

lemma ascii_not_cont: "is_ascii c \<Longrightarrow> \<not> is_cont c"
  by (cases c) auto

lemma chars_ascii: "list_all is_ascii s \<Longrightarrow> chars s = map (\<lambda>c. [c]) s"
proof (induction s rule: chars.induct)
  case (2 c cs)
  then have "takeWhile is_cont cs = []" and "dropWhile is_cont cs = cs"
    by (cases cs; auto dest: ascii_not_cont)+
  with 2 show ?case by simp
qed simp

abbreviation blank_char :: "char \<Rightarrow> bool" where
  "blank_char c \<equiv> is_whitespace [c]"

lemma concat_single [simp]: "concat (map (\<lambda>c. [c]) s) = s"
  by (induction s) auto

lemma dropWhile_single: "dropWhile is_whitespace (map (\<lambda>c. [c]) s) = map (\<lambda>c. [c]) (dropWhile blank_char s)"
  by (induction s) auto

lemma trim_ascii:
  assumes "list_all is_ascii s"
  shows "trim s = rev (dropWhile blank_char (rev (dropWhile blank_char s)))"
proof -
  have start: "trim_start s = dropWhile blank_char s"
    using assms by (simp add: trim_start_def chars_ascii dropWhile_single)
  have "list_all is_ascii (dropWhile blank_char s)"
    using assms by (auto simp: list_all_iff dest: set_dropWhileD)
  then have "trim_end (dropWhile blank_char s) = concat (rev (map (\<lambda>c. [c]) (dropWhile blank_char (rev (dropWhile blank_char s)))))"
    by (simp add: trim_end_def chars_ascii rev_map dropWhile_single)
  then show ?thesis by (simp add: trim_def start rev_map)
qed

lemma trim_ascii_ascii: "list_all is_ascii s \<Longrightarrow> list_all is_ascii (trim s)"
  by (auto simp: trim_ascii list_all_iff dest!: set_dropWhileD)

text \<open>A text is trimmed when it neither starts nor ends with a blank.\<close>

definition trimmed :: "string \<Rightarrow> bool" where
  "trimmed s = (s = [] \<or> \<not> blank_char (hd s) \<and> \<not> blank_char (last s))"

lemma trim_trimmed: "list_all is_ascii s \<Longrightarrow> trimmed s \<Longrightarrow> trim s = s"
  by (auto simp: trim_ascii trimmed_def dropWhile_id hd_rev)

lemma trimmed_trim:
  assumes "list_all is_ascii s"
  shows "trimmed (trim s)"
proof -
  let ?d = "dropWhile blank_char s" and ?r = "dropWhile blank_char (rev (dropWhile blank_char s))"
  have last: "?r \<noteq> [] \<Longrightarrow> \<not> blank_char (hd ?r)" by (rule hd_dropWhile)
  obtain ys where split: "rev ?d = ys @ ?r" by (metis takeWhile_dropWhile_id)
  then have "?d = rev ?r @ rev ys" by (metis rev_append rev_rev_ident)
  then have "?r \<noteq> [] \<Longrightarrow> hd (rev ?r) = hd ?d \<and> ?d \<noteq> []" by (metis Nil_is_rev_conv hd_append2 append_is_Nil_conv)
  then have first: "?r \<noteq> [] \<Longrightarrow> \<not> blank_char (hd (rev ?r))" using hd_dropWhile [of blank_char s] by auto
  show ?thesis using first last by (auto simp: trimmed_def trim_ascii [OF assms] last_rev)
qed

end
