(* ===== verification/Upstream_Auth.thy ===== *)
theory Upstream_Auth
  imports Access Ascii_Text
begin

text \<open>
  What a request to the provider is addressed and signed with: the upstream addresses of
  \<^verbatim>\<open>crates/core/src/urls.rs\<close>, and of \<^verbatim>\<open>crates/proxy/src/upstream.rs\<close> the transport, the identity headers of the
  client, the choice of the credential and the request that is sent.

  The URL crate and the test of a header value are the parameter \<open>upstream_lib\<close>; sending the request is not
  part of the model, so that posting is the request it builds. The credentials that are stored outside the
  program (the operating system's key store, the Codex authentication file) are arguments.
\<close>

section \<open>Addresses\<close>

record api_url =
  au_scheme :: string
  au_username :: string
  au_password :: "string option"
  au_host :: "string option"
  au_port :: "nat option"
  au_path :: string
  au_query :: "string option"
  au_fragment :: "string option"

record upstream_lib =
  ux_parse :: "string \<Rightarrow> api_url option"
  ux_text :: "api_url \<Rightarrow> string"
  ux_set_path :: "string \<Rightarrow> api_url \<Rightarrow> api_url"
  ux_header_ok :: "string \<Rightarrow> bool"

definition trim_slashes :: "string \<Rightarrow> string" where
  "trim_slashes s = rev (dropWhile (\<lambda>c. c = CHR ''/'') (rev s))"

definition is_official_deepseek_url :: "api_url \<Rightarrow> bool" where
  "is_official_deepseek_url url =
     (if au_scheme url \<noteq> ''https''
         \<or> map_option (\<lambda>v. eq_ignore_ascii_case v ''api.deepseek.com'') (au_host url) \<noteq> Some True
         \<or> au_port url \<noteq> Some 443 \<or> au_username url \<noteq> [] \<or> au_password url \<noteq> None
         \<or> au_query url \<noteq> None \<or> au_fragment url \<noteq> None
      then False
      else let path = to_ascii_lowercase (trim_slashes (au_path url)) in path = [] \<or> path = ''/'' \<or> path = ''/v1'')"

definition without_query :: "api_url \<Rightarrow> api_url" where
  "without_query url = url\<lparr>au_query := None, au_fragment := None\<rparr>"

definition normalize_base_url :: "upstream_lib \<Rightarrow> string \<Rightarrow> string" where
  "normalize_base_url X value =
     (let raw = (if trim value = [] then ''https://api.deepseek.com/'' else trim value)
      in case ux_parse X raw of
           Some url \<Rightarrow>
             let url = (if is_official_deepseek_url url then without_query (ux_set_path X ''/'' url) else url)
             in trim_slashes (ux_text X url)
         | None \<Rightarrow> trim_slashes raw)"

definition chat_completions_url :: "upstream_lib \<Rightarrow> string \<Rightarrow> string" where
  "chat_completions_url X base_url = trim_slashes (normalize_base_url X base_url) @ ''/chat/completions''"

definition responses_url :: "upstream_lib \<Rightarrow> string \<Rightarrow> string option" where
  "responses_url X base_url =
     map_option (\<lambda>url.
       let path = trim_slashes (au_path url);
           url = (if is_official_deepseek_url url then ux_set_path X ''/responses'' url
                  else ux_set_path X (if path = [] \<or> path = ''/'' then ''/responses'' else path @ ''/responses'') url)
       in ux_text X (without_query url))
     (ux_parse X (normalize_base_url X base_url))"

definition with_v1 :: "string \<Rightarrow> string" where
  "with_v1 path = (if ends_with (to_ascii_lowercase path) ''/v1'' then path else path @ ''/v1'')"

definition tools_endpoint_url :: "upstream_lib \<Rightarrow> string \<Rightarrow> string \<Rightarrow> string option" where
  "tools_endpoint_url X base_url endpoint =
     map_option (\<lambda>url. ux_text X (without_query
         (ux_set_path X (with_v1 (trim_slashes (au_path url)) @ ''/tools/'' @ endpoint) url)))
       (ux_parse X (normalize_base_url X base_url))"

definition tools_search_url :: "upstream_lib \<Rightarrow> string \<Rightarrow> string option" where
  "tools_search_url X base_url = tools_endpoint_url X base_url ''search''"

definition tools_fetch_url :: "upstream_lib \<Rightarrow> string \<Rightarrow> string option" where
  "tools_fetch_url X base_url = tools_endpoint_url X base_url ''fetch''"

definition balance_url :: "upstream_lib \<Rightarrow> string \<Rightarrow> string option" where
  "balance_url X base_url =
     map_option (\<lambda>url.
       let path = trim_slashes (au_path url);
           path = (if ends_with (to_ascii_lowercase path) ''/v1'' then take (length path - 3) path else path)
       in ux_text X (without_query
            (ux_set_path X (if path = [] then ''/user/balance'' else trim_slashes path @ ''/user/balance'') url)))
     (ux_parse X (normalize_base_url X base_url))"

definition models_url :: "upstream_lib \<Rightarrow> string \<Rightarrow> string option" where
  "models_url X base_url =
     map_option (\<lambda>url. ux_text X (without_query (ux_set_path X (with_v1 (trim_slashes (au_path url)) @ ''/models'') url)))
       (ux_parse X (normalize_base_url X base_url))"

section \<open>The configured upstream\<close>

datatype upstream_credential_source = Auto | Request | Env | CodexAuth | Secret

fun credential_label :: "upstream_credential_source \<Rightarrow> string" where
  "credential_label Auto = ''auto''"
| "credential_label Request = ''request''"
| "credential_label Env = ''env''"
| "credential_label CodexAuth = ''codex_auth''"
| "credential_label Secret = ''secret''"

definition parse_credential :: "string \<Rightarrow> upstream_credential_source option" where
  "parse_credential value =
     (let v = to_ascii_lowercase (trim value)
      in if v \<in> {[], ''auto'', ''default''} then Some Auto
         else if v \<in> {''request'', ''client'', ''passthrough'', ''inbound''} then Some Request
         else if v \<in> {''env'', ''environment'', ''deepseek_api_key''} then Some Env
         else if v \<in> {''codex_auth'', ''codex-auth'', ''auth'', ''auth_json''} then Some CodexAuth
         else if v \<in> {''secret'', ''secret_store'', ''credential_store'', ''keyring''} then Some Secret
         else None)"

datatype upstream_transport = NativeResponses | ChatCompat

record upstream_config =
  uc_base_url :: string
  uc_transport :: upstream_transport
  uc_credential :: upstream_credential_source
  uc_api_key :: "string option"

datatype selected_transport = SelectedNative | SelectedChat

fun select_transport :: "upstream_config \<Rightarrow> selected_transport" where
  "select_transport upstream = (case uc_transport upstream of ChatCompat \<Rightarrow> SelectedChat | NativeResponses \<Rightarrow> SelectedNative)"

section \<open>The client's identity\<close>

record upstream_passthrough =
  up_originator :: "string option"
  up_user_agent :: "string option"
  up_session_id :: "string option"
  up_conversation_id :: "string option"

definition read_identity :: "header_map \<Rightarrow> string \<Rightarrow> string option" where
  "read_identity headers name = opt_filter (\<lambda>v. v \<noteq> []) (map_option trim (header_str headers name))"

definition passthrough_from_headers :: "header_map \<Rightarrow> upstream_passthrough" where
  "passthrough_from_headers headers =
     \<lparr>up_originator = read_identity headers ''originator'', up_user_agent = read_identity headers ''user-agent'',
      up_session_id = read_identity headers ''session_id'', up_conversation_id = read_identity headers ''conversation_id''\<rparr>"

definition entries :: "upstream_passthrough \<Rightarrow> (string \<times> string option) list" where
  "entries p = [(''originator'', up_originator p), (''user-agent'', up_user_agent p),
     (''session_id'', up_session_id p), (''conversation_id'', up_conversation_id p)]"

definition no_passthrough :: upstream_passthrough where
  "no_passthrough = \<lparr>up_originator = None, up_user_agent = None, up_session_id = None, up_conversation_id = None\<rparr>"

text \<open>The cell that keeps the last identity seen.\<close>

definition remember_passthrough :: "upstream_passthrough \<Rightarrow> upstream_passthrough option \<Rightarrow> upstream_passthrough option" where
  "remember_passthrough p slot = Some p"

definition cached_passthrough :: "upstream_passthrough option \<Rightarrow> upstream_passthrough" where
  "cached_passthrough slot = unwrap_or no_passthrough slot"

section \<open>Marks of the Codex application\<close>

record codex_markers =
  cx_client_metadata :: bool
  cx_prompt_cache_key :: bool
  cx_installation_id :: bool

definition codex_request_markers :: "json \<Rightarrow> codex_markers" where
  "codex_request_markers payload =
     \<lparr>cx_client_metadata = (jget payload ''client_metadata'' \<noteq> None),
      cx_prompt_cache_key = (jget payload ''prompt_cache_key'' \<noteq> None),
      cx_installation_id = (jpointer payload [''metadata'', ''x-codex-installation-id''] \<noteq> None)\<rparr>"

definition has_any :: "codex_markers \<Rightarrow> bool" where
  "has_any m = (cx_client_metadata m \<or> cx_prompt_cache_key m \<or> cx_installation_id m)"

definition payload_looks_like_codex_app_request :: "json \<Rightarrow> bool" where
  "payload_looks_like_codex_app_request payload = has_any (codex_request_markers payload)"

section \<open>Credentials\<close>

record auth_request =
  ar_inbound :: "string option"
  ar_local_access_token :: "string option"
  ar_managed_key :: "string option"
  ar_passthrough :: upstream_passthrough

record resolved_auth =
  ra_header :: "string option"
  ra_source :: string

definition resolved :: "string option \<Rightarrow> string \<Rightarrow> resolved_auth" where
  "resolved header source =
     (case header of
        Some h \<Rightarrow> \<lparr>ra_header = Some h, ra_source = source\<rparr>
      | None \<Rightarrow> \<lparr>ra_header = None, ra_source = ''none''\<rparr>)"

definition format_bearer_header :: "string \<Rightarrow> string option" where
  "format_bearer_header value =
     (let trimmed = trim value
      in if trimmed = [] then None
         else if starts_with (to_ascii_lowercase trimmed) ''bearer '' then Some trimmed
         else Some (''Bearer '' @ trimmed))"

definition is_ascii_whitespace :: "char \<Rightarrow> bool" where
  "is_ascii_whitespace c = (c \<in> {CHR 0x20, CHR 0x09, CHR 0x0A, CHR 0x0C, CHR 0x0D})"

definition api_key_from_authorization :: "string \<Rightarrow> string option" where
  "api_key_from_authorization value =
     map_option (\<lambda>normalized.
       trim (unwrap_or normalized
         (or_else (strip_prefix ''Bearer '' (dropWhile is_ascii_whitespace normalized))
                  (strip_prefix ''bearer '' normalized))))
     (format_bearer_header value)"

definition authorization_matches_local_access_token :: "string option \<Rightarrow> string \<Rightarrow> bool" where
  "authorization_matches_local_access_token local_access_token value =
     (case local_access_token of
        None \<Rightarrow> False
      | Some token \<Rightarrow>
          (case api_key_from_authorization value of
             None \<Rightarrow> False
           | Some auth_token \<Rightarrow> constant_time_eq (trim auth_token) (trim token)))"

definition local_access_token_matches :: "string option \<Rightarrow> string \<Rightarrow> bool" where
  "local_access_token_matches local_access_token value =
     (case local_access_token of
        None \<Rightarrow> False
      | Some token \<Rightarrow>
          if constant_time_eq (trim value) (trim token) then True
          else unwrap_or False (map_option (\<lambda>auth_token. constant_time_eq (trim auth_token) (trim token))
                 (api_key_from_authorization value)))"

definition upstream_is_official :: "upstream_lib \<Rightarrow> upstream_config \<Rightarrow> bool" where
  "upstream_is_official X upstream = is_some_and is_official_deepseek_url (ux_parse X (uc_base_url upstream))"

definition codex_app_isolation_applies :: "upstream_lib \<Rightarrow> upstream_config \<Rightarrow> json \<Rightarrow> bool" where
  "codex_app_isolation_applies X upstream payload =
     (upstream_is_official X upstream \<and> payload_looks_like_codex_app_request payload)"

definition inbound_credential :: "auth_request \<Rightarrow> string option" where
  "inbound_credential request =
     Option.bind (opt_filter (\<lambda>v. \<not> authorization_matches_local_access_token (ar_local_access_token request) v)
                    (ar_inbound request)) format_bearer_header"

definition stored_credential :: "auth_request \<Rightarrow> string option \<Rightarrow> string option" where
  "stored_credential request key =
     Option.bind (opt_filter (\<lambda>v. \<not> local_access_token_matches (ar_local_access_token request) v) key) format_bearer_header"

definition configured_credential :: "upstream_config \<Rightarrow> auth_request \<Rightarrow> string option" where
  "configured_credential upstream request = stored_credential request (uc_api_key upstream)"

definition managed_credential :: "auth_request \<Rightarrow> string option" where
  "managed_credential request = stored_credential request (ar_managed_key request)"

definition codex_auth_credential :: "auth_request \<Rightarrow> string option \<Rightarrow> string option" where
  "codex_auth_credential request direct_key = stored_credential request direct_key"

definition resolve_upstream_authorization ::
  "upstream_lib \<Rightarrow> upstream_config \<Rightarrow> auth_request \<Rightarrow> json \<Rightarrow> string option \<Rightarrow> resolved_auth" where
  "resolve_upstream_authorization X upstream request payload direct_key =
     (case uc_credential upstream of
        Request \<Rightarrow> resolved (inbound_credential request) ''request''
      | Env \<Rightarrow> resolved (configured_credential upstream request) ''env''
      | Secret \<Rightarrow> resolved (managed_credential request) ''secret''
      | CodexAuth \<Rightarrow> resolved (codex_auth_credential request direct_key) ''codex_auth''
      | Auto \<Rightarrow>
          (case if codex_app_isolation_applies X upstream payload then None else inbound_credential request of
             Some header \<Rightarrow> resolved (Some header) ''request''
           | None \<Rightarrow>
               (case managed_credential request of
                  Some header \<Rightarrow> resolved (Some header) ''secret''
                | None \<Rightarrow>
                    (case configured_credential upstream request of
                       Some header \<Rightarrow> resolved (Some header) ''env''
                     | None \<Rightarrow> resolved (codex_auth_credential request direct_key) ''codex_auth''))))"

section \<open>The request that is sent\<close>

record upstream_post =
  ps_url :: string
  ps_headers :: header_map
  ps_body :: json

fun insert_identity :: "upstream_lib \<Rightarrow> (string \<times> string option) list \<Rightarrow> header_map \<Rightarrow> header_map" where
  "insert_identity X [] headers = headers"
| "insert_identity X ((name, value) # rest) headers =
     insert_identity X rest
       (case value of
          Some v \<Rightarrow> if ux_header_ok X v then header_insert name v headers else headers
        | None \<Rightarrow> headers)"

definition send_upstream_request ::
  "upstream_lib \<Rightarrow> string \<Rightarrow> upstream_config \<Rightarrow> auth_request \<Rightarrow> json option \<Rightarrow> json \<Rightarrow> string option \<Rightarrow> upstream_post" where
  "send_upstream_request X url upstream request auth_context_payload payload direct_key =
     (let headers = header_insert ''content-type'' ''application/json'' [];
          headers = header_insert ''accept'' ''application/json, text/event-stream'' headers;
          headers = insert_identity X (entries (ar_passthrough request)) headers;
          auth = resolve_upstream_authorization X upstream request (unwrap_or payload auth_context_payload) direct_key;
          headers = (case opt_filter (ux_header_ok X) (ra_header auth) of
                       Some value \<Rightarrow> header_insert ''authorization'' value headers
                     | None \<Rightarrow> headers);
          headers = (if ux_header_ok X (ra_source auth)
                     then header_insert ''x-codeseex-credential-source'' (ra_source auth) headers else headers)
      in \<lparr>ps_url = url, ps_headers = headers, ps_body = payload\<rparr>)"

definition post_chat_completions ::
  "upstream_lib \<Rightarrow> upstream_config \<Rightarrow> auth_request \<Rightarrow> json option \<Rightarrow> json \<Rightarrow> string option \<Rightarrow> upstream_post" where
  "post_chat_completions X upstream request auth_context_payload payload direct_key =
     send_upstream_request X (chat_completions_url X (uc_base_url upstream)) upstream request auth_context_payload
       payload direct_key"

definition post_responses ::
  "upstream_lib \<Rightarrow> upstream_config \<Rightarrow> auth_request \<Rightarrow> json option \<Rightarrow> json \<Rightarrow> string option \<Rightarrow> upstream_post option" where
  "post_responses X upstream request auth_context_payload payload direct_key =
     map_option (\<lambda>url. send_upstream_request X url upstream request auth_context_payload payload direct_key)
       (responses_url X (uc_base_url upstream))"

section \<open>The scheme of a header\<close>

lemma split_once_ascii:
  assumes "list_all is_ascii s" "s = scheme @ b # rest" "list_all (\<lambda>c. \<not> blank_char c) scheme" "blank_char b"
  shows "split_once_whitespace s = Some (scheme, rest)"
proof -
  have "takeWhile (\<lambda>ch. \<not> is_whitespace ch) (map (\<lambda>c. [c]) s) = map (\<lambda>c. [c]) scheme"
    and "dropWhile (\<lambda>ch. \<not> is_whitespace ch) (map (\<lambda>c. [c]) s) = map (\<lambda>c. [c]) (b # rest)"
    using assms(2-4) by (auto simp: takeWhile_append takeWhile_map dropWhile_append dropWhile_map list_all_iff)
  then show ?thesis by (simp add: split_once_whitespace_def chars_ascii [OF assms(1)])
qed

text \<open>The token of a header \<^verbatim>\<open>Bearer <text>\<close>, with the scheme in any case.\<close>

lemma bearer_token_header:
  assumes "list_all is_ascii rest" "to_ascii_lowercase scheme = ''bearer''" "list_all is_ascii scheme"
    "list_all (\<lambda>c. \<not> blank_char c) scheme" "trimmed (scheme @ CHR '' '' # rest)"
  shows "bearer_token (scheme @ CHR '' '' # rest) = (if trim rest = [] then None else Some (trim rest))"
proof -
  have "is_ascii (CHR '' '')" and "blank_char (CHR '' '')" by code_simp+
  moreover have "to_ascii_lowercase ''bearer'' = ''bearer''" by code_simp
  ultimately show ?thesis
    using assms by (simp add: bearer_token_def trim_trimmed split_once_ascii [of _ scheme "CHR '' ''" rest] eq_ignore_ascii_case_def)
qed

section \<open>The local access token stays local\<close>

lemma ascii_byte: "byte_val c < 127 \<Longrightarrow> is_ascii c"
  by (cases c) (auto simp: byte_val_def of_char_def split: if_splits)

lemma header_str_ascii: "header_str headers name = Some v \<Longrightarrow> list_all is_ascii v"
  by (auto simp: header_str_def list_all_iff intro!: ascii_byte)

lemma bearer_literal: "to_ascii_lowercase ''Bearer'' = ''bearer''" "to_ascii_lowercase ''bearer'' = ''bearer''"
  "list_all is_ascii ''Bearer''" "list_all is_ascii ''bearer''"
  "list_all (\<lambda>c. \<not> blank_char c) ''Bearer''" "list_all (\<lambda>c. \<not> blank_char c) ''bearer''"
  "\<not> blank_char CHR ''B''" "\<not> blank_char CHR ''b''" "blank_char CHR '' ''"
  "\<not> is_ascii_whitespace CHR ''B''" "\<not> is_ascii_whitespace CHR ''b''"
  by code_simp+

lemma trimmed_behind: "trimmed s \<Longrightarrow> s \<noteq> [] \<Longrightarrow> \<not> blank_char c \<Longrightarrow> trimmed (c # cs @ s)"
  by (auto simp: trimmed_def)

text \<open>A text without a scheme gets one, and is then its token.\<close>

lemma formatted_bare:
  assumes "list_all is_ascii v" "trim v \<noteq> []" "\<not> starts_with (to_ascii_lowercase (trim v)) ''bearer ''"
  shows "format_bearer_header v = Some (''Bearer '' @ trim v)" "bearer_token (''Bearer '' @ trim v) = Some (trim v)"
    "api_key_from_authorization v = Some (trim v)"
proof -
  have a: "list_all is_ascii (trim v)" "trimmed (trim v)" using assms(1) by (simp_all add: trim_ascii_ascii trimmed_trim)
  show f: "format_bearer_header v = Some (''Bearer '' @ trim v)" using assms(2,3) by (simp add: format_bearer_header_def)
  have "trimmed (CHR ''B'' # ''earer '' @ trim v)" using trimmed_behind [OF a(2) assms(2) bearer_literal(7)] .
  then show "bearer_token (''Bearer '' @ trim v) = Some (trim v)"
    using bearer_token_header [OF a(1) bearer_literal(1,3,5)] a assms(1,2) by (simp add: trim_trim)
  have "strip_prefix ''Bearer '' (''Bearer '' @ trim v) = Some (trim v)" by (rule strip_prefix_append)
  then show "api_key_from_authorization v = Some (trim v)"
    by (simp add: api_key_from_authorization_def f bearer_literal trim_trim)
qed

text \<open>A stored key: ASCII, and when it brings its scheme, spelled \<^verbatim>\<open>Bearer\<close> or \<^verbatim>\<open>bearer\<close>.\<close>

definition plain_key :: "string \<Rightarrow> bool" where
  "plain_key key = (list_all is_ascii key
     \<and> (starts_with (to_ascii_lowercase (trim key)) ''bearer '' \<longrightarrow>
          starts_with (trim key) ''Bearer '' \<or> starts_with (trim key) ''bearer ''))"

lemma formatted_scheme:
  assumes "list_all is_ascii v" "trim v = scheme @ '' '' @ r" "scheme = ''Bearer'' \<or> scheme = ''bearer''"
  shows "format_bearer_header v = Some (trim v)" "bearer_token (trim v) = (if trim r = [] then None else Some (trim r))"
    "api_key_from_authorization v = Some (trim r)"
proof -
  have a: "list_all is_ascii (trim v)" "trimmed (trim v)" using assms(1) by (simp_all add: trim_ascii_ascii trimmed_trim)
  have sch: "to_ascii_lowercase scheme = ''bearer''" "list_all is_ascii scheme" "list_all (\<lambda>c. \<not> blank_char c) scheme"
    using assms(3) bearer_literal(1-6) by auto
  note sch(1)
  moreover have "to_ascii_lowercase '' '' = '' ''" by code_simp
  ultimately have "to_ascii_lowercase (trim v) = ''bearer '' @ to_ascii_lowercase r"
    by (metis append_Cons append_Nil assms(2) to_ascii_lowercase_append)
  then show f: "format_bearer_header v = Some (trim v)"
    using assms(2) by (auto simp: format_bearer_header_def starts_with_def Let_def)
  have "list_all is_ascii r" using a(1) assms(2) by simp
  then show "bearer_token (trim v) = (if trim r = [] then None else Some (trim r))"
    using bearer_token_header [of r scheme] a assms(2) sch by simp
  show "api_key_from_authorization v = Some (trim r)"
    using assms(2,3) by (auto simp: api_key_from_authorization_def f bearer_literal strip_prefix_def starts_with_def)
qed

lemma stored_not_token:
  assumes "plain_key key" "ar_local_access_token rq = Some token" "trim token = token"
    and "stored_credential rq (Some key) = Some h"
  shows "bearer_token h \<noteq> Some token"
proof -
  have ascii: "list_all is_ascii key" using assms(1) by (simp add: plain_key_def)
  have f: "format_bearer_header key = Some h" and m: "\<not> local_access_token_matches (Some token) key"
    using assms(2,4) by (auto simp: stored_credential_def bind_eq_Some_conv)
  then have ne: "trim key \<noteq> []" by (auto simp: format_bearer_header_def Let_def)
  show ?thesis
  proof (cases "starts_with (to_ascii_lowercase (trim key)) ''bearer ''")
    case False
    then show ?thesis
      using formatted_bare [OF ascii ne False] f m assms(3) by (auto simp: local_access_token_matches_def split: if_splits)
  next
    case True
    then have "starts_with (trim key) (''Bearer'' @ '' '') \<or> starts_with (trim key) (''bearer'' @ '' '')"
      using assms(1) by (simp add: plain_key_def)
    then obtain scheme r where s: "trim key = scheme @ '' '' @ r" "scheme = ''Bearer'' \<or> scheme = ''bearer''"
      unfolding starts_with_iff by (metis append.assoc)
    have "list_all is_ascii r" using trim_ascii_ascii [OF ascii] s(1) by simp
    then show ?thesis
      using formatted_scheme [OF ascii s] f m assms(3)
      by (auto simp: local_access_token_matches_def trim_trim split: if_splits)
  qed
qed

lemma inbound_not_token:
  assumes "ar_inbound rq = upstream_authorization_from_headers headers token" "ar_local_access_token rq = Some token"
    and "trim token = token" "inbound_credential rq = Some h"
  shows "bearer_token h \<noteq> Some token"
proof -
  obtain v where v: "upstream_authorization_from_headers headers token = Some v"
    and f: "format_bearer_header v = Some h" and m: "\<not> authorization_matches_local_access_token (Some token) v"
    using assms(1,2,4) by (auto simp: inbound_credential_def bind_eq_Some_conv)
  then have ascii: "list_all is_ascii v" and b: "bearer_token v \<noteq> Some token"
    using header_str_ascii by (auto simp: upstream_authorization_from_headers_def)
  have ne: "trim v \<noteq> []" using f by (auto simp: format_bearer_header_def Let_def)
  show ?thesis
  proof (cases "starts_with (to_ascii_lowercase (trim v)) ''bearer ''")
    case False
    then show ?thesis
      using formatted_bare [OF ascii ne False] f m assms(3) trim_trim
      by (auto simp: authorization_matches_local_access_token_def)
  next
    case True
    then have "h = trim v" using f ne by (simp add: format_bearer_header_def Let_def)
    then show ?thesis using b trim_trim by (simp add: bearer_token_def)
  qed
qed

section \<open>The order of the credentials\<close>

text \<open>The specification: the sources that may be asked, in their order, and the first that has a credential.\<close>

definition allowed_credentials ::
  "upstream_lib \<Rightarrow> upstream_config \<Rightarrow> auth_request \<Rightarrow> json \<Rightarrow> string option \<Rightarrow> (string \<times> string option) list" where
  "allowed_credentials X upstream request payload direct_key =
     (let inbound = (''request'', inbound_credential request); secret = (''secret'', managed_credential request);
          env = (''env'', configured_credential upstream request);
          codex = (''codex_auth'', codex_auth_credential request direct_key)
      in case uc_credential upstream of
           Request \<Rightarrow> [inbound] | Env \<Rightarrow> [env] | Secret \<Rightarrow> [secret] | CodexAuth \<Rightarrow> [codex]
         | Auto \<Rightarrow> (if codex_app_isolation_applies X upstream payload then [] else [inbound]) @ [secret, env, codex])"

fun first_credential :: "(string \<times> string option) list \<Rightarrow> resolved_auth" where
  "first_credential [] = \<lparr>ra_header = None, ra_source = ''none''\<rparr>"
| "first_credential ((source, header) # rest) =
     (case header of Some h \<Rightarrow> \<lparr>ra_header = Some h, ra_source = source\<rparr> | None \<Rightarrow> first_credential rest)"

lemma resolve_first: "resolve_upstream_authorization X upstream request payload direct_key
    = first_credential (allowed_credentials X upstream request payload direct_key)"
  by (auto simp: resolve_upstream_authorization_def allowed_credentials_def resolved_def Let_def
      split: upstream_credential_source.split option.split)

lemma first_credential_header: "ra_header (first_credential cs) = Some h \<Longrightarrow> (ra_source (first_credential cs), Some h) \<in> set cs"
  by (induction cs rule: first_credential.induct) (auto split: option.splits)

lemma first_credential_source: "ra_source (first_credential cs) \<in> insert ''none'' (fst ` set cs)"
  by (induction cs rule: first_credential.induct) (auto split: option.splits)

section \<open>The headers\<close>

lemma map_of_header_insert [simp]: "map_of (header_insert k v m) x = (if x = k then Some v else map_of m x)"
  by (auto simp: header_insert_def map_add_def map_simps split: option.split)

lemma or_else_None_right [simp]: "or_else a None = a"
  by (cases a) simp_all

lemma map_of_case_insert: "map_of (case a of Some v \<Rightarrow> header_insert n v m | None \<Rightarrow> m) k = (if k = n then or_else a (map_of m k) else map_of m k)"
  by (cases a) simp_all

lemma map_of_insert_identity:
  "distinct (map fst es) \<Longrightarrow> map_of (insert_identity X es headers) k =
     (case Option.bind (map_of es k) (opt_filter (ux_header_ok X)) of Some v \<Rightarrow> Some v | None \<Rightarrow> map_of headers k)"
proof (induction es arbitrary: headers)
  case (Cons e es)
  obtain nm val where e: "e = (nm, val)" by (cases e)
  have "nm \<notin> fst ` set es" using Cons.prems e by simp
  then have "map_of es nm = None" by (simp add: map_of_eq_None_iff)
  then show ?case
    using Cons by (auto simp: e opt_filter_def split: option.splits)
qed simp

lemma entries_distinct: "distinct (map fst (entries p))"
  by (simp add: entries_def)

definition identity_header :: "upstream_passthrough \<Rightarrow> string \<Rightarrow> string option" where
  "identity_header p k = Option.bind (map_of (entries p) k) (\<lambda>v. v)"

lemma bind_opt_filter: "Option.bind a (opt_filter p) = opt_filter p (Option.bind a (\<lambda>v. v))"
  by (cases a) auto

text \<open>C11: What the provider receives as headers. The request carries the JSON content type, the accepted types, the
four identity headers of the client that the client sent with a usable value, one credential, and the
name of its source, and nothing else of the client's headers. The credential is the one of the first
allowed source that has one: a pinned source is the only one asked, so that no other key is sent in its
place, and a request of the Codex application to the official endpoint never carries the client's own
credential unless the user pinned it.
\<close>

theorem upstream_headers_exact:
  fixes X url upstream request ctx payload direct_key
  defines "shape \<equiv> unwrap_or payload ctx"
  defines "headers \<equiv> ps_headers (send_upstream_request X url upstream request ctx payload direct_key)"
    and "auth \<equiv> first_credential (allowed_credentials X upstream request shape direct_key)"
  assumes "list_all (ux_header_ok X) [''request'', ''secret'', ''env'', ''codex_auth'', ''none'']"
  shows "map_of headers k =
      (if k = ''authorization'' then opt_filter (ux_header_ok X) (ra_header auth)
       else if k = ''x-codeseex-credential-source'' then Some (ra_source auth)
       else if k = ''content-type'' then Some ''application/json''
       else if k = ''accept'' then Some ''application/json, text/event-stream''
       else opt_filter (ux_header_ok X) (identity_header (ar_passthrough request) k))
   \<and> (uc_credential upstream = Auto \<and> codex_app_isolation_applies X upstream shape \<longrightarrow> ra_source auth \<noteq> ''request'')
   \<and> (uc_credential upstream \<noteq> Auto \<longrightarrow> ra_source auth \<in> {credential_label (uc_credential upstream), ''none''})"
proof -
  let ?r = "resolve_upstream_authorization X upstream request shape direct_key"
  have ids: "map_of (entries p) k = None" if "k \<in> {''authorization'', ''x-codeseex-credential-source'', ''content-type'', ''accept''}" for p
    using that by (auto simp: entries_def)
  have source: "ra_source auth \<in> insert ''none'' (fst ` set (allowed_credentials X upstream request shape direct_key))"
    unfolding auth_def by (rule first_credential_source)
  have ok: "ux_header_ok X (ra_source auth)"
    using source assms(4) by (auto simp: allowed_credentials_def Let_def split: upstream_credential_source.splits if_splits)
  have pinned: "uc_credential upstream \<noteq> Auto \<longrightarrow> ra_source auth \<in> {credential_label (uc_credential upstream), ''none''}"
    and isolated: "uc_credential upstream = Auto \<and> codex_app_isolation_applies X upstream shape \<longrightarrow> ra_source auth \<noteq> ''request''"
    using source by (auto simp: allowed_credentials_def Let_def split: upstream_credential_source.splits)
  have auth: "?r = auth" by (simp add: auth_def resolve_first)
  let ?id = "insert_identity X (entries (ar_passthrough request))
      (header_insert ''accept'' ''application/json, text/event-stream'' (header_insert ''content-type'' ''application/json'' []))"
  have id: "map_of ?id k = (case opt_filter (ux_header_ok X) (identity_header (ar_passthrough request) k) of Some v \<Rightarrow> Some v
      | None \<Rightarrow> if k = ''accept'' then Some ''application/json, text/event-stream''
               else if k = ''content-type'' then Some ''application/json'' else None)"
    by (cases "opt_filter (ux_header_ok X) (identity_header (ar_passthrough request) k)")
      (auto simp: map_of_insert_identity [OF entries_distinct] bind_opt_filter opt_filter_Some identity_header_def
        simp del: opt_filter_eq_Some dest!: sym [of "opt_filter _ _"])
  have headers: "headers = header_insert ''x-codeseex-credential-source'' (ra_source auth)
      (case opt_filter (ux_header_ok X) (ra_header auth) of Some v \<Rightarrow> header_insert ''authorization'' v ?id | None \<Rightarrow> ?id)"
    using ok unfolding headers_def send_upstream_request_def Let_def shape_def [symmetric] auth by simp
  have no_identity: "identity_header (ar_passthrough request) k = None"
    if "k \<in> {''authorization'', ''x-codeseex-credential-source'', ''content-type'', ''accept''}"
    using ids [OF that] by (simp add: identity_header_def)
  have "map_of headers k =
      (if k = ''authorization'' then opt_filter (ux_header_ok X) (ra_header auth)
       else if k = ''x-codeseex-credential-source'' then Some (ra_source auth)
       else if k = ''content-type'' then Some ''application/json''
       else if k = ''accept'' then Some ''application/json, text/event-stream''
       else opt_filter (ux_header_ok X) (identity_header (ar_passthrough request) k))"
  proof (cases "k \<in> {''authorization'', ''x-codeseex-credential-source'', ''content-type'', ''accept''}")
    case True
    have none: "opt_filter (ux_header_ok X) (identity_header (ar_passthrough request) k) = None"
      unfolding no_identity [OF True] by simp
    have "map_of headers k = (if k = ''x-codeseex-credential-source'' then Some (ra_source auth)
        else if k = ''authorization'' then or_else (opt_filter (ux_header_ok X) (ra_header auth)) (map_of ?id k) else map_of ?id k)"
      unfolding headers map_of_header_insert map_of_case_insert by simp
    moreover have "map_of ?id k = (if k = ''accept'' then Some ''application/json, text/event-stream''
        else if k = ''content-type'' then Some ''application/json'' else None)"
      unfolding id none by simp
    ultimately show ?thesis
      using True by (elim insertE emptyE) simp_all
  next
    case False
    then have other: "k \<noteq> ''authorization''" "k \<noteq> ''x-codeseex-credential-source''" "k \<noteq> ''content-type''" "k \<noteq> ''accept''"
      by blast+
    have "map_of headers k = map_of ?id k"
      unfolding headers map_of_header_insert map_of_case_insert using other(1,2) by simp
    also have "\<dots> = opt_filter (ux_header_ok X) (identity_header (ar_passthrough request) k)"
      unfolding id if_not_P [OF other(3)] if_not_P [OF other(4)] by (rule option.case_eq_if [THEN trans]) auto
    finally show ?thesis by (simp only: if_not_P [OF other(1)] if_not_P [OF other(2)] if_not_P [OF other(3)] if_not_P [OF other(4)])
  qed
  with pinned isolated show ?thesis by blast
qed

text \<open>C10: The local access token never leaves the machine as a credential. For a request that was let in with it
(the header filter of the guard gives the credential of the client) and for stored keys, whichever
source is configured and whatever the payload looks like, the authorization sent to the provider does not
carry the token, under any spelling of its scheme. Keys are plain when they are ASCII and bring their
scheme, if they do, as Bearer or bearer.
\<close>

theorem local_token_stays_local:
  assumes "ar_inbound request = upstream_authorization_from_headers headers token"
    and "ar_local_access_token request = Some token" "trim token = token"
    and "list_all (\<lambda>key. pred_option plain_key key) [uc_api_key upstream, ar_managed_key request, direct_key]"
  shows "Option.bind (map_of (ps_headers (send_upstream_request X url upstream request ctx payload direct_key)) ''authorization'')
           bearer_token \<noteq> Some token"
proof -
  let ?cs = "allowed_credentials X upstream request (unwrap_or payload ctx) direct_key"
  have none: "map_of (entries p) ''authorization'' = None" for p by (simp add: entries_def)
  have sent: "map_of (ps_headers (send_upstream_request X url upstream request ctx payload direct_key)) ''authorization''
      = opt_filter (ux_header_ok X) (ra_header (first_credential ?cs))"
    unfolding send_upstream_request_def Let_def resolve_first
    by (simp add: map_of_case_insert map_of_insert_identity [OF entries_distinct] none)
  have "bearer_token h \<noteq> Some token" if "ra_header (first_credential ?cs) = Some h" for h
  proof -
    have "Some h \<in> snd ` set ?cs" using first_credential_header [OF that] by force
    then have "Some h \<in> {inbound_credential request, stored_credential request (uc_api_key upstream),
        stored_credential request (ar_managed_key request), stored_credential request direct_key}"
      by (auto simp: allowed_credentials_def Let_def configured_credential_def managed_credential_def
          codex_auth_credential_def split: upstream_credential_source.splits if_splits)
    moreover have "bearer_token h \<noteq> Some token" if "stored_credential request key = Some h" "pred_option plain_key key" for key
      using that stored_not_token [OF _ assms(2,3)] by (cases key) (auto simp: stored_credential_def)
    ultimately show ?thesis using inbound_not_token [OF assms(1-3)] assms(4) by (metis insertE list.pred_inject(2) singletonD)
  qed
  then show ?thesis unfolding sent by (auto simp: bind_eq_Some_conv)
qed

definition demo_upstream :: upstream_config where
  "demo_upstream = \<lparr>uc_base_url = ''https://api.deepseek.com/'', uc_transport = NativeResponses, uc_credential = Auto,
     uc_api_key = Some ''sk-env''\<rparr>"

definition demo_upstream_lib :: upstream_lib where
  "demo_upstream_lib = \<lparr>ux_parse = (\<lambda>s. Some \<lparr>au_scheme = ''https'', au_username = [], au_password = None,
       au_host = Some ''api.deepseek.com'', au_port = Some 443, au_path = ''/'', au_query = None, au_fragment = None\<rparr>),
     ux_text = (\<lambda>u. ''https://api.deepseek.com'' @ au_path u), ux_set_path = (\<lambda>p u. u\<lparr>au_path := p\<rparr>),
     ux_header_ok = list_all is_ascii\<rparr>"

definition demo_auth :: auth_request where
  "demo_auth = \<lparr>ar_inbound = Some ''Bearer sk-client'', ar_local_access_token = Some ''tok-1'', ar_managed_key = None,
     ar_passthrough = no_passthrough\<lparr>up_originator := Some ''codex_cli''\<rparr>\<rparr>"

definition demo_app_payload :: json where
  "demo_app_payload = jobj [(''prompt_cache_key'', JStr ''k'')]"

text \<open>The client's own key is not used for the official endpoint, but the one of the environment.\<close>

lemma upstream_headers_exact_witness:
  "map_of (ps_headers (send_upstream_request demo_upstream_lib ''u'' demo_upstream demo_auth None demo_app_payload None))
      ''authorization'' = Some ''Bearer sk-env''
   \<and> map_of (ps_headers (send_upstream_request demo_upstream_lib ''u'' demo_upstream demo_auth None demo_app_payload None))
      ''originator'' = Some ''codex_cli''"
proof -
  have ok: "list_all (ux_header_ok demo_upstream_lib) [''request'', ''secret'', ''env'', ''codex_auth'', ''none'']" by code_simp
  have "opt_filter (ux_header_ok demo_upstream_lib) (ra_header (first_credential
      (allowed_credentials demo_upstream_lib demo_upstream demo_auth (unwrap_or demo_app_payload None) None)))
        = Some ''Bearer sk-env''"
    and "opt_filter (ux_header_ok demo_upstream_lib) (identity_header (ar_passthrough demo_auth) ''originator'')
        = Some ''codex_cli''"
    by code_simp+
  then show ?thesis
    using upstream_headers_exact [OF ok, of "''u''" demo_upstream demo_auth None demo_app_payload None "''authorization''"]
      upstream_headers_exact [OF ok, of "''u''" demo_upstream demo_auth None demo_app_payload None "''originator''"] by simp
qed

text \<open>A request that was let in with the local token under an unusual spelling of the scheme.\<close>

lemma local_token_stays_local_witness:
  "Option.bind (map_of (ps_headers (send_upstream_request demo_upstream_lib ''u'' (demo_upstream\<lparr>uc_credential := Request\<rparr>)
       (demo_auth\<lparr>ar_inbound := upstream_authorization_from_headers [(''authorization'', ''BEARER tok-1'')] ''tok-1''\<rparr>)
       None demo_app_payload (Some ''bearer tok-1''))) ''authorization'') bearer_token \<noteq> Some ''tok-1''"
proof -
  let ?rq = "demo_auth\<lparr>ar_inbound := upstream_authorization_from_headers [(''authorization'', ''BEARER tok-1'')] ''tok-1''\<rparr>"
  have t: "trim ''tok-1'' = ''tok-1''" by code_simp
  have keys: "list_all (\<lambda>key. pred_option plain_key key)
      [uc_api_key (demo_upstream\<lparr>uc_credential := Request\<rparr>), ar_managed_key ?rq, Some ''bearer tok-1'']"
  proof -
    have "plain_key ''sk-env''" "plain_key ''bearer tok-1''" by code_simp+
    then show ?thesis by (simp add: demo_upstream_def demo_auth_def)
  qed
  show ?thesis
    by (rule local_token_stays_local [of ?rq "[(''authorization'', ''BEARER tok-1'')]" "''tok-1''", OF _ _ t keys])
      (simp_all add: demo_auth_def)
qed

text \<open>
  A stored key that spells the scheme in another case is compared with the token as a whole, and so the
  token would be sent: the hypothesis on stored keys is needed.
\<close>

lemma odd_scheme_forwarded:
  "stored_credential demo_auth (Some ''BEARER tok-1'') = Some ''BEARER tok-1''
   \<and> bearer_token ''BEARER tok-1'' = ar_local_access_token demo_auth"
  by code_simp

end
