(* ===== verification/Pricing.thy ===== *)
theory Pricing
  imports Json Ascii_Text
begin

text \<open>
  Pricing and peak/valley billing, \<^verbatim>\<open>crates/core/src/pricing.rs\<close>: the rates of models and groups, the peak
  windows of a day, the documents they are read from and written to, sparse overrides, the classification
  of a completion time and the cost estimate.

  A finite \<^verbatim>\<open>f64\<close> is the rational it denotes, and the rounding of an arithmetic result to the nearest \<^verbatim>\<open>f64\<close> is the
  argument \<open>rnd\<close>; results beyond the largest \<^verbatim>\<open>f64\<close> are not modelled. Integer arithmetic wraps at its width as
  in the release build.
\<close>

section \<open>Numbers in texts\<close>

definition i32 :: "int \<Rightarrow> int" where "i32 v = sint (word_of_int v :: 32 word)"

definition i64 :: "int \<Rightarrow> int" where "i64 v = sint (word_of_int v :: 64 word)"

definition digits_value :: "string \<Rightarrow> nat option" where
  "digits_value s = (if s \<noteq> [] \<and> list_all ascii_digit s then Some (foldl (\<lambda>n c. 10 * n + (byte_val c - 48)) 0 s) else None)"

text \<open>\<^verbatim>\<open>str::parse\<close> of an unsigned and of a signed integer: one sign is accepted.\<close>

definition parse_u32 :: "string \<Rightarrow> nat option" where
  "parse_u32 s = opt_filter (\<lambda>n. n \<le> u32_max) (digits_value (unwrap_or s (strip_prefix ''+'' s)))"

definition parse_signed :: "nat \<Rightarrow> string \<Rightarrow> int option" where
  "parse_signed bits s =
     (case strip_prefix ''-'' s of
        Some r \<Rightarrow> opt_filter (\<lambda>v. - (2 ^ (bits - 1)) \<le> v) (map_option (\<lambda>n. - int n) (digits_value r))
      | None \<Rightarrow> opt_filter (\<lambda>v. v < 2 ^ (bits - 1)) (map_option int (digits_value (unwrap_or s (strip_prefix ''+'' s)))))"

text \<open>\<^verbatim>\<open>str::split_once\<close> and \<^verbatim>\<open>str::get\<close> of a range.\<close>

definition split_once :: "char \<Rightarrow> string \<Rightarrow> (string \<times> string) option" where
  "split_once c s = (case dropWhile (\<lambda>x. x \<noteq> c) s of [] \<Rightarrow> None | _ # r \<Rightarrow> Some (takeWhile (\<lambda>x. x \<noteq> c) s, r))"

definition str_get :: "nat \<Rightarrow> nat \<Rightarrow> string \<Rightarrow> string option" where
  "str_get a b s = (if is_char_boundary s a \<and> is_char_boundary s b then Some (take (b - a) (drop a s)) else None)"

definition as_f64 :: "(rat \<Rightarrow> rat) \<Rightarrow> json \<Rightarrow> rat option" where
  "as_f64 rnd v =
     (case v of
        JNum (PosInt n) \<Rightarrow> Some (rnd (of_nat n))
      | JNum (NegInt i) \<Rightarrow> Some (rnd (of_int i))
      | JNum (JFloat r) \<Rightarrow> Some r
      | _ \<Rightarrow> None)"

section \<open>Rates\<close>

definition MAX_PEAK_MULTIPLIER :: rat where "MAX_PEAK_MULTIPLIER = 100"

record model_rates =
  mr_cached_input :: rat
  mr_cache_miss_input :: rat
  mr_output :: rat

definition is_all_zero :: "model_rates \<Rightarrow> bool" where
  "is_all_zero r = (mr_cached_input r = 0 \<and> mr_cache_miss_input r = 0 \<and> mr_output r = 0)"

definition is_finite_and_non_negative :: "model_rates \<Rightarrow> bool" where
  "is_finite_and_non_negative r = list_all (\<lambda>v. 0 \<le> v) [mr_cached_input r, mr_cache_miss_input r, mr_output r]"

definition rates_to_value :: "model_rates \<Rightarrow> json" where
  "rates_to_value r = jobj [(''cached_input'', JNum (JFloat (mr_cached_input r))),
     (''cache_miss_input'', JNum (JFloat (mr_cache_miss_input r))), (''output'', JNum (JFloat (mr_output r)))]"

definition read_rate :: "(rat \<Rightarrow> rat) \<Rightarrow> (string \<times> json) list \<Rightarrow> string \<Rightarrow> rat option" where
  "read_rate rnd m key = (case map_of m key of Some value \<Rightarrow> as_f64 rnd value | None \<Rightarrow> Some 0)"

definition rates_from_value :: "(rat \<Rightarrow> rat) \<Rightarrow> json \<Rightarrow> model_rates option" where
  "rates_from_value rnd value =
     Option.bind (as_object value) (\<lambda>m.
       Option.bind (read_rate rnd m ''cached_input'') (\<lambda>c.
       Option.bind (read_rate rnd m ''cache_miss_input'') (\<lambda>i.
       Option.bind (read_rate rnd m ''output'') (\<lambda>r.
         opt_filter is_finite_and_non_negative (Some \<lparr>mr_cached_input = c, mr_cache_miss_input = i, mr_output = r\<rparr>)))))"

section \<open>Peak windows\<close>

record peak_window =
  pw_from :: nat
  pw_to :: nat

definition window_contains :: "peak_window \<Rightarrow> nat \<Rightarrow> bool" where
  "window_contains w minute_of_day = (pw_from w \<le> minute_of_day \<and> minute_of_day < pw_to w)"

record peak_valley =
  pv_enabled :: bool
  pv_timezone :: string
  pv_utc_offset_minutes :: int
  pv_multiplier :: rat
  pv_windows :: "peak_window list"

definition default_peak_valley :: peak_valley where
  "default_peak_valley = \<lparr>pv_enabled = True, pv_timezone = ''Asia/Shanghai'', pv_utc_offset_minutes = 8 * 60,
     pv_multiplier = 2, pv_windows = [\<lparr>pw_from = 9 * 60, pw_to = 12 * 60\<rparr>, \<lparr>pw_from = 14 * 60, pw_to = 18 * 60\<rparr>]\<rparr>"

definition is_active :: "peak_valley \<Rightarrow> bool" where
  "is_active p = (pv_enabled p \<and> pv_windows p \<noteq> [] \<and> 1 < pv_multiplier p)"

text \<open>\<^verbatim>\<open>format!("{:02}", n)\<close>.\<close>

definition two_digits :: "nat \<Rightarrow> string" where
  "two_digits n = (if n < 10 then ''0'' @ nat_str n else nat_str n)"

definition minute_to_hhmm :: "nat \<Rightarrow> string" where
  "minute_to_hhmm minute = two_digits (minute div 60) @ '':'' @ two_digits (minute mod 60)"

definition parse_hhmm :: "string \<Rightarrow> nat option" where
  "parse_hhmm value =
     Option.bind (split_once CHR '':'' (trim value)) (\<lambda>(hour, minute).
       Option.bind (parse_u32 (trim hour)) (\<lambda>h.
       Option.bind (parse_u32 (trim minute)) (\<lambda>m.
         if h > 23 \<or> m > 59 then None else Some (h * 60 + m))))"

definition timezone_utc_offset_minutes :: "string \<Rightarrow> int option" where
  "timezone_utc_offset_minutes timezone =
     (let normalized = to_ascii_lowercase (trim timezone)
      in if normalized \<in> {''asia/shanghai'', ''asia/chongqing'', ''prc'', ''cst''} then Some (8 * 60)
         else if normalized \<in> {''utc'', ''etc/utc'', ''z'', ''gmt''} then Some 0
         else
           Option.bind
             (case strip_prefix ''+'' normalized of
                Some rest \<Rightarrow> Some (1, rest)
              | None \<Rightarrow> map_option (\<lambda>rest. (-1, rest)) (strip_prefix ''-'' normalized))
             (\<lambda>(sign :: int, rest).
               let (hour, minute) = unwrap_or (rest, ''0'') (split_once CHR '':'' rest)
               in Option.bind (parse_signed 32 hour) (\<lambda>hour.
                  Option.bind (parse_signed 32 minute) (\<lambda>minute.
                    if hour > 23 \<or> minute > 59 then None
                    else Some (i32 (sign * i32 (i32 (hour * 60) + minute)))))))"

section \<open>Completion times\<close>

definition days_from_civil :: "int \<Rightarrow> int \<Rightarrow> int \<Rightarrow> int" where
  "days_from_civil year month day =
     (let year = (if month \<le> 2 then year - 1 else year);
          era = (if year \<ge> 0 then year div 400 else - ((399 - year) div 400));
          year_of_era = year - era * 400;
          month_position = (month + 9) mod 12;
          day_of_year = (153 * month_position + 2) div 5 + day - 1;
          day_of_era = year_of_era * 365 + year_of_era div 4 - year_of_era div 100 + day_of_year
      in era * 146097 + day_of_era - 719468)"

text \<open>The optional seconds and fraction, and the offset at the end.\<close>

definition skip_seconds :: "string \<Rightarrow> string option" where
  "skip_seconds rest =
     (case strip_prefix '':'' rest of
        None \<Rightarrow> Some rest
      | Some r \<Rightarrow>
          Option.bind (parse_signed 64 (takeWhile ascii_digit r)) (\<lambda>seconds.
            if seconds > 60 then None else Some (dropWhile ascii_digit r)))"

definition skip_fraction :: "string \<Rightarrow> string" where
  "skip_fraction rest = (case strip_prefix ''.'' rest of None \<Rightarrow> rest | Some r \<Rightarrow> dropWhile ascii_digit r)"

definition read_offset :: "string \<Rightarrow> int option" where
  "read_offset rest =
     (case rest of
        [] \<Rightarrow> Some 0
      | c # offset_text \<Rightarrow>
          if c = CHR ''Z'' \<or> c = CHR ''z'' then Some 0
          else if c = CHR ''+'' \<or> c = CHR ''-'' then
            let (hour_text, minute_text) = unwrap_or (offset_text, ''0'') (split_once CHR '':'' offset_text)
            in Option.bind (parse_signed 64 hour_text) (\<lambda>offset_hour.
               Option.bind (parse_signed 64 minute_text) (\<lambda>offset_minute.
                 let magnitude = i64 (i64 (offset_hour * 60) + offset_minute)
                 in Some (if c = CHR ''-'' then i64 (- magnitude) else magnitude)))
          else None)"

definition parse_rfc3339_utc_minutes :: "string \<Rightarrow> int option" where
  "parse_rfc3339_utc_minutes value =
     (let s = trim value
      in if length s < 16 then None
         else
           Option.bind (Option.bind (str_get 0 4 s) (parse_signed 64)) (\<lambda>year.
           Option.bind (Option.bind (str_get 5 7 s) (parse_signed 64)) (\<lambda>month.
           Option.bind (Option.bind (str_get 8 10 s) (parse_signed 64)) (\<lambda>day.
             if s ! 4 \<noteq> CHR ''-'' \<or> s ! 7 \<noteq> CHR ''-'' then None
             else if s ! 10 \<notin> {CHR ''T'', CHR ''t'', CHR '' ''} then None
             else
               Option.bind (Option.bind (str_get 11 13 s) (parse_signed 64)) (\<lambda>hour.
               Option.bind (Option.bind (str_get 14 16 s) (parse_signed 64)) (\<lambda>minute.
                 if s ! 13 \<noteq> CHR '':'' \<or> hour > 23 \<or> minute > 59 then None
                 else if \<not> (1 \<le> month \<and> month \<le> 12) \<or> \<not> (1 \<le> day \<and> day \<le> 31) then None
                 else
                   Option.bind (skip_seconds (drop 16 s)) (\<lambda>rest.
                   Option.bind (read_offset (skip_fraction rest)) (\<lambda>offset_minutes.
                     Some (i64 (days_from_civil year month day * 24 * 60 + hour * 60 + minute - offset_minutes))))))))))"

definition local_minute_of_day :: "string \<Rightarrow> int \<Rightarrow> nat option" where
  "local_minute_of_day timestamp utc_offset_minutes =
     map_option (\<lambda>utc_minutes. nat (i64 (utc_minutes + utc_offset_minutes) mod (24 * 60)))
       (parse_rfc3339_utc_minutes timestamp)"

record billing_period =
  bp_name :: string
  bp_multiplier :: rat

definition off_peak :: billing_period where
  "off_peak = \<lparr>bp_name = ''off_peak'', bp_multiplier = 1\<rparr>"

definition period_for :: "peak_valley \<Rightarrow> string \<Rightarrow> billing_period" where
  "period_for p completed_at =
     (if \<not> is_active p then off_peak
      else case local_minute_of_day completed_at (pv_utc_offset_minutes p) of
             None \<Rightarrow> off_peak
           | Some minute \<Rightarrow>
               if list_ex (\<lambda>w. window_contains w minute) (pv_windows p)
               then \<lparr>bp_name = ''peak'', bp_multiplier = pv_multiplier p\<rparr> else off_peak)"

section \<open>Documents\<close>

definition window_to_value :: "peak_window \<Rightarrow> json" where
  "window_to_value w = jobj [(''from'', JStr (minute_to_hhmm (pw_from w))), (''to'', JStr (minute_to_hhmm (pw_to w)))]"

definition peak_valley_to_value :: "peak_valley \<Rightarrow> json" where
  "peak_valley_to_value p = jobj [(''enabled'', JBool (pv_enabled p)), (''timezone'', JStr (pv_timezone p)),
     (''multiplier'', JNum (JFloat (pv_multiplier p))), (''windows'', JArr (map window_to_value (pv_windows p)))]"

definition ok_or :: "string \<Rightarrow> 'a option \<Rightarrow> string + 'a" where
  "ok_or e a = (case a of Some x \<Rightarrow> Inr x | None \<Rightarrow> Inl e)"

definition and_then :: "string + 'a \<Rightarrow> ('a \<Rightarrow> string + 'b) \<Rightarrow> string + 'b" where
  "and_then a f = (case a of Inl e \<Rightarrow> Inl e | Inr x \<Rightarrow> f x)"

fun sequence_results :: "(string + 'a) list \<Rightarrow> string + 'a list" where
  "sequence_results [] = Inr []"
| "sequence_results (r # rs) = and_then r (\<lambda>x. and_then (sequence_results rs) (\<lambda>xs. Inr (x # xs)))"

definition parse_peak_window :: "json \<Rightarrow> string + peak_window" where
  "parse_peak_window value =
     and_then (ok_or ''peak_valley window must be an object'' (as_object value)) (\<lambda>m.
     and_then (ok_or ''peak_valley window needs a from time'' (Option.bind (map_of m ''from'') as_str)) (\<lambda>from_text.
     and_then (ok_or ''peak_valley window needs a to time'' (Option.bind (map_of m ''to'') as_str)) (\<lambda>to_text.
     and_then (ok_or (''peak_valley window from is not HH:MM: '' @ from_text) (parse_hhmm from_text)) (\<lambda>f.
     and_then (ok_or (''peak_valley window to is not HH:MM: '' @ to_text) (parse_hhmm to_text)) (\<lambda>t.
       Inr \<lparr>pw_from = f, pw_to = t\<rparr>)))))"

text \<open>The windows of a document and of an override, each with its own messages.\<close>

definition read_windows :: "string \<Rightarrow> string \<Rightarrow> json \<Rightarrow> string + peak_window list" where
  "read_windows not_array not_ordered value =
     and_then (ok_or not_array (as_array value)) (\<lambda>items.
     and_then (sequence_results (map parse_peak_window items)) (\<lambda>windows.
       if list_ex (\<lambda>w. pw_from w \<ge> pw_to w) windows then Inl not_ordered else Inr windows))"

definition peak_valley_from_value :: "(rat \<Rightarrow> rat) \<Rightarrow> json \<Rightarrow> string + peak_valley" where
  "peak_valley_from_value rnd value =
     and_then (ok_or ''peak_valley must be an object'' (as_object value)) (\<lambda>m.
     (let timezone = trim (unwrap_or ''Asia/Shanghai'' (Option.bind (map_of m ''timezone'') as_str))
      in and_then (ok_or (''unsupported peak_valley timezone: '' @ timezone) (timezone_utc_offset_minutes timezone)) (\<lambda>offset.
         and_then (case map_of m ''multiplier'' of
                     None \<Rightarrow> Inr 2
                   | Some v \<Rightarrow> ok_or ''peak_valley.multiplier must be a number'' (as_f64 rnd v)) (\<lambda>multiplier.
         if multiplier < 1 \<or> multiplier > MAX_PEAK_MULTIPLIER
         then Inl ''peak_valley.multiplier must be between 1 and 100''
         else
           and_then (case map_of m ''enabled'' of
                       None \<Rightarrow> Inr True
                     | Some v \<Rightarrow> ok_or ''peak_valley.enabled must be a boolean'' (as_bool v)) (\<lambda>enabled.
           and_then (case map_of m ''windows'' of
                       None \<Rightarrow> Inr []
                     | Some v \<Rightarrow> read_windows ''peak_valley.windows must be an array''
                                   ''peak_valley window must start before it ends'' v) (\<lambda>windows.
             Inr \<lparr>pv_enabled = enabled, pv_timezone = timezone, pv_utc_offset_minutes = offset,
                  pv_multiplier = multiplier, pv_windows = windows\<rparr>))))))"

section \<open>The table\<close>

datatype rate_source = Exact | Group

fun rate_source_label :: "rate_source \<Rightarrow> string" where
  "rate_source_label Exact = ''model''"
| "rate_source_label Group = ''group''"

record resolved_rate =
  rr_rates :: model_rates
  rr_source :: rate_source

record pricing_table =
  pt_revision :: string
  pt_currency :: string
  pt_unit :: string
  pt_peak_valley :: peak_valley
  pt_groups :: "(string \<times> model_rates) list"
  pt_rates :: "(string \<times> model_rates) list"

definition default_pricing :: pricing_table where
  "default_pricing = \<lparr>pt_revision = ''0.0.0'', pt_currency = ''CNY'', pt_unit = ''per_1m_tokens'',
     pt_peak_valley = default_peak_valley, pt_groups = [], pt_rates = []\<rparr>"

fun rate_entries :: "(rat \<Rightarrow> rat) \<Rightarrow> string \<Rightarrow> (string \<times> json) list \<Rightarrow> (string \<times> model_rates) list
    \<Rightarrow> string + (string \<times> model_rates) list" where
  "rate_entries rnd label [] m = Inr m"
| "rate_entries rnd label ((key, value) # rest) m =
     (let key = trim key
      in if key = [] then Inl (label @ '' contains an empty key'')
         else and_then (ok_or (label @ ''.'' @ key @ '' must contain non-negative finite numbers'') (rates_from_value rnd value))
                (\<lambda>rates. rate_entries rnd label rest (om_insert key rates m)))"

definition parse_rate_map :: "(rat \<Rightarrow> rat) \<Rightarrow> json option \<Rightarrow> string \<Rightarrow> string + (string \<times> model_rates) list" where
  "parse_rate_map rnd value label =
     (case value of
        None \<Rightarrow> Inr []
      | Some v \<Rightarrow> and_then (ok_or (label @ '' must be an object'') (as_object v)) (\<lambda>m. rate_entries rnd label m []))"

definition pricing_from_value :: "(rat \<Rightarrow> rat) \<Rightarrow> json \<Rightarrow> string + pricing_table" where
  "pricing_from_value rnd value =
     and_then (ok_or ''pricing must be an object'' (as_object value)) (\<lambda>m.
     (let read = (\<lambda>key default. trim (unwrap_or default (Option.bind (map_of m key) as_str)));
          revision = read ''revision'' ''0.0.0''
      in if revision = [] then Inl ''pricing.revision must not be empty''
         else
           and_then (case map_of m ''peak_valley'' of
                       Some v \<Rightarrow> peak_valley_from_value rnd v | None \<Rightarrow> Inr default_peak_valley) (\<lambda>peak_valley.
           and_then (parse_rate_map rnd (map_of m ''groups'') ''pricing.groups'') (\<lambda>groups.
           and_then (parse_rate_map rnd (map_of m ''rates'') ''pricing.rates'') (\<lambda>rates.
             Inr \<lparr>pt_revision = revision, pt_currency = read ''currency'' ''CNY'', pt_unit = read ''unit'' ''per_1m_tokens'',
                  pt_peak_valley = peak_valley, pt_groups = groups, pt_rates = rates\<rparr>)))))"

definition rate_map_to_value :: "(string \<times> model_rates) list \<Rightarrow> json" where
  "rate_map_to_value m = jobj (map (\<lambda>(key, rates). (key, rates_to_value rates)) m)"

definition pricing_to_value :: "pricing_table \<Rightarrow> json" where
  "pricing_to_value t = jobj [(''revision'', JStr (pt_revision t)), (''currency'', JStr (pt_currency t)),
     (''unit'', JStr (pt_unit t)), (''peak_valley'', peak_valley_to_value (pt_peak_valley t)),
     (''groups'', rate_map_to_value (pt_groups t)), (''rates'', rate_map_to_value (pt_rates t))]"

definition rate_for :: "pricing_table \<Rightarrow> string \<Rightarrow> string option \<Rightarrow> resolved_rate option" where
  "rate_for t model grp =
     (case map_of (pt_rates t) (trim model) of
        Some rates \<Rightarrow> Some \<lparr>rr_rates = rates, rr_source = Exact\<rparr>
      | None \<Rightarrow>
          Option.bind (opt_filter (\<lambda>v. v \<noteq> []) (map_option trim grp)) (\<lambda>grp.
            map_option (\<lambda>rates. \<lparr>rr_rates = rates, rr_source = Group\<rparr>) (map_of (pt_groups t) grp)))"

record cost_estimate =
  ce_amount :: rat
  ce_currency :: string
  ce_unit :: string
  ce_revision :: string
  ce_billing_period :: string
  ce_billing_multiplier :: rat
  ce_rate_source :: string
  ce_rates :: model_rates

definition estimate_amount :: "(rat \<Rightarrow> rat) \<Rightarrow> model_rates \<Rightarrow> rat \<Rightarrow> nat \<Rightarrow> nat \<Rightarrow> nat \<Rightarrow> rat" where
  "estimate_amount rnd r multiplier cached miss out_tokens =
     (let price = (\<lambda>tokens rate. rnd (rnd (of_nat tokens) * rate))
      in rnd (rnd (rnd (rnd (price cached (mr_cached_input r) + price miss (mr_cache_miss_input r))
           + price out_tokens (mr_output r)) / 1000000) * multiplier))"

definition estimate :: "(rat \<Rightarrow> rat) \<Rightarrow> pricing_table \<Rightarrow> string \<Rightarrow> string option \<Rightarrow> nat \<Rightarrow> nat \<Rightarrow> nat \<Rightarrow> string
    \<Rightarrow> cost_estimate option" where
  "estimate rnd t model grp cached miss out_tokens completed_at =
     map_option (\<lambda>resolved.
       let period = period_for (pt_peak_valley t) completed_at
       in \<lparr>ce_amount = estimate_amount rnd (rr_rates resolved) (bp_multiplier period) cached miss out_tokens,
           ce_currency = pt_currency t, ce_unit = pt_unit t, ce_revision = pt_revision t,
           ce_billing_period = bp_name period, ce_billing_multiplier = bp_multiplier period,
           ce_rate_source = rate_source_label (rr_source resolved), ce_rates = rr_rates resolved\<rparr>)
     (rate_for t model grp)"

text \<open>A sparse override: each field that is present is checked and replaces the one of the table.\<close>

definition trimmed_str :: "(string \<times> json) list \<Rightarrow> string \<Rightarrow> string option" where
  "trimmed_str m key = opt_filter (\<lambda>v. v \<noteq> []) (map_option trim (Option.bind (map_of m key) as_str))"

definition override_peak :: "(rat \<Rightarrow> rat) \<Rightarrow> (string \<times> json) list \<Rightarrow> peak_valley \<Rightarrow> string + peak_valley" where
  "override_peak rnd m p =
     (let p = (case Option.bind (map_of m ''peak_valley_enabled'') as_bool of
                 Some enabled \<Rightarrow> p\<lparr>pv_enabled := enabled\<rparr> | None \<Rightarrow> p)
      in and_then (case Option.bind (map_of m ''peak_multiplier'') (as_f64 rnd) of
                     None \<Rightarrow> Inr p
                   | Some multiplier \<Rightarrow>
                       if multiplier < 1 \<or> multiplier > MAX_PEAK_MULTIPLIER
                       then Inl ''peak_multiplier must be between 1 and 100''
                       else Inr (p\<lparr>pv_multiplier := multiplier\<rparr>)) (\<lambda>p.
         and_then (case Option.bind (map_of m ''timezone'') as_str of
                     None \<Rightarrow> Inr p
                   | Some timezone \<Rightarrow>
                       and_then (ok_or (''unsupported timezone: '' @ trim timezone)
                                  (timezone_utc_offset_minutes (trim timezone))) (\<lambda>offset.
                         Inr (p\<lparr>pv_utc_offset_minutes := offset, pv_timezone := trim timezone\<rparr>))) (\<lambda>p.
           (case map_of m ''peak_windows'' of
              None \<Rightarrow> Inr p
            | Some v \<Rightarrow>
                and_then (read_windows ''peak_windows must be an array'' ''peak window must start before it ends'' v)
                  (\<lambda>windows. Inr (p\<lparr>pv_windows := windows\<rparr>))))))"

definition override_rates ::
  "(rat \<Rightarrow> rat) \<Rightarrow> json option \<Rightarrow> string \<Rightarrow> (string \<times> model_rates) list \<Rightarrow> string + (string \<times> model_rates) list" where
  "override_rates rnd value label m =
     and_then (parse_rate_map rnd value label) (\<lambda>new. Inr (fold (\<lambda>(k, v). om_insert k v) new m))"

definition with_override_value :: "(rat \<Rightarrow> rat) \<Rightarrow> pricing_table \<Rightarrow> json \<Rightarrow> string + pricing_table" where
  "with_override_value rnd t value =
     and_then (ok_or ''pricing override must be an object'' (as_object value)) (\<lambda>m.
     (let t = t\<lparr>pt_revision := unwrap_or (pt_revision t) (trimmed_str m ''revision''),
               pt_currency := unwrap_or (pt_currency t) (trimmed_str m ''currency''),
               pt_unit := unwrap_or (pt_unit t) (trimmed_str m ''unit'')\<rparr>
      in and_then (override_peak rnd m (pt_peak_valley t)) (\<lambda>p.
         and_then (override_rates rnd (map_of m ''rates'') ''pricing.rates'' (pt_rates t)) (\<lambda>rates.
         and_then (override_rates rnd (map_of m ''groups'') ''pricing.groups'' (pt_groups t)) (\<lambda>groups.
           Inr (t\<lparr>pt_peak_valley := p, pt_rates := rates, pt_groups := groups\<rparr>))))))"

section \<open>Valid tables\<close>

definition valid_rates :: "(string \<times> model_rates) list \<Rightarrow> bool" where
  "valid_rates m = (om_ok m \<and> list_all (\<lambda>(k, r). trim k = k \<and> k \<noteq> [] \<and> is_finite_and_non_negative r) m)"

definition valid_window :: "peak_window \<Rightarrow> bool" where
  "valid_window w = (pw_from w < pw_to w \<and> pw_to w < 24 * 60)"

definition valid_peak :: "peak_valley \<Rightarrow> bool" where
  "valid_peak p = (trim (pv_timezone p) = pv_timezone p
     \<and> timezone_utc_offset_minutes (pv_timezone p) = Some (pv_utc_offset_minutes p)
     \<and> 1 \<le> pv_multiplier p \<and> pv_multiplier p \<le> MAX_PEAK_MULTIPLIER \<and> list_all valid_window (pv_windows p))"

definition valid_table :: "pricing_table \<Rightarrow> bool" where
  "valid_table t = (trim (pt_revision t) = pt_revision t \<and> pt_revision t \<noteq> []
     \<and> trim (pt_currency t) = pt_currency t \<and> trim (pt_unit t) = pt_unit t
     \<and> valid_peak (pt_peak_valley t) \<and> valid_rates (pt_groups t) \<and> valid_rates (pt_rates t))"

lemma and_then_Inr: "and_then a f = Inr y \<longleftrightarrow> (\<exists>x. a = Inr x \<and> f x = Inr y)"
  by (cases a) (auto simp: and_then_def)

lemma ok_or_Inr: "ok_or e a = Inr x \<longleftrightarrow> a = Some x"
  by (cases a) (auto simp: ok_or_def)

lemma sequence_results_Inr: "sequence_results rs = Inr xs \<longleftrightarrow> rs = map Inr xs"
  by (induction rs arbitrary: xs) (auto simp: and_then_Inr)

lemma parse_hhmm_bound: "parse_hhmm s = Some m \<Longrightarrow> m < 24 * 60"
  by (auto simp: parse_hhmm_def bind_eq_Some_conv split: if_splits)

lemma parse_peak_window_bound: "parse_peak_window v = Inr w \<Longrightarrow> pw_to w < 24 * 60"
  by (auto simp: parse_peak_window_def and_then_Inr ok_or_Inr dest: parse_hhmm_bound)

lemma read_windows_valid:
  assumes "read_windows a b v = Inr windows"
  shows "list_all valid_window windows"
proof -
  obtain items where "map parse_peak_window items = map Inr windows" "\<not> list_ex (\<lambda>w. pw_from w \<ge> pw_to w) windows"
    using assms by (auto simp: read_windows_def and_then_Inr sequence_results_Inr split: if_splits)
  then show ?thesis
    using parse_peak_window_bound by (auto simp: list_all_iff list_ex_iff valid_window_def not_le map_eq_conv in_set_conv_nth)
      (metis length_map nth_map nth_mem)+
qed

lemma valid_rates_insert:
  "valid_rates m \<Longrightarrow> trim k = k \<Longrightarrow> k \<noteq> [] \<Longrightarrow> is_finite_and_non_negative r \<Longrightarrow> valid_rates (om_insert k r m)"
  by (auto simp: valid_rates_def list_all_iff btree.set_ins)

lemma rate_entries_valid: "valid_rates m \<Longrightarrow> rate_entries rnd label es m = Inr m' \<Longrightarrow> valid_rates m'"
proof (induction rnd label es m rule: rate_entries.induct)
  case (2 rnd label key v rest m)
  then obtain r where ne: "trim key \<noteq> []" and r: "rates_from_value rnd v = Some r"
    and rest: "rate_entries rnd label rest (om_insert (trim key) r m) = Inr m'"
    by (auto simp: Let_def and_then_Inr ok_or_Inr split: if_splits)
  have "is_finite_and_non_negative r" using r by (auto simp: rates_from_value_def bind_eq_Some_conv)
  then have "valid_rates (om_insert (trim key) r m)" using 2(2) ne by (simp add: valid_rates_insert trim_trim)
  then show ?case using "2.IH" [OF refl ne _ rest] r by (simp add: ok_or_def)
qed simp

lemma parse_rate_map_valid: "parse_rate_map rnd v label = Inr m \<Longrightarrow> valid_rates m"
  using rate_entries_valid [of "[]"]
  by (auto simp: parse_rate_map_def and_then_Inr valid_rates_def split: option.splits)

lemma override_rates_valid:
  assumes "override_rates rnd v label m = Inr m'" "valid_rates m"
  shows "valid_rates m'"
proof -
  obtain new where new: "valid_rates new" and m': "m' = fold (\<lambda>(k, v). om_insert k v) new m"
    using assms(1) by (auto simp: override_rates_def and_then_Inr dest: parse_rate_map_valid)
  have "valid_rates (fold (\<lambda>(k, v). om_insert k v) es m)"
    if "list_all (\<lambda>(k, r). trim k = k \<and> k \<noteq> [] \<and> is_finite_and_non_negative r) es" "valid_rates m" for es m
    using that by (induction es arbitrary: m) (auto intro: valid_rates_insert)
  then show ?thesis using new assms(2) unfolding m' by (simp add: valid_rates_def)
qed

lemma default_peak_valid: "valid_peak default_peak_valley"
proof -
  have "trim ''Asia/Shanghai'' = ''Asia/Shanghai''" "timezone_utc_offset_minutes ''Asia/Shanghai'' = Some 480" by code_simp+
  then show ?thesis by (simp add: valid_peak_def default_peak_valley_def MAX_PEAK_MULTIPLIER_def valid_window_def)
qed

lemma peak_valley_from_value_valid: "peak_valley_from_value rnd v = Inr p \<Longrightarrow> valid_peak p"
  using read_windows_valid
  by (auto simp: peak_valley_from_value_def and_then_Inr ok_or_Inr Let_def valid_peak_def trim_trim not_less
      split: if_splits option.splits)

lemma override_peak_valid: "override_peak rnd m p = Inr p' \<Longrightarrow> valid_peak p \<Longrightarrow> valid_peak p'"
  using read_windows_valid
  by (auto simp: override_peak_def and_then_Inr ok_or_Inr Let_def valid_peak_def trim_trim not_less
      split: if_splits option.splits)

lemma trimmed_str_trimmed: "trimmed_str m key = Some v \<Longrightarrow> trim v = v \<and> v \<noteq> []"
  by (auto simp: trimmed_str_def trim_trim)

text \<open>Only valid prices get into the program. A table that is read from a catalog document, and a valid table with
a user's sparse override applied, has sorted rates under trimmed, nonempty keys, no negative price, a peak
multiplier between 1 and 100, the offset of its time zone, and windows that start before they end within
one day; anything else in a document is an error.
\<close>

lemma pricing_tables_valid:
  "pricing_from_value rnd v = Inr t \<Longrightarrow> valid_table t"
  "valid_table t \<Longrightarrow> with_override_value rnd t v = Inr t' \<Longrightarrow> valid_table t'"
proof -
  assume "pricing_from_value rnd v = Inr t"
  then show "valid_table t"
    using default_peak_valid peak_valley_from_value_valid parse_rate_map_valid
    by (auto simp: pricing_from_value_def and_then_Inr ok_or_Inr Let_def valid_table_def trim_trim split: if_splits option.splits)
next
  assume valid: "valid_table t" and a: "with_override_value rnd t v = Inr t'"
  then obtain m p rates groups where p: "override_peak rnd m (pt_peak_valley t) = Inr p"
    "override_rates rnd (map_of m ''rates'') ''pricing.rates'' (pt_rates t) = Inr rates"
    "override_rates rnd (map_of m ''groups'') ''pricing.groups'' (pt_groups t) = Inr groups"
    and t': "t' = t\<lparr>pt_revision := unwrap_or (pt_revision t) (trimmed_str m ''revision''),
               pt_currency := unwrap_or (pt_currency t) (trimmed_str m ''currency''),
               pt_unit := unwrap_or (pt_unit t) (trimmed_str m ''unit''),
               pt_peak_valley := p, pt_rates := rates, pt_groups := groups\<rparr>"
    by (auto simp: with_override_value_def and_then_Inr Let_def)
  have texts: "trim (unwrap_or d (trimmed_str m key)) = unwrap_or d (trimmed_str m key)" if "trim d = d" for d key
    using that trimmed_str_trimmed by (cases "trimmed_str m key") auto
  have ne: "unwrap_or d (trimmed_str m key) \<noteq> []" if "d \<noteq> []" for d key
    using that trimmed_str_trimmed by (cases "trimmed_str m key") auto
  show "valid_table t'"
    using valid override_peak_valid [OF p(1)] override_rates_valid [OF p(2)] override_rates_valid [OF p(3)] texts ne
    by (simp add: t' valid_table_def)
qed

lemma default_pricing_valid: "valid_table default_pricing"
proof -
  have "trim ''0.0.0'' = ''0.0.0''" "trim ''CNY'' = ''CNY''" "trim ''per_1m_tokens'' = ''per_1m_tokens''" by code_simp+
  then show ?thesis using default_peak_valid by (simp add: valid_table_def default_pricing_def valid_rates_def)
qed

section \<open>Round trip\<close>

lemma om_insert_end: "(\<forall>e \<in> set m. fst e < k) \<Longrightarrow> om_insert k v m = m @ [(k, v)]"
  by (induction k v m rule: om_insert.induct) auto

lemma fold_om_insert_sorted:
  "om_ok (acc @ m) \<Longrightarrow> fold (\<lambda>(k, v). om_insert k v) m acc = acc @ m"
proof (induction m arbitrary: acc)
  case (Cons e m)
  obtain k v where e: "e = (k, v)" by (cases e)
  have "\<forall>e' \<in> set acc. fst e' < k" using Cons.prems by (auto simp: e om_ok_def sorted_wrt_append)
  then show ?case using Cons by (simp add: e om_insert_end)
qed simp

lemma jobj_sorted: "om_ok m \<Longrightarrow> jobj m = JObj m"
  using fold_om_insert_sorted [of "[]" m] by (simp add: jobj_def)

lemma rates_read_back: "is_finite_and_non_negative r \<Longrightarrow> rates_from_value rnd (rates_to_value r) = Some r"
proof -
  have "as_object (rates_to_value r) = Some [(''cache_miss_input'', JNum (JFloat (mr_cache_miss_input r))),
      (''cached_input'', JNum (JFloat (mr_cached_input r))), (''output'', JNum (JFloat (mr_output r)))]"
    by (simp add: rates_to_value_def jobj_def)
  then show "is_finite_and_non_negative r \<Longrightarrow> ?thesis"
    by (simp add: rates_from_value_def read_rate_def as_f64_def opt_filter_def is_finite_and_non_negative_def)
qed

lemma rate_entries_read_back:
  "valid_rates (acc @ m) \<Longrightarrow> rate_entries rnd label (map (\<lambda>(k, r). (k, rates_to_value r)) m) acc = Inr (acc @ m)"
proof (induction m arbitrary: acc)
  case (Cons e m)
  obtain k r where e: "e = (k, r)" by (cases e)
  have "\<forall>e' \<in> set acc. fst e' < k" using Cons.prems by (auto simp: valid_rates_def e om_ok_def sorted_wrt_append)
  then show ?case
    using Cons by (simp add: e om_insert_end valid_rates_def rates_read_back and_then_def ok_or_def)
qed simp

lemma rate_map_read_back:
  assumes "valid_rates m"
  shows "parse_rate_map rnd (Some (rate_map_to_value m)) label = Inr m"
proof -
  have "om_ok (map (\<lambda>(k, r). (k, rates_to_value r)) m)"
    using assms by (simp add: valid_rates_def om_ok_def comp_def case_prod_beta)
  then show ?thesis
    using rate_entries_read_back [of "[]" m rnd label] assms
    by (simp add: parse_rate_map_def rate_map_to_value_def jobj_sorted and_then_def ok_or_def)
qed

lemma digit_char_value:
  assumes "d < 10"
  shows "byte_val (digit_char d) = 48 + d" "ascii_digit (digit_char d)" "is_ascii (digit_char d)" "\<not> blank_char (digit_char d)"
    "digit_char d \<noteq> CHR ''+''" "digit_char d \<noteq> CHR ''-''" "digit_char d \<noteq> CHR '':''" "\<not> is_cont (digit_char d)"
proof -
  have "list_all (\<lambda>d. byte_val (digit_char d) = 48 + d \<and> ascii_digit (digit_char d) \<and> is_ascii (digit_char d)
      \<and> \<not> blank_char (digit_char d) \<and> digit_char d \<noteq> CHR ''+'' \<and> digit_char d \<noteq> CHR ''-'' \<and> digit_char d \<noteq> CHR '':''
      \<and> \<not> is_cont (digit_char d)) [0..<10]"
    by code_simp
  then show "byte_val (digit_char d) = 48 + d" "ascii_digit (digit_char d)" "is_ascii (digit_char d)" "\<not> blank_char (digit_char d)"
    "digit_char d \<noteq> CHR ''+''" "digit_char d \<noteq> CHR ''-''" "digit_char d \<noteq> CHR '':''" "\<not> is_cont (digit_char d)"
    using assms by (auto simp: list_all_iff)
qed

lemma two_digits_chars:
  assumes "n < 100"
  shows "two_digits n = [digit_char (n div 10), digit_char (n mod 10)]"
proof (cases "n < 10")
  case True
  have "CHR ''0'' = digit_char 0" by code_simp
  with True show ?thesis by (simp add: two_digits_def nat_str.simps [of n])
next
  case False
  then show ?thesis using assms by (simp add: two_digits_def nat_str.simps [of n] nat_str.simps [of "n div 10"])
qed

lemma digits_value_two: "n < 100 \<Longrightarrow> digits_value (two_digits n) = Some n"
  by (simp add: two_digits_chars digits_value_def digit_char_value)

lemma trim_two_digits: "n < 100 \<Longrightarrow> trim (two_digits n) = two_digits n"
  by (rule trim_trimmed) (simp_all add: two_digits_chars trimmed_def digit_char_value)

lemma parse_u32_two: "n < 100 \<Longrightarrow> parse_u32 (two_digits n) = Some n"
  using digits_value_two [of n] by (simp add: parse_u32_def u32_max_def two_digits_chars strip_prefix_def starts_with_def digit_char_value)

lemma hhmm_read_back:
  assumes "m < 24 * 60"
  shows "parse_hhmm (minute_to_hhmm m) = Some m"
proof -
  let ?h = "two_digits (m div 60)" and ?m = "two_digits (m mod 60)"
  have b: "m div 60 < 24" "m mod 60 < 60" using assms by auto
  then have h: "?h = [digit_char (m div 60 div 10), digit_char (m div 60 mod 10)]"
    and mi: "?m = [digit_char (m mod 60 div 10), digit_char (m mod 60 mod 10)]"
    by (simp_all add: two_digits_chars)
  have d: "m div 60 div 10 < 10" "m mod 60 div 10 < 10" using b by auto
  have "is_ascii CHR '':''" by code_simp
  then have "trim (minute_to_hhmm m) = minute_to_hhmm m"
    by (intro trim_trimmed) (simp_all add: minute_to_hhmm_def h mi trimmed_def digit_char_value d)
  moreover have "split_once CHR '':'' (minute_to_hhmm m) = Some (?h, ?m)"
    unfolding minute_to_hhmm_def h mi by (simp add: split_once_def digit_char_value d)
  ultimately show ?thesis
    using b by (simp add: parse_hhmm_def trim_two_digits parse_u32_two)
qed

lemma window_read_back: "valid_window w \<Longrightarrow> parse_peak_window (window_to_value w) = Inr w"
proof -
  assume v: "valid_window w"
  have "as_object (window_to_value w) = Some [(''from'', JStr (minute_to_hhmm (pw_from w))), (''to'', JStr (minute_to_hhmm (pw_to w)))]"
    by (simp add: window_to_value_def jobj_def)
  then show ?thesis
    using v by (simp add: parse_peak_window_def and_then_def ok_or_def hhmm_read_back valid_window_def)
qed

lemma as_object_jobj: "\<exists>m. as_object (jobj kvs) = Some m \<and> (\<forall>k. map_of m k = map_of (rev kvs) k)"
  by (simp add: jobj_def map_of_fold_om_insert split: option.split)

lemma windows_read_back:
  assumes "list_all valid_window ws"
  shows "read_windows a b (JArr (map window_to_value ws)) = Inr ws"
proof -
  have "sequence_results (map parse_peak_window (map window_to_value ws)) = Inr ws"
    using assms by (auto simp: sequence_results_Inr list_all_iff window_read_back)
  moreover have "\<not> list_ex (\<lambda>w. pw_from w \<ge> pw_to w) ws"
    using assms by (auto simp: list_all_iff list_ex_iff valid_window_def)
  ultimately show ?thesis by (simp add: read_windows_def and_then_def ok_or_def)
qed

lemma peak_valley_read_back:
  assumes "valid_peak p"
  shows "peak_valley_from_value rnd (peak_valley_to_value p) = Inr p"
proof -
  obtain m where m: "as_object (peak_valley_to_value p) = Some m" "map_of m ''enabled'' = Some (JBool (pv_enabled p))"
    "map_of m ''timezone'' = Some (JStr (pv_timezone p))" "map_of m ''multiplier'' = Some (JNum (JFloat (pv_multiplier p)))"
    "map_of m ''windows'' = Some (JArr (map window_to_value (pv_windows p)))"
    using as_object_jobj unfolding peak_valley_to_value_def by fastforce
  have "\<not> (pv_multiplier p < 1 \<or> pv_multiplier p > MAX_PEAK_MULTIPLIER)" using assms by (simp add: valid_peak_def not_less)
  then show ?thesis
    using assms by (simp add: peak_valley_from_value_def m and_then_def ok_or_def as_f64_def valid_peak_def windows_read_back)
qed

text \<open>A price table survives its document. Reading back the document that a valid table is written to gives the same
table, with every rate, window, offset and switch.
\<close>

lemma pricing_table_read_back:
  assumes "valid_table t"
  shows "pricing_from_value rnd (pricing_to_value t) = Inr t"
proof -
  obtain m where m: "as_object (pricing_to_value t) = Some m" "map_of m ''revision'' = Some (JStr (pt_revision t))"
    "map_of m ''currency'' = Some (JStr (pt_currency t))" "map_of m ''unit'' = Some (JStr (pt_unit t))"
    "map_of m ''peak_valley'' = Some (peak_valley_to_value (pt_peak_valley t))"
    "map_of m ''groups'' = Some (rate_map_to_value (pt_groups t))" "map_of m ''rates'' = Some (rate_map_to_value (pt_rates t))"
    using as_object_jobj unfolding pricing_to_value_def by fastforce
  show ?thesis
    using assms by (simp add: pricing_from_value_def m and_then_def ok_or_def valid_table_def peak_valley_read_back
        rate_map_read_back Let_def)
qed

definition demo_table :: pricing_table where
  "demo_table = default_pricing\<lparr>pt_rates := [(''deepseek-v4-flash'', \<lparr>mr_cached_input = 1 / 5, mr_cache_miss_input = 1, mr_output = 2\<rparr>)]\<rparr>"

lemma demo_table_valid: "valid_table demo_table"
proof -
  have "trim ''0.0.0'' = ''0.0.0''" "trim ''CNY'' = ''CNY''" "trim ''per_1m_tokens'' = ''per_1m_tokens''"
    "trim ''deepseek-v4-flash'' = ''deepseek-v4-flash''" by code_simp+
  then show ?thesis
    using default_peak_valid by (simp add: valid_table_def demo_table_def default_pricing_def valid_rates_def om_ok_def
        is_finite_and_non_negative_def)
qed

section \<open>The billing period\<close>

text \<open>An RFC 3339 time, with the offset as its sign, hours and minutes.\<close>

fun iso_offset :: "(bool \<times> nat \<times> nat) option \<Rightarrow> string" where
  "iso_offset None = ''Z''"
| "iso_offset (Some (negative, hours, minutes)) =
     (if negative then ''-'' else ''+'') @ two_digits hours @ '':'' @ two_digits minutes"

fun offset_value :: "(bool \<times> nat \<times> nat) option \<Rightarrow> int" where
  "offset_value None = 0"
| "offset_value (Some (negative, hours, minutes)) = (if negative then -1 else 1) * int (hours * 60 + minutes)"

definition offset_ok :: "(bool \<times> nat \<times> nat) option \<Rightarrow> bool" where
  "offset_ok off = (case off of None \<Rightarrow> True | Some (_, hours, minutes) \<Rightarrow> hours < 24 \<and> minutes < 60)"

record iso_time =
  it_year :: nat
  it_month :: nat
  it_day :: nat
  it_hour :: nat
  it_minute :: nat
  it_second :: nat
  it_fraction :: string
  it_offset :: "(bool \<times> nat \<times> nat) option"

definition iso_ok :: "iso_time \<Rightarrow> bool" where
  "iso_ok x = (it_year x < 10000 \<and> it_month x \<in> {1..12} \<and> it_day x \<in> {1..31} \<and> it_hour x < 24 \<and> it_minute x < 60
     \<and> it_second x \<le> 60 \<and> list_all ascii_digit (it_fraction x) \<and> offset_ok (it_offset x))"

definition iso_tail :: "iso_time \<Rightarrow> string" where
  "iso_tail x = '':'' @ two_digits (it_second x) @ (if it_fraction x = [] then [] else ''.'' @ it_fraction x)
     @ iso_offset (it_offset x)"

definition iso_text :: "iso_time \<Rightarrow> string" where
  "iso_text x = two_digits (it_year x div 100) @ two_digits (it_year x mod 100) @ ''-'' @ two_digits (it_month x)
     @ ''-'' @ two_digits (it_day x) @ ''T'' @ two_digits (it_hour x) @ '':'' @ two_digits (it_minute x) @ iso_tail x"

lemma parse_signed_two:
  "n < 100 \<Longrightarrow> bits \<in> {32, 64} \<Longrightarrow> parse_signed bits (two_digits n) = Some (int n)"
  using digits_value_two [of n]
  by (auto simp: parse_signed_def two_digits_chars strip_prefix_def starts_with_def digit_char_value)

lemma parse_signed_four:
  assumes "n < 10000"
  shows "parse_signed 64 (two_digits (n div 100) @ two_digits (n mod 100)) = Some (int n)"
proof -
  have b: "n div 100 < 100" "n mod 100 < 100" "n div 100 div 10 < 10" "n mod 100 div 10 < 10" using assms by auto
  have "digits_value (two_digits (n div 100) @ two_digits (n mod 100)) = Some (10 * (10 * (n div 100) + n mod 100 div 10) + n mod 100 mod 10)"
    using b by (simp add: two_digits_chars digits_value_def digit_char_value)
  moreover have "10 * (10 * (n div 100) + n mod 100 div 10) + n mod 100 mod 10 = n"
  proof -
    have "10 * (10 * q + a) + b = 100 * q + (10 * a + b)" for q a b :: nat by simp
    then show ?thesis by (simp only: mult_div_mod_eq)
  qed
  ultimately show ?thesis
    using b by (simp add: parse_signed_def two_digits_chars strip_prefix_def starts_with_def digit_char_value)
qed

lemma i64_small: "- (2 ^ 63) \<le> v \<Longrightarrow> v < 2 ^ 63 \<Longrightarrow> i64 v = v"
  by (simp add: i64_def signed_of_int signed_take_bit_int_eq_self)

lemma read_offset_iso: "offset_ok off \<Longrightarrow> read_offset (iso_offset off) = Some (offset_value off)"
proof (cases off)
  case (Some h)
  assume ok: "offset_ok off"
  obtain neg hh mm where h: "h = (neg, hh, mm)" by (cases h)
  have b: "hh < 24" "mm < 60" using ok Some h by (auto simp: offset_ok_def)
  have d: "hh div 10 < 10" using b by simp
  have sp: "split_once CHR '':'' (two_digits hh @ '':'' @ two_digits mm) = Some (two_digits hh, two_digits mm)"
    using b d by (simp add: split_once_def two_digits_chars digit_char_value)
  show ?thesis
    using b sp by (simp add: Some h read_offset_def parse_signed_two i64_small)
qed (simp add: read_offset_def)

lemma digits_split:
  assumes "list_all ascii_digit ds" "rest = [] \<or> \<not> ascii_digit (hd rest)"
  shows "takeWhile ascii_digit (ds @ rest) = ds" "dropWhile ascii_digit (ds @ rest) = rest"
  using assms by (induction ds) (cases rest; auto)+

lemma iso_offset_hd: "iso_offset off \<noteq> [] \<and> hd (iso_offset off) \<in> {CHR ''Z'', CHR ''+'', CHR ''-''}"
  by (cases off) auto

lemma not_digits: "\<not> ascii_digit CHR ''Z''" "\<not> ascii_digit CHR ''+''" "\<not> ascii_digit CHR ''-''" "\<not> ascii_digit CHR ''.''"
  by code_simp+

lemma iso_tail_read:
  assumes "iso_ok x"
  shows "Option.bind (skip_seconds (iso_tail x)) (\<lambda>rest. read_offset (skip_fraction rest)) = Some (offset_value (it_offset x))"
proof -
  let ?o = "iso_offset (it_offset x)"
  let ?f = "(if it_fraction x = [] then [] else ''.'' @ it_fraction x) @ ?o"
  have ok: "it_second x \<le> 60" "list_all ascii_digit (it_fraction x)" "offset_ok (it_offset x)"
    using assms by (simp_all add: iso_ok_def)
  have ho: "\<not> ascii_digit (hd ?o)" using iso_offset_hd [of "it_offset x"] not_digits by auto
  have hf: "\<not> ascii_digit (hd ?f)" using ho not_digits by auto
  have two: "list_all ascii_digit (two_digits (it_second x))" using ok(1) by (simp add: two_digits_chars digit_char_value)
  have sec: "skip_seconds (iso_tail x) = Some ?f"
    using digits_split [OF two, of ?f] hf ok(1)
    by (simp add: skip_seconds_def iso_tail_def strip_prefix_def starts_with_def parse_signed_two)
  have "skip_fraction ?f = ?o"
  proof (cases "it_fraction x = []")
    case True
    have "\<not> starts_with ?o ''.''" using iso_offset_hd [of "it_offset x"] by (cases ?o) (auto simp: starts_with_def)
    with True show ?thesis by (simp add: skip_fraction_def strip_prefix_def)
  next
    case False
    then show ?thesis
      using digits_split [OF ok(2), of ?o] ho by (simp add: skip_fraction_def strip_prefix_def starts_with_def)
  qed
  then show ?thesis using sec ok(3) by (simp add: read_offset_iso)
qed

lemma two_digits_list: "n < 100 \<Longrightarrow> \<exists>a b. two_digits n = [a, b] \<and> ascii_digit a \<and> ascii_digit b"
  by (simp add: two_digits_chars digit_char_value)

lemma digit_plain: "ascii_digit c \<Longrightarrow> is_ascii c \<and> \<not> blank_char c \<and> \<not> is_cont c"
proof -
  assume d: "ascii_digit c"
  have "list_all (\<lambda>n. is_ascii (char_of n) \<and> \<not> blank_char (char_of n) \<and> \<not> is_cont (char_of n)) [48..<58]" by code_simp
  moreover have "byte_val c \<in> set [48..<58]" "char_of (byte_val c) = c"
    using d by (simp_all only: set_upt atLeastLessThan_iff) (simp_all add: ascii_digit_def byte_val_def)
  ultimately show ?thesis by (metis list_all_iff)
qed

lemma iso_parts:
  assumes "iso_ok x"
  obtains y1 y2 y3 y4 mo1 mo2 d1 d2 h1 h2 mi1 mi2 where
    "iso_text x = [y1, y2, y3, y4, CHR ''-'', mo1, mo2, CHR ''-'', d1, d2, CHR ''T'', h1, h2, CHR '':'', mi1, mi2] @ iso_tail x"
    "list_all ascii_digit [y1, y2, y3, y4, mo1, mo2, d1, d2, h1, h2, mi1, mi2]"
    "parse_signed 64 [y1, y2, y3, y4] = Some (int (it_year x))" "parse_signed 64 [mo1, mo2] = Some (int (it_month x))"
    "parse_signed 64 [d1, d2] = Some (int (it_day x))" "parse_signed 64 [h1, h2] = Some (int (it_hour x))"
    "parse_signed 64 [mi1, mi2] = Some (int (it_minute x))"
proof -
  have b: "it_year x div 100 < 100" "it_year x mod 100 < 100" "it_month x < 100" "it_day x < 100" "it_hour x < 100"
    "it_minute x < 100" "it_year x < 10000" using assms by (auto simp: iso_ok_def)
  obtain y1 y2 y3 y4 where y: "two_digits (it_year x div 100) = [y1, y2]" "two_digits (it_year x mod 100) = [y3, y4]"
    "list_all ascii_digit [y1, y2, y3, y4]" using two_digits_list [OF b(1)] two_digits_list [OF b(2)] by auto
  obtain mo1 mo2 d1 d2 where md: "two_digits (it_month x) = [mo1, mo2]" "two_digits (it_day x) = [d1, d2]"
    "list_all ascii_digit [mo1, mo2, d1, d2]" using two_digits_list [OF b(3)] two_digits_list [OF b(4)] by auto
  obtain h1 h2 mi1 mi2 where hm: "two_digits (it_hour x) = [h1, h2]" "two_digits (it_minute x) = [mi1, mi2]"
    "list_all ascii_digit [h1, h2, mi1, mi2]" using two_digits_list [OF b(5)] two_digits_list [OF b(6)] by auto
  show ?thesis
    using parse_signed_four [OF b(7)] parse_signed_two [OF b(3), of 64] parse_signed_two [OF b(4), of 64]
      parse_signed_two [OF b(5), of 64] parse_signed_two [OF b(6), of 64] y md hm
    by (intro that [of y1 y2 y3 y4 mo1 mo2 d1 d2 h1 h2 mi1 mi2]) (simp_all add: iso_text_def)
qed

lemma iso_tail_plain:
  assumes "iso_ok x"
  shows "list_all is_ascii (iso_tail x)" "iso_tail x \<noteq> []" "\<not> blank_char (last (iso_tail x))"
proof -
  have lits: "is_ascii CHR '':''" "is_ascii CHR ''.''" "is_ascii CHR ''Z''" "is_ascii CHR ''+''" "is_ascii CHR ''-''"
    "\<not> blank_char CHR ''Z''" by code_simp+
  have s: "it_second x < 100" using assms by (simp add: iso_ok_def)
  have off: "list_all is_ascii (iso_offset (it_offset x)) \<and> \<not> blank_char (last (iso_offset (it_offset x)))"
    using assms lits by (cases "it_offset x") (auto simp: iso_ok_def offset_ok_def two_digits_chars digit_char_value)
  have "list_all is_ascii (it_fraction x)" using assms digit_plain by (auto simp: iso_ok_def list_all_iff)
  then show "list_all is_ascii (iso_tail x)" using off lits s by (auto simp: iso_tail_def two_digits_chars digit_char_value)
  show "iso_tail x \<noteq> []" by (simp add: iso_tail_def)
  have "iso_offset (it_offset x) \<noteq> []" using iso_offset_hd by blast
  then have "last (iso_tail x) = last (iso_offset (it_offset x))" by (auto simp: iso_tail_def)
  then show "\<not> blank_char (last (iso_tail x))" using off by simp
qed

lemma days_bound:
  assumes "0 \<le> y" "y < 10000" "1 \<le> m" "m \<le> 12" "1 \<le> d" "d \<le> 31"
  shows "- 1000000 < days_from_civil y m d \<and> days_from_civil y m d < 10000000"
proof -
  define yy where "yy = (if m \<le> 2 then y - 1 else y)"
  define era where "era = (if yy \<ge> 0 then yy div 400 else - ((399 - yy) div 400))"
  have era: "- 1 \<le> era" "era \<le> 24" "0 \<le> yy - era * 400" "yy - era * 400 < 400"
    using assms unfolding era_def yy_def by auto
  have "0 \<le> (yy - era * 400) div 4" "(yy - era * 400) div 4 < 100" "0 \<le> (yy - era * 400) div 100" "(yy - era * 400) div 100 < 4"
    using era by auto
  moreover have "0 \<le> (153 * ((m + 9) mod 12) + 2) div 5" "(153 * ((m + 9) mod 12) + 2) div 5 \<le> 400" by auto
  ultimately show ?thesis
    using era assms by (simp add: days_from_civil_def Let_def flip: yy_def era_def)
qed

lemma str_get_plain:
  assumes "a \<le> b" "b < length s" "\<not> is_cont (s ! a)" "\<not> is_cont (s ! b)"
  shows "str_get a b s = Some (take (b - a) (drop a s))"
  using assms by (auto simp: str_get_def is_char_boundary_def starts_char_def Cons_nth_drop_Suc [symmetric])

lemma iso_utc_minutes:
  assumes "iso_ok x"
  shows "parse_rfc3339_utc_minutes (iso_text x) =
     Some (days_from_civil (it_year x) (it_month x) (it_day x) * 1440 + int (it_hour x * 60 + it_minute x)
       - offset_value (it_offset x))"
proof -
  obtain y1 y2 y3 y4 mo1 mo2 d1 d2 h1 h2 mi1 mi2 where
    s: "iso_text x = [y1, y2, y3, y4, CHR ''-'', mo1, mo2, CHR ''-'', d1, d2, CHR ''T'', h1, h2, CHR '':'', mi1, mi2] @ iso_tail x"
    and ds: "list_all ascii_digit [y1, y2, y3, y4, mo1, mo2, d1, d2, h1, h2, mi1, mi2]"
    and n: "parse_signed 64 [y1, y2, y3, y4] = Some (int (it_year x))" "parse_signed 64 [mo1, mo2] = Some (int (it_month x))"
    "parse_signed 64 [d1, d2] = Some (int (it_day x))" "parse_signed 64 [h1, h2] = Some (int (it_hour x))"
    "parse_signed 64 [mi1, mi2] = Some (int (it_minute x))"
    by (rule iso_parts [OF assms])
  note tail = iso_tail_plain [OF assms]
  have lits: "is_ascii CHR ''-''" "is_ascii CHR ''T''" "is_ascii CHR '':''" "\<not> is_cont CHR ''-''" "\<not> is_cont CHR ''T''" "\<not> is_cont CHR '':''"
    by code_simp+
  have plain: "is_ascii c \<and> \<not> blank_char c \<and> \<not> is_cont c" if "c \<in> {y1, y2, y3, y4, mo1, mo2, d1, d2, h1, h2, mi1, mi2}" for c
    using ds that digit_plain by (auto simp: list_all_iff)
  have t: "trim (iso_text x) = iso_text x"
    using tail lits plain by (intro trim_trimmed) (auto simp: s trimmed_def)
  obtain c0 r where c0: "iso_tail x = CHR '':'' # r" by (simp add: iso_tail_def)
  have get: "str_get 0 4 (iso_text x) = Some [y1, y2, y3, y4]" "str_get 5 7 (iso_text x) = Some [mo1, mo2]"
    "str_get 8 10 (iso_text x) = Some [d1, d2]" "str_get 11 13 (iso_text x) = Some [h1, h2]" "str_get 14 16 (iso_text x) = Some [mi1, mi2]"
    using plain lits by (subst str_get_plain; simp add: s c0)+
  have rest: "Option.bind (skip_seconds (drop 16 (iso_text x))) (\<lambda>rest. Option.bind (read_offset (skip_fraction rest)) f)
      = f (offset_value (it_offset x))" for f :: "int \<Rightarrow> int option"
    using iso_tail_read [OF assms] by (simp add: s bind_eq_Some_conv) (auto simp: bind_eq_Some_conv)
  have bound: "- (2 ^ 63) \<le> days_from_civil (it_year x) (it_month x) (it_day x) * 24 * 60 + int (it_hour x) * 60 + int (it_minute x) - offset_value (it_offset x)"
    "days_from_civil (it_year x) (it_month x) (it_day x) * 24 * 60 + int (it_hour x) * 60 + int (it_minute x) - offset_value (it_offset x) < 2 ^ 63"
  proof -
    have "\<bar>offset_value (it_offset x)\<bar> < 1440"
      using assms by (cases "it_offset x") (auto simp: iso_ok_def offset_ok_def abs_if)
    moreover have "- 1000000 < days_from_civil (it_year x) (it_month x) (it_day x)"
      "days_from_civil (it_year x) (it_month x) (it_day x) < 10000000"
      using days_bound [of "it_year x" "it_month x" "it_day x"] assms by (auto simp: iso_ok_def)
    moreover have "int (it_hour x) < 24" "int (it_minute x) < 60" using assms by (auto simp: iso_ok_def)
    ultimately show "- (2 ^ 63) \<le> days_from_civil (it_year x) (it_month x) (it_day x) * 24 * 60 + int (it_hour x) * 60 + int (it_minute x) - offset_value (it_offset x)"
      "days_from_civil (it_year x) (it_month x) (it_day x) * 24 * 60 + int (it_hour x) * 60 + int (it_minute x) - offset_value (it_offset x) < 2 ^ 63"
      by simp_all
  qed
  have ranges: "int (it_hour x) \<le> 23" "int (it_minute x) \<le> 59" "1 \<le> int (it_month x)" "int (it_month x) \<le> 12" "1 \<le> int (it_day x)" "int (it_day x) \<le> 31"
    using assms by (auto simp: iso_ok_def)
  have len: "16 \<le> length (iso_text x)" and at: "iso_text x ! 4 = CHR ''-''" "iso_text x ! 7 = CHR ''-''" "iso_text x ! 10 = CHR ''T''"
    "iso_text x ! 13 = CHR '':''" by (simp_all add: s)
  have "parse_rfc3339_utc_minutes (iso_text x) = Some (i64 (days_from_civil (it_year x) (it_month x) (it_day x) * 24 * 60
      + int (it_hour x) * 60 + int (it_minute x) - offset_value (it_offset x)))"
    using len ranges by (simp add: parse_rfc3339_utc_minutes_def t get n rest at)
  then show ?thesis unfolding i64_small [OF bound] by simp
qed

lemma i32_range: "- (2 ^ 31) \<le> i32 v \<and> i32 v < 2 ^ 31"
  using sint_ge [of "word_of_int v :: 32 word"] sint_lt [of "word_of_int v :: 32 word"] by (simp add: i32_def)

lemma timezone_range: "timezone_utc_offset_minutes tz = Some v \<Longrightarrow> - (2 ^ 31) \<le> v \<and> v < 2 ^ 31"
proof -
  assume "timezone_utc_offset_minutes tz = Some v"
  then have "v \<in> {480, 0} \<or> (\<exists>w. v = i32 w)"
    by (simp only: timezone_utc_offset_minutes_def Let_def bind_eq_Some_conv split: if_splits prod.splits) auto
  then show ?thesis using i32_range by auto
qed

text \<open>C35: When a request is billed at the peak price. For a valid table and a completion time in RFC 3339, with any date,
seconds, fraction and offset, the period is the peak one exactly when the table has an active peak rule and
one of its windows contains the minute of the day in the table's time zone; otherwise the request is billed
once. The date only matters through the time zone's day boundary.
\<close>

theorem billing_period_exact:
  assumes "valid_table t" "iso_ok x"
  defines "p \<equiv> pt_peak_valley t"
    and "minute \<equiv> (int (it_hour x * 60 + it_minute x) - offset_value (it_offset x) + pv_utc_offset_minutes (pt_peak_valley t)) mod 1440"
  shows "period_for p (iso_text x) =
      (if is_active p \<and> list_ex (\<lambda>w. window_contains w (nat minute)) (pv_windows p)
       then \<lparr>bp_name = ''peak'', bp_multiplier = pv_multiplier p\<rparr> else off_peak)"
proof -
  let ?d = "days_from_civil (it_year x) (it_month x) (it_day x)"
  have tz: "- (2 ^ 31) \<le> pv_utc_offset_minutes p" "pv_utc_offset_minutes p < 2 ^ 31"
    using assms(1) timezone_range by (auto simp: valid_table_def valid_peak_def p_def)
  have utc: "parse_rfc3339_utc_minutes (iso_text x)
      = Some (?d * 1440 + int (it_hour x * 60 + it_minute x) - offset_value (it_offset x))"
    by (rule iso_utc_minutes [OF assms(2)])
  have "\<bar>offset_value (it_offset x)\<bar> < 1440"
    using assms(2) by (cases "it_offset x") (auto simp: iso_ok_def offset_ok_def abs_if)
  moreover have "- 1000000 < ?d" "?d < 10000000"
    using days_bound [of "it_year x" "it_month x" "it_day x"] assms(2) by (auto simp: iso_ok_def)
  moreover have "it_hour x < 24" "it_minute x < 60" using assms(2) by (auto simp: iso_ok_def)
  ultimately have small: "i64 (?d * 1440 + int (it_hour x * 60 + it_minute x) - offset_value (it_offset x) + pv_utc_offset_minutes p)
      = ?d * 1440 + int (it_hour x * 60 + it_minute x) - offset_value (it_offset x) + pv_utc_offset_minutes p"
    using tz by (intro i64_small) simp_all
  have "(?d * 1440 + int (it_hour x * 60 + it_minute x) - offset_value (it_offset x) + pv_utc_offset_minutes p) mod 1440 = minute"
    unfolding minute_def p_def
    using mod_mult_self1 [of "int (it_hour x * 60 + it_minute x) - offset_value (it_offset x)
        + pv_utc_offset_minutes (pt_peak_valley t)" ?d 1440] by (simp add: algebra_simps)
  then have "local_minute_of_day (iso_text x) (pv_utc_offset_minutes p) = Some (nat minute)"
    unfolding local_minute_of_day_def utc option.map small by simp
  then show ?thesis by (simp add: period_for_def)
qed

definition demo_time :: iso_time where
  "demo_time = \<lparr>it_year = 2026, it_month = 7, it_day = 31, it_hour = 23, it_minute = 30, it_second = 5, it_fraction = ''25'',
     it_offset = Some (True, 3, 30)\<rparr>"

text \<open>Half past eleven in the evening, west of Greenwich: eleven in the morning in Beijing.\<close>

lemma billing_period_exact_witness:
  "iso_text demo_time = ''2026-07-31T23:30:05.25-03:30''
   \<and> bp_name (period_for (pt_peak_valley demo_table) (iso_text demo_time)) = ''peak''"
proof -
  have ok: "iso_ok demo_time" by (simp add: iso_ok_def demo_time_def offset_ok_def) code_simp
  have "iso_text demo_time = ''2026-07-31T23:30:05.25-03:30''"
    by (simp add: iso_text_def iso_tail_def demo_time_def two_digits_chars digit_char_def)
  moreover have "pt_peak_valley demo_table = default_peak_valley" by (simp add: demo_table_def default_pricing_def)
  ultimately show ?thesis
    using billing_period_exact [OF demo_table_valid ok]
    by (simp add: is_active_def default_peak_valley_def window_contains_def demo_time_def)
qed

section \<open>The estimate\<close>

text \<open>
  Rounding to the nearest value keeps the order and zero. More tokens never cost less, and nothing is free
  or refunded below zero.
\<close>

definition rounding :: "(rat \<Rightarrow> rat) \<Rightarrow> bool" where
  "rounding rnd = (mono rnd \<and> rnd 0 = 0)"

lemma rnd_nonneg: "rounding rnd \<Longrightarrow> 0 \<le> v \<Longrightarrow> 0 \<le> rnd v"
  unfolding rounding_def by (metis monoD)

lemma estimate_amount_mono:
  assumes "rounding rnd" "is_finite_and_non_negative r" "c \<le> c'" "i \<le> i'" "k \<le> k'" "0 \<le> m" "m \<le> m'"
  shows "0 \<le> estimate_amount rnd r m c i k \<and> estimate_amount rnd r m c i k \<le> estimate_amount rnd r m' c' i' k'"
proof -
  note mono = monoD [of rnd] and nonneg = rnd_nonneg [OF assms(1)]
  have m: "mono rnd" using assms(1) by (simp add: rounding_def)
  have r: "0 \<le> mr_cached_input r" "0 \<le> mr_cache_miss_input r" "0 \<le> mr_output r"
    using assms(2) by (simp_all add: is_finite_and_non_negative_def)
  define price where "price = (\<lambda>n rate. rnd (rnd (of_nat n) * rate))"
  have p: "0 \<le> price n rate" "price n rate \<le> price n' rate" if "0 \<le> rate" "n \<le> n'" for n n' rate
    using that m by (auto simp: price_def intro!: nonneg mono mult_right_mono mult_nonneg_nonneg)
  define subtotal where "subtotal = (\<lambda>c i k. rnd (rnd (rnd (price c (mr_cached_input r) + price i (mr_cache_miss_input r))
      + price k (mr_output r)) / 1000000))"
  have s0: "0 \<le> subtotal c i k" for c i k
    using p(1) [OF _ order_refl] r by (auto simp: subtotal_def intro!: nonneg add_nonneg_nonneg)
  have s: "subtotal c i k \<le> subtotal c' i' k'"
    using p(2) r assms(3-5) m by (auto simp: subtotal_def intro!: mono add_mono divide_right_mono)
  have "estimate_amount rnd r m c i k = rnd (subtotal c i k * m)" for m c i k
    by (simp add: estimate_amount_def subtotal_def price_def Let_def)
  then show ?thesis
    using s s0 assms(6,7) m by (auto intro!: nonneg mono mult_mono mult_nonneg_nonneg)
qed

text \<open>What a request costs. A valid table prices a model by its own rate, and otherwise by the rate of its group;
the estimate is there exactly when one of them is. It is never negative, grows with each count of tokens, and
is at most as high off the peak as with the same counts at the peak.
\<close>

lemma estimate_monotone:
  assumes "valid_table t" "rounding rnd" "c \<le> c'" "i \<le> i'" "k \<le> k'"
  shows "(estimate rnd t model grp c i k time = None \<longleftrightarrow>
        map_of (pt_rates t) (trim model) = None
        \<and> (map_option trim grp \<in> {None, Some []} \<or> map_of (pt_groups t) (trim (the grp)) = None))
     \<and> (case (estimate rnd t model grp c i k time, estimate rnd t model grp c' i' k' time') of
          (Some e, Some e') \<Rightarrow> 0 \<le> ce_amount e \<and> ce_rates e = ce_rates e'
            \<and> (ce_billing_multiplier e \<le> ce_billing_multiplier e' \<longrightarrow> ce_amount e \<le> ce_amount e')
            \<and> (ce_billing_period e = ''off_peak'' \<longrightarrow> ce_amount e \<le> ce_amount e')
        | (None, None) \<Rightarrow> True
        | _ \<Rightarrow> False)"
proof -
  let ?p = "pt_peak_valley t"
  have exists: "estimate rnd t model grp c i k time = None \<longleftrightarrow> rate_for t model grp = None" for c i k time
    by (simp add: estimate_def)
  have rate: "rate_for t model grp = None \<longleftrightarrow> map_of (pt_rates t) (trim model) = None
      \<and> (map_option trim grp \<in> {None, Some []} \<or> map_of (pt_groups t) (trim (the grp)) = None)"
    by (cases grp) (auto simp: rate_for_def opt_filter_def split: option.split)
  have mult: "1 \<le> bp_multiplier (period_for ?p x)" "bp_name (period_for ?p x) = ''off_peak'' \<Longrightarrow> bp_multiplier (period_for ?p x) = 1" for x
    by (auto simp: period_for_def off_peak_def is_active_def split: option.split)
  have nonneg: "is_finite_and_non_negative (rr_rates res)" if "rate_for t model grp = Some res" for res
    using that assms(1)
    by (auto simp: rate_for_def valid_table_def valid_rates_def list_all_iff bind_eq_Some_conv split: option.splits
        dest!: map_of_SomeD)
  show ?thesis
  proof (cases "rate_for t model grp")
    case None
    then show ?thesis using exists rate by (simp add: estimate_def)
  next
    case (Some res)
    have amounts: "0 \<le> estimate_amount rnd (rr_rates res) m c i k \<and>
        estimate_amount rnd (rr_rates res) m c i k \<le> estimate_amount rnd (rr_rates res) m' c' i' k'"
      if "0 \<le> m" "m \<le> m'" for m m'
      using estimate_amount_mono [OF assms(2) nonneg [OF Some] assms(3-5) that] .
    have m0: "0 \<le> bp_multiplier (period_for ?p x)" for x using mult(1) [of x] by simp
    show ?thesis
      unfolding rate [symmetric] using Some amounts [OF m0 order_refl] amounts [OF m0, of time "bp_multiplier (period_for ?p time')"]
        mult(1) [of time'] mult(2) [of time]
      by (auto simp: estimate_def Let_def)
  qed
qed

section \<open>Gaps\<close>

text \<open>
  The components of a time zone offset are read as signed numbers and only bounded above, so that a second
  sign is accepted; and a window cannot reach the end of the day.
\<close>

lemma double_signed_offset: "timezone_utc_offset_minutes ''+-5:-30'' = Some (-330)"
  by code_simp

lemma last_minute_never_peak:
  assumes "valid_peak p" "pw \<in> set (pv_windows p)"
  shows "\<not> window_contains pw 1439"
  using assms by (auto simp: valid_peak_def list_all_iff valid_window_def window_contains_def)

end
