(* ===== verification/Catalog.thy ===== *)
theory Catalog
  imports Pricing
begin

text \<open>
  The model catalog: \<^verbatim>\<open>crates/core/src/models.rs\<close> and the documents of \<^verbatim>\<open>crates/core/src/catalog.rs\<close>. A document
  is a set of models with prices, read from JSON and validated; documents are layered (built-in, remote,
  user overrides), requests are resolved to models and upstream names, and the document is combined with the
  private prompt seed into the catalog that Codex gets.

  The built-in document is data of the repository and the argument \<open>embedded\<close>; the version of the program is the
  argument \<open>app_version\<close>, and the message of a failed deserialisation the argument \<open>model_error\<close>. Reading and
  writing files and the rewriting of old prompt texts in the seed are not modelled.
\<close>

section \<open>Models\<close>

definition MODEL_FLASH :: string where "MODEL_FLASH = ''deepseek-v4-flash''"
definition MODEL_PRO :: string where "MODEL_PRO = ''deepseek-v4-pro''"

datatype upstream_model_override = Default | Flash | Pro | Custom string

fun pinned_slug :: "upstream_model_override \<Rightarrow> string option" where
  "pinned_slug Default = None"
| "pinned_slug Flash = Some MODEL_FLASH"
| "pinned_slug Pro = Some MODEL_PRO"
| "pinned_slug (Custom slug) = Some slug"

definition is_codex_native_gpt_model :: "string \<Rightarrow> bool" where
  "is_codex_native_gpt_model v = (v = ''gpt-5'' \<or> starts_with v ''gpt-5.'' \<or> starts_with v ''gpt-5-'')"

definition default_upstream_slug :: "string \<Rightarrow> string" where
  "default_upstream_slug requested =
     (let requested = trim requested; normalized = to_ascii_lowercase requested
      in if normalized = [] then MODEL_PRO
         else if normalized = MODEL_FLASH then MODEL_FLASH
         else if normalized = MODEL_PRO then MODEL_PRO
         else if is_codex_native_gpt_model normalized then MODEL_PRO
         else requested)"

definition override_upstream_slug :: "upstream_model_override \<Rightarrow> string \<Rightarrow> string" where
  "override_upstream_slug m requested =
     (case pinned_slug m of Some slug \<Rightarrow> slug | None \<Rightarrow> default_upstream_slug requested)"

definition override_from_label :: "string \<Rightarrow> upstream_model_override" where
  "override_from_label value =
     (let v = to_ascii_lowercase (trim value)
      in if v = [] \<or> v = ''default'' then Default
         else if v = ''flash'' \<or> v = MODEL_FLASH then Flash
         else if v = ''pro'' \<or> v = MODEL_PRO then Pro
         else Custom (trim value))"

fun override_label :: "upstream_model_override \<Rightarrow> string" where
  "override_label Default = ''default''"
| "override_label Flash = ''flash''"
| "override_label Pro = ''pro''"
| "override_label (Custom slug) = slug"

datatype temperature_preset = TDefault | Strict | Balanced | General | Creative

text \<open>The presets are \<^verbatim>\<open>f32\<close>; 1.3 is the nearest \<^verbatim>\<open>f32\<close> to it.\<close>

fun temperature_value :: "temperature_preset \<Rightarrow> rat option" where
  "temperature_value TDefault = None"
| "temperature_value Strict = Some 0"
| "temperature_value Balanced = Some 1"
| "temperature_value General = Some (10905190 / 8388608)"
| "temperature_value Creative = Some (3 / 2)"

datatype model_thinking = ThinkAuto | ThinkEnabled | ThinkDisabled

fun thinking_label :: "model_thinking \<Rightarrow> string" where
  "thinking_label ThinkAuto = ''auto''"
| "thinking_label ThinkEnabled = ''enabled''"
| "thinking_label ThinkDisabled = ''disabled''"

definition parse_model_thinking :: "string \<Rightarrow> model_thinking option" where
  "parse_model_thinking value =
     (let v = to_ascii_lowercase (trim value)
      in if v \<in> {[], ''auto'', ''default''} then Some ThinkAuto
         else if v \<in> {''enabled'', ''on'', ''enable''} then Some ThinkEnabled
         else if v \<in> {''disabled'', ''off'', ''disable''} then Some ThinkDisabled
         else None)"

section \<open>Versions\<close>

definition parse_u64 :: "string \<Rightarrow> nat option" where
  "parse_u64 s = opt_filter (\<lambda>n. n \<le> u64_max) (digits_value (unwrap_or s (strip_prefix ''+'' s)))"

definition trim_v :: "string \<Rightarrow> string" where
  "trim_v s = dropWhile (\<lambda>c. c = CHR ''v'') (trim s)"

fun split_where :: "(char \<Rightarrow> bool) \<Rightarrow> string \<Rightarrow> string list" where
  "split_where p [] = [[]]"
| "split_where p (c # cs) =
     (if p c then [] # split_where p cs
      else (case split_where p cs of [] \<Rightarrow> [[c]] | l # ls \<Rightarrow> (c # l) # ls))"

definition version_separator :: "char \<Rightarrow> bool" where
  "version_separator c = (c \<in> {CHR ''.'', CHR ''-'', CHR ''+''})"

definition segments :: "string \<Rightarrow> nat list" where
  "segments value = map (\<lambda>s. unwrap_or 0 (parse_u64 (trim s))) (split_where version_separator (trim_v value))"

definition segment_at :: "nat list \<Rightarrow> nat \<Rightarrow> nat" where
  "segment_at xs i = (if i < length xs then xs ! i else 0)"

fun compare_segments :: "nat list \<Rightarrow> nat list \<Rightarrow> nat list \<Rightarrow> bool" where
  "compare_segments current required [] = True"
| "compare_segments current required (i # is) =
     (if segment_at current i \<noteq> segment_at required i then segment_at current i > segment_at required i
      else compare_segments current required is)"

definition version_at_least :: "string \<Rightarrow> string \<Rightarrow> bool" where
  "version_at_least current required =
     (let c = segments current; r = segments required in compare_segments c r [0..<max (length c) (length r)])"

definition revision_is_older :: "string \<Rightarrow> string \<Rightarrow> bool" where
  "revision_is_older current candidate =
     (let c = trim_v current; n = trim_v candidate
      in parse_u64 (hd (split_where version_separator n)) \<noteq> None \<and> c \<noteq> n \<and> version_at_least c n)"

section \<open>Catalog models\<close>

record catalog_model =
  cm_slug :: string
  cm_display_name :: string
  cm_description :: string
  cm_context_window :: nat
  cm_percent :: nat
  cm_priority :: nat
  cm_extra :: "(string \<times> json) list"

datatype catalog_model_kind = ChatModel | BillingOnly

fun kind_label :: "catalog_model_kind \<Rightarrow> string" where
  "kind_label ChatModel = ''chat''"
| "kind_label BillingOnly = ''billing_only''"

definition kind_from_value :: "json option \<Rightarrow> catalog_model_kind" where
  "kind_from_value value =
     (case map_option (\<lambda>s. to_ascii_lowercase (trim s)) (Option.bind value as_str) of
        Some k \<Rightarrow> if k \<in> {''billing_only'', ''billing'', ''pricing'', ''pricing_only''} then BillingOnly else ChatModel
      | None \<Rightarrow> ChatModel)"

definition extra_of :: "catalog_model \<Rightarrow> string \<Rightarrow> json option" where
  "extra_of m key = map_of (cm_extra m) key"

definition trimmed_extra :: "catalog_model \<Rightarrow> string \<Rightarrow> string option" where
  "trimmed_extra m key = opt_filter (\<lambda>v. v \<noteq> []) (map_option trim (Option.bind (extra_of m key) as_str))"

definition model_kind :: "catalog_model \<Rightarrow> catalog_model_kind" where
  "model_kind m = kind_from_value (extra_of m ''kind'')"

definition is_billing_only :: "catalog_model \<Rightarrow> bool" where
  "is_billing_only m = (model_kind m = BillingOnly)"

definition model_role :: "catalog_model \<Rightarrow> string option" where
  "model_role m = trimmed_extra m ''role''"

definition strings_of :: "catalog_model \<Rightarrow> string \<Rightarrow> string list" where
  "strings_of m key = List.map_filter as_str (unwrap_or [] (Option.bind (extra_of m key) as_array))"

definition aliases :: "catalog_model \<Rightarrow> string list" where
  "aliases m = strings_of m ''aliases''"

definition alias_patterns :: "catalog_model \<Rightarrow> string list" where
  "alias_patterns m = strings_of m ''alias_patterns''"

definition upstream_slug_or_slug :: "catalog_model \<Rightarrow> string" where
  "upstream_slug_or_slug m = unwrap_or (cm_slug m) (trimmed_extra m ''upstream_slug'')"

definition model_pricing_group :: "catalog_model \<Rightarrow> string option" where
  "model_pricing_group m = trimmed_extra m ''pricing_group''"

definition is_explicit_default :: "catalog_model \<Rightarrow> bool" where
  "is_explicit_default m = (Option.bind (extra_of m ''is_default'') as_bool = Some True)"

definition alias_pattern_matches :: "string \<Rightarrow> string \<Rightarrow> bool" where
  "alias_pattern_matches pattern value =
     (let pattern = to_ascii_lowercase (trim pattern); value = to_ascii_lowercase (trim value)
      in if pattern = [] then False
         else if last pattern = CHR ''*'' then starts_with value (butlast pattern)
         else case strip_prefix ''*'' pattern of
                Some tail \<Rightarrow> ends_with value tail
              | None \<Rightarrow> pattern = value)"

section \<open>Documents\<close>

record catalog_document =
  cd_schema_version :: nat
  cd_revision :: string
  cd_issued_at :: "string option"
  cd_provider_name :: string
  cd_default_model :: string
  cd_min_app_version :: "string option"
  cd_models :: "catalog_model list"
  cd_pricing :: pricing_table

definition SUPPORTED_CATALOG_SCHEMA_VERSION :: nat where "SUPPORTED_CATALOG_SCHEMA_VERSION = 1"

definition CATALOG_PROMPT_FIELDS :: "string list" where
  "CATALOG_PROMPT_FIELDS = [''base_instructions'', ''model_messages'']"

definition MAX_CATALOG_DOCUMENT_BYTES :: nat where "MAX_CATALOG_DOCUMENT_BYTES = 256 * 1024"

record catalog_env =
  ce_lib :: ext_lib
  ce_rnd :: "rat \<Rightarrow> rat"
  ce_app_version :: string
  ce_model_error :: "json \<Rightarrow> string"
  ce_json_error :: "string \<Rightarrow> string"

text \<open>\<^verbatim>\<open>serde_json::from_value\<close> of a model: the six fields at their types, all others kept in \<^verbatim>\<open>extra\<close>.\<close>

definition model_fields :: "string list" where
  "model_fields = [''slug'', ''display_name'', ''description'', ''context_window'', ''effective_context_window_percent'', ''priority'']"

definition bounded :: "nat \<Rightarrow> json option \<Rightarrow> nat option" where
  "bounded limit v = opt_filter (\<lambda>n. n \<le> limit) (Option.bind v as_u64)"

definition model_from_value :: "json \<Rightarrow> catalog_model option" where
  "model_from_value value =
     Option.bind (as_object value) (\<lambda>m.
     Option.bind (Option.bind (map_of m ''slug'') as_str) (\<lambda>slug.
     Option.bind (Option.bind (map_of m ''display_name'') as_str) (\<lambda>display_name.
     Option.bind (Option.bind (map_of m ''description'') as_str) (\<lambda>description.
     Option.bind (bounded u64_max (map_of m ''context_window'')) (\<lambda>context_window.
     Option.bind (bounded 255 (map_of m ''effective_context_window_percent'')) (\<lambda>percent.
     Option.bind (bounded u32_max (map_of m ''priority'')) (\<lambda>priority.
       Some \<lparr>cm_slug = slug, cm_display_name = display_name, cm_description = description,
         cm_context_window = context_window, cm_percent = percent, cm_priority = priority,
         cm_extra = filter (\<lambda>e. fst e \<notin> set model_fields) m\<rparr>)))))))"

definition model_to_value :: "catalog_model \<Rightarrow> json" where
  "model_to_value m = jobj ([(''slug'', JStr (cm_slug m)), (''display_name'', JStr (cm_display_name m)),
     (''description'', JStr (cm_description m)), (''context_window'', jnat (cm_context_window m)),
     (''effective_context_window_percent'', jnat (cm_percent m)), (''priority'', jnat (cm_priority m))] @ cm_extra m)"

definition slug_char :: "char \<Rightarrow> bool" where
  "slug_char c = (ascii_digit c \<or> ascii_upper c \<or> (97 \<le> byte_val c \<and> byte_val c \<le> 122) \<or> c \<in> {CHR ''-'', CHR ''_'', CHR ''.''})"

definition blank_entry :: "json \<Rightarrow> bool" where
  "blank_entry v = (opt_filter (\<lambda>s. s \<noteq> []) (map_option trim (as_str v)) = None)"

definition check_names :: "catalog_model \<Rightarrow> string \<Rightarrow> string \<Rightarrow> string + unit" where
  "check_names m key entry_name =
     (case extra_of m key of
        None \<Rightarrow> Inr ()
      | Some values \<Rightarrow>
          and_then (ok_or (''catalog model '' @ trim (cm_slug m) @ '' '' @ key @ '' must be an array'') (as_array values)) (\<lambda>values.
            if list_ex blank_entry values then Inl (''catalog model '' @ trim (cm_slug m) @ '' has an empty '' @ entry_name)
            else Inr ()))"

definition validate_catalog_model :: "catalog_model \<Rightarrow> string + unit" where
  "validate_catalog_model m =
     (let slug = trim (cm_slug m); model_name = ''catalog model '' @ slug
      in if slug = [] then Inl ''catalog model slug must not be empty''
         else if \<not> list_all slug_char slug then Inl (''catalog model slug has unsupported characters: '' @ slug)
         else case find (\<lambda>key. extra_of m key \<noteq> None) CATALOG_PROMPT_FIELDS of
           Some key \<Rightarrow> Inl (model_name @ '' must not declare '' @ key @ ''; prompt material is compiled into CodeSeeX'')
         | None \<Rightarrow>
             if trim (cm_display_name m) = [] then Inl (model_name @ '' needs a display_name'')
             else if cm_context_window m = 0 then Inl (model_name @ '' needs a positive context_window'')
             else if \<not> (1 \<le> cm_percent m \<and> cm_percent m \<le> 100)
             then Inl (model_name @ '' needs an effective_context_window_percent between 1 and 100'')
             else if Option.bind (extra_of m ''max_context_window'') as_u64 = Some 0
             then Inl (model_name @ '' needs a positive max_context_window'')
             else
               and_then (check_names m ''aliases'' ''aliases entry'') (\<lambda>_.
               and_then (check_names m ''alias_patterns'' ''alias_patterns entry'') (\<lambda>_.
                 check_names m ''aliases'' ''alias'')))"

definition doc_text :: "(string \<times> json) list \<Rightarrow> string \<Rightarrow> string option" where
  "doc_text m key = opt_filter (\<lambda>v. v \<noteq> []) (map_option trim (Option.bind (map_of m key) as_str))"

fun read_models :: "catalog_env \<Rightarrow> string set \<Rightarrow> json list \<Rightarrow> string + catalog_model list" where
  "read_models V seen [] = Inr []"
| "read_models V seen (value # rest) =
     and_then (ok_or (''catalog model is invalid: '' @ ce_model_error V value) (model_from_value value)) (\<lambda>model.
     and_then (validate_catalog_model model) (\<lambda>_.
       if cm_slug model \<in> seen then Inl (''duplicate model slug: '' @ cm_slug model)
       else and_then (read_models V (insert (cm_slug model) seen) rest) (\<lambda>models. Inr (model # models))))"

definition document_from_value :: "catalog_env \<Rightarrow> json \<Rightarrow> string + catalog_document" where
  "document_from_value V value =
     and_then (ok_or ''catalog document must be an object'' (as_object value)) (\<lambda>m.
     and_then (ok_or ''catalog document is missing schema_version'' (Option.bind (map_of m ''schema_version'') as_u64)) (\<lambda>version.
       if version \<noteq> SUPPORTED_CATALOG_SCHEMA_VERSION
       then Inl (''unsupported catalog schema_version '' @ nat_str version @ ''; expected '' @ nat_str SUPPORTED_CATALOG_SCHEMA_VERSION)
       else
         and_then (ok_or ''catalog document needs a non-empty revision'' (doc_text m ''revision'')) (\<lambda>revision.
         (let min_version = doc_text m ''min_app_version''; default_model = unwrap_or [] (doc_text m ''default_model'')
          in if is_some_and (\<lambda>required. \<not> version_at_least (ce_app_version V) required) min_version
             then Inl (''catalog document requires CodeSeeX '' @ the min_version @ '' or newer (current '' @ ce_app_version V @ '')'')
             else
               and_then (ok_or ''catalog document is missing a models array'' (Option.bind (map_of m ''models'') as_array)) (\<lambda>values.
                 if values = [] then Inl ''catalog document must declare at least one model''
                 else
                   and_then (read_models V {} values) (\<lambda>models.
                     if \<not> list_ex is_explicit_default models \<and> \<not> list_ex (\<lambda>model. cm_slug model = default_model) models
                     then Inl ''catalog document must declare a default model''
                     else
                       and_then (case map_of m ''pricing'' of
                                   Some v \<Rightarrow> pricing_from_value (ce_rnd V) v | None \<Rightarrow> Inr default_pricing) (\<lambda>pricing.
                         Inr \<lparr>cd_schema_version = SUPPORTED_CATALOG_SCHEMA_VERSION, cd_revision = revision,
                           cd_issued_at = doc_text m ''issued_at'', cd_provider_name = unwrap_or ''CodeSeeX'' (doc_text m ''provider_name''),
                           cd_default_model = default_model, cd_min_app_version = min_version,
                           cd_models = models, cd_pricing = pricing\<rparr>)))))))"

definition document_from_json :: "catalog_env \<Rightarrow> string \<Rightarrow> string + catalog_document" where
  "document_from_json V s =
     (if length s > MAX_CATALOG_DOCUMENT_BYTES
      then Inl (''catalog document exceeds '' @ nat_str MAX_CATALOG_DOCUMENT_BYTES @ '' bytes'')
      else and_then (ok_or (''catalog document is not valid JSON: '' @ ce_json_error V s) (json_from_str (ce_lib V) s))
             (document_from_value V))"

definition document_to_value :: "catalog_document \<Rightarrow> json" where
  "document_to_value d = jobj [(''schema_version'', jnat (cd_schema_version d)), (''revision'', JStr (cd_revision d)),
     (''issued_at'', jopt JStr (cd_issued_at d)), (''provider_name'', JStr (cd_provider_name d)),
     (''default_model'', JStr (cd_default_model d)), (''min_app_version'', jopt JStr (cd_min_app_version d)),
     (''models'', JArr (map model_to_value (cd_models d))), (''pricing'', pricing_to_value (cd_pricing d))]"

section \<open>Lookup\<close>

definition document_model :: "catalog_document \<Rightarrow> string \<Rightarrow> catalog_model option" where
  "document_model d slug =
     (let slug = trim slug
      in or_else (find (\<lambda>m. cm_slug m = slug) (cd_models d))
           (find (\<lambda>m. list_ex (\<lambda>a. eq_ignore_ascii_case a slug) (aliases m)) (cd_models d)))"

definition model_with_role :: "catalog_document \<Rightarrow> string \<Rightarrow> catalog_model option" where
  "model_with_role d role = find (\<lambda>m. is_some_and (\<lambda>v. eq_ignore_ascii_case v role) (model_role m)) (cd_models d)"

definition default_slug :: "catalog_document \<Rightarrow> string" where
  "default_slug d =
     (if trim (cd_default_model d) = [] then
        (case or_else (find is_explicit_default (cd_models d)) (find (\<lambda>_. True) (cd_models d)) of
           Some m \<Rightarrow> cm_slug m | None \<Rightarrow> MODEL_PRO)
      else cd_default_model d)"

definition model_for_request :: "catalog_document \<Rightarrow> string \<Rightarrow> catalog_model option" where
  "model_for_request d requested =
     (let requested = trim requested
      in if requested = [] then None
         else or_else (find (\<lambda>m. eq_ignore_ascii_case (cm_slug m) requested) (cd_models d))
           (or_else (find (\<lambda>m. list_ex (\<lambda>a. eq_ignore_ascii_case a requested) (aliases m)) (cd_models d))
             (find (\<lambda>m. list_ex (\<lambda>p. alias_pattern_matches p requested) (alias_patterns m)) (cd_models d))))"

definition pricing_group_for :: "catalog_document \<Rightarrow> string \<Rightarrow> string option" where
  "pricing_group_for d slug = Option.bind (document_model d slug) model_pricing_group"

definition upstream_slug_for :: "catalog_document \<Rightarrow> string \<Rightarrow> string" where
  "upstream_slug_for d requested =
     (if trim requested = [] then default_slug d
      else case model_for_request d (trim requested) of
             Some m \<Rightarrow> upstream_slug_or_slug m
           | None \<Rightarrow> trim requested)"

section \<open>Layers\<close>

definition or_insert_extra :: "string \<Rightarrow> json \<Rightarrow> catalog_model \<Rightarrow> catalog_model" where
  "or_insert_extra key value m =
     (if extra_of m key = None then m\<lparr>cm_extra := om_insert key value (cm_extra m)\<rparr> else m)"

definition insert_extra :: "string \<Rightarrow> json \<Rightarrow> catalog_model \<Rightarrow> catalog_model" where
  "insert_extra key value m = m\<lparr>cm_extra := om_insert key value (cm_extra m)\<rparr>"

definition merge_model :: "catalog_document \<Rightarrow> catalog_model \<Rightarrow> catalog_model" where
  "merge_model base m =
     (case document_model base (cm_slug m) of
        Some b \<Rightarrow> fold (\<lambda>(k, v). or_insert_extra k v) (cm_extra b) m
      | None \<Rightarrow> m)"

definition merge_authoritative :: "catalog_document \<Rightarrow> catalog_document \<Rightarrow> catalog_document" where
  "merge_authoritative base overlay =
     \<lparr>cd_schema_version = cd_schema_version overlay, cd_revision = cd_revision overlay,
      cd_issued_at = or_else (cd_issued_at overlay) (cd_issued_at base),
      cd_provider_name = (if trim (cd_provider_name overlay) = [] then cd_provider_name base else cd_provider_name overlay),
      cd_default_model = (if trim (cd_default_model overlay) = [] then cd_default_model base else cd_default_model overlay),
      cd_min_app_version = cd_min_app_version overlay, cd_models = map (merge_model base) (cd_models overlay),
      cd_pricing = (if pt_rates (cd_pricing overlay) = [] \<and> pt_groups (cd_pricing overlay) = []
                    then cd_pricing base else cd_pricing overlay)\<rparr>"

record catalog_model_override =
  mo_display_name :: "string option"
  mo_short_display_name :: "string option"
  mo_description :: "string option"
  mo_context_window :: "nat option"
  mo_percent :: "nat option"
  mo_upstream_slug :: "string option"
  mo_aliases :: "string list option"
  mo_pricing_group :: "string option"
  mo_is_default :: "bool option"
  mo_hidden :: "bool option"

record catalog_overrides =
  co_models :: "(string \<times> catalog_model_override) list"
  co_pricing :: "json option"

definition overrides_empty :: "catalog_overrides \<Rightarrow> bool" where
  "overrides_empty c = (co_models c = [] \<and> co_pricing c = None)"

definition when_some :: "('a \<Rightarrow> 'm \<Rightarrow> 'm) \<Rightarrow> 'a option \<Rightarrow> 'm \<Rightarrow> 'm" where
  "when_some f v m = (case v of Some x \<Rightarrow> f x m | None \<Rightarrow> m)"

definition apply_to :: "catalog_model_override \<Rightarrow> catalog_model \<Rightarrow> catalog_model" where
  "apply_to p m =
     (let m = when_some (\<lambda>v. cm_display_name_update (\<lambda>_. v)) (mo_display_name p) m;
          m = when_some (\<lambda>v. cm_description_update (\<lambda>_. v)) (mo_description p) m;
          m = when_some (\<lambda>v. cm_context_window_update (\<lambda>_. v)) (mo_context_window p) m;
          m = when_some (\<lambda>v. cm_percent_update (\<lambda>_. v)) (mo_percent p) m;
          m = when_some (\<lambda>v. insert_extra ''short_display_name'' (JStr v)) (mo_short_display_name p) m;
          m = when_some (\<lambda>v. insert_extra ''upstream_slug'' (JStr v)) (mo_upstream_slug p) m;
          m = when_some (\<lambda>v. insert_extra ''pricing_group'' (JStr v)) (mo_pricing_group p) m;
          m = when_some (\<lambda>v. insert_extra ''aliases'' (JArr (map JStr v))) (mo_aliases p) m;
          m = when_some (\<lambda>v. insert_extra ''is_default'' (JBool v)) (mo_is_default p) m
      in when_some (\<lambda>v. insert_extra ''hidden'' (JBool v)) (mo_hidden p) m)"

definition to_catalog_model :: "catalog_document \<Rightarrow> catalog_model_override \<Rightarrow> string \<Rightarrow> catalog_model option" where
  "to_catalog_model embedded p slug =
     (if mo_display_name p = None \<and> mo_description p = None then None
      else
        let model = (case cd_models embedded of
                       m # _ \<Rightarrow> m
                     | [] \<Rightarrow> \<lparr>cm_slug = slug, cm_display_name = slug, cm_description = [], cm_context_window = 1000000,
                               cm_percent = 95, cm_priority = 2, cm_extra = []\<rparr>);
            model = model\<lparr>cm_slug := slug, cm_display_name := unwrap_or slug (mo_display_name p),
                      cm_description := unwrap_or [] (mo_description p)\<rparr>
        in Some (apply_to p model))"

fun update_first :: "('a \<Rightarrow> bool) \<Rightarrow> ('a \<Rightarrow> 'a) \<Rightarrow> 'a list \<Rightarrow> 'a list" where
  "update_first p f [] = []"
| "update_first p f (x # xs) = (if p x then f x # xs else x # update_first p f xs)"

definition override_model ::
  "catalog_document \<Rightarrow> string \<times> catalog_model_override \<Rightarrow> catalog_model list \<Rightarrow> catalog_model list" where
  "override_model embedded e models =
     (case e of (slug, p) \<Rightarrow>
        if list_ex (\<lambda>m. cm_slug m = slug) models then update_first (\<lambda>m. cm_slug m = slug) (apply_to p) models
        else case to_catalog_model embedded p slug of Some m \<Rightarrow> models @ [m] | None \<Rightarrow> models)"

definition apply_catalog_overrides ::
  "catalog_env \<Rightarrow> catalog_document \<Rightarrow> catalog_document \<Rightarrow> catalog_overrides \<Rightarrow> catalog_document" where
  "apply_catalog_overrides V embedded d c =
     (if overrides_empty c then d
      else
        d\<lparr>cd_models := fold (override_model embedded) (co_models c) (cd_models d),
          cd_pricing := (case co_pricing c of
             None \<Rightarrow> cd_pricing d
           | Some v \<Rightarrow> (case with_override_value (ce_rnd V) (cd_pricing d) v of Inr updated \<Rightarrow> updated | Inl _ \<Rightarrow> cd_pricing d)),
          cd_revision := (if ends_with (cd_revision d) ''+user'' then cd_revision d else cd_revision d @ ''+user'')\<rparr>)"

text \<open>The settings that decide on the active document, and the upstream name of a request.\<close>

record catalog_config =
  cc_model_override :: upstream_model_override
  cc_overrides :: catalog_overrides
  cc_remote :: "catalog_document option"

definition active_document :: "catalog_env \<Rightarrow> catalog_document \<Rightarrow> catalog_config \<Rightarrow> catalog_document" where
  "active_document V embedded c =
     apply_catalog_overrides V embedded
       (case cc_remote c of Some remote \<Rightarrow> merge_authoritative embedded remote | None \<Rightarrow> embedded) (cc_overrides c)"

definition resolve_upstream_slug :: "catalog_env \<Rightarrow> catalog_document \<Rightarrow> catalog_config \<Rightarrow> string \<Rightarrow> string" where
  "resolve_upstream_slug V embedded c requested =
     (let d = active_document V embedded c; requested = trim (unwrap_or requested (pinned_slug (cc_model_override c)))
      in if requested = [] then default_slug d
         else case model_for_request d requested of
                Some m \<Rightarrow> upstream_slug_or_slug m
              | None \<Rightarrow> override_upstream_slug (cc_model_override c) requested)"

section \<open>Valid documents\<close>

definition names_ok :: "json option \<Rightarrow> bool" where
  "names_ok v = (case v of
       None \<Rightarrow> True
     | Some names \<Rightarrow> (case as_array names of Some xs \<Rightarrow> \<not> list_ex blank_entry xs | None \<Rightarrow> False))"

definition no_prompt :: "catalog_model \<Rightarrow> bool" where
  "no_prompt m = list_all (\<lambda>key. extra_of m key = None) CATALOG_PROMPT_FIELDS"

definition valid_model :: "catalog_model \<Rightarrow> bool" where
  "valid_model m = (trim (cm_slug m) \<noteq> [] \<and> list_all slug_char (trim (cm_slug m)) \<and> no_prompt m
     \<and> trim (cm_display_name m) \<noteq> [] \<and> 0 < cm_context_window m \<and> cm_context_window m \<le> u64_max
     \<and> 1 \<le> cm_percent m \<and> cm_percent m \<le> 100 \<and> cm_priority m \<le> u32_max
     \<and> Option.bind (extra_of m ''max_context_window'') as_u64 \<noteq> Some 0
     \<and> names_ok (extra_of m ''aliases'') \<and> names_ok (extra_of m ''alias_patterns'')
     \<and> list_all (\<lambda>e. fst e \<notin> set model_fields) (cm_extra m))"

definition text_ok :: "string option \<Rightarrow> bool" where
  "text_ok v = (case v of Some s \<Rightarrow> trim s = s \<and> s \<noteq> [] | None \<Rightarrow> True)"

definition slugs :: "catalog_document \<Rightarrow> string list" where
  "slugs d = map cm_slug (cd_models d)"

definition default_declared :: "catalog_document \<Rightarrow> bool" where
  "default_declared d = (list_ex is_explicit_default (cd_models d) \<or> cd_default_model d \<in> set (slugs d))"

definition valid_document :: "catalog_env \<Rightarrow> catalog_document \<Rightarrow> bool" where
  "valid_document V d = (cd_schema_version d = SUPPORTED_CATALOG_SCHEMA_VERSION
     \<and> trim (cd_revision d) = cd_revision d \<and> cd_revision d \<noteq> [] \<and> text_ok (cd_issued_at d)
     \<and> trim (cd_provider_name d) = cd_provider_name d \<and> cd_provider_name d \<noteq> []
     \<and> trim (cd_default_model d) = cd_default_model d
     \<and> text_ok (cd_min_app_version d) \<and> (case cd_min_app_version d of Some v \<Rightarrow> version_at_least (ce_app_version V) v | None \<Rightarrow> True)
     \<and> cd_models d \<noteq> [] \<and> distinct (slugs d) \<and> list_all valid_model (cd_models d) \<and> default_declared d
     \<and> valid_table (cd_pricing d))"

lemma check_names_ok: "check_names m key entry = Inr u \<longleftrightarrow> names_ok (extra_of m key)"
  by (auto simp: check_names_def names_ok_def and_then_Inr ok_or_Inr split: option.splits)

lemma validate_catalog_model_ok:
  "validate_catalog_model m = Inr () \<longleftrightarrow>
     trim (cm_slug m) \<noteq> [] \<and> list_all slug_char (trim (cm_slug m)) \<and> no_prompt m
     \<and> trim (cm_display_name m) \<noteq> [] \<and> 0 < cm_context_window m \<and> 1 \<le> cm_percent m \<and> cm_percent m \<le> 100
     \<and> Option.bind (extra_of m ''max_context_window'') as_u64 \<noteq> Some 0
     \<and> names_ok (extra_of m ''aliases'') \<and> names_ok (extra_of m ''alias_patterns'')"
  by (auto simp: validate_catalog_model_def Let_def and_then_Inr check_names_ok no_prompt_def CATALOG_PROMPT_FIELDS_def
      split: option.splits if_splits)

lemma model_from_value_bounds:
  "model_from_value v = Some m \<Longrightarrow>
     cm_context_window m \<le> u64_max \<and> cm_priority m \<le> u32_max \<and> list_all (\<lambda>e. fst e \<notin> set model_fields) (cm_extra m)"
  by (auto simp: model_from_value_def bind_eq_Some_conv bounded_def list_all_iff)

lemma read_models_valid:
  "read_models V seen vals = Inr models \<Longrightarrow>
     list_all valid_model models \<and> distinct (map cm_slug models) \<and> seen \<inter> cm_slug ` set models = {}
     \<and> length models = length vals"
proof (induction V seen vals arbitrary: models rule: read_models.induct)
  case (2 V seen v vs)
  obtain m ms where m: "model_from_value v = Some m" "validate_catalog_model m = Inr ()" "cm_slug m \<notin> seen"
    "read_models V (insert (cm_slug m) seen) vs = Inr ms" "models = m # ms"
    using "2.prems" by (auto simp: and_then_Inr ok_or_Inr split: if_splits)
  have "valid_model m"
    using m(2) model_from_value_bounds [OF m(1)] by (simp add: validate_catalog_model_ok valid_model_def)
  then show ?case using 2(1) [OF m(3,4)] m by auto
qed simp

lemma doc_text_ok: "text_ok (doc_text m key)"
  by (auto simp: text_ok_def doc_text_def trim_trim split: option.split)

lemma doc_text_Some: "doc_text m key = Some s \<Longrightarrow> trim s = s \<and> s \<noteq> []"
  using doc_text_ok [of m key] by (simp add: text_ok_def)

lemma guard_Inr: "(if b then Inl e else x) = Inr y \<longleftrightarrow> \<not> b \<and> x = Inr y"
  by simp

definition declares_default :: "catalog_model list \<Rightarrow> string \<Rightarrow> bool" where
  "declares_default models slug = (list_ex is_explicit_default models \<or> list_ex (\<lambda>x. cm_slug x = slug) models)"

lemma document_from_value_InrD:
  assumes "document_from_value V v = Inr d"
  obtains m vs models pricing revision where
    "doc_text m ''revision'' = Some revision"
    "\<not> is_some_and (\<lambda>r. \<not> version_at_least (ce_app_version V) r) (doc_text m ''min_app_version'')"
    "vs \<noteq> []" "read_models V {} vs = Inr models"
    "declares_default models (unwrap_or [] (doc_text m ''default_model''))"
    "(case map_of m ''pricing'' of Some p \<Rightarrow> pricing_from_value (ce_rnd V) p | None \<Rightarrow> Inr default_pricing) = Inr pricing"
    "d = \<lparr>cd_schema_version = SUPPORTED_CATALOG_SCHEMA_VERSION, cd_revision = revision,
       cd_issued_at = doc_text m ''issued_at'', cd_provider_name = unwrap_or ''CodeSeeX'' (doc_text m ''provider_name''),
       cd_default_model = unwrap_or [] (doc_text m ''default_model''), cd_min_app_version = doc_text m ''min_app_version'',
       cd_models = models, cd_pricing = pricing\<rparr>"
  using assms
  unfolding document_from_value_def Let_def and_then_Inr guard_Inr ok_or_Inr de_Morgan_conj [symmetric] de_Morgan_disj [symmetric]
    not_not declares_default_def [symmetric] sum.inject
  by - (elim exE conjE, rule that, (assumption | rule sym, assumption)+)

lemma document_from_value_valid:
  assumes "document_from_value V v = Inr d"
  shows "valid_document V d"
  using assms
proof (rule document_from_value_InrD)
  fix m vs models pricing revision
  assume m: "doc_text m ''revision'' = Some revision"
    "\<not> is_some_and (\<lambda>r. \<not> version_at_least (ce_app_version V) r) (doc_text m ''min_app_version'')"
    "vs \<noteq> []" "read_models V {} vs = Inr models"
    "declares_default models (unwrap_or [] (doc_text m ''default_model''))"
    "(case map_of m ''pricing'' of Some p \<Rightarrow> pricing_from_value (ce_rnd V) p | None \<Rightarrow> Inr default_pricing) = Inr pricing"
    and d: "d = \<lparr>cd_schema_version = SUPPORTED_CATALOG_SCHEMA_VERSION, cd_revision = revision,
       cd_issued_at = doc_text m ''issued_at'', cd_provider_name = unwrap_or ''CodeSeeX'' (doc_text m ''provider_name''),
       cd_default_model = unwrap_or [] (doc_text m ''default_model''), cd_min_app_version = doc_text m ''min_app_version'',
       cd_models = models, cd_pricing = pricing\<rparr>"
  have "valid_table pricing"
    using m(6) pricing_tables_valid(1) default_pricing_valid by (auto split: option.splits)
  moreover have "trim ''CodeSeeX'' = ''CodeSeeX''" "trim [] = []" by code_simp+
  moreover have "declares_default models s = (list_ex is_explicit_default models \<or> s \<in> set (map cm_slug models))" for s
    by (auto simp: declares_default_def list_ex_iff)
  moreover have "case doc_text m ''min_app_version'' of Some r \<Rightarrow> version_at_least (ce_app_version V) r | None \<Rightarrow> True"
    using m(2) by (cases "doc_text m ''min_app_version''") simp_all
  moreover have "models \<noteq> []" using m(3) read_models_valid [OF m(4)] by auto
  ultimately show ?thesis
    using m(5) doc_text_Some [OF m(1)] read_models_valid [OF m(4)] doc_text_Some [of m]
    by (auto simp: d valid_document_def doc_text_ok slugs_def default_declared_def unwrap_or_def split: option.splits)
qed

section \<open>Documents are read back\<close>

lemma om_insert_first: "\<forall>e \<in> set m. k < fst e \<Longrightarrow> om_insert k v m = (k, v) # m"
  by (cases m) auto

lemma om_insert_filter:
  "om_ok m \<Longrightarrow> filter (\<lambda>e. fst e \<notin> F) (om_insert k v m)
     = (if k \<in> F then filter (\<lambda>e. fst e \<notin> F) m else om_insert k v (filter (\<lambda>e. fst e \<notin> F) m))"
proof (induction k v m rule: om_insert.induct)
  case (2 k v a b m)
  have "om_insert k v (filter (\<lambda>e. fst e \<notin> F) m) = (k, v) # filter (\<lambda>e. fst e \<notin> F) m" if "k < a \<or> k = a"
    using "2.prems" that by (intro om_insert_first) auto
  then show ?case using 2 by auto
qed simp

lemma fold_om_insert_filter:
  "om_ok acc \<Longrightarrow> filter (\<lambda>e. fst e \<notin> F) (fold (\<lambda>(k, v). om_insert k v) kvs acc)
     = fold (\<lambda>(k, v). om_insert k v) (filter (\<lambda>e. fst e \<notin> F) kvs) (filter (\<lambda>e. fst e \<notin> F) acc)"
proof (induction kvs arbitrary: acc)
  case (Cons e kvs)
  obtain k v where e: "e = (k, v)" by (cases e)
  show ?case
    using Cons.IH [of "om_insert k v acc"] Cons.prems by (simp add: e om_insert_filter om_ok_insert)
qed simp

lemma extra_lookup:
  "list_all (\<lambda>e. fst e \<notin> set model_fields) (cm_extra m) \<Longrightarrow> k \<in> set model_fields \<Longrightarrow> map_of (rev (cm_extra m)) k = None"
  by (force simp: map_of_eq_None_iff list_all_iff)

lemma model_read_back:
  assumes "valid_model m" and "om_ok (cm_extra m)"
  shows "model_from_value (model_to_value m) = Some m"
proof -
  let ?own = "[(''slug'', JStr (cm_slug m)), (''display_name'', JStr (cm_display_name m)),
     (''description'', JStr (cm_description m)), (''context_window'', jnat (cm_context_window m)),
     (''effective_context_window_percent'', jnat (cm_percent m)), (''priority'', jnat (cm_priority m))]"
  let ?all = "fold (\<lambda>(k, v). om_insert k v) (?own @ cm_extra m) []"
  have extra: "list_all (\<lambda>e. fst e \<notin> set model_fields) (cm_extra m)" using assms(1) by (simp add: valid_model_def)
  have own: "map_of ?all k = map_of (rev ?own) k" if "k \<in> set model_fields" for k
    unfolding map_of_fold_om_insert rev_append map_of_append using extra_lookup [OF extra that]
    by (simp add: map_add_def split: option.split)
  have rest: "filter (\<lambda>e. fst e \<notin> set model_fields) ?all = cm_extra m"
  proof -
    have "filter (\<lambda>e. fst e \<notin> set model_fields) (?own @ cm_extra m) = cm_extra m"
      using extra by (simp add: model_fields_def list_all_iff)
    then show ?thesis
      using fold_om_insert_filter [of "[]" "set model_fields" "?own @ cm_extra m"] fold_om_insert_sorted [of "[]" "cm_extra m"] assms(2)
      by simp
  qed
  have obj: "as_object (model_to_value m) = Some ?all" by (simp add: model_to_value_def jobj_def)
  have lookups: "map_of ?all ''slug'' = Some (JStr (cm_slug m))" "map_of ?all ''display_name'' = Some (JStr (cm_display_name m))"
    "map_of ?all ''description'' = Some (JStr (cm_description m))" "map_of ?all ''context_window'' = Some (jnat (cm_context_window m))"
    "map_of ?all ''effective_context_window_percent'' = Some (jnat (cm_percent m))" "map_of ?all ''priority'' = Some (jnat (cm_priority m))"
    by (subst own; simp add: model_fields_def)+
  have "cm_percent m \<le> 255" using assms(1) by (simp add: valid_model_def)
  then show ?thesis
    unfolding model_from_value_def obj Option.bind.bind_lunit lookups rest
    using assms(1) by (simp add: valid_model_def bounded_def jnat_def opt_filter_def)
qed

lemma validate_valid: "valid_model m \<Longrightarrow> validate_catalog_model m = Inr ()"
  by (simp add: validate_catalog_model_ok valid_model_def)

lemma read_models_read_back:
  "list_all valid_model ms \<Longrightarrow> list_all (\<lambda>m. om_ok (cm_extra m)) ms \<Longrightarrow> distinct (map cm_slug ms)
    \<Longrightarrow> seen \<inter> cm_slug ` set ms = {} \<Longrightarrow> read_models V seen (map model_to_value ms) = Inr ms"
proof (induction ms arbitrary: seen)
  case (Cons m ms)
  then have "read_models V (insert (cm_slug m) seen) (map model_to_value ms) = Inr ms"
    by (intro Cons.IH) auto
  then show ?case using Cons.prems by (simp add: and_then_def ok_or_def model_read_back validate_valid)
qed simp

lemma doc_text_str: "map_of m key = Some (JStr s) \<Longrightarrow> trim s = s \<Longrightarrow> s \<noteq> [] \<Longrightarrow> doc_text m key = Some s"
  by (simp add: doc_text_def opt_filter_def)

lemma doc_text_opt: "map_of m key = Some (jopt JStr v) \<Longrightarrow> text_ok v \<Longrightarrow> doc_text m key = v"
  by (cases v) (simp_all add: doc_text_def jopt_def text_ok_def opt_filter_def)

lemma doc_text_default: "map_of m key = Some (JStr s) \<Longrightarrow> trim s = s \<Longrightarrow> unwrap_or [] (doc_text m key) = s"
  by (cases "s = []") (simp_all add: doc_text_def opt_filter_def)

lemma valid_document_read_back:
  assumes "valid_document V d" and "list_all (\<lambda>m. om_ok (cm_extra m)) (cd_models d)"
  shows "document_from_value V (document_to_value d) = Inr d"
proof -
  obtain m where m: "as_object (document_to_value d) = Some m"
    "map_of m ''schema_version'' = Some (jnat (cd_schema_version d))" "map_of m ''revision'' = Some (JStr (cd_revision d))"
    "map_of m ''issued_at'' = Some (jopt JStr (cd_issued_at d))" "map_of m ''provider_name'' = Some (JStr (cd_provider_name d))"
    "map_of m ''default_model'' = Some (JStr (cd_default_model d))"
    "map_of m ''min_app_version'' = Some (jopt JStr (cd_min_app_version d))"
    "map_of m ''models'' = Some (JArr (map model_to_value (cd_models d)))"
    "map_of m ''pricing'' = Some (pricing_to_value (cd_pricing d))"
    using as_object_jobj unfolding document_to_value_def by fastforce
  have texts: "doc_text m ''revision'' = Some (cd_revision d)" "doc_text m ''issued_at'' = cd_issued_at d"
    "doc_text m ''provider_name'' = Some (cd_provider_name d)" "unwrap_or [] (doc_text m ''default_model'') = cd_default_model d"
    "doc_text m ''min_app_version'' = cd_min_app_version d"
    using assms(1) m by (auto simp: valid_document_def intro: doc_text_str doc_text_opt doc_text_default)
  have models: "read_models V {} (map model_to_value (cd_models d)) = Inr (cd_models d)"
    using assms by (intro read_models_read_back) (simp_all add: valid_document_def slugs_def)
  have pricing: "pricing_from_value (ce_rnd V) (pricing_to_value (cd_pricing d)) = Inr (cd_pricing d)"
    using assms(1) by (intro pricing_table_read_back) (simp add: valid_document_def)
  have version: "\<not> is_some_and (\<lambda>r. \<not> version_at_least (ce_app_version V) r) (cd_min_app_version d)"
    using assms(1) by (cases "cd_min_app_version d") (simp_all add: valid_document_def)
  have default_model: "list_ex is_explicit_default (cd_models d) \<or> list_ex (\<lambda>x. cm_slug x = cd_default_model d) (cd_models d)"
    using assms(1) by (auto simp: valid_document_def default_declared_def slugs_def list_ex_iff)
  show ?thesis
    using assms(1) default_model version
    by (simp add: document_from_value_def and_then_def ok_or_def Let_def jnat_def valid_document_def m texts models pricing)
qed

definition demo_model :: catalog_model where
  "demo_model = \<lparr>cm_slug = ''deepseek-flash'', cm_display_name = ''DeepSeek Flash'', cm_description = ''Fast'',
     cm_context_window = 1000000, cm_percent = 95, cm_priority = 2,
     cm_extra = [(''aliases'', JArr [JStr ''flash'']), (''upstream_slug'', JStr ''deepseek-v4-flash'')]\<rparr>"

definition demo_document :: catalog_document where
  "demo_document = \<lparr>cd_schema_version = 1, cd_revision = ''1.0.2'', cd_issued_at = None, cd_provider_name = ''CodeSeeX'',
     cd_default_model = ''deepseek-flash'', cd_min_app_version = None, cd_models = [demo_model], cd_pricing = default_pricing\<rparr>"

definition demo_catalog_env :: catalog_env where
  "demo_catalog_env = \<lparr>ce_lib = \<lparr>json_to_string = \<lambda>_. [], json_from_str = \<lambda>_. None, b64_decode_utf8 = \<lambda>_. None, sha256 = id\<rparr>,
     ce_rnd = id, ce_app_version = ''1.4.0'', ce_model_error = \<lambda>_. ''bad model'', ce_json_error = \<lambda>_. ''bad json''\<rparr>"

lemma demo_model_valid: "valid_model demo_model"
proof -
  have "trim ''deepseek-flash'' = ''deepseek-flash''" "trim ''DeepSeek Flash'' = ''DeepSeek Flash''" "trim ''flash'' = ''flash''"
    "list_all slug_char ''deepseek-flash''" by code_simp+
  then show ?thesis
    by (simp add: valid_model_def demo_model_def no_prompt_def CATALOG_PROMPT_FIELDS_def extra_of_def names_ok_def blank_entry_def
        opt_filter_def u64_max_def u32_max_def model_fields_def)
qed

lemma demo_document_valid: "valid_document demo_catalog_env demo_document"
proof -
  have "trim ''1.0.2'' = ''1.0.2''" "trim ''CodeSeeX'' = ''CodeSeeX''" "trim ''deepseek-flash'' = ''deepseek-flash''" by code_simp+
  then show ?thesis
    using demo_model_valid default_pricing_valid
    by (simp add: valid_document_def demo_document_def SUPPORTED_CATALOG_SCHEMA_VERSION_def text_ok_def slugs_def
        default_declared_def demo_model_def)
qed

lemma demo_models_sorted: "list_all (\<lambda>m. om_ok (cm_extra m)) (cd_models demo_document)"
  by (simp add: demo_document_def demo_model_def om_ok_def)



section \<open>Layers keep what matters\<close>

lemma slug_or_insert [simp]: "cm_slug (or_insert_extra k v m) = cm_slug m"
  by (simp add: or_insert_extra_def)

lemma slug_fold_or_insert: "cm_slug (fold (\<lambda>(k, v). or_insert_extra k v) kvs m) = cm_slug m"
  by (induction kvs arbitrary: m) (auto split: prod.splits)

lemma merge_model_slug [simp]: "cm_slug (merge_model b m) = cm_slug m"
  by (simp add: merge_model_def slug_fold_or_insert split: option.split)

lemma extra_of_insert [simp]: "extra_of (insert_extra k v m) key = (if key = k then Some v else extra_of m key)"
  by (simp add: extra_of_def insert_extra_def map_of_om_insert)

lemma extra_of_or_insert:
  "extra_of (or_insert_extra k v m) key = (if key = k \<and> extra_of m k = None then Some v else extra_of m key)"
  by (simp add: or_insert_extra_def extra_of_def map_of_om_insert)

text \<open>A merged field is the overlay's own one, or else the first one of the base.\<close>

lemma extra_of_fold_or_insert:
  "extra_of (fold (\<lambda>(k, v). or_insert_extra k v) kvs m) key = or_else (extra_of m key) (map_of kvs key)"
proof (induction kvs arbitrary: m)
  case (Cons e kvs)
  obtain k v where e: "e = (k, v)" by (cases e)
  show ?case using Cons.IH [of "or_insert_extra k v m"] by (auto simp: e extra_of_or_insert or_else_def split: option.splits)
qed (simp add: or_else_def split: option.splits)

lemma document_model_in: "document_model d slug = Some m \<Longrightarrow> m \<in> set (cd_models d)"
  by (auto simp: document_model_def Let_def or_else_def find_Some_iff split: option.splits)

lemma merge_model_no_prompt:
  assumes "no_prompt m" and "list_all no_prompt (cd_models base)"
  shows "no_prompt (merge_model base m)"
proof (cases "document_model base (cm_slug m)")
  case (Some b)
  then have "no_prompt b" using assms(2) document_model_in by (auto simp: list_all_iff)
  then show ?thesis
    using assms(1) Some by (simp add: merge_model_def no_prompt_def list_all_iff extra_of_fold_or_insert flip: extra_of_def)
qed (simp add: merge_model_def assms)

lemma slug_when_some: "(\<And>x m. cm_slug (f x m) = cm_slug m) \<Longrightarrow> cm_slug (when_some f v m) = cm_slug m"
  by (simp add: when_some_def split: option.split)

lemma extra_when_some: "(\<And>x m. extra_of (f x m) key = extra_of m key) \<Longrightarrow> extra_of (when_some f v m) key = extra_of m key"
  by (simp add: when_some_def split: option.split)

lemma slug_insert_extra [simp]: "cm_slug (insert_extra k v m) = cm_slug m"
  by (simp add: insert_extra_def)

lemma apply_to_slug [simp]: "cm_slug (apply_to p m) = cm_slug m"
  by (simp add: apply_to_def Let_def slug_when_some)

lemma extra_of_update [simp]:
  "extra_of (cm_slug_update f1 m) key = extra_of m key" "extra_of (cm_display_name_update f1 m) key = extra_of m key"
  "extra_of (cm_description_update f1 m) key = extra_of m key" "extra_of (cm_context_window_update f2 m) key = extra_of m key"
  "extra_of (cm_percent_update f2 m) key = extra_of m key"
  by (simp_all add: extra_of_def)

lemma apply_to_no_prompt: "no_prompt m \<Longrightarrow> no_prompt (apply_to p m)"
  by (simp add: apply_to_def Let_def no_prompt_def CATALOG_PROMPT_FIELDS_def extra_when_some)

lemma update_first_slugs: "map cm_slug (update_first q (apply_to p) ms) = map cm_slug ms"
  by (induction ms) auto

lemma update_first_all: "list_all P ms \<Longrightarrow> (\<And>m. P m \<Longrightarrow> P (f m)) \<Longrightarrow> list_all P (update_first q f ms)"
  by (induction ms) auto

lemma to_catalog_model_slug: "to_catalog_model e p slug = Some m \<Longrightarrow> cm_slug m = slug"
  by (auto simp: to_catalog_model_def Let_def split: if_splits)

lemma to_catalog_model_no_prompt:
  assumes "list_all no_prompt (cd_models e)" and "to_catalog_model e p slug = Some m"
  shows "no_prompt m"
proof -
  let ?first = "case cd_models e of m # _ \<Rightarrow> m
     | [] \<Rightarrow> \<lparr>cm_slug = slug, cm_display_name = slug, cm_description = [], cm_context_window = 1000000,
              cm_percent = 95, cm_priority = 2, cm_extra = []\<rparr>"
  have m: "m = apply_to p (?first\<lparr>cm_slug := slug, cm_display_name := unwrap_or slug (mo_display_name p),
      cm_description := unwrap_or [] (mo_description p)\<rparr>)"
    using assms(2) by (auto simp: to_catalog_model_def Let_def split: if_splits)
  have "no_prompt ?first"
    using assms(1) by (cases "cd_models e") (auto simp: no_prompt_def extra_of_def list_all_iff)
  then have "no_prompt (?first\<lparr>cm_slug := slug, cm_display_name := a, cm_description := b\<rparr>)" for a b
    by (simp add: no_prompt_def)
  then show ?thesis unfolding m by (rule apply_to_no_prompt)
qed

lemma override_model_slugs:
  "\<exists>new. map cm_slug (override_model e ov ms) = map cm_slug ms @ new \<and> set new \<subseteq> {fst ov} - set (map cm_slug ms) \<and> distinct new"
proof -
  obtain slug p where ov: "ov = (slug, p)" by (cases ov)
  show ?thesis
  proof (cases "list_ex (\<lambda>m. cm_slug m = slug) ms")
    case True
    then show ?thesis by (auto simp: ov override_model_def update_first_slugs)
  next
    case False
    then have new: "slug \<notin> set (map cm_slug ms)" by (auto simp: list_ex_iff)
    show ?thesis
    proof (cases "to_catalog_model e p slug")
      case None
      then show ?thesis using False by (simp add: ov override_model_def)
    next
      case (Some m)
      then show ?thesis
        using False new to_catalog_model_slug [OF Some] by (intro exI [of _ "[slug]"]) (simp add: ov override_model_def)
    qed
  qed
qed

lemma override_models_slugs:
  "\<exists>new. map cm_slug (fold (override_model e) os ms) = map cm_slug ms @ new \<and> set new \<subseteq> fst ` set os - set (map cm_slug ms) \<and> distinct new"
proof (induction os arbitrary: ms)
  case (Cons p os)
  obtain n1 where n1: "map cm_slug (override_model e p ms) = map cm_slug ms @ n1" "set n1 \<subseteq> {fst p} - set (map cm_slug ms)" "distinct n1"
    using override_model_slugs by blast
  obtain n2 where n2: "map cm_slug (fold (override_model e) os (override_model e p ms)) = map cm_slug ms @ n1 @ n2"
    "set n2 \<subseteq> fst ` set os - set (map cm_slug ms @ n1)" "distinct n2"
    using Cons.IH [of "override_model e p ms"] n1(1) by auto
  show ?case
    by (rule exI [of _ "n1 @ n2"]) (use n1 n2 in auto)
qed simp

lemma override_models_no_prompt:
  "list_all no_prompt (cd_models e) \<Longrightarrow> list_all no_prompt ms \<Longrightarrow> list_all no_prompt (fold (override_model e) os ms)"
proof (induction os arbitrary: ms)
  case (Cons p os)
  have "list_all no_prompt (override_model e p ms)"
    using Cons.prems
    by (auto simp: override_model_def update_first_all apply_to_no_prompt dest: to_catalog_model_no_prompt
        split: prod.splits option.splits)
  then show ?case using Cons by simp
qed simp

definition layered :: "catalog_document \<Rightarrow> catalog_config \<Rightarrow> catalog_document" where
  "layered embedded c = (case cc_remote c of Some remote \<Rightarrow> merge_authoritative embedded remote | None \<Rightarrow> embedded)"

definition layers_valid :: "catalog_env \<Rightarrow> catalog_document \<Rightarrow> catalog_config \<Rightarrow> bool" where
  "layers_valid V embedded c = (valid_document V embedded
     \<and> (case cc_remote c of Some remote \<Rightarrow> valid_document V remote | None \<Rightarrow> True))"

lemma valid_document_no_prompt: "valid_document V d \<Longrightarrow> list_all no_prompt (cd_models d)"
  by (auto simp: valid_document_def valid_model_def list_all_iff)

definition usable :: "catalog_document \<Rightarrow> bool" where
  "usable d = (list_all no_prompt (cd_models d) \<and> distinct (slugs d) \<and> cd_models d \<noteq> [] \<and> valid_table (cd_pricing d)
     \<and> list_all (\<lambda>s. trim s \<noteq> []) (slugs d))"

lemma valid_document_usable: "valid_document V d \<Longrightarrow> usable d"
  using valid_document_no_prompt [of V d] by (auto simp: usable_def valid_document_def valid_model_def slugs_def list_all_iff)

lemma layered_ok:
  assumes "layers_valid V embedded c"
  shows "usable (layered embedded c)"
proof (cases "cc_remote c")
  case None
  then show ?thesis using assms valid_document_usable by (simp add: layers_valid_def layered_def)
next
  case (Some r)
  have v: "usable embedded" "usable r" using assms Some valid_document_usable by (auto simp: layers_valid_def)
  have d: "layered embedded c = merge_authoritative embedded r" by (simp add: layered_def Some)
  have "list_all no_prompt (cd_models (merge_authoritative embedded r))"
    using v by (auto simp: merge_authoritative_def list_all_iff usable_def intro!: merge_model_no_prompt)
  moreover have "slugs (merge_authoritative embedded r) = slugs r" by (simp add: slugs_def merge_authoritative_def)
  moreover have "cd_pricing (merge_authoritative embedded r) \<in> {cd_pricing embedded, cd_pricing r}"
    "cd_models (merge_authoritative embedded r) \<noteq> []"
    using v by (simp_all add: merge_authoritative_def usable_def)
  ultimately show ?thesis using v unfolding d by (auto simp: usable_def)
qed

lemma active_models: "cd_models (active_document V embedded c) = fold (override_model embedded) (co_models (cc_overrides c)) (cd_models (layered embedded c))"
  by (simp add: active_document_def apply_catalog_overrides_def overrides_empty_def layered_def Let_def)

lemma active_pricing_valid:
  assumes "valid_table (cd_pricing (layered embedded c))"
  shows "valid_table (cd_pricing (active_document V embedded c))"
  using assms pricing_tables_valid(2)
  by (auto simp: active_document_def apply_catalog_overrides_def layered_def [symmetric] split: option.split sum.split)

text \<open>C13: What a remote catalog and the user's settings can do to the models. Whatever the remote document (accepted by
the reader) and the overrides say, the active document keeps every model of the layer below, in order and
with distinct names, adds only models the user has named, holds no prompt material, which stays with the
program, and has a valid price table.
\<close>

theorem active_catalog_safe:
  assumes "layers_valid V embedded c"
  defines "d \<equiv> active_document V embedded c" and "base \<equiv> layered embedded c"
  shows "list_all no_prompt (cd_models d)
    \<and> take (length (cd_models base)) (slugs d) = slugs base \<and> distinct (slugs d)
    \<and> set (drop (length (cd_models base)) (slugs d)) \<subseteq> fst ` set (co_models (cc_overrides c))
    \<and> valid_table (cd_pricing d)"
proof -
  have base: "list_all no_prompt (cd_models base)" "distinct (slugs base)" "valid_table (cd_pricing base)"
    using layered_ok [OF assms(1)] by (simp_all add: base_def usable_def)
  obtain new where new: "slugs d = slugs base @ new" "set new \<subseteq> fst ` set (co_models (cc_overrides c)) - set (slugs base)" "distinct new"
    using override_models_slugs [of embedded "co_models (cc_overrides c)" "cd_models base"]
    unfolding slugs_def d_def active_models base_def by auto
  have "list_all no_prompt (cd_models d)"
    using assms(1) base(1) unfolding d_def active_models base_def
    by (auto intro!: override_models_no_prompt valid_document_no_prompt simp: layers_valid_def)
  moreover have "length (cd_models base) = length (slugs base)" by (simp add: slugs_def)
  ultimately show ?thesis
    using new base active_pricing_valid by (auto simp: d_def base_def)
qed

definition demo_config :: catalog_config where
  "demo_config = \<lparr>cc_model_override = Default,
     cc_overrides = \<lparr>co_models = [(''my-model'', \<lparr>mo_display_name = Some ''Mine'', mo_short_display_name = None, mo_description = None,
       mo_context_window = None, mo_percent = None, mo_upstream_slug = None, mo_aliases = None, mo_pricing_group = None,
       mo_is_default = None, mo_hidden = None\<rparr>)], co_pricing = None\<rparr>,
     cc_remote = Some demo_document\<rparr>"

lemma demo_layers_valid: "layers_valid demo_catalog_env demo_document demo_config"
  using demo_document_valid by (simp add: layers_valid_def demo_config_def)

lemma demo_active_slugs: "slugs (active_document demo_catalog_env demo_document demo_config) = [''deepseek-flash'', ''my-model'']"
  by (simp add: slugs_def active_models layered_def demo_config_def merge_authoritative_def demo_document_def demo_model_def
      override_model_def to_catalog_model_def Let_def)

lemma active_catalog_safe_witness:
  "list_all no_prompt (cd_models (active_document demo_catalog_env demo_document demo_config))
   \<and> slugs (active_document demo_catalog_env demo_document demo_config) = [''deepseek-flash'', ''my-model'']"
  using active_catalog_safe [OF demo_layers_valid] demo_active_slugs by simp

section \<open>Resolving a request\<close>

lemma alias_pattern_case:
  "to_ascii_lowercase a = to_ascii_lowercase b \<Longrightarrow> trim a = a \<Longrightarrow> trim b = b \<Longrightarrow> alias_pattern_matches p a = alias_pattern_matches p b"
  by (simp add: alias_pattern_matches_def Let_def)

text \<open>Case and surrounding blanks of a request do not matter for the lookup.\<close>

lemma model_for_request_case:
  assumes "to_ascii_lowercase (trim a) = to_ascii_lowercase (trim b)"
  shows "model_for_request d a = model_for_request d b"
proof -
  have "trim a = [] \<longleftrightarrow> trim b = []" using assms by (auto simp: to_ascii_lowercase_def)
  moreover have "alias_pattern_matches p (trim a) = alias_pattern_matches p (trim b)" for p
    using assms by (intro alias_pattern_case) (simp_all add: trim_trim)
  ultimately show ?thesis
    using assms by (simp add: model_for_request_def Let_def eq_ignore_ascii_case_def)
qed

lemma model_for_request_in: "model_for_request d r = Some m \<Longrightarrow> m \<in> set (cd_models d)"
  by (auto simp: model_for_request_def Let_def or_else_def find_Some_iff split: option.splits if_splits)

lemma trimmed_extra_nonblank: "trimmed_extra m key = Some s \<Longrightarrow> trim s \<noteq> []"
  by (auto simp: trimmed_extra_def trim_trim)

lemma upstream_slug_nonblank: "trim (cm_slug m) \<noteq> [] \<Longrightarrow> trim (upstream_slug_or_slug m) \<noteq> []"
  by (cases "trimmed_extra m ''upstream_slug''") (simp_all add: upstream_slug_or_slug_def trimmed_extra_nonblank)

lemma default_slug_nonblank:
  assumes "cd_models d \<noteq> []" and "list_all (\<lambda>m. trim (cm_slug m) \<noteq> []) (cd_models d)"
  shows "trim (default_slug d) \<noteq> []"
proof -
  have "find (\<lambda>_. True) (cd_models d) = Some (hd (cd_models d))" using assms(1) by (cases "cd_models d") simp_all
  moreover have "m \<in> set (cd_models d)" if "or_else (find is_explicit_default (cd_models d)) (Some (hd (cd_models d))) = Some m" for m
    using that assms(1) by (auto simp: or_else_def find_Some_iff split: option.splits)
  ultimately show ?thesis
    using assms(2) by (auto simp: default_slug_def list_all_iff or_else_def split: option.splits)
qed

lemma default_upstream_slug_nonblank: "trim (default_upstream_slug r) \<noteq> []"
proof -
  have "trim MODEL_PRO \<noteq> []" "trim MODEL_FLASH \<noteq> []" by code_simp+
  then show ?thesis
    by (auto simp: default_upstream_slug_def Let_def trim_trim to_ascii_lowercase_def)
qed

lemma active_slugs_nonblank:
  assumes "layers_valid V embedded c" and "list_all (\<lambda>e. trim (fst e) \<noteq> []) (co_models (cc_overrides c))"
  defines "d \<equiv> active_document V embedded c"
  shows "cd_models d \<noteq> []" and "list_all (\<lambda>m. trim (cm_slug m) \<noteq> []) (cd_models d)"
proof -
  let ?base = "layered embedded c"
  obtain new where new: "slugs d = slugs ?base @ new" "set new \<subseteq> fst ` set (co_models (cc_overrides c))"
    using override_models_slugs [of embedded "co_models (cc_overrides c)" "cd_models ?base"]
    unfolding slugs_def d_def active_models by auto
  have base: "slugs ?base \<noteq> []" "\<forall>s \<in> set (slugs ?base). trim s \<noteq> []"
    using layered_ok [OF assms(1)] by (auto simp: usable_def slugs_def list_all_iff)
  then have "\<forall>s \<in> set (slugs d). trim s \<noteq> []" using new assms(2) by (auto simp: list_all_iff)
  moreover have "slugs d \<noteq> []" using new base by simp
  ultimately show "cd_models d \<noteq> []" and "list_all (\<lambda>m. trim (cm_slug m) \<noteq> []) (cd_models d)"
    by (auto simp: slugs_def list_all_iff)
qed



section \<open>Versions are ordered\<close>

text \<open>The segments of a version, continued with zeros.\<close>

definition version_seq :: "string \<Rightarrow> nat \<Rightarrow> nat" where
  "version_seq s = segment_at (segments s)"

lemma compare_segments_upt:
  "compare_segments c r [k..<n] \<longleftrightarrow>
     (\<forall>i. k \<le> i \<and> i < n \<longrightarrow> segment_at c i = segment_at r i)
     \<or> (\<exists>i. k \<le> i \<and> i < n \<and> (\<forall>j. k \<le> j \<and> j < i \<longrightarrow> segment_at c j = segment_at r j) \<and> segment_at r i < segment_at c i)"
proof (induction "n - k" arbitrary: k)
  case (Suc x)
  have k: "k < n" "[k..<n] = k # [Suc k..<n]" "x = n - Suc k" using Suc.hyps(2) by (auto simp: upt_conv_Cons)
  have from_k: "k \<le> i \<longleftrightarrow> i = k \<or> Suc k \<le> i" for i by auto
  show ?case
  proof (cases "segment_at c k = segment_at r k")
    case True
    have all: "(\<forall>j. k \<le> j \<and> j < i \<longrightarrow> segment_at c j = segment_at r j) \<longleftrightarrow> (\<forall>j. Suc k \<le> j \<and> j < i \<longrightarrow> segment_at c j = segment_at r j)" for i
      using True by (auto simp: from_k)
    show ?thesis
      using Suc.hyps(1) [OF k(3)] True k by (auto simp: all) (auto simp: from_k)
  next
    case False
    then show ?thesis using k by (auto intro: le_neq_implies_less)
  qed
qed simp

lemma segment_at_beyond: "length xs \<le> i \<Longrightarrow> segment_at xs i = 0"
  by (simp add: segment_at_def)

lemma version_at_least_iff:
  "version_at_least a b \<longleftrightarrow> version_seq a = version_seq b
     \<or> (\<exists>i. (\<forall>j < i. version_seq a j = version_seq b j) \<and> version_seq b i < version_seq a i)"
proof -
  let ?n = "max (length (segments a)) (length (segments b))"
  have beyond: "version_seq a i = 0" "version_seq b i = 0" if "\<not> i < ?n" for i
    using that by (simp_all add: version_seq_def segment_at_beyond)
  then have "(\<forall>i < ?n. version_seq a i = version_seq b i) \<longleftrightarrow> version_seq a = version_seq b"
    by (auto intro!: ext) metis
  moreover have "i < ?n" if "version_seq b i < version_seq a i" for i using that beyond(1) [of i] by linarith
  ultimately show ?thesis
    unfolding version_at_least_def Let_def compare_segments_upt by (auto simp: version_seq_def)
qed

text \<open>The comparison is a total preorder, and its equivalence is equality of the padded segments: \<^verbatim>\<open>1.2\<close> and \<^verbatim>\<open>1.2.0\<close> are the
  same version. Hence a chain of refreshes that is guarded by \<^verbatim>\<open>revision_is_older\<close> never returns to an older one.\<close>

lemma version_at_least_total: "version_at_least a b \<or> version_at_least b a"
proof (cases "version_seq a = version_seq b")
  case False
  then obtain k where k: "version_seq a k \<noteq> version_seq b k" by auto
  define i where "i = (LEAST k. version_seq a k \<noteq> version_seq b k)"
  have "version_seq a i \<noteq> version_seq b i" unfolding i_def by (rule LeastI [of _ k]) (rule k)
  moreover have "\<forall>j < i. version_seq a j = version_seq b j" unfolding i_def using not_less_Least by blast
  ultimately show ?thesis unfolding version_at_least_iff by (metis nat_neq_iff)
qed (simp add: version_at_least_iff)

lemma version_at_least_trans:
  assumes "version_at_least a b" and "version_at_least b c"
  shows "version_at_least a c"
proof (cases "version_seq a = version_seq b \<or> version_seq b = version_seq c")
  case False
  then obtain i k where i: "\<forall>j < i. version_seq a j = version_seq b j" "version_seq b i < version_seq a i"
    and k: "\<forall>j < k. version_seq b j = version_seq c j" "version_seq c k < version_seq b k"
    using assms by (auto simp: version_at_least_iff)
  have "\<forall>j < min i k. version_seq a j = version_seq c j" using i(1) k(1) by simp
  moreover have "version_seq c (min i k) < version_seq a (min i k)"
    by (cases i k rule: linorder_cases) (use i k in auto)
  ultimately show ?thesis unfolding version_at_least_iff by blast
next
  case True
  then have "version_at_least a c = version_at_least b c \<or> version_at_least a c = version_at_least a b"
    by (elim disjE) (simp_all add: version_at_least_iff)
  then show ?thesis using assms by blast
qed

lemma version_at_least_both: "version_at_least a b \<and> version_at_least b a \<longleftrightarrow> version_seq a = version_seq b"
proof
  assume both: "version_at_least a b \<and> version_at_least b a"
  show "version_seq a = version_seq b"
  proof (rule ccontr)
    assume "version_seq a \<noteq> version_seq b"
    then obtain i k where "\<forall>j < i. version_seq a j = version_seq b j" "version_seq b i < version_seq a i"
      and "\<forall>j < k. version_seq b j = version_seq a j" "version_seq a k < version_seq b k"
      using both by (auto simp: version_at_least_iff)
    then show False by (cases i k rule: linorder_cases) auto
  qed
qed (simp add: version_at_least_iff)

section \<open>What the code does not check\<close>

text \<open>The slug of a model is trimmed for its validation only: a padded slug is accepted, and then no request finds
  the model by it.\<close>

lemma padded_slug_accepted: "valid_model (demo_model\<lparr>cm_slug := ''flash ''\<rparr>)"
proof -
  have "trim ''flash '' = ''flash''" "list_all slug_char ''flash''" by code_simp+
  then show ?thesis using demo_model_valid by (simp add: valid_model_def no_prompt_def)
qed

lemma padded_slug_not_found: "trim (cm_slug m) \<noteq> cm_slug m \<Longrightarrow> find (\<lambda>m. cm_slug m = trim s) ms \<noteq> Some m"
  using trim_trim by (auto simp: find_Some_iff)

text \<open>A model that only a user's settings declare is a copy of the first built-in one, with its upstream name: the
  user's model is sent as the built-in one. The default model of the catalog is sent under its own name, not under its
  upstream name.\<close>

lemma user_model_sent_as_builtin:
  "resolve_upstream_slug demo_catalog_env demo_document demo_config ''my-model'' = ''deepseek-v4-flash''"
proof -
  have t: "trim ''my-model'' = ''my-model''" "trim ''deepseek-v4-flash'' = ''deepseek-v4-flash''"
    "to_ascii_lowercase ''my-model'' \<noteq> to_ascii_lowercase ''deepseek-flash''" by code_simp+
  then show ?thesis
    by (simp add: resolve_upstream_slug_def Let_def model_for_request_def active_models layered_def demo_config_def
        merge_authoritative_def demo_document_def demo_model_def override_model_def to_catalog_model_def eq_ignore_ascii_case_def
        merge_model_def document_model_def upstream_slug_or_slug_def trimmed_extra_def extra_of_def apply_to_def when_some_def opt_filter_def)
qed

lemma default_model_sent_by_own_name:
  "default_slug demo_document = ''deepseek-flash''" "upstream_slug_for demo_document [] = ''deepseek-flash''"
  "upstream_slug_for demo_document ''deepseek-flash'' = ''deepseek-v4-flash''"
proof -
  have t: "trim ''deepseek-flash'' = ''deepseek-flash''" "trim [] = []" "trim ''deepseek-v4-flash'' = ''deepseek-v4-flash''" by code_simp+
  show "default_slug demo_document = ''deepseek-flash''" "upstream_slug_for demo_document [] = ''deepseek-flash''"
    "upstream_slug_for demo_document ''deepseek-flash'' = ''deepseek-v4-flash''"
    by (simp_all add: default_slug_def upstream_slug_for_def demo_document_def demo_model_def t model_for_request_def Let_def
        eq_ignore_ascii_case_def upstream_slug_or_slug_def trimmed_extra_def extra_of_def opt_filter_def)
qed

end
