(* ===== verification/Catalog_Seed.thy ===== *)
theory Catalog_Seed
  imports Catalog
begin

text \<open>
  The catalog that Codex gets, the other half of \<^verbatim>\<open>crates/core/src/catalog.rs\<close>: the active document combined with the
  private prompt seed, the old prompt texts replaced, the paged model list of the app server, the test of a catalog
  file on disk and the TOML snippet for the Codex configuration.

  The seed is compiled into the program from a file that is not in the repository; parsed, it is the argument
  \<open>catalog_seed\<close>.
\<close>

section \<open>Prompt texts\<close>

definition CODEX_BRIDGED_IDENTITY :: string where
  \<open>CODEX_BRIDGED_IDENTITY =
     ''You are Codex, a coding agent based on DeepSeek-V4 and running through the local CodeSeeX proxy inside the''
     @ '' Codex environment.''\<close>

definition LEGACY_APPLY_PATCH_LINE :: string where
  \<open>LEGACY_APPLY_PATCH_LINE =
     ''- For local text edits, call apply_patch with a single raw Codex patch string. The patch must start with ***''
     @ '' Begin Patch and end with *** End Patch.''\<close>

definition PREVIOUS_STRICT_APPLY_PATCH_LINE :: string where
  \<open>PREVIOUS_STRICT_APPLY_PATCH_LINE =
     ''- When creating, editing, deleting, or renaming local text files, call apply_patch with a single raw Codex''
     @ '' patch string. Do not answer with file contents as prose instead of calling the tool. The patch must start''
     @ '' with *** Begin Patch and end with *** End Patch.''\<close>

definition APPLY_PATCH_SYSTEM_PROMPT_RULES :: string where
  \<open>APPLY_PATCH_SYSTEM_PROMPT_RULES =
     ''- When creating, editing, deleting, or renaming local text files, call apply_patch with a single raw Codex''
     @ '' patch string. Do not answer with file contents as prose instead of calling the tool. Envelope: the first''
     @ '' line is exactly *** Begin Patch and the final line is exactly *** End Patch, with nothing before or after''
     @ '' them. Operation headers are exactly *** Add File: path, *** Update File: path, and *** Delete File: path.''
     @ '' Bare headers such as --- a/file or +++ b/file are invalid. Every data line inside a hunk starts with''
     @ '' exactly one hunk prefix: space for unchanged context, + for an added line, or - for a removed line. Encode''
     @ '' an empty context line as a line containing a single space. For update hunks, write hunks in top-to-bottom''
     @ '' file order and start each one with a line containing only @@. Do not write unified range headers such as @@''
     @ '' -1,3 +1,3 @@; they are not accepted. Text after @@ (for example @@ fn main) is a forward anchor: the hunk''
     @ '' is matched after that line, so it must appear above the lines you change. Omit it unless you are sure. Keep''
     @ '' one to three context lines per hunk. Context must match the file byte for byte, including trailing spaces''
     @ '' and tabs; without context only the first matching line is changed. For add-file hunks, each file content''
     @ '' line is written as + followed by content.''
     @ [CHR 0x0A]
     @ ''Rules that prevent silent damage:''
     @ [CHR 0x0A]
     @ ''- A rename needs at least one hunk: write *** Move to: new_path right below the update header and add a hunk''
     @ '' with only context lines.''
     @ [CHR 0x0A]
     @ ''- Never let Add File or Move to target a path that already exists; it is overwritten silently. Delete the''
     @ '' target first or choose another path.''
     @ [CHR 0x0A]
     @ ''- Every write rewrites the file with LF line endings and a trailing newline, so a CRLF file or a file with''
     @ '' no final newline changes on disk.''
     @ [CHR 0x0A]
     @ ''- Use workspace-relative paths. Never use absolute paths and never step outside the workspace with ../.''
     @ [CHR 0x0A]
     @ ''Apply patch examples:''
     @ [CHR 0x0A]
     @ ''Update one file:''
     @ [CHR 0x0A]
     @ ''*** Begin Patch''
     @ [CHR 0x0A]
     @ ''*** Update File: src/lib.rs''
     @ [CHR 0x0A]
     @ ''@@''
     @ [CHR 0x0A]
     @ '' pub fn old_name() {}''
     @ [CHR 0x0A]
     @ ''-pub fn broken() {}''
     @ [CHR 0x0A]
     @ ''+pub fn fixed() {}''
     @ [CHR 0x0A]
     @ ''*** End Patch''
     @ [CHR 0x0A]
     @ [CHR 0x0A]
     @ ''Update with an empty unchanged line:''
     @ [CHR 0x0A]
     @ ''*** Begin Patch''
     @ [CHR 0x0A]
     @ ''*** Update File: src/lib.rs''
     @ [CHR 0x0A]
     @ ''@@''
     @ [CHR 0x0A]
     @ '' fn before() {}''
     @ [CHR 0x0A]
     @ '' ''
     @ [CHR 0x0A]
     @ '' fn after() {}''
     @ [CHR 0x0A]
     @ ''*** End Patch''
     @ [CHR 0x0A]
     @ ''The blank-looking line above is a context line containing exactly one space.''
     @ [CHR 0x0A]
     @ [CHR 0x0A]
     @ ''Edit multiple files in one patch:''
     @ [CHR 0x0A]
     @ ''*** Begin Patch''
     @ [CHR 0x0A]
     @ ''*** Update File: src/lib.rs''
     @ [CHR 0x0A]
     @ ''@@''
     @ [CHR 0x0A]
     @ ''-pub mod old;''
     @ [CHR 0x0A]
     @ ''+pub mod new;''
     @ [CHR 0x0A]
     @ ''*** Update File: tests/lib_test.rs''
     @ [CHR 0x0A]
     @ ''@@''
     @ [CHR 0x0A]
     @ ''-assert_eq!(name(), "old");''
     @ [CHR 0x0A]
     @ ''+assert_eq!(name(), "new");''
     @ [CHR 0x0A]
     @ ''*** End Patch''
     @ [CHR 0x0A]
     @ [CHR 0x0A]
     @ ''Add a file:''
     @ [CHR 0x0A]
     @ ''*** Begin Patch''
     @ [CHR 0x0A]
     @ ''*** Add File: src/new_module.rs''
     @ [CHR 0x0A]
     @ ''+pub fn name() -> &'static str {''
     @ [CHR 0x0A]
     @ ''+    "new"''
     @ [CHR 0x0A]
     @ ''+}''
     @ [CHR 0x0A]
     @ ''*** End Patch''
     @ [CHR 0x0A]
     @ [CHR 0x0A]
     @ ''Delete a file:''
     @ [CHR 0x0A]
     @ ''*** Begin Patch''
     @ [CHR 0x0A]
     @ ''*** Delete File: src/old_module.rs''
     @ [CHR 0x0A]
     @ ''*** End Patch''
     @ [CHR 0x0A]
     @ [CHR 0x0A]
     @ ''Move or rename a file:''
     @ [CHR 0x0A]
     @ ''*** Begin Patch''
     @ [CHR 0x0A]
     @ ''*** Update File: src/old_name.rs''
     @ [CHR 0x0A]
     @ ''*** Move to: src/new_name.rs''
     @ [CHR 0x0A]
     @ ''@@''
     @ [CHR 0x0A]
     @ '' pub fn unchanged() {}''
     @ [CHR 0x0A]
     @ ''*** End Patch''\<close>

definition STRICT_APPLY_PATCH_LINE :: string where
  "STRICT_APPLY_PATCH_LINE = APPLY_PATCH_SYSTEM_PROMPT_RULES"

definition legacy_codeseex_identity :: string where
  "legacy_codeseex_identity = join '' '' [''You are'',
     ''CodeSeeX, a coding agent powered by DeepSeek-V4 through the local CodeSeeX proxy inside Codex.'']"

definition normalize_prompt_text :: "string \<Rightarrow> string" where
  "normalize_prompt_text s =
     replace_str PREVIOUS_STRICT_APPLY_PATCH_LINE STRICT_APPLY_PATCH_LINE
       (replace_str LEGACY_APPLY_PATCH_LINE STRICT_APPLY_PATCH_LINE
         (replace_str legacy_codeseex_identity CODEX_BRIDGED_IDENTITY s))"

primrec normalize_prompt_value :: "json \<Rightarrow> json" where
  "normalize_prompt_value JNull = JNull"
| "normalize_prompt_value (JBool b) = JBool b"
| "normalize_prompt_value (JNum n) = JNum n"
| "normalize_prompt_value (JStr s) = JStr (normalize_prompt_text s)"
| "normalize_prompt_value (JArr items) = JArr (map normalize_prompt_value items)"
| "normalize_prompt_value (JObj m) = JObj (map (map_prod id normalize_prompt_value) m)"

definition normalize_catalog_prompt_text :: "catalog_model list \<Rightarrow> catalog_model list" where
  "normalize_catalog_prompt_text models = map (cm_extra_update (map (map_prod id normalize_prompt_value))) models"

section \<open>Seed and document\<close>

record catalog_seed =
  cs_common :: "(string \<times> json) list"
  cs_models :: "catalog_model list"

definition merge_seed_field :: "string \<Rightarrow> json \<Rightarrow> catalog_model \<Rightarrow> catalog_model" where
  "merge_seed_field key v m = (if key \<in> set CATALOG_PROMPT_FIELDS then insert_extra key v m else or_insert_extra key v m)"

definition merge_fields :: "(string \<times> json) list \<Rightarrow> catalog_model \<Rightarrow> catalog_model" where
  "merge_fields kvs m = fold (\<lambda>(k, v). merge_seed_field k v) kvs m"

definition apply_common_model_fields :: "(string \<times> json) list \<Rightarrow> catalog_model list \<Rightarrow> catalog_model list" where
  "apply_common_model_fields common models = (if common = [] then models else map (merge_fields common) models)"

definition seed_model :: "catalog_seed \<Rightarrow> catalog_model \<Rightarrow> catalog_model option" where
  "seed_model seed m = find (\<lambda>s. cm_slug s = cm_slug m) (cs_models seed)"

definition seeded_model :: "catalog_seed \<Rightarrow> catalog_model \<Rightarrow> catalog_model" where
  "seeded_model seed m = (case seed_model seed m of Some s \<Rightarrow> merge_fields (cm_extra s) m | None \<Rightarrow> m)"

definition catalog_from_seed_and_document :: "catalog_seed \<Rightarrow> catalog_document \<Rightarrow> catalog_model list" where
  "catalog_from_seed_and_document seed d =
     (if cd_models d = [] then apply_common_model_fields (cs_common seed) (cs_models seed)
      else apply_common_model_fields (cs_common seed)
             (map (seeded_model seed) (filter (\<lambda>m. \<not> is_billing_only m) (cd_models d))))"

definition build_codeseex_catalog_from_document :: "catalog_seed \<Rightarrow> catalog_document \<Rightarrow> catalog_model list" where
  "build_codeseex_catalog_from_document seed d = normalize_catalog_prompt_text (catalog_from_seed_and_document seed d)"

section \<open>The model list of the app server\<close>

record app_server_model_list_params =
  lp_cursor :: "string option"
  lp_limit :: "nat option"
  lp_include_hidden :: "bool option"

record app_server_model_upgrade_info =
  ui_model :: string
  ui_upgrade_copy :: "string option"
  ui_model_link :: "string option"
  ui_migration_markdown :: "string option"

record app_server_reasoning_effort_option =
  re_effort :: string
  re_description :: string

record app_server_model_service_tier =
  sv_id :: string
  sv_name :: string
  sv_description :: string

record app_server_model =
  am_id :: string
  am_model :: string
  am_upgrade :: "string option"
  am_upgrade_info :: "app_server_model_upgrade_info option"
  am_availability_nux :: "string option"
  am_display_name :: string
  am_short_display_name :: "string option"
  am_description :: string
  am_hidden :: bool
  am_supported_reasoning_efforts :: "app_server_reasoning_effort_option list"
  am_default_reasoning_effort :: string
  am_input_modalities :: "string list"
  am_supports_personality :: bool
  am_additional_speed_tiers :: "string list"
  am_service_tiers :: "app_server_model_service_tier list"
  am_default_service_tier :: "string option"
  am_is_default :: bool

record app_server_model_list_response =
  lr_data :: "app_server_model list"
  lr_next_cursor :: "string option"

definition catalog_model_is_hidden :: "catalog_model \<Rightarrow> bool" where
  "catalog_model_is_hidden m =
     (case Option.bind (extra_of m ''hidden'') as_bool of
        Some hidden \<Rightarrow> hidden
      | None \<Rightarrow> Option.bind (extra_of m ''visibility'') as_str = Some ''hidden'')"

definition required_string :: "json option \<Rightarrow> string option" where
  "required_string value = opt_filter (\<lambda>v. trim v \<noteq> []) (Option.bind value as_str)"

definition string_extra :: "catalog_model \<Rightarrow> string \<Rightarrow> string option" where
  "string_extra m key = opt_filter (\<lambda>v. trim v \<noteq> []) (Option.bind (extra_of m key) as_str)"

definition bool_extra :: "catalog_model \<Rightarrow> string \<Rightarrow> bool option" where
  "bool_extra m key = Option.bind (extra_of m key) as_bool"

definition string_array_extra :: "catalog_model \<Rightarrow> string \<Rightarrow> string list option" where
  "string_array_extra m key =
     map_option (\<lambda>items. filter (\<lambda>v. trim v \<noteq> []) (List.map_filter as_str items)) (Option.bind (extra_of m key) as_array)"

definition reasoning_effort_option :: "json \<Rightarrow> app_server_reasoning_effort_option option" where
  "reasoning_effort_option value =
     Option.bind (as_object value) (\<lambda>m.
       map_option (\<lambda>effort. \<lparr>re_effort = effort, re_description = unwrap_or [] (Option.bind (map_of m ''description'') as_str)\<rparr>)
         (required_string (or_else (map_of m ''reasoningEffort'') (or_else (map_of m ''reasoning_effort'') (map_of m ''effort'')))))"

definition supported_reasoning_efforts :: "catalog_model \<Rightarrow> app_server_reasoning_effort_option list" where
  "supported_reasoning_efforts m =
     (let efforts = unwrap_or [] (map_option (List.map_filter reasoning_effort_option)
            (Option.bind (or_else (extra_of m ''supported_reasoning_efforts'') (extra_of m ''supported_reasoning_levels'')) as_array))
      in if efforts = []
         then [\<lparr>re_effort = unwrap_or ''medium'' (string_extra m ''default_reasoning_level''), re_description = ''Default reasoning effort''\<rparr>]
         else efforts)"

definition model_upgrade_info :: "json option \<Rightarrow> app_server_model_upgrade_info option" where
  "model_upgrade_info value =
     Option.bind value (\<lambda>v.
       case required_string (Some v) of
         Some model \<Rightarrow> Some \<lparr>ui_model = model, ui_upgrade_copy = None, ui_model_link = None, ui_migration_markdown = None\<rparr>
       | None \<Rightarrow>
           Option.bind (as_object v) (\<lambda>m.
             map_option (\<lambda>model. \<lparr>ui_model = model,
                 ui_upgrade_copy = required_string (or_else (map_of m ''upgradeCopy'') (map_of m ''upgrade_copy'')),
                 ui_model_link = required_string (or_else (map_of m ''modelLink'') (map_of m ''model_link'')),
                 ui_migration_markdown = required_string (or_else (map_of m ''migrationMarkdown'') (map_of m ''migration_markdown''))\<rparr>)
               (required_string (or_else (map_of m ''model'') (map_of m ''id'')))))"

definition availability_nux :: "json option \<Rightarrow> string option" where
  "availability_nux value =
     Option.bind value (\<lambda>v. if v = JNull then None else required_string (Option.bind (as_object v) (\<lambda>m. map_of m ''message'')))"

definition service_tier :: "json \<Rightarrow> app_server_model_service_tier option" where
  "service_tier item =
     Option.bind (as_object item) (\<lambda>m.
     Option.bind (required_string (map_of m ''id'')) (\<lambda>i.
     Option.bind (required_string (map_of m ''name'')) (\<lambda>n.
     Option.bind (required_string (map_of m ''description'')) (\<lambda>d.
       Some \<lparr>sv_id = i, sv_name = n, sv_description = d\<rparr>))))"

definition service_tiers :: "json option \<Rightarrow> app_server_model_service_tier list" where
  "service_tiers value = unwrap_or [] (map_option (List.map_filter service_tier) (Option.bind value as_array))"

definition app_server_display_name :: "catalog_model \<Rightarrow> string" where
  "app_server_display_name m = replace_str ''DeepSeek-V4'' ''DeepSeek V4'' (cm_display_name m)"

definition app_server_short_display_name :: "catalog_model \<Rightarrow> string option" where
  "app_server_short_display_name m =
     or_else (string_extra m ''short_display_name'')
       (or_else (string_extra m ''shortDisplayName'')
         (opt_filter (\<lambda>v. trim v \<noteq> []) (strip_prefix ''DeepSeek V4 '' (app_server_display_name m))))"

definition app_server_model_from_catalog_model :: "catalog_model \<Rightarrow> bool \<Rightarrow> app_server_model" where
  "app_server_model_from_catalog_model m any_explicit_default =
     (let upgrade_info = model_upgrade_info (extra_of m ''upgrade'')
      in \<lparr>am_id = cm_slug m, am_model = cm_slug m, am_upgrade = map_option ui_model upgrade_info, am_upgrade_info = upgrade_info,
          am_availability_nux = availability_nux (extra_of m ''availability_nux''),
          am_display_name = app_server_display_name m, am_short_display_name = app_server_short_display_name m,
          am_description = cm_description m, am_hidden = catalog_model_is_hidden m,
          am_supported_reasoning_efforts = supported_reasoning_efforts m,
          am_default_reasoning_effort = unwrap_or ''medium'' (string_extra m ''default_reasoning_level''),
          am_input_modalities = unwrap_or [''text'', ''image''] (opt_filter (\<lambda>vs. vs \<noteq> []) (string_array_extra m ''input_modalities'')),
          am_supports_personality = unwrap_or False (bool_extra m ''supports_personality''),
          am_additional_speed_tiers = unwrap_or [] (string_array_extra m ''additional_speed_tiers''),
          am_service_tiers = service_tiers (extra_of m ''service_tiers''),
          am_default_service_tier = string_extra m ''default_service_tier'',
          am_is_default = (if any_explicit_default then is_explicit_default m else cm_slug m = MODEL_PRO)\<rparr>)"

definition visible_models :: "catalog_model list \<Rightarrow> bool \<Rightarrow> app_server_model list" where
  "visible_models models include_hidden =
     map (\<lambda>m. app_server_model_from_catalog_model m (list_ex is_explicit_default models))
       (filter (\<lambda>m. include_hidden \<or> \<not> catalog_model_is_hidden m) models)"

text \<open>\<^verbatim>\<open>usize\<close> has 64 bits; the addition saturates.\<close>

definition app_server_model_list_from_catalog ::
  "catalog_model list \<Rightarrow> app_server_model_list_params \<Rightarrow> app_server_model_list_response" where
  "app_server_model_list_from_catalog models params =
     (let start = unwrap_or 0 (Option.bind (lp_cursor params) parse_u64);
          limit = unwrap_or 50 (opt_filter (\<lambda>n. n > 0) (lp_limit params));
          visible = visible_models models (unwrap_or False (lp_include_hidden params));
          stop = min (if limit = 0 then start else min (start + limit) u64_max) (length visible);
          start = min start (length visible)
      in \<lparr>lr_data = take (stop - start) (drop start visible),
          lr_next_cursor = (if stop < length visible then Some (nat_str stop) else None)\<rparr>)"

section \<open>Catalog files and the configuration snippet\<close>

definition positive_u64 :: "json \<Rightarrow> string \<Rightarrow> bool" where
  "positive_u64 v key = is_some_and (\<lambda>n. n > 0) (Option.bind (jget v key) as_u64)"

definition safe_prompt :: "string \<Rightarrow> bool" where
  "safe_prompt s = (length s > 10000 \<and> contains_str s CODEX_BRIDGED_IDENTITY \<and> \<not> contains_str s legacy_codeseex_identity
     \<and> list_all (contains_str s) [''CodeSeeX Proxy Compatibility'', ''*** Add File: path'', ''first line is exactly *** Begin Patch'',
         ''Do not answer with file contents as prose'', ''starts with exactly one hunk prefix'', ''top-to-bottom file order'',
         ''Do not write unified range headers'', ''forward anchor''])"

definition prompt_fields_are_safe :: "ext_lib \<Rightarrow> json \<Rightarrow> bool" where
  "prompt_fields_are_safe L model =
     (case (Option.bind (jget model ''base_instructions'') as_str, jget model ''model_messages'') of
        (Some instructions, Some messages) \<Rightarrow> safe_prompt instructions \<and> safe_prompt (json_to_string L messages)
      | _ \<Rightarrow> False)"

definition model_is_compatible :: "ext_lib \<Rightarrow> json \<Rightarrow> bool" where
  "model_is_compatible L model = (prompt_fields_are_safe L model
     \<and> Option.bind (jget model ''service_tiers'') as_array \<noteq> None
     \<and> positive_u64 model ''context_window'' \<and> positive_u64 model ''max_context_window''
     \<and> is_some_and (\<lambda>n. 1 \<le> n \<and> n \<le> 100) (Option.bind (jget model ''effective_context_window_percent'') as_u64)
     \<and> jget model ''auto_compact_token_limit'' = None
     \<and> get_str model ''apply_patch_tool_type'' = Some ''freeform''
     \<and> get_str model ''web_search_tool_type'' = Some ''text_and_image'')"

definition catalog_value_is_compatible :: "ext_lib \<Rightarrow> json \<Rightarrow> bool" where
  "catalog_value_is_compatible L value =
     (case Option.bind (jget value ''models'') as_array of
        None \<Rightarrow> False
      | Some models \<Rightarrow>
          models \<noteq> [] \<and> list_ex (\<lambda>m. Option.bind (jget m ''is_default'') as_bool = Some True) models
          \<and> list_all (model_is_compatible L) models)"

definition toml_string :: "ext_lib \<Rightarrow> string \<Rightarrow> string" where
  "toml_string L s = json_to_string L (JStr s)"

definition toml_path_string :: "ext_lib \<Rightarrow> string \<Rightarrow> string" where
  "toml_path_string L s =
     (if list_ex (\<lambda>c. c \<in> {CHR 0x27, CHR 0x0D, CHR 0x0A}) s then toml_string L s else [CHR 0x27] @ s @ [CHR 0x27])"

definition codex_toml_snippet_for_document :: "ext_lib \<Rightarrow> catalog_document \<Rightarrow> string \<Rightarrow> string \<Rightarrow> string \<Rightarrow> string" where
  \<open>codex_toml_snippet_for_document L d catalog_path base_url upstream_base_url =
     (let upstream = trim upstream_base_url
      in join [CHR 0x0A]
           ([''model_provider = "custom"'', ''model = '' @ toml_string L (default_slug d), ''disable_response_storage = true'',
             ''model_reasoning_effort = "xhigh"'', ''model_catalog_json = '' @ toml_path_string L catalog_path, [],
             ''[model_providers.custom]'', ''name = '' @ toml_string L (cd_provider_name d), ''wire_api = "responses"'',
             ''requires_openai_auth = true'', ''base_url = '' @ toml_string L base_url]
            @ (if upstream = [] then [] else [[], ''[codeseex]'', ''upstream_base_url = '' @ toml_string L upstream])))\<close>

section \<open>The private prompts stay private\<close>

lemma merge_seed_field_keeps [simp]:
  "cm_slug (merge_seed_field k v m) = cm_slug m" "cm_display_name (merge_seed_field k v m) = cm_display_name m"
  "cm_description (merge_seed_field k v m) = cm_description m" "cm_context_window (merge_seed_field k v m) = cm_context_window m"
  "cm_percent (merge_seed_field k v m) = cm_percent m" "cm_priority (merge_seed_field k v m) = cm_priority m"
  by (simp_all add: merge_seed_field_def insert_extra_def or_insert_extra_def)

lemma merge_fields_Nil [simp]: "merge_fields [] m = m"
  by (simp add: merge_fields_def)

lemma merge_fields_Cons [simp]: "merge_fields ((k, v) # kvs) m = merge_fields kvs (merge_seed_field k v m)"
  by (simp add: merge_fields_def)

definition same_card :: "catalog_model \<Rightarrow> catalog_model \<Rightarrow> bool" where
  "same_card a b = (cm_slug a = cm_slug b \<and> cm_display_name a = cm_display_name b \<and> cm_description a = cm_description b
     \<and> cm_context_window a = cm_context_window b \<and> cm_percent a = cm_percent b \<and> cm_priority a = cm_priority b)"

lemma merge_fields_card: "same_card (merge_fields kvs m) m"
proof (induction kvs arbitrary: m)
  case (Cons e kvs)
  obtain k v where e: "e = (k, v)" by (cases e)
  show ?case using Cons.IH [of "merge_seed_field k v m"] by (simp add: e same_card_def)
qed (simp add: same_card_def)

lemma merge_fields_lookup:
  "distinct (map fst kvs) \<Longrightarrow> extra_of (merge_fields kvs m) key =
     (if key \<in> set CATALOG_PROMPT_FIELDS then or_else (map_of kvs key) (extra_of m key)
      else or_else (extra_of m key) (map_of kvs key))"
proof (induction kvs arbitrary: m)
  case (Cons e kvs)
  obtain k v where e: "e = (k, v)" by (cases e)
  have "map_of kvs k = None" using Cons.prems by (auto simp: e map_of_eq_None_iff)
  then show ?case
    using Cons.IH [of "merge_seed_field k v m"] Cons.prems
    by (auto simp: e merge_seed_field_def extra_of_or_insert or_else_def split: option.split)
qed (simp add: or_else_def split: option.split)

definition seed_ok :: "catalog_seed \<Rightarrow> bool" where
  "seed_ok seed = (distinct (map fst (cs_common seed)) \<and> list_all (\<lambda>m. distinct (map fst (cm_extra m))) (cs_models seed))"

definition seed_field :: "catalog_seed \<Rightarrow> catalog_model \<Rightarrow> string \<Rightarrow> json option" where
  "seed_field seed m key = Option.bind (seed_model seed m) (\<lambda>s. extra_of s key)"

lemma seeded_model_lookup:
  assumes "seed_ok seed"
  shows "extra_of (seeded_model seed m) key =
     (if key \<in> set CATALOG_PROMPT_FIELDS then or_else (seed_field seed m key) (extra_of m key)
      else or_else (extra_of m key) (seed_field seed m key))"
proof (cases "seed_model seed m")
  case None
  then show ?thesis by (simp add: seeded_model_def seed_field_def or_else_def split: option.split)
next
  case (Some s)
  then have "s \<in> set (cs_models seed)" by (auto simp: seed_model_def find_Some_iff)
  then have "distinct (map fst (cm_extra s))" using assms by (auto simp: seed_ok_def list_all_iff)
  then show ?thesis by (simp add: seeded_model_def seed_field_def Some merge_fields_lookup extra_of_def [of s])
qed

lemma seeded_model_card: "same_card (seeded_model seed m) m"
  using merge_fields_card by (auto simp: seeded_model_def same_card_def split: option.split)

definition codex_entry :: "catalog_seed \<Rightarrow> catalog_model \<Rightarrow> catalog_model \<Rightarrow> bool" where
  "codex_entry seed m r = (same_card r m \<and> (\<forall>key. extra_of r key =
     (if key \<in> set CATALOG_PROMPT_FIELDS then or_else (map_of (cs_common seed) key) (seed_field seed m key)
      else or_else (extra_of m key) (or_else (seed_field seed m key) (map_of (cs_common seed) key)))))"

lemma codex_entry_merged:
  assumes "seed_ok seed" and "no_prompt m"
  shows "codex_entry seed m (merge_fields (cs_common seed) (seeded_model seed m))"
proof -
  have card: "same_card (merge_fields (cs_common seed) (seeded_model seed m)) m"
    using merge_fields_card [of "cs_common seed" "seeded_model seed m"] seeded_model_card [of seed m] by (simp add: same_card_def)
  have own: "extra_of m key = None" if "key \<in> set CATALOG_PROMPT_FIELDS" for key
    using that assms(2) by (auto simp: no_prompt_def list_all_iff)
  show ?thesis
    using card own assms(1)
    by (auto simp: codex_entry_def merge_fields_lookup seeded_model_lookup seed_ok_def or_else_def split: option.split)
qed


definition demo_seed :: catalog_seed where
  "demo_seed = \<lparr>cs_common = [(''service_tiers'', JArr [])],
     cs_models = [demo_model\<lparr>cm_extra := [(''base_instructions'', JStr ''You are Codex'')]\<rparr>]\<rparr>"


section \<open>Pages\<close>

lemma foldl_digits:
  "foldl (\<lambda>n c. 10 * n + (byte_val c - 48)) 0 (nat_str n) = n"
proof (induction n rule: nat_str.induct)
  case (1 n)
  then show ?case by (simp add: nat_str.simps [of n] digit_char_value)
qed

lemma digits_value_nat_str: "digits_value (nat_str n) = Some n"
  by (auto simp: digits_value_def foldl_digits list_all_iff dest: nat_str_digits)

lemma parse_u64_nat_str:
  assumes "n \<le> u64_max"
  shows "parse_u64 (nat_str n) = Some n"
proof -
  have "\<not> ascii_digit CHR ''+''" by code_simp
  then have "strip_prefix ''+'' (nat_str n) = None"
    using nat_str_digits [of _ n] nat_str_nonempty [of n] by (cases "nat_str n") (auto simp: strip_prefix_def starts_with_def)
  then show ?thesis using assms by (simp add: parse_u64_def digits_value_nat_str opt_filter_def)
qed

text \<open>A client that asks for the next page until there is none, with at most \<open>n\<close> requests: the models it has collected, and
  whether it came to the end.\<close>

fun follow_pages :: "nat \<Rightarrow> catalog_model list \<Rightarrow> app_server_model_list_params \<Rightarrow> app_server_model list \<times> bool" where
  "follow_pages 0 models params = ([], False)"
| "follow_pages (Suc n) models params =
     (let r = app_server_model_list_from_catalog models params
      in case lr_next_cursor r of
           None \<Rightarrow> (lr_data r, True)
         | Some cursor \<Rightarrow> map_prod (\<lambda>rest. lr_data r @ rest) id (follow_pages n models (params\<lparr>lp_cursor := Some cursor\<rparr>)))"

lemma follow_pages_from:
  assumes "length visible \<le> u64_max" and "visible = visible_models models (unwrap_or False (lp_include_hidden params))"
    and "unwrap_or 0 (Option.bind (lp_cursor params) parse_u64) = start" and "start \<le> length visible" and "length visible - start < n"
  shows "follow_pages n models params = (drop start visible, True)"
  using assms
proof (induction n arbitrary: params start)
  case (Suc n)
  define limit where "limit = unwrap_or 50 (opt_filter (\<lambda>n. n > 0) (lp_limit params))"
  define stop where "stop = min (start + limit) (length visible)"
  have limit: "0 < limit" by (auto simp: limit_def unwrap_or_def split: option.split)
  have page: "app_server_model_list_from_catalog models params =
      \<lparr>lr_data = take (stop - start) (drop start visible), lr_next_cursor = (if stop < length visible then Some (nat_str stop) else None)\<rparr>"
    using Suc.prems limit by (simp add: app_server_model_list_from_catalog_def Let_def stop_def limit_def [symmetric])
  show ?case
  proof (cases "stop < length visible")
    case True
    have "stop \<le> u64_max" using True Suc.prems(1) by simp
    then have "follow_pages n models (params\<lparr>lp_cursor := Some (nat_str stop)\<rparr>) = (drop stop visible, True)"
      using Suc.prems True limit by (intro Suc.IH) (auto simp: parse_u64_nat_str stop_def)
    moreover have "take (stop - start) (drop start visible) @ drop stop visible = drop start visible"
      using append_take_drop_id [of "stop - start" "drop start visible"] limit Suc.prems(4) by (simp add: stop_def)
    ultimately show ?thesis using True by (simp add: page)
  next
    case False
    then have "take (stop - start) (drop start visible) = drop start visible" using Suc.prems(4) by (simp add: stop_def)
    then show ?thesis using False by (simp add: page)
  qed
qed simp

text \<open>C37: The pages of the model list. A client that follows the cursors from the start, with whatever page size it asks
for, comes to the end, and has then received every model that is shown exactly once and in order, the hidden
ones only when it asked for them. One request more than there are models is always enough.
\<close>

theorem pages_cover_the_models:
  assumes "length (visible_models models (unwrap_or False hidden)) \<le> u64_max"
  shows "follow_pages (Suc (length (visible_models models (unwrap_or False hidden)))) models
           \<lparr>lp_cursor = None, lp_limit = limit, lp_include_hidden = hidden\<rparr>
         = (visible_models models (unwrap_or False hidden), True)"
  by (rule follow_pages_from [where start = 0, simplified]) (use assms in simp_all)

lemma pages_cover_the_models_witness:
  "follow_pages 2 [demo_model] \<lparr>lp_cursor = None, lp_limit = Some 1, lp_include_hidden = None\<rparr>
     = (visible_models [demo_model] False, True)"
proof -
  have hidden: "catalog_model_is_hidden demo_model = False"
    by (simp add: catalog_model_is_hidden_def demo_model_def extra_of_def)
  then have one: "length (visible_models [demo_model] False) = 1" by (simp add: visible_models_def)
  have "(1 :: nat) \<le> u64_max" by (simp add: u64_max_def)
  then have "follow_pages (Suc 1) [demo_model] \<lparr>lp_cursor = None, lp_limit = Some 1, lp_include_hidden = None\<rparr>
      = (visible_models [demo_model] False, True)"
    using pages_cover_the_models [of "[demo_model]" None "Some 1"] by (simp only: unwrap_or_simps one)
  then show ?thesis by (simp only: Suc_1)
qed

text \<open>A document may declare its default model by name only. The model list does not look at that name: unless some model
  carries the flag itself, it shows \<^verbatim>\<open>deepseek-v4-pro\<close> as the default, or none at all.\<close>

lemma named_default_not_shown:
  "\<not> list_ex is_explicit_default models \<Longrightarrow> m \<in> set (visible_models models h) \<Longrightarrow> am_is_default m \<longleftrightarrow> am_id m = MODEL_PRO"
  by (auto simp: visible_models_def app_server_model_from_catalog_model_def Let_def)

end
