(* ===== verification/Spec2Isabelle.thy ===== *)
theory Spec2Isabelle
  imports Budget Native_Coordinator Canonical_Sessions Tool_Loop Patch_Normalize Tool_Context
    Visible_Bridge Reasoning_Summary Request_Store Access Web_Safety
    Namespace_Reconcile Reasoning_Mirror Web_Fetch Native_Hosted_Loop Upstream_Auth Catalog_Seed
begin

text \<open>
  CodeSeeX is a local proxy between the Codex client and the DeepSeek API. Codex speaks the Responses API; the
  provider is reached either through its chat API (the chat route) or through a Responses API of its own (the
  native route). The proxy compiles the client's history into messages, publishes the client's and its own
  tools under names the provider accepts, runs the tools it owns itself, hands the others to the client, streams
  the answer back in the client's vocabulary, and keeps a store of requests from which later requests continue.
  This library models the core of that program, the Rust crates \<^verbatim>\<open>core\<close>, \<^verbatim>\<open>store\<close> and \<^verbatim>\<open>proxy\<close>, as executable
  functions, and proves what makes its parts correct. Paths below are relative to \<^verbatim>\<open>crates/\<close>.

  \<^bold>\<open>How a request runs through the program, and where its parts are modelled.\<close>

  \<^item> Admission. \<open>Access\<close> (\<^verbatim>\<open>proxy/src/server/access.rs\<close>): the guards of the \<^verbatim>\<open>/v1\<close> routes and of the manager API.
  \<^item> Shared shapes. \<open>Json\<close> (values as \<^verbatim>\<open>serde_json\<close> has them), \<open>Chat_Messages\<close> (\<^verbatim>\<open>core/src/protocol.rs\<close> and the text
    helpers of \<^verbatim>\<open>core/src/context.rs\<close>), \<open>Usage\<close> (\<^verbatim>\<open>proxy/src/responses/usage.rs\<close>).
  \<^item> History to messages. \<open>Context_Compiler\<close> (\<^verbatim>\<open>core/src/context.rs\<close>), \<open>Budget\<close> (\<^verbatim>\<open>responses/context/budget.rs\<close>),
    \<open>Canonical_Sessions\<close> (\<^verbatim>\<open>responses/canonical.rs\<close>).
  \<^item> Tools. \<open>Tool_Context\<close> (\<^verbatim>\<open>tool_passthrough.rs\<close>: the client's tools), \<open>Tool_Definitions\<close> and \<open>Tool_Ownership\<close>
    (\<^verbatim>\<open>tools/definitions.rs\<close>, \<^verbatim>\<open>tools/ownership.rs\<close>: the built-in tools and who executes a call), \<open>Tool_Loop_Guard\<close>
    (\<^verbatim>\<open>tools/diagnostics.rs\<close>).
  \<^item> The chat route. \<open>Stream_Tool_Calls\<close> (fragments of calls), \<open>Deepseek_Protocol\<close> (calls written into the text),
    \<open>Tool_Loop\<close> (\<^verbatim>\<open>tools/coordinator.rs\<close>, \<^verbatim>\<open>chat_protocol.rs\<close>, \<^verbatim>\<open>hosted.rs\<close>: request, run the tools, answer, repeat).
  \<^item> What the client sees of it. \<open>Response_Sse\<close> (\<^verbatim>\<open>response_sse.rs\<close>), \<open>Visible_Bridge\<close>, \<open>Json_Field_Stream\<close> and
    \<open>Patch_Normalize\<close> (\<^verbatim>\<open>stream_tool_calls/visible_bridge.rs\<close> and \<^verbatim>\<open>tools/response_items.rs\<close>: calls shown while
    they are written, patches repaired on the way), \<open>Reasoning_Summary\<close> (\<^verbatim>\<open>reasoning_summary.rs\<close>).
  \<^item> The native route. \<open>Native_Tools\<close>, \<open>Namespace_Reconcile\<close>, \<open>Native_Inspector\<close>, \<open>Native_Relay\<close>, \<open>Reasoning_Mirror\<close>
    (\<^verbatim>\<open>native_responses.rs\<close>), \<open>Native_Payload\<close> and \<open>Native_Hosted_Loop\<close> (\<^verbatim>\<open>server/native_runtime.rs\<close>),
    \<open>Search_Presentation\<close> (\<^verbatim>\<open>server/native_search_presentation.rs\<close>), \<open>Native_Coordinator\<close> (\<^verbatim>\<open>native_coordinator.rs\<close>).
  \<^item> The web search tool. \<open>Web_Request\<close>, \<open>Web_Safety\<close>, \<open>Web_Fetch\<close>, \<open>Web_Text\<close> (\<^verbatim>\<open>tools/web/\<close>: its arguments, which targets
    may be contacted, the fetch with its redirects, what of a page reaches the model).
  \<^item> The store. \<open>Store_Text\<close>, \<open>Handoff_Guard\<close>, \<open>Request_Store\<close> (\<^verbatim>\<open>store/src/store.rs\<close>, \<^verbatim>\<open>store/handoff_guard.rs\<close>).
  \<^item> The provider side. \<open>Upstream_Auth\<close> (\<^verbatim>\<open>core/src/urls.rs\<close>, \<^verbatim>\<open>upstream.rs\<close>: addresses, identity headers, credential),
    \<open>Pricing\<close> (\<^verbatim>\<open>core/src/pricing.rs\<close>) \<open>Catalog\<close> and \<open>Catalog_Seed\<close> (\<^verbatim>\<open>core/src/models.rs\<close>, \<^verbatim>\<open>catalog.rs\<close>: which model
    a name means, and the catalog that Codex gets).

  \<open>Prelude\<close>, \<open>Ascii_Text\<close>, \<open>Keyed_Maps\<close> and \<open>Stream_Machines\<close> hold what the components share: Rust's texts and
  collections, the eviction loop of the bounded stores, and stream transducers.

  \<^bold>\<open>How state and operations correspond.\<close> A struct is a record with the code's fields, an enum a datatype with its
  variants, a method a function with the code's branches and early returns. A text is its UTF-8 bytes, so that
  lengths and offsets are those of the code. Counters are naturals with saturation or wrap-around written out
  where the code has them; IP addresses are words; a finite \<^verbatim>\<open>f64\<close> of the prices is a rational. A \<^verbatim>\<open>BTreeMap\<close> is its
  sorted list of entries, a \<^verbatim>\<open>HashMap\<close> a list with distinct keys in unspecified order, a \<^verbatim>\<open>Result\<close> a sum and an
  \<^verbatim>\<open>Option\<close> an option. A method behind a lock is one step on the state. The two tool loops and the page fetch
  record what they do to the outside as a trace: what is posted, executed, stored or fetched, in order.

  \<^bold>\<open>What is a parameter.\<close> JSON printing and parsing, SHA-256 and base64 (\<open>ext_lib\<close>), the store's hash and secret
  patterns (\<open>store_lib\<close>), URL parsing (\<open>url_lib\<close>, \<open>url_host\<close>, \<open>upstream_lib\<close>), the name service and the network
  (\<open>fetch_env\<close>), the upstream model, the tool implementations and the store as the loops see them (\<open>loop_env\<close>,
  \<open>hosted_env\<close>), the sizes of printed messages (\<open>size_lib\<close>), the clock, generated identifiers, and the rounding of
  prices. A loop environment may answer anything, as a function of the whole trace so far, so the theorems on the
  loops hold for every provider, every tool and every store. A theorem that needs a law of a parameter (that
  printing and parsing JSON are inverse, say) has it as a hypothesis, with a witness.

  \<^bold>\<open>What the groups of lemmas show.\<close>

  \<^item> Protocol invariants: compiled and budgeted messages keep every assistant message together with one tool
    message per call; every round of the loops answers every call; hosted rounds are replayed whole and once;
    grouping outputs with their calls loses nothing.
  \<^item> Termination: each tool loop ends after at most eight upstream requests whatever the outside answers, with the
    request finished in the store. No fuel is used for it: the recursion is on the rounds that are left. A run that
    is cut short by an error is a value of the result.
  \<^item> Streams do not depend on how they are cut into chunks: patches, extracted JSON fields, event frames, the relay
    and the inspector; each is proved against its batch counterpart or its account of the events.
  \<^item> Safety: who is let in, which addresses a page is fetched from after every redirect, which credential leaves
    the machine, that the provider's response identity and opaque payloads stay hidden.
  \<^item> The stores: the invariant of the request store in every reachable state, its context chain, eviction that is
    reported, and the bounds of all tables.
  \<^item> Names, tools and prices: upstream tool names are valid, distinct and route back; repeated groups are merged as
    the abstract operation does; catalog documents and price tables are validated and survive writing and reading.

  \<^bold>\<open>Interfaces.\<close> \<open>kv_map\<close> (what clients rely on of a keyed collection, interpreted by the sorted and the hashed map),
  \<open>aged_store\<close> (a keyed collection with stamps and a capacity, interpreted by the canonical sessions and the hosted
  rounds), and \<open>stream_machine\<close> with \<open>step_machine\<close> (interpreted by the patch normaliser, the field extractor and the
  frame reader).

  \<^bold>\<open>Bounds and recursion.\<close> Loops over data recurse on it or on a measure proved to decrease. The tool loops recurse on
  the rounds left (eight), the page fetch on the redirects left (five, hence six GETs), the search for a free
  upstream tool name on the 10,000 numbered candidates left; the store evicts until its caps hold. None needs fuel.

  \<^bold>\<open>Not modelled.\<close> The HTTP server and its async streaming generators (axum, timers, client cancellation), the desktop
  shell, the manager service, the control of the Codex application, configuration files and the key store, and the
  log and event records for display: they are I/O around the operations above and hold no state of their own that
  the operations depend on; where a modelled operation reads them they are its arguments. The vision tools, the
  community tools and the providers of web search (page parsers and floating-point ranking) are parameters as tool
  implementations. Of the store the persistence of statistics and the listings for the manager page, of the catalog
  its files and its download, and of the response handlers the assembly of the history from
  stored responses and its compaction are left out. Memory limits of the machine and the width of counters that count the events of
  one response are not modelled.
\<close>

end
